(* ===== verification/Prelude.thy ===== *)
theory Prelude
  imports Main "HOL-Library.Word" "HOL-Library.Monad_Syntax"
begin

text \<open>
  Shared vocabulary of the development: the machine integers of the 16-bit kernel build
  (\<^verbatim>\<open>hdr/portab.h\<close>), the result codes of \<^verbatim>\<open>hdr/error.h\<close>, and generic lemmas on words
  and function updates that the component theories use.
\<close>

unbundle bit_operations_syntax

section \<open>Machine integers\<close>

type_synonym u8 = "8 word"
type_synonym u16 = "16 word"
type_synonym u32 = "32 word"

section \<open>Result codes\<close>

text \<open>
  \<^verbatim>\<open>COUNT\<close> results are small signed constants; they are read only by comparison, so they are
  integers here.
\<close>

abbreviation (input) SUCCESS :: int where "SUCCESS \<equiv> 0"
abbreviation (input) DE_INVLDFUNC :: int where "DE_INVLDFUNC \<equiv> -1"
abbreviation (input) DE_FILENOTFND :: int where "DE_FILENOTFND \<equiv> -2"
abbreviation (input) DE_PATHNOTFND :: int where "DE_PATHNOTFND \<equiv> -3"
abbreviation (input) DE_TOOMANY :: int where "DE_TOOMANY \<equiv> -4"
abbreviation (input) DE_ACCESS :: int where "DE_ACCESS \<equiv> -5"
abbreviation (input) DE_INVLDHNDL :: int where "DE_INVLDHNDL \<equiv> -6"
abbreviation (input) DE_MCBDESTRY :: int where "DE_MCBDESTRY \<equiv> -7"
abbreviation (input) DE_NOMEM :: int where "DE_NOMEM \<equiv> -8"
abbreviation (input) DE_INVLDMCB :: int where "DE_INVLDMCB \<equiv> -9"

section \<open>Collections of facts\<close>

named_theorems arena_simps \<open>rewriting with the memory arena\<close>
named_theorems ring_simps \<open>rewriting with the buffer ring\<close>
named_theorems fat_simps \<open>rewriting with the file allocation table\<close>
named_theorems flag_simps \<open>reading single bits of flag bytes\<close>

section \<open>Words read as natural numbers\<close>

lemma unat_u16_less [simp]: "unat (x :: u16) < 65536"
  using unsigned_less [of x, where ?'a = nat] by simp

lemma unat_u16_add:
  fixes a b :: u16
  assumes "unat a + unat b < 65536"
  shows "unat (a + b) = unat a + unat b"
  using assms by (simp add: unat_word_ariths)

lemma unat_u16_add1:
  fixes a b :: u16
  assumes "unat a + unat b + 1 < 65536"
  shows "unat (a + b + 1) = unat a + unat b + 1"
  using assms by (simp add: unat_word_ariths mod_simps)

lemma unat_u16_sub1:
  fixes a b :: u16
  assumes "b < a"
  shows "unat (a - b - 1) = unat a - unat b - 1"
proof -
  have "unat b < unat a" using assms by (simp add: word_less_nat_alt)
  moreover have "unat (a - b) = unat a - unat b"
    using assms by (simp add: unat_sub word_le_nat_alt word_less_nat_alt)
  ultimately show ?thesis
    by (simp add: unat_sub word_le_nat_alt)
qed

lemma unat_u16_mult: "unat a * unat b < 65536 \<Longrightarrow> unat (a * b) = unat a * unat b" for a b :: u16
  by (simp add: unat_word_ariths)

lemma unat_u32_less: "unat (x :: u32) < 4294967296"
  using unsigned_less [of x, where ?'a = nat] by simp

lemma unat_u32_add: "unat a + unat b < 4294967296 \<Longrightarrow> unat (a + b) = unat a + unat b" for a b :: u32
  by (simp add: unat_word_ariths)

lemma unat_u32_mult: "unat a * unat b < 4294967296 \<Longrightarrow> unat (a * b) = unat a * unat b" for a b :: u32
  by (simp add: unat_word_ariths)

lemma unat_ucast_u16: "unat (ucast (x :: u32) :: u16) = unat x mod 65536"
  by (simp add: unsigned_ucast_eq take_bit_eq_mod)

lemma unat_ucast_u32: "unat (ucast (x :: u16) :: u32) = unat x"
  using unat_u16_less [of x] by (simp add: unsigned_ucast_eq take_bit_eq_mod del: unat_u16_less)

lemma ucast_back: "unat (x :: u32) < 65536 \<Longrightarrow> ucast (ucast x :: u16) = x"
  by (simp add: word_unat_eq_iff unat_ucast_u16 unat_ucast_u32)

lemma ucast_scast [simp]: "ucast (scast (x :: u8) :: u16) = x"
proof (rule bit_word_eqI)
  fix n
  assume "n < LENGTH(8)"
  then have "min n 7 = n" by simp
  then show "bit (ucast (scast x :: u16) :: u8) n = bit x n" using \<open>n < LENGTH(8)\<close> by (simp add: bit_simps)
qed

lemma scast_u8_eq [simp]: "scast (x :: u8) = (scast y :: u16) \<longleftrightarrow> x = y"
  by (metis ucast_scast)

section \<open>Flags\<close>

lemma and_exp: "(x :: 'a::len word) AND 2 ^ n = (if bit x n then 2 ^ n else 0)"
  by (rule bit_word_eqI) (auto simp: bit_simps)

lemma flag_bits [flag_simps]:
  fixes x :: u8
  shows "x AND 0x40 = 0 \<longleftrightarrow> \<not> bit x 6" "x AND 0x20 = 0 \<longleftrightarrow> \<not> bit x 5" "x AND 8 = 0 \<longleftrightarrow> \<not> bit x 3"
    "x AND 4 = 0 \<longleftrightarrow> \<not> bit x 2" "x AND 2 = 0 \<longleftrightarrow> \<not> bit x 1" "x AND 1 = 0 \<longleftrightarrow> \<not> bit x 0"
  using and_exp_eq_0_iff_not_bit [of x 6] and_exp_eq_0_iff_not_bit [of x 5] and_exp_eq_0_iff_not_bit [of x 3]
    and_exp_eq_0_iff_not_bit [of x 2] and_exp_eq_0_iff_not_bit [of x 1] and_exp_eq_0_iff_not_bit [of x 0]
  by simp_all

lemma flag_valid_dirty [flag_simps]: "(x :: u8) AND 0x60 = 0x60 \<longleftrightarrow> bit x 5 \<and> bit x 6"
proof -
  have "x AND 0x60 = (x AND 0x20) OR (x AND 0x40)"
    using bit.conj_disj_distrib [of x "0x20" "0x40"] by simp
  then show ?thesis using and_exp [of x 5] and_exp [of x 6] by auto
qed

section \<open>Invariants of step relations\<close>

text \<open>
  The interface between a component's operations and the statements about runs: a step relation
  and an invariant that every step keeps.
\<close>

locale step_invariant =
  fixes step :: "'s \<Rightarrow> 's \<Rightarrow> bool" and inv :: "'s \<Rightarrow> bool"
  assumes step_inv: "inv s \<Longrightarrow> step s t \<Longrightarrow> inv t"
begin

lemma run_inv: "step\<^sup>*\<^sup>* s t \<Longrightarrow> inv s \<Longrightarrow> inv t"
  by (induction rule: rtranclp_induct) (auto intro: step_inv)

end

end
