(* ===== verification/KState.thy ===== *)
theory KState
  imports Prelude
begin

text \<open>
  The kernel data that the block layer and the FAT file system share: drive parameter blocks
  (\<^verbatim>\<open>hdr/dcb.h\<close>), current directory structures (\<^verbatim>\<open>hdr/cds.h\<close>), sector buffers
  (\<^verbatim>\<open>hdr/buffer.h\<close>), the request header of block transfers (\<^verbatim>\<open>hdr/device.h\<close>), and the
  routines that turn a drive number into its parameter block.

  Far pointers to kernel structures are 32-bit addresses with 0 for \<^verbatim>\<open>NULL\<close>; near offsets inside
  the segment of the buffers are 16-bit. An array of bytes in memory is a function from the
  byte offset; what lies behind its end is memory too. Everything outside the C code of the
  kernel is collected in \<^verbatim>\<open>platform\<close>: device drivers reached through \<^verbatim>\<open>execrh\<close>, the critical error
  handler and the network redirector act on an uninterpreted \<^verbatim>\<open>world\<close>.
\<close>

section \<open>Data\<close>

type_synonym bytes = "nat \<Rightarrow> u8"

record buffer =
  b_next :: u16
  b_prev :: u16
  b_unit :: u8
  b_flag :: u8
  b_blkno :: u32
  b_copies :: u8
  b_offset :: u16
  b_dpbp :: u32
  b_buffer :: bytes

abbreviation (input) BFR_DIRTY :: u8 where "BFR_DIRTY \<equiv> 0x40"
abbreviation (input) BFR_VALID :: u8 where "BFR_VALID \<equiv> 0x20"
abbreviation (input) BFR_DATA :: u8 where "BFR_DATA \<equiv> 0x08"
abbreviation (input) BFR_DIR :: u8 where "BFR_DIR \<equiv> 0x04"
abbreviation (input) BFR_FAT :: u8 where "BFR_FAT \<equiv> 0x02"
abbreviation (input) BFR_UNCACHE :: u8 where "BFR_UNCACHE \<equiv> 0x01"

text \<open>
  \<^verbatim>\<open>dpb_nfreeclst\<close> is the low word of the union it shares with \<^verbatim>\<open>dpb_xnfreeclst\<close>, so only the
  latter is a field.
\<close>

record dpb =
  dpb_unit :: u8
  dpb_subunit :: u8
  dpb_secsize :: u16
  dpb_clsmask :: u8
  dpb_shftcnt :: u8
  dpb_fatstrt :: u16
  dpb_fats :: u8
  dpb_dirents :: u16
  dpb_data :: u16
  dpb_size :: u16
  dpb_fatsize :: u16
  dpb_dirstrt :: u16
  dpb_device :: u32
  dpb_mdb :: u8
  dpb_flags :: u8
  dpb_next :: u32
  dpb_cluster :: u16
  dpb_xnfreeclst :: u32
  dpb_xflags :: u16
  dpb_xfsinfosec :: u16
  dpb_xbackupsec :: u16
  dpb_xdata :: u32
  dpb_xsize :: u32
  dpb_xfatsize :: u32
  dpb_xrootclst :: u32
  dpb_xcluster :: u32

abbreviation (input) UNKNCLUSTER :: u32 where "UNKNCLUSTER \<equiv> 0"
abbreviation (input) XUNKNCLSTFREE :: u32 where "XUNKNCLSTFREE \<equiv> 0xffffffff"
abbreviation (input) UNKNCLSTFREE :: u16 where "UNKNCLSTFREE \<equiv> 0xffff"

definition dpb_nfreeclst :: "dpb \<Rightarrow> u16" where
  "dpb_nfreeclst d = ucast (dpb_xnfreeclst d)"

definition set_nfreeclst :: "u16 \<Rightarrow> dpb \<Rightarrow> dpb" where
  "set_nfreeclst n d = d\<lparr>dpb_xnfreeclst := (dpb_xnfreeclst d AND 0xffff0000) OR ucast n\<rparr>"

record cds =
  cdsCurrentPath :: "u8 list"
  cdsFlags :: u16
  cdsDpb :: u32
  cdsStrtClst :: u16
  cdsBackslashOffset :: u16

abbreviation (input) CDSNETWDRV :: u16 where "CDSNETWDRV \<equiv> 0x8000"
abbreviation (input) CDSPHYSDRV :: u16 where "CDSPHYSDRV \<equiv> 0x4000"
abbreviation (input) CDSJOINED :: u16 where "CDSJOINED \<equiv> 0x2000"
abbreviation (input) CDSSUBST :: u16 where "CDSSUBST \<equiv> 0x1000"
abbreviation (input) CDSVALID :: u16 where "CDSVALID \<equiv> 0xc000"

text \<open>
  The part of the request header that block transfers use. The transfer address \<^verbatim>\<open>r_trans\<close> is
  replaced by the bytes found there, which \<^verbatim>\<open>execrh\<close> receives and returns.
\<close>

record request =
  r_length :: u8
  r_unit :: u8
  r_command :: u8
  r_status :: u16
  r_meddesc :: u8
  r_count :: u16
  r_start :: u16
  r_huge :: u32

abbreviation (input) S_ERROR :: u16 where "S_ERROR \<equiv> 0x8000"
abbreviation (input) S_DONE :: u16 where "S_DONE \<equiv> 0x0100"
abbreviation (input) S_MASK :: u16 where "S_MASK \<equiv> 0x00ff"
abbreviation (input) C_INPUT :: u8 where "C_INPUT \<equiv> 4"
abbreviation (input) C_OUTPUT :: u8 where "C_OUTPUT \<equiv> 8"
abbreviation (input) C_OUTVFY :: u8 where "C_OUTVFY \<equiv> 9"

text \<open>
  \<^verbatim>\<open>execrh\<close> sends a request to the device at an address; \<^verbatim>\<open>dh_attr\<close> is the attribute word of the
  device header there. \<^verbatim>\<open>CriticalError\<close> takes flags, drive, error and device.
\<close>

record 'w platform =
  execrh :: "request \<Rightarrow> u32 \<Rightarrow> bytes \<Rightarrow> 'w \<Rightarrow> request \<times> bytes \<times> 'w"
  dh_attr :: "u32 \<Rightarrow> u16"
  CriticalError :: "u16 \<Rightarrow> u16 \<Rightarrow> u16 \<Rightarrow> u32 \<Rightarrow> 'w \<Rightarrow> int \<times> 'w"
  network_redirector :: "u16 \<Rightarrow> 'w \<Rightarrow> 'w"

record 'w kst =
  bufs :: "u16 \<Rightarrow> buffer"
  bufseg :: u16
  firstbuf :: u16
  LoL_nbuffers :: u16
  bufloc :: u8
  deblock_buf :: bytes
  IoReqHdr :: request
  CritErrCode :: u16
  verify_ena :: u8
  dpbs :: "u32 \<Rightarrow> dpb"
  CDSp :: "u16 \<Rightarrow> cds"
  lastdrive :: u8
  default_drive :: u8
  world :: 'w

section \<open>Drives\<close>

text \<open>\<^verbatim>\<open>dosfns.c\<close>: the CDS of a drive, or \<^verbatim>\<open>None\<close> for \<^verbatim>\<open>NULL\<close>.\<close>

definition get_cds_unvalidated :: "u16 \<Rightarrow> ('w, 'a) kst_scheme \<Rightarrow> cds option" where
  "get_cds_unvalidated drive s = (if drive \<ge> ucast (lastdrive s) then None else Some (CDSp s drive))"

definition get_cds :: "u16 \<Rightarrow> ('w, 'a) kst_scheme \<Rightarrow> cds option" where
  "get_cds drive s =
     (if drive \<ge> ucast (lastdrive s) then None
      else
        let cdsp = CDSp s drive; flags = cdsFlags cdsp in
        if flags AND CDSVALID = 0 \<or> flags AND CDSJOINED \<noteq> 0 then None
        else if flags AND CDSNETWDRV = 0 \<and> cdsDpb cdsp = 0 then None
        else Some cdsp)"

definition get_cds1 :: "u16 \<Rightarrow> ('w, 'a) kst_scheme \<Rightarrow> cds option" where
  "get_cds1 drv s = get_cds (if drv = 0 then scast (default_drive s) else drv - 1) s"

text \<open>\<^verbatim>\<open>fatfs.c\<close>: the DPB of a drive, 0 for \<^verbatim>\<open>NULL\<close>.\<close>

definition get_dpb :: "u16 \<Rightarrow> ('w, 'a) kst_scheme \<Rightarrow> u32" where
  "get_dpb dsk s =
     (case get_cds dsk s of
        None \<Rightarrow> 0
      | Some cdsp \<Rightarrow> if cdsFlags cdsp AND CDSNETWDRV \<noteq> 0 then 0 else cdsDpb cdsp)"

end
