(* ===== verification/BlockIO.thy ===== *)
theory BlockIO
  imports KState
begin

text \<open>
  The block cache and the block device interface, \<^verbatim>\<open>kernel/blockio.c\<close>, with \<^verbatim>\<open>block_error\<close> of
  \<^verbatim>\<open>kernel/error.c\<close>. The buffers form a doubly linked ring through \<^verbatim>\<open>b_next\<close> and \<^verbatim>\<open>b_prev\<close>, most
  recently used first. Loops over the ring and the retry loop of a transfer may run for ever on
  a damaged ring or with a user who answers Retry for ever; they are partial functions.
\<close>

section \<open>The model\<close>

abbreviation (input) DSKWRITE :: int where "DSKWRITE \<equiv> 1"
abbreviation (input) DSKREAD :: int where "DSKREAD \<equiv> 2"
abbreviation (input) DSKWRITEINT26 :: int where "DSKWRITEINT26 \<equiv> 3"
abbreviation (input) DSKREADINT25 :: int where "DSKREADINT25 \<equiv> 4"
abbreviation (input) XFR_READ :: int where "XFR_READ \<equiv> 1"
abbreviation (input) XFR_WRITE :: int where "XFR_WRITE \<equiv> 2"

abbreviation (input) ERR_CONTINUE :: int where "ERR_CONTINUE \<equiv> 0"
abbreviation (input) ERR_RETRY :: int where "ERR_RETRY \<equiv> 1"
abbreviation (input) ERR_ABORT :: int where "ERR_ABORT \<equiv> 2"
abbreviation (input) ERR_FAIL :: int where "ERR_FAIL \<equiv> 3"

abbreviation (input) upd_buf ::
  "u16 \<Rightarrow> (buffer \<Rightarrow> buffer) \<Rightarrow> ('w, 'a) kst_scheme \<Rightarrow> ('w, 'a) kst_scheme" where
  "upd_buf p f s \<equiv> s\<lparr>bufs := (bufs s)(p := f (bufs s p))\<rparr>"

definition fmemcpy :: "bytes \<Rightarrow> bytes \<Rightarrow> nat \<Rightarrow> bytes" where
  "fmemcpy dst src n = (\<lambda>i. if i < n then src i else dst i)"

subsection \<open>Transfers\<close>

definition block_error :: "'w platform \<Rightarrow> u16 \<Rightarrow> u32 \<Rightarrow> int \<Rightarrow> ('w, 'a) kst_scheme \<Rightarrow> int \<times> ('w, 'a) kst_scheme" where
  "block_error P nDrive lpDevice mode s =
     (let err = r_status (IoReqHdr s) AND S_MASK;
          (r, w) = CriticalError P (0x38 OR (if mode = DSKWRITE then 1 else 0)) nDrive err lpDevice (world s)
      in (r, s\<lparr>CritErrCode := err + 0x13, world := w\<rparr>))"

partial_function (option) ask_user ::
  "'w platform \<Rightarrow> u16 \<Rightarrow> u32 \<Rightarrow> int \<Rightarrow> ('w, 'a) kst_scheme \<Rightarrow> (int \<times> ('w, 'a) kst_scheme) option" where
  "ask_user P nDrive lpDevice mode s =
     (let (r, s') = block_error P nDrive lpDevice mode s in
      if r = ERR_ABORT \<or> r = ERR_FAIL \<or> r = ERR_RETRY \<or> r = ERR_CONTINUE then Some (r, s')
      else ask_user P nDrive lpDevice mode s')"

definition xfer_command :: "int \<Rightarrow> ('w, 'a) kst_scheme \<Rightarrow> u8 option" where
  "xfer_command mode s =
     (if mode = DSKWRITE then Some (if verify_ena s \<noteq> 0 then C_OUTVFY else C_OUTPUT)
      else if mode = DSKWRITEINT26 then Some C_OUTPUT
      else if mode = DSKREADINT25 \<or> mode = DSKREAD then Some C_INPUT
      else None)"

definition xfer_request :: "'w platform \<Rightarrow> dpb \<Rightarrow> u8 \<Rightarrow> u32 \<Rightarrow> u16 \<Rightarrow> request \<Rightarrow> request" where
  "xfer_request P d cmd blkno numblocks rq =
     (let rq' = rq\<lparr>r_length := 30, r_unit := dpb_subunit d, r_command := cmd, r_status := 0,
                  r_meddesc := dpb_mdb d, r_count := numblocks\<rparr>
      in if dh_attr P (dpb_device d) AND 2 \<noteq> 0 \<or> blkno \<ge> 0xffff
         then rq'\<lparr>r_start := 0xffff, r_huge := blkno\<rparr>
         else rq'\<lparr>r_start := ucast blkno\<rparr>)"

definition xfer_once ::
  "'w platform \<Rightarrow> dpb \<Rightarrow> request \<Rightarrow> u16 \<Rightarrow> bytes \<Rightarrow> u16 \<Rightarrow> int \<Rightarrow> ('w, 'a) kst_scheme \<Rightarrow> bytes \<times> ('w, 'a) kst_scheme" where
  "xfer_once P d rq sg buf numblocks mode s =
     (if sg \<ge> 0xa000 \<and> numblocks = 1 \<and> bufloc s \<noteq> 0 then
        let n = unat (dpb_secsize d);
            db = (if mode = DSKWRITE then fmemcpy (deblock_buf s) buf n else deblock_buf s);
            (rq', db', w) = execrh P rq (dpb_device d) db (world s)
        in (if mode = DSKREAD then fmemcpy buf db' n else buf,
            s\<lparr>IoReqHdr := rq', deblock_buf := db', world := w\<rparr>)
      else
        let (rq', buf', w) = execrh P rq (dpb_device d) buf (world s)
        in (buf', s\<lparr>IoReqHdr := rq', world := w\<rparr>))"

partial_function (option) xfer_loop ::
  "'w platform \<Rightarrow> dpb \<Rightarrow> u32 \<Rightarrow> u16 \<Rightarrow> u16 \<Rightarrow> int \<Rightarrow> bytes \<Rightarrow> ('w, 'a) kst_scheme \<Rightarrow>
   (u16 \<times> bytes \<times> ('w, 'a) kst_scheme) option" where
  "xfer_loop P d blkno sg numblocks mode buf s =
     (case xfer_command mode s of
        None \<Rightarrow> Some (0x0100, buf, s\<lparr>IoReqHdr := (IoReqHdr s)\<lparr>r_length := 30, r_unit := dpb_subunit d\<rparr>\<rparr>)
      | Some cmd \<Rightarrow>
          let (buf', s') = xfer_once P d (xfer_request P d cmd blkno numblocks (IoReqHdr s)) sg buf numblocks mode s;
              st = r_status (IoReqHdr s')
          in if st AND (S_ERROR OR S_DONE) = S_DONE then Some (0, buf', s')
             else if mode \<ge> DSKWRITEINT26 then Some (st, buf', s')
             else do {
               (r, s'') \<leftarrow> ask_user P (scast (dpb_unit d)) (dpb_device d) mode s';
               if r = ERR_RETRY then xfer_loop P d blkno sg numblocks mode buf' s''
               else if r = ERR_CONTINUE then Some (0, buf', s'')
               else Some (r_status (IoReqHdr s''), buf', s'')
             })"

definition dskxfer ::
  "'w platform \<Rightarrow> u16 \<Rightarrow> u32 \<Rightarrow> u16 \<Rightarrow> bytes \<Rightarrow> u16 \<Rightarrow> int \<Rightarrow> ('w, 'a) kst_scheme \<Rightarrow>
   (u16 \<times> bytes \<times> ('w, 'a) kst_scheme) option" where
  "dskxfer P dsk blkno sg buf numblocks mode s =
     (if get_dpb dsk s = 0 then Some (0x0201, buf, s)
      else xfer_loop P (dpbs s (get_dpb dsk s)) blkno sg numblocks mode buf s)"

subsection \<open>Searching the ring\<close>

definition set_next :: "u16 \<Rightarrow> u16 \<Rightarrow> (u16 \<Rightarrow> buffer) \<Rightarrow> u16 \<Rightarrow> buffer" where
  "set_next p v m = m(p := (m p)\<lparr>b_next := v\<rparr>)"

definition set_prev :: "u16 \<Rightarrow> u16 \<Rightarrow> (u16 \<Rightarrow> buffer) \<Rightarrow> u16 \<Rightarrow> buffer" where
  "set_prev p v m = m(p := (m p)\<lparr>b_prev := v\<rparr>)"

definition move_buffer :: "u16 \<Rightarrow> u16 \<Rightarrow> (u16 \<Rightarrow> buffer) \<Rightarrow> u16 \<Rightarrow> buffer" where
  "move_buffer bp firstbp m =
     (let m1 = set_prev (b_next (m bp)) (b_prev (m bp)) m;
          m2 = set_next (b_prev (m1 bp)) (b_next (m1 bp)) m1;
          m3 = set_prev bp (b_prev (m2 firstbp)) m2;
          m4 = set_next bp firstbp m3;
          m5 = set_prev (b_next (m4 bp)) bp m4
      in set_next (b_prev (m5 bp)) bp m5)"

datatype found = Hit u16 | Miss u16 int u16 u16

definition is_hit :: "u32 \<Rightarrow> u16 \<Rightarrow> buffer \<Rightarrow> bool" where
  "is_hit blkno dsk b \<longleftrightarrow> b_blkno b = blkno \<and> b_flag b AND BFR_VALID \<noteq> 0 \<and> scast (b_unit b) = dsk"

partial_function (option) search_scan ::
  "u32 \<Rightarrow> u16 \<Rightarrow> u16 \<Rightarrow> (u16 \<Rightarrow> buffer) \<Rightarrow> u16 \<Rightarrow> int \<Rightarrow> u16 \<Rightarrow> u16 \<Rightarrow> found option" where
  "search_scan blkno dsk firstbp m bp fat_count lastNonFat uncacheBuf =
     (if is_hit blkno dsk (m bp) then Some (Hit bp)
      else
        let uncacheBuf' = (if b_flag (m bp) AND BFR_UNCACHE \<noteq> 0 then bp else uncacheBuf);
            fat = b_flag (m bp) AND BFR_FAT \<noteq> 0;
            fat_count' = (if fat then fat_count + 1 else fat_count);
            lastNonFat' = (if fat then lastNonFat else bp);
            bp' = b_next (m bp)
        in if bp' \<noteq> firstbp then search_scan blkno dsk firstbp m bp' fat_count' lastNonFat' uncacheBuf'
           else Some (Miss bp' fat_count' lastNonFat' uncacheBuf'))"

definition victim :: "(u16 \<Rightarrow> buffer) \<Rightarrow> u16 \<Rightarrow> u16 \<Rightarrow> int \<Rightarrow> u16 \<Rightarrow> u16 \<Rightarrow> u16" where
  "victim m firstbp bp fat_count lastNonFat uncacheBuf =
     (if uncacheBuf \<noteq> 0 then uncacheBuf
      else if b_flag (m bp) AND BFR_FAT \<noteq> 0 \<and> fat_count < 3 \<and> lastNonFat \<noteq> 0 then lastNonFat
      else b_prev (m firstbp))"

definition searchblock :: "u32 \<Rightarrow> u16 \<Rightarrow> ('w, 'a) kst_scheme \<Rightarrow> (u16 \<times> ('w, 'a) kst_scheme) option" where
  "searchblock blkno dsk s =
     do {
       r \<leftarrow> search_scan blkno dsk (firstbuf s) (bufs s) (firstbuf s) 0 0 0;
       let firstbp = firstbuf s;
       Some (case r of
         Hit bp \<Rightarrow>
           let s' = upd_buf bp (\<lambda>b. b\<lparr>b_flag := b_flag b AND NOT BFR_UNCACHE\<rparr>) s
           in (bp, if bp \<noteq> firstbp then s'\<lparr>firstbuf := bp, bufs := move_buffer bp firstbp (bufs s')\<rparr> else s')
       | Miss bp0 fat_count lastNonFat uncacheBuf \<Rightarrow>
           let bp = victim (bufs s) firstbp bp0 fat_count lastNonFat uncacheBuf;
               s' = upd_buf bp (\<lambda>b. b\<lparr>b_flag := b_flag b OR BFR_UNCACHE\<rparr>) s
           in (bp, if bp \<noteq> firstbp then s'\<lparr>bufs := move_buffer bp firstbp (bufs s'), firstbuf := bp\<rparr> else s'))
     }"

subsection \<open>Reading and writing back\<close>

primrec flush_copies ::
  "'w platform \<Rightarrow> u16 \<Rightarrow> u32 \<Rightarrow> nat \<Rightarrow> u32 \<Rightarrow> bool \<Rightarrow> ('w, 'a) kst_scheme \<Rightarrow> (bool \<times> ('w, 'a) kst_scheme) option" where
  "flush_copies P bp off 0 blkno ok s = Some (ok, s)"
| "flush_copies P bp off (Suc n) blkno ok s =
     do {
       (r, d, s') \<leftarrow> dskxfer P (scast (b_unit (bufs s bp))) blkno (bufseg s) (b_buffer (bufs s bp)) 1 DSKWRITE s;
       flush_copies P bp off n (blkno + off) (ok \<and> r = 0) (upd_buf bp (\<lambda>b. b\<lparr>b_buffer := d\<rparr>) s')
     }"

definition flush1 :: "'w platform \<Rightarrow> u16 \<Rightarrow> ('w, 'a) kst_scheme \<Rightarrow> (bool \<times> ('w, 'a) kst_scheme) option" where
  "flush1 P bp s =
     do {
       (ok, s1) \<leftarrow>
         (let b = bufs s bp in
          if b_flag b AND (BFR_VALID OR BFR_DIRTY) = BFR_VALID OR BFR_DIRTY then
            if b_flag b AND BFR_FAT \<noteq> 0 then
              flush_copies P bp
                (if b_offset b = 0 then dpb_xfatsize (dpbs s (b_dpbp b)) else ucast (b_offset b))
                (unat (b_copies b)) (b_blkno b) True s
            else flush_copies P bp 0 1 (b_blkno b) True s
          else Some (True, s));
       let s2 = upd_buf bp (\<lambda>b. b\<lparr>b_flag := b_flag b AND NOT BFR_DIRTY\<rparr>) s1;
       Some (ok, if ok then s2 else upd_buf bp (\<lambda>b. b\<lparr>b_flag := b_flag b AND NOT BFR_VALID\<rparr>) s2)
     }"

definition getblk ::
  "'w platform \<Rightarrow> u32 \<Rightarrow> u16 \<Rightarrow> bool \<Rightarrow> ('w, 'a) kst_scheme \<Rightarrow> (u16 option \<times> ('w, 'a) kst_scheme) option" where
  "getblk P blkno dsk overwrite s =
     do {
       (bp, s1) \<leftarrow> searchblock blkno dsk s;
       if b_flag (bufs s1 bp) AND BFR_UNCACHE = 0 then Some (Some bp, s1)
       else do {
         (ok, s2) \<leftarrow> flush1 P bp s1;
         if \<not> ok then Some (None, s2)
         else do {
           (failed, s3) \<leftarrow>
             (if overwrite then Some (False, s2)
              else do {
                (r, d, s3) \<leftarrow> dskxfer P dsk blkno (bufseg s2) (b_buffer (bufs s2 bp)) 1 DSKREAD s2;
                Some (r \<noteq> 0, upd_buf bp (\<lambda>b. b\<lparr>b_buffer := d\<rparr>) s3)
              });
           if failed then Some (None, s3)
           else Some (Some bp,
             upd_buf bp (\<lambda>b. b\<lparr>b_flag := BFR_VALID OR BFR_DATA, b_unit := ucast dsk, b_blkno := blkno\<rparr>) s3)
         }
       }
     }"

abbreviation getblock :: "'w platform \<Rightarrow> u32 \<Rightarrow> u16 \<Rightarrow> ('w, 'a) kst_scheme \<Rightarrow> (u16 option \<times> ('w, 'a) kst_scheme) option" where
  "getblock P blkno dsk s \<equiv> getblk P blkno dsk False s"

subsection \<open>Walking the whole ring\<close>

text \<open>The \<^verbatim>\<open>do ... while (FP_OFF(bp) != FP_OFF(firstbuf))\<close> loops, by their bodies.\<close>

partial_function (option) ring_loop ::
  "(u16 \<Rightarrow> ('w, 'a) kst_scheme \<Rightarrow> (bool \<times> ('w, 'a) kst_scheme) option) \<Rightarrow> u16 \<Rightarrow> bool \<Rightarrow> ('w, 'a) kst_scheme \<Rightarrow>
   (bool \<times> ('w, 'a) kst_scheme) option" where
  "ring_loop body bp ok s =
     do {
       (r, s') \<leftarrow> body bp s;
       let bp' = b_next (bufs s' bp);
       if bp' \<noteq> firstbuf s' then ring_loop body bp' (ok \<and> r) s' else Some (ok \<and> r, s')
     }"

definition DeleteBlockInBufferCache ::
  "'w platform \<Rightarrow> u32 \<Rightarrow> u32 \<Rightarrow> u16 \<Rightarrow> int \<Rightarrow> ('w, 'a) kst_scheme \<Rightarrow> (bool \<times> ('w, 'a) kst_scheme) option" where
  "DeleteBlockInBufferCache P blknolow blknohigh dsk mode s =
     do {
       (_, s') \<leftarrow> ring_loop (\<lambda>bp s.
         let b = bufs s bp in
         if blknolow \<le> b_blkno b \<and> b_blkno b \<le> blknohigh \<and> b_flag b AND BFR_VALID \<noteq> 0 \<and> scast (b_unit b) = dsk then
           if mode = XFR_READ then flush1 P bp s
           else Some (True, upd_buf bp (\<lambda>b. b\<lparr>b_flag := 0\<rparr>) s)
         else Some (True, s)) (firstbuf s) True s;
       Some (False, s')
     }"

definition setinvld :: "u16 \<Rightarrow> ('w, 'a) kst_scheme \<Rightarrow> ('w, 'a) kst_scheme option" where
  "setinvld dsk s =
     map_option snd (ring_loop (\<lambda>bp s.
       Some (True, if scast (b_unit (bufs s bp)) = dsk then upd_buf bp (\<lambda>b. b\<lparr>b_flag := 0\<rparr>) s else s)) (firstbuf s) True s)"

partial_function (option) dirty_scan :: "u16 \<Rightarrow> u16 \<Rightarrow> (u16 \<Rightarrow> buffer) \<Rightarrow> u16 \<Rightarrow> bool option" where
  "dirty_scan dsk firstbp m bp =
     (if scast (b_unit (m bp)) = dsk \<and> b_flag (m bp) AND (BFR_VALID OR BFR_DIRTY) = BFR_VALID OR BFR_DIRTY then Some True
      else let bp' = b_next (m bp) in
        if bp' \<noteq> firstbp then dirty_scan dsk firstbp m bp' else Some False)"

definition dirty_buffers :: "u16 \<Rightarrow> ('w, 'a) kst_scheme \<Rightarrow> bool option" where
  "dirty_buffers dsk s = dirty_scan dsk (firstbuf s) (bufs s) (firstbuf s)"

definition flush_buffers :: "'w platform \<Rightarrow> u16 \<Rightarrow> ('w, 'a) kst_scheme \<Rightarrow> (bool \<times> ('w, 'a) kst_scheme) option" where
  "flush_buffers P dsk s =
     ring_loop (\<lambda>bp s. if scast (b_unit (bufs s bp)) = dsk then flush1 P bp s else Some (True, s)) (firstbuf s) True s"

definition flush_all :: "'w platform \<Rightarrow> ('w, 'a) kst_scheme \<Rightarrow> (bool \<times> ('w, 'a) kst_scheme) option" where
  "flush_all P s =
     do {
       (ok, s1) \<leftarrow> ring_loop (\<lambda>bp s. do {
           (ok, s') \<leftarrow> flush1 P bp s;
           Some (ok, upd_buf bp (\<lambda>b. b\<lparr>b_flag := b_flag b AND NOT BFR_VALID\<rparr>) s')
         }) (firstbuf s) True s;
       Some (ok, s1\<lparr>world := network_redirector P 0x1120 (world s1)\<rparr>)
     }"

text \<open>
  \<^verbatim>\<open>AllocateHMASpace\<close>: the loop is counted by the number of buffers; \<^verbatim>\<open>bp + 1\<close> is 532 bytes behind.
\<close>

primrec hma_loop ::
  "'w platform \<Rightarrow> u16 \<Rightarrow> u16 \<Rightarrow> nat \<Rightarrow> u16 \<Rightarrow> ('w, 'a) kst_scheme \<Rightarrow> ('w, 'a) kst_scheme option" where
  "hma_loop P lowbuffer highbuffer 0 bp s = Some s"
| "hma_loop P lowbuffer highbuffer (Suc n) bp s =
     do {
       s1 \<leftarrow> (if bp \<le> highbuffer \<and> bp + 532 > lowbuffer then
         do {
           (_, s1) \<leftarrow> flush1 P bp s;
           let s2 = s1\<lparr>bufs := set_next (b_prev (bufs s1 bp)) (b_next (bufs s1 bp)) (bufs s1)\<rparr>;
           let s3 = s2\<lparr>bufs := set_prev (b_next (bufs s2 bp)) (b_prev (bufs s2 bp)) (bufs s2)\<rparr>;
           let s4 = (if bp = firstbuf s3 then s3\<lparr>firstbuf := b_next (bufs s3 bp)\<rparr> else s3);
           Some (s4\<lparr>LoL_nbuffers := LoL_nbuffers s4 - 1\<rparr>)
         } else Some s);
       hma_loop P lowbuffer highbuffer n (b_next (bufs s1 bp)) s1
     }"

definition AllocateHMASpace :: "'w platform \<Rightarrow> u16 \<Rightarrow> u16 \<Rightarrow> ('w, 'a) kst_scheme \<Rightarrow> ('w, 'a) kst_scheme option" where
  "AllocateHMASpace P lowbuffer highbuffer s =
     (if bufseg s \<noteq> 0xffff then Some s
      else hma_loop P lowbuffer highbuffer
        (if LoL_nbuffers s = 0 then 65536 else unat (LoL_nbuffers s)) (firstbuf s) s)"

declare ask_user.simps [code] xfer_loop.simps [code] search_scan.simps [code] ring_loop.simps [code] dirty_scan.simps [code]

end
