(* ===== verification/FatTab.thy ===== *)
theory FatTab
  imports BlockIO
begin

text \<open>
  The file allocation table, \<^verbatim>\<open>kernel/fattab.c\<close>: reading and writing one entry of a FAT12, FAT16 or
  FAT32 table through the block cache, following a chain, and the FS information sector of
  FAT32. The messages that \<^verbatim>\<open>clusterMessage\<close> prints are left out. \<^verbatim>\<open>read_fsinfo\<close> and \<^verbatim>\<open>write_fsinfo\<close> use
  the buffer without looking for \<^verbatim>\<open>NULL\<close>; where the code would follow a null pointer the model has
  no result.
\<close>

section \<open>Little endian numbers in a buffer\<close>

definition fgetword :: "bytes \<Rightarrow> nat \<Rightarrow> u16" where
  "fgetword d i = ucast (d i) OR push_bit 8 (ucast (d (i + 1)))"

definition fputword :: "bytes \<Rightarrow> nat \<Rightarrow> u16 \<Rightarrow> bytes" where
  "fputword d i v = d(i := ucast v, i + 1 := ucast (drop_bit 8 v))"

definition fgetlong :: "bytes \<Rightarrow> nat \<Rightarrow> u32" where
  "fgetlong d i = ucast (fgetword d i) OR push_bit 16 (ucast (fgetword d (i + 2)))"

definition fputlong :: "bytes \<Rightarrow> nat \<Rightarrow> u32 \<Rightarrow> bytes" where
  "fputlong d i v = fputword (fputword d i (ucast v)) (i + 2) (ucast (drop_bit 16 v))"

section \<open>The model\<close>

abbreviation (input) READ_CLUSTER :: u32 where "READ_CLUSTER \<equiv> 1"
abbreviation (input) FREE :: u32 where "FREE \<equiv> 0"
abbreviation (input) LONG_LAST_CLUSTER :: u32 where "LONG_LAST_CLUSTER \<equiv> 0x0fffffff"
abbreviation (input) LONG_BAD :: u32 where "LONG_BAD \<equiv> 0x0ffffff7"

definition ISFAT32 :: "dpb \<Rightarrow> bool" where
  "ISFAT32 d \<longleftrightarrow> dpb_fatsize d = 0"

definition ISFAT16 :: "dpb \<Rightarrow> bool" where
  "ISFAT16 d \<longleftrightarrow> dpb_size d > 4085 \<and> dpb_size d \<le> 65525"

definition ISFAT12 :: "dpb \<Rightarrow> bool" where
  "ISFAT12 d \<longleftrightarrow> dpb_size d - 1 < 4085"

abbreviation (input) upd_dpb :: "u32 \<Rightarrow> (dpb \<Rightarrow> dpb) \<Rightarrow> ('w, 'a) kst_scheme \<Rightarrow> ('w, 'a) kst_scheme" where
  "upd_dpb p f s \<equiv> s\<lparr>dpbs := (dpbs s)(p := f (dpbs s p))\<rparr>"

definition mark_fat :: "u32 \<Rightarrow> dpb \<Rightarrow> buffer \<Rightarrow> buffer" where
  "mark_fat dpbp d b =
     b\<lparr>b_flag := (b_flag b AND NOT (BFR_DATA OR BFR_DIR)) OR (BFR_FAT OR BFR_VALID),
       b_dpbp := dpbp,
       b_copies := (if ISFAT32 d \<and> dpb_xflags d AND 0x80 \<noteq> 0 then 1 else dpb_fats d),
       b_offset := dpb_fatsize d\<rparr>"

definition getFATblock ::
  "'w platform \<Rightarrow> u32 \<Rightarrow> u32 \<Rightarrow> ('w, 'a) kst_scheme \<Rightarrow> (u16 option \<times> ('w, 'a) kst_scheme) option" where
  "getFATblock P dpbp clussec s =
     do {
       (bp, s1) \<leftarrow> getblock P clussec (scast (dpb_unit (dpbs s dpbp))) s;
       Some (case bp of
         None \<Rightarrow> (None, s1)
       | Some p \<Rightarrow> (Some p, upd_buf p (mark_fat dpbp (dpbs s1 dpbp)) s1))
     }"

definition read_fsinfo :: "'w platform \<Rightarrow> u32 \<Rightarrow> ('w, 'a) kst_scheme \<Rightarrow> ('w, 'a) kst_scheme option" where
  "read_fsinfo P dpbp s =
     (let d = dpbs s dpbp in
      if dpb_xfsinfosec d = 0xffff then Some s
      else do {
        (bp, s1) \<leftarrow> getblock P (ucast (dpb_xfsinfosec d)) (scast (dpb_unit d)) s;
        p \<leftarrow> bp;
        let s2 = upd_buf p (\<lambda>b. b\<lparr>b_flag := (b_flag b AND NOT (BFR_DATA OR BFR_DIR OR BFR_FAT OR BFR_DIRTY)) OR BFR_VALID\<rparr>) s1;
        let n = fgetlong (b_buffer (bufs s2 p)) 0x1e8;
        let n' = (if n \<ge> dpb_xsize d then XUNKNCLSTFREE else n);
        let c = fgetlong (b_buffer (bufs s2 p)) 0x1ec;
        let c' = (if c < 2 \<or> c > dpb_xsize d then UNKNCLUSTER else c);
        Some (upd_dpb dpbp (\<lambda>d. d\<lparr>dpb_xnfreeclst := n', dpb_xcluster := c'\<rparr>) s2)
      })"

definition write_fsinfo :: "'w platform \<Rightarrow> u32 \<Rightarrow> ('w, 'a) kst_scheme \<Rightarrow> ('w, 'a) kst_scheme option" where
  "write_fsinfo P dpbp s =
     (let d = dpbs s dpbp in
      if dpb_xfsinfosec d = 0xffff then Some s
      else do {
        (bp, s1) \<leftarrow> getblock P (ucast (dpb_xfsinfosec d)) (scast (dpb_unit d)) s;
        p \<leftarrow> bp;
        Some (upd_buf p (\<lambda>b.
          let fl = (b_flag b AND NOT (BFR_DATA OR BFR_DIR OR BFR_FAT)) OR BFR_VALID;
              news = fgetlong (b_buffer b) 0x1e8 \<noteq> dpb_xnfreeclst d \<or> fgetlong (b_buffer b) 0x1ec \<noteq> dpb_xcluster d
          in b\<lparr>b_flag := (if news then fl OR BFR_DIRTY else fl),
               b_buffer := fputlong (fputlong (b_buffer b) 0x1e8 (dpb_xnfreeclst d)) 0x1ec (dpb_xcluster d)\<rparr>) s1)
      })"

definition max_cluster :: "dpb \<Rightarrow> u32" where
  "max_cluster d = (if ISFAT32 d then dpb_xsize d else ucast (dpb_size d))"

text \<open>The sector of an entry, and the index of the entry in it (in nibbles, words or double words).\<close>

definition fat_secdiv :: "dpb \<Rightarrow> u16" where
  "fat_secdiv d =
     (if ISFAT12 d then dpb_secsize d * 2
      else if ISFAT32 d then dpb_secsize d div 2 div 2 else dpb_secsize d div 2)"

definition fat_scaled :: "dpb \<Rightarrow> u32 \<Rightarrow> u32" where
  "fat_scaled d c = (if ISFAT12 d then ucast (ucast c * 3 :: u16) else c)"

definition fat_idx :: "dpb \<Rightarrow> u32 \<Rightarrow> u16" where
  "fat_idx d c = ucast (fat_scaled d c mod ucast (fat_secdiv d))"

definition fat_sector :: "dpb \<Rightarrow> u32 \<Rightarrow> u32" where
  "fat_sector d c =
     (let sec = fat_scaled d c div ucast (fat_secdiv d) + ucast (dpb_fatstrt d)
      in if ISFAT32 d \<and> dpb_xflags d AND 0x80 \<noteq> 0 then sec + ucast (dpb_xflags d AND 0xf) * dpb_xfatsize d else sec)"

text \<open>The end of \<^verbatim>\<open>link_fat\<close>: the buffer becomes dirty and the count of free clusters follows.\<close>

definition link_done ::
  "'w platform \<Rightarrow> u32 \<Rightarrow> u32 \<Rightarrow> bool \<Rightarrow> u16 \<Rightarrow> ('w, 'a) kst_scheme \<Rightarrow> (u32 \<times> ('w, 'a) kst_scheme) option" where
  "link_done P dpbp Cluster2 wasfree bp s =
     (let s1 = upd_buf bp (\<lambda>b. b\<lparr>b_flag := b_flag b OR (BFR_DIRTY OR BFR_VALID)\<rparr>) s;
          d = dpbs s1 dpbp;
          adjust = (if \<not> wasfree then 1 else if Cluster2 \<noteq> FREE then - 1 else 0) :: u32
      in if Cluster2 = FREE \<or> wasfree then
           if ISFAT32 d \<and> dpb_xnfreeclst d \<noteq> XUNKNCLSTFREE then
             do {
               s2 \<leftarrow> write_fsinfo P dpbp (upd_dpb dpbp (\<lambda>d. d\<lparr>dpb_xnfreeclst := dpb_xnfreeclst d + adjust\<rparr>) s1);
               Some (0, s2)
             }
           else if dpb_nfreeclst d \<noteq> UNKNCLSTFREE then
             Some (0, upd_dpb dpbp (\<lambda>d. set_nfreeclst (dpb_nfreeclst d + ucast adjust) d) s1)
           else Some (0, s1)
         else Some (0, s1))"

text \<open>
  FAT12: the entry is the 16-bit number at a byte, its low or its high twelve bits. The second
  byte is the first one of the next sector when the entry straddles two.
\<close>

definition entry12 :: "u32 \<Rightarrow> u16 \<Rightarrow> u16" where
  "entry12 Cluster1 w = (if Cluster1 AND 1 \<noteq> 0 then drop_bit 4 w else w) AND 0xfff"

definition pack12 :: "u32 \<Rightarrow> u32 \<Rightarrow> u16 \<Rightarrow> u16" where
  "pack12 Cluster1 Cluster2 w =
     (let c2 = ucast Cluster2 AND 0xfff in
      if (ucast Cluster1 :: u16) AND 1 \<noteq> 0 then (w AND 0xf) OR push_bit 4 c2 else (w AND 0xf000) OR c2)"

definition read12 :: "u16 \<Rightarrow> u32" where
  "read12 c = (if c \<ge> 0xff8 then LONG_LAST_CLUSTER else if c = 0xff7 then LONG_BAD else ucast c)"

definition read16 :: "u16 \<Rightarrow> u32" where
  "read16 c = (if c \<ge> 0xfff8 then LONG_LAST_CLUSTER else if c = 0xfff7 then LONG_BAD else ucast c)"

definition read32 :: "u32 \<Rightarrow> u32" where
  "read32 c = (if c > LONG_BAD then LONG_LAST_CLUSTER else c)"

definition link_fat12 ::
  "'w platform \<Rightarrow> u32 \<Rightarrow> u32 \<Rightarrow> u32 \<Rightarrow> u32 \<Rightarrow> u16 \<Rightarrow> u16 \<Rightarrow> ('w, 'a) kst_scheme \<Rightarrow> (u32 \<times> ('w, 'a) kst_scheme) option" where
  "link_fat12 P dpbp Cluster1 Cluster2 clussec idx0 bp s =
     (let idx = idx0 div 2;
          i = unat idx;
          split = (idx \<ge> dpb_secsize (dpbs s dpbp) - 1)
      in do {
        (q, s1) \<leftarrow> (if split then getFATblock P dpbp (ucast (ucast clussec + 1 :: u16)) s else Some (Some bp, s));
        case q of
          None \<Rightarrow> Some (1, s1)
        | Some bp1 \<Rightarrow>
            let s2 = (if split \<and> Cluster2 \<noteq> READ_CLUSTER
                      then upd_buf bp1 (\<lambda>b. b\<lparr>b_flag := b_flag b OR (BFR_DIRTY OR BFR_VALID)\<rparr>) s1 else s1);
                j = (if split then 0 else i + 1);
                w = ucast (b_buffer (bufs s2 bp) i) OR push_bit 8 (ucast (b_buffer (bufs s2 bp1) j)) :: u16;
                c = entry12 Cluster1 w
            in if (ucast Cluster2 :: u16) = 1 then Some (read12 c, s2)
               else
                 let w' = pack12 Cluster1 Cluster2 w;
                     s3 = upd_buf bp (\<lambda>b. b\<lparr>b_buffer := (b_buffer b)(i := ucast w')\<rparr>) s2;
                     s4 = upd_buf bp1 (\<lambda>b. b\<lparr>b_buffer := (b_buffer b)(j := ucast (drop_bit 8 w'))\<rparr>) s3
                 in link_done P dpbp Cluster2 (c = 0) bp s4
      })"

definition link_fat ::
  "'w platform \<Rightarrow> u32 \<Rightarrow> u32 \<Rightarrow> u32 \<Rightarrow> ('w, 'a) kst_scheme \<Rightarrow> (u32 \<times> ('w, 'a) kst_scheme) option" where
  "link_fat P dpbp Cluster1 Cluster2 s =
     (let d = dpbs s dpbp in
      if Cluster1 \<le> 1 \<or> Cluster1 > max_cluster d then Some (1, s)
      else if Cluster2 < LONG_BAD \<and> Cluster2 > max_cluster d then Some (1, s)
      else do {
        (q, s1) \<leftarrow> getFATblock P dpbp (fat_sector d Cluster1) s;
        case q of
          None \<Rightarrow> Some (1, s1)
        | Some bp \<Rightarrow>
            let i = unat (fat_idx d Cluster1) in
            if ISFAT12 d then link_fat12 P dpbp Cluster1 Cluster2 (fat_sector d Cluster1) (fat_idx d Cluster1) bp s1
            else if ISFAT16 d then
              let res = fgetword (b_buffer (bufs s1 bp)) (i * 2) in
              if (ucast Cluster2 :: u16) = 1 then Some (read16 res, s1)
              else link_done P dpbp Cluster2 (res = 0) bp
                (upd_buf bp (\<lambda>b. b\<lparr>b_buffer := fputword (b_buffer b) (i * 2) (ucast Cluster2)\<rparr>) s1)
            else if ISFAT32 d then
              let res = fgetlong (b_buffer (bufs s1 bp)) (i * 4) AND LONG_LAST_CLUSTER in
              if Cluster2 = READ_CLUSTER then Some (read32 res, s1)
              else link_done P dpbp Cluster2 (res = 0) bp
                (upd_buf bp (\<lambda>b. b\<lparr>b_buffer := fputlong (b_buffer b) (i * 4) (Cluster2 AND LONG_LAST_CLUSTER)\<rparr>) s1)
            else Some (1, s1)
      })"

definition next_cluster :: "'w platform \<Rightarrow> u32 \<Rightarrow> u32 \<Rightarrow> ('w, 'a) kst_scheme \<Rightarrow> (u32 \<times> ('w, 'a) kst_scheme) option" where
  "next_cluster P dpbp ClusterNum s =
     do {
       (candidate, s1) \<leftarrow> link_fat P dpbp ClusterNum READ_CLUSTER s;
       if candidate < 2 \<or> candidate \<ge> LONG_BAD then Some (candidate, s1)
       else do {
         (following, s2) \<leftarrow> link_fat P dpbp candidate READ_CLUSTER s1;
         if following < 2 \<or> (following < LONG_BAD \<and> following > max_cluster (dpbs s2 dpbp)) then Some (1, s2)
         else Some (candidate, s2)
       }
     }"

definition is_free_cluster :: "'w platform \<Rightarrow> u32 \<Rightarrow> u32 \<Rightarrow> ('w, 'a) kst_scheme \<Rightarrow> (bool \<times> ('w, 'a) kst_scheme) option" where
  "is_free_cluster P dpbp ClusterNum s =
     do {
       (c, s1) \<leftarrow> link_fat P dpbp ClusterNum READ_CLUSTER s;
       Some (c = FREE, s1)
     }"

end
