(* ===== verification/DosState.thy ===== *)
theory DosState
  imports FatTab
begin

text \<open>
  The data of the FAT file system above the block layer: directory entries (\<^verbatim>\<open>hdr/fat.h\<close>), the
  directory search block (\<^verbatim>\<open>hdr/dirmatch.h\<close>), file nodes (\<^verbatim>\<open>hdr/fnode.h\<close>), system file table
  entries (\<^verbatim>\<open>hdr/sft.h\<close>), the clock record (\<^verbatim>\<open>hdr/clock.h\<close>), and the kernel variables that the file
  system keeps in them. Arrays of known length are lists; \<^verbatim>\<open>dmatch *\<close> in a file node is the number of
  the search block in the array \<^verbatim>\<open>dms\<close> (0 for \<^verbatim>\<open>sda_tmp_dm\<close>, 1 for \<^verbatim>\<open>sda_tmp_dm_ren\<close>), and
  \<^verbatim>\<open>f_node_ptr\<close> is an index of the array \<^verbatim>\<open>fnode\<close>. The linked tables of the system file table are
  the list of their tables, and a pointer to an entry is the number of the table and of the entry
  in it.
\<close>

section \<open>Data\<close>

record dirent =
  dir_name :: "u8 list"
  dir_attrib :: u8
  dir_case :: u8
  dir_crtimems :: u8
  dir_crtime :: u16
  dir_crdate :: u16
  dir_accdate :: u16
  dir_start_high :: u16
  dir_time :: u16
  dir_date :: u16
  dir_start :: u16
  dir_size :: u32

abbreviation (input) D_RDONLY :: u8 where "D_RDONLY \<equiv> 0x01"
abbreviation (input) D_HIDDEN :: u8 where "D_HIDDEN \<equiv> 0x02"
abbreviation (input) D_SYSTEM :: u8 where "D_SYSTEM \<equiv> 0x04"
abbreviation (input) D_VOLID :: u8 where "D_VOLID \<equiv> 0x08"
abbreviation (input) D_DIR :: u8 where "D_DIR \<equiv> 0x10"
abbreviation (input) D_ARCHIVE :: u8 where "D_ARCHIVE \<equiv> 0x20"
abbreviation (input) D_DEVICE :: u8 where "D_DEVICE \<equiv> 0x40"
abbreviation (input) D_LFN :: u8 where "D_LFN \<equiv> 0x0f"
abbreviation (input) D_ALL :: u8 where "D_ALL \<equiv> 0x37"
abbreviation (input) DELETED :: u8 where "DELETED \<equiv> 0x05"
abbreviation (input) EXT_DELETED :: u8 where "EXT_DELETED \<equiv> 0xe5"

record dmatch =
  dm_drive :: u8
  dm_name_pat :: "u8 list"
  dm_attr_srch :: u8
  dm_entry :: u16
  dm_dircluster :: u32

record f_node =
  f_flags :: u16
  f_dmp :: nat
  f_dir :: dirent
  f_dirsector :: u32
  f_diridx :: u8
  f_dpb :: u32
  f_offset :: u32
  f_cluster_offset :: u32
  f_cluster :: u32
  f_sft_idx :: u8

record sft =
  sft_count :: u16
  sft_mode :: u16
  sft_attrib :: u8
  sft_flags :: u16
  sft_dcb :: u32
  sft_relclust_high :: u16
  sft_time :: u16
  sft_date :: u16
  sft_size :: u32
  sft_posit :: u32
  sft_relclust :: u16
  sft_dirsector :: u32
  sft_diridx :: u8
  sft_name :: "u8 list"
  sft_stclust :: u32
  sft_mach :: u16
  sft_psp :: u16
  sft_shroff :: u16
  sft_cuclust :: u32

abbreviation (input) SFT_FSHARED :: u16 where "SFT_FSHARED \<equiv> 0x8000"
abbreviation (input) SFT_FDATE :: u16 where "SFT_FDATE \<equiv> 0x4000"
abbreviation (input) SFT_FDEVICE :: u16 where "SFT_FDEVICE \<equiv> 0x0080"
abbreviation (input) SFT_FCLEAN :: u16 where "SFT_FCLEAN \<equiv> 0x0040"

text \<open>The record as the clock driver sees it: its bytes are little endian, in this order.\<close>

record ClockRecord =
  clkDays :: u16
  clkMinutes :: u8
  clkHours :: u8
  clkHundredths :: u8
  clkSeconds :: u8

definition clock_bytes :: "ClockRecord \<Rightarrow> bytes \<Rightarrow> bytes" where
  "clock_bytes c d = (fputword d 0 (clkDays c))(2 := clkMinutes c, 3 := clkHours c, 4 := clkHundredths c, 5 := clkSeconds c)"

definition clock_of :: "bytes \<Rightarrow> ClockRecord" where
  "clock_of d = \<lparr>clkDays = fgetword d 0, clkMinutes = d 2, clkHours = d 3, clkHundredths = d 4, clkSeconds = d 5\<rparr>"

record dostime =
  minute :: u8
  hour :: u8
  hundredth :: u8
  second :: u8

record dosdate =
  year :: u16
  monthday :: u8
  month :: u8

text \<open>
  The BIOS parameter block (\<^verbatim>\<open>hdr/device.h\<close>), and the request header of media requests. Its field
  \<^verbatim>\<open>r_bpptr\<close> stands for the block that the pointer of this name leads to.
\<close>

record bpb =
  bpb_nbyte :: u16
  bpb_nsector :: u8
  bpb_nreserved :: u16
  bpb_nfat :: u8
  bpb_ndirent :: u16
  bpb_nsize :: u16
  bpb_mdesc :: u8
  bpb_nfsect :: u16
  bpb_nsecs :: u16
  bpb_nheads :: u16
  bpb_hidden :: u32
  bpb_huge :: u32
  bpb_xnfsect :: u32
  bpb_xflags :: u16
  bpb_xfsversion :: u16
  bpb_xrootclst :: u32
  bpb_xfsinfosec :: u16
  bpb_xbackupsec :: u16

record media_request =
  m_length :: u8
  m_unit :: u8
  m_command :: u8
  m_status :: u16
  r_mcmdesc :: u8
  r_mcretcode :: u8
  r_bpptr :: bpb

text \<open>
  \<^verbatim>\<open>junk_time\<close> and \<^verbatim>\<open>junk_date\<close> are what the stack holds where \<^verbatim>\<open>dos_gettime\<close> and \<^verbatim>\<open>dos_getdate\<close> put their
  local variables, which they do not initialise.
\<close>

record 'w dos = "'w kst" +
  CharReqHdr :: request
  ClkRecord :: bytes
  clock_dev :: u32
  fnode :: "nat \<Rightarrow> f_node"
  dms :: "nat \<Rightarrow> dmatch"
  SearchDir :: dirent
  sfthead :: "sft list list"
  lpCurSft :: "(nat \<times> nat) option"
  share_installed :: bool
  MediaReqHdr :: media_request
  dos_ds :: u16
  junk_time :: dostime
  junk_date :: dosdate

abbreviation (input) fn :: "nat \<Rightarrow> ('w, 'a) dos_scheme \<Rightarrow> f_node" where
  "fn i s \<equiv> fnode s i"

abbreviation (input) upd_fn :: "nat \<Rightarrow> (f_node \<Rightarrow> f_node) \<Rightarrow> ('w, 'a) dos_scheme \<Rightarrow> ('w, 'a) dos_scheme" where
  "upd_fn i f s \<equiv> s\<lparr>fnode := (fnode s)(i := f (fnode s i))\<rparr>"

text \<open>The search block of a file node, and the parameter block of its drive.\<close>

abbreviation (input) dm :: "nat \<Rightarrow> ('w, 'a) dos_scheme \<Rightarrow> dmatch" where
  "dm i s \<equiv> dms s (f_dmp (fnode s i))"

abbreviation (input) upd_dm :: "nat \<Rightarrow> (dmatch \<Rightarrow> dmatch) \<Rightarrow> ('w, 'a) dos_scheme \<Rightarrow> ('w, 'a) dos_scheme" where
  "upd_dm i f s \<equiv> s\<lparr>dms := (dms s)(f_dmp (fnode s i) := f (dms s (f_dmp (fnode s i))))\<rparr>"

abbreviation (input) fdpb :: "nat \<Rightarrow> ('w, 'a) dos_scheme \<Rightarrow> dpb" where
  "fdpb i s \<equiv> dpbs s (f_dpb (fnode s i))"

abbreviation (input) sft_at :: "nat \<times> nat \<Rightarrow> ('w, 'a) dos_scheme \<Rightarrow> sft" where
  "sft_at p s \<equiv> sfthead s ! fst p ! snd p"

abbreviation (input) upd_sft :: "nat \<times> nat \<Rightarrow> (sft \<Rightarrow> sft) \<Rightarrow> ('w, 'a) dos_scheme \<Rightarrow> ('w, 'a) dos_scheme" where
  "upd_sft p f s \<equiv> s\<lparr>sfthead := (sfthead s)[fst p := (sfthead s ! fst p)[snd p := f (sfthead s ! fst p ! snd p)]]\<rparr>"

section \<open>The system file table\<close>

text \<open>\<^verbatim>\<open>dosfns.c\<close>: the entry of an index, and \<^verbatim>\<open>None\<close> for the pointer -1.\<close>

fun sft_loop :: "nat \<Rightarrow> int \<Rightarrow> sft list list \<Rightarrow> (nat \<times> nat) option" where
  "sft_loop t SftIndex [] = None"
| "sft_loop t SftIndex (sp # sps) =
     (if SftIndex < int (length sp) then Some (t, nat SftIndex) else sft_loop (t + 1) (SftIndex - int (length sp)) sps)"

definition idx_to_sft_loc :: "int \<Rightarrow> ('w, 'a) dos_scheme \<Rightarrow> int \<times> ('w, 'a) dos_scheme" where
  "idx_to_sft_loc SftIndex s =
     (if SftIndex < 0 then (-1, s\<lparr>lpCurSft := None\<rparr>)
      else case sft_loop 0 SftIndex (sfthead s) of
        None \<Rightarrow> (-1, s\<lparr>lpCurSft := None\<rparr>)
      | Some p \<Rightarrow> (int (snd p), s\<lparr>lpCurSft := Some p\<rparr>))"

definition idx_to_sft :: "int \<Rightarrow> ('w, 'a) dos_scheme \<Rightarrow> (nat \<times> nat) option \<times> ('w, 'a) dos_scheme" where
  "idx_to_sft SftIndex s =
     (let (i, s1) = idx_to_sft_loc SftIndex s in
      case lpCurSft s1 of
        None \<Rightarrow> (None, s1)
      | Some p \<Rightarrow> (if i = -1 \<or> sft_count (sft_at p s1) = 0 then None else Some p, s1))"

end
