(* ===== verification/Clock.thy ===== *)
theory Clock
  imports DosState "HOL-Library.Signed_Division"
begin

text \<open>
  Date and time: \<^verbatim>\<open>kernel/systime.c\<close> (the DOS calls), the part of \<^verbatim>\<open>kernel/chario.c\<close> and
  \<^verbatim>\<open>kernel/error.c\<close> through which they reach the clock device, and \<^verbatim>\<open>kernel/sysclk.c\<close> (the driver of
  that device). The PC clock and the AT clock are read and written by assembler routines, which
  are parameters of the driver.
\<close>

section \<open>The calendar\<close>

definition days :: "u16 list list" where
  "days = [[0, 31, 59, 90, 120, 151, 181, 212, 243, 273, 304, 334, 365],
           [0, 31, 60, 91, 121, 152, 182, 213, 244, 274, 305, 335, 366]]"

definition is_leap_year_monthdays :: "u16 \<Rightarrow> u16 list" where
  "is_leap_year_monthdays y = (if y AND 3 \<noteq> 0 \<or> y = 2100 then days ! 0 else days ! 1)"

definition DaysFromYearMonthDay :: "u16 \<Rightarrow> u16 \<Rightarrow> u16 \<Rightarrow> u16" where
  "DaysFromYearMonthDay Year Month DayOfMonth =
     (if Year < 1980 then 0
      else DayOfMonth - 1 + is_leap_year_monthdays Year ! unat (Month - 1) + (Year - 1980) * 365 + (Year - 1980 + 3) div 4)"

text \<open>The loop over the years: the year, and the days left in it.\<close>

lemma year_days: "is_leap_year_monthdays y ! 12 = 365 \<or> is_leap_year_monthdays y ! 12 = 366"
  by (simp add: is_leap_year_monthdays_def days_def)

lemma unat_minus_less: "a \<noteq> 0 \<Longrightarrow> a \<le> c \<Longrightarrow> unat (c - a) < unat c" for a c :: u16
  using unat_gt_0 [of a] unat_sub [of a c] by (auto simp: word_le_nat_alt)

function year_loop :: "u16 \<Rightarrow> u16 \<Rightarrow> u16 \<times> u16" where
  "year_loop Year c =
     (let pdays = is_leap_year_monthdays Year in
      if c \<ge> pdays ! 12 then year_loop (Year + 1) (c - pdays ! 12) else (Year, c))"
  by auto
termination
proof (relation "measure (\<lambda>(y, c). unat c)")
  fix Year c x
  assume "x = is_leap_year_monthdays Year" "x ! 12 \<le> c"
  then show "((Year + 1, c - x ! 12), (Year, c)) \<in> measure (\<lambda>(y, c). unat c)"
    using year_days [of Year] by (auto intro!: unat_minus_less)
qed simp

text \<open>The loop over the months stops at the latest at the end of the table, entry 12.\<close>

function month_loop :: "u16 list \<Rightarrow> u16 \<Rightarrow> nat \<Rightarrow> nat" where
  "month_loop pdays c Month = (if Month < length pdays \<and> c \<ge> pdays ! Month then month_loop pdays c (Month + 1) else Month)"
  by auto
termination
  by (relation "measure (\<lambda>(pdays, c, Month). length pdays - Month)") auto

declare year_loop.simps [simp del] month_loop.simps [simp del]

section \<open>Character devices\<close>

text \<open>
  \<^verbatim>\<open>error.c\<close>, \<^verbatim>\<open>chario.c\<close>: a request to a character device, repeated as long as the user answers
  Retry.
\<close>

definition char_error :: "'w platform \<Rightarrow> u32 \<Rightarrow> ('w, 'a) dos_scheme \<Rightarrow> int \<times> ('w, 'a) dos_scheme" where
  "char_error P lpDevice s =
     (let err = r_status (CharReqHdr s) AND S_MASK;
          (r, w) = CriticalError P 0xb8 0 err lpDevice (world s)
      in (r, s\<lparr>CritErrCode := err + 0x13, world := w\<rparr>))"

partial_function (option) ask_char :: "'w platform \<Rightarrow> u32 \<Rightarrow> ('w, 'a) dos_scheme \<Rightarrow> (int \<times> ('w, 'a) dos_scheme) option" where
  "ask_char P dev s =
     (let (r, s1) = char_error P dev s in
      if r = ERR_ABORT \<or> r = ERR_FAIL then Some (-12, s1)
      else if r = ERR_CONTINUE then Some (0, s1\<lparr>CharReqHdr := (CharReqHdr s1)\<lparr>r_count := 0\<rparr>\<rparr>)
      else if r = ERR_RETRY then Some (1, s1)
      else ask_char P dev s1)"

definition CharRequest :: "'w platform \<Rightarrow> u32 \<Rightarrow> u8 \<Rightarrow> bytes \<Rightarrow> ('w, 'a) dos_scheme \<Rightarrow> (int \<times> bytes \<times> ('w, 'a) dos_scheme) option" where
  "CharRequest P dev command buf s =
     (let rq = (CharReqHdr s)\<lparr>r_command := command, r_unit := 0, r_status := 0, r_length := 30\<rparr>;
          (rq', buf', w) = execrh P rq dev buf (world s);
          s1 = s\<lparr>CharReqHdr := rq', world := w\<rparr>
      in if r_status rq' AND S_ERROR \<noteq> 0
         then do { (r, s2) \<leftarrow> ask_char P dev s1; Some (r, buf', s2) }
         else Some (SUCCESS, buf', s1))"

partial_function (option) BinaryCharIO ::
  "'w platform \<Rightarrow> u32 \<Rightarrow> u16 \<Rightarrow> bytes \<Rightarrow> u8 \<Rightarrow> ('w, 'a) dos_scheme \<Rightarrow> (int \<times> bytes \<times> ('w, 'a) dos_scheme) option" where
  "BinaryCharIO P dev n buf command s =
     do {
       (err, buf', s1) \<leftarrow> CharRequest P dev command buf (s\<lparr>CharReqHdr := (CharReqHdr s)\<lparr>r_count := n\<rparr>\<rparr>);
       if err = 1 then BinaryCharIO P dev n buf' command s1
       else Some (if err = SUCCESS then int (unat (r_count (CharReqHdr s1))) else err, buf', s1)
     }"

declare ask_char.simps [code] BinaryCharIO.simps [code]

section \<open>The calls\<close>

abbreviation (input) DE_INVLDDATA :: int where "DE_INVLDDATA \<equiv> -13"

definition ExecuteClockDriverRequest :: "'w platform \<Rightarrow> u8 \<Rightarrow> ('w, 'a) dos_scheme \<Rightarrow> ('w, 'a) dos_scheme option" where
  "ExecuteClockDriverRequest P command s =
     do {
       (_, buf, s1) \<leftarrow> BinaryCharIO P (clock_dev s) 6 (ClkRecord s) command s;
       Some (s1\<lparr>ClkRecord := buf\<rparr>)
     }"

text \<open>\<^verbatim>\<open>DosGetTime\<close> writes through its argument only when the device answers.\<close>

definition DosGetTime :: "'w platform \<Rightarrow> dostime \<Rightarrow> ('w, 'a) dos_scheme \<Rightarrow> (dostime \<times> ('w, 'a) dos_scheme) option" where
  "DosGetTime P dt s =
     do {
       s1 \<leftarrow> ExecuteClockDriverRequest P C_INPUT s;
       if r_status (CharReqHdr s1) AND S_ERROR \<noteq> 0 then Some (dt, s1)
       else
         let c = clock_of (ClkRecord s1) in
         Some (\<lparr>minute = clkMinutes c, hour = clkHours c, hundredth = clkHundredths c, second = clkSeconds c\<rparr>, s1)
     }"

definition clock_status :: "'w platform \<Rightarrow> ('w, 'a) dos_scheme \<Rightarrow> int \<times> ('w, 'a) dos_scheme" where
  "clock_status P s = (if r_status (CharReqHdr s) AND S_ERROR \<noteq> 0 then char_error P (clock_dev s) s else (SUCCESS, s))"

definition DosSetTime :: "'w platform \<Rightarrow> dostime \<Rightarrow> ('w, 'a) dos_scheme \<Rightarrow> (int \<times> ('w, 'a) dos_scheme) option" where
  "DosSetTime P dt s =
     (if hour dt > 23 \<or> minute dt > 59 \<or> second dt > 59 \<or> hundredth dt > 99 then Some (DE_INVLDDATA, s)
      else do {
        s1 \<leftarrow> ExecuteClockDriverRequest P C_INPUT s;
        let c = (clock_of (ClkRecord s1))\<lparr>clkHours := hour dt, clkMinutes := minute dt, clkSeconds := second dt,
                  clkHundredths := hundredth dt\<rparr>;
        s2 \<leftarrow> ExecuteClockDriverRequest P C_OUTPUT (s1\<lparr>ClkRecord := clock_bytes c (ClkRecord s1)\<rparr>);
        Some (clock_status P s2)
      })"

definition date_of_days :: "u16 \<Rightarrow> dosdate" where
  "date_of_days d =
     (let (Year, c) = year_loop 1980 d;
          pdays = is_leap_year_monthdays Year;
          Month = month_loop pdays c 1
      in \<lparr>year = Year, monthday = ucast (c - pdays ! (Month - 1) + 1), month = of_nat Month\<rparr>)"

definition DosGetDate :: "'w platform \<Rightarrow> dosdate \<Rightarrow> ('w, 'a) dos_scheme \<Rightarrow> (u8 \<times> dosdate \<times> ('w, 'a) dos_scheme) option" where
  "DosGetDate P dd s =
     do {
       s1 \<leftarrow> ExecuteClockDriverRequest P C_INPUT s;
       if r_status (CharReqHdr s1) AND S_ERROR \<noteq> 0 then Some (0, dd, s1)
       else
         let d = clkDays (clock_of (ClkRecord s1)) in
         Some (ucast ((d + 2) mod 7), date_of_days d, s1)
     }"

definition valid_date :: "u16 \<Rightarrow> u16 \<Rightarrow> u16 \<Rightarrow> bool" where
  "valid_date Year Month DayOfMonth \<longleftrightarrow>
     (let pdays = is_leap_year_monthdays Year in
      \<not> (Year < 1980 \<or> Year > 2099 \<or> Month < 1 \<or> Month > 12 \<or> DayOfMonth < 1 \<or>
         DayOfMonth > pdays ! unat Month - pdays ! unat (Month - 1)))"

definition DosSetDate :: "'w platform \<Rightarrow> dosdate \<Rightarrow> ('w, 'a) dos_scheme \<Rightarrow> (int \<times> ('w, 'a) dos_scheme) option" where
  "DosSetDate P dd s =
     (let Year = year dd; Month = ucast (month dd); DayOfMonth = ucast (monthday dd) in
      if \<not> valid_date Year Month DayOfMonth then Some (DE_INVLDDATA, s)
      else do {
        s1 \<leftarrow> ExecuteClockDriverRequest P C_INPUT s;
        let c = (clock_of (ClkRecord s1))\<lparr>clkDays := DaysFromYearMonthDay Year Month DayOfMonth\<rparr>;
        s2 \<leftarrow> ExecuteClockDriverRequest P C_OUTPUT (s1\<lparr>ClkRecord := clock_bytes c (ClkRecord s1)\<rparr>);
        Some (clock_status P s2)
      })"

section \<open>The clock driver\<close>

text \<open>
  \<^verbatim>\<open>ReadPCClock\<close> returns the ticks since midnight, and counts the day in \<^verbatim>\<open>DaysSinceEpoch\<close> when
  midnight has passed; \<^verbatim>\<open>WritePCClock\<close> sets the ticks; \<^verbatim>\<open>WriteATClock\<close> takes the date, hours, minutes
  and seconds in binary coded decimals.
\<close>

record 'h clock_hw =
  ReadPCClock :: "u16 \<times> 'h \<Rightarrow> u32 \<times> u16 \<times> 'h"
  WritePCClock :: "u32 \<Rightarrow> 'h \<Rightarrow> 'h"
  WriteATClock :: "u8 list \<Rightarrow> u8 \<Rightarrow> u8 \<Rightarrow> u8 \<Rightarrow> 'h \<Rightarrow> 'h"

definition ByteToBcd :: "int \<Rightarrow> int" where
  "ByteToBcd x = push_bit 4 (x sdiv 10) OR (x smod 10)"

definition DayToBcd :: "u16 \<Rightarrow> u16 \<Rightarrow> u16 \<Rightarrow> u8 list" where
  "DayToBcd mon day yr =
     [word_of_int (ByteToBcd (sint day)), word_of_int (ByteToBcd (sint mon)),
      word_of_int (ByteToBcd (sint (yr mod 100))), word_of_int (ByteToBcd (sint (yr div 100)))]"

definition ticks_to_hs :: "u32 \<Rightarrow> u32" where
  "ticks_to_hs t =
     (let ticks = 5 * t in push_bit 16 (ticks div 59659) + push_bit 16 (ticks mod 59659) div 59659)"

definition hs_to_ticks :: "u32 \<Rightarrow> u32" where
  "hs_to_ticks hs = (drop_bit 16 hs * 59659 + drop_bit 16 ((hs AND 0xffff) * 59659)) div 5"

definition clk_input :: "u32 \<Rightarrow> u16 \<Rightarrow> ClockRecord" where
  "clk_input t d =
     (let ticks = ticks_to_hs t;
          tmp = sint (ucast (ticks div 6000) :: u16);
          tmp' = sint (ucast (ticks mod 6000) :: u16)
      in \<lparr>clkDays = d, clkMinutes = word_of_int (tmp smod 60), clkHours = word_of_int (tmp sdiv 60),
          clkHundredths = word_of_int (tmp' smod 100), clkSeconds = word_of_int (tmp' sdiv 100)\<rparr>)"

definition clk_hs :: "ClockRecord \<Rightarrow> u32" where
  "clk_hs clk = 6000 * (60 * ucast (clkHours clk) + ucast (clkMinutes clk)) + (100 * ucast (clkSeconds clk) + ucast (clkHundredths clk))"

definition clk_date :: "u16 \<Rightarrow> u16 \<times> u16 \<times> u16" where
  "clk_date d =
     (let (Year, Day) = year_loop 1980 d;
          pdays = is_leap_year_monthdays Year;
          Month = month_loop pdays Day 1
      in (Year, of_nat Month, if Month < 13 then Day - pdays ! (Month - 1) + 1 else Day))"

definition clk_driver ::
  "'h clock_hw \<Rightarrow> request \<Rightarrow> bytes \<Rightarrow> u16 \<times> 'h \<Rightarrow> u16 \<times> request \<times> bytes \<times> (u16 \<times> 'h)" where
  "clk_driver W rp buf st =
     (if r_command rp = 0 then (S_DONE, rp\<lparr>r_meddesc := 0\<rparr>, buf, st)
      else if r_command rp = C_INPUT then
        if r_count rp \<noteq> 6 then (0x8105, rp, buf, st)
        else
          let (t, DaysSinceEpoch, h) = ReadPCClock W st
          in (S_DONE, rp, clock_bytes (clk_input t DaysSinceEpoch) buf, (DaysSinceEpoch, h))
      else if r_command rp = C_OUTPUT then
        if r_count rp \<noteq> 6 then (0x8105, rp, buf, st)
        else
          let clk = clock_of buf;
              h = WritePCClock W (hs_to_ticks (clk_hs clk)) (snd st);
              (Year, Month, Day) = clk_date (clkDays clk);
              h' = WriteATClock W (DayToBcd Month Day Year) (word_of_int (ByteToBcd (uint (clkHours clk))))
                     (word_of_int (ByteToBcd (uint (clkMinutes clk)))) (word_of_int (ByteToBcd (uint (clkSeconds clk)))) h
          in (S_DONE, rp, buf, (clkDays clk, h'))
      else if r_command rp = 11 \<or> r_command rp = 7 then (S_DONE, rp, buf, st)
      else (0x810c, rp, buf, st))"

end
