(* ===== verification/DirEntry.thy ===== *)
theory DirEntry
  imports Clock
begin

text \<open>
  Directory entries and file names: the layout of \<^verbatim>\<open>struct dirent\<close> on disk (\<^verbatim>\<open>hdr/fat.h\<close>, with the
  copying macros of \<^verbatim>\<open>proto.h\<close>), the conversions between names and blank padded 8+3 names of
  \<^verbatim>\<open>kernel/fatdir.c\<close>, and the small helpers of \<^verbatim>\<open>kernel/fatfs.c\<close> for entries, names and stamps. A string
  is the list of its characters without the final zero.
\<close>

section \<open>Entries on disk\<close>

definition getdirent :: "bytes \<Rightarrow> nat \<Rightarrow> dirent" where
  "getdirent d i =
     \<lparr>dir_name = map (\<lambda>k. d (i + k)) [0..<11], dir_attrib = d (i + 11), dir_case = d (i + 12), dir_crtimems = d (i + 13),
      dir_crtime = fgetword d (i + 14), dir_crdate = fgetword d (i + 16), dir_accdate = fgetword d (i + 18),
      dir_start_high = fgetword d (i + 20), dir_time = fgetword d (i + 22), dir_date = fgetword d (i + 24),
      dir_start = fgetword d (i + 26), dir_size = fgetlong d (i + 28)\<rparr>"

definition put_name :: "u8 list \<Rightarrow> bytes \<Rightarrow> nat \<Rightarrow> bytes" where
  "put_name n d i = (\<lambda>k. if i \<le> k \<and> k < i + 11 then n ! (k - i) else d k)"

definition putdirent :: "dirent \<Rightarrow> bytes \<Rightarrow> nat \<Rightarrow> bytes" where
  "putdirent e d i =
     (let d1 = (put_name (dir_name e) d i)(i + 11 := dir_attrib e, i + 12 := dir_case e, i + 13 := dir_crtimems e);
          d2 = fputword (fputword (fputword d1 (i + 14) (dir_crtime e)) (i + 16) (dir_crdate e)) (i + 18) (dir_accdate e);
          d3 = fputword (fputword (fputword d2 (i + 20) (dir_start_high e)) (i + 22) (dir_time e)) (i + 24) (dir_date e)
      in fputlong (fputword d3 (i + 26) (dir_start e)) (i + 28) (dir_size e))"

section \<open>Start clusters\<close>

definition getdstart :: "dpb \<Rightarrow> dirent \<Rightarrow> u32" where
  "getdstart d e = (if \<not> ISFAT32 d then ucast (dir_start e) else push_bit 16 (ucast (dir_start_high e)) OR ucast (dir_start e))"

definition setdstart :: "dpb \<Rightarrow> u32 \<Rightarrow> dirent \<Rightarrow> dirent" where
  "setdstart d v e =
     (let e1 = e\<lparr>dir_start := ucast v\<rparr>
      in if ISFAT32 d then e1\<lparr>dir_start_high := ucast (drop_bit 16 v)\<rparr> else e1)"

definition clus2phys :: "u32 \<Rightarrow> dpb \<Rightarrow> u32" where
  "clus2phys cl_no d =
     push_bit (unat (dpb_shftcnt d)) (cl_no - 2) + (if ISFAT32 d then dpb_xdata d else ucast (dpb_data d))"

section \<open>Stamps\<close>

definition time_encode :: "dostime \<Rightarrow> u16" where
  "time_encode t = (push_bit 11 (ucast (hour t)) OR push_bit 5 (ucast (minute t))) OR drop_bit 1 (ucast (second t))"

definition DT_ENCODE :: "u16 \<Rightarrow> u16 \<Rightarrow> u16 \<Rightarrow> u16" where
  "DT_ENCODE m d y = (push_bit 5 (m AND 0xf) OR (d AND 0x1f)) OR push_bit 9 (y AND 0x7f)"

definition DT_YEAR :: "u16 \<Rightarrow> u16" where "DT_YEAR d = drop_bit 9 d AND 0x7f"
definition DT_MONTH :: "u16 \<Rightarrow> u16" where "DT_MONTH d = drop_bit 5 d AND 0xf"
definition DT_DAY :: "u16 \<Rightarrow> u16" where "DT_DAY d = d AND 0x1f"

definition dos_getdate :: "'w platform \<Rightarrow> ('w, 'a) dos_scheme \<Rightarrow> (u16 \<times> ('w, 'a) dos_scheme) option" where
  "dos_getdate P s =
     do {
       (_, dd, s1) \<leftarrow> DosGetDate P (junk_date s) s;
       Some (DT_ENCODE (ucast (month dd)) (ucast (monthday dd)) (year dd - 1980), s1)
     }"

definition dos_gettime :: "'w platform \<Rightarrow> ('w, 'a) dos_scheme \<Rightarrow> (u16 \<times> ('w, 'a) dos_scheme) option" where
  "dos_gettime P s =
     do {
       (dt, s1) \<leftarrow> DosGetTime P (junk_time s) s;
       Some (time_encode dt, s1)
     }"

definition init_direntry ::
  "'w platform \<Rightarrow> u8 \<Rightarrow> u32 \<Rightarrow> u8 list \<Rightarrow> ('w, 'a) dos_scheme \<Rightarrow> (dirent \<times> ('w, 'a) dos_scheme) option" where
  "init_direntry P attrib cluster name s =
     do {
       (t, s1) \<leftarrow> dos_gettime P s;
       (d, s2) \<leftarrow> dos_getdate P s1;
       Some (\<lparr>dir_name = take 11 name, dir_attrib = attrib, dir_case = 0, dir_crtimems = 0, dir_crtime = t, dir_crdate = d,
              dir_accdate = 0, dir_start_high = ucast (drop_bit 16 cluster), dir_time = t, dir_date = d,
              dir_start = ucast cluster, dir_size = 0\<rparr>, s2)
     }"

section \<open>Names\<close>

text \<open>The length \<^verbatim>\<open>n\<close> of \<^verbatim>\<open>fcmp_wild\<close> is that of both lists in every call.\<close>

fun fcmp_wild :: "u8 list \<Rightarrow> u8 list \<Rightarrow> nat \<Rightarrow> bool" where
  "fcmp_wild (c1 # s1) (c2 # s2) (Suc n) = (if c1 \<noteq> 0x3f \<and> c1 \<noteq> c2 then False else fcmp_wild s1 s2 n)"
| "fcmp_wild _ _ _ = True"

definition fcbmatch :: "u8 list \<Rightarrow> u8 list \<Rightarrow> bool" where
  "fcbmatch fcbname1 fcbname2 \<longleftrightarrow> take 11 fcbname1 = take 11 fcbname2"

definition swap_deleted :: "u8 list \<Rightarrow> u8 list" where
  "swap_deleted name =
     (if name ! 0 = DELETED \<or> name ! 0 = EXT_DELETED then name[0 := name ! 0 XOR 0xe0] else name)"

fun name83_loop :: "nat \<Rightarrow> u8 list \<Rightarrow> u8 list \<Rightarrow> u8 list \<times> u8 list" where
  "name83_loop i fcbname [] = (fcbname, [])"
| "name83_loop i fcbname (c # dirname) =
     (if i \<ge> 11 then (fcbname, c # dirname)
      else if c = 0x2e then name83_loop 8 fcbname dirname
      else if c \<noteq> 0 \<and> c \<noteq> 0x5c then name83_loop (i + 1) (fcbname[i := c]) dirname
      else (fcbname, c # dirname))"

definition ConvertNameSZToName83 :: "u8 list \<Rightarrow> u8 list \<times> u8 list" where
  "ConvertNameSZToName83 dirname = name83_loop 0 (replicate 11 0x20) dirname"

text \<open>The loops that look for the last character that is not a blank.\<close>

definition strip_blanks :: "u8 list \<Rightarrow> u8 list" where
  "strip_blanks xs = rev (dropWhile (\<lambda>c. c = 0x20) (rev xs))"

definition ConvertName83ToNameSZ :: "u8 list \<Rightarrow> u8 list" where
  "ConvertName83ToNameSZ srcFCBName =
     (let noExtension = (srcFCBName ! 0 = 0x2e);
          n = strip_blanks (take 8 srcFCBName);
          e = strip_blanks (take 3 (drop 8 srcFCBName))
      in n @ (if \<not> noExtension \<and> e \<noteq> [] then 0x2e # e else []))"

end
