(* ===== verification/MemMgr.thy ===== *)
theory MemMgr
  imports Prelude
begin

text \<open>
  The memory manager of \<^verbatim>\<open>kernel/memmgr.c\<close>. Conventional memory is a chain of memory control
  blocks (MCBs, \<^verbatim>\<open>hdr/mcb.h\<close>): each MCB occupies the 16-byte paragraph in front of the block it
  describes, and the next MCB follows the block. Every paragraph of the address space is
  reached as \<^verbatim>\<open>seg:0\<close>, so the store maps a segment to the sixteen bytes there, read as an MCB.

  The first part holds the definitions in the order of the source. The second part introduces
  the abstract arena (the list of owner and size of each block), shows what each operation does to
  it, and derives the allocator's contract.
\<close>

section \<open>Data\<close>

record mcb =
  m_type :: u8
  m_psp :: u16
  m_size :: u16
  m_fill :: "u8 list"
  m_name :: "u8 list"

type_synonym store = "u16 \<Rightarrow> mcb"

record mm =
  mem :: store
  first_mcb :: u16
  uppermem_root :: u16
  uppermem_link :: u8
  mem_access_mode :: u8
  cu_psp :: u16

abbreviation (input) MCB_NORMAL :: u8 where "MCB_NORMAL \<equiv> 0x4d"
abbreviation (input) MCB_LAST :: u8 where "MCB_LAST \<equiv> 0x5a"
abbreviation (input) FREE_PSP :: u16 where "FREE_PSP \<equiv> 0"

abbreviation (input) LARGEST :: u16 where "LARGEST \<equiv> 0xffff"
abbreviation (input) FIRST_FIT :: u16 where "FIRST_FIT \<equiv> 0"
abbreviation (input) BEST_FIT :: u16 where "BEST_FIT \<equiv> 1"
abbreviation (input) LAST_FIT :: u16 where "LAST_FIT \<equiv> 2"
abbreviation (input) FIRST_FIT_UO :: u16 where "FIRST_FIT_UO \<equiv> 0x40"
abbreviation (input) BEST_FIT_UO :: u16 where "BEST_FIT_UO \<equiv> 0x41"
abbreviation (input) LAST_FIT_UO :: u16 where "LAST_FIT_UO \<equiv> 0x42"
abbreviation (input) FIRST_FIT_U :: u16 where "FIRST_FIT_U \<equiv> 0x80"
abbreviation (input) BEST_FIT_U :: u16 where "BEST_FIT_U \<equiv> 0x81"
abbreviation (input) LAST_FIT_U :: u16 where "LAST_FIT_U \<equiv> 0x82"

section \<open>Operations\<close>

text \<open>
  A far pointer to an MCB has offset 0, so it is its segment; \<open>0\<close> is the null pointer.
  Segment arithmetic wraps at 16 bits.
\<close>

definition nxtMCBsize :: "u16 \<Rightarrow> u16 \<Rightarrow> u16" where
  "nxtMCBsize p sz = p + sz + 1"

definition nxtMCB :: "store \<Rightarrow> u16 \<Rightarrow> u16" where
  "nxtMCB m p = nxtMCBsize p (m_size (m p))"

definition mcbFree :: "mcb \<Rightarrow> bool" where
  "mcbFree b \<longleftrightarrow> m_psp b = FREE_PSP"

definition mcbFreeable :: "mcb \<Rightarrow> bool" where
  "mcbFreeable b \<longleftrightarrow> m_type b = MCB_NORMAL \<or> m_type b = MCB_LAST"

definition mcbValid :: "mcb \<Rightarrow> bool" where
  "mcbValid b \<longleftrightarrow> m_size b \<noteq> 0xffff \<and> (m_type b = MCB_NORMAL \<or> m_type b = MCB_LAST)"

text \<open>One turn of the loop of \<^verbatim>\<open>joinMCBs\<close>: \<open>p\<close> absorbs its successor \<open>q\<close>.\<close>

definition join_step :: "u16 \<Rightarrow> u16 \<Rightarrow> store \<Rightarrow> store" where
  "join_step p q m =
     (let m1 = m(p := (m p)\<lparr>m_type := m_type (m q)\<rparr>);
          m2 = m1(p := (m1 p)\<lparr>m_size := m_size (m1 p) + (m_size (m1 q) + 1)\<rparr>)
      in m2(q := (m2 q)\<lparr>m_size := 0xffff\<rparr>))"

lemma nxtMCB_fixpoint: "nxtMCB m p = p \<Longrightarrow> m_size (m p) = 0xffff"
proof -
  assume "nxtMCB m p = p"
  then have "m_size (m p) + 1 = 0"
    by (simp add: nxtMCB_def nxtMCBsize_def add.assoc)
  then have "m_size (m p) = - 1" by (simp add: eq_neg_iff_add_eq_0)
  then show ?thesis by simp
qed

lemma join_step_valid_shrinks:
  assumes "q = nxtMCB m p" and "mcbValid (m q)"
  shows "card {s. s \<noteq> p \<and> mcbValid (join_step p q m s)} < card {s. s \<noteq> p \<and> mcbValid (m s)}"
proof (rule psubset_card_mono)
  have "q \<noteq> p" using assms nxtMCB_fixpoint [of m p] by (auto simp: mcbValid_def)
  then show "{s. s \<noteq> p \<and> mcbValid (join_step p q m s)} \<subset> {s. s \<noteq> p \<and> mcbValid (m s)}"
    using assms(2) by (auto simp: join_step_def Let_def mcbValid_def split: if_splits)
qed simp

text \<open>
  The loop stops on every store: each turn turns one valid MCB other than \<open>p\<close> into a fake one.
\<close>

function joinMCBs :: "u16 \<Rightarrow> store \<Rightarrow> int \<times> store" where
  "joinMCBs p m =
     (if m_type (m p) = MCB_NORMAL then
        let q = nxtMCB m p in
        if \<not> mcbFree (m q) then (SUCCESS, m)
        else if \<not> mcbValid (m q) then (DE_MCBDESTRY, m)
        else joinMCBs p (join_step p q m)
      else (SUCCESS, m))"
  by pat_completeness auto
termination
  by (relation "measure (\<lambda>(p, m). card {s. s \<noteq> p \<and> mcbValid (m s)})")
    (auto intro: join_step_valid_shrinks)

declare joinMCBs.simps [simp del]

text \<open>Normalising a far pointer \<open>(segment, offset)\<close>; the build is I86.\<close>

definition adjust_far :: "u16 \<times> u16 \<Rightarrow> u16 \<times> u16" where
  "adjust_far fp =
     (if fst fp = 0xffff then fp
      else (fst fp + drop_bit 4 (snd fp), snd fp AND 0xf))"

text \<open>
  The search of \<^verbatim>\<open>DosMemAlloc\<close>. \<open>biggest\<close> and \<open>found\<close> are the pointers \<^verbatim>\<open>biggestSeg\<close> and
  \<^verbatim>\<open>foundSeg\<close>. The search ends with a destroyed chain, by the jump to \<^verbatim>\<open>stopIt\<close>, or at the end of
  the chain; on a corrupt cyclic chain it does not end.
\<close>

datatype search = Destroyed store | StopIt store u16 | ChainEnd store u16 u16

definition is_first_fit :: "u16 \<Rightarrow> bool" where
  "is_first_fit mode \<longleftrightarrow> mode = FIRST_FIT \<or> mode = FIRST_FIT_U \<or> mode = FIRST_FIT_UO"

definition is_best_fit :: "u16 \<Rightarrow> bool" where
  "is_best_fit mode \<longleftrightarrow> mode = BEST_FIT \<or> mode = BEST_FIT_U \<or> mode = BEST_FIT_UO"

definition is_last_fit :: "u16 \<Rightarrow> bool" where
  "is_last_fit mode \<longleftrightarrow> mode = LAST_FIT \<or> mode = LAST_FIT_UO \<or> mode = LAST_FIT_U"

text \<open>The \<^verbatim>\<open>switch (mode)\<close> on a block that is large enough (first fit jumps out instead).\<close>

definition pick :: "u16 \<Rightarrow> store \<Rightarrow> u16 \<Rightarrow> u16 \<Rightarrow> u16" where
  "pick mode m found p =
     (if mode = LARGEST then found
      else if is_best_fit mode then
        (if found = 0 \<or> m_size (m found) > m_size (m p) then p else found)
      else p)"

partial_function (option) alloc_search ::
  "u16 \<Rightarrow> u16 \<Rightarrow> u16 \<Rightarrow> u16 \<Rightarrow> u16 \<Rightarrow> store \<Rightarrow> search option" where
  "alloc_search sz mode p biggest found m =
     (if \<not> mcbValid (m p) then Some (Destroyed m)
      else if mcbFree (m p) then
        (let (rc, m1) = joinMCBs p m in
         if rc \<noteq> SUCCESS then Some (Destroyed m1)
         else
           let biggest1 = (if biggest = 0 \<or> m_size (m1 biggest) < m_size (m1 p) then p else biggest)
           in if sz \<le> m_size (m1 p) \<and> is_first_fit mode then Some (StopIt m1 p)
              else
                let found1 = (if sz \<le> m_size (m1 p) then pick mode m1 found p else found)
                in if m_type (m1 p) = MCB_LAST then Some (ChainEnd m1 biggest1 found1)
                   else alloc_search sz mode (nxtMCB m1 p) biggest1 found1 m1)
      else if m_type (m p) = MCB_LAST then Some (ChainEnd m biggest found)
      else alloc_search sz mode (nxtMCB m p) biggest found m)"

text \<open>Where the search starts: the upper memory chain, when it is linked and the mode asks for it.\<close>

definition alloc_start :: "u16 \<Rightarrow> u16 \<Rightarrow> mm \<Rightarrow> u16" where
  "alloc_start sz mode s =
     (if uppermem_link s AND 1 \<noteq> 0 \<and> uppermem_root s \<noteq> 0xffff then
        (let tmpmode = (if mode = LARGEST then ucast (mem_access_mode s) else mode) in
         if (mode \<noteq> LARGEST \<or> sz = 0xffff) \<and> tmpmode AND (FIRST_FIT_UO OR FIRST_FIT_U) \<noteq> 0
         then uppermem_root s else first_mcb s)
      else first_mcb s)"

text \<open>
  From the label \<^verbatim>\<open>stopIt\<close> on: split the found block where it is larger than requested, and give
  it to the current process. The segment returned is that of the allocated MCB.
\<close>

definition split_block :: "u16 \<Rightarrow> u16 \<Rightarrow> u16 \<Rightarrow> store \<Rightarrow> u16 \<times> store" where
  "split_block sz mode found m =
     (if mode \<noteq> LARGEST \<and> sz \<noteq> m_size (m found) then
        (let (p, found', m1) =
           (if is_last_fit mode then
              let p = found;
                  n1 = m(p := (m p)\<lparr>m_size := m_size (m p) - (sz + 1)\<rparr>);
                  f = nxtMCB n1 p;
                  n2 = n1(f := (n1 f)\<lparr>m_type := m_type (n1 p)\<rparr>);
                  n3 = n2(p := (n2 p)\<lparr>m_type := MCB_NORMAL\<rparr>)
              in (p, f, n3)
            else
              let p = nxtMCBsize found sz;
                  n1 = m(p := (m p)\<lparr>m_type := m_type (m found)\<rparr>);
                  n2 = n1(p := (n1 p)\<lparr>m_size := m_size (n1 found) - sz - 1\<rparr>);
                  n3 = n2(found := (n2 found)\<lparr>m_type := MCB_NORMAL\<rparr>)
              in (p, found, n3));
             m2 = m1(p := (m1 p)\<lparr>m_psp := FREE_PSP\<rparr>);
             m3 = m2(found' := (m2 found')\<lparr>m_size := sz\<rparr>)
         in (found', m3))
      else (found, m))"

definition take_block :: "u16 \<Rightarrow> u16 \<Rightarrow> u16 \<Rightarrow> u16 \<Rightarrow> store \<Rightarrow> u16 \<times> store" where
  "take_block sz mode psp found m =
     (let (f, m1) = split_block sz mode found m;
          m2 = m1(f := (m1 f)\<lparr>m_psp := psp\<rparr>);
          m3 = m2(f := (m2 f)\<lparr>m_name := (m_name (m2 f))[0 := 0]\<rparr>)
      in (f, m3))"

text \<open>
  \<^verbatim>\<open>DosMemAlloc(size, mode, &para, asize)\<close>: \<open>asize\<close> is \<open>None\<close> for a null pointer, else the value
  it points to. The result holds the code, \<open>*para\<close>, \<open>*asize\<close> and the new state.
\<close>

partial_function (option) DosMemAlloc ::
  "u16 \<Rightarrow> u16 \<Rightarrow> u16 \<Rightarrow> u16 option \<Rightarrow> mm \<Rightarrow> (int \<times> u16 \<times> u16 option \<times> mm) option" where
  "DosMemAlloc sz mode para asize s =
     do {
       r \<leftarrow> alloc_search sz mode (alloc_start sz mode s) 0 0 (mem s);
       (case r of
          Destroyed m \<Rightarrow> Some (DE_MCBDESTRY, para, asize, s\<lparr>mem := m\<rparr>)
        | StopIt m found \<Rightarrow>
            (let (f, m1) = take_block sz mode (cu_psp s) found m
             in Some (SUCCESS, f, asize, s\<lparr>mem := m1\<rparr>))
        | ChainEnd m biggest found0 \<Rightarrow>
            (let big = mode = LARGEST \<and> biggest \<noteq> 0 \<and> sz \<le> m_size (m biggest);
                 found = (if big then biggest else found0);
                 asize1 = (if big then map_option (\<lambda>_. m_size (m biggest)) asize else asize)
             in if found = 0 \<or> m_size (m found) = 0 then
                  (if mode \<noteq> LARGEST \<and> mode AND FIRST_FIT_U \<noteq> 0 \<and>
                      uppermem_link s AND 1 \<noteq> 0 \<and> uppermem_root s \<noteq> 0xffff
                   then DosMemAlloc sz (mode AND NOT FIRST_FIT_U) para asize1 (s\<lparr>mem := m\<rparr>)
                   else Some (DE_NOMEM, para,
                          map_option (\<lambda>_. if biggest \<noteq> 0 then m_size (m biggest) else 0) asize1,
                          s\<lparr>mem := m\<rparr>))
                else
                  let (f, m1) = take_block sz mode (cu_psp s) found m
                  in Some (SUCCESS, f, asize1, s\<lparr>mem := m1\<rparr>)))
     }"

text \<open>\<^verbatim>\<open>DosMemLargest\<close>: the result code, \<open>*size\<close> and the state.\<close>

definition DosMemLargest :: "mm \<Rightarrow> (int \<times> u16 \<times> mm) option" where
  "DosMemLargest s =
     do {
       (_, _, a1, s1) \<leftarrow> DosMemAlloc 0xffff LARGEST 0 (Some 0) s;
       (sz, s3) \<leftarrow>
         (if mem_access_mode s1 AND 0x80 \<noteq> 0 then
            do {
              (_, _, a2, s2) \<leftarrow> DosMemAlloc 0xffff LARGEST 0 (Some 0)
                  (s1\<lparr>mem_access_mode := mem_access_mode s1 AND NOT 0x80\<rparr>);
              Some (if the a2 > the a1 then the a2 else the a1,
                    s2\<lparr>mem_access_mode := mem_access_mode s2 OR 0x80\<rparr>)
            }
          else Some (the a1, s1));
       Some (if sz \<noteq> 0 then SUCCESS else DE_NOMEM, sz, s3)
     }"

definition DosMemFree :: "u16 \<Rightarrow> mm \<Rightarrow> int \<times> mm" where
  "DosMemFree para s =
     (if para = 0 then (DE_INVLDMCB, s)
      else if \<not> mcbFreeable (mem s para) then (DE_INVLDMCB, s)
      else (SUCCESS, s\<lparr>mem := (mem s)(para := (mem s para)\<lparr>m_psp := FREE_PSP, m_name := replicate 8 0\<rparr>)\<rparr>))"

text \<open>The part of \<^verbatim>\<open>DosMemChange\<close> that cuts the block at \<open>p\<close> down to \<open>sz\<close>.\<close>

definition cut_block :: "u16 \<Rightarrow> u16 \<Rightarrow> store \<Rightarrow> store" where
  "cut_block p sz m =
     (let q = nxtMCBsize p sz;
          m1 = m(q := (m q)\<lparr>m_size := m_size (m p) - sz - 1\<rparr>);
          m2 = m1(q := (m1 q)\<lparr>m_type := m_type (m1 p)\<rparr>);
          m3 = m2(p := (m2 p)\<lparr>m_size := sz\<rparr>);
          m4 = m3(p := (m3 p)\<lparr>m_type := MCB_NORMAL\<rparr>)
      in m4(q := (m4 q)\<lparr>m_psp := FREE_PSP, m_name := replicate 8 0\<rparr>))"

definition DosMemChange :: "u16 \<Rightarrow> u16 \<Rightarrow> u16 option \<Rightarrow> mm \<Rightarrow> int \<times> u16 option \<times> mm" where
  "DosMemChange para sz maxSize s =
     (let p = para - 1; m = mem s in
      if \<not> mcbValid (m p) then (DE_MCBDESTRY, maxSize, s)
      else
        let (rc, m1) = (if m_size (m p) < sz then joinMCBs p m else (SUCCESS, m)) in
        if rc \<noteq> SUCCESS then (DE_MCBDESTRY, maxSize, s\<lparr>mem := m1\<rparr>)
        else if m_size (m1 p) < sz then
          (DE_NOMEM, map_option (\<lambda>_. m_size (m1 p)) maxSize, s\<lparr>mem := m1\<rparr>)
        else
          let (rc2, m2) =
            (if sz < m_size (m1 p) then joinMCBs (nxtMCBsize p sz) (cut_block p sz m1)
             else (SUCCESS, m1)) in
          if rc2 \<noteq> SUCCESS then (DE_MCBDESTRY, maxSize, s\<lparr>mem := m2\<rparr>)
          else (SUCCESS, maxSize, s\<lparr>mem := m2(p := (m2 p)\<lparr>m_psp := cu_psp s\<rparr>)\<rparr>))"

text \<open>\<^verbatim>\<open>DosMemCheck\<close> walks the chain; its console output on corruption is not modelled.\<close>

partial_function (option) mem_check :: "u16 \<Rightarrow> store \<Rightarrow> int option" where
  "mem_check p m =
     (if m_type (m p) = MCB_LAST then Some SUCCESS
      else if m_type (m p) \<noteq> MCB_NORMAL then Some DE_MCBDESTRY
      else mem_check (nxtMCB m p) m)"

definition DosMemCheck :: "mm \<Rightarrow> int option" where
  "DosMemCheck s = mem_check (first_mcb s) (mem s)"

text \<open>
  \<^verbatim>\<open>DosUmbLink\<close>. The walk returns \<open>None\<close> inside when it meets an invalid MCB (the early return),
  else the final \<^verbatim>\<open>p\<close> and \<^verbatim>\<open>q\<close>. The argument \<open>q0\<close> is the indeterminate value of \<^verbatim>\<open>q\<close> before the loop.
\<close>

partial_function (option) umb_walk ::
  "u16 \<Rightarrow> u16 \<Rightarrow> u16 \<Rightarrow> store \<Rightarrow> (u16 \<times> u16) option option" where
  "umb_walk root p q m =
     (if p \<noteq> root \<and> m_type (m p) \<noteq> MCB_LAST then
        (if \<not> mcbValid (m p) then Some None else umb_walk root (nxtMCB m p) p m)
      else Some (Some (p, q)))"

definition DosUmbLink :: "u16 \<Rightarrow> u16 \<Rightarrow> mm \<Rightarrow> mm option" where
  "DosUmbLink q0 n s =
     (if uppermem_root s = 0xffff then Some s
      else if n > 1 \<or> ucast (uppermem_link s AND 1) = n then Some s
      else
        do {
          w \<leftarrow> umb_walk (uppermem_root s) (first_mcb s) q0 (mem s);
          Some (case w of
            None \<Rightarrow> s
          | Some (p, q) \<Rightarrow>
              let m = mem s in
              if n = 0 then
                (if m_type (m q) = MCB_NORMAL \<and> p = uppermem_root s
                 then s\<lparr>mem := m(q := (m q)\<lparr>m_type := MCB_LAST\<rparr>), uppermem_link := ucast n\<rparr>
                 else s\<lparr>uppermem_link := ucast n\<rparr>)
              else if m_type (m p) = MCB_LAST
                then s\<lparr>mem := m(p := (m p)\<lparr>m_type := MCB_NORMAL\<rparr>), uppermem_link := ucast n\<rparr>
              else s)
        })"

partial_function (option) free_walk :: "u16 \<Rightarrow> u16 \<Rightarrow> mm \<Rightarrow> (int \<times> mm) option" where
  "free_walk ps p s =
     (if \<not> mcbValid (mem s p) then Some (DE_MCBDESTRY, s)
      else
        let s1 = (if m_psp (mem s p) = ps then snd (DosMemFree p s) else s) in
        if m_type (mem s1 p) = MCB_LAST then Some (SUCCESS, s1)
        else free_walk ps (nxtMCB (mem s1) p) s1)"

definition FreeProcessMem :: "u16 \<Rightarrow> u16 \<Rightarrow> mm \<Rightarrow> (int \<times> mm) option" where
  "FreeProcessMem q0 ps s =
     do {
       let oldumbstate = uppermem_link s AND 1;
       s1 \<leftarrow> DosUmbLink q0 1 s;
       (rc, s2) \<leftarrow> free_walk ps (first_mcb s1) s1;
       if rc \<noteq> SUCCESS then Some (DE_MCBDESTRY, s2)
       else do {
         s3 \<leftarrow> DosUmbLink q0 (ucast oldumbstate) s2;
         Some (SUCCESS, s3)
       }
     }"

section \<open>The arena\<close>

text \<open>
  The abstract memory is the list of the blocks in address order, each with its owner (\<open>0\<close> when
  free) and its size in paragraphs. \<open>headers\<close> says that the MCBs from \<open>p\<close> on describe the blocks;
  the last MCB has the type \<open>t\<close>. \<open>limit\<close> is the first segment behind the blocks.
\<close>

type_synonym block = "u16 \<times> u16"

primrec headers :: "store \<Rightarrow> u16 \<Rightarrow> block list \<Rightarrow> u8 \<Rightarrow> bool" where
  "headers m p [] t \<longleftrightarrow> True"
| "headers m p (b # bs) t \<longleftrightarrow>
     m_type (m p) = (if bs = [] then t else MCB_NORMAL) \<and> m_psp (m p) = fst b \<and>
     m_size (m p) = snd b \<and> headers m (nxtMCBsize p (snd b)) bs t"

primrec span :: "block list \<Rightarrow> nat" where
  "span [] = 0"
| "span (b # bs) = unat (snd b) + 1 + span bs"

primrec limit :: "u16 \<Rightarrow> block list \<Rightarrow> u16" where
  "limit p [] = p"
| "limit p (b # bs) = limit (nxtMCBsize p (snd b)) bs"

primrec addrs :: "u16 \<Rightarrow> block list \<Rightarrow> (u16 \<times> u16 \<times> u16) list" where
  "addrs p [] = []"
| "addrs p (b # bs) = (p, fst b, snd b) # addrs (nxtMCBsize p (snd b)) bs"

definition fits :: "u16 \<Rightarrow> block list \<Rightarrow> bool" where
  "fits p bs \<longleftrightarrow> p \<noteq> 0 \<and> unat p + span bs \<le> 65536"

definition arena :: "store \<Rightarrow> u16 \<Rightarrow> block list \<Rightarrow> bool" where
  "arena m p bs \<longleftrightarrow> bs \<noteq> [] \<and> fits p bs \<and> headers m p bs MCB_LAST"

text \<open>The paragraphs of a block, its MCB included, and the allocated blocks of an arena.\<close>

definition paras :: "u16 \<Rightarrow> u16 \<Rightarrow> u16 set" where
  "paras p z = {s. unat p \<le> unat s \<and> unat s \<le> unat p + unat z}"

definition allocated :: "u16 \<Rightarrow> block list \<Rightarrow> (u16 \<times> u16 \<times> u16) set" where
  "allocated p bs = {(a, w, z) \<in> set (addrs p bs). w \<noteq> 0}"

subsection \<open>Splitting an arena\<close>

lemma span_append [simp]: "span (xs @ ys) = span xs + span ys"
  by (induction xs) auto

lemma limit_append [simp]: "limit p (xs @ ys) = limit (limit p xs) ys"
  by (induction xs arbitrary: p) auto

lemma addrs_append [simp]: "addrs p (xs @ ys) = addrs p xs @ addrs (limit p xs) ys"
  by (induction xs arbitrary: p) auto

lemma headers_append:
  "ys \<noteq> [] \<Longrightarrow> headers m p (xs @ ys) t \<longleftrightarrow> headers m p xs MCB_NORMAL \<and> headers m (limit p xs) ys t"
  by (induction xs arbitrary: p) auto

lemma allocated_append: "allocated p (xs @ ys) = allocated p xs \<union> allocated (limit p xs) ys"
  by (auto simp: allocated_def)

lemma allocated_Cons:
  "allocated p (b # bs) =
     (if fst b = 0 then {} else {(p, fst b, snd b)}) \<union> allocated (nxtMCBsize p (snd b)) bs"
  by (auto simp: allocated_def)

lemma allocated_Nil [simp]: "allocated p [] = {}"
  by (simp add: allocated_def)

lemma fits_next:
  assumes "fits p (b # bs)" "bs \<noteq> []"
  shows "unat (nxtMCBsize p (snd b)) = unat p + unat (snd b) + 1" "fits (nxtMCBsize p (snd b)) bs"
proof -
  obtain c cs where "bs = c # cs" using assms(2) by (cases bs) auto
  then have lt: "unat p + unat (snd b) + 1 < 65536" using assms(1) by (auto simp: fits_def)
  then show eq: "unat (nxtMCBsize p (snd b)) = unat p + unat (snd b) + 1" unfolding nxtMCBsize_def by (rule unat_u16_add1)
  moreover have "nxtMCBsize p (snd b) \<noteq> 0" using eq by auto
  ultimately show "fits (nxtMCBsize p (snd b)) bs" using assms(1) by (auto simp: fits_def)
qed

lemma unat_limit:
  assumes "fits p (xs @ ys)" "ys \<noteq> []"
  shows "unat (limit p xs) = unat p + span xs" "fits (limit p xs) ys"
  using assms
proof (induction xs arbitrary: p)
  case (Cons b xs)
  { case 1
    then show ?case using Cons.IH(1) [of "nxtMCBsize p (snd b)"] fits_next [of p b "xs @ ys"] by simp
  next
    case 2
    then show ?case using Cons.IH(2) [of "nxtMCBsize p (snd b)"] fits_next [of p b "xs @ ys"] by simp }
qed auto

lemma addrs_range:
  assumes "fits p bs" "(a, w, z) \<in> set (addrs p bs)"
  shows "unat p \<le> unat a \<and> unat a + unat z + 1 \<le> unat p + span bs"
  using assms
proof (induction bs arbitrary: p)
  case (Cons b bs)
  show ?case
  proof (cases "(a, w, z) = (p, fst b, snd b)")
    case True
    then show ?thesis by auto
  next
    case False
    then have mem: "(a, w, z) \<in> set (addrs (nxtMCBsize p (snd b)) bs)" using Cons.prems by auto
    then have ne: "bs \<noteq> []" by auto
    show ?thesis using Cons.IH [OF fits_next(2) [OF Cons.prems(1) ne] mem] fits_next(1) [OF Cons.prems(1) ne]
      by simp
  qed
qed simp

lemma headers_cong:
  assumes "\<And>a w z. (a, w, z) \<in> set (addrs p bs) \<Longrightarrow> m' a = m a"
  shows "headers m' p bs t = headers m p bs t"
  using assms
proof (induction bs arbitrary: p)
  case (Cons b bs)
  have "m' p = m p" using Cons.prems [of p "fst b" "snd b"] by simp
  moreover have "headers m' (nxtMCBsize p (snd b)) bs t = headers m (nxtMCBsize p (snd b)) bs t"
    using Cons.prems by (intro Cons.IH) auto
  ultimately show ?case by simp
qed simp

text \<open>A store that differs only outside the extent of the blocks describes the same blocks.\<close>

lemma headers_frame:
  assumes "fits p bs" and "\<And>s. unat p \<le> unat s \<Longrightarrow> unat s < unat p + span bs \<Longrightarrow> m' s = m s"
  shows "headers m' p bs t = headers m p bs t"
proof (rule headers_cong)
  fix a w z assume "(a, w, z) \<in> set (addrs p bs)"
  then show "m' a = m a" using addrs_range [OF assms(1)] by (intro assms(2)) fastforce+
qed

lemma header_valid:
  assumes "fits p (b # bs)" "headers m p (b # bs) MCB_LAST"
  shows "mcbValid (m p)"
proof -
  have "snd b \<noteq> 0xffff"
  proof
    assume "snd b = 0xffff"
    then have "unat (snd b) = 65535" by simp
    moreover have "unat p \<noteq> 0" using assms(1) by (auto simp: fits_def unat_eq_0)
    ultimately show False using assms(1) by (auto simp: fits_def)
  qed
  then show ?thesis using assms(2) by (auto simp: mcbValid_def)
qed

subsection \<open>Joining free blocks\<close>

primrec join_free :: "u16 \<Rightarrow> u16 \<Rightarrow> block list \<Rightarrow> block list" where
  "join_free w z [] = [(w, z)]"
| "join_free w z (b # bs) =
     (if fst b = 0 then join_free w (z + snd b + 1) bs else (w, z) # b # bs)"

text \<open>\<open>join_free\<close> in a form that shows the merged block: its size, and what follows it.\<close>

fun run_size :: "u16 \<Rightarrow> block list \<Rightarrow> u16" where
  "run_size z [] = z"
| "run_size z (b # bs) = (if fst b = 0 then run_size (z + snd b + 1) bs else z)"

definition after_run :: "block list \<Rightarrow> block list" where
  "after_run bs = dropWhile (\<lambda>b. fst b = 0) bs"

lemma join_free_eq: "join_free w z bs = (w, run_size z bs) # after_run bs"
  by (induction bs arbitrary: z) (auto simp: after_run_def)

lemma nxtMCBsize_merge: "nxtMCBsize p (z + y + 1) = nxtMCBsize (nxtMCBsize p z) y"
  by (simp add: nxtMCBsize_def)

lemma unat_merge:
  assumes "fits p ((w, z) # b # bs)"
  shows "unat (z + snd b + 1) = unat z + unat (snd b) + 1"
proof -
  have "unat p \<noteq> 0" using assms by (auto simp: fits_def unat_eq_0)
  then have "unat z + unat (snd b) + 1 < 65536" using assms by (auto simp: fits_def)
  then show ?thesis by (rule unat_u16_add1)
qed

lemma fits_merge: "fits p ((w, z) # b # bs) \<Longrightarrow> fits p ((w, z + snd b + 1) # bs)"
  using unat_merge [of p w z b bs] by (auto simp: fits_def)

lemma span_join_free: "fits p ((w, z) # bs) \<Longrightarrow> span (join_free w z bs) = span ((w, z) # bs)"
proof (induction bs arbitrary: z)
  case (Cons b bs)
  show ?case using Cons.IH [OF fits_merge [OF Cons.prems]] unat_merge [OF Cons.prems] by auto
qed simp

lemma allocated_join_free:
  "allocated p (join_free w z bs) =
     (if w = 0 then {} else {(p, w, run_size z bs)}) \<union> allocated (nxtMCBsize p z) bs"
proof (induction bs arbitrary: z)
  case Nil
  then show ?case by (simp add: allocated_Cons)
next
  case (Cons b bs)
  have "nxtMCBsize p (z + snd b + 1) = nxtMCBsize (nxtMCBsize p z) (snd b)" by (rule nxtMCBsize_merge)
  then show ?case using Cons.IH [of "z + snd b + 1"] by (auto simp: allocated_Cons)
qed

lemma limit_after_run: "limit (nxtMCBsize p (run_size z bs)) (after_run bs) = limit (nxtMCBsize p z) bs"
proof (induction bs arbitrary: z)
  case (Cons b bs)
  have "nxtMCBsize p (z + snd b + 1) = nxtMCBsize (nxtMCBsize p z) (snd b)" by (rule nxtMCBsize_merge)
  then show ?case using Cons.IH [of "z + snd b + 1"] by (auto simp: after_run_def)
qed (simp add: after_run_def)

lemma paras_merge:
  assumes "fits p ((w, z) # b # bs)"
  shows "nxtMCBsize p z \<in> paras p (z + snd b + 1)" "paras p z \<subseteq> paras p (z + snd b + 1)"
  using unat_merge [OF assms] fits_next(1) [OF assms] by (auto simp: paras_def)

lemma run_size_mono:
  "fits p ((w, z) # bs) \<Longrightarrow> unat z \<le> unat (run_size z bs)"
proof (induction bs arbitrary: z)
  case (Cons b bs)
  show ?case
    using Cons.IH [OF fits_merge [OF Cons.prems]] unat_merge [OF Cons.prems] by auto
qed simp

text \<open>
  \<open>joinMCBs\<close> implements \<open>join_free\<close>: it succeeds, and changes nothing outside the merged block.
\<close>

lemma join_step_headers:
  assumes "fits p ((w, z) # b # bs)" "headers m p ((w, z) # b # bs) MCB_LAST" "q = nxtMCB m p"
  shows "headers (join_step p q m) p ((w, z + snd b + 1) # bs) MCB_LAST"
    "\<And>s. s \<noteq> p \<Longrightarrow> s \<noteq> q \<Longrightarrow> join_step p q m s = m s"
proof -
  have q: "q = nxtMCBsize p z" using assms(2,3) by (simp add: nxtMCB_def)
  have uq: "unat q = unat p + unat z + 1" using fits_next(1) [OF assms(1)] q by simp
  then have "q \<noteq> p" by auto
  have eq: "nxtMCBsize p (z + snd b + 1) = nxtMCBsize q (snd b)" by (simp add: q nxtMCBsize_merge)
  show fr: "\<And>s. s \<noteq> p \<Longrightarrow> s \<noteq> q \<Longrightarrow> join_step p q m s = m s"
    by (simp add: join_step_def Let_def)
  have "headers (join_step p q m) (nxtMCBsize q (snd b)) bs MCB_LAST = headers m (nxtMCBsize q (snd b)) bs MCB_LAST"
  proof (cases "bs = []")
    case False
    have f: "fits q (b # bs)" using fits_next(2) [OF assms(1)] q by simp
    show ?thesis
      using fits_next [OF f False] uq by (intro headers_frame fr) auto
  qed simp
  moreover have "join_step p q m p = (m p)\<lparr>m_type := m_type (m q), m_size := m_size (m p) + (m_size (m q) + 1)\<rparr>"
    using \<open>q \<noteq> p\<close> by (simp add: join_step_def Let_def)
  moreover have "headers m q (b # bs) MCB_LAST" using assms(2) q by simp
  ultimately show "headers (join_step p q m) p ((w, z + snd b + 1) # bs) MCB_LAST"
    using assms(2) eq by simp
qed

lemma joinMCBs_arena:
  assumes "fits p ((w, z) # bs)" "headers m p ((w, z) # bs) MCB_LAST"
  shows "\<exists>m'. joinMCBs p m = (SUCCESS, m') \<and> headers m' p (join_free w z bs) MCB_LAST \<and>
              (\<forall>s. s \<notin> paras p (run_size z bs) \<longrightarrow> m' s = m s)"
  using assms
proof (induction bs arbitrary: m z)
  case Nil
  then show ?case by (simp add: joinMCBs.simps [of p m])
next
  case (Cons b bs)
  let ?q = "nxtMCB m p"
  have q: "?q = nxtMCBsize p z" using Cons.prems(2) by (simp add: nxtMCB_def)
  have hq: "headers m ?q (b # bs) MCB_LAST" using Cons.prems(2) q by simp
  have fq: "fits ?q (b # bs)" using fits_next(2) [OF Cons.prems(1)] q by simp
  have val: "mcbValid (m ?q)" by (rule header_valid [OF fq hq])
  show ?case
  proof (cases "fst b = 0")
    case False
    then have "joinMCBs p m = (SUCCESS, m)"
      using Cons.prems(2) hq by (simp add: joinMCBs.simps [of p m] mcbFree_def)
    then show ?thesis using False Cons.prems(2) by simp
  next
    case True
    let ?m = "join_step p ?q m"
    have step: "joinMCBs p m = joinMCBs p ?m"
      using True val hq Cons.prems(2) by (simp add: joinMCBs.simps [of p m] mcbFree_def)
    note js = join_step_headers [OF Cons.prems refl]
    obtain m' where m': "joinMCBs p ?m = (SUCCESS, m')"
        "headers m' p (join_free w (z + snd b + 1) bs) MCB_LAST"
        "\<forall>s. s \<notin> paras p (run_size (z + snd b + 1) bs) \<longrightarrow> m' s = ?m s"
      using Cons.IH [OF fits_merge [OF Cons.prems(1)] js(1)] by blast
    have "m' s = m s" if s: "s \<notin> paras p (run_size (z + snd b + 1) bs)" for s
    proof -
      have le: "unat (z + snd b + 1) \<le> unat (run_size (z + snd b + 1) bs)"
        by (rule run_size_mono [OF fits_merge [OF Cons.prems(1)]])
      then have "?q \<in> paras p (run_size (z + snd b + 1) bs)" "p \<in> paras p (run_size (z + snd b + 1) bs)"
        using paras_merge(1) [OF Cons.prems(1)] q by (auto simp: paras_def)
      then have "s \<noteq> p" "s \<noteq> ?q" using s by auto
      then show ?thesis using m'(3) s js(2) by simp
    qed
    then show ?thesis using step m' True by simp
  qed
qed

subsection \<open>The arena after a full search: every free run is one block\<close>

lemma length_after_run: "length (after_run bs) \<le> length bs"
  by (simp add: after_run_def length_dropWhile_le)

function coalesce :: "block list \<Rightarrow> block list" where
  "coalesce [] = []"
| "coalesce (b # bs) =
     (if fst b = 0 then (0, run_size (snd b) bs) # coalesce (after_run bs) else b # coalesce bs)"
  by pat_completeness auto
termination
  by (relation "measure length") (auto simp: length_after_run less_Suc_eq_le)

lemma coalesce_eq_Nil [simp]: "coalesce bs = [] \<longleftrightarrow> bs = []"
  by (cases bs) auto

lemma fits_run:
  assumes "fits p ((w, z) # bs)"
  shows "fits p ((w, run_size z bs) # after_run bs)"
  using assms span_join_free [OF assms] by (simp add: fits_def join_free_eq)

lemma span_coalesce: "fits p bs \<Longrightarrow> span (coalesce bs) = span bs"
proof (induction bs arbitrary: p rule: coalesce.induct)
  case (2 b bs)
  obtain w z where b: "b = (w, z)" by fastforce
  show ?case
  proof (cases "w = 0")
    case True
    have sp: "span ((0, run_size z bs) # after_run bs) = span ((0, z) # bs)"
      using span_join_free [of p 0 z bs] "2.prems" b True by (simp add: join_free_eq)
    have "span (coalesce (after_run bs)) = span (after_run bs)"
    proof (cases "after_run bs = []")
      case False
      then have "fits (nxtMCBsize p (run_size z bs)) (after_run bs)"
        using fits_next(2) [OF fits_run [of p w z bs]] "2.prems" b by simp
      then show ?thesis using "2.IH"(1) True b by simp
    qed simp
    then show ?thesis using sp b True by simp
  next
    case False
    have "span (coalesce bs) = span bs"
    proof (cases "bs = []")
      case False
      then show ?thesis using "2.IH"(2) \<open>w \<noteq> 0\<close> b fits_next(2) [OF "2.prems"] by simp
    qed simp
    then show ?thesis using False b by simp
  qed
qed simp

lemma fits_coalesce: "fits p bs \<Longrightarrow> fits p (coalesce bs)"
  using span_coalesce [of p bs] by (simp add: fits_def)

lemma limit_coalesce: "limit p (coalesce bs) = limit p bs"
proof (induction bs arbitrary: p rule: coalesce.induct)
  case (2 b bs)
  then show ?case using limit_after_run [of p "snd b" bs] by (cases b) simp
qed simp

lemma allocated_free_run:
  "allocated (nxtMCBsize p (run_size z bs)) (after_run bs) = allocated (nxtMCBsize p z) bs"
  using allocated_join_free [of p 0 z bs] by (simp add: join_free_eq allocated_Cons)

lemma allocated_coalesce: "allocated p (coalesce bs) = allocated p bs"
proof (induction bs arbitrary: p rule: coalesce.induct)
  case (2 b bs)
  then show ?case using allocated_free_run [of p "snd b" bs] by (cases b) (simp add: allocated_Cons)
qed simp

lemma allocated_range:
  "fits p bs \<Longrightarrow> (a, w, z) \<in> allocated p bs \<Longrightarrow> unat p \<le> unat a \<and> unat a + unat z + 1 \<le> unat p + span bs"
  using addrs_range by (auto simp: allocated_def)

text \<open>
  \<open>keeps\<close> is the frame of every operation on the free blocks of an arena: the memory below and
  above the arena and every allocated block, its MCB included, stay as they are.
\<close>

definition keeps :: "store \<Rightarrow> store \<Rightarrow> u16 \<Rightarrow> block list \<Rightarrow> bool" where
  "keeps m m' p bs \<longleftrightarrow>
     (\<forall>s. unat s < unat p \<or> unat p + span bs \<le> unat s \<or>
          (\<exists>a w z. (a, w, z) \<in> allocated p bs \<and> s \<in> paras a z) \<longrightarrow> m' s = m s)"

lemma keeps_refl [simp]: "keeps m m p bs"
  by (simp add: keeps_def)

lemma keeps_below: "keeps m m' p bs \<Longrightarrow> unat s < unat p \<Longrightarrow> m' s = m s"
  by (simp add: keeps_def)

lemma keeps_run:
  assumes "fits p ((0, z) # bs)" and m1: "\<forall>s. s \<notin> paras p (run_size z bs) \<longrightarrow> m1 s = m s"
    and "after_run bs \<noteq> [] \<Longrightarrow> keeps m1 m2 (nxtMCBsize p (run_size z bs)) (after_run bs)"
    and "after_run bs = [] \<Longrightarrow> m2 = m1"
  shows "keeps m m2 p ((0, z) # bs)"
proof -
  let ?n = "nxtMCBsize p (run_size z bs)"
  have sp: "unat (run_size z bs) + 1 + span (after_run bs) = unat z + 1 + span bs"
    using span_join_free [OF assms(1)] by (simp add: join_free_eq)
  have al: "allocated p ((0, z) # bs) = allocated ?n (after_run bs)"
    by (simp add: allocated_Cons allocated_free_run)
  show ?thesis
  proof (cases "after_run bs = []")
    case True
    then show ?thesis using assms(4) m1 sp al by (auto simp: keeps_def paras_def)
  next
    case False
    note n = fits_next [OF fits_run [OF assms(1)] False, simplified]
    have k: "keeps m1 m2 ?n (after_run bs)" using assms(3) False by simp
    show ?thesis unfolding keeps_def
    proof (intro allI impI)
      fix s assume s: "unat s < unat p \<or> unat p + span ((0, z) # bs) \<le> unat s \<or>
        (\<exists>a w y. (a, w, y) \<in> allocated p ((0, z) # bs) \<and> s \<in> paras a y)"
      have "unat ?n \<le> unat s" if "(a, w, y) \<in> allocated p ((0, z) # bs)" "s \<in> paras a y" for a w y
        using allocated_range [OF n(2), of a w y] that al by (simp add: paras_def)
      then have "unat s < unat p \<or> unat ?n \<le> unat s" using s sp n(1) by auto
      then have "s \<notin> paras p (run_size z bs)" using n(1) by (auto simp: paras_def)
      moreover have "unat s < unat ?n \<or> unat ?n + span (after_run bs) \<le> unat s \<or>
        (\<exists>a w y. (a, w, y) \<in> allocated ?n (after_run bs) \<and> s \<in> paras a y)"
        using s sp n(1) al by auto
      then have "m2 s = m1 s" using k unfolding keeps_def by blast
      ultimately show "m2 s = m s" using m1 by simp
    qed
  qed
qed

lemma keeps_alloc_Cons:
  assumes "fits p ((w, z) # bs)" "w \<noteq> 0" "bs \<noteq> []" "keeps m m' (nxtMCBsize p z) bs"
  shows "keeps m m' p ((w, z) # bs)"
  using assms(4) fits_next(1) [OF assms(1,3)] assms(2)
  by (auto simp: keeps_def paras_def allocated_Cons)

text \<open>
  The store \<open>m'\<close> describes the blocks \<open>bs'\<close>, which have the extent and the allocated blocks of \<open>bs\<close>:
  only free memory has been rearranged.
\<close>

definition reshapes :: "store \<Rightarrow> u16 \<Rightarrow> block list \<Rightarrow> store \<Rightarrow> block list \<Rightarrow> bool" where
  "reshapes m p bs m' bs' \<longleftrightarrow>
     arena m' p bs' \<and> keeps m m' p bs \<and> span bs' = span bs \<and> limit p bs' = limit p bs \<and>
     allocated p bs' = allocated p bs"

lemma reshapes_refl: "arena m p bs \<Longrightarrow> reshapes m p bs m bs"
  by (simp add: reshapes_def)

lemma reshapes_alloc:
  assumes "arena m p ((w, z) # bs)" "w \<noteq> 0" "bs \<noteq> []" "reshapes m (nxtMCBsize p z) bs m' bs'"
  shows "reshapes m p ((w, z) # bs) m' ((w, z) # bs')"
proof -
  have ft: "fits p ((w, z) # bs)" and hd: "headers m p ((w, z) # bs) MCB_LAST"
    using assms(1) by (auto simp: arena_def)
  have "m' p = m p" using assms(4) fits_next(1) [OF ft assms(3)]
    by (intro keeps_below [of m m' "nxtMCBsize p z" bs]) (auto simp: reshapes_def)
  then show ?thesis
    using assms hd ft keeps_alloc_Cons [OF ft assms(2,3)]
    by (auto simp: reshapes_def arena_def fits_def allocated_Cons)
qed

lemma reshapes_run:
  assumes "fits p ((0, z) # bs)" "headers m1 p ((0, run_size z bs) # after_run bs) MCB_LAST"
    and m1: "\<forall>s. s \<notin> paras p (run_size z bs) \<longrightarrow> m1 s = m s"
    and rest: "after_run bs \<noteq> [] \<Longrightarrow> reshapes m1 (nxtMCBsize p (run_size z bs)) (after_run bs) m2 bs'"
    and none: "after_run bs = [] \<Longrightarrow> m2 = m1 \<and> bs' = []"
  shows "reshapes m p ((0, z) # bs) m2 ((0, run_size z bs) # bs')"
proof -
  let ?n = "nxtMCBsize p (run_size z bs)"
  have sp: "unat (run_size z bs) + span (after_run bs) = unat z + span bs"
    using span_join_free [OF assms(1)] by (simp add: join_free_eq)
  have kp: "keeps m m2 p ((0, z) # bs)"
    using keeps_run [OF assms(1) m1] rest none by (auto simp: reshapes_def)
  have lim: "limit ?n (after_run bs) = limit (nxtMCBsize p z) bs" by (rule limit_after_run)
  show ?thesis
  proof (cases "after_run bs = []")
    case True
    then show ?thesis
      using none assms(1,2) kp sp lim allocated_free_run [of p z bs]
      by (auto simp: reshapes_def arena_def fits_def allocated_Cons)
  next
    case False
    note n = fits_next [OF fits_run [OF assms(1)] False, simplified]
    have "m2 p = m1 p" using rest [OF False] n(1)
      by (intro keeps_below [of m1 m2 ?n "after_run bs"]) (auto simp: reshapes_def)
    then show ?thesis
      using rest [OF False] assms(1,2) kp sp lim allocated_free_run [of p z bs] False
      by (auto simp: reshapes_def arena_def fits_def allocated_Cons)
  qed
qed

text \<open>The successor of an MCB in an arena, and the arena from there on.\<close>

lemma arena_next:
  assumes "arena m p ((w, z) # bs)" "bs \<noteq> []"
  shows "arena m (nxtMCBsize p z) bs" "unat p < unat (nxtMCBsize p z)" "nxtMCB m p = nxtMCBsize p z"
    "m_type (m p) = MCB_NORMAL"
  using assms fits_next [of p "(w, z)" bs] by (auto simp: arena_def nxtMCB_def)

lemma arena_run_next:
  assumes "fits p ((w, z) # bs)" "headers m p ((w, run_size z bs) # after_run bs) MCB_LAST" "after_run bs \<noteq> []"
  shows "arena m (nxtMCBsize p (run_size z bs)) (after_run bs)"
    "unat p < unat (nxtMCBsize p (run_size z bs))" "nxtMCB m p = nxtMCBsize p (run_size z bs)"
    "m_type (m p) = MCB_NORMAL"
  using arena_next [of m p w "run_size z bs" "after_run bs"] assms fits_run [OF assms(1)]
  by (auto simp: arena_def)

subsection \<open>The search\<close>

definition free_list :: "u16 \<Rightarrow> block list \<Rightarrow> (u16 \<times> u16) list" where
  "free_list p bs = map (\<lambda>(a, w, z). (a, z)) (filter (\<lambda>(a, w, z). w = 0) (addrs p bs))"

lemma free_list_simps [simp]:
  "free_list p [] = []"
  "free_list p (b # bs) =
     (if fst b = 0 then [(p, snd b)] else []) @ free_list (nxtMCBsize p (snd b)) bs"
  by (auto simp: free_list_def)

text \<open>One visit of a free block \<open>(a, z)\<close>, on the pointer and the size it points to.\<close>

definition big_step :: "u16 \<times> u16 \<Rightarrow> u16 \<times> u16 \<Rightarrow> u16 \<times> u16" where
  "big_step b c = (if fst b = 0 \<or> snd b < snd c then c else b)"

definition pick_step :: "u16 \<Rightarrow> u16 \<Rightarrow> u16 \<times> u16 \<Rightarrow> u16 \<times> u16 \<Rightarrow> u16 \<times> u16" where
  "pick_step mode sz f c =
     (if sz \<le> snd c then
        (if mode = LARGEST then f
         else if is_best_fit mode then (if fst f = 0 \<or> snd f > snd c then c else f)
         else c)
      else f)"

definition points :: "store \<Rightarrow> u16 \<Rightarrow> u16 \<times> u16 \<Rightarrow> bool" where
  "points m p b \<longleftrightarrow> fst b = 0 \<or> unat (fst b) < unat p \<and> m_size (m (fst b)) = snd b"

lemma points_next:
  "points m p b \<Longrightarrow> unat p < unat n \<Longrightarrow> \<forall>s. unat s < unat p \<longrightarrow> m' s = m s \<Longrightarrow> points m' n b"
  by (auto simp: points_def)

text \<open>The two ways a visit of the block at \<open>p\<close> goes on: an allocated block, a free run.\<close>

lemma alloc_search_allocated:
  assumes "arena m p ((w, z) # bs)" "w \<noteq> 0"
  shows "alloc_search sz mode p b f m =
    (if bs = [] then Some (ChainEnd m b f) else alloc_search sz mode (nxtMCBsize p z) b f m)"
proof -
  have "mcbValid (m p)" using assms(1) header_valid [of p "(w, z)" bs m] by (simp add: arena_def)
  then show ?thesis
    using assms by (subst alloc_search.simps) (auto simp: arena_def mcbFree_def nxtMCB_def)
qed

lemma alloc_search_free:
  assumes ar: "arena m p ((0, z) # bs)" and "points m p b" "points m p f"
  obtains m1 where
    "headers m1 p ((0, run_size z bs) # after_run bs) MCB_LAST"
    "\<forall>s. s \<notin> paras p (run_size z bs) \<longrightarrow> m1 s = m s"
    "alloc_search sz mode p (fst b) (fst f) m =
      (if sz \<le> run_size z bs \<and> is_first_fit mode then Some (StopIt m1 p)
       else if after_run bs = [] then
         Some (ChainEnd m1 (fst (big_step b (p, run_size z bs))) (fst (pick_step mode sz f (p, run_size z bs))))
       else alloc_search sz mode (nxtMCBsize p (run_size z bs)) (fst (big_step b (p, run_size z bs)))
              (fst (pick_step mode sz f (p, run_size z bs))) m1)"
    "after_run bs \<noteq> [] \<Longrightarrow> points m1 (nxtMCBsize p (run_size z bs)) (big_step b (p, run_size z bs))"
    "after_run bs \<noteq> [] \<Longrightarrow> points m1 (nxtMCBsize p (run_size z bs)) (pick_step mode sz f (p, run_size z bs))"
proof -
  let ?R = "run_size z bs"
  have ft: "fits p ((0, z) # bs)" and hd: "headers m p ((0, z) # bs) MCB_LAST"
    using ar by (auto simp: arena_def)
  have val: "mcbValid (m p)" by (rule header_valid [OF ft hd])
  obtain m1 where m1: "joinMCBs p m = (SUCCESS, m1)" "headers m1 p ((0, ?R) # after_run bs) MCB_LAST"
      "\<forall>s. s \<notin> paras p ?R \<longrightarrow> m1 s = m s"
    using joinMCBs_arena [OF ft hd] by (auto simp: join_free_eq)
  have low: "\<forall>s. unat s < unat p \<longrightarrow> m1 s = m s" using m1(3) by (auto simp: paras_def)
  have sz1: "m_size (m1 p) = ?R" using m1(2) by simp
  have bg: "(if fst b = 0 \<or> m_size (m1 (fst b)) < m_size (m1 p) then p else fst b) = fst (big_step b (p, ?R))"
    using assms(2) low sz1 by (auto simp: big_step_def points_def)
  have fd: "(if sz \<le> m_size (m1 p) then pick mode m1 (fst f) p else fst f) = fst (pick_step mode sz f (p, ?R))"
    using assms(3) low sz1 by (auto simp: pick_step_def pick_def points_def)
  have "alloc_search sz mode p (fst b) (fst f) m =
      (if sz \<le> m_size (m1 p) \<and> is_first_fit mode then Some (StopIt m1 p)
       else if m_type (m1 p) = MCB_LAST
       then Some (ChainEnd m1 (fst (big_step b (p, ?R))) (fst (pick_step mode sz f (p, ?R))))
       else alloc_search sz mode (nxtMCB m1 p) (fst (big_step b (p, ?R))) (fst (pick_step mode sz f (p, ?R))) m1)"
    using hd val m1(1)
    by (subst alloc_search.simps) (simp add: mcbFree_def bg fd Let_def)
  moreover have "points m1 (nxtMCBsize p ?R) (big_step b (p, ?R))"
      "points m1 (nxtMCBsize p ?R) (pick_step mode sz f (p, ?R))" if "after_run bs \<noteq> []"
    using points_next [OF assms(2) _ low] points_next [OF assms(3) _ low] sz1
      arena_run_next(2) [OF ft m1(2) that]
    by (auto simp: big_step_def pick_step_def points_def)
  ultimately show ?thesis
    using m1(2,3) sz1 by (intro that [of m1]) (auto simp: nxtMCB_def)
qed

text \<open>Outside first fit the search visits every free run and reaches the end of the chain.\<close>

lemma alloc_search_ends:
  assumes "arena m p bs" "\<not> is_first_fit mode" "points m p b" "points m p f"
  shows "\<exists>m'. alloc_search sz mode p (fst b) (fst f) m =
           Some (ChainEnd m' (fst (foldl big_step b (free_list p (coalesce bs))))
                             (fst (foldl (pick_step mode sz) f (free_list p (coalesce bs))))) \<and>
         reshapes m p bs m' (coalesce bs)"
  using assms
proof (induction bs arbitrary: m p b f rule: coalesce.induct)
  case 1
  then show ?case by (simp add: arena_def)
next
  case (2 c bs)
  obtain w z where c: "c = (w, z)" by fastforce
  show ?case
  proof (cases "w = 0")
    case False
    note eq = alloc_search_allocated [OF "2.prems"(1) [unfolded c] False]
    show ?thesis
    proof (cases "bs = []")
      case True
      then show ?thesis using eq reshapes_refl "2.prems"(1) False c by auto
    next
      case ne: False
      note n = arena_next [OF "2.prems"(1) [unfolded c] ne]
      have "points m (nxtMCBsize p z) b" "points m (nxtMCBsize p z) f"
        using "2.prems"(3,4) points_next [of m p _ "nxtMCBsize p z" m] n(2) by auto
      then show ?thesis
        using "2.IH"(2) [of m "nxtMCBsize p z" b f] n(1) False c ne "2.prems"(1,2) eq
          reshapes_alloc [of m p w z bs] by auto
    qed
  next
    case True
    let ?R = "run_size z bs" and ?b = "big_step b (p, run_size z bs)" and ?f = "pick_step mode sz f (p, run_size z bs)"
    have ar: "arena m p ((0, z) # bs)" and ft: "fits p ((0, z) # bs)"
      using "2.prems"(1) c True by (auto simp: arena_def)
    obtain m1 where m1: "headers m1 p ((0, ?R) # after_run bs) MCB_LAST"
        "\<forall>s. s \<notin> paras p ?R \<longrightarrow> m1 s = m s"
        "alloc_search sz mode p (fst b) (fst f) m =
          (if after_run bs = [] then Some (ChainEnd m1 (fst ?b) (fst ?f))
           else alloc_search sz mode (nxtMCBsize p ?R) (fst ?b) (fst ?f) m1)"
        "after_run bs \<noteq> [] \<Longrightarrow> points m1 (nxtMCBsize p ?R) ?b"
        "after_run bs \<noteq> [] \<Longrightarrow> points m1 (nxtMCBsize p ?R) ?f"
      by (rule alloc_search_free [OF ar "2.prems"(3,4), of sz mode]) (use "2.prems"(2) in auto)
    show ?thesis
    proof (cases "after_run bs = []")
      case e: True
      then have "reshapes m p ((0, z) # bs) m1 [(0, ?R)]" by (intro reshapes_run [OF ft m1(1,2)]) auto
      then show ?thesis using m1(3) True c e by (intro exI [of _ m1]) simp
    next
      case ne: False
      let ?n = "nxtMCBsize p ?R"
      obtain m' where m': "alloc_search sz mode ?n (fst ?b) (fst ?f) m1 =
           Some (ChainEnd m' (fst (foldl big_step ?b (free_list ?n (coalesce (after_run bs)))))
                             (fst (foldl (pick_step mode sz) ?f (free_list ?n (coalesce (after_run bs))))))"
          "reshapes m1 ?n (after_run bs) m' (coalesce (after_run bs))"
        using "2.IH"(1) [OF _ arena_run_next(1) [OF ft m1(1) ne] "2.prems"(2) m1(4,5) [OF ne]] True c by auto
      have "reshapes m p ((0, z) # bs) m' ((0, ?R) # coalesce (after_run bs))"
        by (rule reshapes_run [OF ft m1(1,2)]) (use m'(2) ne in auto)
      then show ?thesis using m1(3) m'(1) True c ne by (intro exI [of _ m']) simp
    qed
  qed
qed

text \<open>
  First fit stops at the first free run that is large enough; the blocks behind it are not visited.
\<close>

lemma alloc_search_first_fit:
  assumes "arena m p bs" "is_first_fit mode" "points m p b" "points m p f"
  shows "(\<exists>m' xs z ys. alloc_search sz mode p (fst b) (fst f) m = Some (StopIt m' (limit p xs)) \<and>
             reshapes m p bs m' (xs @ (0, z) # ys) \<and> sz \<le> z \<and> (\<forall>c \<in> set xs. fst c = 0 \<longrightarrow> snd c < sz) \<and>
             (\<exists>zs. coalesce bs = xs @ (0, z) # zs)) \<or>
         (\<exists>m'. alloc_search sz mode p (fst b) (fst f) m =
             Some (ChainEnd m' (fst (foldl big_step b (free_list p (coalesce bs)))) (fst f)) \<and>
             reshapes m p bs m' (coalesce bs) \<and> (\<forall>c \<in> set (coalesce bs). fst c = 0 \<longrightarrow> snd c < sz))"
    (is "?stop m p bs b f \<or> ?chain m p bs b f")
  using assms
proof (induction bs arbitrary: m p b f rule: coalesce.induct)
  case 1
  then show ?case by (simp add: arena_def)
next
  case (2 c bs)
  obtain w z where c: "c = (w, z)" by fastforce
  show ?case
  proof (cases "w = 0")
    case False
    note eq = alloc_search_allocated [OF "2.prems"(1) [unfolded c] False]
    show ?thesis
    proof (cases "bs = []")
      case True
      then show ?thesis using eq reshapes_refl "2.prems"(1) False c by (intro disjI2) auto
    next
      case ne: False
      let ?n = "nxtMCBsize p z"
      note n = arena_next [OF "2.prems"(1) [unfolded c] ne]
      note re = reshapes_alloc [OF "2.prems"(1) [unfolded c] False ne]
      have "points m ?n b" "points m ?n f"
        using "2.prems"(3,4) points_next [of m p _ ?n m] n(2) by auto
      then have "?stop m ?n bs b f \<or> ?chain m ?n bs b f"
        using False c by (intro "2.IH"(2) [OF _ n(1) "2.prems"(2)]) auto
      then consider "?stop m ?n bs b f" | "?chain m ?n bs b f" by blast
      then show ?thesis
      proof cases
        case 1
        then obtain m' xs y ys where "alloc_search sz mode ?n (fst b) (fst f) m = Some (StopIt m' (limit ?n xs))"
            "reshapes m ?n bs m' (xs @ (0, y) # ys)" "sz \<le> y" "\<forall>c \<in> set xs. fst c = 0 \<longrightarrow> snd c < sz"
            "\<exists>zs. coalesce bs = xs @ (0, y) # zs" by blast
        then show ?thesis using eq ne re c False
          by (intro disjI1 exI [of _ m'] exI [of _ "c # xs"] exI [of _ y] exI [of _ ys]) simp
      next
        case 2
        then obtain m' where "alloc_search sz mode ?n (fst b) (fst f) m =
             Some (ChainEnd m' (fst (foldl big_step b (free_list ?n (coalesce bs)))) (fst f))"
            "reshapes m ?n bs m' (coalesce bs)" "\<forall>c \<in> set (coalesce bs). fst c = 0 \<longrightarrow> snd c < sz" by blast
        then show ?thesis using eq ne re [of m' "coalesce bs"] c False
          by (intro disjI2 exI [of _ m']) simp
      qed
    qed
  next
    case True
    let ?R = "run_size z bs" and ?b = "big_step b (p, run_size z bs)" and ?f = "pick_step mode sz f (p, run_size z bs)"
    have ar: "arena m p ((0, z) # bs)" and ft: "fits p ((0, z) # bs)"
      using "2.prems"(1) c True by (auto simp: arena_def)
    obtain m1 where m1: "headers m1 p ((0, ?R) # after_run bs) MCB_LAST"
        "\<forall>s. s \<notin> paras p ?R \<longrightarrow> m1 s = m s"
        "alloc_search sz mode p (fst b) (fst f) m =
          (if sz \<le> ?R then Some (StopIt m1 p)
           else if after_run bs = [] then Some (ChainEnd m1 (fst ?b) (fst ?f))
           else alloc_search sz mode (nxtMCBsize p ?R) (fst ?b) (fst ?f) m1)"
        "after_run bs \<noteq> [] \<Longrightarrow> points m1 (nxtMCBsize p ?R) ?b"
        "after_run bs \<noteq> [] \<Longrightarrow> points m1 (nxtMCBsize p ?R) ?f"
      by (rule alloc_search_free [OF ar "2.prems"(3,4), of sz mode]) (use "2.prems"(2) in auto)
    note re = reshapes_run [OF ft m1(1,2)]
    consider "sz \<le> ?R" | "\<not> sz \<le> ?R" "after_run bs = []" | "\<not> sz \<le> ?R" "after_run bs \<noteq> []" by blast
    then show ?thesis
    proof cases
      case 1
      have "reshapes m p ((0, z) # bs) m1 ([] @ (0, ?R) # after_run bs)"
        using re [of m1 "after_run bs"] reshapes_refl arena_run_next(1) [OF ft m1(1)] by auto
      then show ?thesis using m1(3) 1 c True
        by (intro disjI1 exI [of _ m1] exI [of _ "[]"] exI [of _ ?R] exI [of _ "after_run bs"]) simp
    next
      case 2
      then have "?f = f" by (simp add: pick_step_def)
      then have "alloc_search sz mode p (fst b) (fst f) m = Some (ChainEnd m1 (fst ?b) (fst f))"
        using m1(3) 2 by simp
      moreover have "reshapes m p ((0, z) # bs) m1 [(0, ?R)]" by (rule re) (use 2 in auto)
      ultimately have "?chain m p ((0, z) # bs) b f" using 2 by (intro exI [of _ m1]) (simp add: not_le)
      then show ?thesis using True c by (intro disjI2) simp
    next
      case 3
      let ?n = "nxtMCBsize p ?R"
      have f: "?f = f" using 3 by (simp add: pick_step_def)
      have "?stop m1 ?n (after_run bs) ?b ?f \<or> ?chain m1 ?n (after_run bs) ?b ?f"
        using True c by (intro "2.IH"(1) [OF _ arena_run_next(1) [OF ft m1(1) 3(2)] "2.prems"(2) m1(4,5) [OF 3(2)]]) auto
      then have "?stop m1 ?n (after_run bs) ?b f \<or> ?chain m1 ?n (after_run bs) ?b f" by (simp only: f)
      then consider "?stop m1 ?n (after_run bs) ?b f" | "?chain m1 ?n (after_run bs) ?b f" by blast
      then show ?thesis
      proof cases
        case 1
        then obtain m' xs y ys where st: "alloc_search sz mode ?n (fst ?b) (fst f) m1 = Some (StopIt m' (limit ?n xs))"
            "reshapes m1 ?n (after_run bs) m' (xs @ (0, y) # ys)" "sz \<le> y"
            "\<forall>c \<in> set xs. fst c = 0 \<longrightarrow> snd c < sz" "\<exists>zs. coalesce (after_run bs) = xs @ (0, y) # zs" by blast
        then show ?thesis using m1(3) 3 f re [of m' "xs @ (0, y) # ys"] c True
          by (intro disjI1 exI [of _ m'] exI [of _ "(0, ?R) # xs"] exI [of _ y] exI [of _ ys]) auto
      next
        case 2
        then obtain m' where "alloc_search sz mode ?n (fst ?b) (fst f) m1 =
             Some (ChainEnd m' (fst (foldl big_step ?b (free_list ?n (coalesce (after_run bs))))) (fst f))"
            "reshapes m1 ?n (after_run bs) m' (coalesce (after_run bs))"
            "\<forall>c \<in> set (coalesce (after_run bs)). fst c = 0 \<longrightarrow> snd c < sz" by blast
        then show ?thesis using m1(3) 3 f re [of m' "coalesce (after_run bs)"] True c
          by (intro disjI2 exI [of _ m']) auto
      qed
    qed
  qed
qed

subsection \<open>What the search selects\<close>

lemma free_list_mem:
  assumes "(a, z) \<in> set (free_list p bs)"
  obtains xs ys where "bs = xs @ (0, z) # ys" "a = limit p xs"
  using assms
proof (induction bs arbitrary: p thesis)
  case (Cons b bs)
  show ?case
  proof (cases "fst b = 0 \<and> (a, z) = (p, snd b)")
    case True
    then show ?thesis using Cons.prems(1) [of "[]" bs] by (cases b) auto
  next
    case False
    then have "(a, z) \<in> set (free_list (nxtMCBsize p (snd b)) bs)" using Cons.prems(2) by (auto split: if_splits)
    then obtain xs ys where "bs = xs @ (0, z) # ys" "a = limit (nxtMCBsize p (snd b)) xs"
      using Cons.IH by blast
    then show ?thesis using Cons.prems(1) [of "b # xs" ys] by simp
  qed
qed simp

lemma free_list_append: "free_list p (xs @ ys) = free_list p xs @ free_list (limit p xs) ys"
  by (induction xs arbitrary: p) auto

lemma free_list_nonzero:
  assumes "fits p bs" "c \<in> set (free_list p bs)"
  shows "fst c \<noteq> 0"
proof -
  obtain a z where c: "c = (a, z)" by fastforce
  then obtain xs ys where "bs = xs @ (0, z) # ys" "a = limit p xs"
    using assms(2) free_list_mem by blast
  then show ?thesis using unat_limit(2) [of p xs "(0, z) # ys"] assms(1) c by (simp add: fits_def)
qed

lemma free_list_sizes: "(\<forall>c \<in> set (free_list p bs). P (snd c)) \<longleftrightarrow> (\<forall>b \<in> set bs. fst b = 0 \<longrightarrow> P (snd b))"
  by (induction bs arbitrary: p) auto

lemma foldl_big_step:
  assumes "\<forall>c \<in> set cs. fst c \<noteq> 0"
  shows "(foldl big_step b cs = b \<or> foldl big_step b cs \<in> set cs) \<and>
    (\<forall>c \<in> set cs. snd c \<le> snd (foldl big_step b cs)) \<and>
    (fst b \<noteq> 0 \<longrightarrow> snd b \<le> snd (foldl big_step b cs)) \<and>
    (fst b \<noteq> 0 \<or> cs \<noteq> [] \<longrightarrow> fst (foldl big_step b cs) \<noteq> 0)"
  using assms
proof (induction cs arbitrary: b)
  case (Cons c cs)
  have s: "fst (big_step b c) \<noteq> 0" "snd c \<le> snd (big_step b c)" "fst b \<noteq> 0 \<longrightarrow> snd b \<le> snd (big_step b c)"
      "big_step b c = b \<or> big_step b c = c"
    using Cons.prems by (auto simp: big_step_def)
  note ih = Cons.IH [of "big_step b c"]
  show ?case using ih Cons.prems s by (auto intro: order_trans)
qed simp

lemma foldl_pick_best:
  assumes "\<forall>c \<in> set cs. fst c \<noteq> 0" "is_best_fit mode"
  shows "(foldl (pick_step mode sz) f cs = f \<or>
          foldl (pick_step mode sz) f cs \<in> set cs \<and> sz \<le> snd (foldl (pick_step mode sz) f cs)) \<and>
    (\<forall>c \<in> set cs. sz \<le> snd c \<longrightarrow> fst (foldl (pick_step mode sz) f cs) \<noteq> 0 \<and> snd (foldl (pick_step mode sz) f cs) \<le> snd c) \<and>
    (fst f \<noteq> 0 \<longrightarrow> fst (foldl (pick_step mode sz) f cs) \<noteq> 0 \<and> snd (foldl (pick_step mode sz) f cs) \<le> snd f)"
  using assms
proof (induction cs arbitrary: f)
  case (Cons c cs)
  have "mode \<noteq> LARGEST" using Cons.prems(2) by (auto simp: is_best_fit_def)
  then have s: "sz \<le> snd c \<longrightarrow> fst (pick_step mode sz f c) \<noteq> 0 \<and> snd (pick_step mode sz f c) \<le> snd c"
      "fst f \<noteq> 0 \<longrightarrow> fst (pick_step mode sz f c) \<noteq> 0 \<and> snd (pick_step mode sz f c) \<le> snd f"
      "pick_step mode sz f c = f \<or> pick_step mode sz f c = c \<and> sz \<le> snd c"
    using Cons.prems by (auto simp: pick_step_def)
  note ih = Cons.IH [of "pick_step mode sz f c"]
  show ?case using ih Cons.prems s by (auto intro: order_trans)
qed simp

lemma foldl_pick_last:
  assumes "\<not> is_best_fit mode" "mode \<noteq> LARGEST"
  shows "foldl (pick_step mode sz) f cs = last (f # filter (\<lambda>c. sz \<le> snd c) cs)"
  by (induction cs arbitrary: f) (auto simp: pick_step_def assms)

lemma foldl_pick_largest: "foldl (pick_step LARGEST sz) f cs = f"
  by (induction cs arbitrary: f) (auto simp: pick_step_def)

text \<open>What a pass that ends at the end of the chain has found, for every mode but \<open>LARGEST\<close>.\<close>

lemma foldl_pick:
  assumes "\<forall>c \<in> set cs. fst c \<noteq> 0" "mode \<noteq> LARGEST"
  shows "fst (foldl (pick_step mode sz) (0, 0) cs) \<noteq> 0 \<Longrightarrow>
           foldl (pick_step mode sz) (0, 0) cs \<in> set cs \<and> sz \<le> snd (foldl (pick_step mode sz) (0, 0) cs)"
    "fst (foldl (pick_step mode sz) (0, 0) cs) = 0 \<Longrightarrow> \<forall>c \<in> set cs. snd c < sz"
proof -
  let ?F = "foldl (pick_step mode sz) (0, 0) cs"
  { assume nz: "fst ?F \<noteq> 0"
    show "?F \<in> set cs \<and> sz \<le> snd ?F"
    proof (cases "is_best_fit mode")
      case True
      show ?thesis using foldl_pick_best [OF assms(1) True, of sz "(0, 0)"] nz by auto
    next
      case False
      have F: "?F = last ((0, 0) # filter (\<lambda>c. sz \<le> snd c) cs)" by (rule foldl_pick_last [OF False assms(2)])
      then have "filter (\<lambda>c. sz \<le> snd c) cs \<noteq> []" using nz by auto
      then have "?F \<in> set (filter (\<lambda>c. sz \<le> snd c) cs)" using F last_in_set by fastforce
      then show ?thesis by simp
    qed }
  { assume z: "fst ?F = 0"
    show "\<forall>c \<in> set cs. snd c < sz"
    proof (cases "is_best_fit mode")
      case True
      show ?thesis using foldl_pick_best [OF assms(1) True, of sz "(0, 0)"] z by (auto simp: not_le [symmetric])
    next
      case False
      have F: "?F = last ((0, 0) # filter (\<lambda>c. sz \<le> snd c) cs)" by (rule foldl_pick_last [OF False assms(2)])
      have "filter (\<lambda>c. sz \<le> snd c) cs = []"
      proof (rule ccontr)
        assume ne: "filter (\<lambda>c. sz \<le> snd c) cs \<noteq> []"
        then have "?F \<in> set cs" using F last_in_set [OF ne] by auto
        then show False using z assms(1) by auto
      qed
      then show ?thesis by (auto simp: filter_empty_conv)
    qed }
qed

subsection \<open>Replacing one block\<close>

text \<open>
  An operation on one block: the store changes in the paragraphs of the block only, and the MCBs
  there now describe \<open>cs\<close>, which has the extent of the block.
\<close>

lemma replace_block:
  assumes ar: "arena m p (xs @ b # ys)" and "cs \<noteq> []"
    and fr: "\<And>s. s \<notin> paras (limit p xs) (snd b) \<Longrightarrow> m' s = m s"
    and hd: "headers m' (limit p xs) (cs @ ys) MCB_LAST"
    and sp: "span cs = unat (snd b) + 1" and lim: "limit (limit p xs) cs = nxtMCBsize (limit p xs) (snd b)"
  shows "arena m' p (xs @ cs @ ys)" "span (xs @ cs @ ys) = span (xs @ b # ys)"
    "limit p (xs @ cs @ ys) = limit p (xs @ b # ys)"
    "allocated p (xs @ cs @ ys) =
       allocated p xs \<union> allocated (limit p xs) cs \<union> allocated (nxtMCBsize (limit p xs) (snd b)) ys"
proof -
  have ft: "fits p (xs @ b # ys)" using ar by (simp add: arena_def)
  show "span (xs @ cs @ ys) = span (xs @ b # ys)" using sp by simp
  then have ft': "fits p (xs @ cs @ ys)" using ft by (simp add: fits_def)
  have "headers m p xs MCB_NORMAL" using ar by (simp add: arena_def headers_append)
  moreover have "headers m' p xs MCB_NORMAL = headers m p xs MCB_NORMAL"
  proof (rule headers_cong)
    fix a w z assume "(a, w, z) \<in> set (addrs p xs)"
    moreover have "fits p xs" using ft by (simp add: fits_def)
    ultimately have "unat a < unat (limit p xs)"
      using addrs_range [of p xs a w z] unat_limit(1) [OF ft] by simp
    then show "m' a = m a" by (intro fr) (simp add: paras_def)
  qed
  ultimately show "arena m' p (xs @ cs @ ys)"
    using ft' hd assms(2) by (simp add: arena_def headers_append)
  show "limit p (xs @ cs @ ys) = limit p (xs @ b # ys)" using lim by simp
  show "allocated p (xs @ cs @ ys) =
       allocated p xs \<union> allocated (limit p xs) cs \<union> allocated (nxtMCBsize (limit p xs) (snd b)) ys"
    using lim by (simp add: allocated_append Un_assoc)
qed

text \<open>The MCBs behind a block are not in its paragraphs.\<close>

lemma headers_behind:
  assumes "arena m p (xs @ b # ys)" and "\<And>s. s \<notin> paras (limit p xs) (snd b) \<Longrightarrow> m' s = m s"
  shows "headers m' (nxtMCBsize (limit p xs) (snd b)) ys MCB_LAST"
proof (cases "ys = []")
  case False
  have ft: "fits (limit p xs) (b # ys)" using assms(1) unat_limit(2) [of p xs "b # ys"] by (simp add: arena_def)
  have "headers m (nxtMCBsize (limit p xs) (snd b)) ys MCB_LAST"
    using assms(1) by (simp add: arena_def headers_append)
  moreover have "headers m' (nxtMCBsize (limit p xs) (snd b)) ys MCB_LAST =
      headers m (nxtMCBsize (limit p xs) (snd b)) ys MCB_LAST"
    using fits_next [OF ft False] by (intro headers_frame assms(2)) (auto simp: paras_def)
  ultimately show ?thesis by simp
qed simp

lemma allocated_disjoint:
  assumes ft: "fits p (xs @ b # ys)"
    and al: "(a, w, z) \<in> allocated p xs \<union> allocated (nxtMCBsize (limit p xs) (snd b)) ys"
  shows "paras a z \<inter> paras (limit p xs) (snd b) = {}"
proof -
  note l = unat_limit [OF ft, simplified]
  consider "(a, w, z) \<in> allocated p xs" | "(a, w, z) \<in> allocated (nxtMCBsize (limit p xs) (snd b)) ys"
    using al by blast
  then show ?thesis
  proof cases
    case 1
    have "fits p xs" using ft by (simp add: fits_def)
    then show ?thesis using allocated_range 1 l(1) by (fastforce simp: paras_def)
  next
    case 2
    then have "ys \<noteq> []" by auto
    then show ?thesis
      using allocated_range [OF fits_next(2) [OF l(2)] 2] fits_next(1) [OF l(2)] by (auto simp: paras_def)
  qed
qed

lemma keeps_replace_free:
  assumes "fits p (xs @ (0, z) # ys)" and fr: "\<And>s. s \<notin> paras (limit p xs) z \<Longrightarrow> m' s = m s"
  shows "keeps m m' p (xs @ (0, z) # ys)"
  unfolding keeps_def
proof (intro allI impI)
  fix s assume s: "unat s < unat p \<or> unat p + span (xs @ (0, z) # ys) \<le> unat s \<or>
    (\<exists>a w y. (a, w, y) \<in> allocated p (xs @ (0, z) # ys) \<and> s \<in> paras a y)"
  have al: "allocated p (xs @ (0, z) # ys) = allocated p xs \<union> allocated (nxtMCBsize (limit p xs) z) ys"
    by (simp add: allocated_append allocated_Cons)
  note l = unat_limit(1) [OF assms(1), simplified]
  have "s \<notin> paras (limit p xs) z"
    using s
  proof (elim disjE)
    assume "\<exists>a w y. (a, w, y) \<in> allocated p (xs @ (0, z) # ys) \<and> s \<in> paras a y"
    then show ?thesis using allocated_disjoint [OF assms(1)] al by fastforce
  qed (auto simp: paras_def l)
  then show "m' s = m s" by (rule fr)
qed

subsection \<open>Splitting the found block\<close>

lemma nxtMCBsize_split: "nxtMCBsize (nxtMCBsize p (z - y - 1)) y = nxtMCBsize p z"
  by (simp add: nxtMCBsize_def)

lemma nxtMCBsize_split': "nxtMCBsize (nxtMCBsize p y) (z - y - 1) = nxtMCBsize p z"
  by (simp add: nxtMCBsize_def)

lemma paras_mem: "unat y \<le> unat z \<Longrightarrow> unat n = unat p + unat y \<Longrightarrow> n \<in> paras p z"
  by (simp add: paras_def)

lemma unat_nxtMCBsize:
  assumes "fits p ((w, z) # ys)" "unat y < unat z"
  shows "unat (nxtMCBsize p y) = unat p + unat y + 1"
proof -
  have "unat p + unat y + 1 < 65536" using assms by (auto simp: fits_def)
  then show ?thesis unfolding nxtMCBsize_def by (rule unat_u16_add1)
qed

definition taken :: "u16 \<Rightarrow> u16 \<Rightarrow> u16 \<Rightarrow> u16 \<Rightarrow> block list" where
  "taken sz mode psp z =
     (if mode = LARGEST \<or> sz = z then [(psp, z)]
      else if is_last_fit mode then [(0, z - sz - 1), (psp, sz)]
      else [(psp, sz), (0, z - sz - 1)])"

lemma take_block_local:
  assumes ft: "fits q ((0, z) # ys)" and hd: "headers m q ((0, z) # ys) MCB_LAST" and "mode = LARGEST \<or> sz \<le> z"
  shows "\<exists>m'. take_block sz mode psp q m = (if mode \<noteq> LARGEST \<and> sz \<noteq> z \<and> is_last_fit mode
               then nxtMCBsize q (z - sz - 1) else q, m') \<and>
             (\<forall>s. s \<notin> paras q z \<longrightarrow> m' s = m s) \<and>
             (headers m' (nxtMCBsize q z) ys MCB_LAST \<longrightarrow> headers m' q (taken sz mode psp z @ ys) MCB_LAST)"
proof (cases "mode = LARGEST \<or> sz = z")
  case True
  have sz: "m_size (m q) = z" and "q \<in> paras q z" using hd by (auto simp: paras_def)
  have "split_block sz mode q m = (q, m)" using True sz by (auto simp: split_block_def)
  then show ?thesis using True hd \<open>q \<in> paras q z\<close>
    by (simp add: take_block_def taken_def Let_def) metis
next
  case False
  then have lt: "sz < z" using assms(3) by auto
  then have ult: "unat sz < unat z" by (simp add: word_less_nat_alt)
  have u: "unat (z - sz - 1) = unat z - unat sz - 1" by (rule unat_u16_sub1 [OF lt])
  have e: "z - (sz + 1) = z - sz - 1" by simp
  show ?thesis
  proof (cases "is_last_fit mode")
    case l: True
    let ?f = "nxtMCBsize q (z - sz - 1)"
    have uf: "unat ?f = unat q + (unat z - unat sz)"
      using unat_nxtMCBsize [OF ft, of "z - sz - 1"] u ult by simp
    then have fq: "?f \<noteq> q" "?f \<in> paras q z" "q \<in> paras q z" using ult by (auto simp: paras_def)
    have "m_size (m q) = z" using hd by simp
    then show ?thesis using False l hd fq
      by (simp add: take_block_def split_block_def taken_def Let_def nxtMCB_def e nxtMCBsize_split)
  next
    case l: False
    let ?f = "nxtMCBsize q sz"
    have uf: "unat ?f = unat q + unat sz + 1" by (rule unat_nxtMCBsize [OF ft ult])
    then have fq: "?f \<noteq> q" "?f \<in> paras q z" "q \<in> paras q z" using ult by (auto simp: paras_def)
    have "m_size (m q) = z" using hd by simp
    then show ?thesis using False l hd fq
      by (simp add: take_block_def split_block_def taken_def Let_def nxtMCB_def nxtMCBsize_split')
  qed
qed

lemma keeps_trans:
  assumes "keeps m m1 p bs" "keeps m1 m2 p bs1" "span bs1 = span bs" "allocated p bs1 = allocated p bs"
  shows "keeps m m2 p bs"
  unfolding keeps_def
proof (intro allI impI)
  fix s assume s: "unat s < unat p \<or> unat p + span bs \<le> unat s \<or>
    (\<exists>a w z. (a, w, z) \<in> allocated p bs \<and> s \<in> paras a z)"
  then have "m1 s = m s" using assms(1) unfolding keeps_def by blast
  moreover have "m2 s = m1 s" using s assms(2) unfolding keeps_def assms(3,4) by blast
  ultimately show "m2 s = m s" by simp
qed

text \<open>
  The store \<open>m'\<close> describes blocks \<open>bs'\<close> of the same extent, in which exactly the block \<open>(f, psp, z)\<close>
  has been added to the allocated ones; nothing that was allocated has changed.
\<close>

definition allocates :: "store \<Rightarrow> u16 \<Rightarrow> block list \<Rightarrow> u16 \<times> u16 \<times> u16 \<Rightarrow> store \<Rightarrow> block list \<Rightarrow> bool" where
  "allocates m p bs x m' bs' \<longleftrightarrow>
     arena m' p bs' \<and> keeps m m' p bs \<and> span bs' = span bs \<and> limit p bs' = limit p bs \<and>
     x \<notin> allocated p bs \<and> allocated p bs' = insert x (allocated p bs)"

lemma reshapes_allocates:
  "reshapes m p bs m1 bs1 \<Longrightarrow> allocates m1 p bs1 x m2 bs2 \<Longrightarrow> allocates m p bs x m2 bs2"
  by (auto simp: reshapes_def allocates_def intro: keeps_trans)

lemma take_block_allocates:
  assumes ar: "arena m p (xs @ (0, z) # ys)" and psp: "psp \<noteq> 0" and sz: "mode = LARGEST \<or> sz \<le> z"
  shows "\<exists>f m'. take_block sz mode psp (limit p xs) m = (f, m') \<and>
    allocates m p (xs @ (0, z) # ys) (f, psp, if mode = LARGEST then z else sz) m'
      (xs @ taken sz mode psp z @ ys)"
proof -
  let ?q = "limit p xs"
  have ft: "fits p (xs @ (0, z) # ys)" using ar by (simp add: arena_def)
  note l = unat_limit [OF ft, simplified]
  have hd: "headers m ?q ((0, z) # ys) MCB_LAST" using ar by (simp add: arena_def headers_append)
  obtain f m' where t: "take_block sz mode psp ?q m = (f, m')"
      and f: "f = (if mode \<noteq> LARGEST \<and> sz \<noteq> z \<and> is_last_fit mode then nxtMCBsize ?q (z - sz - 1) else ?q)"
      and fr: "\<And>s. s \<notin> paras ?q z \<Longrightarrow> m' s = m s"
      and hd': "headers m' (nxtMCBsize ?q z) ys MCB_LAST \<Longrightarrow> headers m' ?q (taken sz mode psp z @ ys) MCB_LAST"
    using take_block_local [OF l(2) hd sz, of psp] by auto
  have "unat (z - sz - 1) + unat sz + 1 = unat z" if "sz \<noteq> z" "sz \<le> z"
    using unat_u16_sub1 [of sz z] that by (simp add: word_less_nat_alt [symmetric] order.strict_iff_order)
      (simp add: word_le_nat_alt order.strict_iff_order unat_arith_simps)
  then have sp: "span (taken sz mode psp z) = unat z + 1" using sz by (auto simp: taken_def)
  have ne: "taken sz mode psp z \<noteq> []" and lim: "limit ?q (taken sz mode psp z) = nxtMCBsize ?q z"
    by (auto simp: taken_def nxtMCBsize_split nxtMCBsize_split')
  have "headers m' (nxtMCBsize ?q z) ys MCB_LAST" using headers_behind [OF ar, of m'] fr by simp
  then have rb: "arena m' p (xs @ taken sz mode psp z @ ys)"
      "span (xs @ taken sz mode psp z @ ys) = span (xs @ (0, z) # ys)"
      "limit p (xs @ taken sz mode psp z @ ys) = limit p (xs @ (0, z) # ys)"
      "allocated p (xs @ taken sz mode psp z @ ys) =
         allocated p xs \<union> allocated ?q (taken sz mode psp z) \<union> allocated (nxtMCBsize ?q z) ys"
    using replace_block [OF ar ne, of m'] fr hd' sp lim by simp_all
  have al: "allocated ?q (taken sz mode psp z) = {(f, psp, if mode = LARGEST then z else sz)}"
    using psp f by (auto simp: taken_def allocated_Cons)
  have old: "allocated p (xs @ (0, z) # ys) = allocated p xs \<union> allocated (nxtMCBsize ?q z) ys"
    by (simp add: allocated_append allocated_Cons)
  have "f \<in> paras ?q z"
  proof (cases "f = ?q")
    case False
    then have "sz < z" using f sz by (auto split: if_splits)
    then show ?thesis using False f unat_u16_sub1 [of sz z] unat_nxtMCBsize [OF l(2), of "z - sz - 1"]
      by (auto simp: paras_def word_less_nat_alt split: if_splits)
  qed (simp add: paras_def)
  moreover have "f \<in> paras f y" for y by (simp add: paras_def)
  ultimately have "(f, psp, y) \<notin> allocated p (xs @ (0, z) # ys)" for y
    using allocated_disjoint [OF ft, of f psp y] old by auto
  then show ?thesis
    using t rb al old keeps_replace_free [OF ft fr] by (simp add: allocates_def)
qed

text \<open>An operation on the blocks behind a prefix is an operation on the whole arena.\<close>

lemma arena_suffix: "arena m p (lo @ hi) \<Longrightarrow> hi \<noteq> [] \<Longrightarrow> arena m (limit p lo) hi"
  using unat_limit(2) [of p lo hi] by (auto simp: arena_def headers_append)

lemma reshapes_prefix:
  assumes ar: "arena m p (lo @ hi)" "hi \<noteq> []" and re: "reshapes m (limit p lo) hi m' hi'"
  shows "reshapes m p (lo @ hi) m' (lo @ hi')"
proof -
  have ft: "fits p (lo @ hi)" "fits p lo" using ar(1) by (auto simp: arena_def fits_def)
  note l = unat_limit [OF ft(1) ar(2)]
  have kp: "keeps m m' (limit p lo) hi" and ne: "hi' \<noteq> []" using re by (auto simp: reshapes_def arena_def)
  have "headers m' p lo MCB_NORMAL = headers m p lo MCB_NORMAL"
    using l(1) by (intro headers_frame [OF ft(2)] keeps_below [OF kp]) simp
  moreover have "keeps m m' p (lo @ hi)"
    unfolding keeps_def
  proof (intro allI impI)
    fix s assume s: "unat s < unat p \<or> unat p + span (lo @ hi) \<le> unat s \<or>
      (\<exists>a w z. (a, w, z) \<in> allocated p (lo @ hi) \<and> s \<in> paras a z)"
    have "unat s < unat (limit p lo)" if "(a, w, z) \<in> allocated p lo" "s \<in> paras a z" for a w z
      using allocated_range [OF ft(2) that(1)] that(2) l(1) by (simp add: paras_def)
    then show "m' s = m s"
      using s kp l(1) unfolding keeps_def by (simp add: allocated_append) fastforce
  qed
  ultimately show ?thesis
    using ar re ne ft(1) by (auto simp: reshapes_def arena_def headers_append fits_def allocated_append)
qed

subsection \<open>One pass of the allocator\<close>

text \<open>\<open>found_at bs p f z\<close>: the pointer \<open>f\<close> is the address of a free block of size \<open>z\<close>.\<close>

definition found_at :: "block list \<Rightarrow> u16 \<Rightarrow> u16 \<Rightarrow> u16 \<Rightarrow> bool" where
  "found_at bs p f z \<longleftrightarrow> (\<exists>xs ys. bs = xs @ (0, z) # ys \<and> f = limit p xs)"

lemma found_at_prefix: "found_at hi (limit p lo) f z \<Longrightarrow> found_at (lo @ hi) p f z"
  unfolding found_at_def by (metis append_assoc limit_append)

lemma free_list_found_at: "(a, z) \<in> set (free_list p bs) \<Longrightarrow> found_at bs p a z"
  unfolding found_at_def by (metis free_list_mem)

lemma found_at_size: "arena m p bs \<Longrightarrow> found_at bs p f z \<Longrightarrow> m_size (m f) = z \<and> f \<noteq> 0"
proof -
  assume ar: "arena m p bs" and "found_at bs p f z"
  then obtain xs ys where bs: "bs = xs @ (0, z) # ys" and f: "f = limit p xs" by (auto simp: found_at_def)
  then have "arena m f ((0, z) # ys)" using arena_suffix [of m p xs "(0, z) # ys"] ar by simp
  then show ?thesis by (simp add: arena_def fits_def)
qed

lemma found_at_allocates:
  assumes "arena m p bs" "found_at bs p f z" "psp \<noteq> 0" "mode = LARGEST \<or> sz \<le> z"
  shows "\<exists>a m' bs'. take_block sz mode psp f m = (a, m') \<and>
           allocates m p bs (a, psp, if mode = LARGEST then z else sz) m' bs'"
proof -
  obtain xs ys where "bs = xs @ (0, z) # ys" "f = limit p xs" using assms(2) by (auto simp: found_at_def)
  then show ?thesis using take_block_allocates [of m p xs z ys psp mode sz] assms by blast
qed

fun pass_result :: "store \<Rightarrow> u16 \<Rightarrow> block list \<Rightarrow> u16 \<Rightarrow> u16 \<Rightarrow> search \<Rightarrow> bool" where
  "pass_result m p bs sz mode (Destroyed m1) \<longleftrightarrow> False"
| "pass_result m p bs sz mode (StopIt m1 f) \<longleftrightarrow>
     (\<exists>bs1 z. reshapes m p bs m1 bs1 \<and> found_at bs1 p f z \<and> sz \<le> z \<and> mode \<noteq> LARGEST)"
| "pass_result m p bs sz mode (ChainEnd m1 b f) \<longleftrightarrow>
     (\<exists>bs1. reshapes m p bs m1 bs1 \<and> (b \<noteq> 0 \<longrightarrow> (\<exists>z. found_at bs1 p b z)) \<and>
            (f \<noteq> 0 \<longrightarrow> mode \<noteq> LARGEST \<and> (\<exists>z. sz \<le> z \<and> found_at bs1 p f z)))"

lemma pass_result_prefix:
  assumes "arena m p (lo @ hi)" "hi \<noteq> []" "pass_result m (limit p lo) hi sz mode r"
  shows "pass_result m p (lo @ hi) sz mode r"
  using assms(3) reshapes_prefix [OF assms(1,2)] found_at_prefix [of _ p lo]
  by (cases r) (fastforce+)

lemma alloc_pass:
  assumes ar: "arena m p bs"
  shows "\<exists>r. alloc_search sz mode p 0 0 m = Some r \<and> pass_result m p bs sz mode r"
proof (cases "is_first_fit mode")
  case True
  have pt: "points m p (0, 0)" by (simp add: points_def)
  have "mode \<noteq> LARGEST" using True by (auto simp: is_first_fit_def)
  let ?B = "foldl big_step (0, 0) (free_list p (coalesce bs))"
  have nz: "\<forall>c \<in> set (free_list p (coalesce bs)). fst c \<noteq> 0"
    using free_list_nonzero [OF fits_coalesce] ar by (auto simp: arena_def)
  have "fst ?B \<noteq> 0 \<longrightarrow> (\<exists>z. found_at (coalesce bs) p (fst ?B) z)"
    using foldl_big_step [OF nz, of "(0, 0)"] free_list_found_at [of "fst ?B" "snd ?B" p "coalesce bs"] by auto
  then show ?thesis
    using alloc_search_first_fit [OF ar True pt pt, of sz] \<open>mode \<noteq> LARGEST\<close>
    by (fastforce simp: found_at_def)
next
  case False
  have pt: "points m p (0, 0)" by (simp add: points_def)
  let ?L = "free_list p (coalesce bs)"
  have nz: "\<forall>c \<in> set ?L. fst c \<noteq> 0"
    using free_list_nonzero [OF fits_coalesce] ar by (auto simp: arena_def)
  let ?B = "foldl big_step (0, 0) ?L" and ?F = "foldl (pick_step mode sz) (0, 0) ?L"
  have "fst ?B \<noteq> 0 \<longrightarrow> (\<exists>z. found_at (coalesce bs) p (fst ?B) z)"
    using foldl_big_step [OF nz, of "(0, 0)"] free_list_found_at [of "fst ?B" "snd ?B" p "coalesce bs"] by auto
  moreover have "fst ?F \<noteq> 0 \<longrightarrow> mode \<noteq> LARGEST \<and> (\<exists>z. sz \<le> z \<and> found_at (coalesce bs) p (fst ?F) z)"
  proof (intro impI conjI)
    assume F: "fst ?F \<noteq> 0"
    show m: "mode \<noteq> LARGEST" using F foldl_pick_largest [of sz "(0, 0)" ?L] by auto
    show "\<exists>z. sz \<le> z \<and> found_at (coalesce bs) p (fst ?F) z"
      using foldl_pick(1) [OF nz m F] free_list_found_at [of "fst ?F" "snd ?F" p "coalesce bs"] by auto
  qed
  moreover obtain m' where "alloc_search sz mode p 0 0 m = Some (ChainEnd m' (fst ?B) (fst ?F))"
      "reshapes m p bs m' (coalesce bs)"
    using alloc_search_ends [OF ar False pt pt, of sz] by auto
  ultimately show ?thesis
    by (intro exI [of _ "ChainEnd m' (fst ?B) (fst ?F)"]) (simp, blast)
qed

subsection \<open>The state invariant\<close>

text \<open>
  The blocks from \<^verbatim>\<open>first_mcb\<close> on form an arena. When upper memory is linked in, its root is the MCB
  behind an allocated block (the one that covers the gap below upper memory), so that no free run
  of low memory can swallow it.
\<close>

definition umb_linked :: "mm \<Rightarrow> bool" where
  "umb_linked s \<longleftrightarrow> uppermem_link s AND 1 \<noteq> 0 \<and> uppermem_root s \<noteq> 0xffff"

definition mm_inv :: "mm \<Rightarrow> block list \<Rightarrow> bool" where
  "mm_inv s bs \<longleftrightarrow> arena (mem s) (first_mcb s) bs \<and>
     (umb_linked s \<longrightarrow>
        (\<exists>a w z. (a, w, z) \<in> allocated (first_mcb s) bs \<and> uppermem_root s = nxtMCBsize a z \<and>
                 unat a + unat z + 1 < unat (first_mcb s) + span bs))"

lemma addrs_split:
  assumes "(a, w, z) \<in> set (addrs p bs)"
  obtains xs ys where "bs = xs @ (w, z) # ys" "a = limit p xs"
  using assms
proof (induction bs arbitrary: p thesis)
  case (Cons b bs)
  show ?case
  proof (cases "(a, w, z) = (p, fst b, snd b)")
    case True
    then show ?thesis using Cons.prems(1) [of "[]" bs] by (cases b) auto
  next
    case False
    then have "(a, w, z) \<in> set (addrs (nxtMCBsize p (snd b)) bs)" using Cons.prems(2) by auto
    then obtain xs ys where "bs = xs @ (w, z) # ys" "a = limit (nxtMCBsize p (snd b)) xs"
      using Cons.IH by blast
    then show ?thesis using Cons.prems(1) [of "b # xs" ys] by simp
  qed
qed simp

lemma mm_inv_upper:
  assumes "mm_inv s bs" "umb_linked s"
  obtains lo hi where "bs = lo @ hi" "hi \<noteq> []" "uppermem_root s = limit (first_mcb s) lo"
proof -
  obtain a w z where al: "(a, w, z) \<in> allocated (first_mcb s) bs" and r: "uppermem_root s = nxtMCBsize a z"
      and lt: "unat a + unat z + 1 < unat (first_mcb s) + span bs"
    using assms by (auto simp: mm_inv_def)
  have ft: "fits (first_mcb s) bs" using assms(1) by (simp add: mm_inv_def arena_def)
  obtain xs ys where bs: "bs = xs @ (w, z) # ys" and a: "a = limit (first_mcb s) xs"
    using al by (auto simp: allocated_def elim: addrs_split)
  have "unat a = unat (first_mcb s) + span xs" using unat_limit(1) ft bs a by simp
  then have "ys \<noteq> []" using lt bs by auto
  then show ?thesis using that [of "xs @ [(w, z)]" ys] bs a r by simp
qed

lemma mm_inv_step:
  assumes "mm_inv s bs" "arena m' (first_mcb s) bs'" "span bs' = span bs"
    "allocated (first_mcb s) bs \<subseteq> allocated (first_mcb s) bs'"
  shows "mm_inv (s\<lparr>mem := m'\<rparr>) bs'"
  using assms by (fastforce simp: mm_inv_def umb_linked_def)

lemma alloc_start_pass:
  assumes "mm_inv s bs"
  shows "\<exists>r. alloc_search sz mode (alloc_start sz mode s) 0 0 (mem s) = Some r \<and>
             pass_result (mem s) (first_mcb s) bs sz mode r"
proof -
  have ar: "arena (mem s) (first_mcb s) bs" using assms by (simp add: mm_inv_def)
  show ?thesis
  proof (cases "alloc_start sz mode s = first_mcb s")
    case True
    then show ?thesis using alloc_pass [OF ar] by simp
  next
    case False
    then have "umb_linked s" and start: "alloc_start sz mode s = uppermem_root s"
      by (auto simp: alloc_start_def umb_linked_def Let_def split: if_splits)
    then obtain lo hi where bs: "bs = lo @ hi" "hi \<noteq> []" "uppermem_root s = limit (first_mcb s) lo"
      using mm_inv_upper [OF assms] by blast
    obtain r where "alloc_search sz mode (limit (first_mcb s) lo) 0 0 (mem s) = Some r"
        "pass_result (mem s) (limit (first_mcb s) lo) hi sz mode r"
      using alloc_pass [OF arena_suffix] ar bs by blast
    then show ?thesis using pass_result_prefix ar bs start by metis
  qed
qed

text \<open>The outcome of an allocation: success with a new block, or no memory with nothing allocated.\<close>

definition alloc_outcome ::
  "mm \<Rightarrow> block list \<Rightarrow> u16 \<Rightarrow> bool \<Rightarrow> u16 \<Rightarrow> int \<Rightarrow> u16 \<Rightarrow> mm \<Rightarrow> block list \<Rightarrow> bool" where
  "alloc_outcome s bs sz largest para rc para' s' bs' \<longleftrightarrow>
     s' = s\<lparr>mem := mem s'\<rparr> \<and>
     (rc = SUCCESS \<and> (\<exists>z. (if largest then sz \<le> z else z = sz) \<and>
        allocates (mem s) (first_mcb s) bs (para', cu_psp s, z) (mem s') bs') \<or>
      rc = DE_NOMEM \<and> para' = para \<and> reshapes (mem s) (first_mcb s) bs (mem s') bs')"

lemma alloc_outcome_inv:
  assumes "mm_inv s bs" "alloc_outcome s bs sz l para rc para' s' bs'"
  shows "mm_inv s' bs'"
proof -
  have "arena (mem s') (first_mcb s) bs'" "span bs' = span bs"
      "allocated (first_mcb s) bs \<subseteq> allocated (first_mcb s) bs'" and s': "s' = s\<lparr>mem := mem s'\<rparr>"
    using assms(2) by (auto simp: alloc_outcome_def allocates_def reshapes_def)
  then show ?thesis using mm_inv_step [OF assms(1)] by metis
qed

lemma take_outcome:
  assumes "reshapes (mem s) (first_mcb s) bs m1 bs1" "found_at bs1 (first_mcb s) f z" "cu_psp s \<noteq> 0" "sz \<le> z"
  shows "\<exists>a m2 bs'. take_block sz mode (cu_psp s) f m1 = (a, m2) \<and>
           alloc_outcome s bs sz (mode = LARGEST) para SUCCESS a (s\<lparr>mem := m2\<rparr>) bs'"
proof -
  have "arena m1 (first_mcb s) bs1" using assms(1) by (simp add: reshapes_def)
  then obtain a m2 bs' where "take_block sz mode (cu_psp s) f m1 = (a, m2)"
      "allocates m1 (first_mcb s) bs1 (a, cu_psp s, if mode = LARGEST then z else sz) m2 bs'"
    using found_at_allocates assms(2-4) by blast
  moreover from this(2) have "allocates (mem s) (first_mcb s) bs (a, cu_psp s, if mode = LARGEST then z else sz) m2 bs'"
    using reshapes_allocates [OF assms(1)] by simp
  ultimately show ?thesis using assms(4)
    by (intro exI [of _ a] exI [of _ m2] exI [of _ bs'])
      (cases "mode = LARGEST"; auto simp: alloc_outcome_def)
qed

text \<open>A call that does not search again.\<close>

lemma DosMemAlloc_last_pass:
  assumes inv: "mm_inv s bs" and psp: "cu_psp s \<noteq> 0"
    and last: "\<not> (mode \<noteq> LARGEST \<and> mode AND FIRST_FIT_U \<noteq> 0 \<and> umb_linked s)"
  shows "\<exists>rc para' asize' s' bs'. DosMemAlloc sz mode para asize s = Some (rc, para', asize', s') \<and>
           alloc_outcome s bs sz (mode = LARGEST) para rc para' s' bs'"
proof -
  let ?p = "first_mcb s"
  obtain r where r: "alloc_search sz mode (alloc_start sz mode s) 0 0 (mem s) = Some r"
      and post: "pass_result (mem s) ?p bs sz mode r"
    using alloc_start_pass [OF inv] by blast
  show ?thesis
  proof (cases r)
    case (Destroyed m1)
    then show ?thesis using post by simp
  next
    case (StopIt m1 f)
    then obtain bs1 z where re: "reshapes (mem s) ?p bs m1 bs1" "found_at bs1 ?p f z" "sz \<le> z" using post by auto
    obtain a m2 bs' where "take_block sz mode (cu_psp s) f m1 = (a, m2)"
        "alloc_outcome s bs sz (mode = LARGEST) para SUCCESS a (s\<lparr>mem := m2\<rparr>) bs'"
      using take_outcome [OF re(1,2) psp re(3)] by blast
    then show ?thesis using r StopIt by (subst DosMemAlloc.simps) auto
  next
    case (ChainEnd m1 b f0)
    then obtain bs1 where re: "reshapes (mem s) ?p bs m1 bs1"
        and b: "b \<noteq> 0 \<longrightarrow> (\<exists>z. found_at bs1 ?p b z)"
        and f0: "f0 \<noteq> 0 \<longrightarrow> mode \<noteq> LARGEST \<and> (\<exists>z. sz \<le> z \<and> found_at bs1 ?p f0 z)" using post by auto
    have ar: "arena m1 ?p bs1" using re by (simp add: reshapes_def)
    let ?big = "mode = LARGEST \<and> b \<noteq> 0 \<and> sz \<le> m_size (m1 b)"
    define f where "f = (if ?big then b else f0)"
    have f: "\<exists>z. sz \<le> z \<and> found_at bs1 ?p f z" if "f \<noteq> 0"
      using that b f0 found_at_size [OF ar] by (auto simp: f_def split: if_splits)
    show ?thesis
    proof (cases "f = 0 \<or> m_size (m1 f) = 0")
      case True
      have "alloc_outcome s bs sz (mode = LARGEST) para DE_NOMEM para (s\<lparr>mem := m1\<rparr>) bs1"
        using re by (simp add: alloc_outcome_def)
      then show ?thesis using r ChainEnd True last f_def
        by (subst DosMemAlloc.simps) (auto simp: Let_def umb_linked_def)
    next
      case False
      then obtain z where "sz \<le> z" "found_at bs1 ?p f z" using f by auto
      then obtain a m2 bs' where "take_block sz mode (cu_psp s) f m1 = (a, m2)"
          "alloc_outcome s bs sz (mode = LARGEST) para SUCCESS a (s\<lparr>mem := m2\<rparr>) bs'"
        using take_outcome [OF re _ psp] by blast
      then show ?thesis using r ChainEnd False f_def
        by (subst DosMemAlloc.simps) (auto simp: Let_def)
    qed
  qed
qed

lemma clear_upper_bit: "(mode AND NOT FIRST_FIT_U) AND FIRST_FIT_U = 0"
  by (simp add: and.assoc)

lemma alloc_outcome_after_reshape:
  assumes "reshapes (mem s) (first_mcb s) bs m1 bs1"
    "alloc_outcome (s\<lparr>mem := m1\<rparr>) bs1 sz l para rc para' s' bs'"
  shows "alloc_outcome s bs sz l para rc para' s' bs'"
proof -
  have re: "reshapes (mem s) (first_mcb s) bs m2 bs2" if "reshapes m1 (first_mcb s) bs1 m2 bs2" for m2 bs2
    using assms(1) that by (auto simp: reshapes_def intro: keeps_trans)
  show ?thesis using assms(2) re reshapes_allocates [OF assms(1)]
    by (auto simp: alloc_outcome_def)
qed

lemma DosMemAlloc_outcome:
  assumes inv: "mm_inv s bs" and psp: "cu_psp s \<noteq> 0"
  shows "\<exists>rc para' asize' s' bs'. DosMemAlloc sz mode para asize s = Some (rc, para', asize', s') \<and>
           alloc_outcome s bs sz (mode = LARGEST) para rc para' s' bs'"
proof (cases "mode \<noteq> LARGEST \<and> mode AND FIRST_FIT_U \<noteq> 0 \<and> umb_linked s")
  case False
  then show ?thesis by (rule DosMemAlloc_last_pass [OF inv psp])
next
  case True
  let ?p = "first_mcb s"
  obtain r where r: "alloc_search sz mode (alloc_start sz mode s) 0 0 (mem s) = Some r"
      and post: "pass_result (mem s) ?p bs sz mode r"
    using alloc_start_pass [OF inv] by blast
  show ?thesis
  proof (cases r)
    case (Destroyed m1)
    then show ?thesis using post by simp
  next
    case (StopIt m1 f)
    then obtain bs1 z where re: "reshapes (mem s) ?p bs m1 bs1" "found_at bs1 ?p f z" "sz \<le> z" using post by auto
    obtain a m2 bs' where "take_block sz mode (cu_psp s) f m1 = (a, m2)"
        "alloc_outcome s bs sz (mode = LARGEST) para SUCCESS a (s\<lparr>mem := m2\<rparr>) bs'"
      using take_outcome [OF re(1,2) psp re(3)] by blast
    then show ?thesis using r StopIt by (subst DosMemAlloc.simps) auto
  next
    case (ChainEnd m1 b f)
    then obtain bs1 where re: "reshapes (mem s) ?p bs m1 bs1"
        and f: "f \<noteq> 0 \<longrightarrow> (\<exists>z. sz \<le> z \<and> found_at bs1 ?p f z)" using post by auto
    show ?thesis
    proof (cases "f = 0 \<or> m_size (m1 f) = 0")
      case e: True
      let ?s = "s\<lparr>mem := m1\<rparr>" and ?mode = "mode AND NOT FIRST_FIT_U"
      have "mm_inv ?s bs1" using re by (intro mm_inv_step [OF inv]) (auto simp: reshapes_def)
      then obtain rc para' asize' s' bs' where again:
          "DosMemAlloc sz ?mode para asize ?s = Some (rc, para', asize', s')"
          "alloc_outcome ?s bs1 sz (?mode = LARGEST) para rc para' s' bs'"
        using DosMemAlloc_last_pass [of ?s bs1 ?mode sz para asize] psp clear_upper_bit by auto
      have "?mode \<noteq> LARGEST" using clear_upper_bit [of mode] by auto
      then have "alloc_outcome s bs sz (mode = LARGEST) para rc para' s' bs'"
        using alloc_outcome_after_reshape [OF re] again(2) True by simp
      moreover have "DosMemAlloc sz mode para asize s = DosMemAlloc sz ?mode para asize ?s"
        using r ChainEnd e True by (subst DosMemAlloc.simps) (simp add: Let_def umb_linked_def)
      ultimately show ?thesis using again(1) by auto
    next
      case False
      then obtain z where "sz \<le> z" "found_at bs1 ?p f z" using f by auto
      then obtain a m2 bs' where "take_block sz mode (cu_psp s) f m1 = (a, m2)"
          "alloc_outcome s bs sz (mode = LARGEST) para SUCCESS a (s\<lparr>mem := m2\<rparr>) bs'"
        using take_outcome [OF re _ psp] by blast
      then show ?thesis using r ChainEnd False True
        by (subst DosMemAlloc.simps) (auto simp: Let_def)
    qed
  qed
qed

subsection \<open>Freeing and resizing one block\<close>

lemma arena_valid:
  assumes "arena m p (xs @ b # ys)"
  shows "mcbValid (m (limit p xs))" "m_psp (m (limit p xs)) = fst b" "m_size (m (limit p xs)) = snd b"
    "limit p xs \<noteq> 0" "m_type (m (limit p xs)) = (if ys = [] then MCB_LAST else MCB_NORMAL)"
  using arena_suffix [OF assms] header_valid [of "limit p xs" b ys m] by (auto simp: arena_def fits_def)

lemma replace_suffix:
  assumes ar: "arena m p (xs @ zs)" "zs \<noteq> []" and "zs' \<noteq> []"
    and fr: "\<And>s. unat s < unat (limit p xs) \<Longrightarrow> m' s = m s"
    and hd: "headers m' (limit p xs) zs' MCB_LAST" and sp: "span zs' = span zs"
  shows "arena m' p (xs @ zs')"
proof -
  have ft: "fits p (xs @ zs)" "fits p xs" using ar by (auto simp: arena_def fits_def)
  have "headers m' p xs MCB_NORMAL = headers m p xs MCB_NORMAL"
    using unat_limit(1) [OF ft(1) ar(2)] by (intro headers_frame [OF ft(2)] fr) simp
  then show ?thesis using assms ft by (auto simp: arena_def fits_def headers_append)
qed

text \<open>The effect on the allocated blocks when one block is replaced: every other block is kept.\<close>

definition others_kept :: "store \<Rightarrow> store \<Rightarrow> u16 \<Rightarrow> block list \<Rightarrow> u16 \<Rightarrow> bool" where
  "others_kept m m' p bs a \<longleftrightarrow>
     (\<forall>b w z s. (b, w, z) \<in> allocated p bs \<and> b \<noteq> a \<and> s \<in> paras b z \<longrightarrow> m' s = m s)"

lemma set_owner:
  assumes ar: "arena m p (xs @ (w, z) # ys)"
    and m': "m' = m(limit p xs := (m (limit p xs))\<lparr>m_psp := v, m_name := nm\<rparr>)"
  shows "arena m' p (xs @ (v, z) # ys)" "others_kept m m' p (xs @ (w, z) # ys) (limit p xs)"
proof -
  let ?a = "limit p xs"
  have hd: "headers m ?a ((w, z) # ys) MCB_LAST" using ar by (simp add: arena_def headers_append)
  have fr: "s \<notin> paras ?a z \<Longrightarrow> m' s = m s" for s by (auto simp: m' paras_def)
  have "headers m' (nxtMCBsize ?a z) ys MCB_LAST" using headers_behind [OF ar, of m'] fr by simp
  then have "headers m' ?a ([(v, z)] @ ys) MCB_LAST" using hd m' by simp
  then show "arena m' p (xs @ (v, z) # ys)"
    using replace_block(1) [OF ar, of "[(v, z)]" m'] fr by simp
  have ft: "fits p (xs @ (w, z) # ys)" using ar by (simp add: arena_def)
  show "others_kept m m' p (xs @ (w, z) # ys) ?a"
    unfolding others_kept_def
  proof (intro allI impI, elim conjE)
    fix b u y s assume al: "(b, u, y) \<in> allocated p (xs @ (w, z) # ys)" "b \<noteq> ?a" "s \<in> paras b y"
    then have "(b, u, y) \<in> allocated p xs \<union> allocated (nxtMCBsize ?a (snd (w, z))) ys"
      by (auto simp: allocated_append allocated_Cons split: if_splits)
    then have "s \<notin> paras ?a z" using allocated_disjoint [OF ft] al(3) by fastforce
    then show "m' s = m s" by (rule fr)
  qed
qed

lemma allocated_address:
  assumes ft: "fits p (xs @ (w, z) # ys)"
  shows "(limit p xs, v, y) \<notin> allocated p xs" "(limit p xs, v, y) \<notin> allocated (nxtMCBsize (limit p xs) z) ys"
proof -
  have "limit p xs \<in> paras (limit p xs) z" "limit p xs \<in> paras (limit p xs) y" for y by (auto simp: paras_def)
  then show "(limit p xs, v, y) \<notin> allocated p xs" "(limit p xs, v, y) \<notin> allocated (nxtMCBsize (limit p xs) z) ys"
    using allocated_disjoint [OF ft, of "limit p xs" v y] by fastforce+
qed

lemma allocated_middle:
  "w \<noteq> 0 \<Longrightarrow> allocated p (xs @ (w, z) # ys) =
     insert (limit p xs, w, z) (allocated p xs \<union> allocated (nxtMCBsize (limit p xs) z) ys)"
  by (auto simp: allocated_append allocated_Cons)

lemma allocated_other:
  assumes "fits p (xs @ (w, z) # ys)"
  shows "{x \<in> allocated p (xs @ (w, z) # ys). fst x \<noteq> limit p xs} =
     allocated p xs \<union> allocated (nxtMCBsize (limit p xs) z) ys"
  using allocated_address [OF assms] by (auto simp: allocated_append allocated_Cons split: if_splits)

text \<open>\<open>joinMCBs\<close> on an allocated block: it grows over the free run behind it.\<close>

lemma joinMCBs_grow:
  assumes ar: "arena m p (xs @ (w, z) # ys)"
  shows "\<exists>m'. joinMCBs (limit p xs) m = (SUCCESS, m') \<and>
      arena m' p (xs @ (w, run_size z ys) # after_run ys) \<and>
      (\<forall>s. s \<notin> paras (limit p xs) (run_size z ys) \<longrightarrow> m' s = m s) \<and>
      span (xs @ (w, run_size z ys) # after_run ys) = span (xs @ (w, z) # ys) \<and>
      allocated (nxtMCBsize (limit p xs) (run_size z ys)) (after_run ys) = allocated (nxtMCBsize (limit p xs) z) ys"
proof -
  let ?a = "limit p xs"
  have ft: "fits ?a ((w, z) # ys)" and hd: "headers m ?a ((w, z) # ys) MCB_LAST"
    using arena_suffix [OF ar] by (auto simp: arena_def)
  obtain m' where m': "joinMCBs ?a m = (SUCCESS, m')" "headers m' ?a ((w, run_size z ys) # after_run ys) MCB_LAST"
      "\<forall>s. s \<notin> paras ?a (run_size z ys) \<longrightarrow> m' s = m s"
    using joinMCBs_arena [OF ft hd] by (auto simp: join_free_eq)
  have sp: "span ((w, run_size z ys) # after_run ys) = span ((w, z) # ys)"
    using span_join_free [OF ft] by (simp add: join_free_eq)
  have "arena m' p (xs @ (w, run_size z ys) # after_run ys)"
    using m'(3) by (intro replace_suffix [OF ar _ _ _ m'(2) sp]) (auto simp: paras_def)
  then show ?thesis using m' sp allocated_free_run by simp
qed

lemma cut_block_arena:
  assumes ar: "arena m p (xs @ (w, z) # ys)" and lt: "sz < z"
  shows "arena (cut_block (limit p xs) sz m) p ((xs @ [(w, sz)]) @ (0, z - sz - 1) # ys)"
    "\<And>s. s \<notin> paras (limit p xs) z \<Longrightarrow> cut_block (limit p xs) sz m s = m s"
proof -
  let ?a = "limit p xs" and ?m = "cut_block (limit p xs) sz m"
  let ?q = "nxtMCBsize ?a sz"
  have ft: "fits ?a ((w, z) # ys)" and hd: "headers m ?a ((w, z) # ys) MCB_LAST"
    using arena_suffix [OF ar] by (auto simp: arena_def)
  have ult: "unat sz < unat z" using lt by (simp add: word_less_nat_alt)
  have uq: "unat ?q = unat ?a + unat sz + 1" by (rule unat_nxtMCBsize [OF ft ult])
  then have q: "?q \<noteq> ?a" "?q \<in> paras ?a z" "?a \<in> paras ?a z" using ult by (auto simp: paras_def)
  show fr: "\<And>s. s \<notin> paras ?a z \<Longrightarrow> ?m s = m s"
    using q by (auto simp: cut_block_def Let_def)
  have "headers ?m (nxtMCBsize ?a z) ys MCB_LAST" using headers_behind [OF ar, of ?m] fr by simp
  then have "headers ?m ?a ([(w, sz), (0, z - sz - 1)] @ ys) MCB_LAST"
    using hd q(1) by (simp add: cut_block_def Let_def nxtMCBsize_split')
  moreover have "unat (z - sz - 1) + unat sz + 1 = unat z" using unat_u16_sub1 [OF lt] ult by simp
  ultimately show "arena ?m p ((xs @ [(w, sz)]) @ (0, z - sz - 1) # ys)"
    using replace_block(1) [OF ar, of "[(w, sz), (0, z - sz - 1)]" ?m] fr by (simp add: nxtMCBsize_split')
qed

text \<open>
  \<open>becomes\<close>: the block at \<open>a\<close> now has owner \<open>w\<close> (free if \<open>0\<close>) and size \<open>z\<close>; every other allocated
  block is still there, with its contents.
\<close>

definition becomes :: "store \<Rightarrow> u16 \<Rightarrow> block list \<Rightarrow> u16 \<Rightarrow> u16 \<Rightarrow> u16 \<Rightarrow> store \<Rightarrow> block list \<Rightarrow> bool" where
  "becomes m p bs a w z m' bs' \<longleftrightarrow>
     arena m' p bs' \<and> span bs' = span bs \<and> others_kept m m' p bs a \<and>
     allocated p bs' = {x \<in> allocated p bs. fst x \<noteq> a} \<union> (if w = 0 then {} else {(a, w, z)})"

definition same_on :: "(u16 \<times> u16 \<times> u16) set \<Rightarrow> store \<Rightarrow> store \<Rightarrow> bool" where
  "same_on A m m' \<longleftrightarrow> (\<forall>b w z s. (b, w, z) \<in> A \<and> s \<in> paras b z \<longrightarrow> m' s = m s)"

lemma same_on_trans: "same_on A m m1 \<Longrightarrow> same_on A m1 m2 \<Longrightarrow> same_on A m m2"
  by (simp add: same_on_def)

lemma same_on_block:
  assumes "fits p (xs @ (w, z) # ys)" "\<And>s. s \<notin> paras (limit p xs) z \<Longrightarrow> m' s = m s"
    "A = allocated p xs \<union> allocated (nxtMCBsize (limit p xs) z) ys"
  shows "same_on A m m'"
  unfolding same_on_def
proof (intro allI impI, elim conjE)
  fix b v y s assume "(b, v, y) \<in> A" "s \<in> paras b y"
  then have "s \<notin> paras (limit p xs) z" using allocated_disjoint [OF assms(1), of b v y] assms(3) by auto
  then show "m' s = m s" by (rule assms(2))
qed

lemma becomesI:
  assumes old: "arena m p (xs @ (w, z) # ys)" and new: "arena m' p (xs @ (v, y) # zs)"
    and sp: "span (xs @ (v, y) # zs) = span (xs @ (w, z) # ys)"
    and al: "allocated (nxtMCBsize (limit p xs) y) zs = allocated (nxtMCBsize (limit p xs) z) ys"
    and same: "same_on (allocated p xs \<union> allocated (nxtMCBsize (limit p xs) z) ys) m m'"
  shows "becomes m p (xs @ (w, z) # ys) (limit p xs) v y m' (xs @ (v, y) # zs)"
proof -
  have ft: "fits p (xs @ (w, z) # ys)" using old by (simp add: arena_def)
  note other = allocated_other [OF ft]
  have "others_kept m m' p (xs @ (w, z) # ys) (limit p xs)"
    using same other unfolding others_kept_def same_on_def by fastforce
  moreover have "allocated p (xs @ (v, y) # zs) =
      allocated p xs \<union> allocated (nxtMCBsize (limit p xs) z) ys \<union> (if v = 0 then {} else {(limit p xs, v, y)})"
    using al by (auto simp: allocated_append allocated_Cons)
  ultimately show ?thesis using new sp other by (simp add: becomes_def)
qed

lemma DosMemFree_becomes:
  assumes ar: "arena (mem s) p (xs @ (w, z) # ys)"
  shows "\<exists>m'. DosMemFree (limit p xs) s = (SUCCESS, s\<lparr>mem := m'\<rparr>) \<and>
    becomes (mem s) p (xs @ (w, z) # ys) (limit p xs) 0 z m' (xs @ (0, z) # ys)"
proof -
  let ?a = "limit p xs"
  define m' where "m' = (mem s)(?a := (mem s ?a)\<lparr>m_psp := 0, m_name := replicate 8 0\<rparr>)"
  have "DosMemFree ?a s = (SUCCESS, s\<lparr>mem := m'\<rparr>)"
    using arena_valid [OF ar] by (auto simp: DosMemFree_def mcbValid_def mcbFreeable_def m'_def)
  moreover have "becomes (mem s) p (xs @ (w, z) # ys) ?a 0 z m' (xs @ (0, z) # ys)"
  proof (rule becomesI [OF ar])
    show "arena m' p (xs @ (0, z) # ys)" by (rule set_owner(1) [OF ar m'_def])
    show "same_on (allocated p xs \<union> allocated (nxtMCBsize ?a z) ys) (mem s) m'"
      using ar by (intro same_on_block [where p = p and xs = xs and w = w and z = z and ys = ys])
        (auto simp: arena_def m'_def paras_def)
  qed auto
  ultimately show ?thesis by blast
qed

text \<open>The shrinking half of \<open>DosMemChange\<close>, from a block of size \<open>z\<close> that is large enough.\<close>

lemma shrink_becomes:
  assumes ar: "arena m p (xs @ (w, z) # ys)" and le: "sz \<le> z"
    and ch: "(rc, m2) = (if sz < m_size (m (limit p xs)) then
               joinMCBs (nxtMCBsize (limit p xs) sz) (cut_block (limit p xs) sz m) else (SUCCESS, m))"
  shows "rc = SUCCESS \<and> (\<exists>zs. arena m2 p (xs @ (w, sz) # zs) \<and>
     span (xs @ (w, sz) # zs) = span (xs @ (w, z) # ys) \<and>
     allocated (nxtMCBsize (limit p xs) sz) zs = allocated (nxtMCBsize (limit p xs) z) ys \<and>
     same_on (allocated p xs \<union> allocated (nxtMCBsize (limit p xs) z) ys) m m2)"
proof (cases "sz < z")
  case False
  then show ?thesis using ch ar le arena_valid(3) [OF ar] by (auto simp: same_on_def)
next
  case True
  let ?a = "limit p xs" and ?A = "allocated p xs \<union> allocated (nxtMCBsize (limit p xs) z) ys"
  let ?c = "cut_block ?a sz m" and ?y = "z - sz - 1"
  let ?R = "run_size ?y ys"
  note cut = cut_block_arena [OF ar True]
  have ft: "fits p (xs @ (w, z) # ys)" using ar by (simp add: arena_def)
  have lim: "limit p (xs @ [(w, sz)]) = nxtMCBsize ?a sz" by simp
  obtain m' where m': "joinMCBs (nxtMCBsize ?a sz) ?c = (SUCCESS, m')"
      "arena m' p ((xs @ [(w, sz)]) @ (0, ?R) # after_run ys)"
      "\<And>s. s \<notin> paras (nxtMCBsize ?a sz) ?R \<Longrightarrow> m' s = ?c s"
      "span ((xs @ [(w, sz)]) @ (0, ?R) # after_run ys) = span ((xs @ [(w, sz)]) @ (0, ?y) # ys)"
      "allocated (nxtMCBsize (nxtMCBsize ?a sz) ?R) (after_run ys) = allocated (nxtMCBsize ?a z) ys"
    using joinMCBs_grow [OF cut(1)] nxtMCBsize_split' by (auto simp: nxtMCBsize_split')
  have m2: "m2 = m'" "rc = SUCCESS" using ch m'(1) True arena_valid(3) [OF ar] by auto
  have "unat ?y + unat sz + 1 = unat z" using unat_u16_sub1 [OF True] True by (simp add: word_less_nat_alt)
  then have "span ((xs @ [(w, sz)]) @ (0, ?y) # ys) = span (xs @ (w, z) # ys)" by simp
  moreover have "same_on ?A m ?c" using cut(2) by (intro same_on_block [OF ft]) auto
  moreover have "same_on (allocated p (xs @ [(w, sz)]) \<union> allocated (nxtMCBsize ?a z) ys) ?c m'"
    using m' by (intro same_on_block [where p = p and xs = "xs @ [(w, sz)]" and w = 0 and z = ?R and ys = "after_run ys"])
      (auto simp: arena_def)
  then have "same_on ?A ?c m'" by (auto simp: same_on_def allocated_append)
  ultimately show ?thesis
    using m2 m' by (intro conjI exI [of _ "(0, ?R) # after_run ys"])
      (auto simp: allocated_Cons intro: same_on_trans)
qed

lemma DosMemChange_becomes:
  assumes ar: "arena (mem s) p (xs @ (w, z) # ys)" and a: "para - 1 = limit p xs"
    and R_def: "R = (if z < sz then run_size z ys else z)"
  shows "\<exists>rc ms' m' bs'. DosMemChange para sz ms s = (rc, ms', s\<lparr>mem := m'\<rparr>) \<and>
    (if sz \<le> R then rc = SUCCESS \<and> ms' = ms \<and>
        becomes (mem s) p (xs @ (w, z) # ys) (para - 1) (cu_psp s) sz m' bs'
     else rc = DE_NOMEM \<and> ms' = map_option (\<lambda>_. R) ms \<and>
        becomes (mem s) p (xs @ (w, z) # ys) (para - 1) w R m' bs')"
proof -
  let ?a = "limit p xs" and ?A = "allocated p xs \<union> allocated (nxtMCBsize (limit p xs) z) ys"
  have ft: "fits p (xs @ (w, z) # ys)" using ar by (simp add: arena_def)
  obtain m1 ys1 where m1: "(if m_size (mem s ?a) < sz then joinMCBs ?a (mem s) else (SUCCESS, mem s)) = (SUCCESS, m1)"
      and ar1: "arena m1 p (xs @ (w, R) # ys1)" and sp1: "span (xs @ (w, R) # ys1) = span (xs @ (w, z) # ys)"
      and al1: "allocated (nxtMCBsize ?a R) ys1 = allocated (nxtMCBsize ?a z) ys"
      and same1: "same_on ?A (mem s) m1"
  proof (cases "z < sz")
    case True
    obtain m1 where j: "joinMCBs ?a (mem s) = (SUCCESS, m1)" "arena m1 p (xs @ (w, R) # after_run ys)"
        "\<And>s'. s' \<notin> paras ?a R \<Longrightarrow> m1 s' = mem s s'"
        "span (xs @ (w, R) # after_run ys) = span (xs @ (w, z) # ys)"
        "allocated (nxtMCBsize ?a R) (after_run ys) = allocated (nxtMCBsize ?a z) ys"
      using joinMCBs_grow [OF ar] True by (auto simp: R_def)
    have "same_on ?A (mem s) m1"
      using j by (intro same_on_block [where p = p and xs = xs and w = w and z = R and ys = "after_run ys"])
        (auto simp: arena_def)
    then show ?thesis using that [of m1 "after_run ys"] j True arena_valid(3) [OF ar] by simp
  next
    case False
    then show ?thesis using that [of "mem s" ys] ar arena_valid(3) [OF ar] by (simp add: R_def same_on_def)
  qed
  have size1: "m_size (m1 ?a) = R" using arena_valid(3) [OF ar1] by simp
  have valid: "mcbValid (mem s ?a)" by (rule arena_valid(1) [OF ar])
  show ?thesis
  proof (cases "sz \<le> R")
    case False
    have "becomes (mem s) p (xs @ (w, z) # ys) ?a w R m1 (xs @ (w, R) # ys1)"
      by (rule becomesI [OF ar ar1 sp1 al1 same1])
    moreover have "DosMemChange para sz ms s = (DE_NOMEM, map_option (\<lambda>_. R) ms, s\<lparr>mem := m1\<rparr>)"
      using False a m1 size1 valid by (simp add: DosMemChange_def Let_def not_le)
    ultimately show ?thesis using False a by auto
  next
    case True
    obtain rc m2 where st: "(rc, m2) = (if sz < m_size (m1 ?a) then
        joinMCBs (nxtMCBsize ?a sz) (cut_block ?a sz m1) else (SUCCESS, m1))" by (metis surj_pair)
    obtain zs where zs: "rc = SUCCESS" "arena m2 p (xs @ (w, sz) # zs)"
        "span (xs @ (w, sz) # zs) = span (xs @ (w, R) # ys1)"
        "allocated (nxtMCBsize ?a sz) zs = allocated (nxtMCBsize ?a R) ys1" "same_on ?A m1 m2"
      using shrink_becomes [OF ar1 True st] al1 by auto
    define m3 where "m3 = m2(?a := (m2 ?a)\<lparr>m_psp := cu_psp s\<rparr>)"
    have m3: "m3 = m2(?a := (m2 ?a)\<lparr>m_psp := cu_psp s, m_name := m_name (m2 ?a)\<rparr>)" by (simp add: m3_def)
    have ar3: "arena m3 p (xs @ (cu_psp s, sz) # zs)" by (rule set_owner(1) [OF zs(2) m3])
    have "same_on ?A m2 m3"
      using zs al1 by (intro same_on_block [where p = p and xs = xs and w = w and z = sz and ys = zs])
        (auto simp: arena_def m3_def paras_def)
    then have "same_on ?A (mem s) m3" using same1 zs(5) same_on_trans by blast
    then have "becomes (mem s) p (xs @ (w, z) # ys) ?a (cu_psp s) sz m3 (xs @ (cu_psp s, sz) # zs)"
      using zs sp1 al1 ar3 by (intro becomesI [OF ar]) auto
    moreover have "DosMemChange para sz ms s = (SUCCESS, ms, s\<lparr>mem := m3\<rparr>)"
      using True a m1 size1 valid st [symmetric] zs(1)
      by (cases "sz < R") (simp_all add: DosMemChange_def Let_def m3_def not_less)
    ultimately show ?thesis using True a by auto
  qed
qed

subsection \<open>Walks over the whole chain\<close>

lemma mem_check_arena: "arena m p bs \<Longrightarrow> mem_check p m = Some SUCCESS"
proof (induction bs arbitrary: p)
  case (Cons b bs)
  show ?case
  proof (cases "bs = []")
    case True
    then show ?thesis using Cons.prems by (subst mem_check.simps) (simp add: arena_def)
  next
    case False
    obtain w z where b: "b = (w, z)" by fastforce
    note n = arena_next [OF Cons.prems [unfolded b] False]
    show ?thesis using Cons.IH [OF n(1)] n(3,4) by (subst mem_check.simps) simp
  qed
qed (simp add: arena_def)

definition free_owned :: "u16 \<Rightarrow> block \<Rightarrow> block" where
  "free_owned ps b = (if fst b = ps then (0, snd b) else b)"

lemma span_free_owned [simp]: "span (map (free_owned ps) bs) = span bs"
  by (induction bs) (auto simp: free_owned_def)

lemma snd_free_owned [simp]: "snd (free_owned ps b) = snd b"
  by (simp add: free_owned_def)

lemma fits_free_owned [simp]: "fits p (map (free_owned ps) bs) = fits p bs"
  by (simp add: fits_def)

lemma allocated_free_owned:
  "allocated p (map (free_owned ps) bs) = {(a, w, z) \<in> allocated p bs. w \<noteq> ps}"
  by (induction bs arbitrary: p) (auto simp: allocated_Cons free_owned_def)

text \<open>
  The walk of \<^verbatim>\<open>FreeProcessMem\<close>: only the MCBs of the process change, and the blocks below \<open>p\<close> and
  the memory between the MCBs stay as they are.
\<close>

lemma free_walk_arena:
  assumes "arena (mem s) p bs"
  shows "\<exists>m'. free_walk ps p s = Some (SUCCESS, s\<lparr>mem := m'\<rparr>) \<and> arena m' p (map (free_owned ps) bs) \<and>
    (\<forall>x. (\<forall>z. (x, ps, z) \<notin> set (addrs p bs)) \<longrightarrow> m' x = mem s x)"
  using assms
proof (induction bs arbitrary: p s)
  case (Cons b bs)
  obtain w z where b: "b = (w, z)" by fastforce
  have ar: "arena (mem s) p ((w, z) # bs)" using Cons.prems b by simp
  have val: "mcbValid (mem s p)" "m_psp (mem s p) = w" "m_size (mem s p) = z" "p \<noteq> 0"
    using arena_valid [of "mem s" p "[]" b bs] Cons.prems b by auto
  define m1 where "m1 = (if w = ps then (mem s)(p := (mem s p)\<lparr>m_psp := 0, m_name := replicate 8 0\<rparr>) else mem s)"
  define s1 where "s1 = s\<lparr>mem := m1\<rparr>"
  have s1: "(if m_psp (mem s p) = ps then snd (DosMemFree p s) else s) = s1"
    using val by (auto simp: s1_def m1_def DosMemFree_def mcbValid_def mcbFreeable_def)
  have ar1: "arena m1 p (free_owned ps b # bs)"
    using set_owner(1) [where m = "mem s" and p = p and xs = "[]" and w = w and z = z and ys = bs and m' = m1 and v = 0 and nm = "replicate 8 0"] ar b
    by (auto simp: m1_def free_owned_def)
  have fr1: "x \<noteq> p \<Longrightarrow> m1 x = mem s x" for x by (simp add: m1_def)
  show ?case
  proof (cases "bs = []")
    case True
    then have "free_walk ps p s = Some (SUCCESS, s1)"
      using val s1 ar1 by (subst free_walk.simps) (simp add: arena_def s1_def)
    moreover have "m1 x = mem s x" if "\<forall>y. (x, ps, y) \<notin> set (addrs p (b # bs))" for x
      using that b by (cases "x = p") (auto simp: m1_def)
    ultimately show ?thesis using ar1 True by (intro exI [of _ m1]) (simp add: s1_def)
  next
    case False
    let ?n = "nxtMCBsize p z"
    obtain v where sz: "free_owned ps b = (v, z)" using snd_free_owned [of ps b] b by (metis prod.collapse snd_conv)
    note n = arena_next [OF ar1 [unfolded sz] False]
    have step: "free_walk ps p s = free_walk ps ?n s1"
      using val s1 n(3,4) by (subst free_walk.simps) (simp add: s1_def)
    have "arena (mem s1) ?n bs" using n(1) by (simp add: s1_def)
    then obtain m' where m': "free_walk ps ?n s1 = Some (SUCCESS, s1\<lparr>mem := m'\<rparr>)"
        "arena m' ?n (map (free_owned ps) bs)"
        "\<forall>x. (\<forall>z. (x, ps, z) \<notin> set (addrs ?n bs)) \<longrightarrow> m' x = mem s1 x"
      using Cons.IH by blast
    have ftn: "fits ?n bs" using n(1) by (simp add: arena_def)
    have below: "m' x = m1 x" if "unat x < unat ?n" for x
      using m'(3) addrs_range [OF ftn, of x] that by (fastforce simp: s1_def)
    have "arena m' p ([free_owned ps b] @ map (free_owned ps) bs)"
      using ar1 m'(2) False below n(2) by (auto simp: arena_def fits_def b free_owned_def)
    moreover have "m' x = mem s x" if "\<forall>y. (x, ps, y) \<notin> set (addrs p (b # bs))" for x
      using m'(3) that fr1 [of x] b by (cases "x = p") (auto simp: s1_def m1_def)
    ultimately show ?thesis using step m'(1) by (auto simp: s1_def)
  qed
qed (simp add: arena_def)

text \<open>The walk of \<^verbatim>\<open>DosUmbLink\<close>: to the last low MCB when upper memory is unlinked, else to its root.\<close>

lemma umb_walk_unlinked:
  assumes "arena m p (xs @ [b])" "root \<notin> fst ` set (addrs p (xs @ [b]))"
  shows "\<exists>q'. umb_walk root p q m = Some (Some (limit p xs, q'))"
  using assms
proof (induction xs arbitrary: p q)
  case Nil
  then show ?case by (subst umb_walk.simps) (simp add: arena_def)
next
  case (Cons c xs)
  obtain w z where c: "c = (w, z)" by fastforce
  note n = arena_next [of m p w z "xs @ [b]"]
  have ar: "arena m p ((w, z) # xs @ [b])" using Cons.prems(1) c by simp
  have val: "mcbValid (m p)" using arena_valid(1) [of m p "[]" "(w, z)" "xs @ [b]"] ar by simp
  obtain q' where "umb_walk root (nxtMCBsize p z) p m = Some (Some (limit (nxtMCBsize p z) xs, q'))"
    using Cons.IH [of "nxtMCBsize p z" p] n(1) [OF ar] Cons.prems(2) c by auto
  then show ?case using val n(3,4) [OF ar] Cons.prems(2) c by (subst umb_walk.simps) auto
qed

lemma umb_walk_linked:
  assumes "arena m p (xs @ b # ys)" "ys \<noteq> []"
  shows "umb_walk (limit p (xs @ [b])) p q m = Some (Some (limit p (xs @ [b]), limit p xs))"
  using assms
proof (induction xs arbitrary: p q)
  case Nil
  obtain w z where b: "b = (w, z)" by fastforce
  have ar: "arena m p ((w, z) # ys)" using Nil b by simp
  note n = arena_next [OF ar Nil(2)]
  have val: "mcbValid (m p)" using arena_valid(1) [of m p "[]" "(w, z)" ys] ar by simp
  have "umb_walk (nxtMCBsize p z) (nxtMCBsize p z) p m = Some (Some (nxtMCBsize p z, p))"
    by (subst umb_walk.simps) simp
  then show ?case using val n b by (subst umb_walk.simps) auto
next
  case (Cons c xs)
  obtain w z where c: "c = (w, z)" by fastforce
  have ar: "arena m p ((w, z) # xs @ b # ys)" using Cons.prems(1) c by simp
  have ne: "xs @ b # ys \<noteq> []" by simp
  note n = arena_next [OF ar ne]
  have val: "mcbValid (m p)" using arena_valid(1) [of m p "[]" "(w, z)" "xs @ b # ys"] ar by simp
  have "fits p (((w, z) # xs @ [b]) @ ys)" using ar by (simp add: arena_def)
  then have "unat p < unat (limit p ((w, z) # xs @ [b]))"
    using unat_limit(1) [of p "(w, z) # xs @ [b]" ys] Cons.prems(2) by simp
  then have "p \<noteq> limit p ((c # xs) @ [b])" using c by auto
  then show ?case using Cons.IH [OF n(1) Cons.prems(2), of p] val n(3,4) c
    by (subst umb_walk.simps) simp
qed

subsection \<open>Which block an allocation takes\<close>

lemma take_block_address:
  "fst (take_block sz mode psp q m) =
     (if mode \<noteq> LARGEST \<and> sz \<noteq> m_size (m q) \<and> is_last_fit mode
      then nxtMCBsize q (m_size (m q) - sz - 1) else q)"
  by (auto simp: take_block_def split_block_def Let_def nxtMCB_def algebra_simps)

lemma last_free_list:
  assumes "filter (\<lambda>c. sz \<le> snd c) (free_list p bs) \<noteq> []"
  obtains xs z ys where "bs = xs @ (0, z) # ys" "sz \<le> z"
    "last (filter (\<lambda>c. sz \<le> snd c) (free_list p bs)) = (limit p xs, z)"
    "\<forall>c \<in> set ys. fst c = 0 \<longrightarrow> snd c < sz"
  using assms
proof (induction bs arbitrary: p thesis)
  case (Cons b bs)
  let ?F = "\<lambda>p bs. filter (\<lambda>c. sz \<le> snd c) (free_list p bs)"
  show ?case
  proof (cases "?F (nxtMCBsize p (snd b)) bs = []")
    case True
    then have "\<forall>c \<in> set (free_list (nxtMCBsize p (snd b)) bs). snd c < sz"
      by (auto simp: filter_empty_conv not_le)
    then have "\<forall>c \<in> set bs. fst c = 0 \<longrightarrow> snd c < sz" by (simp add: free_list_sizes [where P = "\<lambda>z. z < sz"])
    moreover have "fst b = 0" "sz \<le> snd b" using Cons.prems(2) True by (auto split: if_splits)
    ultimately show ?thesis using Cons.prems(1) [of "[]" "snd b" bs] True by (cases b) simp
  next
    case False
    then obtain xs z ys where "bs = xs @ (0, z) # ys" "sz \<le> z"
        "last (?F (nxtMCBsize p (snd b)) bs) = (limit (nxtMCBsize p (snd b)) xs, z)"
        "\<forall>c \<in> set ys. fst c = 0 \<longrightarrow> snd c < sz"
      using Cons.IH by blast
    then show ?thesis using Cons.prems(1) [of "b # xs" z ys] False by simp
  qed
qed simp

text \<open>The block chosen from the coalesced arena, by the mode's rule.\<close>

definition chosen :: "u16 \<Rightarrow> u16 \<Rightarrow> block list \<Rightarrow> block list \<Rightarrow> u16 \<Rightarrow> block list \<Rightarrow> bool" where
  "chosen sz mode bs xs z ys \<longleftrightarrow>
     bs = xs @ (0, z) # ys \<and> sz \<le> z \<and>
     (is_first_fit mode \<longrightarrow> (\<forall>c \<in> set xs. fst c = 0 \<longrightarrow> snd c < sz)) \<and>
     (is_best_fit mode \<longrightarrow> (\<forall>c \<in> set bs. fst c = 0 \<and> sz \<le> snd c \<longrightarrow> z \<le> snd c)) \<and>
     (is_last_fit mode \<longrightarrow> (\<forall>c \<in> set ys. fst c = 0 \<longrightarrow> snd c < sz))"

lemma is_fit_disjoint:
  "is_best_fit mode \<Longrightarrow> \<not> is_first_fit mode" "is_last_fit mode \<Longrightarrow> \<not> is_first_fit mode"
  "is_last_fit mode \<Longrightarrow> \<not> is_best_fit mode"
  by (auto simp: is_first_fit_def is_best_fit_def is_last_fit_def)

lemma pick_chosen:
  assumes ft: "fits p bs" and "\<not> is_first_fit mode" "mode \<noteq> LARGEST"
    and nz: "fst (foldl (pick_step mode sz) (0, 0) (free_list p bs)) \<noteq> 0"
  obtains xs z ys where "chosen sz mode bs xs z ys"
    "foldl (pick_step mode sz) (0, 0) (free_list p bs) = (limit p xs, z)"
proof -
  let ?L = "free_list p bs" and ?F = "foldl (pick_step mode sz) (0, 0) (free_list p bs)"
  have L: "\<forall>c \<in> set ?L. fst c \<noteq> 0" using free_list_nonzero [OF ft] by blast
  note F = foldl_pick(1) [OF L assms(3) nz]
  show ?thesis
  proof (cases "is_best_fit mode")
    case True
    obtain xs ys where xy: "bs = xs @ (0, snd ?F) # ys" "fst ?F = limit p xs"
      using free_list_mem [of "fst ?F" "snd ?F" p bs] F by auto
    have "\<forall>c \<in> set ?L. sz \<le> snd c \<longrightarrow> snd ?F \<le> snd c"
      using foldl_pick_best [OF L True, of sz "(0, 0)"] by blast
    then have "\<forall>c \<in> set bs. fst c = 0 \<longrightarrow> sz \<le> snd c \<longrightarrow> snd ?F \<le> snd c"
      by (simp add: free_list_sizes [where P = "\<lambda>z. sz \<le> z \<longrightarrow> snd ?F \<le> z"])
    then have "chosen sz mode bs xs (snd ?F) ys"
      using xy F assms(2) is_fit_disjoint(3) [of mode] True by (auto simp: chosen_def)
    then show ?thesis using that xy(2) by (metis prod.collapse)
  next
    case False
    have last: "?F = last ((0, 0) # filter (\<lambda>c. sz \<le> snd c) ?L)" by (rule foldl_pick_last [OF False assms(3)])
    have ne: "filter (\<lambda>c. sz \<le> snd c) ?L \<noteq> []" using F by (auto simp: filter_empty_conv)
    show ?thesis
      by (rule last_free_list [OF ne]) (use last ne False assms(2) in \<open>auto intro!: that simp: chosen_def\<close>)
  qed
qed

lemma biggest_free:
  assumes ft: "fits p bs"
  shows "(\<forall>c \<in> set bs. fst c = 0 \<longrightarrow> snd c \<le> snd (foldl big_step (0, 0) (free_list p bs))) \<and>
    (fst (foldl big_step (0, 0) (free_list p bs)) = 0 \<longrightarrow> (\<forall>c \<in> set bs. fst c \<noteq> 0)) \<and>
    (fst (foldl big_step (0, 0) (free_list p bs)) \<noteq> 0 \<longrightarrow>
       found_at bs p (fst (foldl big_step (0, 0) (free_list p bs))) (snd (foldl big_step (0, 0) (free_list p bs))))"
proof -
  let ?L = "free_list p bs"
  let ?B = "foldl big_step (0, 0) ?L"
  have L: "\<forall>c \<in> set ?L. fst c \<noteq> 0" using free_list_nonzero [OF ft] by blast
  note big = foldl_big_step [OF L, of "(0, 0)"]
  have "\<forall>c \<in> set bs. fst c = 0 \<longrightarrow> snd c \<le> snd ?B"
    using big free_list_sizes [of p bs "\<lambda>z. z \<le> snd ?B"] by blast
  moreover have "fst ?B = 0 \<longrightarrow> (\<forall>c \<in> set bs. fst c \<noteq> 0)"
    using big free_list_sizes [of p bs "\<lambda>_. False"] by fastforce
  moreover have "fst ?B \<noteq> 0 \<longrightarrow> found_at bs p (fst ?B) (snd ?B)"
    using big free_list_found_at [of "fst ?B" "snd ?B" p bs] by auto
  ultimately show ?thesis by blast
qed

end
