(* ===== verification/FatFile.thy ===== *)
theory FatFile
  imports DirEntry MemMgr
begin

text \<open>
  Files as chains of clusters, from \<^verbatim>\<open>kernel/fatfs.c\<close>: freeing a chain, finding a free cluster, growing
  a chain, finding the cluster of a file position, growing and shrinking a file, reading and
  writing, and counting free space. A function of the code that gets an \<^verbatim>\<open>f_node_ptr\<close> gets the index
  of the node here. Loops over a chain need not end on a damaged volume; they are partial
  functions, and where they end is proved. A negative index and a node that names no open entry of
  the system file table give no result where the code would use the pointer -1.
\<close>

abbreviation (input) DE_SEEK :: int where "DE_SEEK \<equiv> -25"
abbreviation (input) DE_HNDLDSKFULL :: int where "DE_HNDLDSKFULL \<equiv> -28"
abbreviation (input) O_ACCMODE :: u16 where "O_ACCMODE \<equiv> 3"
abbreviation (input) RDONLY :: u16 where "RDONLY \<equiv> 0"

section \<open>Chains\<close>

definition hint_freed :: "u32 \<Rightarrow> dpb \<Rightarrow> dpb" where
  "hint_freed st d =
     (if ISFAT32 d then
        if dpb_xcluster d = UNKNCLUSTER \<or> dpb_xcluster d > st then d\<lparr>dpb_xcluster := st\<rparr> else d
      else if dpb_cluster d = 0 \<or> dpb_cluster d > ucast st then d\<lparr>dpb_cluster := ucast st\<rparr> else d)"

partial_function (option) wipe_out_clusters ::
  "'w platform \<Rightarrow> u32 \<Rightarrow> u32 \<Rightarrow> ('w, 'a) kst_scheme \<Rightarrow> ('w, 'a) kst_scheme option" where
  "wipe_out_clusters P dpbp st s =
     (if st = LONG_LAST_CLUSTER then
        if ISFAT32 (dpbs s dpbp) then write_fsinfo P dpbp s else Some s
      else do {
        (nxt, s1) \<leftarrow> next_cluster P dpbp st s;
        if nxt \<le> 1 then Some s1
        else do {
          (r, s2) \<leftarrow> link_fat P dpbp st FREE s1;
          if r \<noteq> 0 then Some s2
          else wipe_out_clusters P dpbp nxt (upd_dpb dpbp (hint_freed st) s2)
        }
      })"

definition wipe_out :: "'w platform \<Rightarrow> nat \<Rightarrow> ('w, 'a) dos_scheme \<Rightarrow> ('w, 'a) dos_scheme option" where
  "wipe_out P fnp s =
     (let cluster = getdstart (fdpb fnp s) (f_dir (fn fnp s)) in
      if cluster \<noteq> FREE then wipe_out_clusters P (f_dpb (fn fnp s)) cluster s else Some s)"

text \<open>The search for a free cluster: the new hint and the cluster found.\<close>

partial_function (option) free_search ::
  "'w platform \<Rightarrow> u32 \<Rightarrow> u32 \<Rightarrow> u32 \<Rightarrow> u32 \<Rightarrow> ('w, 'a) kst_scheme \<Rightarrow> (u32 \<times> u32 \<times> ('w, 'a) kst_scheme) option" where
  "free_search P dpbp siz cluster idx s =
     do {
       (free, s1) \<leftarrow> is_free_cluster P dpbp idx s;
       if free then Some (idx, idx, s1)
       else
         let idx1 = (if idx + 1 > siz then 2 else idx + 1) in
         if idx1 = cluster then Some (UNKNCLUSTER, LONG_LAST_CLUSTER, s1)
         else free_search P dpbp siz cluster idx1 s1
     }"

definition free_start :: "dpb \<Rightarrow> u32" where
  "free_start d =
     (if ISFAT32 d then if dpb_xcluster d \<noteq> UNKNCLUSTER then dpb_xcluster d else 2
      else if dpb_cluster d \<noteq> 0 then ucast (dpb_cluster d) else 2)"

definition find_fat_free :: "'w platform \<Rightarrow> u32 \<Rightarrow> ('w, 'a) kst_scheme \<Rightarrow> (u32 \<times> ('w, 'a) kst_scheme) option" where
  "find_fat_free P dpbp s =
     (let d = dpbs s dpbp; idx = free_start d in
      do {
        (cluster, idx1, s1) \<leftarrow> free_search P dpbp (max_cluster d) idx idx s;
        if ISFAT32 (dpbs s1 dpbp) then do {
          s2 \<leftarrow> write_fsinfo P dpbp (upd_dpb dpbp (\<lambda>d. d\<lparr>dpb_xcluster := cluster\<rparr>) s1);
          Some (idx1, s2)
        }
        else Some (idx1, upd_dpb dpbp (\<lambda>d. d\<lparr>dpb_cluster := ucast cluster\<rparr>) s1)
      })"

text \<open>The message that \<^verbatim>\<open>extend\<close> prints when the chain does not end where it should is left out.\<close>

definition extend :: "'w platform \<Rightarrow> nat \<Rightarrow> ('w, 'a) dos_scheme \<Rightarrow> (u32 \<times> ('w, 'a) dos_scheme) option" where
  "extend P fnp s =
     (let dpbp = f_dpb (fn fnp s) in
      do {
        (free_fat, s1) \<leftarrow> find_fat_free P dpbp s;
        if free_fat = LONG_LAST_CLUSTER then Some (free_fat, s1)
        else do {
          (r, s2) \<leftarrow> link_fat P dpbp free_fat LONG_LAST_CLUSTER s1;
          if r \<noteq> 0 then Some (LONG_LAST_CLUSTER, s2)
          else if f_cluster (fn fnp s2) = FREE then
            Some (free_fat, upd_fn fnp (\<lambda>n. n\<lparr>f_dir := setdstart (dpbs s2 dpbp) free_fat (f_dir n)\<rparr>) s2)
          else do {
            (nxt, s3) \<leftarrow> next_cluster P dpbp (f_cluster (fn fnp s2)) s2;
            if nxt \<noteq> LONG_LAST_CLUSTER then Some (LONG_LAST_CLUSTER, s3)
            else do {
              (r, s4) \<leftarrow> link_fat P dpbp (f_cluster (fn fnp s3)) free_fat s3;
              if r \<noteq> 0 then Some (LONG_LAST_CLUSTER, s4) else Some (free_fat, s4)
            }
          }
        }
      })"

partial_function (option) map_loop ::
  "'w platform \<Rightarrow> nat \<Rightarrow> int \<Rightarrow> u32 \<Rightarrow> ('w, 'a) dos_scheme \<Rightarrow> (int \<times> ('w, 'a) dos_scheme) option" where
  "map_loop P fnp mode relcluster s =
     (if f_cluster_offset (fn fnp s) = relcluster then Some (SUCCESS, s)
      else do {
        (cluster, s1) \<leftarrow> next_cluster P (f_dpb (fn fnp s)) (f_cluster (fn fnp s)) s;
        if cluster \<le> 1 then Some (DE_SEEK, s1)
        else if cluster = LONG_LAST_CLUSTER \<and> mode = XFR_READ then Some (DE_SEEK, s1)
        else do {
          (cluster, s2) \<leftarrow> (if cluster = LONG_LAST_CLUSTER then extend P fnp s1 else Some (cluster, s1));
          if cluster = LONG_LAST_CLUSTER then Some (DE_HNDLDSKFULL, s2)
          else map_loop P fnp mode relcluster
            (upd_fn fnp (\<lambda>n. n\<lparr>f_cluster := cluster, f_cluster_offset := f_cluster_offset n + 1\<rparr>) s2)
        }
      })"

definition rel_cluster :: "f_node \<Rightarrow> dpb \<Rightarrow> u32" where
  "rel_cluster n d = drop_bit (unat (dpb_shftcnt d)) (f_offset n div ucast (dpb_secsize d))"

definition map_start :: "nat \<Rightarrow> u32 \<Rightarrow> ('w, 'a) dos_scheme \<Rightarrow> ('w, 'a) dos_scheme" where
  "map_start fnp relcluster s =
     (if relcluster < f_cluster_offset (fn fnp s) then
        upd_fn fnp (\<lambda>n. n\<lparr>f_cluster := (if f_sft_idx n = 0xff then dm_dircluster (dm fnp s) else getdstart (fdpb fnp s) (f_dir n)),
                          f_cluster_offset := 0\<rparr>) s
      else s)"

definition map_cluster :: "'w platform \<Rightarrow> nat \<Rightarrow> int \<Rightarrow> ('w, 'a) dos_scheme \<Rightarrow> (int \<times> ('w, 'a) dos_scheme) option" where
  "map_cluster P fnp mode s =
     (if f_cluster (fn fnp s) = FREE \<and> mode = XFR_READ then Some (DE_SEEK, s)
      else do {
        (r, s1) \<leftarrow>
          (if f_cluster (fn fnp s) = FREE then do {
             (cluster, s1) \<leftarrow> extend P fnp s;
             Some (if cluster = LONG_LAST_CLUSTER then (DE_HNDLDSKFULL, s1)
                   else (SUCCESS, upd_fn fnp (\<lambda>n. n\<lparr>f_cluster := cluster\<rparr>) s1))
           } else Some (SUCCESS, s));
        if r \<noteq> SUCCESS then Some (r, s1)
        else
          let relcluster = rel_cluster (fn fnp s1) (fdpb fnp s1)
          in map_loop P fnp mode relcluster (map_start fnp relcluster s1)
      })"

section \<open>Nodes and the system file table\<close>

definition sft_to_fnode :: "int \<Rightarrow> ('w, 'a) dos_scheme \<Rightarrow> ('w, 'a) dos_scheme option" where
  "sft_to_fnode fd s =
     (let (p, s1) = idx_to_sft fd s in
      do {
        p \<leftarrow> p;
        let sf = sft_at p s1;
        Some (upd_fn 0 (\<lambda>n. n\<lparr>
          f_sft_idx := word_of_int fd, f_flags := sft_flags sf,
          f_dir := setdstart (dpbs s1 (sft_dcb sf)) (sft_stclust sf)
            ((f_dir n)\<lparr>dir_attrib := sft_attrib sf, dir_name := take 11 (sft_name sf), dir_time := sft_time sf,
                       dir_date := sft_date sf, dir_size := sft_size sf\<rparr>),
          f_dpb := sft_dcb sf, f_diridx := sft_diridx sf, f_dirsector := sft_dirsector sf, f_offset := sft_posit sf,
          f_cluster := sft_cuclust sf,
          f_cluster_offset := ucast (sft_relclust sf) OR push_bit 16 (ucast (sft_relclust_high sf))\<rparr>) s1)
      })"

definition fnode_to_sft :: "nat \<Rightarrow> ('w, 'a) dos_scheme \<Rightarrow> ('w, 'a) dos_scheme option" where
  "fnode_to_sft fnp s =
     (let n = fn fnp s; (p, s1) = idx_to_sft (uint (f_sft_idx n)) s in
      do {
        p \<leftarrow> p;
        Some (upd_sft p (\<lambda>sf. sf\<lparr>
          sft_flags := f_flags n, sft_attrib := dir_attrib (f_dir n), sft_name := take 11 (dir_name (f_dir n)),
          sft_time := dir_time (f_dir n), sft_date := dir_date (f_dir n), sft_size := dir_size (f_dir n),
          sft_stclust := getdstart (dpbs s1 (f_dpb n)) (f_dir n), sft_diridx := f_diridx n, sft_dirsector := f_dirsector n,
          sft_dcb := f_dpb n, sft_posit := f_offset n, sft_cuclust := f_cluster n,
          sft_relclust := ucast (f_cluster_offset n), sft_relclust_high := ucast (drop_bit 16 (f_cluster_offset n))\<rparr>) s1)
      })"

text \<open>
  \<^verbatim>\<open>merge_file_changes\<close> with \<^verbatim>\<open>collect\<close> false or true; with -1 it closes files and is modelled
  with \<^verbatim>\<open>dos_setfattr\<close>, its only caller. \<^verbatim>\<open>i\<close> counts the entries of all tables.
\<close>

definition same_file :: "f_node \<Rightarrow> int \<Rightarrow> sft \<Rightarrow> bool" where
  "same_file n i sf \<longleftrightarrow>
     i \<noteq> uint (f_sft_idx n) \<and> sft_count sf \<noteq> 0 \<and> f_dpb n = sft_dcb sf \<and>
     dir_attrib (f_dir n) AND D_VOLID = 0 \<and> sft_attrib sf AND D_VOLID = 0 \<and>
     f_diridx n = sft_diridx sf \<and> f_dirsector n = sft_dirsector sf"

definition give_changes :: "dpb \<Rightarrow> f_node \<Rightarrow> int \<Rightarrow> sft \<Rightarrow> sft" where
  "give_changes d n i sf =
     (if same_file n i sf then
        sf\<lparr>sft_stclust := getdstart d (f_dir n), sft_size := dir_size (f_dir n), sft_date := dir_date (f_dir n),
           sft_time := dir_time (f_dir n)\<rparr>
      else sf)"

fun give_table :: "dpb \<Rightarrow> f_node \<Rightarrow> int \<Rightarrow> sft list \<Rightarrow> sft list" where
  "give_table d n i [] = []"
| "give_table d n i (sf # sfs) = give_changes d n i sf # give_table d n (i + 1) sfs"

fun give_tables :: "dpb \<Rightarrow> f_node \<Rightarrow> int \<Rightarrow> sft list list \<Rightarrow> sft list list" where
  "give_tables d n i [] = []"
| "give_tables d n i (t # ts) = give_table d n i t # give_tables d n (i + int (length t)) ts"

fun first_writer :: "f_node \<Rightarrow> int \<Rightarrow> sft list \<Rightarrow> sft option" where
  "first_writer n i [] = None"
| "first_writer n i (sf # sfs) =
     (if same_file n i sf \<and> sft_mode sf AND O_ACCMODE \<noteq> RDONLY then Some sf else first_writer n (i + 1) sfs)"

definition merge_file_changes :: "nat \<Rightarrow> bool \<Rightarrow> ('w, 'a) dos_scheme \<Rightarrow> ('w, 'a) dos_scheme" where
  "merge_file_changes fnp collect s =
     (if \<not> share_installed s then s
      else if collect then
        case first_writer (fn fnp s) 0 (concat (sfthead s)) of
          None \<Rightarrow> s
        | Some sf \<Rightarrow> upd_fn fnp (\<lambda>n. n\<lparr>f_dir := (setdstart (fdpb fnp s) (sft_stclust sf) (f_dir n))
            \<lparr>dir_size := sft_size sf, dir_date := sft_date sf, dir_time := sft_time sf\<rparr>\<rparr>) s
      else s\<lparr>sfthead := give_tables (fdpb fnp s) (fn fnp s) 0 (sfthead s)\<rparr>)"

section \<open>The size of a file\<close>

definition clus_bytes_mask :: "dpb \<Rightarrow> u32" where
  "clus_bytes_mask d = push_bit (unat (dpb_shftcnt d)) (ucast (dpb_secsize d)) - 1"

definition dos_extend :: "'w platform \<Rightarrow> nat \<Rightarrow> bool \<Rightarrow> ('w, 'a) dos_scheme \<Rightarrow> (int \<times> ('w, 'a) dos_scheme) option" where
  "dos_extend P fnp emptywrite s =
     (if f_offset (fn fnp s) \<le> dir_size (f_dir (fn fnp s)) then Some (SUCCESS, s)
      else
        let special = (emptywrite \<and> f_offset (fn fnp s) AND clus_bytes_mask (fdpb fnp s) = 0);
            restore = (\<lambda>s. if special then upd_fn fnp (\<lambda>n. n\<lparr>f_offset := f_offset n + 1\<rparr>) s else s);
            s0 = (if special then upd_fn fnp (\<lambda>n. n\<lparr>f_offset := f_offset n - 1\<rparr>) s else s)
        in do {
          (r, s1) \<leftarrow> map_cluster P fnp XFR_WRITE s0;
          let s2 = restore s1;
          if r \<noteq> SUCCESS then
            Some (DE_HNDLDSKFULL,
              if f_cluster (fn fnp s2) \<noteq> FREE then
                let d = fdpb fnp s2 in
                merge_file_changes fnp False (upd_fn fnp (\<lambda>n. n\<lparr>f_dir := (f_dir n)
                  \<lparr>dir_size := push_bit (unat (dpb_shftcnt d)) ((f_cluster_offset n + 1) * ucast (dpb_secsize d))\<rparr>\<rparr>) s2)
              else s2)
          else
            Some (SUCCESS, merge_file_changes fnp False (upd_fn fnp (\<lambda>n. n\<lparr>f_dir := (f_dir n)\<lparr>dir_size := f_offset n\<rparr>\<rparr>) s2))
        })"

definition shrink_body :: "'w platform \<Rightarrow> nat \<Rightarrow> ('w, 'a) dos_scheme \<Rightarrow> (int \<times> ('w, 'a) dos_scheme) option" where
  "shrink_body P fnp s =
     (let dpbp = f_dpb (fn fnp s) in
      do {
        (r, s1) \<leftarrow> map_cluster P fnp XFR_READ s;
        if r \<noteq> SUCCESS then Some (DE_ACCESS, s1)
        else do {
          let st = f_cluster (fn fnp s1);
          (nxt, s2) \<leftarrow> next_cluster P dpbp st s1;
          if nxt \<le> 1 then Some (DE_ACCESS, s2)
          else if dir_size (f_dir (fn fnp s2)) \<noteq> 0 \<and> nxt = LONG_LAST_CLUSTER then Some (SUCCESS, s2)
          else do {
            let s3 = (if dir_size (f_dir (fn fnp s2)) = 0
              then upd_fn fnp (\<lambda>n. n\<lparr>f_cluster := FREE, f_dir := setdstart (dpbs s2 dpbp) FREE (f_dir n)\<rparr>) s2 else s2);
            (r, s4) \<leftarrow> link_fat P dpbp st (if dir_size (f_dir (fn fnp s2)) = 0 then FREE else LONG_LAST_CLUSTER) s3;
            if r \<noteq> 0 then Some (DE_ACCESS, s4)
            else do {
              s5 \<leftarrow> wipe_out_clusters P dpbp nxt s4;
              (ok, s6) \<leftarrow> flush_buffers P (scast (dpb_unit (fdpb fnp s5))) s5;
              Some (if ok then SUCCESS else DE_ACCESS, s6)
            }
          }
        }
      })"

definition shrink_file :: "'w platform \<Rightarrow> nat \<Rightarrow> ('w, 'a) dos_scheme \<Rightarrow> (int \<times> ('w, 'a) dos_scheme) option" where
  "shrink_file P fnp s =
     (let lastoffset = f_offset (fn fnp s);
          fin = (\<lambda>s. upd_fn fnp (\<lambda>n. n\<lparr>f_offset := lastoffset\<rparr>) s)
      in if lastoffset = 0 \<and> f_cluster (fn fnp s) = FREE then Some (SUCCESS, fin s)
         else do {
           (r, s1) \<leftarrow> shrink_body P fnp
             (if lastoffset \<noteq> 0 then upd_fn fnp (\<lambda>n. n\<lparr>f_offset := f_offset n - 1\<rparr>) s else s);
           Some (r, fin s1)
         })"

section \<open>Reading and writing\<close>

text \<open>
  The user's buffer is the bytes \<^verbatim>\<open>buf\<close> behind the far pointer that \<^verbatim>\<open>rwblock\<close> gets; \<^verbatim>\<open>ret_cnt\<close> bytes of it
  are done. The pointer itself matters to \<^verbatim>\<open>dskxfer\<close>, which looks at its segment.
\<close>

definition rest :: "u16 \<Rightarrow> bytes \<Rightarrow> bytes" where
  "rest n buf = (\<lambda>k. buf (unat n + k))"

definition put_rest :: "u16 \<Rightarrow> bytes \<Rightarrow> bytes \<Rightarrow> bytes" where
  "put_rest n new buf = (\<lambda>k. if unat n \<le> k then new (k - unat n) else buf k)"

text \<open>The loop that collects consecutive clusters of a file into one transfer.\<close>

partial_function (option) run_loop ::
  "'w platform \<Rightarrow> nat \<Rightarrow> int \<Rightarrow> u32 \<Rightarrow> u32 \<Rightarrow> u16 \<Rightarrow> u16 \<Rightarrow> ('w, 'a) dos_scheme \<Rightarrow> (u16 \<times> ('w, 'a) dos_scheme) option" where
  "run_loop P fnp mode currentblock startoffset sectors_wanted sectors_to_xfer s =
     (if sectors_to_xfer < sectors_wanted then do {
        (r, s1) \<leftarrow> map_cluster P fnp mode s;
        if r \<noteq> SUCCESS \<or> clus2phys (f_cluster (fn fnp s1)) (fdpb fnp s1) \<noteq> currentblock + ucast sectors_to_xfer
        then Some (sectors_to_xfer, s1)
        else
          let n = min (sectors_to_xfer + (ucast (dpb_clsmask (fdpb fnp s1)) + 1)) sectors_wanted
          in run_loop P fnp mode currentblock startoffset sectors_wanted n
            (upd_fn fnp (\<lambda>f. f\<lparr>f_offset := startoffset + ucast (n * dpb_secsize (fdpb fnp s1))\<rparr>) s1)
      } else Some (sectors_to_xfer, s))"

definition file_sector :: "f_node \<Rightarrow> dpb \<Rightarrow> u16" where
  "file_sector n d = ucast ((ucast (f_offset n div ucast (dpb_secsize d)) :: u8) AND dpb_clsmask d)"

definition sectors_wanted :: "int \<Rightarrow> u16 \<Rightarrow> f_node \<Rightarrow> dpb \<Rightarrow> u16" where
  "sectors_wanted mode to_xfer n d =
     (let left = dir_size (f_dir n) - f_offset n
      in (if mode = XFR_READ \<and> ucast to_xfer > left then ucast left else to_xfer) div dpb_secsize d)"

text \<open>Whole sectors go past the cache. The result is the status of the transfer and its size.\<close>

definition direct_xfer ::
  "'w platform \<Rightarrow> nat \<Rightarrow> int \<Rightarrow> u32 \<Rightarrow> u16 \<Rightarrow> u16 \<Rightarrow> bytes \<Rightarrow> ('w, 'a) dos_scheme \<Rightarrow> (bool \<times> u16 \<times> bytes \<times> ('w, 'a) dos_scheme) option" where
  "direct_xfer P fnp mode currentblock wanted sg buf s =
     (let d = fdpb fnp s; startoffset = f_offset (fn fnp s);
          n0 = min (ucast (dpb_clsmask d) + 1 - file_sector (fn fnp s) d) wanted;
          s1 = upd_fn fnp (\<lambda>f. f\<lparr>f_offset := f_offset f + ucast (n0 * dpb_secsize d)\<rparr>) s
      in do {
        (n, s2) \<leftarrow> run_loop P fnp mode currentblock startoffset wanted n0 s1;
        let u = scast (dpb_unit (fdpb fnp s2));
        (_, s3) \<leftarrow> DeleteBlockInBufferCache P currentblock (currentblock + ucast n - 1) u mode s2;
        (st, buf', s4) \<leftarrow> dskxfer P u currentblock sg buf n (if mode = XFR_READ then DSKREAD else DSKWRITE) s3;
        Some (if st \<noteq> 0 then (False, 0, buf', upd_fn fnp (\<lambda>f. f\<lparr>f_offset := startoffset\<rparr>) s4)
              else (True, n * dpb_secsize (fdpb fnp s4), buf', s4))
      })"

text \<open>A part of a sector goes through its buffer.\<close>

definition buffer_xfer ::
  "'w platform \<Rightarrow> nat \<Rightarrow> int \<Rightarrow> u32 \<Rightarrow> u16 \<Rightarrow> bytes \<Rightarrow> ('w, 'a) dos_scheme \<Rightarrow> (bool \<times> u16 \<times> bytes \<times> ('w, 'a) dos_scheme) option" where
  "buffer_xfer P fnp mode currentblock to_xfer buf s =
     (let secsize = dpb_secsize (fdpb fnp s); boff = ucast (f_offset (fn fnp s) mod ucast secsize) :: u16 in
      do {
        (q, s1) \<leftarrow> getblock P currentblock (scast (dpb_unit (fdpb fnp s))) s;
        case q of
          None \<Rightarrow> Some (False, 0, buf, s1)
        | Some bp \<Rightarrow>
            let n = fn fnp s1;
                x0 = min to_xfer (secsize - boff);
                xfr_cnt = (if mode = XFR_READ then ucast (min (ucast x0) (dir_size (f_dir n) - f_offset n)) else x0);
                b = unat boff;
                s2 = (if mode = XFR_WRITE then
                        upd_buf bp (\<lambda>bf. bf\<lparr>b_buffer := (\<lambda>k. if b \<le> k \<and> k < b + unat xfr_cnt then buf (k - b) else b_buffer bf k),
                                            b_flag := b_flag bf OR (BFR_DIRTY OR BFR_VALID)\<rparr>) s1
                      else s1);
                buf' = (if mode = XFR_WRITE then buf else (\<lambda>k. if k < unat xfr_cnt then b_buffer (bufs s1 bp) (b + k) else buf k));
                s3 = (if xfr_cnt = 512 \<or> (mode = XFR_READ \<and> f_offset n + ucast xfr_cnt = dir_size (f_dir n))
                      then upd_buf bp (\<lambda>bf. bf\<lparr>b_flag := b_flag bf OR BFR_UNCACHE\<rparr>) s2 else s2)
            in Some (True, xfr_cnt, buf', upd_fn fnp (\<lambda>f. f\<lparr>f_offset := f_offset f + ucast xfr_cnt\<rparr>) s3)
      })"

abbreviation (input) finish_rw :: "nat \<Rightarrow> int \<Rightarrow> bytes \<Rightarrow> ('w, 'a) dos_scheme \<Rightarrow> (int \<times> bytes \<times> ('w, 'a) dos_scheme) option" where
  "finish_rw fnp r buf s \<equiv> map_option (\<lambda>s'. (r, buf, s')) (fnode_to_sft fnp s)"

partial_function (option) rw_loop ::
  "'w platform \<Rightarrow> nat \<Rightarrow> int \<Rightarrow> u16 \<Rightarrow> u16 \<Rightarrow> u16 \<Rightarrow> u16 \<times> u16 \<Rightarrow> bytes \<Rightarrow> ('w, 'a) dos_scheme \<Rightarrow>
   (int \<times> bytes \<times> ('w, 'a) dos_scheme) option" where
  "rw_loop P fnp mode count ret_cnt to_xfer ptr buf s =
     (if \<not> ret_cnt < count then finish_rw fnp (uint ret_cnt) buf s
      else if mode = XFR_READ \<and> f_offset (fn fnp s) \<ge> dir_size (f_dir (fn fnp s)) then finish_rw fnp (uint ret_cnt) buf s
      else do {
        (r, s1) \<leftarrow> map_cluster P fnp mode s;
        if r \<noteq> SUCCESS then finish_rw fnp (uint ret_cnt) buf s1
        else do {
          let s2 = (if mode = XFR_WRITE then merge_file_changes fnp False s1 else s1);
          let n = fn fnp s2;
          let d = fdpb fnp s2;
          let currentblock = clus2phys (f_cluster n) d + ucast (file_sector n d);
          let wanted = sectors_wanted mode to_xfer n d;
          let direct = (f_offset n mod ucast (dpb_secsize d) = 0 \<and> wanted \<noteq> 0);
          (ok, xfr_cnt, new, s3) \<leftarrow>
            (if direct then direct_xfer P fnp mode currentblock wanted (fst ptr) (rest ret_cnt buf) s2
             else buffer_xfer P fnp mode currentblock to_xfer (rest ret_cnt buf) s2);
          let buf' = put_rest ret_cnt new buf;
          if \<not> ok then finish_rw fnp (if direct then DE_ACCESS else uint ret_cnt) buf' s3
          else
            let s4 = (if mode = XFR_WRITE then
                merge_file_changes fnp False
                  (if f_offset (fn fnp s3) > dir_size (f_dir (fn fnp s3))
                   then upd_fn fnp (\<lambda>f. f\<lparr>f_dir := (f_dir f)\<lparr>dir_size := f_offset f\<rparr>\<rparr>) s3 else s3)
                else s3)
            in rw_loop P fnp mode count (ret_cnt + xfr_cnt) (to_xfer - xfr_cnt) (adjust_far (fst ptr, snd ptr + xfr_cnt)) buf' s4
        }
      })"

definition rwblock ::
  "'w platform \<Rightarrow> int \<Rightarrow> u16 \<times> u16 \<Rightarrow> bytes \<Rightarrow> u16 \<Rightarrow> int \<Rightarrow> ('w, 'a) dos_scheme \<Rightarrow> (int \<times> bytes \<times> ('w, 'a) dos_scheme) option" where
  "rwblock P fd ptr buf count mode s =
     do {
       s0 \<leftarrow> sft_to_fnode fd s;
       (r, s1) \<leftarrow>
         (if mode = XFR_WRITE then
            dos_extend P 0 (count = 0) (upd_fn 0 (\<lambda>n. n\<lparr>f_dir := (f_dir n)\<lparr>dir_attrib := dir_attrib (f_dir n) OR D_ARCHIVE\<rparr>,
              f_flags := f_flags n AND NOT (SFT_FCLEAN OR SFT_FDATE)\<rparr>) s0)
          else Some (SUCCESS, s0));
       if r \<noteq> SUCCESS then finish_rw 0 0 buf s1
       else if count = 0 then
         if mode = XFR_WRITE then do {
           (r, s2) \<leftarrow> shrink_file P 0 (upd_fn 0 (\<lambda>n. n\<lparr>f_dir := (f_dir n)\<lparr>dir_size := f_offset n\<rparr>\<rparr>) s1);
           if r < 0 then Some (DE_ACCESS, buf, s2) else finish_rw 0 0 buf s2
         }
         else finish_rw 0 0 buf s1
       else if f_offset (fn 0 s1) + ucast count < f_offset (fn 0 s1) \<and> mode = XFR_WRITE then Some (DE_HNDLDSKFULL, buf, s1)
       else rw_loop P 0 mode count 0 count (adjust_far ptr) buf s1
     }"

section \<open>Free space\<close>

text \<open>The loop of \<^verbatim>\<open>dos_free\<close>: \<^verbatim>\<open>i\<close> runs to the last cluster, and \<^verbatim>\<open>cnt\<close> free ones have been seen.\<close>

partial_function (option) count_loop ::
  "'w platform \<Rightarrow> u32 \<Rightarrow> u32 \<Rightarrow> u32 \<Rightarrow> u32 \<Rightarrow> ('w, 'a) kst_scheme \<Rightarrow> (u32 \<times> ('w, 'a) kst_scheme) option" where
  "count_loop P dpbp max_clus i cnt s =
     (if \<not> i \<le> max_clus then Some (cnt, s)
      else do {
        (free, s1) \<leftarrow> is_free_cluster P dpbp i s;
        let s2 = (if free \<and> cnt = 0 then
            upd_dpb dpbp (\<lambda>d. if ISFAT32 d then d\<lparr>dpb_xcluster := i\<rparr> else d\<lparr>dpb_cluster := ucast i\<rparr>) s1 else s1);
        count_loop P dpbp max_clus (i + 1) (if free then cnt + 1 else cnt) s2
      })"

definition dos_free :: "'w platform \<Rightarrow> u32 \<Rightarrow> ('w, 'a) kst_scheme \<Rightarrow> (u32 \<times> ('w, 'a) kst_scheme) option" where
  "dos_free P dpbp s =
     (let d = dpbs s dpbp in
      if ISFAT32 d \<and> dpb_xnfreeclst d \<noteq> XUNKNCLSTFREE then Some (dpb_xnfreeclst d, s)
      else if \<not> ISFAT32 d \<and> dpb_nfreeclst d \<noteq> UNKNCLSTFREE then Some (ucast (dpb_nfreeclst d), s)
      else do {
        (cnt, s1) \<leftarrow> count_loop P dpbp (max_cluster d) 2 0 s;
        if ISFAT32 (dpbs s1 dpbp) then do {
          s2 \<leftarrow> write_fsinfo P dpbp (upd_dpb dpbp (\<lambda>d. d\<lparr>dpb_xnfreeclst := cnt\<rparr>) s1);
          Some (cnt, s2)
        }
        else Some (cnt, upd_dpb dpbp (set_nfreeclst (ucast cnt)) s1)
      })"

declare wipe_out_clusters.simps [code] free_search.simps [code] map_loop.simps [code] run_loop.simps [code] rw_loop.simps [code]
  count_loop.simps [code]

end
