(* ===== verification/Media.thy ===== *)
theory Media
  imports FatFile
begin

text \<open>
  Mounting and media changes, from \<^verbatim>\<open>kernel/fatfs.c\<close>: building a drive parameter block from the BIOS
  parameter block of a medium, and \<^verbatim>\<open>media_check\<close>. The device driver that answers a media
  request is the parameter \<^verbatim>\<open>E\<close>, \<^verbatim>\<open>execrh\<close> for requests of this form. A sector size below 32 would
  make the code divide by zero.
\<close>

section \<open>From the BPB to the DPB\<close>

function shift_loop :: "u8 \<Rightarrow> nat \<Rightarrow> nat" where
  "shift_loop n k = (if k < 8 \<and> drop_bit k n > 1 then shift_loop n (k + 1) else k)"
  by auto
termination
  by (relation "measure (\<lambda>(n, k). 8 - k)") auto

declare shift_loop.simps [simp del]

definition shift_count :: "u8 \<Rightarrow> nat" where
  "shift_count n = (if n = 0 then 8 else shift_loop n 0)"

definition dpb16to32 :: "dpb \<Rightarrow> dpb" where
  "dpb16to32 d = d\<lparr>dpb_xflags := 0, dpb_xfsinfosec := 0xffff, dpb_xbackupsec := 0xffff, dpb_xrootclst := 0,
     dpb_xdata := ucast (dpb_data d), dpb_xsize := ucast (dpb_size d)\<rparr>"

text \<open>The check that the table is long enough for the clusters: the size of the volume it leaves.\<close>

definition fit_size :: "u16 \<Rightarrow> u16 \<Rightarrow> u16 \<Rightarrow> u16" where
  "fit_size fatsize secsize siz =
     (let tmp = ucast fatsize * ucast (secsize div 2) :: u32; fatsiz = ucast tmp :: u16 in
      if tmp \<ge> 0x10000 then siz
      else if siz > 4085 then
        if fatsiz \<le> 4085 then siz else if siz \<ge> fatsiz then fatsiz - 1 else siz
      else if fatsiz \<ge> 0x4000 then siz
      else
        let f = fatsiz * 4 div 3 in if siz \<ge> f then f - 1 else siz)"

definition bpb_sectors :: "bpb \<Rightarrow> u32" where
  "bpb_sectors b = (if bpb_nsize b = 0 then bpb_huge b else ucast (bpb_nsize b))"

definition dpb_basic :: "bpb \<Rightarrow> dpb \<Rightarrow> dpb" where
  "dpb_basic b d =
     (let shftcnt = shift_count (bpb_nsector b);
          secsize = bpb_nbyte b;
          dirstrt = bpb_nreserved b + ucast (bpb_nfat b) * bpb_nfsect b;
          data = dirstrt + (bpb_ndirent b + secsize div 32 - 1) div (secsize div 32);
          siz = ucast (drop_bit shftcnt (bpb_sectors b - ucast data)) + 1
      in set_nfreeclst UNKNCLSTFREE (d\<lparr>
        dpb_shftcnt := of_nat shftcnt, dpb_mdb := bpb_mdesc b, dpb_secsize := secsize, dpb_clsmask := bpb_nsector b - 1,
        dpb_fatstrt := bpb_nreserved b, dpb_fats := bpb_nfat b, dpb_dirents := bpb_ndirent b, dpb_fatsize := bpb_nfsect b,
        dpb_dirstrt := dirstrt, dpb_data := data, dpb_size := fit_size (bpb_nfsect b) secsize siz,
        dpb_flags := 0, dpb_cluster := 0\<rparr>))"

definition dpb_fat32 :: "bpb \<Rightarrow> dpb \<Rightarrow> dpb" where
  "dpb_fat32 b d =
     (let xdata = ucast (dpb_fatstrt d) + ucast (dpb_fats d) * dpb_xfatsize d
      in d\<lparr>dpb_xflags := bpb_xflags b, dpb_xfsinfosec := bpb_xfsinfosec b, dpb_xbackupsec := bpb_xbackupsec b, dpb_dirents := 0,
           dpb_dirstrt := 0xffff, dpb_size := 0, dpb_xdata := xdata,
           dpb_xsize := drop_bit (shift_count (bpb_nsector b)) (bpb_sectors b - xdata) + 1,
           dpb_xrootclst := bpb_xrootclst b\<rparr>)"

definition bpb_to_dpb :: "'w platform \<Rightarrow> bpb \<Rightarrow> u32 \<Rightarrow> bool \<Rightarrow> ('w, 'a) kst_scheme \<Rightarrow> ('w, 'a) kst_scheme option" where
  "bpb_to_dpb P b dpbp extended s =
     (let d = dpb_basic b (dpbs s dpbp) in
      if \<not> extended then Some (upd_dpb dpbp (\<lambda>_. d) s)
      else
        let d1 = dpb16to32 (d\<lparr>dpb_xfatsize := (if bpb_nfsect b = 0 then bpb_xnfsect b else ucast (bpb_nfsect b)),
                              dpb_xcluster := UNKNCLUSTER, dpb_xnfreeclst := XUNKNCLSTFREE\<rparr>)
        in if ISFAT32 d1 then read_fsinfo P dpbp (upd_dpb dpbp (\<lambda>_. dpb_fat32 b d1) s)
           else Some (upd_dpb dpbp (\<lambda>_. d1) s))"

section \<open>Media requests\<close>

abbreviation (input) DE_INVLDDRV :: int where "DE_INVLDDRV \<equiv> -15"
abbreviation (input) C_MEDIACHK :: u8 where "C_MEDIACHK \<equiv> 1"
abbreviation (input) C_BLDBPB :: u8 where "C_BLDBPB \<equiv> 2"

type_synonym 'w media_driver = "media_request \<Rightarrow> u32 \<Rightarrow> 'w \<Rightarrow> media_request \<times> 'w"

definition media_error :: "'w platform \<Rightarrow> dpb \<Rightarrow> ('w, 'a) dos_scheme \<Rightarrow> int \<times> ('w, 'a) dos_scheme" where
  "media_error P d s =
     (let err = m_status (MediaReqHdr s) AND S_MASK;
          (r, w) = CriticalError P 0x38 (scast (dpb_unit d)) err (dpb_device d) (world s)
      in (r, s\<lparr>CritErrCode := err + 0x13, world := w\<rparr>))"

partial_function (option) ask_media :: "'w platform \<Rightarrow> dpb \<Rightarrow> ('w, 'a) dos_scheme \<Rightarrow> (int \<times> ('w, 'a) dos_scheme) option" where
  "ask_media P d s =
     (let (r, s') = media_error P d s in
      if r = ERR_ABORT \<or> r = ERR_FAIL \<or> r = ERR_RETRY \<or> r = ERR_CONTINUE then Some (r, s') else ask_media P d s')"

partial_function (option) rqblockio ::
  "'w platform \<Rightarrow> 'w media_driver \<Rightarrow> u8 \<Rightarrow> u32 \<Rightarrow> ('w, 'a) dos_scheme \<Rightarrow> (int \<times> ('w, 'a) dos_scheme) option" where
  "rqblockio P E command dpbp s =
     (let d = dpbs s dpbp;
          rq = (MediaReqHdr s)\<lparr>m_length := 30, m_unit := dpb_subunit d, m_command := command, r_mcmdesc := dpb_mdb d, m_status := 0\<rparr>;
          (rq', w) = E rq (dpb_device d) (world s);
          s1 = s\<lparr>MediaReqHdr := rq', world := w\<rparr>
      in if m_status rq' AND S_ERROR \<noteq> 0 \<or> m_status rq' AND S_DONE = 0 then do {
           (r, s2) \<leftarrow> ask_media P d s1;
           if r = ERR_RETRY then rqblockio P E command dpbp s2
           else Some (if r = ERR_CONTINUE then SUCCESS else DE_INVLDDRV, s2)
         } else Some (SUCCESS, s1))"

definition rebuild_dpb ::
  "'w platform \<Rightarrow> 'w media_driver \<Rightarrow> u32 \<Rightarrow> ('w, 'a) dos_scheme \<Rightarrow> (int \<times> ('w, 'a) dos_scheme) option" where
  "rebuild_dpb P E dpbp s =
     do {
       s1 \<leftarrow> setinvld (scast (dpb_unit (dpbs s dpbp))) s;
       (r, s2) \<leftarrow> rqblockio P E C_BLDBPB dpbp s1;
       if r < SUCCESS then Some (r, s2)
       else do {
         let b = r_bpptr (MediaReqHdr s2);
         s3 \<leftarrow> bpb_to_dpb P b dpbp (bpb_nfsect b = 0 \<or> ucast (drop_bit 16 dpbp) = dos_ds s2) s2;
         Some (SUCCESS, s3)
       }
     }"

definition media_check ::
  "'w platform \<Rightarrow> 'w media_driver \<Rightarrow> u32 \<Rightarrow> ('w, 'a) dos_scheme \<Rightarrow> (int \<times> ('w, 'a) dos_scheme) option" where
  "media_check P E dpbp s =
     (if dpbp = 0 then Some (DE_INVLDDRV, s)
      else do {
        (r, s1) \<leftarrow> rqblockio P E C_MEDIACHK dpbp s;
        if r < SUCCESS then Some (r, s1)
        else
          let k = r_mcretcode (MediaReqHdr s1) OR dpb_flags (dpbs s1 dpbp) in
          if k = 1 then Some (SUCCESS, s1)
          else do {
            dirty \<leftarrow> (if k = 0 then dirty_buffers (scast (dpb_unit (dpbs s1 dpbp))) s1 else Some False);
            if dirty then Some (SUCCESS, s1) else rebuild_dpb P E dpbp s1
          }
      })"

declare ask_media.simps [code] rqblockio.simps [code]

end
