(* ===== verification/FatDir.thy ===== *)
theory FatDir
  imports Media
begin

text \<open>
  Directories, \<^verbatim>\<open>kernel/fatdir.c\<close>: reading and writing one entry, walking a path from the root, and the
  searches of \<^verbatim>\<open>dos_findfirst\<close> and \<^verbatim>\<open>dos_findnext\<close>. Paths are fully qualified names such as
  \<^verbatim>\<open>C:\DIR\FILE.EXT\<close>, without the final zero; reading behind their end gives the zero.
\<close>

abbreviation (input) DE_BLKINVLD :: int where "DE_BLKINVLD \<equiv> -20"
abbreviation (input) DE_NFILES :: int where "DE_NFILES \<equiv> -18"

section \<open>One entry\<close>

definition dir_init_fnode :: "nat \<Rightarrow> u32 \<Rightarrow> ('w, 'a) dos_scheme \<Rightarrow> ('w, 'a) dos_scheme" where
  "dir_init_fnode fnp dirstart s =
     (let s1 = upd_fn fnp (\<lambda>n. n\<lparr>f_sft_idx := 0xff, f_dmp := (if fnp = 1 then 1 else 0), f_offset := 0, f_cluster_offset := 0\<rparr>) s;
          start = (if dirstart = 0 \<and> ISFAT32 (fdpb fnp s1) then dpb_xrootclst (fdpb fnp s1) else dirstart);
          s2 = upd_dm fnp (\<lambda>m. m\<lparr>dm_dircluster := start\<rparr>) s1
      in upd_fn fnp (\<lambda>n. n\<lparr>f_cluster := start\<rparr>) s2)"

text \<open>The part of \<^verbatim>\<open>dir_read\<close> that finds the sector of the entry.\<close>

definition dir_sector :: "'w platform \<Rightarrow> nat \<Rightarrow> ('w, 'a) dos_scheme \<Rightarrow> (int \<times> ('w, 'a) dos_scheme) option" where
  "dir_sector P fnp s =
     (let entry = dm_entry (dm fnp s); d = fdpb fnp s in
      if entry \<ge> 65535 then Some (DE_SEEK, s)
      else if dm_dircluster (dm fnp s) = 0 then
        if entry \<ge> dpb_dirents d then Some (DE_SEEK, s)
        else Some (SUCCESS, upd_fn fnp (\<lambda>n. n\<lparr>f_dirsector := ucast (entry div (dpb_secsize d div 32) + dpb_dirstrt d)\<rparr>) s)
      else do {
        (r, s1) \<leftarrow> map_cluster P fnp XFR_READ (upd_fn fnp (\<lambda>n. n\<lparr>f_offset := ucast entry * 32\<rparr>) s);
        if r \<noteq> SUCCESS then Some (DE_SEEK, s1)
        else Some (SUCCESS, upd_fn fnp (\<lambda>n. n\<lparr>f_dirsector := clus2phys (f_cluster n) (fdpb fnp s1) + ucast (file_sector n (fdpb fnp s1))\<rparr>) s1)
      })"

definition dir_read :: "'w platform \<Rightarrow> nat \<Rightarrow> ('w, 'a) dos_scheme \<Rightarrow> (int \<times> ('w, 'a) dos_scheme) option" where
  "dir_read P fnp s =
     do {
       (r, s1) \<leftarrow> dir_sector P fnp s;
       if r \<noteq> SUCCESS then Some (r, s1)
       else do {
         (q, s2) \<leftarrow> getblock P (f_dirsector (fn fnp s1)) (scast (dpb_unit (fdpb fnp s1))) s1;
         case q of
           None \<Rightarrow> Some (DE_BLKINVLD, s2)
         | Some bp \<Rightarrow>
             let s3 = upd_buf bp (\<lambda>b. b\<lparr>b_flag := (b_flag b AND NOT (BFR_DATA OR BFR_FAT)) OR (BFR_DIR OR BFR_VALID)\<rparr>) s2;
                 idx = ucast (dm_entry (dm fnp s) mod (dpb_secsize (fdpb fnp s) div 32)) :: u8;
                 e = getdirent (b_buffer (bufs s3 bp)) (unat idx * 32);
                 e' = e\<lparr>dir_name := swap_deleted (dir_name e)\<rparr>
             in Some (if dir_name e' ! 0 \<noteq> 0 then 1 else 0, upd_fn fnp (\<lambda>n. n\<lparr>f_diridx := idx, f_dir := e'\<rparr>) s3)
       }
     }"

text \<open>The bytes of an entry that \<^verbatim>\<open>dir_write_update\<close> writes; the name is in its form on disk.\<close>

definition put_entry :: "bool \<Rightarrow> dpb \<Rightarrow> dirent \<Rightarrow> bytes \<Rightarrow> nat \<Rightarrow> bytes" where
  "put_entry update d e b i =
     (if update then
        let b1 = (put_name (dir_name e) b i)(i + 11 := dir_attrib e);
            b2 = fputword (fputword (fputword b1 (i + 22) (dir_time e)) (i + 24) (dir_date e)) (i + 26) (dir_start e);
            b3 = (if ISFAT32 d then fputword b2 (i + 20) (dir_start_high e) else b2)
        in fputlong b3 (i + 28) (dir_size e)
      else putdirent e b i)"

definition dir_write_update :: "'w platform \<Rightarrow> nat \<Rightarrow> bool \<Rightarrow> ('w, 'a) dos_scheme \<Rightarrow> (bool \<times> ('w, 'a) dos_scheme) option" where
  "dir_write_update P fnp update s =
     (let unit = scast (dpb_unit (fdpb fnp s)) in
      if \<not> update \<or> f_flags (fn fnp s) AND (SFT_FCLEAN OR SFT_FDATE) \<noteq> SFT_FCLEAN then do {
        (q, s1) \<leftarrow> getblock P (f_dirsector (fn fnp s)) unit s;
        case q of
          None \<Rightarrow> Some (False, s1)
        | Some bp \<Rightarrow>
            let n = fn fnp s1;
                e = (f_dir n)\<lparr>dir_name := swap_deleted (dir_name (f_dir n))\<rparr>;
                s2 = upd_buf bp (\<lambda>b. b\<lparr>b_buffer := put_entry update (fdpb fnp s1) e (b_buffer b) (unat (f_diridx n) * 32),
                  b_flag := (b_flag b AND NOT (BFR_DATA OR BFR_FAT)) OR (BFR_DIR OR BFR_DIRTY OR BFR_VALID)\<rparr>) s1
            in flush_buffers P unit (upd_fn fnp (\<lambda>n. n\<lparr>f_dir := e\<lparr>dir_name := swap_deleted (dir_name e)\<rparr>\<rparr>) s2)
      } else flush_buffers P unit s)"

abbreviation (input) dir_write :: "'w platform \<Rightarrow> nat \<Rightarrow> ('w, 'a) dos_scheme \<Rightarrow> (bool \<times> ('w, 'a) dos_scheme) option" where
  "dir_write P fnp s \<equiv> dir_write_update P fnp False s"

abbreviation (input) next_entry :: "nat \<Rightarrow> ('w, 'a) dos_scheme \<Rightarrow> ('w, 'a) dos_scheme" where
  "next_entry fnp s \<equiv> upd_dm fnp (\<lambda>m. m\<lparr>dm_entry := dm_entry m + 1\<rparr>) s"

section \<open>Searching\<close>

text \<open>
  The loops \<^verbatim>\<open>while (dir_read(fnp) == 1)\<close> of the code, up to the first entry that satisfies a test: the
  result of the last read, with 1 when the loop was left at an entry.
\<close>

partial_function (option) scan_dir ::
  "'w platform \<Rightarrow> nat \<Rightarrow> (dirent \<Rightarrow> bool) \<Rightarrow> ('w, 'a) dos_scheme \<Rightarrow> (int \<times> ('w, 'a) dos_scheme) option" where
  "scan_dir P fnp test s =
     do {
       (r, s1) \<leftarrow> dir_read P fnp s;
       if r = 1 \<and> \<not> test (f_dir (fn fnp s1)) then scan_dir P fnp test (next_entry fnp s1) else Some (r, s1)
     }"

abbreviation (input) peek :: "u8 list \<Rightarrow> nat \<Rightarrow> u8" where
  "peek str i \<equiv> (if i < length str then str ! i else 0)"

text \<open>
  \<^verbatim>\<open>dir_open\<close> from a position of the path on: \<^verbatim>\<open>None\<close> inside the result for the null pointer.
\<close>

function dir_walk ::
  "'w platform \<Rightarrow> bool \<Rightarrow> nat \<Rightarrow> u8 list \<Rightarrow> ('w, 'a) dos_scheme \<Rightarrow> (bool \<times> ('w, 'a) dos_scheme) option" where
  "dir_walk P split fnp dirname s =
     (case dirname of
        [] \<Rightarrow> Some (True, s)
      | c0 # dirname1 \<Rightarrow>
          if c0 = 0 \<or> peek dirname1 0 = 0 then Some (True, s)
          else
            let (fcbname, dirname2) = ConvertNameSZToName83 dirname1;
                s1 = upd_dm fnp (\<lambda>m. m\<lparr>dm_name_pat := fcbname\<rparr>) s
            in if split \<and> peek dirname2 0 = 0 then Some (True, s1)
               else do {
                 (r, s2) \<leftarrow> scan_dir P fnp (\<lambda>e. dir_attrib e AND D_VOLID = 0 \<and> fcbmatch fcbname (dir_name e)) s1;
                 if r \<noteq> 1 \<or> dir_attrib (f_dir (fn fnp s2)) AND D_DIR = 0 then Some (False, s2)
                 else
                   let s3 = dir_init_fnode fnp (getdstart (fdpb fnp s2) (f_dir (fn fnp s2))) s2
                   in dir_walk P split fnp dirname2 (upd_dm fnp (\<lambda>m. m\<lparr>dm_entry := 0\<rparr>) s3)
               })"
  by pat_completeness auto
termination
proof (relation "measure (\<lambda>(P, split, fnp, dirname, s). length dirname)", goal_cases)
  case (2 P split fnp dirname s c0 dirname1 x fcbname dirname2)
  have "length (snd (name83_loop i f ys)) \<le> length ys" for i f ys
    by (induction i f ys rule: name83_loop.induct) auto
  then have "length dirname2 \<le> length dirname1"
    using 2 unfolding ConvertNameSZToName83_def by (metis snd_conv)
  then show ?case using 2 by simp
qed simp

declare dir_walk.simps [simp del]

definition dir_open :: "'w platform \<Rightarrow> u8 list \<Rightarrow> bool \<Rightarrow> nat \<Rightarrow> ('w, 'a) dos_scheme \<Rightarrow> (bool \<times> ('w, 'a) dos_scheme) option" where
  "dir_open P dirname split fnp s =
     (let s1 = upd_fn fnp (\<lambda>n. n\<lparr>f_dpb := get_dpb (scast (peek dirname 0) - 0x41) s\<rparr>) s;
          s2 = upd_dm fnp (\<lambda>m. m\<lparr>dm_entry := 0\<rparr>) (dir_init_fnode fnp 0 s1)
      in dir_walk P split fnp (drop 2 dirname) s2)"

definition split_path :: "'w platform \<Rightarrow> u8 list \<Rightarrow> nat \<Rightarrow> ('w, 'a) dos_scheme \<Rightarrow> (bool \<times> ('w, 'a) dos_scheme) option" where
  "split_path P path fnp s = (if path \<noteq> [] \<and> last path = 0x5c then Some (False, s) else dir_open P path True fnp s)"

definition dir_exists :: "'w platform \<Rightarrow> u8 list \<Rightarrow> ('w, 'a) dos_scheme \<Rightarrow> (bool \<times> ('w, 'a) dos_scheme) option" where
  "dir_exists P path s = split_path P path 0 s"

section \<open>Find first and next\<close>

definition find_match :: "dmatch \<Rightarrow> dirent \<Rightarrow> bool" where
  "find_match m e \<longleftrightarrow>
     dir_name e ! 0 \<noteq> DELETED \<and> dir_attrib e AND D_LFN \<noteq> D_LFN \<and> fcmp_wild (dm_name_pat m) (dir_name e) 11 \<and>
     (let attr_srch = dm_attr_srch m AND NOT (D_RDONLY OR D_ARCHIVE OR D_DEVICE) in
      if attr_srch = D_VOLID then dir_attrib e AND D_VOLID \<noteq> 0
      else NOT attr_srch AND (D_DIR OR D_SYSTEM OR D_HIDDEN OR D_VOLID) AND dir_attrib e = 0)"

partial_function (option) find_loop :: "'w platform \<Rightarrow> ('w, 'a) dos_scheme \<Rightarrow> (int \<times> ('w, 'a) dos_scheme) option" where
  "find_loop P s =
     do {
       (r, s1) \<leftarrow> dir_read P 0 s;
       if r \<noteq> 1 then Some (DE_NFILES, s1)
       else
         let s2 = s1\<lparr>dms := (dms s1)(0 := (dms s1 0)\<lparr>dm_entry := dm_entry (dms s1 0) + 1\<rparr>)\<rparr> in
         if find_match (dms s2 0) (f_dir (fn 0 s2)) then Some (SUCCESS, s2\<lparr>SearchDir := f_dir (fn 0 s2)\<rparr>)
         else find_loop P s2
     }"

definition dos_findnext :: "'w platform \<Rightarrow> 'w media_driver \<Rightarrow> ('w, 'a) dos_scheme \<Rightarrow> (int \<times> ('w, 'a) dos_scheme) option" where
  "dos_findnext P E s =
     (let s1 = upd_fn 0 (\<lambda>n. n\<lparr>f_dpb := get_dpb (ucast (dm_drive (dms s 0))) s\<rparr>) s in
      do {
        (r, s2) \<leftarrow> media_check P E (f_dpb (fn 0 s1)) s1;
        if r < 0 then Some (DE_NFILES, s2)
        else find_loop P (dir_init_fnode 0 (dm_dircluster (dms s2 0)) s2)
      })"

definition dos_findfirst ::
  "'w platform \<Rightarrow> 'w media_driver \<Rightarrow> u16 \<Rightarrow> u8 list \<Rightarrow> ('w, 'a) dos_scheme \<Rightarrow> (int \<times> ('w, 'a) dos_scheme) option" where
  "dos_findfirst P E attr name s =
     (if peek name 3 = 0 then Some (DE_NFILES, s)
      else do {
        (ok, s1) \<leftarrow> split_path P name 0 s;
        if \<not> ok then Some (DE_PATHNOTFND, s1)
        else
          let s2 = (if attr AND NOT 0x61 = 8 then dir_init_fnode 0 0 s1 else s1)
          in dos_findnext P E (s2\<lparr>dms := (dms s2)(0 := (dms s2 0)\<lparr>dm_drive := peek name 0 - 0x41, dm_attr_srch := ucast attr\<rparr>)\<rparr>)
      })"

declare scan_dir.simps [code] find_loop.simps [code]

end
