(* ===== verification/FatOps.thy ===== *)
theory FatOps
  imports FatDir
begin

text \<open>
  The file system calls of \<^verbatim>\<open>kernel/fatfs.c\<close>: open, close, delete, rename, make and remove a directory,
  attributes; with \<^verbatim>\<open>DosCloseSft\<close> of \<^verbatim>\<open>kernel/dosfns.c\<close>, which the change of attributes calls. The network
  redirector and SHARE are resident programs outside the kernel; they are the parameters of the
  record \<^verbatim>\<open>services\<close>.
\<close>

abbreviation (input) DE_RMVCUDIR :: int where "DE_RMVCUDIR \<equiv> -16"
abbreviation (input) DE_FILEEXISTS :: int where "DE_FILEEXISTS \<equiv> -80"
abbreviation (input) S_OPENED :: int where "S_OPENED \<equiv> 1"
abbreviation (input) S_CREATED :: int where "S_CREATED \<equiv> 2"
abbreviation (input) S_REPLACED :: int where "S_REPLACED \<equiv> 3"
abbreviation (input) O_OPEN :: u16 where "O_OPEN \<equiv> 0x0100"
abbreviation (input) O_TRUNC :: u16 where "O_TRUNC \<equiv> 0x0200"
abbreviation (input) O_CREAT :: u16 where "O_CREAT \<equiv> 0x0400"
abbreviation (input) O_FCB :: u16 where "O_FCB \<equiv> 0x8000"

section \<open>Finding entries\<close>

definition find_fname :: "'w platform \<Rightarrow> u8 list \<Rightarrow> u8 \<Rightarrow> nat \<Rightarrow> ('w, 'a) dos_scheme \<Rightarrow> (int \<times> ('w, 'a) dos_scheme) option" where
  "find_fname P path attr fnp s =
     do {
       (ok, s1) \<leftarrow> split_path P path fnp s;
       if \<not> ok then Some (DE_PATHNOTFND, s1)
       else do {
         (r, s2) \<leftarrow> scan_dir P fnp (\<lambda>e. fcbmatch (dir_name e) (dm_name_pat (dm fnp s1)) \<and>
           dir_attrib e AND NOT (D_RDONLY OR D_ARCHIVE OR attr) = 0) s1;
         Some (if r = 1 then SUCCESS else DE_FILENOTFND, s2)
       }
     }"

partial_function (option) lfn_loop :: "'w platform \<Rightarrow> nat \<Rightarrow> ('w, 'a) dos_scheme \<Rightarrow> (int \<times> ('w, 'a) dos_scheme) option" where
  "lfn_loop P fnp s =
     (if dm_entry (dm fnp s) = 0 then Some (SUCCESS, s)
      else do {
        (r, s1) \<leftarrow> dir_read P fnp (upd_dm fnp (\<lambda>m. m\<lparr>dm_entry := dm_entry m - 1\<rparr>) s);
        if r \<le> 0 then Some (DE_ACCESS, s1)
        else if dir_attrib (f_dir (fn fnp s1)) \<noteq> D_LFN then Some (SUCCESS, s1)
        else do {
          (ok, s2) \<leftarrow> dir_write P fnp (upd_fn fnp (\<lambda>n. n\<lparr>f_dir := (f_dir n)\<lparr>dir_name := (dir_name (f_dir n))[0 := DELETED]\<rparr>\<rparr>) s1);
          if \<not> ok then Some (DE_ACCESS, s2) else lfn_loop P fnp s2
        }
      })"

definition remove_lfn_entries :: "'w platform \<Rightarrow> nat \<Rightarrow> ('w, 'a) dos_scheme \<Rightarrow> (int \<times> ('w, 'a) dos_scheme) option" where
  "remove_lfn_entries P fnp s =
     (let original_diroff = dm_entry (dm fnp s) in
      do {
        (r, s1) \<leftarrow> lfn_loop P fnp s;
        if r \<noteq> SUCCESS then Some (r, s1)
        else do {
          (r, s2) \<leftarrow> dir_read P fnp (upd_dm fnp (\<lambda>m. m\<lparr>dm_entry := original_diroff\<rparr>) s1);
          Some (if r \<le> 0 then DE_ACCESS else SUCCESS, s2)
        }
      })"

definition find_free :: "'w platform \<Rightarrow> nat \<Rightarrow> ('w, 'a) dos_scheme \<Rightarrow> (bool \<times> ('w, 'a) dos_scheme) option" where
  "find_free P fnp s =
     do {
       (rc, s1) \<leftarrow> scan_dir P fnp (\<lambda>e. dir_name e ! 0 = DELETED) s;
       Some (rc \<ge> 0, s1)
     }"

section \<open>Growing a directory\<close>

primrec clear_loop :: "'w platform \<Rightarrow> u32 \<Rightarrow> u16 \<Rightarrow> nat list \<Rightarrow> ('w, 'a) kst_scheme \<Rightarrow> (int \<times> ('w, 'a) kst_scheme) option" where
  "clear_loop P blk unit [] s = Some (SUCCESS, s)"
| "clear_loop P blk unit (idx # idxs) s =
     do {
       (q, s1) \<leftarrow> getblk P (blk + of_nat idx) unit True s;
       case q of
         None \<Rightarrow> Some (DE_ACCESS, s1)
       | Some bp \<Rightarrow>
           clear_loop P blk unit idxs (upd_buf bp (\<lambda>b. b\<lparr>b_buffer := (\<lambda>k. if k < 512 then 0 else b_buffer b k),
             b_flag := b_flag b OR (BFR_DIRTY OR BFR_VALID) OR (if idx \<noteq> 0 then BFR_UNCACHE else 0)\<rparr>) s1)
     }"

definition clear_dir :: "'w platform \<Rightarrow> nat \<Rightarrow> u32 \<Rightarrow> ('w, 'a) dos_scheme \<Rightarrow> (int \<times> ('w, 'a) dos_scheme) option" where
  "clear_dir P fnp cluster s =
     (let d = fdpb fnp s in clear_loop P (clus2phys cluster d) (scast (dpb_unit d)) [0..<unat (dpb_clsmask d) + 1] s)"

definition extend_dir :: "'w platform \<Rightarrow> nat \<Rightarrow> ('w, 'a) dos_scheme \<Rightarrow> (int \<times> ('w, 'a) dos_scheme) option" where
  "extend_dir P fnp s =
     do {
       (cluster, s1) \<leftarrow> extend P fnp s;
       if cluster = LONG_LAST_CLUSTER then Some (DE_HNDLDSKFULL, s1)
       else do {
         (r, s2) \<leftarrow> clear_dir P fnp cluster s1;
         if r \<noteq> SUCCESS then Some (r, s2)
         else do {
           (ok, s3) \<leftarrow> find_free P fnp s2;
           if \<not> ok then Some (DE_HNDLDSKFULL, s3)
           else do {
             (ok, s4) \<leftarrow> flush_buffers P (scast (dpb_unit (fdpb fnp s3))) s3;
             Some (if ok then SUCCESS else DE_ACCESS, s4)
           }
         }
       }
     }"

text \<open>\<^verbatim>\<open>alloc_find_free\<close> does not look at the null pointer \<^verbatim>\<open>split_path\<close> may return.\<close>

definition alloc_find_free :: "'w platform \<Rightarrow> nat \<Rightarrow> u8 list \<Rightarrow> ('w, 'a) dos_scheme \<Rightarrow> (int \<times> ('w, 'a) dos_scheme) option" where
  "alloc_find_free P fnp path s =
     do {
       (ok, s1) \<leftarrow> split_path P path fnp s;
       if \<not> ok then None
       else do {
         (free, s2) \<leftarrow> find_free P fnp s1;
         if free then Some (SUCCESS, s2)
         else if dm_dircluster (dm fnp s2) = 0 then Some (DE_TOOMANY, s2)
         else extend_dir P fnp s2
       }
     }"

section \<open>Deleting\<close>

definition delete_dir_entry :: "'w platform \<Rightarrow> nat \<Rightarrow> ('w, 'a) dos_scheme \<Rightarrow> (int \<times> ('w, 'a) dos_scheme) option" where
  "delete_dir_entry P fnp s =
     do {
       (rc, s1) \<leftarrow> remove_lfn_entries P fnp s;
       if rc < 0 then Some (rc, s1)
       else do {
         s2 \<leftarrow> wipe_out P fnp s1;
         (ok, s3) \<leftarrow> dir_write P fnp (upd_fn fnp (\<lambda>n. n\<lparr>f_dir := (f_dir n)\<lparr>dir_name := (dir_name (f_dir n))[0 := DELETED]\<rparr>\<rparr>) s2);
         Some (if ok then SUCCESS else DE_ACCESS, s3)
       }
     }"

definition dos_delete :: "'w platform \<Rightarrow> u8 list \<Rightarrow> u8 \<Rightarrow> ('w, 'a) dos_scheme \<Rightarrow> (int \<times> ('w, 'a) dos_scheme) option" where
  "dos_delete P path attrib s =
     do {
       (ret, s1) \<leftarrow> find_fname P path attrib 0 s;
       if ret = SUCCESS then
         if dir_attrib (f_dir (fn 0 s1)) AND (D_RDONLY OR D_DIR) \<noteq> 0 then Some (DE_ACCESS, s1)
         else delete_dir_entry P 0 s1
       else Some (ret, s1)
     }"

text \<open>The part of \<^verbatim>\<open>dos_rmdir\<close> that looks into the directory: it is empty.\<close>

definition dir_empty :: "'w platform \<Rightarrow> ('w, 'a) dos_scheme \<Rightarrow> (bool \<times> ('w, 'a) dos_scheme) option" where
  "dir_empty P s =
     do {
       (_, s1) \<leftarrow> dir_read P 0 s;
       if dir_name (f_dir (fn 0 s1)) ! 0 \<noteq> 0x2e \<or> dir_name (f_dir (fn 0 s1)) ! 1 \<noteq> 0x20 then Some (False, s1)
       else do {
         (_, s2) \<leftarrow> dir_read P 0 (next_entry 0 s1);
         if dir_name (f_dir (fn 0 s2)) ! 0 \<noteq> 0x2e \<or> dir_name (f_dir (fn 0 s2)) ! 1 \<noteq> 0x2e then Some (False, s2)
         else do {
           (r, s3) \<leftarrow> scan_dir P 0 (\<lambda>e. dir_name e ! 0 \<noteq> DELETED \<and> dir_attrib e \<noteq> D_LFN) (next_entry 0 s2);
           Some (r \<noteq> 1, s3)
         }
       }
     }"

definition dos_rmdir :: "'w platform \<Rightarrow> u8 list \<Rightarrow> ('w, 'a) dos_scheme \<Rightarrow> (int \<times> ('w, 'a) dos_scheme) option" where
  "dos_rmdir P path s =
     do {
       cdsp \<leftarrow> get_cds (scast (peek path 0) - 0x41) s;
       if path = cdsCurrentPath cdsp then Some (DE_RMVCUDIR, s)
       else if peek path 2 = 0x5c \<and> peek path 3 = 0 then Some (DE_ACCESS, s)
       else do {
         (ok, s1) \<leftarrow> dir_open P path False 0 s;
         if \<not> ok then Some (DE_PATHNOTFND, s1)
         else if dir_attrib (f_dir (fn 0 s1)) AND NOT (D_DIR OR D_RDONLY OR D_ARCHIVE) \<noteq> 0 then Some (DE_ACCESS, s1)
         else do {
           (empty, s2) \<leftarrow> dir_empty P s1;
           if \<not> empty then Some (DE_ACCESS, s2)
           else do {
             (r, s3) \<leftarrow> find_fname P path D_ALL 0 s2;
             if r \<noteq> SUCCESS then Some (DE_PATHNOTFND, s3) else delete_dir_entry P 0 s3
           }
         }
       }
     }"

section \<open>Renaming\<close>

abbreviation (input) set_name :: "nat \<Rightarrow> u8 list \<Rightarrow> ('w, 'a) dos_scheme \<Rightarrow> ('w, 'a) dos_scheme" where
  "set_name fnp name s \<equiv> upd_fn fnp (\<lambda>n. n\<lparr>f_dir := (f_dir n)\<lparr>dir_name := name\<rparr>\<rparr>) s"

text \<open>
  The last step of \<^verbatim>\<open>dos_rename\<close>. The name comes from the search block of the second node, also when
  the entry that changes is that of the first.
\<close>

definition rename_finish :: "'w platform \<Rightarrow> nat \<Rightarrow> u8 list \<Rightarrow> ('w, 'a) dos_scheme \<Rightarrow> (int \<times> ('w, 'a) dos_scheme) option" where
  "rename_finish P fnp2 fcbname s =
     do {
       (ok, s1) \<leftarrow> dir_write P fnp2 (set_name fnp2 (take 11 fcbname) s);
       Some (if ok then SUCCESS else DE_ACCESS, s1)
     }"

definition rename_move :: "'w platform \<Rightarrow> u8 list \<Rightarrow> ('w, 'a) dos_scheme \<Rightarrow> (int \<times> ('w, 'a) dos_scheme) option" where
  "rename_move P path2 s =
     (if dir_attrib (f_dir (fn 0 s)) AND D_DIR \<noteq> 0 then Some (DE_ACCESS, s)
      else do {
        (r, s1) \<leftarrow> alloc_find_free P 1 path2 s;
        if r \<noteq> SUCCESS then Some (r, s1)
        else do {
          (r, s2) \<leftarrow> remove_lfn_entries P 0 s1;
          if r < 0 then Some (r, s2)
          else do {
            let s3 = upd_fn 1 (\<lambda>n. n\<lparr>f_dir := f_dir (fn 0 s2)\<rparr>) s2;
            (ok, s4) \<leftarrow> dir_write P 0 (set_name 0 ((dir_name (f_dir (fn 0 s3)))[0 := DELETED]) s3);
            if \<not> ok then Some (DE_ACCESS, s4) else rename_finish P 1 (dm_name_pat (dm 1 s4)) s4
          }
        }
      })"

definition dos_rename :: "'w platform \<Rightarrow> u8 list \<Rightarrow> u8 list \<Rightarrow> u8 \<Rightarrow> ('w, 'a) dos_scheme \<Rightarrow> (int \<times> ('w, 'a) dos_scheme) option" where
  "dos_rename P path1 path2 attrib s =
     do {
       cdsp \<leftarrow> get_cds (scast (peek path1 0) - 0x41) s;
       if path1 = cdsCurrentPath cdsp then Some (DE_RMVCUDIR, s)
       else do {
         (r, s1) \<leftarrow> find_fname P path1 attrib 0 s;
         if r \<noteq> SUCCESS then Some (r, s1)
         else do {
           (r, s2) \<leftarrow> find_fname P path2 attrib 1 s1;
           if r \<noteq> DE_FILENOTFND then Some (if r = SUCCESS then DE_ACCESS else r, s2)
           else if dm_dircluster (dm 0 s2) = dm_dircluster (dm 1 s2) then do {
             (r, s3) \<leftarrow> remove_lfn_entries P 0 s2;
             if r < 0 then Some (r, s3) else rename_finish P 0 (dm_name_pat (dm 1 s3)) s3
           }
           else rename_move P path2 s2
         }
       }
     }"

section \<open>Making a directory\<close>

abbreviation (input) dot_name :: "u8 list" where
  "dot_name \<equiv> 0x2e # replicate 10 0x20"

abbreviation (input) init_dir :: "'w platform \<Rightarrow> nat \<Rightarrow> u8 \<Rightarrow> u32 \<Rightarrow> u8 list \<Rightarrow> ('w, 'a) dos_scheme \<Rightarrow> ('w, 'a) dos_scheme option" where
  "init_dir P fnp attrib cluster name s \<equiv>
     map_option (\<lambda>(e, s1). upd_fn fnp (\<lambda>n. n\<lparr>f_dir := e\<rparr>) s1) (init_direntry P attrib cluster name s)"

text \<open>The entries of the new directory itself, \<^verbatim>\<open>.\<close> and \<^verbatim>\<open>..\<close>.\<close>

definition mkdir_entries :: "'w platform \<Rightarrow> u32 \<Rightarrow> u32 \<Rightarrow> ('w, 'a) dos_scheme \<Rightarrow> (int \<times> ('w, 'a) dos_scheme) option" where
  "mkdir_entries P free_fat parent s =
     do {
       (_, s1) \<leftarrow> find_free P 0 (upd_dm 0 (\<lambda>m. m\<lparr>dm_entry := 0\<rparr>) (dir_init_fnode 0 free_fat s));
       s2 \<leftarrow> init_dir P 0 D_DIR free_fat dot_name s1;
       (ok, s3) \<leftarrow> dir_write P 0 s2;
       if \<not> ok then Some (DE_ACCESS, s3)
       else do {
         (free, s4) \<leftarrow> find_free P 0 s3;
         (r, s5) \<leftarrow> (if \<not> free then extend_dir P 0 s4 else Some (SUCCESS, s4));
         if r \<noteq> SUCCESS then Some (r, s5)
         else do {
           let up = (if ISFAT32 (fdpb 0 s5) \<and> parent = dpb_xrootclst (fdpb 0 s5) then 0 else parent);
           s6 \<leftarrow> init_dir P 0 D_DIR up dot_name s5;
           (ok, s7) \<leftarrow> dir_write P 0 (set_name 0 ((dir_name (f_dir (fn 0 s6)))[1 := 0x2e]) s6);
           Some (if ok then SUCCESS else DE_ACCESS, s7)
         }
       }
     }"

definition mkdir_cluster :: "'w platform \<Rightarrow> u32 \<Rightarrow> ('w, 'a) dos_scheme \<Rightarrow> (int \<times> ('w, 'a) dos_scheme) option" where
  "mkdir_cluster P parent s =
     do {
       (free_fat, s1) \<leftarrow> find_fat_free P (f_dpb (fn 0 s)) s;
       if free_fat = LONG_LAST_CLUSTER then Some (DE_HNDLDSKFULL, s1)
       else do {
         s2 \<leftarrow> init_dir P 0 D_DIR free_fat (dm_name_pat (dm 0 s1)) s1;
         (r, s3) \<leftarrow> link_fat P (f_dpb (fn 0 s2)) free_fat LONG_LAST_CLUSTER s2;
         if r \<noteq> 0 then Some (DE_HNDLDSKFULL, s3)
         else do {
           (r, s4) \<leftarrow> clear_dir P 0 free_fat s3;
           if r \<noteq> SUCCESS then Some (r, s4)
           else do {
             (ok, s5) \<leftarrow> dir_write P 0 s4;
             if \<not> ok then Some (DE_ACCESS, s5) else mkdir_entries P free_fat parent s5
           }
         }
       }
     }"

definition dos_mkdir :: "'w platform \<Rightarrow> u8 list \<Rightarrow> ('w, 'a) dos_scheme \<Rightarrow> (int \<times> ('w, 'a) dos_scheme) option" where
  "dos_mkdir P dir s =
     (if length dir \<ge> 67 then Some (DE_PATHNOTFND, s)
      else do {
        (r, s1) \<leftarrow> find_fname P dir D_ALL 0 s;
        if r \<noteq> DE_FILENOTFND then Some (if r = SUCCESS then DE_ACCESS else r, s1)
        else do {
          let parent = dm_dircluster (dm 0 s1);
          (r, s2) \<leftarrow> alloc_find_free P 0 dir s1;
          if r \<noteq> SUCCESS then Some (r, s2) else mkdir_cluster P parent s2
        }
      })"

section \<open>Opening and closing\<close>

text \<open>What \<^verbatim>\<open>dos_open\<close> does with the entry it found or not: the status, or the error.\<close>

definition open_found :: "'w platform \<Rightarrow> u16 \<Rightarrow> u16 \<Rightarrow> ('w, 'a) dos_scheme \<Rightarrow> (int \<times> ('w, 'a) dos_scheme) option" where
  "open_found P flags attrib s =
     (let a = dir_attrib (f_dir (fn 0 s)) in
      if flags AND O_TRUNC \<noteq> 0 then
        if a AND (D_RDONLY OR D_DIR OR D_VOLID) \<noteq> 0 \<or> a AND NOT D_ARCHIVE AND NOT (ucast attrib) \<noteq> 0 then Some (DE_ACCESS, s)
        else map_option (\<lambda>s1. (S_REPLACED, s1)) (wipe_out P 0 s)
      else if flags AND O_OPEN \<noteq> 0 then
        let fl = (if flags AND O_FCB \<noteq> 0 \<and> a AND D_RDONLY \<noteq> 0 then flags AND NOT 3 else flags)
        in Some (if a AND (D_DIR OR D_VOLID) \<noteq> 0 \<or> (a AND D_RDONLY \<noteq> 0 \<and> fl AND O_ACCMODE \<noteq> 0) then DE_ACCESS else S_OPENED, s)
      else Some (DE_FILEEXISTS, s))"

definition open_status :: "'w platform \<Rightarrow> u8 list \<Rightarrow> u16 \<Rightarrow> u16 \<Rightarrow> ('w, 'a) dos_scheme \<Rightarrow> (int \<times> ('w, 'a) dos_scheme) option" where
  "open_status P path flags attrib s =
     do {
       (status, s1) \<leftarrow> find_fname P path (D_ALL OR ucast attrib) 0 s;
       if status = SUCCESS then open_found P flags attrib s1
       else if status = DE_FILENOTFND \<and> flags AND O_CREAT \<noteq> 0 then do {
         (ret, s2) \<leftarrow> alloc_find_free P 0 path s1;
         Some (if ret \<noteq> SUCCESS then ret else S_CREATED, s2)
       }
       else Some (status, s1)
     }"

definition dos_open :: "'w platform \<Rightarrow> u8 list \<Rightarrow> u16 \<Rightarrow> u16 \<Rightarrow> int \<Rightarrow> ('w, 'a) dos_scheme \<Rightarrow> (int \<times> ('w, 'a) dos_scheme) option" where
  "dos_open P path flags attrib fd s =
     do {
       s0 \<leftarrow> sft_to_fnode fd s;
       (status, s1) \<leftarrow> open_status P path flags attrib s0;
       if status < 0 then Some (status, s1)
       else do {
         let s2 = upd_fn 0 (\<lambda>n. n\<lparr>f_sft_idx := word_of_int fd, f_offset := 0, f_cluster_offset := 0,
           f_flags := (f_flags n AND NOT SFT_FDATE) OR SFT_FCLEAN\<rparr>) s1;
         (ok, s3) \<leftarrow>
           (if status \<noteq> S_OPENED then do {
              s3 \<leftarrow> init_dir P 0 (ucast attrib) FREE (dm_name_pat (dm 0 s2)) s2;
              dir_write P 0 s3
            } else Some (True, s2));
         if \<not> ok then Some (DE_ACCESS, s3)
         else do {
           let s4 = merge_file_changes 0 (status = S_OPENED) s3;
           s5 \<leftarrow> fnode_to_sft 0 (upd_fn 0 (\<lambda>n. n\<lparr>f_cluster := getdstart (fdpb 0 s4) (f_dir n)\<rparr>) s4);
           Some (status, s5)
         }
       }
     }"

definition dos_close :: "'w platform \<Rightarrow> int \<Rightarrow> ('w, 'a) dos_scheme \<Rightarrow> (int \<times> ('w, 'a) dos_scheme) option" where
  "dos_close P fd s =
     do {
       s1 \<leftarrow> sft_to_fnode fd s;
       s2 \<leftarrow>
         (if f_flags (fn 0 s1) AND SFT_FCLEAN = 0 then do {
            s2 \<leftarrow>
              (if f_flags (fn 0 s1) AND SFT_FDATE = 0 then do {
                 (t, s2) \<leftarrow> dos_gettime P s1;
                 (d, s3) \<leftarrow> dos_getdate P s2;
                 Some (upd_fn 0 (\<lambda>n. n\<lparr>f_dir := (f_dir n)\<lparr>dir_time := t, dir_date := d\<rparr>\<rparr>) s3)
               } else Some s1);
            Some (merge_file_changes 0 False s2)
          } else Some s1);
       (ok, s3) \<leftarrow> dir_write_update P 0 True (upd_fn 0 (\<lambda>n. n\<lparr>f_sft_idx := 0xff\<rparr>) s2);
       Some (if ok then SUCCESS else DE_INVLDHNDL, s3)
     }"

definition dos_merge_file_changes :: "int \<Rightarrow> ('w, 'a) dos_scheme \<Rightarrow> ('w, 'a) dos_scheme option" where
  "dos_merge_file_changes fd s = map_option (merge_file_changes 0 False) (sft_to_fnode fd s)"

record 'w services =
  network_redirector_fp :: "u16 \<Rightarrow> sft \<Rightarrow> 'w \<Rightarrow> int \<times> sft \<times> 'w"
  share_check :: "'w \<Rightarrow> u8 \<times> 'w"
  share_close_file :: "u16 \<Rightarrow> 'w \<Rightarrow> 'w"

definition IsShareInstalled :: "('w, 'v) services_scheme \<Rightarrow> bool \<Rightarrow> ('w, 'a) dos_scheme \<Rightarrow> bool \<times> ('w, 'a) dos_scheme" where
  "IsShareInstalled V recheck s =
     (if \<not> recheck then (share_installed s, s)
      else let (c, w) = share_check V (world s) in (c = 0xff, s\<lparr>share_installed := (c = 0xff), world := w\<rparr>))"

definition DosCloseSft ::
  "'w platform \<Rightarrow> ('w, 'v) services_scheme \<Rightarrow> int \<Rightarrow> bool \<Rightarrow> ('w, 'a) dos_scheme \<Rightarrow> (int \<times> ('w, 'a) dos_scheme) option" where
  "DosCloseSft P V sft_idx commitonly s =
     (let (q, s0) = idx_to_sft sft_idx s in
      case q of
        None \<Rightarrow> Some (DE_INVLDHNDL, s0)
      | Some p \<Rightarrow>
          let s1 = s0\<lparr>lpCurSft := Some p\<rparr>; sf = sft_at p s1;
              drop_count = (\<lambda>s. upd_sft p (\<lambda>f. f\<lparr>sft_count := sft_count f - 1\<rparr>) s)
          in if sft_flags sf AND SFT_FSHARED \<noteq> 0 then
               let (r, sf', w) = network_redirector_fp V (if commitonly then 0x1107 else 0x1106) sf (world s1)
               in Some (r, upd_sft p (\<lambda>_. sf') (s1\<lparr>world := w\<rparr>))
             else if sft_flags sf AND SFT_FDEVICE \<noteq> 0 then do {
               (r, s2) \<leftarrow>
                 (if dh_attr P (sft_dcb sf) AND 0x0800 \<noteq> 0 then do {
                    (r, _, s2) \<leftarrow> BinaryCharIO P (sft_dcb sf) 0 (\<lambda>_. 0) 0x0e s1;
                    Some (r, s2)
                  } else Some (SUCCESS, s1));
               if r \<noteq> SUCCESS then Some (DE_INVLDHNDL, s2) else Some (SUCCESS, if commitonly then s2 else drop_count s2)
             }
             else do {
               (r, s2) \<leftarrow> dos_close P sft_idx s1;
               if commitonly \<or> r \<noteq> SUCCESS then Some (r, s2)
               else
                 let (share, s3) = (if sft_count (sft_at p s2) = 1 then IsShareInstalled V True s2 else (False, s2));
                     s4 = (if share then
                         let w = (if \<not> bit (sft_shroff (sft_at p s3)) 15 then share_close_file V (sft_shroff (sft_at p s3)) (world s3) else world s3)
                         in upd_sft p (\<lambda>f. f\<lparr>sft_shroff := 0xffff\<rparr>) (s3\<lparr>world := w\<rparr>)
                       else s3)
                 in Some (SUCCESS, drop_count s4)
             })"

section \<open>Attributes and the current directory\<close>

text \<open>
  \<^verbatim>\<open>merge_file_changes\<close> with \<^verbatim>\<open>collect\<close> -1 closes the other open instances of the file. The node it
  compares with is \<^verbatim>\<open>fnode[0]\<close>, which closing a file overwrites.
\<close>

primrec close_others ::
  "'w platform \<Rightarrow> ('w, 'v) services_scheme \<Rightarrow> nat \<Rightarrow> nat list \<Rightarrow> ('w, 'a) dos_scheme \<Rightarrow> (int \<times> ('w, 'a) dos_scheme) option" where
  "close_others P V fnp [] s = Some (SUCCESS, s)"
| "close_others P V fnp (i # is) s =
     (if same_file (fn fnp s) (int i) (concat (sfthead s) ! i) then do {
        (rc, s1) \<leftarrow> DosCloseSft P V (int i) False s;
        if rc \<noteq> SUCCESS then Some (rc, s1) else close_others P V fnp is s1
      } else close_others P V fnp is s)"

definition merge_close :: "'w platform \<Rightarrow> ('w, 'v) services_scheme \<Rightarrow> nat \<Rightarrow> ('w, 'a) dos_scheme \<Rightarrow> (int \<times> ('w, 'a) dos_scheme) option" where
  "merge_close P V fnp s =
     (if \<not> share_installed s then Some (SUCCESS, s) else close_others P V fnp [0..<length (concat (sfthead s))] s)"

definition dos_getfattr :: "'w platform \<Rightarrow> u8 list \<Rightarrow> ('w, 'a) dos_scheme \<Rightarrow> (int \<times> ('w, 'a) dos_scheme) option" where
  "dos_getfattr P name s =
     do {
       (ret, s1) \<leftarrow> find_fname P name D_ALL 0 s;
       Some (if ret = SUCCESS then uint (dir_attrib (f_dir (fn 0 s1))) else ret, s1)
     }"

definition dos_setfattr ::
  "'w platform \<Rightarrow> ('w, 'v) services_scheme \<Rightarrow> u8 list \<Rightarrow> u16 \<Rightarrow> ('w, 'a) dos_scheme \<Rightarrow> (int \<times> ('w, 'a) dos_scheme) option" where
  "dos_setfattr P V name attrp s =
     (if attrp AND 0xc8 \<noteq> 0 then Some (DE_ACCESS, s)
      else do {
        (rc, s1) \<leftarrow> find_fname P name D_ALL 0 s;
        if rc \<noteq> SUCCESS then Some (rc, s1)
        else if attrp AND 0x10 \<noteq> 0 \<and> dir_attrib (f_dir (fn 0 s1)) AND D_DIR = 0 then Some (DE_ACCESS, s1)
        else do {
          (rc, s2) \<leftarrow> merge_close P V 0 (upd_fn 0 (\<lambda>n. n\<lparr>f_dir := (f_dir n)
            \<lparr>dir_attrib := (dir_attrib (f_dir n) AND (D_VOLID OR D_DIR)) OR ucast attrp\<rparr>\<rparr>) s1);
          if rc \<noteq> SUCCESS then Some (rc, s2)
          else do {
            (ok, s3) \<leftarrow> dir_write P 0 s2;
            Some (if ok then SUCCESS else DE_ACCESS, s3)
          }
        }
      })"

definition dos_cd :: "'w platform \<Rightarrow> u8 list \<Rightarrow> ('w, 'a) dos_scheme \<Rightarrow> (int \<times> ('w, 'a) dos_scheme) option" where
  "dos_cd P PathName s =
     do {
       (ok, s1) \<leftarrow> dir_open P PathName False 0 s;
       if \<not> ok then Some (DE_PATHNOTFND, s1)
       else do {
         let drv = scast (peek PathName 0) - 0x41;
         cdsp \<leftarrow> get_cds drv s1;
         Some (SUCCESS, s1\<lparr>CDSp := (CDSp s1)(drv := cdsp\<lparr>cdsStrtClst := ucast (dm_dircluster (dm 0 s1))\<rparr>)\<rparr>)
       }
     }"

declare lfn_loop.simps [code]

end
