(* ===== verification/Frame.thy ===== *)
theory Frame
  imports FatOps
begin

text \<open>
  What the layers of the file system leave alone. A routine of the block layer changes only the kernel data of
  that layer, so whatever a state adds to it (file nodes, the system file table, the state of a process) is as
  before; a routine of the FAT file system changes only that and the data of the file system. The routines
  that loop are followed through the induction rules of their fixed points.
\<close>

section \<open>Rules\<close>

text \<open>A result, where there is one, has a value of \<^verbatim>\<open>f\<close> equal to \<^verbatim>\<open>m\<close>.\<close>

definition keeps :: "('y \<Rightarrow> 'm) \<Rightarrow> 'm \<Rightarrow> 'y option \<Rightarrow> bool" where
  "keeps f m x \<longleftrightarrow> (\<forall>y. x = Some y \<longrightarrow> f y = m)"

named_theorems frame

lemma keeps_Some [frame]: "f y = m \<Longrightarrow> keeps f m (Some y)"
  by (simp add: keeps_def)

lemma keeps_None [frame]: "keeps f m None"
  by (simp add: keeps_def)

lemma keeps_if [frame]: "(b \<Longrightarrow> keeps f m x) \<Longrightarrow> (\<not> b \<Longrightarrow> keeps f m y) \<Longrightarrow> keeps f m (if b then x else y)"
  by simp

lemma keeps_option [frame]: "keeps f m x \<Longrightarrow> (\<And>a. keeps f m (g a)) \<Longrightarrow> keeps f m (case z of None \<Rightarrow> x | Some a \<Rightarrow> g a)"
  by (simp split: option.split)

lemma keeps_bind: "keeps g n x \<Longrightarrow> (\<And>y. g y = n \<Longrightarrow> keeps f m (h y)) \<Longrightarrow> keeps f m (x \<bind> h)"
  by (cases x) (simp_all add: keeps_def)

lemma keeps_get: "(\<And>a. keeps f m (h a)) \<Longrightarrow> keeps f m (z \<bind> h)"
  by (cases z) (simp_all add: keeps_def)

lemmas keeps_gets [frame] =
  keeps_get [where z = "z :: u16 option" for z] keeps_get [where z = "z :: found option" for z]
  keeps_get [where z = "z :: bool option" for z]
  keeps_get [where z = "z :: cds option" for z] keeps_get [where z = "z :: (nat \<times> nat) option" for z]

lemma keeps_dest: "keeps f m x \<Longrightarrow> x = Some y \<Longrightarrow> f y = m"
  by (simp add: keeps_def)

section \<open>The block layer\<close>

text \<open>What a state adds to the data of the block layer, in the results of the routines.\<close>

definition kmore1 :: "'r \<times> ('w, 'a) kst_scheme \<Rightarrow> 'a" where
  "kmore1 y = kst.more (snd y)"

definition kmore2 :: "'r \<times> 'b \<times> ('w, 'a) kst_scheme \<Rightarrow> 'a" where
  "kmore2 y = kst.more (snd (snd y))"

lemma kmore_simps [simp]: "kmore1 (r, s) = kst.more s" "kmore2 (r, b, s) = kst.more s"
  by (simp_all add: kmore1_def kmore2_def)

lemma keeps_bind1 [frame]:
  "keeps kmore1 m x \<Longrightarrow> (\<And>r s. kst.more s = m \<Longrightarrow> keeps f m (h (r, s))) \<Longrightarrow> keeps f m (x \<bind> h)"
  by (erule keeps_bind) auto

lemma keeps_bind2 [frame]:
  "keeps kmore2 m x \<Longrightarrow> (\<And>r b s. kst.more s = m \<Longrightarrow> keeps f m (h (r, b, s))) \<Longrightarrow> keeps f m (x \<bind> h)"
  by (erule keeps_bind) auto

lemma keeps_bind0 [frame]: "keeps kst.more m x \<Longrightarrow> (\<And>s. kst.more s = m \<Longrightarrow> keeps f m (h s)) \<Longrightarrow> keeps f m (x \<bind> h)"
  by (erule keeps_bind) auto

lemma keepsI: "(\<And>y. x = Some y \<Longrightarrow> f y = m) \<Longrightarrow> keeps f m x"
  by (simp add: keeps_def)

lemma block_error_frame [simp]: "kst.more (snd (block_error P n l md s)) = kst.more s"
  by (simp add: block_error_def Let_def split: prod.split)

lemma ask_user_frame [frame]: "kst.more s = m \<Longrightarrow> keeps kmore1 m (ask_user P n l md s)"
  by (rule keepsI, drule ask_user.raw_induct [of "\<lambda>x y. kmore1 y = kst.more (snd x)", rotated])
    (auto simp: block_error_def Let_def split: if_splits prod.splits)

lemma xfer_once_frame [simp]: "kst.more (snd (xfer_once P d rq sg buf n md s)) = kst.more s"
  by (simp add: xfer_once_def Let_def split: prod.split)

lemma keeps_prod: "(\<And>a b. p = (a, b) \<Longrightarrow> keeps f m (h a b)) \<Longrightarrow> keeps f m (case p of (a, b) \<Rightarrow> h a b)"
  by (cases p) simp

lemma keeps_state [frame]:
  "kst.more (snd p) = m \<Longrightarrow> (\<And>a s. kst.more s = m \<Longrightarrow> keeps f m (h a s)) \<Longrightarrow> keeps f m (case p of (a, s) \<Rightarrow> h a s)"
  by (cases p) simp

lemma xfer_loop_frame [frame]: "kst.more s = m \<Longrightarrow> keeps kmore2 m (xfer_loop P d blk sg n md buf s)"
proof (rule keepsI, drule xfer_loop.raw_induct [of "\<lambda>x y. kmore2 y = kst.more (snd x)", rotated], goal_cases)
  case (1 y f P d blk sg n md buf s y')
  have ih: "kst.more s = m \<Longrightarrow> keeps kmore2 m (f P d blk sg n md buf s)" for P d blk sg n md buf s m
    by (rule keepsI) (use 1(2) in fastforce)
  show ?case by (intro keeps_dest [OF _ 1(3)]) (auto intro!: frame ih simp: Let_def)
qed simp

lemma dskxfer_frame [frame]: "kst.more s = m \<Longrightarrow> keeps kmore2 m (dskxfer P dsk blk sg buf n md s)"
  by (auto simp: dskxfer_def intro!: frame)

lemma searchblock_frame [frame]: "kst.more s = m \<Longrightarrow> keeps kmore1 m (searchblock blk dsk s)"
  unfolding searchblock_def Let_def by (auto intro!: frame split: found.split)

lemma flush_copies_frame [frame]: "kst.more s = m \<Longrightarrow> keeps kmore1 m (flush_copies P bp off n blk ok s)"
  by (induction n arbitrary: blk ok s) (auto intro!: frame)

lemma flush1_frame [frame]: "kst.more s = m \<Longrightarrow> keeps kmore1 m (flush1 P bp s)"
  unfolding flush1_def Let_def by (auto intro!: frame)

lemma getblk_frame [frame]: "kst.more s = m \<Longrightarrow> keeps kmore1 m (getblk P blk dsk ov s)"
  unfolding getblk_def Let_def by (auto intro!: frame)

lemma ring_loop_frame:
  assumes "kst.more s = m" and body: "\<forall>bp s. keeps kmore1 (kst.more s) (body bp s)"
  shows "keeps kmore1 m (ring_loop body bp ok s)"
proof -
  have "ring_loop body bp ok s = Some y \<Longrightarrow> (\<forall>bp s. keeps kmore1 (kst.more s) (body bp s)) \<Longrightarrow> kmore1 y = kst.more s" for y
  proof (drule ring_loop.raw_induct [of "\<lambda>body bp ok s y.
      (\<forall>bp s. keeps kmore1 (kst.more s) (body bp s)) \<longrightarrow> kmore1 y = kst.more s", rotated], goal_cases)
    case (1 f body bp ok s y')
    have *: "\<forall>bp s. keeps kmore1 (kst.more s) (body bp s) \<Longrightarrow> kst.more s = m \<Longrightarrow> keeps kmore1 m (f body bp ok s)" for bp ok s m
      by (rule keepsI) (use 1(2) in fastforce)
    show ?case
      by (intro impI keeps_dest [OF _ 1(3)]) (auto intro!: frame * simp: Let_def)
  qed simp
  then show ?thesis using assms by (auto simp: keeps_def)
qed

lemma setinvld_frame [frame]: "kst.more s = m \<Longrightarrow> keeps kst.more m (setinvld dsk s)"
proof -
  assume "kst.more s = m"
  then have "keeps kmore1 m (ring_loop (\<lambda>bp s.
       Some (True, if scast (b_unit (bufs s bp)) = dsk then upd_buf bp (\<lambda>b. b\<lparr>b_flag := 0\<rparr>) s else s)) (firstbuf s) True s)"
    by (rule ring_loop_frame) (auto intro!: frame)
  then show ?thesis by (auto simp: setinvld_def keeps_def kmore1_def)
qed

lemma flush_buffers_frame [frame]: "kst.more s = m \<Longrightarrow> keeps kmore1 m (flush_buffers P dsk s)"
  unfolding flush_buffers_def by (erule ring_loop_frame) (auto intro!: frame)

section \<open>The allocation table\<close>

lemma getFATblock_frame [frame]: "kst.more s = m \<Longrightarrow> keeps kmore1 m (getFATblock P dpbp sec s)"
  unfolding getFATblock_def Let_def by (auto intro!: frame split: option.split)

lemma read_fsinfo_frame [frame]: "kst.more s = m \<Longrightarrow> keeps kst.more m (read_fsinfo P dpbp s)"
  unfolding read_fsinfo_def Let_def by (auto intro!: frame)

lemma write_fsinfo_frame [frame]: "kst.more s = m \<Longrightarrow> keeps kst.more m (write_fsinfo P dpbp s)"
  unfolding write_fsinfo_def Let_def by (auto intro!: frame)

lemma link_done_frame [frame]: "kst.more s = m \<Longrightarrow> keeps kmore1 m (link_done P dpbp c free bp s)"
  unfolding link_done_def Let_def by (auto intro!: frame)

lemma link_fat12_frame [frame]: "kst.more s = m \<Longrightarrow> keeps kmore1 m (link_fat12 P dpbp c1 c2 sec i bp s)"
  unfolding link_fat12_def Let_def by (auto intro!: frame)

lemma link_fat_frame [frame]: "kst.more s = m \<Longrightarrow> keeps kmore1 m (link_fat P dpbp c1 c2 s)"
  unfolding link_fat_def Let_def by (auto intro!: frame)

lemma next_cluster_frame [frame]: "kst.more s = m \<Longrightarrow> keeps kmore1 m (next_cluster P dpbp c s)"
  unfolding next_cluster_def by (auto intro!: frame)

lemma is_free_cluster_frame [frame]: "kst.more s = m \<Longrightarrow> keeps kmore1 m (is_free_cluster P dpbp c s)"
  unfolding is_free_cluster_def by (auto intro!: frame)

lemma wipe_out_clusters_frame [frame]: "kst.more s = m \<Longrightarrow> keeps kst.more m (wipe_out_clusters P dpbp st s)"
proof (rule keepsI, drule wipe_out_clusters.raw_induct [of "\<lambda>x y. kst.more y = kst.more (snd x)", rotated], goal_cases)
  case (1 y f P dpbp st s y')
  have ih: "kst.more s = m \<Longrightarrow> keeps kst.more m (f P dpbp st s)" for P dpbp st s m
    by (rule keepsI) (use 1(2) in fastforce)
  show ?case by (intro keeps_dest [OF _ 1(3)]) (auto intro!: frame ih)
qed simp

lemma free_search_frame [frame]: "kst.more s = m \<Longrightarrow> keeps kmore2 m (free_search P dpbp siz c i s)"
proof (rule keepsI, drule free_search.raw_induct [of "\<lambda>x y. kmore2 y = kst.more (snd x)", rotated], goal_cases)
  case (1 y f P dpbp siz c i s y')
  have ih: "kst.more s = m \<Longrightarrow> keeps kmore2 m (f P dpbp siz c i s)" for P dpbp siz c i s m
    by (rule keepsI) (use 1(2) in fastforce)
  show ?case by (intro keeps_dest [OF _ 1(3)]) (auto intro!: frame ih simp: Let_def)
qed simp

lemma find_fat_free_frame [frame]: "kst.more s = m \<Longrightarrow> keeps kmore1 m (find_fat_free P dpbp s)"
  unfolding find_fat_free_def Let_def by (auto intro!: frame)

lemma count_loop_frame [frame]: "kst.more s = m \<Longrightarrow> keeps kmore1 m (count_loop P dpbp mc i cnt s)"
proof (rule keepsI, drule count_loop.raw_induct [of "\<lambda>x y. kmore1 y = kst.more (snd x)", rotated], goal_cases)
  case (1 y f P dpbp mc i cnt s y')
  have ih: "kst.more s = m \<Longrightarrow> keeps kmore1 m (f P dpbp mc i cnt s)" for P dpbp mc i cnt s m
    by (rule keepsI) (use 1(2) in fastforce)
  show ?case by (intro keeps_dest [OF _ 1(3)]) (auto intro!: frame ih simp: Let_def)
qed simp

lemma dos_free_frame [frame]: "kst.more s = m \<Longrightarrow> keeps kmore1 m (dos_free P dpbp s)"
  unfolding dos_free_def Let_def by (auto intro!: frame)

lemma bpb_to_dpb_frame [frame]: "kst.more s = m \<Longrightarrow> keeps kst.more m (bpb_to_dpb P b dpbp ext s)"
  unfolding bpb_to_dpb_def Let_def by (auto intro!: frame)

lemma clear_loop_frame [frame]: "kst.more s = m \<Longrightarrow> keeps kmore1 m (clear_loop P dpbp u is s)"
  by (induction "is" arbitrary: s) (auto intro!: frame simp: Let_def)

section \<open>The file system\<close>

text \<open>
  Of the data of the file system itself, opening, reading, writing and searching keep the reference counts of the
  system file table; only closing changes them.
\<close>

definition dkeep :: "('w, 'a) dos_scheme \<Rightarrow> u16 list list \<times> 'a" where
  "dkeep s = (map (map sft_count) (sfthead s), dos.more s)"

definition dkeep1 :: "'r \<times> ('w, 'a) dos_scheme \<Rightarrow> u16 list list \<times> 'a" where
  "dkeep1 y = dkeep (snd y)"

definition dkeep2 :: "'r \<times> 'b \<times> ('w, 'a) dos_scheme \<Rightarrow> u16 list list \<times> 'a" where
  "dkeep2 y = dkeep (snd (snd y))"

definition dkeep3 :: "'r \<times> 'b \<times> 'c \<times> ('w, 'a) dos_scheme \<Rightarrow> u16 list list \<times> 'a" where
  "dkeep3 y = dkeep (snd (snd (snd y)))"

lemma dkeep_simps [simp]:
  "dkeep1 (r, s) = dkeep s" "dkeep2 (r, b, s) = dkeep s" "dkeep3 (r, b, c, s) = dkeep s"
  by (simp_all add: dkeep1_def dkeep2_def dkeep3_def)

lemma dkeep_upd [simp]:
  "dkeep (s\<lparr>fnode := x1\<rparr>) = dkeep s" "dkeep (s\<lparr>dms := x2\<rparr>) = dkeep s" "dkeep (s\<lparr>SearchDir := x3\<rparr>) = dkeep s"
  "dkeep (s\<lparr>CharReqHdr := x4\<rparr>) = dkeep s" "dkeep (s\<lparr>ClkRecord := x5\<rparr>) = dkeep s" "dkeep (s\<lparr>MediaReqHdr := x6\<rparr>) = dkeep s"
  "dkeep (s\<lparr>lpCurSft := x7\<rparr>) = dkeep s" "dkeep (s\<lparr>world := x8\<rparr>) = dkeep s" "dkeep (s\<lparr>CritErrCode := x9\<rparr>) = dkeep s"
  "dkeep (s\<lparr>bufs := x10\<rparr>) = dkeep s" "dkeep (s\<lparr>dpbs := x11\<rparr>) = dkeep s" "dkeep (s\<lparr>CDSp := x12\<rparr>) = dkeep s"
  "dkeep (s\<lparr>share_installed := x13\<rparr>) = dkeep s"
  by (simp_all add: dkeep_def)

lemma keeps_dbind [frame]:
  "keeps dkeep m x0 \<Longrightarrow> (\<And>s. dkeep s = m \<Longrightarrow> keeps f m (h0 s)) \<Longrightarrow> keeps f m (x0 \<bind> h0)"
  "keeps dkeep1 m x1 \<Longrightarrow> (\<And>r s. dkeep s = m \<Longrightarrow> keeps f m (h1 (r, s))) \<Longrightarrow> keeps f m (x1 \<bind> h1)"
  "keeps dkeep2 m x2 \<Longrightarrow> (\<And>r b s. dkeep s = m \<Longrightarrow> keeps f m (h2 (r, b, s))) \<Longrightarrow> keeps f m (x2 \<bind> h2)"
  "keeps dkeep3 m x3 \<Longrightarrow> (\<And>r b c s. dkeep s = m \<Longrightarrow> keeps f m (h3 (r, b, c, s))) \<Longrightarrow> keeps f m (x3 \<bind> h3)"
  by (auto elim!: keeps_bind)

lemma keeps_dstate [frame]:
  "dkeep1 p = m \<Longrightarrow> (\<And>a s. dkeep s = m \<Longrightarrow> keeps f m (h a s)) \<Longrightarrow> keeps f m (case p of (a, s) \<Rightarrow> h a s)"
  by (cases p) simp

lemma keeps_map [frame]: "keeps (g \<circ> h) m x \<Longrightarrow> keeps g m (map_option h x)"
  by (auto simp: keeps_def)

lemma dkeep_more: "kst.more s' = kst.more s \<Longrightarrow> dkeep s' = dkeep s"
  by (cases s, cases s') (simp add: dkeep_def dos.defs)

lemma lift_frame:
  "keeps kst.more (kst.more s) x0 \<Longrightarrow> dkeep s = m \<Longrightarrow> keeps dkeep m x0"
  "keeps kmore1 (kst.more s) x1 \<Longrightarrow> dkeep s = m \<Longrightarrow> keeps dkeep1 m x1"
  "keeps kmore2 (kst.more s) x2 \<Longrightarrow> dkeep s = m \<Longrightarrow> keeps dkeep2 m x2"
  by (auto simp: keeps_def kmore1_def kmore2_def dkeep1_def dkeep2_def intro!: dkeep_more)

lemmas lifted_frame [frame] =
  setinvld_frame [OF refl, THEN lift_frame(1)] read_fsinfo_frame [OF refl, THEN lift_frame(1)]
  write_fsinfo_frame [OF refl, THEN lift_frame(1)] wipe_out_clusters_frame [OF refl, THEN lift_frame(1)]
  bpb_to_dpb_frame [OF refl, THEN lift_frame(1)]
  getblk_frame [OF refl, THEN lift_frame(2)] flush_buffers_frame [OF refl, THEN lift_frame(2)]
  link_fat_frame [OF refl, THEN lift_frame(2)] next_cluster_frame [OF refl, THEN lift_frame(2)]
  find_fat_free_frame [OF refl, THEN lift_frame(2)] dos_free_frame [OF refl, THEN lift_frame(2)]
  clear_loop_frame [OF refl, THEN lift_frame(2)] dskxfer_frame [OF refl, THEN lift_frame(3)]

lemma char_error_frame [simp]: "dkeep1 (char_error P dev s) = dkeep s"
  by (simp add: char_error_def Let_def split: prod.split)

lemma ask_char_frame [frame]: "dkeep s = m \<Longrightarrow> keeps dkeep1 m (ask_char P dev s)"
proof (rule keepsI, drule ask_char.raw_induct [of "\<lambda>x y. dkeep1 y = dkeep (snd x)", rotated], goal_cases)
  case (1 y f P dev s y')
  have ih: "dkeep s = m \<Longrightarrow> keeps dkeep1 m (f P dev s)" for P dev s m
    by (rule keepsI) (use 1(2) in fastforce)
  show ?case by (intro keeps_dest [OF _ 1(3)]) (auto intro!: frame ih simp: Let_def)
qed simp

lemma CharRequest_frame [frame]: "dkeep s = m \<Longrightarrow> keeps dkeep2 m (CharRequest P dev c buf s)"
  unfolding CharRequest_def Let_def by (auto intro!: frame split: prod.split)

lemma BinaryCharIO_frame [frame]: "dkeep s = m \<Longrightarrow> keeps dkeep2 m (BinaryCharIO P dev n buf c s)"
proof (rule keepsI, drule BinaryCharIO.raw_induct [of "\<lambda>x y. dkeep2 y = dkeep (snd x)", rotated], goal_cases)
  case (1 y f P dev n buf c s y')
  have ih: "dkeep s = m \<Longrightarrow> keeps dkeep2 m (f P dev n buf c s)" for P dev n buf c s m
    by (rule keepsI) (use 1(2) in fastforce)
  show ?case by (intro keeps_dest [OF _ 1(3)]) (auto intro!: frame ih)
qed simp

lemma ExecuteClockDriverRequest_frame [frame]: "dkeep s = m \<Longrightarrow> keeps dkeep m (ExecuteClockDriverRequest P c s)"
  unfolding ExecuteClockDriverRequest_def by (auto intro!: frame)

lemma DosGetTime_frame [frame]: "dkeep s = m \<Longrightarrow> keeps dkeep1 m (DosGetTime P dt s)"
  unfolding DosGetTime_def Let_def by (auto intro!: frame)

lemma DosGetDate_frame [frame]: "dkeep s = m \<Longrightarrow> keeps dkeep2 m (DosGetDate P dd s)"
  unfolding DosGetDate_def Let_def by (auto intro!: frame)

lemma dos_gettime_frame [frame]: "dkeep s = m \<Longrightarrow> keeps dkeep1 m (dos_gettime P s)"
  unfolding dos_gettime_def by (auto intro!: frame)

lemma dos_getdate_frame [frame]: "dkeep s = m \<Longrightarrow> keeps dkeep1 m (dos_getdate P s)"
  unfolding dos_getdate_def by (auto intro!: frame)

lemma init_direntry_frame [frame]: "dkeep s = m \<Longrightarrow> keeps dkeep1 m (init_direntry P a c nm s)"
  unfolding init_direntry_def by (auto intro!: frame)

lemma media_error_frame [simp]: "dkeep1 (media_error P d s) = dkeep s"
  by (simp add: media_error_def Let_def split: prod.split)

lemma ask_media_frame [frame]: "dkeep s = m \<Longrightarrow> keeps dkeep1 m (ask_media P d s)"
proof (rule keepsI, drule ask_media.raw_induct [of "\<lambda>x y. dkeep1 y = dkeep (snd x)", rotated], goal_cases)
  case (1 y f P d s y')
  have ih: "dkeep s = m \<Longrightarrow> keeps dkeep1 m (f P d s)" for P d s m
    by (rule keepsI) (use 1(2) in fastforce)
  show ?case by (intro keeps_dest [OF _ 1(3)]) (auto intro!: frame ih simp: Let_def)
qed simp

lemma rqblockio_frame [frame]: "dkeep s = m \<Longrightarrow> keeps dkeep1 m (rqblockio P E c dpbp s)"
proof (rule keepsI, drule rqblockio.raw_induct [of "\<lambda>x y. dkeep1 y = dkeep (snd x)", rotated], goal_cases)
  case (1 y f P E c dpbp s y')
  have ih: "dkeep s = m \<Longrightarrow> keeps dkeep1 m (f P E c dpbp s)" for P E c dpbp s m
    by (rule keepsI) (use 1(2) in fastforce)
  show ?case by (intro keeps_dest [OF _ 1(3)]) (auto intro!: frame ih simp: Let_def split: prod.split)
qed simp

lemma rebuild_dpb_frame [frame]: "dkeep s = m \<Longrightarrow> keeps dkeep1 m (rebuild_dpb P E dpbp s)"
  unfolding rebuild_dpb_def Let_def by (auto intro!: frame)

lemma media_check_frame [frame]: "dkeep s = m \<Longrightarrow> keeps dkeep1 m (media_check P E dpbp s)"
  unfolding media_check_def Let_def by (auto intro!: frame)

section \<open>Files and directories\<close>

lemma wipe_out_frame [frame]: "dkeep s = m \<Longrightarrow> keeps dkeep m (wipe_out P fnp s)"
  unfolding wipe_out_def Let_def by (auto intro!: frame)

lemma extend_frame [frame]: "dkeep s = m \<Longrightarrow> keeps dkeep1 m (FatFile.extend P fnp s)"
  unfolding FatFile.extend_def Let_def by (auto intro!: frame)

lemma map_loop_frame [frame]: "dkeep s = m \<Longrightarrow> keeps dkeep1 m (map_loop P fnp md rc s)"
proof (rule keepsI, drule map_loop.raw_induct [of "\<lambda>x y. dkeep1 y = dkeep (snd x)", rotated], goal_cases)
  case (1 y f P fnp md rc s y')
  have ih: "dkeep s = m \<Longrightarrow> keeps dkeep1 m (f P fnp md rc s)" for P fnp md rc s m
    by (rule keepsI) (use 1(2) in fastforce)
  show ?case by (intro keeps_dest [OF _ 1(3)]) (auto intro!: frame ih)
qed simp

lemma map_start_frame [simp]: "dkeep (map_start fnp rc s) = dkeep s"
  by (simp add: map_start_def)

lemma map_cluster_frame [frame]: "dkeep s = m \<Longrightarrow> keeps dkeep1 m (map_cluster P fnp md s)"
  unfolding map_cluster_def Let_def by (auto intro!: frame)

lemma dir_init_fnode_frame [simp]: "dkeep (dir_init_fnode fnp st s) = dkeep s"
  by (simp add: dir_init_fnode_def Let_def)

lemma dir_sector_frame [frame]: "dkeep s = m \<Longrightarrow> keeps dkeep1 m (dir_sector P fnp s)"
  unfolding dir_sector_def Let_def by (auto intro!: frame)

lemma dir_read_frame [frame]: "dkeep s = m \<Longrightarrow> keeps dkeep1 m (dir_read P fnp s)"
  unfolding dir_read_def Let_def by (auto intro!: frame)

lemma dir_write_update_frame [frame]: "dkeep s = m \<Longrightarrow> keeps dkeep1 m (dir_write_update P fnp u s)"
  unfolding dir_write_update_def Let_def by (auto intro!: frame)

lemma scan_dir_frame [frame]: "dkeep s = m \<Longrightarrow> keeps dkeep1 m (scan_dir P fnp test s)"
proof (rule keepsI, drule scan_dir.raw_induct [of "\<lambda>x y. dkeep1 y = dkeep (snd x)", rotated], goal_cases)
  case (1 y f P fnp test s y')
  have ih: "dkeep s = m \<Longrightarrow> keeps dkeep1 m (f P fnp test s)" for P fnp test s m
    by (rule keepsI) (use 1(2) in fastforce)
  show ?case by (intro keeps_dest [OF _ 1(3)]) (auto intro!: frame ih)
qed simp

lemma ConvertNameSZToName83_rest: "ConvertNameSZToName83 nm = (fcb, src) \<Longrightarrow> length src \<le> length nm"
proof -
  have "length (snd (name83_loop i f ys)) \<le> length ys" for i f ys
    by (induction i f ys rule: name83_loop.induct) auto
  then show "ConvertNameSZToName83 nm = (fcb, src) \<Longrightarrow> length src \<le> length nm"
    unfolding ConvertNameSZToName83_def by (metis snd_conv)
qed

lemma dir_walk_frame [frame]: "dkeep s = m \<Longrightarrow> keeps dkeep1 m (dir_walk P split fnp nm s)"
proof (induction "length nm" arbitrary: nm s rule: less_induct)
  case less
  show ?case
  proof (cases nm)
    case Nil
    then show ?thesis using less(2) by (simp add: dir_walk.simps frame)
  next
    case (Cons c nm1)
    obtain fcb nm2 where c: "ConvertNameSZToName83 nm1 = (fcb, nm2)" by fastforce
    have ih: "dkeep t = m \<Longrightarrow> keeps dkeep1 m (dir_walk P split fnp nm2 t)" for t
      using less(1) [of nm2 t] ConvertNameSZToName83_rest [OF c] Cons by simp
    show ?thesis
      unfolding Cons dir_walk.simps [of P split fnp "c # nm1"] list.case Let_def c prod.case
      by (intro frame ih) (simp_all add: less(2))
  qed
qed

lemma dir_open_frame [frame]: "dkeep s = m \<Longrightarrow> keeps dkeep1 m (dir_open P nm split fnp s)"
  unfolding dir_open_def Let_def by (auto intro!: frame)

lemma split_path_frame [frame]: "dkeep s = m \<Longrightarrow> keeps dkeep1 m (split_path P nm fnp s)"
  unfolding split_path_def by (auto intro!: frame)

lemma dir_exists_frame [frame]: "dkeep s = m \<Longrightarrow> keeps dkeep1 m (dir_exists P nm s)"
  unfolding dir_exists_def by (auto intro!: frame)

lemma dos_cd_frame [frame]: "dkeep s = m \<Longrightarrow> keeps dkeep1 m (dos_cd P nm s)"
  unfolding dos_cd_def Let_def by (auto intro!: frame)

section \<open>Nodes and the system file table\<close>

lemma same_count: "g x = g (xs ! i) \<Longrightarrow> map g (xs[i := x]) = map g xs"
  by (cases "i < length xs") (simp_all add: map_update list_update_same_conv list_update_beyond)

lemma same_counts: "g x = g (ts ! i ! j) \<Longrightarrow> map (map g) (ts[i := (ts ! i)[j := x]]) = map (map g) ts"
  by (intro same_count)

lemma upd_sft_frame [simp]:
  "sft_count x = sft_count (sfthead s ! i ! j) \<Longrightarrow> dkeep (s\<lparr>sfthead := (sfthead s)[i := (sfthead s ! i)[j := x]]\<rparr>) = dkeep s"
  by (simp add: dkeep_def same_counts)

lemma dkeep_if [frame]: "dkeep s = m \<Longrightarrow> dkeep s' = m \<Longrightarrow> dkeep (if b then s else s') = m"
  by simp

lemma idx_to_sft_frame [simp]: "dkeep (snd (idx_to_sft i s)) = dkeep s" "dkeep1 (idx_to_sft i s) = dkeep s"
  by (simp_all add: idx_to_sft_def idx_to_sft_loc_def dkeep1_def Let_def split: prod.split option.split)

lemma sft_to_fnode_frame [frame]: "dkeep s = m \<Longrightarrow> keeps dkeep m (sft_to_fnode fd s)"
  unfolding sft_to_fnode_def Let_def by (auto intro!: frame)

lemma fnode_to_sft_frame [frame]: "dkeep s = m \<Longrightarrow> keeps dkeep m (fnode_to_sft fnp s)"
  unfolding fnode_to_sft_def Let_def by (auto intro!: frame)

lemma give_tables_count: "map (map sft_count) (give_tables d n i ts) = map (map sft_count) ts"
proof -
  have "map sft_count (give_table d n i t) = map sft_count t" for i t
    by (induction d n i t rule: give_table.induct) (simp_all add: give_changes_def)
  then show ?thesis by (induction d n i ts rule: give_tables.induct) simp_all
qed

lemma merge_file_changes_frame [simp]: "dkeep (merge_file_changes fnp c s) = dkeep s"
  by (simp add: merge_file_changes_def dkeep_def give_tables_count split: option.split)

lemma dos_extend_frame [frame]: "dkeep s = m \<Longrightarrow> keeps dkeep1 m (dos_extend P fnp e s)"
  unfolding dos_extend_def Let_def by (auto intro!: frame)

lemma shrink_body_frame [frame]: "dkeep s = m \<Longrightarrow> keeps dkeep1 m (shrink_body P fnp s)"
  unfolding shrink_body_def Let_def by (auto intro!: frame)

lemma shrink_file_frame [frame]: "dkeep s = m \<Longrightarrow> keeps dkeep1 m (shrink_file P fnp s)"
  unfolding shrink_file_def Let_def by (auto intro!: frame)

lemma run_loop_frame [frame]: "dkeep s = m \<Longrightarrow> keeps dkeep1 m (run_loop P fnp md cb st w n s)"
proof (rule keepsI, drule run_loop.raw_induct [of "\<lambda>x y. dkeep1 y = dkeep (snd x)", rotated], goal_cases)
  case (1 y f P fnp md cb st w n s y')
  have ih: "dkeep s = m \<Longrightarrow> keeps dkeep1 m (f P fnp md cb st w n s)" for P fnp md cb st w n s m
    by (rule keepsI) (use 1(2) in fastforce)
  show ?case by (intro keeps_dest [OF _ 1(3)]) (auto intro!: frame ih simp: Let_def)
qed simp

lemma DeleteBlockInBufferCache_frame: "keeps kmore1 (kst.more s) (DeleteBlockInBufferCache P lo hi dsk md s)"
  unfolding DeleteBlockInBufferCache_def Let_def by (auto intro!: frame ring_loop_frame)

lemmas Delete_lifted_frame [frame] = DeleteBlockInBufferCache_frame [THEN lift_frame(2)]

lemma direct_xfer_frame [frame]: "dkeep s = m \<Longrightarrow> keeps dkeep3 m (direct_xfer P fnp md cb w sg buf s)"
  unfolding direct_xfer_def Let_def by (auto intro!: frame)

lemma buffer_xfer_frame [frame]: "dkeep s = m \<Longrightarrow> keeps dkeep3 m (buffer_xfer P fnp md cb n buf s)"
  unfolding buffer_xfer_def Let_def by (auto intro!: frame)

lemma finish_rw_frame [frame]: "dkeep s = m \<Longrightarrow> keeps dkeep2 m (finish_rw fnp r buf s)"
  using fnode_to_sft_frame [of s m fnp] by (auto simp: keeps_def)

lemma rw_loop_frame [frame]: "dkeep s = m \<Longrightarrow> keeps dkeep2 m (rw_loop P fnp md cnt rc n ptr buf s)"
proof (rule keepsI, drule rw_loop.raw_induct [of "\<lambda>x y. dkeep2 y = dkeep (snd x)", rotated], goal_cases)
  case (1 y f P fnp md cnt rc n ptr buf s y')
  have ih: "dkeep s = m \<Longrightarrow> keeps dkeep2 m (f P fnp md cnt rc n ptr buf s)" for P fnp md cnt rc n ptr buf s m
    by (rule keepsI) (use 1(2) in fastforce)
  show ?case unfolding Let_def by (intro keeps_dest [OF _ 1(3)]) (auto intro!: frame ih simp: Let_def)
qed simp

lemma rwblock_frame [frame]: "dkeep s = m \<Longrightarrow> keeps dkeep2 m (rwblock P fd ptr buf n md s)"
  unfolding rwblock_def Let_def by (auto intro!: frame)

section \<open>Opening and closing\<close>

lemma find_fname_frame [frame]: "dkeep s = m \<Longrightarrow> keeps dkeep1 m (find_fname P nm a fnp s)"
  unfolding find_fname_def Let_def by (auto intro!: frame)

lemma find_free_frame [frame]: "dkeep s = m \<Longrightarrow> keeps dkeep1 m (find_free P fnp s)"
  unfolding find_free_def Let_def by (auto intro!: frame)

lemma clear_dir_frame [frame]: "dkeep s = m \<Longrightarrow> keeps dkeep1 m (clear_dir P fnp c s)"
  unfolding clear_dir_def Let_def by (auto intro!: frame)

lemma extend_dir_frame [frame]: "dkeep s = m \<Longrightarrow> keeps dkeep1 m (extend_dir P fnp s)"
  unfolding extend_dir_def Let_def by (auto intro!: frame)

lemma alloc_find_free_frame [frame]: "dkeep s = m \<Longrightarrow> keeps dkeep1 m (alloc_find_free P fnp nm s)"
  unfolding alloc_find_free_def Let_def by (auto intro!: frame)

lemma wipe_out_result: "dkeep s = m \<Longrightarrow> keeps dkeep1 m (map_option (\<lambda>s1. (r, s1)) (wipe_out P fnp s))"
  using wipe_out_frame [of s m P fnp] by (auto simp: keeps_def)

lemma open_found_frame [frame]: "dkeep s = m \<Longrightarrow> keeps dkeep1 m (open_found P fl a s)"
  unfolding open_found_def Let_def by (auto intro!: frame wipe_out_result simp del: map_option_case)

lemma open_status_frame [frame]: "dkeep s = m \<Longrightarrow> keeps dkeep1 m (open_status P nm fl a s)"
  unfolding open_status_def Let_def by (auto intro!: frame)

lemma init_dir_frame [frame]: "dkeep s = m \<Longrightarrow> keeps dkeep m (init_dir P fnp a c nm s)"
  using init_direntry_frame [of s m P a c nm] by (auto simp: keeps_def)

lemma dos_open_frame [frame]: "dkeep s = m \<Longrightarrow> keeps dkeep1 m (dos_open P nm fl a fd s)"
  unfolding dos_open_def Let_def by (auto intro!: frame)

lemma dos_close_frame [frame]: "dkeep s = m \<Longrightarrow> keeps dkeep1 m (dos_close P fd s)"
  unfolding dos_close_def Let_def by (auto intro!: frame)

end
