(* ===== verification/Truename.thy ===== *)
theory Truename
  imports Frame
begin

text \<open>
  Names of files: upcasing with the tables of the active country package (\<^verbatim>\<open>kernel/nls.c\<close>), names of
  character devices (\<^verbatim>\<open>kernel/dosfns.c\<close>), and \<^verbatim>\<open>truename\<close> of \<^verbatim>\<open>kernel/newstuff.c\<close>, which turns a path of a
  program into a fully qualified one. A string is the list of its characters; what \<^verbatim>\<open>truename\<close> has left in the
  destination when it fails, which no caller reads, is left out. The packages that the kernel installs have the
  flag \<^verbatim>\<open>NLS_FLAG_DIRECT_FUPCASE\<close>, so that upcasing does not go through interrupt 2Fh. The network redirector
  is a parameter.
\<close>

section \<open>State\<close>

text \<open>
  A pointer to a directory structure: none, that of a drive, or the mark for a network path. A device header is
  its address and its name; \<^verbatim>\<open>dh_attr\<close> of the platform gives its attributes.
\<close>

datatype ldt = NoLdt | Ldt u16 | UncLdt

record dhdr =
  dh_addr :: u32
  dh_name :: "u8 list"

record 'w job = "'w dos" +
  arena :: mm
  ps_maxfiles :: u16
  ps_filetab :: "nat \<Rightarrow> u8"
  current_ldt :: ldt
  PriPathName :: "u8 list"
  SecPathName :: "u8 list"
  DirEntBuffer :: "u8 list"
  TempCDS :: cds
  njoined :: u8
  os_major :: u8
  nul_dev :: "dhdr list"
  nlsUpcase :: "u8 \<Rightarrow> u8"
  nlsFUpcase :: "u8 \<Rightarrow> u8"
  OpenMode :: u8
  current_sft_idx :: u16

record 'w remote = "'w services" +
  QRemote_Fn :: "u8 list \<Rightarrow> 'w \<Rightarrow> int \<times> u8 list \<times> 'w"

abbreviation (input) IS_DEVICE :: u16 where "IS_DEVICE \<equiv> 0x20"
abbreviation (input) IS_NETWORK :: u16 where "IS_NETWORK \<equiv> 0x40"
abbreviation (input) CDS_MODE_SKIP_PHYSICAL :: u16 where "CDS_MODE_SKIP_PHYSICAL \<equiv> 1"
abbreviation (input) CDS_MODE_CHECK_DEV_PATH :: u16 where "CDS_MODE_CHECK_DEV_PATH \<equiv> 2"
abbreviation (input) CDS_MODE_ALLOW_WILDCARDS :: u16 where "CDS_MODE_ALLOW_WILDCARDS \<equiv> 4"
abbreviation (input) SFTMAX :: nat where "SFTMAX \<equiv> 128"
abbreviation (input) backslash :: u8 where "backslash \<equiv> 0x5c"
abbreviation (input) slash :: u8 where "slash \<equiv> 0x2f"
abbreviation (input) colon :: u8 where "colon \<equiv> 0x3a"
abbreviation (input) dot :: u8 where "dot \<equiv> 0x2e"
abbreviation (input) qmark :: u8 where "qmark \<equiv> 0x3f"

section \<open>Upcasing\<close>

definition up_char :: "(u8 \<Rightarrow> u8) \<Rightarrow> u8 \<Rightarrow> u8" where
  "up_char tab c = (if c \<ge> 0x61 \<and> c \<le> 0x7a then c + (0x41 - 0x61) else if c > 0x7f then tab c else c)"

definition upMMem :: "(u8 \<Rightarrow> u8) \<Rightarrow> u8 list \<Rightarrow> u8 list" where
  "upMMem tab str = map (up_char tab) str"

definition DosUpMem :: "('w, 'a) job_scheme \<Rightarrow> u8 list \<Rightarrow> u8 list" where
  "DosUpMem s str = upMMem (nlsUpcase s) str"

definition DosUpFMem :: "('w, 'a) job_scheme \<Rightarrow> u8 list \<Rightarrow> u8 list" where
  "DosUpFMem s str = upMMem (nlsFUpcase s) str"

definition DosUpFChar :: "('w, 'a) job_scheme \<Rightarrow> u8 \<Rightarrow> u8" where
  "DosUpFChar s ch = hd (DosUpFMem s [ch])"

definition DosUpFString :: "('w, 'a) job_scheme \<Rightarrow> u8 list \<Rightarrow> u8 list" where
  "DosUpFString s str = DosUpFMem s str"

section \<open>Devices\<close>

abbreviation (input) is_sep :: "u8 \<Rightarrow> bool" where
  "is_sep c \<equiv> c = slash \<or> c = backslash"

text \<open>The loop of \<^verbatim>\<open>get_root\<close>, from the end of the name backwards.\<close>

fun root_loop :: "u8 list \<Rightarrow> u8 list \<Rightarrow> u8 list" where
  "root_loop acc [] = acc"
| "root_loop acc (c # cs) = (if c = slash \<or> c = backslash \<or> c = colon then acc else root_loop (c # acc) cs)"

definition get_root :: "u8 list \<Rightarrow> u8 list" where
  "get_root fname = root_loop [] (rev fname)"

text \<open>The comparison of \<^verbatim>\<open>IsDevice\<close> with the name in a device header.\<close>

fun dev_match :: "(u8 \<Rightarrow> u8) \<Rightarrow> u8 list \<Rightarrow> u8 list \<Rightarrow> bool" where
  "dev_match up froot [] = True"
| "dev_match up froot (n # ns) =
     (let c1 = peek froot 0 in
      if c1 = dot \<or> c1 = 0 then list_all (\<lambda>c2. c2 = 0x20 \<or> c2 = 0) (n # ns)
      else if up c1 \<noteq> up n then False
      else dev_match up (tl froot) ns)"

definition IsDevice :: "'w platform \<Rightarrow> u8 list \<Rightarrow> ('w, 'a) job_scheme \<Rightarrow> dhdr option" where
  "IsDevice P fname s =
     (let froot = get_root fname in
      if peek froot 0 = 0 \<or> (peek froot 0 = dot \<and> (peek froot 1 = 0 \<or> (peek froot 2 = 0 \<and> peek froot 1 = dot))) then None
      else find (\<lambda>dhp. dh_attr P (dh_addr dhp) AND 0x8000 \<noteq> 0 \<and> dev_match (DosUpFChar s) froot (dh_name dhp)) (nul_dev s))"

section \<open>The local path\<close>

definition path_error :: "u8 list \<Rightarrow> int" where
  "path_error src = (if slash \<notin> set src \<and> backslash \<notin> set src then DE_FILENOTFND else DE_PATHNOTFND)"

text \<open>The destination up to the pointer \<^verbatim>\<open>p\<close>; the macro \<^verbatim>\<open>addChar\<close>.\<close>

definition addChar :: "u8 \<Rightarrow> u8 list \<Rightarrow> u8 list \<Rightarrow> int + u8 list" where
  "addChar c src p = (if length p \<ge> SFTMAX then Inl (path_error src) else Inr (p @ [c]))"

primrec add_qmarks :: "nat \<Rightarrow> u8 list \<Rightarrow> u8 list \<Rightarrow> int + u8 list" where
  "add_qmarks 0 src p = Inr p"
| "add_qmarks (Suc i) src p = (case addChar qmark src p of Inl e \<Rightarrow> Inl e | Inr p' \<Rightarrow> add_qmarks i src p')"

definition DirChar :: "u8 \<Rightarrow> bool" where
  "DirChar c \<longleftrightarrow> c \<ge> 0x20 \<and> c \<notin> {0x22, 0x5b, 0x5d, 0x3a, 0x7c, 0x3c, 0x3e, 0x2b, 0x3d, 0x3b, 0x2c}"

text \<open>
  One component of a path in 8.3 convention: \<^verbatim>\<open>i\<close> more characters fit, \<^verbatim>\<open>dotted\<close> and \<^verbatim>\<open>wild\<close> are the state bits
  \<^verbatim>\<open>PNE_DOT\<close> and \<^verbatim>\<open>PNE_WILDCARD\<close>. The result has the wildcard bit, the destination and the rest of the source.
\<close>

fun comp_loop :: "nat \<Rightarrow> bool \<Rightarrow> bool \<Rightarrow> u8 list \<Rightarrow> u8 list \<Rightarrow> int + (bool \<times> u8 list \<times> u8 list)" where
  "comp_loop i dotted wild p [] = Inr (wild, p, [])"
| "comp_loop i dotted wild p (c # src) =
     (if is_sep c then Inr (wild, p, c # src)
      else if c = 0x2a then
        (case add_qmarks i src p of Inl e \<Rightarrow> Inl e | Inr p' \<Rightarrow> comp_loop 0 dotted True p' src)
      else if c = dot \<and> dotted then Inl (path_error src)
      else if c = dot \<and> (src = [] \<or> is_sep (hd src)) then Inr (wild, p, src)
      else
        let dotted' = (dotted \<or> c = dot); wild' = (wild \<or> c = qmark); i' = (if c = dot then 4 else i) in
        if i' = 0 then comp_loop 0 dotted' wild' p src
        else if \<not> DirChar c then Inl (path_error src)
        else case addChar c src p of Inl e \<Rightarrow> Inl e | Inr p' \<Rightarrow> comp_loop (i' - 1) dotted' wild' p' src)"

text \<open>Removing the last component: the pointer goes back to a backslash, but not behind \<^verbatim>\<open>rootPos\<close>.\<close>

fun up_loop :: "nat \<Rightarrow> u8 list \<Rightarrow> u8 list option" where
  "up_loop rootPos [] = None"
| "up_loop rootPos (c # cs) =
     (if c = backslash then Some (rev cs) else if length cs \<le> rootPos then None else up_loop rootPos cs)"

definition up_dir :: "nat \<Rightarrow> u8 list \<Rightarrow> u8 list option" where
  "up_dir rootPos p = up_loop rootPos (rev p)"

lemma comp_loop_rest:
  "comp_loop i dotted wild p src = Inr (wild', p', src') \<Longrightarrow>
    length src' \<le> length src \<and> (src \<noteq> [] \<and> \<not> is_sep (hd src) \<longrightarrow> length src' < length src)"
  by (induction i dotted wild p src arbitrary: wild' p' src' rule: comp_loop.induct)
    (fastforce simp: Let_def split: if_splits sum.splits)+

text \<open>The loop over the components; \<^verbatim>\<open>rc\<close> is the separator found at \<^verbatim>\<open>rootPos\<close>.\<close>

function path_loop :: "u8 \<Rightarrow> nat \<Rightarrow> bool \<Rightarrow> u8 list \<Rightarrow> u8 list \<Rightarrow> int + (bool \<times> u8 list)" where
  "path_loop rc rootPos wild p src =
     (if src = [] then Inr (wild, p)
      else if wild then Inl DE_PATHNOTFND
      else
        case (if last p \<noteq> rc then addChar rc src p else Inr p) of
          Inl e \<Rightarrow> Inl e
        | Inr p1 \<Rightarrow>
            let src1 = dropWhile is_sep src in
            if src1 \<noteq> [] \<and> hd src1 = dot then
              let src2 = tl src1;
                  dots = (if src2 \<noteq> [] \<and> hd src2 = dot then 2 else 1 :: nat);
                  src3 = drop (dots - 1) src2;
                  p2 = butlast p1
              in if src3 = [] \<or> is_sep (hd src3) then
                   if dots = 2 then case up_dir rootPos p2 of None \<Rightarrow> Inl DE_PATHNOTFND | Some p3 \<Rightarrow> path_loop rc rootPos wild p3 src3
                   else path_loop rc rootPos wild p2 src3
                 else Inl (path_error src3)
            else
              case comp_loop 8 False wild p1 src1 of
                Inl e \<Rightarrow> Inl e
              | Inr (wild', p2, src') \<Rightarrow> path_loop rc rootPos wild' p2 src')"
  by pat_completeness auto
termination
proof (relation "measure (\<lambda>(rc, rootPos, wild, p, src). length src)", goal_cases)
  case 1
  then show ?case by simp
next
  case (2 rc rootPos wild p src p1 src1 src2 dots src3 p2 p3)
  have "length src1 \<le> length src" using 2(4) by (simp add: length_dropWhile_le)
  moreover have "length src2 < length src1" using 2(5,6) by simp
  moreover have "length src3 \<le> length src2" using 2(8) by (simp add: diff_le_self)
  ultimately show ?case by simp
next
  case (3 rc rootPos wild p src p1 src1 src2 dots src3 p2)
  have "length src1 \<le> length src" using 3(4) by (simp add: length_dropWhile_le)
  moreover have "length src2 < length src1" using 3(5,6) by simp
  moreover have "length src3 \<le> length src2" using 3(8) by (simp add: diff_le_self)
  ultimately show ?case by simp
next
  case (4 rc rootPos wild p src p1 src1 x wild' y p2 src')
  have c: "comp_loop 8 False wild p1 src1 = Inr (wild', p2, src')" using 4 by simp
  have l: "length src1 \<le> length src" using 4(4) by (simp add: length_dropWhile_le)
  show ?case
  proof (cases "src1 = []")
    case True
    then have "src' = []" using c by simp
    then show ?thesis using 4(1) by simp
  next
    case False
    then have "\<not> is_sep (hd src1)" using 4(4) hd_dropWhile [of is_sep src] by auto
    then show ?thesis using comp_loop_rest [OF c] False l by simp
  qed
qed

declare path_loop.simps [simp del]

section \<open>The qualified name\<close>

text \<open>The copy of a network path, its terminator included.\<close>

primrec unc_copy :: "u8 list \<Rightarrow> u8 list \<Rightarrow> u8 list \<Rightarrow> int + u8 list" where
  "unc_copy [] src p = Inr p"
| "unc_copy (c # unc_src) src p = (case addChar c src p of Inl e \<Rightarrow> Inl e | Inr p' \<Rightarrow> unc_copy unc_src src p')"

definition tn_drive :: "u8 list \<Rightarrow> ('w, 'a) job_scheme \<Rightarrow> u16" where
  "tn_drive src s = (if peek src 1 = colon then ucast (DosUpFChar s (peek src 0) - 0x41) else scast (default_drive s))"

text \<open>The position of a character in a string, searched from a position of it on.\<close>

definition fstrchr :: "nat \<Rightarrow> u8 list \<Rightarrow> u8 \<Rightarrow> nat option" where
  "fstrchr k src c =
     (let n = k + length (takeWhile (\<lambda>x. x \<noteq> c) (drop k src)) in if n < length src then Some n else None)"

definition sep_from :: "nat \<Rightarrow> u8 list \<Rightarrow> nat option" where
  "sep_from k src = (case fstrchr k src backslash of None \<Rightarrow> fstrchr k src slash | Some n \<Rightarrow> Some n)"

text \<open>The paths that name a device on a drive that does not exist.\<close>

definition dev_path_ok :: "u8 list \<Rightarrow> bool" where
  "dev_path_ok src =
     (let s = (if peek src 3 \<noteq> 0 then sep_from 3 src else None) in
      if \<not> is_sep (peek src 2) then s = None
      else s = Some 6 \<and> take 3 (drop 3 src) = [0x44, 0x45, 0x56] \<and> sep_from 7 src = None)"

definition tn_cds :: "u8 list \<Rightarrow> bool \<Rightarrow> u16 \<Rightarrow> ('w, 'a) job_scheme \<Rightarrow> (u16 \<times> cds) option" where
  "tn_cds src isdev mode s =
     (let drive = tn_drive src s in
      case get_cds drive s of
        Some c \<Rightarrow> Some (drive, c)
      | None \<Rightarrow>
          if isdev \<and> mode AND CDS_MODE_CHECK_DEV_PATH \<noteq> 0 \<and> sint drive \<ge> uint (lastdrive s) \<and> dev_path_ok src
          then map_option (\<lambda>c. (scast (default_drive s), c)) (get_cds (scast (default_drive s)) s)
          else None)"

text \<open>
  A device without a path or in the directory \<^verbatim>\<open>\DEV\<close>: the third character of the destination, the flags, and
  what remains of the source.
\<close>

definition tn_device :: "u16 \<Rightarrow> u8 list \<Rightarrow> ('w, 'a) job_scheme \<Rightarrow> u8 \<times> u16 \<times> u8 list" where
  "tn_device result src s =
     (let froot = get_root src;
          up = DosUpMem s (take 5 src);
          fix_sep = (\<lambda>c. if c = slash then backslash else c)
      in if result AND IS_DEVICE \<noteq> 0 \<and>
            (length froot = length src \<or>
             (length src = length froot + 5 \<and>
              up[0 := fix_sep (up ! 0), 4 := fix_sep (up ! 4)] = [backslash, 0x44, 0x45, 0x56, backslash]))
         then (slash, result AND NOT IS_NETWORK, froot)
         else (backslash, result, src))"

text \<open>
  The current directory of the drive, of which at most 66 characters are used, checked on the disk of a local
  drive. The backslash offset has to be a position inside the string or its end, as the code reads and writes
  the array there, and the character before it is no backslash.
\<close>

definition cds_path_ok :: "cds \<Rightarrow> bool" where
  "cds_path_ok c \<longleftrightarrow>
     (let off = unat (cdsBackslashOffset c) in
      0 < off \<and> off < 66 \<and> off \<le> length (cdsCurrentPath c) \<and> cdsCurrentPath c ! (off - 1) \<noteq> backslash)"

abbreviation (input) cut_path :: "cds \<Rightarrow> cds" where
  "cut_path c \<equiv> c\<lparr>cdsCurrentPath := take (unat (cdsBackslashOffset c) + 1) (cdsCurrentPath c)\<rparr>"

definition tn_curdir ::
  "'w platform \<Rightarrow> 'w media_driver \<Rightarrow> u16 \<Rightarrow> ('w, 'a) job_scheme \<Rightarrow> (bool \<times> ('w, 'a) job_scheme) option" where
  "tn_curdir P E drive s =
     (let s0 = s\<lparr>TempCDS := (TempCDS s)\<lparr>cdsCurrentPath := take 66 (cdsCurrentPath (TempCDS s))\<rparr>\<rparr> in
      if cdsFlags (TempCDS s) AND CDSNETWDRV \<noteq> 0 then Some (True, s0)
      else do {
        (r, s1) \<leftarrow> media_check P E (cdsDpb (TempCDS s0)) s0;
        if r < SUCCESS then Some (False, s1)
        else do {
          (r2, s2) \<leftarrow> dos_cd P (cdsCurrentPath (TempCDS s1)) s1;
          if r2 = SUCCESS then Some (True, s2)
          else do {
            let s3 = s2\<lparr>TempCDS := cut_path (TempCDS s2),
                       CDSp := (CDSp s2)(drive := (CDSp s2 drive)\<lparr>cdsCurrentPath :=
                         take (unat (cdsBackslashOffset (TempCDS s2)) + 1) (cdsCurrentPath (CDSp s2 drive))\<rparr>)\<rparr>;
            (_, s4) \<leftarrow> dos_cd P (cdsCurrentPath (TempCDS s3)) s3;
            Some (True, s4)
          }
        }
      })"

text \<open>The destination up to \<^verbatim>\<open>p\<close>, \<^verbatim>\<open>rootPos\<close>, the flags and the rest of the source, before the path is appended.\<close>

definition tn_start :: "u16 \<Rightarrow> u16 \<Rightarrow> u8 list \<Rightarrow> ('w, 'a) job_scheme \<Rightarrow> u8 list \<times> nat \<times> u16 \<times> u8 list" where
  "tn_start mode result src s =
     (let cp = cdsCurrentPath (TempCDS s);
          off = unat (cdsBackslashOffset (TempCDS s));
          drive = ucast (peek cp 0 - 0x41 :: u8);
          (dest, rootPos, result') =
            (if mode AND CDS_MODE_SKIP_PHYSICAL = 0 then
               (cp, off,
                if cdsFlags (TempCDS s) AND CDSSUBST \<noteq> 0 \<and> peek cp 1 = colon \<and> drive < ucast (lastdrive s)
                then (result AND 0xffe0) OR drive else result)
             else ([ucast (result AND 0x1f) + 0x41, colon] @ drop off cp, 2, result));
          dest' = take rootPos dest @ backslash # drop (rootPos + 1) dest;
          (p, src') = (if src \<noteq> [] \<and> is_sep (hd src) then (take rootPos dest', tl src) else (dest', src));
          p' = (if last p = backslash then butlast p else p)
      in (p', rootPos, result', src'))"

text \<open>The first drive that is joined at the head of a path, by its number.\<close>

definition joins :: "u8 list \<Rightarrow> cds \<Rightarrow> bool" where
  "joins dest c \<longleftrightarrow>
     (let j = length (cdsCurrentPath c) in
      cdsFlags c AND CDSJOINED \<noteq> 0 \<and> (j = length dest \<or> peek dest j = backslash) \<and> take j dest = cdsCurrentPath c)"

definition tn_join :: "u8 list \<Rightarrow> u16 \<Rightarrow> ('w, 'a) job_scheme \<Rightarrow> (u16 \<times> u8 list \<times> ldt) option option" where
  "tn_join dest result s =
     (case find (\<lambda>i. joins dest (CDSp s (of_nat i))) [0..<unat (lastdrive s)] of
        None \<Rightarrow> Some None
      | Some i \<Rightarrow>
          let c = CDSp s (of_nat i); j = length (cdsCurrentPath c) in
          if j < 2 then None
          else Some (Some (((result AND 0xffe0) OR of_nat i) AND NOT IS_NETWORK OR (if cdsFlags c AND CDSNETWDRV \<noteq> 0 then IS_NETWORK else 0),
                           [of_nat i + 0x41, colon] @ (if j = length dest then [backslash] else drop j dest), Ldt (of_nat i))))"

text \<open>The steps behind the logical path.\<close>

definition tn_finish ::
  "'w platform \<Rightarrow> u16 \<Rightarrow> u16 \<Rightarrow> u8 list \<Rightarrow> ('w, 'a) job_scheme \<Rightarrow> ((int + (u16 \<times> u8 list)) \<times> ('w, 'a) job_scheme) option" where
  "tn_finish P mode result dest s =
     do {
       j \<leftarrow> (if peek dest 2 \<noteq> slash \<and> mode AND CDS_MODE_SKIP_PHYSICAL = 0 \<and> njoined s \<noteq> 0 then tn_join dest result s else Some None);
       case j of
         Some (r, dest', l) \<Rightarrow> Some (Inr (r, dest'), s\<lparr>current_ldt := l\<rparr>)
       | None \<Rightarrow> do {
           let isdev = (result AND (IS_DEVICE OR IS_NETWORK) = IS_DEVICE);
           (found, s1) \<leftarrow> (if mode AND CDS_MODE_CHECK_DEV_PATH \<noteq> 0 \<and> isdev \<and> peek dest 2 \<noteq> slash then dir_exists P dest s
                          else Some (True, s));
           Some (if \<not> found then Inl DE_PATHNOTFND
                 else Inr (if mode = CDS_MODE_ALLOW_WILDCARDS then (if os_major s = 6 \<and> isdev then 0x3a00 else 0) else result, dest), s1)
         }
     }"

text \<open>The path behind the drive, appended to what \<^verbatim>\<open>tn_start\<close> leaves.\<close>

definition tn_path :: "u16 \<Rightarrow> u8 \<Rightarrow> nat \<Rightarrow> u8 list \<Rightarrow> u8 list \<Rightarrow> ('w, 'a) job_scheme \<Rightarrow> int + u8 list" where
  "tn_path mode rc rootPos p src s =
     (case path_loop rc rootPos False p src of
        Inl e \<Rightarrow> Inl e
      | Inr (wild, p1) \<Rightarrow>
          if wild \<and> mode AND CDS_MODE_ALLOW_WILDCARDS = 0 then Inl DE_PATHNOTFND
          else let p2 = (if length p1 = 2 then p1 @ [backslash] else p1)
               in Inr (take rootPos p2 @ DosUpFString s (drop rootPos p2)))"

definition tn_local ::
  "'w platform \<Rightarrow> 'w media_driver \<Rightarrow> u16 \<Rightarrow> u16 \<Rightarrow> u16 \<Rightarrow> u8 list \<Rightarrow> ('w, 'a) job_scheme \<Rightarrow>
    ((int + (u16 \<times> u8 list)) \<times> ('w, 'a) job_scheme) option" where
  "tn_local P E mode drive result src0 s =
     (let (d2, result1, src) = tn_device result (if peek src0 1 = colon then drop 2 src0 else src0) s in
      if d2 = slash then
        case tn_path mode slash 2 [ucast (result AND 0x1f) + 0x41, colon] src s of
          Inl e \<Rightarrow> Some (Inl e, s)
        | Inr dest \<Rightarrow> tn_finish P mode result1 dest s
      else if \<not> cds_path_ok (TempCDS s) then None
      else do {
        (ok, s1) \<leftarrow> tn_curdir P E drive s;
        if \<not> ok then Some (Inl DE_PATHNOTFND, s1)
        else
          let (p, rootPos, result2, src1) = tn_start mode result1 src s1 in
          case tn_path mode backslash rootPos p src1 s1 of
            Inl e \<Rightarrow> Some (Inl e, s1)
          | Inr dest \<Rightarrow> tn_finish P mode result2 dest s1
      })"

definition truename ::
  "'w platform \<Rightarrow> 'w media_driver \<Rightarrow> ('w, 'v) remote_scheme \<Rightarrow> u8 list \<Rightarrow> u16 \<Rightarrow> ('w, 'a) job_scheme \<Rightarrow>
    ((int + (u16 \<times> u8 list)) \<times> ('w, 'a) job_scheme) option" where
  "truename P E V src mode s =
     (if src = [] then Some (Inl DE_FILENOTFND, s)
      else if peek src 0 = backslash \<and> peek src 1 = backslash then
        Some (case unc_copy (src @ [0]) src [] of Inl e \<Rightarrow> (Inl e, s) | Inr p \<Rightarrow> (Inr (IS_NETWORK, butlast p), s\<lparr>current_ldt := UncLdt\<rparr>))
      else
        case tn_cds src (IsDevice P src s \<noteq> None) mode s of
          None \<Rightarrow> Some (Inl DE_PATHNOTFND, s)
        | Some (drive, c) \<Rightarrow>
            let s1 = s\<lparr>TempCDS := c, current_ldt := Ldt drive\<rparr>;
                result = drive OR (if cdsFlags c AND CDSNETWDRV \<noteq> 0 then IS_NETWORK else 0)
                               OR (if IsDevice P src s \<noteq> None then IS_DEVICE else 0);
                (r, dest, w) = (if mode AND CDS_MODE_SKIP_PHYSICAL = 0 then QRemote_Fn V src (world s1) else (DE_FILENOTFND, [], world s1));
                s2 = s1\<lparr>world := w\<rparr>
            in if mode AND CDS_MODE_SKIP_PHYSICAL = 0 \<and> r = SUCCESS \<and> dest \<noteq> []
               then Some (Inr (if peek dest 2 = slash \<and> result AND IS_DEVICE \<noteq> 0 then result AND NOT IS_NETWORK else result, dest), s2)
               else tn_local P E mode drive result src s2)"

end
