(* ===== verification/Handles.thy ===== *)
theory Handles
  imports Truename
begin

text \<open>
  File handles and the calls on names, \<^verbatim>\<open>kernel/dosfns.c\<close> and the rest of \<^verbatim>\<open>kernel/newstuff.c\<close>. A process has a table of
  bytes, one for each handle, which is the index of an entry of the system file table or FFh for a handle that is
  not in use; the entry counts the handles of all processes that refer to it. The table is a function from the
  handle, as the code writes behind its end in one place.

  The network redirector and SHARE are programs outside the kernel, reached through interrupt 2Fh; they are the
  parameter \<^verbatim>\<open>V\<close>. What they read of the kernel's data, the names and the drive, they get as arguments.
\<close>

record 'w net = "'w remote" +
  remote_call :: "u16 \<Rightarrow> u8 list \<Rightarrow> u8 list \<Rightarrow> 'w \<Rightarrow> int \<times> 'w"
  remote_open :: "u16 \<Rightarrow> u16 \<Rightarrow> u16 \<Rightarrow> u8 list \<Rightarrow> sft \<Rightarrow> 'w \<Rightarrow> int \<times> sft \<times> 'w"
  remote_lseek :: "sft \<Rightarrow> u32 \<Rightarrow> 'w \<Rightarrow> u32 \<times> 'w"
  remote_getspace :: "u16 \<Rightarrow> cds \<Rightarrow> 'w \<Rightarrow> int \<times> (nat \<Rightarrow> u16) \<times> 'w"
  remote_find :: "u16 \<Rightarrow> u8 list \<Rightarrow> u8 \<Rightarrow> dmatch \<Rightarrow> dirent \<Rightarrow> 'w \<Rightarrow> int \<times> dmatch \<times> dirent \<times> 'w"
  remote_setattr :: "u16 \<Rightarrow> u8 list \<Rightarrow> 'w \<Rightarrow> int \<times> 'w"
  remote_lock :: "sft \<Rightarrow> u32 \<Rightarrow> u32 \<Rightarrow> int \<Rightarrow> 'w \<Rightarrow> int \<times> 'w"
  share_open_check :: "u8 list \<Rightarrow> u16 \<Rightarrow> u16 \<Rightarrow> u16 \<Rightarrow> 'w \<Rightarrow> u16 \<times> 'w"
  share_is_file_open :: "u8 list \<Rightarrow> 'w \<Rightarrow> bool \<times> 'w"
  share_lock_unlock :: "u16 \<Rightarrow> u16 \<Rightarrow> u32 \<Rightarrow> u32 \<Rightarrow> int \<Rightarrow> 'w \<Rightarrow> int \<times> 'w"

abbreviation (input) DE_INVLDACC :: int where "DE_INVLDACC \<equiv> -12"
abbreviation (input) DE_DEVICE :: int where "DE_DEVICE \<equiv> -17"
abbreviation (input) DE_LOCK :: int where "DE_LOCK \<equiv> -39"
abbreviation (input) SFT_MASK :: u16 where "SFT_MASK \<equiv> 0x0060"
abbreviation (input) SFT_FEOF :: u16 where "SFT_FEOF \<equiv> 0x0040"
abbreviation (input) SFT_FOCRM :: u16 where "SFT_FOCRM \<equiv> 0x0800"
abbreviation (input) O_LEGACY :: u16 where "O_LEGACY \<equiv> 0x0800"
abbreviation (input) O_RDWR :: u16 where "O_RDWR \<equiv> 0x0002"
abbreviation (input) O_NOINHERIT :: u16 where "O_NOINHERIT \<equiv> 0x0080"
abbreviation (input) O_VALIDMASK :: u16 where "O_VALIDMASK \<equiv> 0xfff3"
abbreviation (input) FAT_MAGIC16 :: "'n::len word" where "FAT_MAGIC16 \<equiv> 65525"

section \<open>Entries and handles\<close>

definition get_sft_idx :: "u16 \<Rightarrow> ('w, 'a) job_scheme \<Rightarrow> int" where
  "get_sft_idx hndl s =
     (if hndl \<ge> ps_maxfiles s then DE_INVLDHNDL
      else let idx = ps_filetab s (unat hndl) in if idx = 0xff then DE_INVLDHNDL else uint idx)"

definition get_sft :: "u16 \<Rightarrow> ('w, 'a) job_scheme \<Rightarrow> (nat \<times> nat) option \<times> ('w, 'a) job_scheme" where
  "get_sft hndl s = idx_to_sft (get_sft_idx hndl s) s"

abbreviation (input) set_hndl :: "u16 \<Rightarrow> u8 \<Rightarrow> ('w, 'a) job_scheme \<Rightarrow> ('w, 'a) job_scheme" where
  "set_hndl hndl idx s \<equiv> s\<lparr>ps_filetab := (ps_filetab s)(unat hndl := idx)\<rparr>"

text \<open>The first handle of the table that is free.\<close>

definition get_free_hndl :: "('w, 'a) job_scheme \<Rightarrow> u16 option" where
  "get_free_hndl s = map_option of_nat (find (\<lambda>h. ps_filetab s h = 0xff) [0..<unat (ps_maxfiles s)])"

fun free_entry :: "nat \<Rightarrow> sft list \<Rightarrow> nat option" where
  "free_entry i [] = None"
| "free_entry i (sfti # sfts) = (if sft_count sfti = 0 then Some i else free_entry (i + 1) sfts)"

fun free_loop :: "nat \<Rightarrow> nat \<Rightarrow> sft list list \<Rightarrow> ((nat \<times> nat) \<times> nat) option" where
  "free_loop t sys_idx [] = None"
| "free_loop t sys_idx (sp # sps) =
     (case free_entry 0 sp of Some i \<Rightarrow> Some ((t, i), sys_idx + i) | None \<Rightarrow> free_loop (t + 1) (sys_idx + length sp) sps)"

definition get_free_sft :: "('w, 'a) job_scheme \<Rightarrow> ((nat \<times> nat) \<times> nat) option \<times> ('w, 'a) job_scheme" where
  "get_free_sft s =
     (case free_loop 0 0 (sfthead s) of
        None \<Rightarrow> (None, s)
      | Some (p, sys_idx) \<Rightarrow> (Some (p, sys_idx), s\<lparr>current_sft_idx := of_nat sys_idx\<rparr>))"

section \<open>Duplicating and closing\<close>

definition DosClose ::
  "'w platform \<Rightarrow> ('w, 'v) services_scheme \<Rightarrow> u16 \<Rightarrow> ('w, 'a) job_scheme \<Rightarrow> (int \<times> ('w, 'a) job_scheme) option" where
  "DosClose P V hndl s =
     (let sft_idx = get_sft_idx hndl s; (q, s1) = idx_to_sft sft_idx s in
      if q = None then Some (DE_INVLDHNDL, s1)
      else DosCloseSft P V sft_idx False (set_hndl hndl 0xff s1))"

definition CloneHandle :: "u16 \<Rightarrow> ('w, 'a) job_scheme \<Rightarrow> int \<times> ('w, 'a) job_scheme" where
  "CloneHandle hndl s =
     (let (q, s1) = get_sft hndl s in
      case q of
        None \<Rightarrow> (DE_INVLDHNDL, s1)
      | Some p \<Rightarrow>
          if sft_mode (sft_at p s1) AND O_NOINHERIT \<noteq> 0 then (DE_INVLDHNDL, s1)
          else (SUCCESS, upd_sft p (\<lambda>f. f\<lparr>sft_count := sft_count f + 1\<rparr>) s1))"

definition DosForceDup ::
  "'w platform \<Rightarrow> ('w, 'v) services_scheme \<Rightarrow> u16 \<Rightarrow> u16 \<Rightarrow> ('w, 'a) job_scheme \<Rightarrow> (int \<times> ('w, 'a) job_scheme) option" where
  "DosForceDup P V OldHandle NewHandle s =
     (let (q, s1) = get_sft OldHandle s in
      case q of
        None \<Rightarrow> Some (DE_INVLDHNDL, s1)
      | Some p \<Rightarrow> do {
          (ret, s2) \<leftarrow> (if ps_filetab s1 (unat NewHandle) \<noteq> 0xff then DosClose P V NewHandle s1 else Some (SUCCESS, s1));
          if ret \<noteq> SUCCESS then Some (ret, s2)
          else
            let s3 = set_hndl NewHandle (ps_filetab s2 (unat OldHandle)) s2
            in Some (SUCCESS, upd_sft p (\<lambda>f. f\<lparr>sft_count := sft_count f + 1\<rparr>) s3)
        })"

definition DosDup ::
  "'w platform \<Rightarrow> ('w, 'v) services_scheme \<Rightarrow> u16 \<Rightarrow> ('w, 'a) job_scheme \<Rightarrow> ((int + u16) \<times> ('w, 'a) job_scheme) option" where
  "DosDup P V Handle s =
     (case get_free_hndl s of
        None \<Rightarrow> Some (Inl DE_TOOMANY, s)
      | Some NewHandle \<Rightarrow> do {
          (ret, s1) \<leftarrow> DosForceDup P V Handle NewHandle s;
          Some (if ret < 0 then Inl DE_INVLDHNDL else Inr NewHandle, s1)
        })"

section \<open>Opening\<close>

definition zero_sft :: sft where
  "zero_sft = \<lparr>sft_count = 0, sft_mode = 0, sft_attrib = 0, sft_flags = 0, sft_dcb = 0, sft_relclust_high = 0, sft_time = 0, sft_date = 0,
     sft_size = 0, sft_posit = 0, sft_relclust = 0, sft_dirsector = 0, sft_diridx = 0, sft_name = replicate 11 0, sft_stclust = 0,
     sft_mach = 0, sft_psp = 0, sft_shroff = 0, sft_cuclust = 0\<rparr>"

definition set_fcbname :: "('w, 'a) job_scheme \<Rightarrow> ('w, 'a) job_scheme" where
  "set_fcbname s = s\<lparr>DirEntBuffer := fst (ConvertNameSZToName83 (get_root (PriPathName s)))\<rparr>"

text \<open>The zeros at the end of a name become blanks. A name without another character is not expected here.\<close>

definition pad_name :: "u8 list \<Rightarrow> u8 list" where
  "pad_name nm = (let n = length (takeWhile (\<lambda>c. c = 0) (rev nm)) in take (length nm - n) nm @ replicate n 0x20)"

definition DeviceOpenSft ::
  "'w platform \<Rightarrow> dhdr \<Rightarrow> nat \<times> nat \<Rightarrow> ('w, 'a) job_scheme \<Rightarrow> (int \<times> ('w, 'a) job_scheme) option" where
  "DeviceOpenSft P dhp p s =
     do {
       let attr = dh_attr P (dh_addr dhp);
       let s1 = upd_sft p (\<lambda>f. f\<lparr>sft_shroff := 0xffff, sft_count := sft_count f + 1,
         sft_flags := (attr AND NOT (SFT_MASK OR SFT_FSHARED)) OR SFT_FDEVICE OR SFT_FEOF,
         sft_name := DosUpFMem s (pad_name (take 8 (dh_name dhp) @ drop 8 (sft_name f))), sft_dcb := dh_addr dhp\<rparr>) s;
       (d, s2) \<leftarrow> dos_getdate P s1;
       (t, s3) \<leftarrow> dos_gettime P s2;
       let s4 = upd_sft p (\<lambda>f. f\<lparr>sft_date := d, sft_time := t, sft_attrib := D_DEVICE\<rparr>) s3;
       if attr AND SFT_FOCRM \<noteq> 0 then do {
         (r, _, s5) \<leftarrow> BinaryCharIO P (dh_addr dhp) 0 (\<lambda>_. 0) 0x0d s4;
         Some (if r \<noteq> SUCCESS then DE_ACCESS else SUCCESS, s5)
       }
       else Some (SUCCESS, s4)
     }"

text \<open>The branch for files of the redirector: the command, the value of \<^verbatim>\<open>attrib\<close>, and the status.\<close>

definition open_remote ::
  "('w, 'v) net_scheme \<Rightarrow> nat \<times> nat \<Rightarrow> nat \<Rightarrow> u16 \<Rightarrow> u16 \<Rightarrow> ('w, 'a) job_scheme \<Rightarrow> (int + (nat \<times> int)) \<times> ('w, 'a) job_scheme" where
  "open_remote V p sft_idx flags attrib s =
     (let attrib1 = (if flags AND (O_TRUNC OR O_CREAT) = O_CREAT then attrib OR 0x100 else attrib);
          cmd = (if flags AND O_LEGACY = 0 then 0x112e else if flags AND O_CREAT = 0 then 0x1116 else 0x1117);
          attrib2 = (if flags AND O_LEGACY \<noteq> 0 \<and> flags AND O_CREAT = 0 then scast (ucast flags :: u8) else attrib1);
          s1 = s\<lparr>lpCurSft := Some p\<rparr>;
          (status, sf, w) = remote_open V cmd attrib2 flags (PriPathName s) (sft_at p s1) (world s1);
          s2 = upd_sft p (\<lambda>_. sf) (s1\<lparr>world := w\<rparr>)
      in if status \<ge> SUCCESS then
           (Inr (sft_idx, status), if sft_count sf = 0 then upd_sft p (\<lambda>f. f\<lparr>sft_count := 1\<rparr>) s2 else s2)
         else (Inl status, s2))"

text \<open>The branch for local files.\<close>

definition open_local ::
  "'w platform \<Rightarrow> ('w, 'v) net_scheme \<Rightarrow> nat \<times> nat \<Rightarrow> nat \<Rightarrow> u16 \<Rightarrow> u16 \<Rightarrow> ('w, 'a) job_scheme \<Rightarrow>
    ((int + (nat \<times> int)) \<times> ('w, 'a) job_scheme) option" where
  "open_local P V p sft_idx flags attrib s =
     (if flags AND O_ACCMODE > 2 then Some (Inl DE_INVLDACC, s)
      else if flags AND O_FCB = 0 \<and> attrib AND NOT 0x2f \<noteq> 0 then Some (Inl DE_ACCESS, s)
      else
        let (share, s1) = IsShareInstalled V True s;
            (off, w) = (if share then share_open_check V (PriPathName s1) (cu_psp (arena s1)) (flags AND 3) (drop_bit 4 flags AND 7) (world s1)
                        else (sft_shroff (sft_at p s1), world s1));
            s2 = upd_sft p (\<lambda>f. f\<lparr>sft_shroff := off\<rparr>) (s1\<lparr>world := w\<rparr>)
        in if share \<and> bit off 15 then Some (Inl (sint off), s2)
           else do {
             let s3 = upd_sft p (\<lambda>f. f\<lparr>sft_count := sft_count f + 1, sft_flags := scast (peek (PriPathName s2) 0) - 0x41\<rparr>) s2;
             (result, s4) \<leftarrow> dos_open P (PriPathName s3) flags attrib (int sft_idx) s3;
             if result < 0 then
               let sh = sft_shroff (sft_at p s4);
                   s5 = (if \<not> bit sh 15 then upd_sft p (\<lambda>f. f\<lparr>sft_shroff := 0xffff\<rparr>) (s4\<lparr>world := share_close_file V sh (world s4)\<rparr>) else s4)
               in Some (Inl result, upd_sft p (\<lambda>f. f\<lparr>sft_count := sft_count f - 1\<rparr>) s5)
             else Some (Inr (sft_idx, result), s4)
           })"

definition DosOpenSft ::
  "'w platform \<Rightarrow> 'w media_driver \<Rightarrow> ('w, 'v) net_scheme \<Rightarrow> u8 list \<Rightarrow> u16 \<Rightarrow> u16 \<Rightarrow> ('w, 'a) job_scheme \<Rightarrow>
    ((int + (nat \<times> int)) \<times> ('w, 'a) job_scheme) option" where
  "DosOpenSft P E V fname flags attrib0 s =
     do {
       (q, s1) \<leftarrow> truename P E V fname CDS_MODE_CHECK_DEV_PATH s;
       case q of
         Inl e \<Rightarrow> Some (Inl e, s1)
       | Inr (result, name) \<Rightarrow>
           let (q, s2) = get_free_sft (set_fcbname (s1\<lparr>PriPathName := name\<rparr>)) in
           case q of
             None \<Rightarrow> Some (Inl DE_TOOMANY, s2)
           | Some (p, sft_idx) \<Rightarrow>
               let attrib = attrib0 OR 0x20;
                   s3 = (upd_sft p (\<lambda>_. zero_sft\<lparr>sft_psp := cu_psp (arena s2), sft_mode := flags AND 0xf0ff, sft_shroff := 0xffff,
                     sft_attrib := ucast attrib\<rparr>) s2)\<lparr>OpenMode := ucast flags\<rparr>
               in case (if result AND IS_DEVICE \<noteq> 0 then IsDevice P fname s3 else None) of
                    Some dhp \<Rightarrow> do {
                      (rc, s4) \<leftarrow> DeviceOpenSft P dhp p s3;
                      Some (if rc < SUCCESS then Inl rc else Inr (sft_idx, 0), s4)
                    }
                  | None \<Rightarrow>
                      if result AND IS_NETWORK \<noteq> 0 then Some (open_remote V p sft_idx flags attrib s3)
                      else open_local P V p sft_idx flags attrib s3
     }"

definition DosOpen ::
  "'w platform \<Rightarrow> 'w media_driver \<Rightarrow> ('w, 'v) net_scheme \<Rightarrow> u8 list \<Rightarrow> u16 \<Rightarrow> u16 \<Rightarrow> ('w, 'a) job_scheme \<Rightarrow>
    ((int + (u16 \<times> int)) \<times> ('w, 'a) job_scheme) option" where
  "DosOpen P E V fname mode attrib s =
     (if mode AND NOT O_VALIDMASK \<noteq> 0 then Some (Inl DE_INVLDACC, s)
      else
        case get_free_hndl s of
          None \<Rightarrow> Some (Inl DE_TOOMANY, s)
        | Some hndl \<Rightarrow> do {
            (q, s1) \<leftarrow> DosOpenSft P E V fname mode attrib s;
            Some (case q of
              Inl e \<Rightarrow> (Inl e, s1)
            | Inr (sft_idx, status) \<Rightarrow> (Inr (hndl, status), set_hndl hndl (of_nat sft_idx) s1))
          })"

section \<open>Positions and times\<close>

definition SftSeek2 ::
  "('w, 'v) net_scheme \<Rightarrow> int \<Rightarrow> u32 \<Rightarrow> u16 \<Rightarrow> ('w, 'a) job_scheme \<Rightarrow> (int + u32) \<times> ('w, 'a) job_scheme" where
  "SftSeek2 V sft_idx new_pos mode s =
     (let (q, s1) = idx_to_sft sft_idx s in
      case q of
        None \<Rightarrow> (Inl DE_INVLDHNDL, s1)
      | Some p \<Rightarrow>
          if mode > 2 then (Inl DE_INVLDFUNC, s1)
          else
            let s2 = s1\<lparr>lpCurSft := Some p\<rparr>; sf = sft_at p s2;
                (pos, w) =
                  (if sft_flags sf AND SFT_FDEVICE \<noteq> 0 then (0, world s2)
                   else if mode = 1 then (new_pos + sft_posit sf, world s2)
                   else if mode = 2 then
                     if sft_flags sf AND SFT_FSHARED \<noteq> 0 \<and> sft_mode sf AND 0x70 \<noteq> 0 then remote_lseek V sf new_pos (world s2)
                     else (new_pos + sft_size sf, world s2)
                   else (new_pos, world s2))
            in (Inr pos, upd_sft p (\<lambda>f. f\<lparr>sft_posit := pos\<rparr>) (s2\<lparr>world := w\<rparr>)))"

definition SftSeek :: "('w, 'v) net_scheme \<Rightarrow> int \<Rightarrow> u32 \<Rightarrow> u16 \<Rightarrow> ('w, 'a) job_scheme \<Rightarrow> int \<times> ('w, 'a) job_scheme" where
  "SftSeek V sft_idx new_pos mode s =
     (let (r, s1) = SftSeek2 V sft_idx new_pos mode s in (case r of Inl e \<Rightarrow> e | Inr _ \<Rightarrow> SUCCESS, s1))"

definition DosSeek :: "('w, 'v) net_scheme \<Rightarrow> u16 \<Rightarrow> u32 \<Rightarrow> u16 \<Rightarrow> ('w, 'a) job_scheme \<Rightarrow> (int + u32) \<times> ('w, 'a) job_scheme" where
  "DosSeek V hndl new_pos mode s = SftSeek2 V (get_sft_idx hndl s) new_pos mode s"

definition DosGetFtime :: "u16 \<Rightarrow> ('w, 'a) job_scheme \<Rightarrow> (int + (u16 \<times> u16)) \<times> ('w, 'a) job_scheme" where
  "DosGetFtime hndl s =
     (let (q, s1) = get_sft hndl s in
      (case q of None \<Rightarrow> Inl DE_INVLDHNDL | Some p \<Rightarrow> Inr (sft_date (sft_at p s1), sft_time (sft_at p s1)), s1))"

definition DosSetFtimeSft :: "int \<Rightarrow> u16 \<Rightarrow> u16 \<Rightarrow> ('w, 'a) job_scheme \<Rightarrow> int \<times> ('w, 'a) job_scheme" where
  "DosSetFtimeSft sft_idx dp tp s =
     (let (q, s1) = idx_to_sft sft_idx s in
      case q of
        None \<Rightarrow> (DE_INVLDHNDL, s1)
      | Some p \<Rightarrow>
          (SUCCESS,
           if sft_flags (sft_at p s1) AND SFT_FDEVICE \<noteq> 0 then s1
           else upd_sft p (\<lambda>f. f\<lparr>sft_flags := sft_flags f OR SFT_FDATE, sft_date := dp, sft_time := tp\<rparr>) s1))"

definition DosLockUnlock ::
  "('w, 'v) net_scheme \<Rightarrow> u16 \<Rightarrow> u32 \<Rightarrow> u32 \<Rightarrow> int \<Rightarrow> ('w, 'a) job_scheme \<Rightarrow> int \<times> ('w, 'a) job_scheme" where
  "DosLockUnlock V hndl pos len unlock s =
     (let (q, s1) = get_sft hndl s in
      case q of
        None \<Rightarrow> (DE_INVLDHNDL, s1)
      | Some p \<Rightarrow>
          let sf = sft_at p s1 in
          if sft_flags sf AND SFT_FSHARED \<noteq> 0 then
            let (r, w) = remote_lock V sf pos len unlock (world s1) in (r, s1\<lparr>world := w\<rparr>)
          else if \<not> share_installed s1 then (DE_INVLDFUNC, s1)
          else if bit (sft_shroff sf) 15 then (DE_LOCK, s1)
          else
            let (r, w) = share_lock_unlock V (cu_psp (arena s1)) (sft_shroff sf) pos len unlock (world s1) in (r, s1\<lparr>world := w\<rparr>))"

section \<open>Drives and free space\<close>

definition GetDriveDPB :: "u8 \<Rightarrow> ('w, 'a) job_scheme \<Rightarrow> int + u32" where
  "GetDriveDPB drive s =
     (case get_cds1 (ucast drive) s of
        None \<Rightarrow> Inl DE_INVLDDRV
      | Some cdsp \<Rightarrow> if cdsDpb cdsp = 0 \<or> cdsFlags cdsp AND CDSNETWDRV \<noteq> 0 then Inl DE_INVLDDRV else Inr (cdsDpb cdsp))"

definition DosSelectDrv :: "u8 \<Rightarrow> ('w, 'a) job_scheme \<Rightarrow> u8 \<times> ('w, 'a) job_scheme" where
  "DosSelectDrv drv s =
     (case get_cds (ucast drv) s of
        None \<Rightarrow> (lastdrive s, s\<lparr>current_ldt := NoLdt\<rparr>)
      | Some _ \<Rightarrow> (lastdrive s, s\<lparr>current_ldt := Ldt (ucast drv), default_drive := drv\<rparr>))"

text \<open>The shifts that make the numbers of a FAT32 volume fit, and the doubling of small clusters.\<close>

function shift_free :: "u32 \<Rightarrow> u16 \<Rightarrow> u32 \<Rightarrow> u32 \<Rightarrow> u16 \<times> u32 \<times> u32" where
  "shift_free cluster_size spc ntotal nfree =
     (if ntotal > FAT_MAGIC16 \<and> cluster_size < 0x8000
      then shift_free (push_bit 1 cluster_size) (push_bit 1 spc) (drop_bit 1 ntotal) (drop_bit 1 nfree)
      else (spc, ntotal, nfree))"
  by pat_completeness auto
termination
proof (relation "measure (\<lambda>(c, spc, n, f). unat n)", goal_cases)
  case (2 c spc n f)
  then have "0 < unat n" by (simp add: word_less_nat_alt)
  then show ?case by (simp add: drop_bit_eq_div unat_div)
qed simp

declare shift_free.simps [simp del]

definition clip16 :: "u32 \<Rightarrow> u16" where
  "clip16 n = (if n > FAT_MAGIC16 then FAT_MAGIC16 else ucast n)"

definition double16 :: "u16 \<Rightarrow> u16" where
  "double16 n = (if n < FAT_MAGIC16 div 2 then push_bit 1 n else FAT_MAGIC16)"

text \<open>
  \<^verbatim>\<open>DosGetFree\<close>: sectors per cluster, and the free clusters, the bytes of a sector and the clusters of the drive.
  \<^verbatim>\<open>count\<close> is false when the caller passes no pointer for the free clusters, which are then 0 here.
\<close>

definition local_free ::
  "'w platform \<Rightarrow> bool \<Rightarrow> u32 \<Rightarrow> ('w, 'a) job_scheme \<Rightarrow> ((u16 \<times> u16 \<times> u16 \<times> u16) \<times> ('w, 'a) job_scheme) option" where
  "local_free P count dpbp s =
     do {
       let d = dpbs s dpbp;
       let spc = ucast (dpb_clsmask d) + 1;
       (nfree, s1) \<leftarrow> (if count then dos_free P dpbp s else Some (0, s));
       Some (if ISFAT32 d then
               let (spc', ntotal, nfree') = shift_free (push_bit (unat (dpb_shftcnt d)) (ucast (dpb_secsize d))) spc (dpb_xsize d - 1) nfree
               in ((spc', clip16 nfree', dpb_secsize d, clip16 ntotal), s1)
             else
               let navc = ucast nfree; nc = dpb_size (dpbs s1 dpbp) - 1 in
               if spc > 64 then ((drop_bit 1 spc, double16 navc, dpb_secsize d, double16 nc), s1)
               else ((spc, navc, dpb_secsize d, nc), s1))
     }"

definition DosGetFree ::
  "'w platform \<Rightarrow> 'w media_driver \<Rightarrow> ('w, 'v) net_scheme \<Rightarrow> u8 \<Rightarrow> bool \<Rightarrow> ('w, 'a) job_scheme \<Rightarrow>
    ((u16 \<times> u16 \<times> u16 \<times> u16) option \<times> ('w, 'a) job_scheme) option" where
  "DosGetFree P E V drive count s =
     (let drv = (if drive = 0 then scast (default_drive s) else ucast drive - 1) in
      case get_cds1 (ucast drive) s of
        None \<Rightarrow> Some (None, s)
      | Some cdsp \<Rightarrow>
          let s1 = s\<lparr>current_ldt := Ldt drv\<rparr> in
          if cdsFlags cdsp AND CDSNETWDRV \<noteq> 0 then
            let (r, rg, w) = remote_getspace V 0x110c cdsp (world s1) in
            Some (if r \<noteq> SUCCESS then None else Some (if count then rg 0 AND 0xff else rg 0, if count then rg 3 else 0, rg 2, rg 1), s1\<lparr>world := w\<rparr>)
          else if cdsDpb cdsp = 0 then Some (None, s1)
          else do {
            let dpbp = cdsDpb cdsp;
            s2 \<leftarrow> (if count then Some s1
                   else do {
                     (_, s2) \<leftarrow> flush_buffers P (scast (dpb_unit (dpbs s1 dpbp))) s1;
                     Some (upd_dpb dpbp (\<lambda>d. d\<lparr>dpb_flags := 0xff\<rparr>) s2)
                   });
            (r, s3) \<leftarrow> media_check P E dpbp s2;
            if r < 0 then Some (None, s3)
            else map_option (\<lambda>(v, s4). (Some v, s4)) (local_free P count dpbp s3)
          })"

record xfreespace =
  xfs_datasize :: u16
  xfs_clussize :: u32
  xfs_secsize :: u32
  xfs_freeclusters :: u32
  xfs_totalclusters :: u32
  xfs_freesectors :: u32
  xfs_totalsectors :: u32
  xfs_freeunits :: u32
  xfs_totalunits :: u32

text \<open>The loops that fit the answer of a large redirected drive: sectors per cluster, then bytes of a sector.\<close>

function halve_spc :: "u32 \<Rightarrow> u32 \<Rightarrow> u32 \<Rightarrow> u32 \<times> u32 \<times> u32" where
  "halve_spc spc avail ntot =
     (if ntot > 0xffffff \<and> spc < 128 then halve_spc (spc * 2) (avail div 2) (ntot div 2) else (spc, avail, ntot))"
  by pat_completeness auto
termination
proof (relation "measure (\<lambda>(spc, a, t). unat t)", goal_cases)
  case (2 spc a t)
  then have "0 < unat t" by (simp add: word_less_nat_alt)
  then show ?case by (simp add: unat_div)
qed simp

function halve_bps :: "u32 \<Rightarrow> u32 \<Rightarrow> u32 \<Rightarrow> u32 \<times> u32 \<times> u32" where
  "halve_bps bps avail ntot =
     (if ntot > 0xffffff \<and> bps < 32768 then halve_bps (bps * 2) (avail div 2) (ntot div 2) else (bps, avail, ntot))"
  by pat_completeness auto
termination
proof (relation "measure (\<lambda>(bps, a, t). unat t)", goal_cases)
  case (2 bps a t)
  then have "0 < unat t" by (simp add: word_less_nat_alt)
  then show ?case by (simp add: unat_div)
qed simp

declare halve_spc.simps [simp del] halve_bps.simps [simp del]

abbreviation (input) xfs :: "u32 \<Rightarrow> u32 \<Rightarrow> u32 \<Rightarrow> u32 \<Rightarrow> xfreespace" where
  "xfs clus sec fr ntot \<equiv> \<lparr>xfs_datasize = 44, xfs_clussize = clus, xfs_secsize = sec, xfs_freeclusters = fr, xfs_totalclusters = ntot,
     xfs_freesectors = fr * clus, xfs_totalsectors = ntot * clus, xfs_freeunits = fr, xfs_totalunits = ntot\<rparr>"

definition remote_extfree :: "('w, 'v) net_scheme \<Rightarrow> cds \<Rightarrow> 'w \<Rightarrow> (int + xfreespace) \<times> 'w" where
  "remote_extfree V cdsp w =
     (let (r, rg, w1) = remote_getspace V 0x11a3 cdsp w in
      if r \<noteq> SUCCESS then
        let (r, rg, w2) = remote_getspace V 0x110c cdsp w1 in
        (if r \<noteq> SUCCESS then Inl DE_INVLDDRV else Inr (xfs (ucast (rg 0)) (ucast (rg 2)) (ucast (rg 3)) (ucast (rg 1))), w2)
      else
        let (spc, avail, ntot) = halve_spc 1 (push_bit 16 (ucast (rg 2)) OR ucast (rg 3)) (push_bit 16 (ucast (rg 0)) OR ucast (rg 1));
            (bps, avail', ntot') = halve_bps (ucast (rg 4)) avail ntot
        in (Inr (xfs spc bps avail' ntot'), w1))"

definition DosGetExtFree ::
  "'w platform \<Rightarrow> 'w media_driver \<Rightarrow> ('w, 'v) net_scheme \<Rightarrow> u8 list \<Rightarrow> ('w, 'a) job_scheme \<Rightarrow>
    ((int + xfreespace) \<times> ('w, 'a) job_scheme) option" where
  "DosGetExtFree P E V DriveString s =
     (let c0 = peek DriveString 0; c1 = peek DriveString 1 in
      case (if c0 = 0 \<or> c0 = dot \<or> (is_sep c0 \<and> \<not> is_sep c1) then get_cds (scast (default_drive s)) s
            else if c1 = colon then get_cds (ucast (DosUpFChar s c0) - 0x41) s else None) of
        None \<Rightarrow> Some (Inl DE_INVLDDRV, s)
      | Some cdsp \<Rightarrow>
          if cdsFlags cdsp AND CDSNETWDRV \<noteq> 0 then
            let (r, w) = remote_extfree V cdsp (world s) in Some (r, s\<lparr>world := w\<rparr>)
          else if cdsDpb cdsp = 0 then Some (Inl DE_INVLDDRV, s)
          else do {
            (r, s1) \<leftarrow> media_check P E (cdsDpb cdsp) s;
            if r < 0 then Some (Inl DE_INVLDDRV, s1)
            else do {
              let d = dpbs s1 (cdsDpb cdsp);
              (nfree, s2) \<leftarrow> dos_free P (cdsDpb cdsp) s1;
              Some (Inr (xfs (ucast (dpb_clsmask d) + 1) (ucast (dpb_secsize d)) nfree (max_cluster d - 1)), s2)
            }
          })"

section \<open>Calls on names\<close>

text \<open>Every call starts with the qualified name of its argument, in the primary buffer.\<close>

definition pri_name ::
  "'w platform \<Rightarrow> 'w media_driver \<Rightarrow> ('w, 'v) remote_scheme \<Rightarrow> u8 list \<Rightarrow> u16 \<Rightarrow> ('w, 'a) job_scheme \<Rightarrow>
    ((int + u16) \<times> ('w, 'a) job_scheme) option" where
  "pri_name P E V name mode s =
     do {
       (q, s1) \<leftarrow> truename P E V name mode s;
       Some (case q of Inl e \<Rightarrow> (Inl e, s1) | Inr (result, dest) \<Rightarrow> (Inr result, s1\<lparr>PriPathName := dest\<rparr>))
     }"

definition redirect :: "('w, 'v) net_scheme \<Rightarrow> u16 \<Rightarrow> ('w, 'a) job_scheme \<Rightarrow> int \<times> ('w, 'a) job_scheme" where
  "redirect V cmd s = (let (r, w) = remote_call V cmd (PriPathName s) (SecPathName s) (world s) in (r, s\<lparr>world := w\<rparr>))"

definition share_open :: "('w, 'v) net_scheme \<Rightarrow> u8 list \<Rightarrow> ('w, 'a) job_scheme \<Rightarrow> bool \<times> ('w, 'a) job_scheme" where
  "share_open V path s =
     (let (share, s1) = IsShareInstalled V True s in
      if \<not> share then (False, s1)
      else let (r, w) = share_is_file_open V path (world s1) in (r, s1\<lparr>world := w\<rparr>))"

definition DosTruename ::
  "'w platform \<Rightarrow> 'w media_driver \<Rightarrow> ('w, 'v) remote_scheme \<Rightarrow> u8 list \<Rightarrow> ('w, 'a) job_scheme \<Rightarrow>
    ((int + (u16 \<times> u8 list)) \<times> ('w, 'a) job_scheme) option" where
  "DosTruename P E V src s =
     do {
       (q, s1) \<leftarrow> pri_name P E V src CDS_MODE_ALLOW_WILDCARDS s;
       Some (case q of Inl e \<Rightarrow> (Inl e, s1) | Inr rc \<Rightarrow> (Inr (rc, PriPathName s1), set_fcbname s1))
     }"

definition DosGetCuDir ::
  "'w platform \<Rightarrow> 'w media_driver \<Rightarrow> ('w, 'v) remote_scheme \<Rightarrow> u8 \<Rightarrow> ('w, 'a) job_scheme \<Rightarrow>
    ((int + u8 list) \<times> ('w, 'a) job_scheme) option" where
  "DosGetCuDir P E V drive0 s =
     (let drive = (if drive0 = 0 then default_drive s else drive0 - 1) in
      do {
        (q, s1) \<leftarrow> pri_name P E V [0x41 + (drive AND 0x1f), colon] CDS_MODE_SKIP_PHYSICAL s;
        Some (case q of Inl e \<Rightarrow> Inl DE_INVLDDRV | Inr _ \<Rightarrow> Inr (drop 3 (PriPathName s1)), s1)
      })"

definition DosChangeDir ::
  "'w platform \<Rightarrow> 'w media_driver \<Rightarrow> ('w, 'v) net_scheme \<Rightarrow> u8 list \<Rightarrow> ('w, 'a) job_scheme \<Rightarrow> (int \<times> ('w, 'a) job_scheme) option" where
  "DosChangeDir P E V path s =
     do {
       (q, s1) \<leftarrow> pri_name P E V path CDS_MODE_CHECK_DEV_PATH s;
       case q of
         Inl e \<Rightarrow> Some (DE_PATHNOTFND, s1)
       | Inr result \<Rightarrow>
           let s2 = set_fcbname s1 in
           if current_ldt s2 \<noteq> UncLdt \<and> length (PriPathName s2) \<ge> 67 then Some (DE_PATHNOTFND, s2)
           else do {
             (r, s3) \<leftarrow> (if result AND IS_NETWORK \<noteq> 0 then Some (redirect V 0x1105 s2) else dos_cd P (PriPathName s2) s2);
             if r \<noteq> SUCCESS then Some (r, s3)
             else
               case current_ldt s3 of
                 Ldt d \<Rightarrow> Some (SUCCESS, s3\<lparr>CDSp := (CDSp s3)(d := (CDSp s3 d)\<lparr>cdsCurrentPath := PriPathName s3\<rparr>)\<rparr>)
               | UncLdt \<Rightarrow> Some (SUCCESS, s3)
               | NoLdt \<Rightarrow> None
           }
     }"

definition DosGetFattr ::
  "'w platform \<Rightarrow> 'w media_driver \<Rightarrow> ('w, 'v) net_scheme \<Rightarrow> u8 list \<Rightarrow> ('w, 'a) job_scheme \<Rightarrow> (int \<times> ('w, 'a) job_scheme) option" where
  "DosGetFattr P E V name s =
     do {
       (q, s1) \<leftarrow> pri_name P E V name CDS_MODE_CHECK_DEV_PATH s;
       case q of
         Inl e \<Rightarrow> Some (e, s1)
       | Inr result \<Rightarrow>
           if peek (PriPathName s1) 3 = 0 then Some (0x10, s1)
           else
             let s2 = set_fcbname s1 in
             if result AND IS_NETWORK \<noteq> 0 then Some (redirect V 0x110f s2)
             else if result AND IS_DEVICE \<noteq> 0 then Some (DE_FILENOTFND, s2)
             else dos_getfattr P (PriPathName s2) s2
     }"

definition DosSetFattr ::
  "'w platform \<Rightarrow> 'w media_driver \<Rightarrow> ('w, 'v) net_scheme \<Rightarrow> u8 list \<Rightarrow> u16 \<Rightarrow> ('w, 'a) job_scheme \<Rightarrow> (int \<times> ('w, 'a) job_scheme) option" where
  "DosSetFattr P E V name attrp s =
     do {
       (q, s1) \<leftarrow> pri_name P E V name CDS_MODE_CHECK_DEV_PATH s;
       case q of
         Inl e \<Rightarrow> Some (e, s1)
       | Inr result \<Rightarrow>
           let s2 = set_fcbname s1 in
           if result AND IS_NETWORK \<noteq> 0 then
             let (r, w) = remote_setattr V attrp (PriPathName s2) (world s2) in Some (r, s2\<lparr>world := w\<rparr>)
           else if result AND IS_DEVICE \<noteq> 0 then Some (DE_FILENOTFND, s2)
           else
             let (share, s3) = IsShareInstalled V True s2 in
             if \<not> share then dos_setfattr P V (PriPathName s3) attrp s3
             else
               let (off, w) = share_open_check V (PriPathName s3) (cu_psp (arena s3)) O_RDWR 0 (world s3);
                   s4 = s3\<lparr>world := w\<rparr>
               in if bit off 15 then Some (sint off, s4)
                  else dos_setfattr P V (PriPathName s4) attrp (s4\<lparr>world := share_close_file V off (world s4)\<rparr>)
     }"

definition DosDelete ::
  "'w platform \<Rightarrow> 'w media_driver \<Rightarrow> ('w, 'v) net_scheme \<Rightarrow> u8 list \<Rightarrow> u8 \<Rightarrow> ('w, 'a) job_scheme \<Rightarrow> (int \<times> ('w, 'a) job_scheme) option" where
  "DosDelete P E V path attrib s =
     do {
       (q, s1) \<leftarrow> pri_name P E V path CDS_MODE_CHECK_DEV_PATH s;
       case q of
         Inl e \<Rightarrow> Some (e, s1)
       | Inr result \<Rightarrow>
           let s2 = set_fcbname s1 in
           if result AND IS_NETWORK \<noteq> 0 then Some (redirect V 0x1113 s2)
           else if result AND IS_DEVICE \<noteq> 0 then Some (DE_FILENOTFND, s2)
           else
             let (open1, s3) = share_open V (PriPathName s2) s2 in
             if open1 then Some (DE_ACCESS, s3) else dos_delete P (PriPathName s3) attrib s3
     }"

definition DosRenameTrue ::
  "'w platform \<Rightarrow> ('w, 'v) net_scheme \<Rightarrow> u8 list \<Rightarrow> u8 list \<Rightarrow> u8 \<Rightarrow> ('w, 'a) job_scheme \<Rightarrow> (int \<times> ('w, 'a) job_scheme) option" where
  "DosRenameTrue P V path1 path2 attrib s =
     (if peek path1 0 \<noteq> peek path2 0 then Some (DE_DEVICE, s)
      else do {
        remote \<leftarrow> (case current_ldt s of UncLdt \<Rightarrow> Some True | Ldt d \<Rightarrow> Some (cdsFlags (CDSp s d) AND CDSNETWDRV \<noteq> 0) | NoLdt \<Rightarrow> None);
        if remote then Some (redirect V 0x1111 s)
        else
          let (open1, s1) = share_open V path1 s in
          if open1 then Some (DE_ACCESS, s1) else dos_rename P path1 path2 attrib s1
      })"

definition DosRename ::
  "'w platform \<Rightarrow> 'w media_driver \<Rightarrow> ('w, 'v) net_scheme \<Rightarrow> u8 list \<Rightarrow> u8 list \<Rightarrow> ('w, 'a) job_scheme \<Rightarrow> (int \<times> ('w, 'a) job_scheme) option" where
  "DosRename P E V path1 path2 s =
     do {
       (q, s1) \<leftarrow> truename P E V path2 CDS_MODE_CHECK_DEV_PATH s;
       case q of
         Inl e \<Rightarrow> Some (e, s1)
       | Inr (result, dest) \<Rightarrow>
           let s2 = s1\<lparr>SecPathName := dest\<rparr> in
           if result AND (IS_NETWORK OR IS_DEVICE) = IS_DEVICE then Some (DE_FILENOTFND, s2)
           else do {
             (q, s3) \<leftarrow> pri_name P E V path1 CDS_MODE_CHECK_DEV_PATH s2;
             case q of
               Inl e \<Rightarrow> Some (e, s3)
             | Inr result \<Rightarrow>
                 let s4 = set_fcbname s3 in
                 if result AND (IS_NETWORK OR IS_DEVICE) = IS_DEVICE then Some (DE_FILENOTFND, s4)
                 else DosRenameTrue P V (PriPathName s4) (SecPathName s4) D_ALL s4
           }
     }"

definition DosMkRmdir ::
  "'w platform \<Rightarrow> 'w media_driver \<Rightarrow> ('w, 'v) net_scheme \<Rightarrow> u8 list \<Rightarrow> u8 \<Rightarrow> ('w, 'a) job_scheme \<Rightarrow> (int \<times> ('w, 'a) job_scheme) option" where
  "DosMkRmdir P E V dir action s =
     do {
       (q, s1) \<leftarrow> pri_name P E V dir CDS_MODE_CHECK_DEV_PATH s;
       case q of
         Inl e \<Rightarrow> Some (e, s1)
       | Inr result \<Rightarrow>
           let s2 = set_fcbname s1 in
           if result AND IS_NETWORK \<noteq> 0 then Some (redirect V (if action = 0x39 then 0x1103 else 0x1101) s2)
           else if result AND IS_DEVICE \<noteq> 0 then Some (DE_ACCESS, s2)
           else if action = 0x39 then dos_mkdir P (PriPathName s2) s2 else dos_rmdir P (PriPathName s2) s2
     }"

section \<open>Searching\<close>

text \<open>
  The search block of the caller: the 21 bytes of the search state, and what is found. The call that clears the
  kernel's own block writes as many bytes as the caller's block and a directory entry have, which reaches into the
  temporary directory structure behind and clears the first 22 characters of its path.
\<close>

record ffblk =
  ff_state :: dmatch
  dm_attr_fnd :: u8
  dm_time :: u16
  dm_date :: u16
  dm_size :: u32
  dm_name :: "u8 list"

definition zero_dm :: dmatch where
  "zero_dm = \<lparr>dm_drive = 0, dm_name_pat = replicate 11 0, dm_attr_srch = 0, dm_entry = 0, dm_dircluster = 0\<rparr>"

definition zero_dirent :: dirent where
  "zero_dirent = \<lparr>dir_name = replicate 11 0, dir_attrib = 0, dir_case = 0, dir_crtimems = 0, dir_crtime = 0, dir_crdate = 0, dir_accdate = 0,
     dir_start_high = 0, dir_time = 0, dir_date = 0, dir_start = 0, dir_size = 0\<rparr>"

definition pop_dmp :: "int \<Rightarrow> ffblk \<Rightarrow> ('w, 'a) job_scheme \<Rightarrow> int \<times> ffblk \<times> ('w, 'a) job_scheme" where
  "pop_dmp rc dmp s =
     (rc, if rc = SUCCESS then
            \<lparr>ff_state = dms s 0, dm_attr_fnd = dir_attrib (SearchDir s), dm_time = dir_time (SearchDir s), dm_date = dir_date (SearchDir s),
              dm_size = dir_size (SearchDir s), dm_name = ConvertName83ToNameSZ (dir_name (SearchDir s))\<rparr>
          else dmp, s)"

definition remote_search :: "('w, 'v) net_scheme \<Rightarrow> u16 \<Rightarrow> u8 \<Rightarrow> ('w, 'a) job_scheme \<Rightarrow> int \<times> ('w, 'a) job_scheme" where
  "remote_search V cmd SAttr s =
     (let (r, m, e, w) = remote_find V cmd (PriPathName s) SAttr (dms s 0) (SearchDir s) (world s)
      in (r, s\<lparr>dms := (dms s)(0 := m), SearchDir := e, world := w\<rparr>))"

definition find_device :: "'w platform \<Rightarrow> ('w, 'a) job_scheme \<Rightarrow> (int \<times> ('w, 'a) job_scheme) option" where
  "find_device P s =
     do {
       (t, s1) \<leftarrow> dos_gettime P (s\<lparr>dms := (dms s)(0 := (dms s 0)\<lparr>dm_entry := 0xffff\<rparr>)\<rparr>);
       (d, s2) \<leftarrow> dos_getdate P s1;
       let nm = take 8 (takeWhile (\<lambda>c. c \<noteq> dot) (get_root (PriPathName s2)));
       Some (SUCCESS, s2\<lparr>SearchDir := (SearchDir s2)\<lparr>dir_attrib := D_DEVICE, dir_time := t, dir_date := d,
         dir_name := nm @ replicate (11 - length nm) 0x20\<rparr>\<rparr>)
     }"

definition DosFindFirst ::
  "'w platform \<Rightarrow> 'w media_driver \<Rightarrow> ('w, 'v) net_scheme \<Rightarrow> u16 \<Rightarrow> u8 list \<Rightarrow> ffblk \<Rightarrow> ('w, 'a) job_scheme \<Rightarrow>
    (int \<times> ffblk \<times> ('w, 'a) job_scheme) option" where
  "DosFindFirst P E V attr name dmp s =
     do {
       (q, s1) \<leftarrow> pri_name P E V name (CDS_MODE_CHECK_DEV_PATH OR CDS_MODE_ALLOW_WILDCARDS) s;
       case q of
         Inl e \<Rightarrow> Some (e, dmp, s1)
       | Inr result \<Rightarrow> do {
           let s2 = (set_fcbname s1)\<lparr>dms := (dms s1)(0 := zero_dm), SearchDir := zero_dirent, TempCDS := (TempCDS s1)\<lparr>cdsCurrentPath := []\<rparr>\<rparr>;
           (rc, s3) \<leftarrow>
             (if result AND IS_NETWORK \<noteq> 0 then Some (remote_search V 0x111b (ucast attr) s2)
              else if result AND IS_DEVICE \<noteq> 0 then find_device P s2
              else dos_findfirst P E attr (PriPathName s2) s2);
           Some (pop_dmp rc dmp s3)
         }
     }"

definition DosFindNext ::
  "'w platform \<Rightarrow> 'w media_driver \<Rightarrow> ('w, 'v) net_scheme \<Rightarrow> ffblk \<Rightarrow> ('w, 'a) job_scheme \<Rightarrow>
    (int \<times> ffblk \<times> ('w, 'a) job_scheme) option" where
  "DosFindNext P E V dmp s =
     (let m = ff_state dmp; s1 = s\<lparr>dms := (dms s)(0 := m)\<rparr> in
      if dm_attr_srch m AND NOT (D_RDONLY OR D_ARCHIVE OR D_DEVICE) = D_VOLID \<or> (dm_drive m AND 0x80 = 0 \<and> dm_entry m = 0xffff)
      then Some (DE_NFILES, dmp, s1)
      else do {
        let s2 = s1\<lparr>SearchDir := zero_dirent\<rparr>;
        (rc, s3) \<leftarrow> (if dm_drive m AND 0x80 \<noteq> 0 then Some (remote_search V 0x111c 0 s2) else dos_findnext P E s2);
        Some (pop_dmp rc dmp s3)
      })"

section \<open>Temporary files and the table of handles\<close>

definition tmp_char :: "u8 \<Rightarrow> u32 \<Rightarrow> u8" where
  "tmp_char major tmp =
     (let c = (ucast tmp AND 0xf) + 0x41 in if major < 5 then c - (if c < 0x4b then 0x30 - 0x41 else 10) else c)"

definition tmp_name :: "u8 \<Rightarrow> u32 \<Rightarrow> u8 list" where
  "tmp_name major v = map (\<lambda>i. tmp_char major (drop_bit (4 * (7 - i)) v)) [0..<8]"

primrec tmp_loop ::
  "'w platform \<Rightarrow> 'w media_driver \<Rightarrow> ('w, 'v) net_scheme \<Rightarrow> u8 list \<Rightarrow> u16 \<Rightarrow> nat \<Rightarrow> u32 \<Rightarrow> ('w, 'a) job_scheme \<Rightarrow>
    ((int + (u16 \<times> int)) \<times> u8 list \<times> ('w, 'a) job_scheme) option" where
  "tmp_loop P E V dir attr 0 randvar s =
     (let name = dir @ tmp_name (os_major s) randvar in
      map_option (\<lambda>(rc, s1). (rc, name, s1)) (DosOpen P E V name (O_LEGACY OR O_CREAT OR O_RDWR) attr s))"
| "tmp_loop P E V dir attr (Suc n) randvar s =
     do {
       let name = dir @ tmp_name (os_major s) randvar;
       (rc, s1) \<leftarrow> DosOpen P E V name (O_LEGACY OR O_CREAT OR O_RDWR) attr s;
       if rc = Inl DE_FILEEXISTS then tmp_loop P E V dir attr n (randvar + 1) s1 else Some (rc, name, s1)
     }"

definition DosMkTmp ::
  "'w platform \<Rightarrow> 'w media_driver \<Rightarrow> ('w, 'v) net_scheme \<Rightarrow> u8 list \<Rightarrow> u16 \<Rightarrow> ('w, 'a) job_scheme \<Rightarrow>
    ((int + (u16 \<times> int)) \<times> u8 list \<times> ('w, 'a) job_scheme) option" where
  "DosMkTmp P E V pathname attr s =
     do {
       let dir = (if os_major s = 5 \<and> (pathname = [] \<or> \<not> is_sep (last pathname)) then pathname @ [backslash] else pathname);
       (d, s1) \<leftarrow> dos_getdate P s;
       (t, s2) \<leftarrow> dos_gettime P s1;
       tmp_loop P E V dir attr 0xfff (push_bit 16 (ucast d) OR ucast t) s2
     }"

text \<open>\<^verbatim>\<open>behind\<close> is what the memory holds behind the new table.\<close>

definition SetJFTSize :: "(nat \<Rightarrow> u8) \<Rightarrow> u16 \<Rightarrow> ('w, 'a) job_scheme \<Rightarrow> (int \<times> ('w, 'a) job_scheme) option" where
  "SetJFTSize behind nHandles s =
     (if nHandles \<le> ps_maxfiles s then Some (SUCCESS, s\<lparr>ps_maxfiles := nHandles\<rparr>)
      else do {
        (r, block, _, a) \<leftarrow> DosMemAlloc (drop_bit 4 (nHandles + 0xf)) (ucast (mem_access_mode (arena s))) 0 (Some 0) (arena s);
        if r < 0 then Some (DE_NOMEM, s\<lparr>arena := a\<rparr>)
        else
          let i = unat (ps_maxfiles s);
              newtab = (\<lambda>h. if h < i then ps_filetab s h else if h < unat nHandles then 0xff else behind h)
          in Some (SUCCESS, s\<lparr>arena := a, ps_maxfiles := nHandles, ps_filetab := newtab\<rparr>)
      })"

end
