(* ===== verification/TrueProps.thy ===== *)
theory TrueProps
  imports Truename
begin

text \<open>
  What \<^verbatim>\<open>truename\<close> computes. The specification splits a path at its separators and works on a stack of
  components; the loop of the code over characters is shown to agree with it, the checks on the length of the
  destination included.
\<close>

section \<open>The specification\<close>

fun fill83 :: "nat \<Rightarrow> u8 list \<Rightarrow> u8 list option" where
  "fill83 n [] = Some []"
| "fill83 n (c # cs) =
     (if c = 0x2a then Some (replicate n qmark)
      else if n = 0 then fill83 0 cs
      else if DirChar c then map_option ((#) c) (fill83 (n - 1) cs) else None)"

definition comp83 :: "nat \<Rightarrow> u8 list \<Rightarrow> u8 list option" where
  "comp83 n c =
     (let nm = takeWhile (\<lambda>x. x \<noteq> dot) c; ext = tl (dropWhile (\<lambda>x. x \<noteq> dot) c) in
      if ext = [] then fill83 n nm
      else if dot \<in> set ext then None
      else do { a \<leftarrow> fill83 n nm; b \<leftarrow> fill83 3 ext; Some (a @ dot # b) })"

definition is_wild :: "u8 list \<Rightarrow> bool" where
  "is_wild c \<longleftrightarrow> 0x2a \<in> set c \<or> qmark \<in> set c"

function components :: "u8 list \<Rightarrow> u8 list list" where
  "components src =
     (if src = [] then []
      else let src1 = dropWhile is_sep src in takeWhile (\<lambda>c. \<not> is_sep c) src1 # components (dropWhile (\<lambda>c. \<not> is_sep c) src1))"
  by pat_completeness auto
termination
proof (relation "measure length", goal_cases)
  case (2 src src1)
  have 1: "length src1 \<le> length src" using 2(2) by (simp add: length_dropWhile_le)
  show ?case
  proof (cases src1)
    case Nil
    then show ?thesis using 2(1) by simp
  next
    case (Cons c cs)
    then have "\<not> is_sep c" using 2(2) hd_dropWhile [of is_sep src] by auto
    moreover have "length (dropWhile (\<lambda>c. \<not> is_sep c) cs) \<le> length cs" by (rule length_dropWhile_le)
    ultimately show ?thesis using 1 Cons by simp
  qed
qed simp

declare components.simps [simp del]

definition render :: "u8 list list \<Rightarrow> u8 list" where
  "render st = concat (map ((#) backslash) st)"

fun resolve :: "nat \<Rightarrow> bool \<Rightarrow> u8 list list \<Rightarrow> u8 list list \<Rightarrow> (bool \<times> u8 list list) option" where
  "resolve n w st [] = Some (w, st)"
| "resolve n w st (c # cs) =
     (if w \<or> n + length (render st) \<ge> SFTMAX then None
      else if c = [dot] then resolve n w st cs
      else if c = [dot, dot] then if st = [] then None else resolve n w (butlast st) cs
      else if c \<noteq> [] \<and> hd c = dot then None
      else case comp83 8 c of
        None \<Rightarrow> None
      | Some e \<Rightarrow> if n + length (render st) + 1 + length e \<le> SFTMAX then resolve n (is_wild c) (st @ [e]) cs else None)"

section \<open>One component\<close>

definition to_opt :: "'e + 'a \<Rightarrow> 'a option" where
  "to_opt x = (case x of Inl _ \<Rightarrow> None | Inr a \<Rightarrow> Some a)"

lemma to_opt_simps [simp]: "to_opt (Inl e) = None" "to_opt (Inr a) = Some a"
  by (simp_all add: to_opt_def)

lemma add_qmarks_eq: "to_opt (add_qmarks n src p) = (if n = 0 \<or> length p + n \<le> SFTMAX then Some (p @ replicate n qmark) else None)"
proof (induction n arbitrary: p)
  case (Suc n)
  then show ?case
    by (cases "length p \<ge> SFTMAX") (auto simp: addChar_def replicate_append_same)
qed simp

lemma fill83_0 [simp]: "fill83 0 cs = Some []"
  by (induction cs) simp_all

lemma is_wild_Cons: "is_wild (c # cs) \<longleftrightarrow> c = 0x2a \<or> c = qmark \<or> is_wild cs"
  by (auto simp: is_wild_def)

lemma DirChar_dot [simp]: "DirChar dot"
  by (simp add: DirChar_def)

text \<open>What a component leads to: its expansion behind \<^verbatim>\<open>p\<close>, when that fits.\<close>

definition put_comp :: "bool \<Rightarrow> u8 list \<Rightarrow> u8 list \<Rightarrow> u8 list option \<Rightarrow> (bool \<times> u8 list \<times> u8 list) option" where
  "put_comp w p r e = (case e of None \<Rightarrow> None | Some e \<Rightarrow> if length p + length e \<le> SFTMAX then Some (w, p @ e, r) else None)"

lemma put_comp_Cons:
  "length p < SFTMAX \<Longrightarrow> put_comp w (p @ [c]) r e = put_comp w p r (map_option ((#) c) e)"
  "SFTMAX \<le> length p \<Longrightarrow> put_comp w p r (map_option ((#) c) e) = None"
  by (simp_all add: put_comp_def split: option.split)

lemma comp_loop_star:
  assumes "length p \<le> SFTMAX"
  shows "to_opt (case add_qmarks i src p of Inl e \<Rightarrow> Inl e | Inr p' \<Rightarrow> f p') =
    (if length p + i \<le> SFTMAX then to_opt (f (p @ replicate i qmark)) else None)"
  using add_qmarks_eq [of i src p] assms by (cases "add_qmarks i src p") (auto split: if_splits)

lemma comp_loop_ext:
  assumes "\<forall>x\<in>set c. \<not> is_sep x" "r = [] \<or> is_sep (hd r)" "length p \<le> SFTMAX"
  shows "to_opt (comp_loop i True w p (c @ r)) =
    (if dot \<in> set c then None else put_comp (w \<or> is_wild c) p r (fill83 i c))"
  using assms(1,3)
proof (induction c arbitrary: i w p)
  case Nil
  then show ?case using assms(2) by (cases r) (auto simp: put_comp_def is_wild_def)
next
  case (Cons x c)
  then have x: "\<not> is_sep x" "\<forall>x\<in>set c. \<not> is_sep x" by auto
  consider "x = 0x2a" | "x = dot" | "x \<noteq> 0x2a" "x \<noteq> dot" "i = 0" | "x \<noteq> 0x2a" "x \<noteq> dot" "i > 0" "\<not> DirChar x"
    | "x \<noteq> 0x2a" "x \<noteq> dot" "i > 0" "DirChar x" by blast
  then show ?case
  proof cases
    case 1
    then show ?thesis using Cons.IH [OF x(2)] Cons.prems(2)
      by (simp add: comp_loop_star is_wild_Cons put_comp_def)
  next
    case 3
    then show ?thesis using x(1) Cons.IH [OF x(2), of p 0] Cons.prems(2) by (simp add: is_wild_Cons disj_assoc)
  next
    case 4
    then show ?thesis using x(1) by (simp add: put_comp_def)
  next
    case 5
    then show ?thesis using x(1) Cons.IH [OF x(2), of "p @ [x]" "i - 1"] Cons.prems(2)
      by (simp add: addChar_def put_comp_Cons is_wild_Cons disj_assoc)
  qed (use x in simp)
qed

lemma comp83_Cons:
  "comp83 i (dot # c) = (if c = [] then Some [] else if dot \<in> set c then None else map_option ((#) dot) (fill83 3 c))"
  "comp83 i (0x2a # c) = map_option ((@) (replicate i qmark)) (comp83 0 c)"
  "x \<noteq> 0x2a \<Longrightarrow> x \<noteq> dot \<Longrightarrow> comp83 0 (x # c) = comp83 0 c"
  "x \<noteq> 0x2a \<Longrightarrow> x \<noteq> dot \<Longrightarrow> 0 < i \<Longrightarrow> comp83 i (x # c) = (if DirChar x then map_option ((#) x) (comp83 (i - 1) c) else None)"
  by (auto simp: comp83_def Let_def map_option_case split: option.split bind_splits)

lemma comp_loop_comp83:
  assumes "\<forall>x\<in>set c. \<not> is_sep x" "r = [] \<or> is_sep (hd r)" "length p \<le> SFTMAX"
  shows "to_opt (comp_loop i False w p (c @ r)) = put_comp (w \<or> is_wild c) p r (comp83 i c)"
  using assms(1,3)
proof (induction c arbitrary: i w p)
  case Nil
  then show ?case using assms(2) by (cases r) (auto simp: put_comp_def is_wild_def comp83_def)
next
  case (Cons x c)
  then have x: "\<not> is_sep x" "\<forall>x\<in>set c. \<not> is_sep x" by auto
  consider "x = 0x2a" | "x = dot" | "x \<noteq> 0x2a" "x \<noteq> dot" "i = 0" | "x \<noteq> 0x2a" "x \<noteq> dot" "i > 0" "\<not> DirChar x"
    | "x \<noteq> 0x2a" "x \<noteq> dot" "i > 0" "DirChar x" by blast
  then show ?case
  proof cases
    case 1
    then show ?thesis using Cons.IH [OF x(2)] Cons.prems(2)
      by (simp add: comp_loop_star is_wild_Cons put_comp_def comp83_Cons split: option.split)
  next
    case 2
    have "(c @ r = [] \<or> is_sep (hd (c @ r))) = (c = [])" using x(2) assms(2) by (cases c) auto
    then show ?thesis using comp_loop_ext [OF x(2) assms(2), of "p @ [dot]" 3 w] 2 Cons.prems(2)
      by (simp add: addChar_def put_comp_Cons comp83_Cons is_wild_Cons)
        (auto simp: put_comp_def is_wild_def)
  next
    case 3
    then show ?thesis using x(1) Cons.IH [OF x(2), of p 0] Cons.prems(2) by (simp add: is_wild_Cons disj_assoc comp83_Cons)
  next
    case 4
    then show ?thesis using x(1) by (simp add: put_comp_def comp83_Cons)
  next
    case 5
    then show ?thesis using x(1) Cons.IH [OF x(2), of "p @ [x]" "i - 1"] Cons.prems(2)
      by (simp add: addChar_def put_comp_Cons is_wild_Cons disj_assoc comp83_Cons)
  qed
qed

lemma fill83_set: "fill83 n c = Some e \<Longrightarrow> set e \<subseteq> set c \<union> {qmark} \<and> length e \<le> n"
  by (induction n c arbitrary: e rule: fill83.induct) (fastforce split: if_splits)+

lemma comp83_set: "comp83 n c = Some e \<Longrightarrow> set e \<subseteq> set c \<union> {qmark}"
proof (induction c arbitrary: n e)
  case (Cons x c)
  consider "x = 0x2a" | "x = dot" | "x \<noteq> 0x2a" "x \<noteq> dot" "n = 0" | "x \<noteq> 0x2a" "x \<noteq> dot" "n > 0" by blast
  then show ?case
    by cases (use Cons in \<open>fastforce simp: comp83_Cons split: if_splits dest: fill83_set\<close>)+
qed (simp add: comp83_def)

lemma comp83_nonempty: "comp83 8 c = Some e \<Longrightarrow> c \<noteq> [] \<Longrightarrow> hd c \<noteq> dot \<Longrightarrow> e \<noteq> []"
  by (cases c; cases "hd c = 0x2a") (auto simp: comp83_Cons split: if_splits)

section \<open>Paths\<close>

lemma render_snoc [simp]: "render (st @ [c]) = render st @ backslash # c" "render [] = []"
  by (simp_all add: render_def)

abbreviation comps_ok :: "u8 list list \<Rightarrow> bool" where
  "comps_ok st \<equiv> \<forall>c\<in>set st. c \<noteq> [] \<and> backslash \<notin> set c"

lemma last_render: "root \<noteq> [] \<Longrightarrow> last root \<noteq> backslash \<Longrightarrow> comps_ok st \<Longrightarrow> last (root @ render st) \<noteq> backslash"
  by (cases st rule: rev_exhaust) (auto dest!: last_in_set)

lemma up_loop_name:
  assumes "backslash \<notin> set c" "rootPos \<le> length p"
  shows "up_loop rootPos (rev (p @ backslash # c)) = Some p"
proof -
  have "up_loop rootPos (d @ backslash # rev p) = Some p" if "backslash \<notin> set d" for d
    using that assms(2) by (induction d) auto
  from this [of "rev c"] show ?thesis using assms(1) by simp
qed

lemma up_dir_render:
  assumes "root \<noteq> []" "last root \<noteq> backslash" "comps_ok st"
  shows "up_dir (length root) (root @ render st) = (if st = [] then None else Some (root @ render (butlast st)))"
proof (cases st rule: rev_exhaust)
  case Nil
  then show ?thesis using assms(1,2) by (cases root rule: rev_exhaust) (simp_all add: up_dir_def)
next
  case (snoc st' c)
  then show ?thesis using up_loop_name [of c "length root" "root @ render st'"] assms(3) by (simp add: up_dir_def)
qed

lemma components_Cons:
  assumes "src \<noteq> []"
  obtains c r where "dropWhile is_sep src = c @ r" "components src = c # components r" "\<forall>x\<in>set c. \<not> is_sep x"
    "r = [] \<or> is_sep (hd r)" "length r < length src" "c = [] \<Longrightarrow> r = []"
proof -
  define src1 where "src1 = dropWhile is_sep src"
  define c where "c = takeWhile (\<lambda>c. \<not> is_sep c) src1"
  define r where "r = dropWhile (\<lambda>c. \<not> is_sep c) src1"
  have e: "src1 = c @ r" by (simp add: c_def r_def)
  have l: "length src1 \<le> length src" by (simp add: src1_def length_dropWhile_le)
  have s: "src1 \<noteq> [] \<Longrightarrow> \<not> is_sep (hd src1)" unfolding src1_def by (rule hd_dropWhile)
  have n: "c = [] \<Longrightarrow> r = []" using s by (cases src1) (auto simp: c_def r_def split: if_splits)
  have "components src = c # components r" using assms by (simp add: components.simps [of src] Let_def c_def r_def src1_def)
  moreover have "\<forall>x\<in>set c. \<not> is_sep x" by (auto simp: c_def dest: set_takeWhileD)
  moreover have "r = [] \<or> is_sep (hd r)" using hd_dropWhile [of "\<lambda>c. \<not> is_sep c" src1] by (auto simp: r_def)
  moreover have "length r < length src" using e l n assms by (cases c) auto
  ultimately show thesis using that e n by (simp add: src1_def)
qed

text \<open>The loop from a path made of a root and components, step by step as the specification takes them.\<close>

lemma path_loop_step:
  assumes root: "root \<noteq> []" "last root \<noteq> backslash" and st: "comps_ok st" and p: "p = root @ render st"
    and src: "src \<noteq> []" "dropWhile is_sep src = c @ r" "\<forall>x\<in>set c. \<not> is_sep x" "r = [] \<or> is_sep (hd r)"
    and w: "\<not> w" "length p < SFTMAX"
  shows "path_loop backslash (length root) w p src =
    (if c = [dot] then path_loop backslash (length root) w p r
     else if c = [dot, dot] then
       case up_dir (length root) p of None \<Rightarrow> Inl DE_PATHNOTFND | Some p3 \<Rightarrow> path_loop backslash (length root) w p3 r
     else if c \<noteq> [] \<and> hd c = dot then Inl (path_error (drop (if 1 < length c \<and> c ! 1 = dot then 2 else 1) (c @ r)))
     else case comp_loop 8 False w (p @ [backslash]) (c @ r) of
         Inl e \<Rightarrow> Inl e | Inr (w', p2, src') \<Rightarrow> path_loop backslash (length root) w' p2 src')"
proof -
  have l: "last p \<noteq> backslash" unfolding p by (rule last_render [OF root st])
  have a: "addChar backslash src p = Inr (p @ [backslash])" using w(2) by (simp add: addChar_def)
  have r: "r \<noteq> [] \<Longrightarrow> hd r \<noteq> dot" using src(4) by auto
  consider "c = []" | c' where "c = dot # dot # c'" | c' where "c = dot # c'" "c' = [] \<or> hd c' \<noteq> dot" | x c' where "c = x # c'" "x \<noteq> dot"
    by (cases c; cases "tl c") auto
  then show ?thesis
  proof cases
    case 1
    then show ?thesis using src(1,2) l w(1) r unfolding path_loop.simps [of _ _ _ p src] a by (cases r) (simp_all add: Let_def del: dropWhile_eq_Nil_conv)
  next
    case 2
    have "c' = [] \<Longrightarrow> r = [] \<or> is_sep (hd r)" "c' \<noteq> [] \<Longrightarrow> \<not> is_sep (hd (c' @ r))" using 2 src(3,4) by (cases c'; auto)+
    then show ?thesis using src(1,2) l w(1) unfolding path_loop.simps [of _ _ _ p src] a by (cases "c' = []") (simp_all add: Let_def 2 split: option.split)
  next
    case 3
    then have "c' = [] \<Longrightarrow> r = [] \<or> is_sep (hd r)" "c' \<noteq> [] \<Longrightarrow> \<not> is_sep (hd (c' @ r))" "c' @ r \<noteq> [] \<Longrightarrow> hd (c' @ r) \<noteq> dot"
      using src(3,4) r by (cases c'; auto)+
    then show ?thesis using src(1,2) l w(1) unfolding path_loop.simps [of _ _ _ p src] a
      by (cases "c' = []"; cases c') (auto simp: Let_def 3)
  next
    case 4
    then show ?thesis using src(1,2) l w(1) unfolding path_loop.simps [of _ _ _ p src] a by (simp add: Let_def)
  qed
qed

lemma path_loop_resolve_from:
  assumes root: "root \<noteq> []" "last root \<noteq> backslash"
  shows "comps_ok st \<Longrightarrow> to_opt (path_loop backslash (length root) w (root @ render st) src) =
    map_option (\<lambda>(w, st). (w, root @ render st)) (resolve (length root) w st (components src))"
proof (induction "length src" arbitrary: src w st rule: less_induct)
  case less
  let ?p = "root @ render st"
  show ?case
  proof (cases "src = [] \<or> w \<or> length ?p \<ge> SFTMAX")
    case True
    then show ?thesis using last_render [OF root less(2)]
      by (cases "src = []")
        (auto simp: path_loop.simps [of _ _ _ _ src] path_loop.simps [of _ _ _ _ "[]"] components.simps [of src] components.simps [of "[]"]
          addChar_def Let_def)
  next
    case False
    then have fits: "\<not> w" "length ?p < SFTMAX" "src \<noteq> []" by auto
    obtain c r where c: "dropWhile is_sep src = c @ r" "components src = c # components r" "\<forall>x\<in>set c. \<not> is_sep x"
      "r = [] \<or> is_sep (hd r)" "length r < length src" "c = [] \<Longrightarrow> r = []"
      by (rule components_Cons [OF fits(3)]) (rule that)
    note step = path_loop_step [OF root less(2) refl _ c(1,3,4), of w]
    note ih = less(1) [OF c(5)]
    consider "c = [dot]" | "c = [dot, dot]" | "c \<noteq> []" "hd c = dot" "c \<noteq> [dot]" "c \<noteq> [dot, dot]" | "c = []" | "c \<noteq> []" "hd c \<noteq> dot"
      by blast
    then show ?thesis
    proof cases
      case 1
      then show ?thesis using step [OF fits(3,1,2)] ih [OF less(2)] c(2) fits by simp
    next
      case 2
      have "comps_ok (butlast st)" using less(2) in_set_butlastD by metis
      then show ?thesis using step [OF fits(3,1,2)] ih [of "butlast st"] c(2) fits 2 up_dir_render [OF root less(2)] by simp
    next
      case 3
      then show ?thesis using step [OF fits(3,1,2)] c(2) fits by simp
    next
      case 4
      then show ?thesis using step [OF fits(3,1,2)] c(2,6) fits
        by (simp add: path_loop.simps [of _ _ _ _ "[]"] components.simps [of "[]"] comp83_def is_wild_def)
    next
      case 5
      have e: "comps_ok (st @ [e])" if "comp83 8 c = Some e" for e
        using comp83_nonempty [OF that 5] comp83_set [OF that] c(3) less(2) by auto
      have "to_opt (comp_loop 8 False w (?p @ [backslash]) (c @ r)) = put_comp (w \<or> is_wild c) (?p @ [backslash]) r (comp83 8 c)"
        by (rule comp_loop_comp83) (use c(3,4) fits in auto)
      then show ?thesis using step [OF fits(3,1,2)] c(2) fits 5 ih [OF e]
        by (cases "comp_loop 8 False w (?p @ [backslash]) (c @ r)"; cases "comp83 8 c") (auto simp: put_comp_def split: if_splits)
    qed
  qed
qed

text \<open>A name in 8.3 convention: at most eight characters, a dot and at most three more, of those that are allowed.\<close>

definition is83 :: "u8 list \<Rightarrow> bool" where
  "is83 e \<longleftrightarrow>
     (let ext = dropWhile (\<lambda>x. x \<noteq> dot) e in
      length (takeWhile (\<lambda>x. x \<noteq> dot) e) \<le> 8 \<and> length ext \<le> 4 \<and> dot \<notin> set (tl ext) \<and> (\<forall>x\<in>set e. DirChar x \<and> \<not> is_sep x))"

lemma DirChar_qmark [simp]: "DirChar qmark"
  by (simp add: DirChar_def)

lemma fill83_DirChar: "fill83 n c = Some e \<Longrightarrow> x \<in> set e \<Longrightarrow> DirChar x"
  by (induction n c arbitrary: e rule: fill83.induct) (fastforce split: if_splits)+

lemma comp83_is83:
  assumes "comp83 8 c = Some e" "\<forall>x\<in>set c. \<not> is_sep x"
  shows "is83 e"
proof -
  define nm where "nm = takeWhile (\<lambda>x. x \<noteq> dot) c"
  define ext where "ext = tl (dropWhile (\<lambda>x. x \<noteq> dot) c)"
  have e: "if ext = [] then fill83 8 nm = Some e else dot \<notin> set ext \<and> (\<exists>a b. fill83 8 nm = Some a \<and> fill83 3 ext = Some b \<and> e = a @ dot # b)"
    using assms(1) by (auto simp: comp83_def Let_def bind_eq_Some_conv nm_def ext_def split: if_splits)
  have nd: "dot \<notin> set nm" by (auto simp: nm_def dest: set_takeWhileD)
  have dots: "dot \<notin> set a" if "fill83 n d = Some a" "dot \<notin> set d" for n a d
    using fill83_set [OF that(1)] that(2) by auto
  have sep: "\<forall>x\<in>set e. \<not> is_sep x" using comp83_set [OF assms(1)] assms(2) by auto
  show ?thesis
  proof (cases "ext = []")
    case True
    then have a: "fill83 8 nm = Some e" using e by simp
    then have td: "takeWhile (\<lambda>x. x \<noteq> dot) e = e" "dropWhile (\<lambda>x. x \<noteq> dot) e = []"
      using dots [OF a nd] by (auto simp: takeWhile_eq_all_conv)
    show ?thesis unfolding is83_def Let_def td using fill83_set [OF a] fill83_DirChar [OF a] sep by simp
  next
    case False
    then obtain a b where ab: "fill83 8 nm = Some a" "fill83 3 ext = Some b" "e = a @ dot # b" "dot \<notin> set ext" using e by auto
    have "takeWhile (\<lambda>x. x \<noteq> dot) e = a" "dropWhile (\<lambda>x. x \<noteq> dot) e = dot # b"
      using dots [OF ab(1) nd] by (auto simp: ab(3) takeWhile_append dropWhile_append)
    moreover have "\<forall>x\<in>set e. DirChar x" using fill83_DirChar [OF ab(1)] fill83_DirChar [OF ab(2)] by (auto simp: ab(3))
    ultimately show ?thesis using fill83_set [OF ab(1)] fill83_set [OF ab(2)] dots [OF ab(2,4)] sep by (auto simp: is83_def)
  qed
qed

lemma components_sep: "c \<in> set (components src) \<Longrightarrow> x \<in> set c \<Longrightarrow> \<not> is_sep x"
proof (induction src rule: components.induct)
  case (1 src)
  then have "src \<noteq> []" by (auto simp: components.simps [of "[]"])
  then show ?case using 1 by (auto simp: components.simps [of src] Let_def dest: set_takeWhileD)
qed

lemma resolve_is83:
  assumes "resolve n w st cs = Some (w', st')" "\<forall>e\<in>set st. is83 e" "\<forall>c\<in>set cs. \<forall>x\<in>set c. \<not> is_sep x"
  shows "\<forall>e\<in>set st'. is83 e"
  using assms
proof (induction cs arbitrary: w st)
  case (Cons c cs)
  have b: "\<forall>e\<in>set (butlast st). is83 e" using Cons(3) by (meson in_set_butlastD)
  have s: "\<forall>e\<in>set (st @ [e]). is83 e" if "comp83 8 c = Some e" for e
    using comp83_is83 [OF that] Cons(3,4) by auto
  have c: "\<forall>c\<in>set cs. \<forall>x\<in>set c. \<not> is_sep x" using Cons(4) by simp
  show ?case using Cons(2) Cons(1) [OF _ Cons(3) c] Cons(1) [OF _ b c] Cons(1) [OF _ s c]
    by (auto split: if_splits option.splits)
qed simp

section \<open>The length of a name\<close>

lemma addChar_bound: "addChar c src p = Inr p' \<Longrightarrow> length p' \<le> SFTMAX"
  by (auto simp: addChar_def split: if_splits)

lemma add_qmarks_bound: "add_qmarks i src p = Inr p' \<Longrightarrow> length p \<le> SFTMAX \<Longrightarrow> length p' \<le> SFTMAX"
  by (induction i arbitrary: p) (auto split: sum.splits dest: addChar_bound)

lemma comp_loop_bound: "comp_loop i d w p src = Inr (w', p', src') \<Longrightarrow> length p \<le> SFTMAX \<Longrightarrow> length p' \<le> SFTMAX"
  by (induction i d w p src rule: comp_loop.induct)
    (auto simp: Let_def split: if_splits sum.splits dest: addChar_bound add_qmarks_bound)

lemma up_dir_bound: "up_dir n p = Some p' \<Longrightarrow> length p' \<le> length p"
proof -
  have "up_loop n q = Some p' \<Longrightarrow> length p' \<le> length q" for q
    by (induction n q rule: up_loop.induct) (auto split: if_splits)
  from this [of "rev p"] show "up_dir n p = Some p' \<Longrightarrow> length p' \<le> length p" by (simp add: up_dir_def)
qed

lemma path_loop_bound: "path_loop rc n w p src = Inr (w', p') \<Longrightarrow> length p \<le> SFTMAX \<Longrightarrow> length p' \<le> SFTMAX"
proof (induction "length src" arbitrary: w p src rule: less_induct)
  case less
  define src1 where "src1 = dropWhile is_sep src"
  define src3 where "src3 = drop (if tl src1 \<noteq> [] \<and> hd (tl src1) = dot then 1 else 0) (tl src1)"
  have l: "length src1 \<le> length src" by (simp add: src1_def length_dropWhile_le)
  have l3: "src \<noteq> [] \<Longrightarrow> length src3 < length src"
    using l by (cases src1) (auto simp: src3_def)
  have l4: "src \<noteq> [] \<Longrightarrow> comp_loop 8 False w p1 src1 = Inr (w2, p2, src2) \<Longrightarrow> length src2 < length src" for p1 w2 p2 src2
  proof (cases src1)
    case (Cons c cs)
    then have "\<not> is_sep c" using hd_dropWhile [of is_sep src] src1_def by auto
    then show "comp_loop 8 False w p1 src1 = Inr (w2, p2, src2) \<Longrightarrow> length src2 < length src"
      using comp_loop_rest [of 8 False w p1 src1 w2 p2 src2] Cons l by simp
  qed auto
  show ?case
  proof (cases "src = [] \<or> w")
    case True
    then show ?thesis using less(2,3) by (auto simp: path_loop.simps [of _ _ _ _ src] path_loop.simps [of _ _ _ _ "[]"] split: if_splits)
  next
    case False
    then obtain p1 where p1: "length p1 \<le> SFTMAX" "(if last p \<noteq> rc then addChar rc src p else Inr p) = Inr p1"
      using less(2,3) by (cases "if last p \<noteq> rc then addChar rc src p else Inr p")
        (auto simp: path_loop.simps [of _ _ _ _ src] split: if_splits dest: addChar_bound)
    have b: "length (butlast p1) \<le> SFTMAX" using p1(1) by simp
    have d: "drop ((if tl src1 \<noteq> [] \<and> hd (tl src1) = dot then 2 else 1) - 1) (tl src1) = src3" by (simp add: src3_def)
    have comp: "comp_loop 8 False w p1 src1 = Inr (w2, p2, src2) \<Longrightarrow> path_loop rc n w2 p2 src2 = Inr (w', p') \<Longrightarrow> length p' \<le> SFTMAX"
      for w2 p2 src2
      using less(1) [OF l4, of p1 w2 p2 src2 w2 p2] comp_loop_bound [of 8 False w p1 src1 w2 p2 src2] p1(1) False by blast
    show ?thesis
      using less(2) False p1 less(1) [OF l3] comp b
      unfolding path_loop.simps [of _ _ _ _ src] p1(2) sum.case Let_def src1_def [symmetric] d
      by (auto split: if_splits sum.splits option.splits prod.splits dest!: up_dir_bound)
  qed
qed

lemma tn_path_bound: "tn_path mode rc n p src s = Inr dest \<Longrightarrow> length p \<le> SFTMAX \<Longrightarrow> length dest \<le> SFTMAX"
  by (auto simp: tn_path_def Let_def DosUpFString_def DosUpFMem_def upMMem_def split: sum.splits prod.splits if_splits dest: path_loop_bound)

lemma tn_join_bound:
  assumes "tn_join dest result s = Some (Some (r, dest', l))" "length dest \<le> SFTMAX"
  shows "length dest' \<le> SFTMAX"
proof -
  obtain i where i: "find (\<lambda>i. joins dest (CDSp s (of_nat i))) [0..<unat (lastdrive s)] = Some i"
    using assms(1) by (cases "find (\<lambda>i. joins dest (CDSp s (of_nat i))) [0..<unat (lastdrive s)]") (auto simp: tn_join_def)
  then have "joins dest (CDSp s (of_nat i))" by (auto simp: find_Some_iff)
  then have "length (cdsCurrentPath (CDSp s (of_nat i))) \<le> length dest"
    by (auto simp: joins_def Let_def) (metis length_take min.cobounded1)
  then show ?thesis using assms i by (auto simp: tn_join_def Let_def split: if_splits)
qed

lemma tn_finish_bound:
  "tn_finish P mode result dest s = Some (Inr (r, dest'), s') \<Longrightarrow> length dest \<le> SFTMAX \<Longrightarrow> length dest' \<le> SFTMAX"
  by (auto simp: tn_finish_def bind_eq_Some_conv Let_def split: option.splits if_splits prod.splits dest: tn_join_bound)

lemma TempCDS_frame: "dkeep s' = dkeep s \<Longrightarrow> TempCDS s' = TempCDS s"
  by (cases s, cases s') (auto simp: dkeep_def job.defs)

lemma tn_curdir_bound:
  assumes "tn_curdir P E drive s = Some (ok, s')"
  shows "length (cdsCurrentPath (TempCDS s')) \<le> 66"
proof -
  have m: "media_check P E d t = Some (r, t') \<Longrightarrow> TempCDS t' = TempCDS t" for d r t t'
    using keeps_dest [OF media_check_frame [OF refl]] TempCDS_frame by fastforce
  have c: "dos_cd P nm t = Some (r, t') \<Longrightarrow> TempCDS t' = TempCDS t" for nm r t t'
    using keeps_dest [OF dos_cd_frame [OF refl]] TempCDS_frame by fastforce
  show ?thesis using assms
    by (auto simp: tn_curdir_def Let_def bind_eq_Some_conv split: if_splits dest!: m c)
qed

lemma tn_start_bound:
  assumes "tn_start mode result src s = (p, n, r, src')" "length (cdsCurrentPath (TempCDS s)) \<le> 66"
  shows "length p \<le> SFTMAX"
  using assms by (auto simp: tn_start_def Let_def split: if_splits)

text \<open>
  C28. The loop of \<^verbatim>\<open>truename\<close> over the characters of a path computes the stack of components that the specification
  \<^verbatim>\<open>resolve\<close> computes from the list of them: empty components and \<^verbatim>\<open>.\<close> are dropped, \<^verbatim>\<open>..\<close> removes the last component and
  fails at the root, wildcards are expanded to question marks and allowed in the last component only, names are cut to
  8.3 form, a second dot or a forbidden character is an error, and so is a path that does not fit. The loop fails
  exactly when the specification does.
\<close>

theorem path_loop_resolves:
  assumes "root \<noteq> []" "last root \<noteq> backslash" "comps_ok st"
  shows "to_opt (path_loop backslash (length root) w (root @ render st) src) =
    map_option (\<lambda>(w, st). (w, root @ render st)) (resolve (length root) w st (components src))"
  by (rule path_loop_resolve_from [OF assms])

text \<open>The witness: in the directory \<^verbatim>\<open>C:\DOS\<close>, the path \<^verbatim>\<open>..\/A*.LONG\<close> is \<^verbatim>\<open>C:\A???????.LON\<close>.\<close>

theorem path_loop_resolves_witness:
  "to_opt (path_loop backslash 2 False [0x43, 0x3a, 0x5c, 0x44, 0x4f, 0x53]
     [0x2e, 0x2e, 0x5c, 0x2f, 0x41, 0x2a, 0x2e, 0x4c, 0x4f, 0x4e, 0x47]) =
   Some (True, [0x43, 0x3a, 0x5c, 0x41] @ replicate 7 0x3f @ [0x2e, 0x4c, 0x4f, 0x4e])"
proof -
  have "resolve 2 False [[0x44, 0x4f, 0x53]] (components [0x2e, 0x2e, 0x5c, 0x2f, 0x41, 0x2a, 0x2e, 0x4c, 0x4f, 0x4e, 0x47]) =
      Some (True, [0x41 # replicate 7 0x3f @ [0x2e, 0x4c, 0x4f, 0x4e]])"
    by code_simp
  moreover have l: "length [0x43, 0x3a :: u8] = 2" by simp
  ultimately show ?thesis
    using path_loop_resolves [of "[0x43, 0x3a]" "[[0x44, 0x4f, 0x53]]" False "[0x2e, 0x2e, 0x5c, 0x2f, 0x41, 0x2a, 0x2e, 0x4c, 0x4f, 0x4e, 0x47]", unfolded l]
    by (simp add: render_def)
qed

text \<open>
  C29. The components that a path gets are in 8.3 convention: at most eight characters, optionally a dot and at most three
  more, no second dot, no separator and none of the characters that names may not have.
\<close>

theorem path_loop_83:
  assumes "root \<noteq> []" "last root \<noteq> backslash" "comps_ok st" "\<forall>e\<in>set st. is83 e"
    and "path_loop backslash (length root) w (root @ render st) src = Inr (w', p)"
  shows "\<exists>st'. p = root @ render st' \<and> (\<forall>e\<in>set st'. is83 e)"
proof -
  obtain st' where st': "resolve (length root) w st (components src) = Some (w', st')" "p = root @ render st'"
    using path_loop_resolve_from [OF assms(1-3), of w src, symmetric] assms(5) by auto
  then have "\<forall>e\<in>set st'. is83 e" using resolve_is83 [OF st'(1) assms(4)] components_sep by blast
  then show ?thesis using st'(2) by blast
qed

theorem path_loop_83_witness:
  "\<exists>st'. [0x43, 0x3a, 0x5c, 0x41, 0x2e, 0x43] = [0x43, 0x3a] @ render st' \<and> (\<forall>e\<in>set st'. is83 e)"
proof -
  have "to_opt (path_loop backslash 2 False ([0x43, 0x3a] @ render []) [0x41, 0x2e, 0x43]) = Some (False, [0x43, 0x3a, 0x5c, 0x41, 0x2e, 0x43])"
    by code_simp
  then have "path_loop backslash (length [0x43, 0x3a :: u8]) False ([0x43, 0x3a] @ render []) [0x41, 0x2e, 0x43] =
      Inr (False, [0x43, 0x3a, 0x5c, 0x41, 0x2e, 0x43])"
    by (simp add: to_opt_def numeral_2_eq_2 split: sum.splits)
  then show ?thesis by (intro path_loop_83 [of _ "[]"]) simp_all
qed

text \<open>
  C30. A name that \<^verbatim>\<open>truename\<close> returns has at most 128 characters, whatever path it gets, when the network redirector keeps to
  that bound. (The array it is stored in has 128 bytes, which leaves none for the terminator of a name of 128
  characters.)
\<close>

theorem truename_fits:
  assumes "truename P E V src mode s = Some (Inr (r, dest), s')"
    and "\<forall>src w. length (fst (snd (QRemote_Fn V src w))) \<le> SFTMAX"
  shows "length dest \<le> SFTMAX"
proof -
  have unc: "unc_copy cs src p = Inr q \<Longrightarrow> length p \<le> SFTMAX \<Longrightarrow> length q \<le> SFTMAX" for cs p q
    by (induction cs arbitrary: p) (auto split: sum.splits dest: addChar_bound)
  have loc: "tn_local P E mode drive result src t = Some (Inr (r, dest), s') \<Longrightarrow> length dest \<le> SFTMAX" for drive result t
    by (auto simp: tn_local_def Let_def bind_eq_Some_conv split: prod.splits if_splits sum.splits
        dest!: tn_finish_bound tn_path_bound tn_curdir_bound tn_start_bound)
  show ?thesis
    using assms(1) assms(2) [rule_format, of src "world s"] loc unc [of "src @ [0]" "[]"]
    by (auto simp: truename_def Let_def split: if_splits sum.splits option.splits prod.splits)
qed

text \<open>The witness: \<^verbatim>\<open>truename\<close> of \<^verbatim>\<open>nul.x\<close> with drive C: current is \<^verbatim>\<open>C:/NUL.X\<close>.\<close>

definition demo_remote :: "nat remote" where
  "demo_remote = \<lparr>network_redirector_fp = (\<lambda>_ f w. (-1, f, w)), share_check = (\<lambda>w. (0, w)), share_close_file = (\<lambda>_ w. w),
     QRemote_Fn = (\<lambda>_ w. (-1, [], w))\<rparr>"

definition demo_machine :: "nat platform" where
  "demo_machine = \<lparr>execrh = (\<lambda>rq _ d w. (rq, d, w)), dh_attr = (\<lambda>_. 0x8004), CriticalError = (\<lambda>_ _ _ _ w. (3, w)), network_redirector = (\<lambda>_ w. w)\<rparr>"

definition demo_job :: "nat job \<Rightarrow> nat job" where
  "demo_job x = x\<lparr>lastdrive := 5, default_drive := 2, nlsUpcase := (\<lambda>c. c), nlsFUpcase := (\<lambda>c. c), njoined := 0,
     CDSp := (\<lambda>_. \<lparr>cdsCurrentPath = [0x43, 0x3a, 0x5c], cdsFlags = CDSPHYSDRV, cdsDpb = 1, cdsStrtClst = 0xffff, cdsBackslashOffset = 2\<rparr>),
     nul_dev := [\<lparr>dh_addr = 0x00700000, dh_name = [0x4e, 0x55, 0x4c, 0x20, 0x20, 0x20, 0x20, 0x20]\<rparr>]\<rparr>"

lemma demo_truename:
  "truename demo_machine E demo_remote [0x6e, 0x75, 0x6c, 0x2e, 0x78] 0 (demo_job x) =
    Some (Inr (0x22, [0x43, 0x3a, 0x2f, 0x4e, 0x55, 0x4c, 0x2e, 0x58]),
      (demo_job x)\<lparr>TempCDS := CDSp (demo_job x) 2, current_ldt := Ldt 2\<rparr>)"
proof -
  have d: "IsDevice demo_machine [0x6e, 0x75, 0x6c, 0x2e, 0x78] (demo_job x) = Some (hd (nul_dev (demo_job x)))"
    by (simp add: IsDevice_def get_root_def demo_job_def demo_machine_def DosUpFChar_def DosUpFMem_def upMMem_def up_char_def)
  have p: "path_loop slash 2 False [0x43, 0x3a] [0x6e, 0x75, 0x6c, 0x2e, 0x78] = Inr (False, [0x43, 0x3a, 0x2f, 0x6e, 0x75, 0x6c, 0x2e, 0x78])"
    by code_simp
  show ?thesis unfolding truename_def d
    by (simp add: Let_def tn_cds_def tn_drive_def get_cds_def demo_job_def demo_remote_def tn_local_def tn_device_def get_root_def
        tn_path_def p tn_finish_def DosUpFString_def DosUpFMem_def upMMem_def up_char_def)
qed

theorem truename_fits_witness:
  "\<forall>E x. \<exists>r dest s'. truename demo_machine E demo_remote [0x6e, 0x75, 0x6c, 0x2e, 0x78] 0 (demo_job x) = Some (Inr (r, dest), s') \<and> length dest \<le> SFTMAX"
  using demo_truename truename_fits [OF demo_truename] by (auto simp: demo_remote_def)

text \<open>The bound is reached: fourteen directories of eight characters behind \<^verbatim>\<open>C:\<close>.\<close>

lemma path_loop_reaches_SFTMAX:
  "map_option (length \<circ> snd) (to_opt (path_loop backslash 2 False [0x43, 0x3a] (concat (replicate 14 (backslash # replicate 8 0x41))))) = Some SFTMAX"
  by code_simp

section \<open>Devices\<close>

abbreviation (input) in_name :: "u8 \<Rightarrow> bool" where
  "in_name c \<equiv> c \<noteq> slash \<and> c \<noteq> backslash \<and> c \<noteq> colon"

lemma get_root_append:
  assumes "\<forall>c\<in>set name. in_name c" "pre = [] \<or> \<not> in_name (last pre)"
  shows "get_root (pre @ name) = name"
proof -
  have 1: "root_loop acc (d @ cs) = root_loop (rev d @ acc) cs" if "\<forall>c\<in>set d. in_name c" for d acc cs
    using that by (induction d arbitrary: acc) auto
  have "get_root (pre @ name) = root_loop name (rev pre)"
    using 1 [of "rev name" "[]" "rev pre"] assms(1) by (simp add: get_root_def)
  then show ?thesis using assms(2) by (cases pre rule: rev_exhaust) auto
qed

lemma dev_match_extension:
  "dot \<notin> set name \<Longrightarrow> 0 \<notin> set name \<Longrightarrow> dev_match up (name @ dot # ext) ns = dev_match up name ns"
  by (induction ns arbitrary: name) (case_tac name; simp add: Let_def)+

text \<open>
  A device keeps its name whatever extension is given to it: \<^verbatim>\<open>NUL.LST\<close> is \<^verbatim>\<open>NUL\<close>, in every directory.
\<close>

theorem IsDevice_extension:
  assumes "name \<noteq> []" "\<forall>c\<in>set name. in_name c \<and> c \<noteq> dot \<and> c \<noteq> 0" "\<forall>c\<in>set ext. in_name c" "pre = [] \<or> \<not> in_name (last pre)"
  shows "IsDevice P (pre @ name @ dot # ext) s = IsDevice P (pre @ name) s"
proof -
  have r1: "get_root (pre @ name) = name" by (rule get_root_append) (use assms in auto)
  have r2: "get_root (pre @ name @ dot # ext) = name @ dot # ext" by (rule get_root_append [OF _ assms(4)]) (use assms(2,3) in auto)
  have m: "dev_match up (name @ dot # ext) ns = dev_match up name ns" for up ns
    by (rule dev_match_extension) (use assms(2) in auto)
  have "name ! 0 \<noteq> 0" "name ! 0 \<noteq> dot" using assms(1,2) by auto
  then show ?thesis unfolding IsDevice_def r1 r2 m Let_def using assms(1) by (simp add: nth_append)
qed

theorem IsDevice_extension_witness:
  "\<forall>x. IsDevice demo_machine ([0x43, 0x3a] @ [0x6e, 0x75, 0x6c] @ dot # [0x78]) (demo_job x) = IsDevice demo_machine ([0x43, 0x3a] @ [0x6e, 0x75, 0x6c]) (demo_job x)"
  by (intro allI IsDevice_extension) simp_all

end
