(* ===== verification/BlockCache.thy ===== *)
theory BlockCache
  imports BlockIO
begin

text \<open>
  Correctness of the block cache: the ring of buffers keeps its shape under every operation, and
  on a device that carries out its requests the cache is transparent. A sector read through the
  cache is the sector last written, whatever buffers were recycled in between, and flushing
  makes the disk equal to what the cache shows.
\<close>

section \<open>The ring of buffers\<close>

fun links :: "(u16 \<Rightarrow> u16) \<Rightarrow> (u16 \<Rightarrow> u16) \<Rightarrow> u16 list \<Rightarrow> bool" where
  "links N V (x # y # zs) \<longleftrightarrow> N x = y \<and> V y = x \<and> links N V (y # zs)"
| "links N V zs \<longleftrightarrow> True"

definition ring :: "(u16 \<Rightarrow> buffer) \<Rightarrow> u16 \<Rightarrow> u16 list \<Rightarrow> bool" where
  "ring m f bs \<longleftrightarrow> distinct bs \<and> bs \<noteq> [] \<and> hd bs = f \<and> links (b_next \<circ> m) (b_prev \<circ> m) (bs @ [f])"

lemma links_append: "links N V (xs @ y # zs) \<longleftrightarrow> links N V (xs @ [y]) \<and> links N V (y # zs)"
proof (induction xs)
  case (Cons x xs)
  then show ?case by (cases xs) auto
qed simp

lemma links_upd_next: "x \<notin> set (butlast zs) \<Longrightarrow> links (N(x := v)) V zs = links N V zs"
  by (induction N V zs rule: links.induct) auto

lemma links_upd_prev: "x \<notin> set (tl zs) \<Longrightarrow> links N (V(x := v)) zs = links N V zs"
  by (induction N V zs rule: links.induct) auto

lemma links_cong: "(\<And>x. x \<in> set zs \<Longrightarrow> N x = N' x \<and> V x = V' x) \<Longrightarrow> links N V zs = links N' V' zs"
  by (induction N V zs rule: links.induct) auto

lemma ring_cong:
  assumes "\<And>x. x \<in> set bs \<Longrightarrow> b_next (m x) = b_next (m' x) \<and> b_prev (m x) = b_prev (m' x)"
  shows "ring m f bs = ring m' f bs"
proof (cases "bs \<noteq> [] \<and> hd bs = f")
  case True
  then have "f \<in> set bs" by auto
  then have "links (b_next \<circ> m) (b_prev \<circ> m) (bs @ [f]) = links (b_next \<circ> m') (b_prev \<circ> m') (bs @ [f])"
    using assms by (intro links_cong) auto
  then show ?thesis by (simp add: ring_def)
qed (auto simp: ring_def)

lemma links_hd_snd: "links N V (x # zs @ [f]) \<Longrightarrow> N x = hd (zs @ [f]) \<and> V (hd (zs @ [f])) = x"
  by (cases zs) auto

lemma links_last: "links N V (zs @ [x, y]) \<Longrightarrow> N x = y \<and> V y = x"
  by (simp add: links_append [of N V zs x "[y]"])

lemma ring_next:
  assumes "ring m f (xs @ x # ys)"
  shows "b_next (m x) = (case ys of [] \<Rightarrow> f | y # _ \<Rightarrow> y)"
proof -
  have "links (b_next \<circ> m) (b_prev \<circ> m) (xs @ x # (ys @ [f]))" using assms by (simp add: ring_def)
  then have "links (b_next \<circ> m) (b_prev \<circ> m) (x # (ys @ [f]))" using links_append by blast
  from links_hd_snd [OF this] show ?thesis by (cases ys) auto
qed

lemma ring_prev_first:
  assumes "ring m f bs"
  shows "b_prev (m f) = last bs"
proof -
  obtain zs x where "bs = zs @ [x]" using assms by (cases bs rule: rev_cases) (auto simp: ring_def)
  then show ?thesis using assms links_last [of "b_next \<circ> m" "b_prev \<circ> m" zs x f] by (simp add: ring_def)
qed

subsection \<open>Moving a buffer to the front\<close>

lemma set_links [simp]:
  "b_next (set_next p v m q) = (if q = p then v else b_next (m q))"
  "b_prev (set_next p v m q) = b_prev (m q)"
  "b_prev (set_prev p v m q) = (if q = p then v else b_prev (m q))"
  "b_next (set_prev p v m q) = b_next (m q)"
  by (simp_all add: set_next_def set_prev_def)

lemma move_buffer_next:
  assumes "n \<noteq> b" "p \<noteq> b" "f \<noteq> b" "b_next (m b) = n" "b_prev (m b) = p"
    "l = (if n = f then p else b_prev (m f))" "l \<noteq> b"
  shows "b_next \<circ> move_buffer b f m = ((b_next \<circ> m)(p := n))(b := f, l := b)"
    and "b_prev \<circ> move_buffer b f m = ((b_prev \<circ> m)(n := p))(b := l, f := b)"
  using assms by (auto simp: move_buffer_def Let_def fun_eq_iff)

lemma move_buffer_ring:
  assumes "ring m f (f # xs @ b # ys)"
  shows "ring (move_buffer b f m) b (b # f # xs @ ys)"
proof -
  let ?N = "b_next \<circ> m" and ?V = "b_prev \<circ> m"
  have d: "distinct (f # xs @ b # ys)" and l: "links ?N ?V ((f # xs) @ b # (ys @ [f]))"
    using assms by (simp_all add: ring_def)
  have l1: "links ?N ?V ((f # xs) @ [b])" and l2: "links ?N ?V (b # ys @ [f])"
    using l links_append [of ?N ?V "f # xs" b "ys @ [f]"] by blast+
  obtain zs p where zp: "f # xs = zs @ [p]" by (metis append_butlast_last_id list.distinct(1))
  have pb: "?V b = p" "?N p = b" using links_last [of ?N ?V zs p b] l1 zp by simp_all
  obtain n ws where nw: "ys @ [f] = n # ws" by (cases ys) auto
  have nb: "?N b = n" "?V n = b" using l2 nw by simp_all
  have ne: "n \<noteq> b" "p \<noteq> b" "f \<noteq> b"
    using d zp nw by (auto simp: Cons_eq_append_conv append_eq_Cons_conv)
  define k where "k = (if n = f then p else ?V f)"
  have nf: "n = f \<longleftrightarrow> ys = []" using nw d by (auto simp: Cons_eq_append_conv append_eq_Cons_conv)
  have k: "ys = [] \<Longrightarrow> k = p" "ys \<noteq> [] \<Longrightarrow> k = last ys"
  proof -
    show "ys = [] \<Longrightarrow> k = p" using nf by (simp add: k_def)
    assume "ys \<noteq> []"
    then obtain us u where "ys = us @ [u]" by (metis append_butlast_last_id)
    then show "k = last ys" using links_last [of ?N ?V "b # us" u f] l2 nf by (simp add: k_def)
  qed
  have kb: "k \<noteq> b" using k d ne by (cases "ys = []") auto
  have mv: "b_next \<circ> move_buffer b f m = (?N(p := n))(b := f, k := b)"
      "b_prev \<circ> move_buffer b f m = (?V(n := p))(b := k, f := b)"
    using move_buffer_next [OF ne _ _ _ kb, of m] nb(1) pb(1) k_def by simp_all
  let ?N' = "(?N(p := n))(b := f, k := b)" and ?V' = "(?V(n := p))(b := k, f := b)"
  have pre: "links ?N' ?V' (f # xs) = links ?N ?V (f # xs)"
  proof -
    have "b \<notin> set (f # xs)" "n \<notin> set xs" "f \<notin> set xs" "p \<notin> set (butlast (f # xs))"
      using d zp nw by (auto simp: Cons_eq_append_conv append_eq_Cons_conv)
    moreover have "k \<notin> set (butlast (f # xs))"
    proof (cases "ys = []")
      case False
      then have "k \<in> set ys" using k(2) by simp
      then have "k \<notin> set (f # xs)" using d by auto
      then show ?thesis by (metis in_set_butlastD)
    qed (use k(1) calculation(4) in simp)
    moreover have "b \<notin> set (butlast (f # xs))" using calculation(1) by (metis in_set_butlastD)
    ultimately show ?thesis by (simp add: links_upd_next links_upd_prev del: butlast.simps)
  qed
  have "links ?N ?V (f # xs)" using l1 zp by (auto simp: links_append [of ?N ?V zs p "[b]"])
  have main: "links ?N' ?V' ((f # xs) @ ys @ [b])"
  proof (cases "ys = []")
    case True
    have "links ?N' ?V' (zs @ [p])" using pre \<open>links ?N ?V (f # xs)\<close> zp by simp
    moreover have "links ?N' ?V' [p, b]" using True k(1) ne by simp
    ultimately have "links ?N' ?V' (zs @ p # [b])" using links_append by blast
    then show ?thesis using True zp by simp
  next
    case False
    then obtain us u where u: "ys = us @ [u]" by (metis append_butlast_last_id)
    then have ku: "k = u" using k(2) False by simp
    obtain ys' where y: "ys = n # ys'" using False nw by (cases ys) auto
    have "links ?N ?V ((b # us) @ u # [f])" using l2 u by simp
    then have "links ?N ?V ((b # us) @ [u])" using links_append by blast
    then have "links ?N ?V (b # n # ys')" using u y by simp
    then have ly: "links ?N ?V (n # ys')" by simp
    have "links ?N' ?V' (n # ys') = links ?N ?V (n # ys')"
    proof -
      have "p \<notin> set ys" "b \<notin> set ys" "f \<notin> set ys" "n \<notin> set ys'"
        using d zp y by (auto simp: Cons_eq_append_conv)
      moreover have "u \<notin> set (butlast ys)" using d u by simp
      ultimately have "p \<notin> set (butlast (n # ys'))" "b \<notin> set (butlast (n # ys'))" "u \<notin> set (butlast (n # ys'))"
          "b \<notin> set ys'" "f \<notin> set ys'" "n \<notin> set ys'"
        using y by (auto dest: in_set_butlastD simp del: butlast.simps)
      then show ?thesis using ku by (simp add: links_upd_next links_upd_prev del: butlast.simps)
    qed
    then have "links ?N' ?V' ys" using ly y by simp
    moreover have "?N' p = n" "?V' n = p" "?N' u = b" "?V' b = u" using ku ne nf False d zp u y
      by (auto simp: Cons_eq_append_conv)
    ultimately have "links ?N' ?V' [p, n]" "links ?N' ?V' ([] @ n # ys')" "links ?N' ?V' [u, b]"
      using y by simp_all
    then have a: "links ?N' ?V' (p # n # ys')" using y \<open>links ?N' ?V' ys\<close> by simp
    moreover have "links ?N' ?V' (zs @ [p])" using pre \<open>links ?N ?V (f # xs)\<close> zp by simp
    ultimately have "links ?N' ?V' (zs @ p # n # ys')" using links_append by blast
    then have "links ?N' ?V' ((zs @ p # us) @ [u])" using y u by simp
    then have "links ?N' ?V' ((zs @ p # us) @ u # [b])" using \<open>links ?N' ?V' [u, b]\<close> links_append by blast
    then show ?thesis using zp u by (metis append.assoc append_Cons append_Nil)
  qed
  have "links ?N' ?V' (b # f # xs @ ys @ [b])" using main kb ne by simp
  then show ?thesis using d mv by (auto simp: ring_def)
qed

text \<open>What a buffer holds apart from its links.\<close>

definition unlink :: "buffer \<Rightarrow> buffer" where
  "unlink b = b\<lparr>b_next := 0, b_prev := 0\<rparr>"

lemma unlink_eq:
  "unlink b = unlink b' \<longleftrightarrow> b_unit b = b_unit b' \<and> b_flag b = b_flag b' \<and> b_blkno b = b_blkno b' \<and>
     b_copies b = b_copies b' \<and> b_offset b = b_offset b' \<and> b_dpbp b = b_dpbp b' \<and> b_buffer b = b_buffer b'"
  by (cases b; cases b') (auto simp: unlink_def)

lemma unlink_set_links [simp]:
  "unlink (set_next p v m q) = unlink (m q)" "unlink (set_prev p v m q) = unlink (m q)"
  by (simp_all add: set_next_def set_prev_def unlink_def)

lemma unlink_move_buffer [simp]: "unlink (move_buffer b f m p) = unlink (m p)"
  by (simp add: move_buffer_def Let_def)

subsection \<open>The search\<close>

definition last_such :: "('a \<Rightarrow> bool) \<Rightarrow> 'a list \<Rightarrow> 'a \<Rightarrow> 'a" where
  "last_such P xs d = fold (\<lambda>p a. if P p then p else a) xs d"

lemma last_such_simps [simp]:
  "last_such P [] d = d"
  "last_such P (x # xs) d = last_such P xs (if P x then x else d)"
  by (simp_all add: last_such_def)

lemma last_such_cases: "last_such P xs d = d \<or> (last_such P xs d \<in> set xs \<and> P (last_such P xs d))"
proof (induction xs arbitrary: d)
  case (Cons x xs)
  show ?case using Cons.IH [of x] Cons.IH [of d] by auto
qed simp

definition uncached :: "(u16 \<Rightarrow> buffer) \<Rightarrow> u16 \<Rightarrow> bool" where
  "uncached m p \<longleftrightarrow> b_flag (m p) AND BFR_UNCACHE \<noteq> 0"

definition fat_buffer :: "(u16 \<Rightarrow> buffer) \<Rightarrow> u16 \<Rightarrow> bool" where
  "fat_buffer m p \<longleftrightarrow> b_flag (m p) AND BFR_FAT \<noteq> 0"

lemma search_scan_ring:
  assumes "ring m f (pre @ x # xs)"
  shows "search_scan blkno dsk f m x fc ln uc =
    Some (case find (\<lambda>p. is_hit blkno dsk (m p)) (x # xs) of
      Some p \<Rightarrow> Hit p
    | None \<Rightarrow> Miss f (fc + int (length (filter (fat_buffer m) (x # xs))))
        (last_such (\<lambda>p. \<not> fat_buffer m p) (x # xs) ln) (last_such (uncached m) (x # xs) uc))"
  using assms
proof (induction xs arbitrary: pre x fc ln uc)
  case Nil
  have "b_next (m x) = f" using ring_next [OF Nil.prems] by simp
  then show ?case
    by (subst search_scan.simps) (simp add: Let_def uncached_def [symmetric] fat_buffer_def [symmetric])
next
  case (Cons y ys)
  have n: "b_next (m x) = y" using ring_next [OF Cons.prems] by simp
  have "y \<noteq> f"
    using Cons.prems by (cases pre) (auto simp: ring_def)
  moreover have "ring m f ((pre @ [x]) @ y # ys)" using Cons.prems by simp
  from Cons.IH [OF this] show ?case using n \<open>y \<noteq> f\<close>
    by (subst search_scan.simps) (simp add: Let_def uncached_def [symmetric] fat_buffer_def [symmetric] split: option.split)
qed

lemma victim_in_ring:
  assumes "ring m f bs" "0 \<notin> set bs"
  shows "victim m f f fc (last_such (\<lambda>p. \<not> fat_buffer m p) bs 0) (last_such (uncached m) bs 0) \<in> set bs"
proof -
  have "last bs \<in> set bs" using assms(1) by (auto simp: ring_def)
  then show ?thesis
    using last_such_cases [of "\<lambda>p. \<not> fat_buffer m p" bs 0] last_such_cases [of "uncached m" bs 0] ring_prev_first [OF assms(1)]
    by (auto simp: victim_def)
qed

text \<open>With two buffers or more the buffer in front is never the one recycled, unless it was given up.\<close>

lemma victim_not_first:
  assumes "ring m f bs" "2 \<le> length bs" "\<not> uncached m f"
  shows "victim m f f fc (last_such (\<lambda>p. \<not> fat_buffer m p) bs 0) (last_such (uncached m) bs 0) \<noteq> f"
proof -
  obtain x xs where bs: "bs = f # x # xs" using assms(1,2) by (cases bs; cases "tl bs") (auto simp: ring_def)
  have "last bs \<noteq> f" using assms(1) bs by (auto simp: ring_def dest: last_in_set)
  then show ?thesis
    using last_such_cases [of "\<lambda>p. \<not> fat_buffer m p" bs 0] last_such_cases [of "uncached m" bs 0] ring_prev_first [OF assms(1)] assms(3)
    by (auto simp: victim_def fat_buffer_def)
qed

lemma move_front:
  assumes "ring m f bs" "b \<in> set bs" "\<And>p. b_next (m' p) = b_next (m p) \<and> b_prev (m' p) = b_prev (m p)"
  shows "ring (if b \<noteq> f then move_buffer b f m' else m') b (b # remove1 b bs)"
proof -
  have r: "ring m' f bs" using assms(1) ring_cong [of bs m' m f] assms(3) by simp
  obtain xs where bs: "bs = f # xs" using r by (cases bs) (auto simp: ring_def)
  show ?thesis
  proof (cases "b = f")
    case False
    then obtain us vs where "xs = us @ b # vs" "b \<notin> set us" using bs assms(2) by (auto dest: split_list_first)
    then show ?thesis using r bs False move_buffer_ring [of m' f us b vs] by (simp add: remove1_append)
  qed (use r bs in simp)
qed

text \<open>
  The result of a search: a state that differs in the order of the ring and the flag of one
  buffer only.
\<close>

definition searched :: "u32 \<Rightarrow> u16 \<Rightarrow> (u16 \<Rightarrow> buffer) \<Rightarrow> u16 list \<Rightarrow> u16 \<Rightarrow> (u16 \<Rightarrow> buffer) \<Rightarrow> bool" where
  "searched blkno dsk m bs bp m' \<longleftrightarrow> bp \<in> set bs \<and> ring m' bp (bp # remove1 bp bs) \<and>
     (\<forall>p. p \<noteq> bp \<longrightarrow> unlink (m' p) = unlink (m p)) \<and>
     (if \<exists>p \<in> set bs. is_hit blkno dsk (m p)
      then is_hit blkno dsk (m bp) \<and> unlink (m' bp) = unlink ((m bp)\<lparr>b_flag := b_flag (m bp) AND NOT BFR_UNCACHE\<rparr>)
      else unlink (m' bp) = unlink ((m bp)\<lparr>b_flag := b_flag (m bp) OR BFR_UNCACHE\<rparr>) \<and>
        (2 \<le> length bs \<and> \<not> uncached m (hd bs) \<longrightarrow> bp \<noteq> hd bs))"

lemma searched_hitI:
  assumes "bp \<in> set bs" "is_hit blkno dsk (m bp)" "ring m' bp (bp # remove1 bp bs)"
    "\<And>p. p \<noteq> bp \<Longrightarrow> unlink (m' p) = unlink (m p)"
    "unlink (m' bp) = unlink ((m bp)\<lparr>b_flag := b_flag (m bp) AND NOT BFR_UNCACHE\<rparr>)"
  shows "searched blkno dsk m bs bp m'"
proof -
  have "\<exists>p \<in> set bs. is_hit blkno dsk (m p)" using assms(1,2) by blast
  then show ?thesis using assms by (simp add: searched_def)
qed

lemma searched_missI:
  assumes "bp \<in> set bs" "\<not> (\<exists>p \<in> set bs. is_hit blkno dsk (m p))" "ring m' bp (bp # remove1 bp bs)"
    "\<And>p. p \<noteq> bp \<Longrightarrow> unlink (m' p) = unlink (m p)"
    "unlink (m' bp) = unlink ((m bp)\<lparr>b_flag := b_flag (m bp) OR BFR_UNCACHE\<rparr>)"
    "2 \<le> length bs \<and> \<not> uncached m (hd bs) \<longrightarrow> bp \<noteq> hd bs"
  shows "searched blkno dsk m bs bp m'"
  using assms unfolding searched_def by presburger

lemma front_searched:
  assumes r: "ring m f bs" and b: "bp \<in> set bs"
  shows "ring (if bp \<noteq> f then move_buffer bp f (m(bp := (m bp)\<lparr>b_flag := fl\<rparr>)) else m(bp := (m bp)\<lparr>b_flag := fl\<rparr>)) bp
      (bp # remove1 bp bs)"
    "p \<noteq> bp \<Longrightarrow> unlink ((if bp \<noteq> f then move_buffer bp f (m(bp := (m bp)\<lparr>b_flag := fl\<rparr>)) else m(bp := (m bp)\<lparr>b_flag := fl\<rparr>)) p) =
      unlink (m p)"
    "unlink ((if bp \<noteq> f then move_buffer bp f (m(bp := (m bp)\<lparr>b_flag := fl\<rparr>)) else m(bp := (m bp)\<lparr>b_flag := fl\<rparr>)) bp) =
      unlink ((m bp)\<lparr>b_flag := fl\<rparr>)"
proof -
  show "ring (if bp \<noteq> f then move_buffer bp f (m(bp := (m bp)\<lparr>b_flag := fl\<rparr>)) else m(bp := (m bp)\<lparr>b_flag := fl\<rparr>)) bp
      (bp # remove1 bp bs)"
    by (rule move_front [OF r b]) simp
qed auto

lemma searchblock_ring:
  assumes r: "ring (bufs s) (firstbuf s) bs" and z: "0 \<notin> set bs"
  shows "\<exists>bp m'. searchblock blkno dsk s = Some (bp, s\<lparr>bufs := m', firstbuf := bp\<rparr>) \<and>
    searched blkno dsk (bufs s) bs bp m'"
proof -
  let ?m = "bufs s" and ?f = "firstbuf s"
  obtain xs where bs: "bs = ?f # xs" using r by (cases bs) (auto simp: ring_def)
  show ?thesis
  proof (cases "find (\<lambda>p. is_hit blkno dsk (?m p)) bs")
    case (Some bp)
    then have b: "bp \<in> set bs" "is_hit blkno dsk (?m bp)" by (auto simp: find_Some_iff)
    let ?m1 = "?m(bp := (?m bp)\<lparr>b_flag := b_flag (?m bp) AND NOT BFR_UNCACHE\<rparr>)"
    let ?m' = "if bp \<noteq> ?f then move_buffer bp ?f ?m1 else ?m1"
    have "searchblock blkno dsk s = Some (bp, s\<lparr>bufs := ?m', firstbuf := bp\<rparr>)"
      using search_scan_ring [of ?m ?f "[]" ?f xs blkno dsk 0 0 0] r bs Some
      by (simp add: searchblock_def Let_def)
    moreover have "searched blkno dsk ?m bs bp ?m'"
      by (rule searched_hitI [OF b front_searched [OF r b(1)]])
    ultimately show ?thesis by blast
  next
    case None
    let ?bp = "victim ?m ?f ?f (int (length (filter (fat_buffer ?m) bs)))
      (last_such (\<lambda>p. \<not> fat_buffer ?m p) bs 0) (last_such (uncached ?m) bs 0)"
    have nh: "\<not> (\<exists>p \<in> set bs. is_hit blkno dsk (?m p))" using None by (auto simp: find_None_iff)
    have b: "?bp \<in> set bs" by (rule victim_in_ring [OF r z])
    have nf: "2 \<le> length bs \<and> \<not> uncached ?m (hd bs) \<longrightarrow> ?bp \<noteq> hd bs"
      using victim_not_first [OF r] bs by (metis list.sel(1))
    let ?m1 = "?m(?bp := (?m ?bp)\<lparr>b_flag := b_flag (?m ?bp) OR BFR_UNCACHE\<rparr>)"
    let ?m' = "if ?bp \<noteq> ?f then move_buffer ?bp ?f ?m1 else ?m1"
    have "searchblock blkno dsk s = Some (?bp, s\<lparr>bufs := ?m', firstbuf := ?bp\<rparr>)"
      using search_scan_ring [of ?m ?f "[]" ?f xs blkno dsk 0 0 0] r bs None
      by (simp add: searchblock_def Let_def)
    moreover have "searched blkno dsk ?m bs ?bp ?m'"
      by (rule searched_missI [OF b nh front_searched [OF r b] nf])
    ultimately show ?thesis by blast
  qed
qed

section \<open>The device\<close>

text \<open>
  What the cache relies on: a device that carries out the requests it is sent. \<^verbatim>\<open>D w dev unit blk\<close> is
  the sector \<^verbatim>\<open>blk\<close> of a unit of a device in the world \<^verbatim>\<open>w\<close>; sectors have 512 bytes.
\<close>

definition sector :: "bytes \<Rightarrow> bytes" where
  "sector d = (\<lambda>i. if i < 512 then d i else 0)"

type_synonym 'w disk = "'w \<Rightarrow> u32 \<Rightarrow> u8 \<Rightarrow> u32 \<Rightarrow> bytes"

definition rq_block :: "request \<Rightarrow> u32" where
  "rq_block rq = (if r_start rq = 0xffff then r_huge rq else ucast (r_start rq))"

definition good_disk :: "'w platform \<Rightarrow> 'w disk \<Rightarrow> bool" where
  "good_disk P D \<longleftrightarrow>
     (\<forall>rq dev buf w. r_command rq = C_INPUT \<longrightarrow>
        (\<exists>rq' w'. execrh P rq dev buf w =
           (rq', \<lambda>i. if i < 512 * unat (r_count rq)
                then D w dev (r_unit rq) (rq_block rq + of_nat (i div 512)) (i mod 512) else buf i, w') \<and>
           r_status rq' AND 0x8100 = 0x100 \<and> D w' = D w)) \<and>
     (\<forall>rq dev buf w. r_command rq = C_OUTPUT \<or> r_command rq = C_OUTVFY \<longrightarrow>
        (\<exists>rq' w'. execrh P rq dev buf w = (rq', buf, w') \<and> r_status rq' AND 0x8100 = 0x100 \<and>
           (\<forall>dev' un b. D w' dev' un b =
              (if dev' = dev \<and> un = r_unit rq \<and> unat (b - rq_block rq) < unat (r_count rq)
               then sector (\<lambda>i. buf (512 * unat (b - rq_block rq) + i)) else D w dev' un b)))) \<and>
     (\<forall>c w. D (network_redirector P c w) = D w)"

lemma good_disk_read:
  "good_disk P D \<Longrightarrow> r_command rq = C_INPUT \<Longrightarrow>
    \<exists>rq' w'. execrh P rq dev buf w =
           (rq', \<lambda>i. if i < 512 * unat (r_count rq)
                then D w dev (r_unit rq) (rq_block rq + of_nat (i div 512)) (i mod 512) else buf i, w') \<and>
           r_status rq' AND 0x8100 = 0x100 \<and> D w' = D w"
  unfolding good_disk_def by blast

lemma good_disk_write:
  "good_disk P D \<Longrightarrow> r_command rq = C_OUTPUT \<or> r_command rq = C_OUTVFY \<Longrightarrow>
    \<exists>rq' w'. execrh P rq dev buf w = (rq', buf, w') \<and> r_status rq' AND 0x8100 = 0x100 \<and>
           (\<forall>dev' un b. D w' dev' un b =
              (if dev' = dev \<and> un = r_unit rq \<and> unat (b - rq_block rq) < unat (r_count rq)
               then sector (\<lambda>i. buf (512 * unat (b - rq_block rq) + i)) else D w dev' un b))"
  unfolding good_disk_def by blast

definition drive :: "('w, 'a) kst_scheme \<Rightarrow> u16 \<Rightarrow> dpb" where
  "drive s u = dpbs s (get_dpb u s)"

definition on_disk :: "'w disk \<Rightarrow> ('w, 'a) kst_scheme \<Rightarrow> u16 \<Rightarrow> u32 \<Rightarrow> bytes" where
  "on_disk D s u b = sector (D (world s) (dpb_device (drive s u)) (dpb_subunit (drive s u)) b)"

definition drives :: "u16 set \<Rightarrow> ('w, 'a) kst_scheme \<Rightarrow> bool" where
  "drives U s \<longleftrightarrow> (\<forall>u \<in> U. scast (ucast u :: u8) = u \<and> get_dpb u s \<noteq> 0 \<and> dpb_secsize (drive s u) = 512) \<and>
     inj_on (\<lambda>u. (dpb_device (drive s u), dpb_subunit (drive s u))) U"

lemma sector_idem [simp]: "sector (sector d) = sector d"
  by (simp add: sector_def fun_eq_iff)

lemma rq_block_xfer [simp]: "rq_block (xfer_request P d cmd blkno n rq) = blkno"
proof (cases "dh_attr P (dpb_device d) AND 2 \<noteq> 0 \<or> blkno \<ge> 0xffff")
  case False
  then have "unat blkno < 65535" by (simp add: word_le_nat_alt not_le)
  then have "ucast (ucast blkno :: u16) = blkno" "(ucast blkno :: u16) \<noteq> 0xffff"
    using unat_ucast_u16 [of blkno] by (auto simp: ucast_back)
  then show ?thesis using False by (simp add: xfer_request_def Let_def rq_block_def)
qed (simp add: xfer_request_def Let_def rq_block_def)

lemma xfer_request_fields [simp]:
  "r_command (xfer_request P d cmd blkno n rq) = cmd"
  "r_unit (xfer_request P d cmd blkno n rq) = dpb_subunit d"
  "r_count (xfer_request P d cmd blkno n rq) = n"
  by (simp_all add: xfer_request_def Let_def)

text \<open>The parts of the state that only a transfer changes.\<close>

definition after_io :: "request \<Rightarrow> bytes \<Rightarrow> 'w \<Rightarrow> ('w, 'a) kst_scheme \<Rightarrow> ('w, 'a) kst_scheme" where
  "after_io rq db w s = s\<lparr>IoReqHdr := rq, deblock_buf := db, world := w\<rparr>"

lemma after_io_simps [simp]:
  "bufs (after_io rq db w s) = bufs s" "firstbuf (after_io rq db w s) = firstbuf s"
  "bufseg (after_io rq db w s) = bufseg s" "dpbs (after_io rq db w s) = dpbs s"
  "world (after_io rq db w s) = w" "get_dpb u (after_io rq db w s) = get_dpb u s"
  "drive (after_io rq db w s) u = drive s u" "LoL_nbuffers (after_io rq db w s) = LoL_nbuffers s"
  by (simp_all add: after_io_def drive_def get_dpb_def get_cds_def)

lemma sector_read:
  "sector (\<lambda>i. if i < 512 then D (b + of_nat (i div 512)) (i mod 512) else c i) = sector (D (b :: u32))"
  by (auto simp: sector_def fun_eq_iff)

lemma sector_fmemcpy [simp]: "sector (fmemcpy d d' 512) = sector d'"
  by (simp add: sector_def fmemcpy_def fun_eq_iff)

lemma dskxfer_done:
  assumes "get_dpb u s \<noteq> 0" "xfer_command mode s = Some cmd"
    "xfer_once P (drive s u) (xfer_request P (drive s u) cmd b n (IoReqHdr s)) sg buf n mode s = (buf', s')"
    "r_status (IoReqHdr s') AND 0x8100 = 0x100"
  shows "dskxfer P u b sg buf n mode s = Some (0, buf', s')"
proof -
  have "xfer_loop P (drive s u) b sg n mode buf s = Some (0, buf', s')"
    using assms(2-) by (subst xfer_loop.simps) simp
  then show ?thesis using assms(1) by (simp add: dskxfer_def drive_def)
qed

lemma xfer_once_hma:
  assumes "execrh P rq (dpb_device d) (if mode = DSKWRITE then fmemcpy (deblock_buf s) buf (unat (dpb_secsize d)) else deblock_buf s)
      (world s) = (rq', db', w)"
    and "sg \<ge> 0xa000 \<and> bufloc s \<noteq> 0"
  shows "xfer_once P d rq sg buf 1 mode s =
    (if mode = DSKREAD then fmemcpy buf db' (unat (dpb_secsize d)) else buf, after_io rq' db' w s)"
  using assms by (simp add: xfer_once_def Let_def after_io_def)

lemma xfer_once_direct:
  assumes "execrh P rq (dpb_device d) buf (world s) = (rq', buf', w)" "\<not> (sg \<ge> 0xa000 \<and> n = 1 \<and> bufloc s \<noteq> 0)"
  shows "xfer_once P d rq sg buf n mode s = (buf', after_io rq' (deblock_buf s) w s)"
  unfolding xfer_once_def using assms by (auto simp: after_io_def)

lemma after_io_status [simp]: "IoReqHdr (after_io rq db w s) = rq"
  by (simp add: after_io_def)

lemma dskxfer_read:
  assumes g: "good_disk P D" and u: "drives U s" "u \<in> U"
  shows "\<exists>d rq db w. dskxfer P u b sg buf 1 DSKREAD s = Some (0, d, after_io rq db w s) \<and>
    D w = D (world s) \<and> sector d = on_disk D s u b"
proof -
  let ?d = "drive s u"
  have d: "get_dpb u s \<noteq> 0" "dpb_secsize ?d = 512" using u by (auto simp: drives_def)
  let ?rq = "xfer_request P ?d C_INPUT b 1 (IoReqHdr s)"
  let ?rd = "\<lambda>bf i. if i < 512 then D (world s) (dpb_device ?d) (dpb_subunit ?d) (b + of_nat (i div 512)) (i mod 512) else bf i"
  have ex: "\<exists>rq' w'. execrh P ?rq (dpb_device ?d) bf (world s) = (rq', ?rd bf, w') \<and>
      r_status rq' AND 0x8100 = 0x100 \<and> D w' = D (world s)" for bf
    using good_disk_read [OF g, of ?rq "dpb_device ?d" bf "world s"] by (simp cong: if_cong)
  have c: "xfer_command DSKREAD s = Some C_INPUT" by (simp add: xfer_command_def)
  have sec: "sector (?rd bf) = on_disk D s u b" for bf unfolding on_disk_def by (rule sector_read)
  show ?thesis
  proof (cases "sg \<ge> 0xa000 \<and> bufloc s \<noteq> 0")
    case True
    obtain rq' w' where e: "execrh P ?rq (dpb_device ?d) (deblock_buf s) (world s) = (rq', ?rd (deblock_buf s), w')"
        "r_status rq' AND 0x8100 = 0x100" "D w' = D (world s)" using ex by blast
    have "dskxfer P u b sg buf 1 DSKREAD s = Some (0, fmemcpy buf (?rd (deblock_buf s)) 512, after_io rq' (?rd (deblock_buf s)) w' s)"
      using xfer_once_hma [of P ?rq ?d DSKREAD s buf rq' _ w', OF _ True] e d
      by (intro dskxfer_done [OF d(1) c]) auto
    moreover have "sector (fmemcpy buf (?rd (deblock_buf s)) 512) = on_disk D s u b" using sec by simp
    ultimately show ?thesis using e(3) by blast
  next
    case False
    obtain rq' w' where e: "execrh P ?rq (dpb_device ?d) buf (world s) = (rq', ?rd buf, w')"
        "r_status rq' AND 0x8100 = 0x100" "D w' = D (world s)" using ex by blast
    have "xfer_once P ?d ?rq sg buf 1 DSKREAD s = (?rd buf, after_io rq' (deblock_buf s) w' s)"
      using False by (intro xfer_once_direct [OF e(1)]) auto
    then have "dskxfer P u b sg buf 1 DSKREAD s = Some (0, ?rd buf, after_io rq' (deblock_buf s) w' s)"
      using e(2) by (intro dskxfer_done [OF d(1) c]) auto
    then show ?thesis using e(3) sec by blast
  qed
qed

lemma unat_less_one: "unat (b - c :: u32) < 1 \<longleftrightarrow> b = c"
  by (simp add: unat_eq_zero)

lemma dskxfer_write:
  assumes g: "good_disk P D" and u: "drives U s" "u \<in> U"
  shows "\<exists>rq db w. dskxfer P u b sg buf 1 DSKWRITE s = Some (0, buf, after_io rq db w s) \<and>
    (\<forall>u' \<in> U. \<forall>b'. on_disk D (after_io rq db w s) u' b' = (if u' = u \<and> b' = b then sector buf else on_disk D s u' b'))"
proof -
  let ?d = "drive s u"
  have d: "get_dpb u s \<noteq> 0" "dpb_secsize ?d = 512" using u by (auto simp: drives_def)
  define cmd :: u8 where "cmd = (if verify_ena s \<noteq> 0 then C_OUTVFY else C_OUTPUT)"
  let ?rq = "xfer_request P ?d cmd b 1 (IoReqHdr s)"
  have ex: "\<exists>rq' w'. execrh P ?rq (dpb_device ?d) bf (world s) = (rq', bf, w') \<and> r_status rq' AND 0x8100 = 0x100 \<and>
      (\<forall>dev' un b'. D w' dev' un b' = (if dev' = dpb_device ?d \<and> un = dpb_subunit ?d \<and> b' = b then sector bf else D (world s) dev' un b'))" for bf
    using good_disk_write [OF g, of ?rq "dpb_device ?d" bf "world s"] by (simp add: cmd_def unat_eq_zero cong: if_cong)
  have c: "xfer_command DSKWRITE s = Some cmd" by (simp add: xfer_command_def cmd_def)
  have new: "\<forall>u' \<in> U. \<forall>b'. on_disk D (after_io rq db w s) u' b' = (if u' = u \<and> b' = b then sector buf else on_disk D s u' b')"
    if "\<forall>dev' un b'. D w dev' un b' = (if dev' = dpb_device ?d \<and> un = dpb_subunit ?d \<and> b' = b then sector bf else D (world s) dev' un b')"
      "sector bf = sector buf" for rq db w bf
    using u that by (auto simp: on_disk_def drives_def dest: inj_onD)
  show ?thesis
  proof (cases "sg \<ge> 0xa000 \<and> bufloc s \<noteq> 0")
    case True
    let ?db = "fmemcpy (deblock_buf s) buf 512"
    obtain rq' w' where e: "execrh P ?rq (dpb_device ?d) ?db (world s) = (rq', ?db, w')" "r_status rq' AND 0x8100 = 0x100"
        "\<forall>dev' un b'. D w' dev' un b' = (if dev' = dpb_device ?d \<and> un = dpb_subunit ?d \<and> b' = b then sector ?db else D (world s) dev' un b')"
      using ex by blast
    have "dskxfer P u b sg buf 1 DSKWRITE s = Some (0, buf, after_io rq' ?db w' s)"
      using xfer_once_hma [of P ?rq ?d DSKWRITE s buf rq' _ w', OF _ True] e d
      by (intro dskxfer_done [OF d(1) c]) auto
    then show ?thesis using new [OF e(3) sector_fmemcpy] by blast
  next
    case False
    obtain rq' w' where e: "execrh P ?rq (dpb_device ?d) buf (world s) = (rq', buf, w')" "r_status rq' AND 0x8100 = 0x100"
        "\<forall>dev' un b'. D w' dev' un b' = (if dev' = dpb_device ?d \<and> un = dpb_subunit ?d \<and> b' = b then sector buf else D (world s) dev' un b')"
      using ex by blast
    have "xfer_once P ?d ?rq sg buf 1 DSKWRITE s = (buf, after_io rq' (deblock_buf s) w' s)"
      using False by (intro xfer_once_direct [OF e(1)]) auto
    then have "dskxfer P u b sg buf 1 DSKWRITE s = Some (0, buf, after_io rq' (deblock_buf s) w' s)"
      using e(2) by (intro dskxfer_done [OF d(1) c]) auto
    then show ?thesis using new [OF e(3)] by blast
  qed
qed

section \<open>The invariant of the cache\<close>

text \<open>
  \<^verbatim>\<open>U\<close> is the set of drives in use and \<^verbatim>\<open>M\<close> the set of blocks that only receive copies of other
  blocks: the second and further FATs, which are written when a FAT buffer is flushed and never
  read. A buffer that holds a block holds it alone, and a clean one agrees with the disk.
\<close>

definition valid :: "buffer \<Rightarrow> bool" where "valid b \<longleftrightarrow> bit (b_flag b) 5"
definition dirty :: "buffer \<Rightarrow> bool" where "dirty b \<longleftrightarrow> bit (b_flag b) 6"
definition is_fat :: "buffer \<Rightarrow> bool" where "is_fat b \<longleftrightarrow> bit (b_flag b) 1"

abbreviation unit_of :: "buffer \<Rightarrow> u16" where "unit_of b \<equiv> scast (b_unit b)"

definition copy_offset :: "('w, 'a) kst_scheme \<Rightarrow> buffer \<Rightarrow> u32" where
  "copy_offset s b = (if b_offset b = 0 then dpb_xfatsize (dpbs s (b_dpbp b)) else ucast (b_offset b))"

definition block_ok :: "'w disk \<Rightarrow> u16 set \<Rightarrow> (u16 \<times> u32) set \<Rightarrow> ('w, 'a) kst_scheme \<Rightarrow> buffer \<Rightarrow> bool" where
  "block_ok D U M s b \<longleftrightarrow> unit_of b \<in> U \<and> (unit_of b, b_blkno b) \<notin> M \<and>
     (is_fat b \<longrightarrow> b_copies b \<noteq> 0 \<and>
        (\<forall>k. 0 < k \<and> k < unat (b_copies b) \<longrightarrow> (unit_of b, b_blkno b + of_nat k * copy_offset s b) \<in> M)) \<and>
     (\<not> dirty b \<longrightarrow> sector (b_buffer b) = on_disk D s (unit_of b) (b_blkno b))"

definition cache_inv ::
  "'w platform \<Rightarrow> 'w disk \<Rightarrow> u16 set \<Rightarrow> (u16 \<times> u32) set \<Rightarrow> ('w, 'a) kst_scheme \<Rightarrow> u16 list \<Rightarrow> bool" where
  "cache_inv P D U M s bs \<longleftrightarrow> good_disk P D \<and> drives U s \<and> ring (bufs s) (firstbuf s) bs \<and> 0 \<notin> set bs \<and>
     2 \<le> length bs \<and> (\<forall>p \<in> set bs. valid (bufs s p) \<longrightarrow> block_ok D U M s (bufs s p)) \<and>
     (\<forall>p \<in> set bs. \<forall>q \<in> set bs. valid (bufs s p) \<and> valid (bufs s q) \<and> b_unit (bufs s p) = b_unit (bufs s q) \<and>
        b_blkno (bufs s p) = b_blkno (bufs s q) \<longrightarrow> p = q)"

text \<open>What a client of the cache sees of the disks.\<close>

definition view :: "'w disk \<Rightarrow> u16 list \<Rightarrow> ('w, 'a) kst_scheme \<Rightarrow> u16 \<Rightarrow> u32 \<Rightarrow> bytes" where
  "view D bs s u b =
     (case find (\<lambda>p. is_hit b u (bufs s p)) bs of
        Some p \<Rightarrow> sector (b_buffer (bufs s p))
      | None \<Rightarrow> on_disk D s u b)"

lemma is_hit_iff: "is_hit blkno u b \<longleftrightarrow> valid b \<and> b_blkno b = blkno \<and> unit_of b = u"
  by (auto simp: is_hit_def valid_def flag_simps)

lemma cache_invD:
  assumes "cache_inv P D U M s bs"
  shows "good_disk P D" "drives U s" "ring (bufs s) (firstbuf s) bs" "0 \<notin> set bs" "2 \<le> length bs"
    "p \<in> set bs \<Longrightarrow> valid (bufs s p) \<Longrightarrow> block_ok D U M s (bufs s p)"
  using assms by (auto simp: cache_inv_def)

lemma cache_inv_unique:
  assumes "cache_inv P D U M s bs" "p \<in> set bs" "q \<in> set bs" "is_hit b u (bufs s p)" "is_hit b u (bufs s q)"
  shows "p = q"
  using assms by (auto simp: cache_inv_def is_hit_iff)

lemma view_hit:
  assumes "cache_inv P D U M s bs" "p \<in> set bs" "is_hit b u (bufs s p)"
  shows "view D bs s u b = sector (b_buffer (bufs s p))"
proof -
  obtain q where q: "find (\<lambda>p. is_hit b u (bufs s p)) bs = Some q"
    using assms(2,3) by (cases "find (\<lambda>p. is_hit b u (bufs s p)) bs") (auto simp: find_None_iff)
  then have "q \<in> set bs" "is_hit b u (bufs s q)" by (auto simp: find_Some_iff)
  then have "q = p" using cache_inv_unique [OF assms(1)] assms(2,3) by blast
  then show ?thesis using q by (simp add: view_def)
qed

lemma view_miss:
  assumes "\<And>p. p \<in> set bs \<Longrightarrow> \<not> is_hit b u (bufs s p)"
  shows "view D bs s u b = on_disk D s u b"
proof -
  have "find (\<lambda>p. is_hit b u (bufs s p)) bs = None" using assms by (auto simp: find_None_iff)
  then show ?thesis by (simp add: view_def)
qed

section \<open>Writing back\<close>

lemma after_io_same [simp]: "after_io (IoReqHdr s) (deblock_buf s) (world s) s = s"
  by (simp add: after_io_def)

lemma after_io_twice [simp]: "after_io rq' db' w' (after_io rq db w s) = after_io rq' db' w' s"
  by (simp add: after_io_def)

lemma drives_after_io [simp]: "drives U (after_io rq db w s) = drives U s"
  by (simp add: drives_def)

lemma same_buffer [simp]: "bufs_update (\<lambda>_. (bufs s)(p := (bufs s p)\<lparr>b_buffer := b_buffer (bufs s p)\<rparr>)) s = s"
  by (simp add: fun_upd_idem)

lemma after_io_bufs [simp]: "(after_io rq db w s)\<lparr>bufs := bufs s\<rparr> = after_io rq db w s"
  by (simp add: after_io_def)

lemma flush_copies_ok:
  assumes "good_disk P D" "drives U s" "unit_of (bufs s p) \<in> U"
  shows "\<exists>rq db w. flush_copies P p off n b ok s = Some (ok, after_io rq db w s) \<and>
    (\<forall>u' \<in> U. \<forall>b'. on_disk D (after_io rq db w s) u' b' =
      (if u' = unit_of (bufs s p) \<and> (\<exists>k < n. b' = b + of_nat k * off) then sector (b_buffer (bufs s p)) else on_disk D s u' b'))"
  using assms(2,3)
proof (induction n arbitrary: b s)
  case 0
  show ?case by (intro exI [of _ "IoReqHdr s"] exI [of _ "deblock_buf s"] exI [of _ "world s"]) simp
next
  case (Suc n)
  let ?u = "unit_of (bufs s p)" and ?d = "b_buffer (bufs s p)"
  obtain rq db w where x: "dskxfer P ?u b (bufseg s) ?d 1 DSKWRITE s = Some (0, ?d, after_io rq db w s)"
      "\<And>u' b'. u' \<in> U \<Longrightarrow> on_disk D (after_io rq db w s) u' b' = (if u' = ?u \<and> b' = b then sector ?d else on_disk D s u' b')"
    using dskxfer_write [OF assms(1) Suc.prems] by blast
  let ?s1 = "after_io rq db w s"
  have e: "(\<exists>k < Suc n. b' = b + of_nat k * off) \<longleftrightarrow> b' = b \<or> (\<exists>k < n. b' = (b + off) + of_nat k * off)" for b'
    by (subst Ex_less_Suc2) (simp add: algebra_simps)
  obtain rq' db' w' where y: "flush_copies P p off n (b + off) ok ?s1 = Some (ok, after_io rq' db' w' ?s1)"
      "\<And>u' b'. u' \<in> U \<Longrightarrow> on_disk D (after_io rq' db' w' ?s1) u' b' =
        (if u' = unit_of (bufs ?s1 p) \<and> (\<exists>k < n. b' = (b + off) + of_nat k * off) then sector (b_buffer (bufs ?s1 p)) else on_disk D ?s1 u' b')"
    using Suc.IH [of ?s1 "b + off"] Suc.prems by auto
  have "flush_copies P p off (Suc n) b ok s = Some (ok, after_io rq' db' w' s)"
    using x(1) y(1) same_buffer [of ?s1 p] by simp
  moreover have "on_disk D (after_io rq' db' w' s) u' b' =
      (if u' = ?u \<and> (\<exists>k < Suc n. b' = b + of_nat k * off) then sector ?d else on_disk D s u' b')" if "u' \<in> U" for u' b'
    using y(2) [OF that, of b'] x(2) [OF that, of b'] unfolding e by auto
  ultimately show ?case by blast
qed

lemma flush1_ok:
  assumes inv: "cache_inv P D U M s bs" and p: "p \<in> set bs"
  shows "\<exists>rq db w. flush1 P p s =
      Some (True, (after_io rq db w s)\<lparr>bufs := (bufs s)(p := (bufs s p)\<lparr>b_flag := b_flag (bufs s p) AND NOT BFR_DIRTY\<rparr>)\<rparr>) \<and>
    (\<forall>u' \<in> U. \<forall>b'. (u', b') \<notin> M \<longrightarrow> on_disk D (after_io rq db w s) u' b' =
      (if is_hit b' u' (bufs s p) then sector (b_buffer (bufs s p)) else on_disk D s u' b'))"
proof -
  let ?b = "bufs s p"
  note i = cache_invD [OF inv]
  show ?thesis
  proof (cases "valid ?b \<and> dirty ?b")
    case False
    then have "b_flag ?b AND 0x60 \<noteq> 0x60" by (auto simp: flag_simps valid_def dirty_def)
    then have "flush1 P p s = Some (True, (after_io (IoReqHdr s) (deblock_buf s) (world s) s)
        \<lparr>bufs := (bufs s)(p := ?b\<lparr>b_flag := b_flag ?b AND NOT BFR_DIRTY\<rparr>)\<rparr>)"
      by (simp add: flush1_def Let_def)
    moreover have "on_disk D s u' b' = sector (b_buffer ?b)" if "is_hit b' u' ?b" for u' b'
      using that False i(6) [OF p] by (auto simp: is_hit_iff block_ok_def)
    ultimately show ?thesis
      by (intro exI [of _ "IoReqHdr s"] exI [of _ "deblock_buf s"] exI [of _ "world s"]) auto
  next
    case True
    then have ok: "block_ok D U M s ?b" using i(6) [OF p] by blast
    then have u: "unit_of ?b \<in> U" by (simp add: block_ok_def)
    define off where "off = (if is_fat ?b then copy_offset s ?b else 0)"
    define n where "n = (if is_fat ?b then unat (b_copies ?b) else 1)"
    have n: "n \<noteq> 0" using ok by (auto simp: n_def block_ok_def unat_gt_0)
    obtain rq db w where f: "flush_copies P p off n (b_blkno ?b) True s = Some (True, after_io rq db w s)"
      "\<And>u' b'. u' \<in> U \<Longrightarrow> on_disk D (after_io rq db w s) u' b' =
        (if u' = unit_of ?b \<and> (\<exists>k < n. b' = b_blkno ?b + of_nat k * off) then sector (b_buffer ?b) else on_disk D s u' b')"
      using flush_copies_ok [OF i(1,2) u, of off n "b_blkno ?b" True] by blast
    have core: "(if b_flag ?b AND BFR_FAT \<noteq> 0 then flush_copies P p
          (if b_offset ?b = 0 then dpb_xfatsize (dpbs s (b_dpbp ?b)) else ucast (b_offset ?b))
          (unat (b_copies ?b)) (b_blkno ?b) True s
        else flush_copies P p 0 1 (b_blkno ?b) True s) = Some (True, after_io rq db w s)"
      using f(1) by (simp add: off_def n_def copy_offset_def is_fat_def flag_simps del: flush_copies.simps One_nat_def split: if_splits)
    have "b_flag ?b AND 0x60 = 0x60" using True by (simp add: flag_simps valid_def dirty_def)
    then have "flush1 P p s = Some (True, (after_io rq db w s)
        \<lparr>bufs := (bufs s)(p := ?b\<lparr>b_flag := b_flag ?b AND NOT BFR_DIRTY\<rparr>)\<rparr>)"
      unfolding flush1_def Let_def core by (simp add: core del: flush_copies.simps One_nat_def)
    moreover have "on_disk D (after_io rq db w s) u' b' = (if is_hit b' u' ?b then sector (b_buffer ?b) else on_disk D s u' b')"
      if "u' \<in> U" "(u', b') \<notin> M" for u' b'
    proof (cases "is_hit b' u' ?b")
      case True
      then have "u' = unit_of ?b \<and> (\<exists>k < n. b' = b_blkno ?b + of_nat k * off)"
        using n by (intro conjI exI [of _ 0]) (auto simp: is_hit_iff)
      then show ?thesis using f(2) [OF that(1)] True by simp
    next
      case False
      have "\<not> (u' = unit_of ?b \<and> (\<exists>k < n. b' = b_blkno ?b + of_nat k * off))"
      proof
        assume "u' = unit_of ?b \<and> (\<exists>k < n. b' = b_blkno ?b + of_nat k * off)"
        then obtain k where k: "u' = unit_of ?b" "k < n" "b' = b_blkno ?b + of_nat k * off" by blast
        have "k \<noteq> 0"
        proof
          assume "k = 0"
          then show False using k False True by (simp add: is_hit_iff)
        qed
        then show False using ok k that(2) by (auto simp: block_ok_def n_def off_def split: if_splits)
      qed
      then show ?thesis unfolding f(2) [OF that(1), of b'] if_not_P [OF False] by (rule if_not_P)
    qed
    ultimately show ?thesis by blast
  qed
qed

section \<open>Keeping the invariant\<close>

text \<open>The part of the state that the cache works on; everything else stays.\<close>

definition cache_step :: "('w, 'a) kst_scheme \<Rightarrow> ('w, 'a) kst_scheme \<Rightarrow> bool" where
  "cache_step s s' \<longleftrightarrow> (\<exists>rq db w m f. s' = (after_io rq db w s)\<lparr>bufs := m, firstbuf := f\<rparr>)"

lemma cache_step_io [intro]: "cache_step s ((after_io rq db w s)\<lparr>bufs := m, firstbuf := f\<rparr>)"
  unfolding cache_step_def by blast

lemma cache_step_bufs [intro]: "cache_step s ((after_io rq db w s)\<lparr>bufs := m\<rparr>)"
proof -
  have "(after_io rq db w s)\<lparr>bufs := m\<rparr> = (after_io rq db w s)\<lparr>bufs := m, firstbuf := firstbuf s\<rparr>" by (simp add: after_io_def)
  then show ?thesis unfolding cache_step_def by blast
qed

lemma cache_step_refl [simp]: "cache_step s s"
  using cache_step_bufs [where rq = "IoReqHdr s" and db = "deblock_buf s" and w = "world s" and m = "bufs s" and s = s] by simp

lemma cache_step_trans [trans]:
  assumes "cache_step s t" "cache_step t r"
  shows "cache_step s r"
proof -
  obtain rq db w m f where t: "t = (after_io rq db w s)\<lparr>bufs := m, firstbuf := f\<rparr>"
    using assms(1) unfolding cache_step_def by blast
  obtain rq' db' w' m' f' where "r = (after_io rq' db' w' t)\<lparr>bufs := m', firstbuf := f'\<rparr>"
    using assms(2) unfolding cache_step_def by blast
  then have "r = (after_io rq' db' w' s)\<lparr>bufs := m', firstbuf := f'\<rparr>" unfolding t by (simp add: after_io_def)
  then show ?thesis unfolding cache_step_def by blast
qed

lemma cache_step_same:
  assumes "cache_step s t"
  shows "dpbs t = dpbs s" "get_dpb u t = get_dpb u s" "drive t u = drive s u" "drives U t = drives U s"
    "copy_offset t b = copy_offset s b" "kst.more t = kst.more s"
proof -
  obtain rq db w m f where t: "t = (after_io rq db w s)\<lparr>bufs := m, firstbuf := f\<rparr>"
    using assms(1) unfolding cache_step_def by blast
  have "CDSp t = CDSp s" "lastdrive t = lastdrive s" by (simp_all add: t after_io_def)
  then show g: "get_dpb u t = get_dpb u s" for u by (simp add: get_dpb_def get_cds_def)
  show d: "dpbs t = dpbs s" and "kst.more t = kst.more s" by (simp_all add: t after_io_def)
  show "drive t u = drive s u" "copy_offset t b = copy_offset s b" by (simp_all add: drive_def g d copy_offset_def)
  have "drive t = drive s" by (simp add: fun_eq_iff drive_def g d)
  then show "drives U t = drives U s" by (simp add: drives_def g)
qed

text \<open>Buffers that differ in their links and the \<^verbatim>\<open>UNCACHE\<close> flag only.\<close>

definition alike :: "buffer \<Rightarrow> buffer \<Rightarrow> bool" where
  "alike b b' \<longleftrightarrow> valid b' = valid b \<and> dirty b' = dirty b \<and> is_fat b' = is_fat b \<and> b_unit b' = b_unit b \<and>
     b_blkno b' = b_blkno b \<and> b_copies b' = b_copies b \<and> b_offset b' = b_offset b \<and> b_dpbp b' = b_dpbp b \<and>
     b_buffer b' = b_buffer b"

lemma alike_hit: "alike b b' \<Longrightarrow> is_hit n u b' = is_hit n u b"
  by (simp add: alike_def is_hit_iff)

lemma unlink_alike: "unlink b' = unlink b \<Longrightarrow> alike b b'"
  by (simp add: unlink_eq alike_def valid_def dirty_def is_fat_def)

lemma uncache_alike:
  "unlink b' = unlink (b\<lparr>b_flag := b_flag b OR BFR_UNCACHE\<rparr>) \<Longrightarrow> alike b b'"
  "unlink b' = unlink (b\<lparr>b_flag := b_flag b AND NOT BFR_UNCACHE\<rparr>) \<Longrightarrow> alike b b'"
  by (simp_all add: unlink_eq alike_def valid_def dirty_def is_fat_def bit_simps)

lemma block_ok_alike:
  assumes "alike b b'" "copy_offset s' b = copy_offset s b" "\<not> dirty b \<Longrightarrow> on_disk D s' (unit_of b) (b_blkno b) = on_disk D s (unit_of b) (b_blkno b)"
  shows "block_ok D U M s b \<Longrightarrow> block_ok D U M s' b'"
  using assms by (auto simp: block_ok_def alike_def copy_offset_def)

lemma cache_inv_alike:
  assumes inv: "cache_inv P D U M s bs" and al: "\<And>p. p \<in> set bs \<Longrightarrow> alike (bufs s p) (m' p)"
    and r: "ring m' f' bs'" and st: "set bs' = set bs" "length bs' = length bs"
  shows "cache_inv P D U M (s\<lparr>bufs := m', firstbuf := f'\<rparr>) bs'"
    "view D bs' (s\<lparr>bufs := m', firstbuf := f'\<rparr>) u b = view D bs s u b"
proof -
  let ?s = "s\<lparr>bufs := m', firstbuf := f'\<rparr>"
  have "cache_step s ?s" using cache_step_io [where rq = "IoReqHdr s" and db = "deblock_buf s" and w = "world s" and m = m' and f = f' and s = s] by simp
  note same = cache_step_same [OF this]
  have od: "on_disk D ?s u b = on_disk D s u b" for u b using same by (simp add: on_disk_def)
  have ok: "block_ok D U M ?s (m' p)" if "p \<in> set bs" "valid (m' p)" for p
    using that al [OF that(1)] cache_invD(6) [OF inv that(1)]
    by (intro block_ok_alike [of "bufs s p" _ ?s s]) (auto simp: alike_def same od)
  have un: "p = q" if "p \<in> set bs" "q \<in> set bs" "valid (m' p)" "valid (m' q)" "b_unit (m' p) = b_unit (m' q)" "b_blkno (m' p) = b_blkno (m' q)" for p q
    using that al [OF that(1)] al [OF that(2)] inv by (simp add: cache_inv_def alike_def)
  show inv': "cache_inv P D U M ?s bs'"
    using cache_invD [OF inv] r st ok un same(4) unfolding cache_inv_def by simp
  show "view D bs' ?s u b = view D bs s u b"
  proof (cases "\<exists>p \<in> set bs. is_hit b u (bufs s p)")
    case True
    then obtain p where p: "p \<in> set bs" "is_hit b u (bufs s p)" by blast
    then have "is_hit b u (bufs ?s p)" using alike_hit [OF al] by simp
    then have "view D bs' ?s u b = sector (b_buffer (m' p))" using view_hit [OF inv'] p st by simp
    then show ?thesis using view_hit [OF inv p] al [OF p(1)] by (simp add: alike_def)
  next
    case False
    then have "\<not> is_hit b u (bufs ?s p)" "\<not> is_hit b u (bufs s p)" if "p \<in> set bs" for p
      using that alike_hit [OF al] by auto
    then show ?thesis using view_miss [of bs' b u ?s D] view_miss [of bs b u s D] st od by simp
  qed
qed

text \<open>
  The common step: one buffer is replaced, and the disk changes at most where that buffer
  belonged or in the copies.
\<close>

lemma put_inv:
  assumes inv: "cache_inv P D U M s bs" and p: "p \<in> set bs"
    and l: "b_next b' = b_next (bufs s p)" "b_prev b' = b_prev (bufs s p)"
    and od: "\<And>u b. u \<in> U \<Longrightarrow> (u, b) \<notin> M \<Longrightarrow> \<not> is_hit b u (bufs s p) \<Longrightarrow> on_disk D (after_io rq db w s) u b = on_disk D s u b"
    and ok: "valid b' \<Longrightarrow> block_ok D U M (after_io rq db w s) b'"
    and un: "\<And>q. valid b' \<Longrightarrow> q \<in> set bs \<Longrightarrow> q \<noteq> p \<Longrightarrow> \<not> is_hit (b_blkno b') (unit_of b') (bufs s q)"
    and gone: "\<And>u b. is_hit b u (bufs s p) \<Longrightarrow> \<not> is_hit b u b' \<Longrightarrow> on_disk D (after_io rq db w s) u b = sector (b_buffer (bufs s p))"
  defines "t \<equiv> (after_io rq db w s)\<lparr>bufs := (bufs s)(p := b')\<rparr>"
  shows "cache_inv P D U M t bs"
    "u \<in> U \<Longrightarrow> (u, b) \<notin> M \<Longrightarrow> view D bs t u b = (if is_hit b u b' then sector (b_buffer b') else view D bs s u b)"
proof -
  have cs: "cache_step s t" unfolding t_def by blast
  note same = cache_step_same [OF cs] and i = cache_invD [OF inv]
  have odt: "on_disk D t u b = on_disk D (after_io rq db w s) u b" for u b
    unfolding on_disk_def same(3) by (simp add: t_def)
  have co: "copy_offset t b = copy_offset (after_io rq db w s) b" for b by (simp add: copy_offset_def t_def)
  have bt: "bufs t = (bufs s)(p := b')" by (simp add: t_def)
  have "ring (bufs t) (firstbuf t) bs"
    using i(3) ring_cong [of bs "bufs t" "bufs s" "firstbuf s"] l bt by (simp add: t_def)
  moreover have okq: "block_ok D U M t (bufs t q)" if q: "q \<in> set bs" "valid (bufs t q)" for q
  proof (cases "q = p")
    case True
    then show ?thesis using ok q bt odt co by (simp add: block_ok_def)
  next
    case False
    then have v: "valid (bufs s q)" using q bt by simp
    have "\<not> is_hit (b_blkno (bufs s q)) (unit_of (bufs s q)) (bufs s p)"
      using cache_inv_unique [OF inv q(1) p] v False by (auto simp: is_hit_iff)
    then show ?thesis using i(6) [OF q(1) v] False bt od odt same(5) by (simp add: block_ok_def)
  qed
  moreover have unt: "q = r" if "q \<in> set bs" "r \<in> set bs" "valid (bufs t q)" "valid (bufs t r)"
      "b_unit (bufs t q) = b_unit (bufs t r)" "b_blkno (bufs t q) = b_blkno (bufs t r)" for q r
  proof (cases "q = p \<or> r = p")
    case True
    then show ?thesis using that un bt by (auto simp: is_hit_iff split: if_splits)
  next
    case False
    then show ?thesis using that bt inv by (simp add: cache_inv_def)
  qed
  ultimately show inv': "cache_inv P D U M t bs"
    using i same(4) unfolding cache_inv_def by blast
  assume ub: "u \<in> U" "(u, b) \<notin> M"
  show "view D bs t u b = (if is_hit b u b' then sector (b_buffer b') else view D bs s u b)"
  proof (cases "is_hit b u b'")
    case True
    then show ?thesis using view_hit [OF inv' p] bt by simp
  next
    case nb: False
    show ?thesis
    proof (cases "\<exists>q \<in> set bs. q \<noteq> p \<and> is_hit b u (bufs s q)")
      case True
      then obtain q where q: "q \<in> set bs" "q \<noteq> p" "is_hit b u (bufs s q)" by blast
      then have "is_hit b u (bufs t q)" using bt by simp
      then have "view D bs t u b = sector (b_buffer (bufs t q))" by (rule view_hit [OF inv' q(1)])
      then show ?thesis using view_hit [OF inv q(1,3)] nb q bt by simp
    next
      case False
      then have "\<not> is_hit b u (bufs t q)" if "q \<in> set bs" for q using that nb bt by auto
      then have vt: "view D bs t u b = on_disk D (after_io rq db w s) u b"
        using view_miss [of bs b u t D] odt by simp
      show ?thesis
      proof (cases "is_hit b u (bufs s p)")
        case True
        then show ?thesis using vt view_hit [OF inv p True] gone [OF True nb] nb by simp
      next
        case np: False
        then have "view D bs s u b = on_disk D s u b" using False by (intro view_miss) auto
        then show ?thesis using vt od [OF ub np] nb by simp
      qed
    qed
  qed
qed

lemma flush1_inv:
  assumes inv: "cache_inv P D U M s bs" and p: "p \<in> set bs"
  obtains s' where "flush1 P p s = Some (True, s')" "cache_inv P D U M s' bs" "cache_step s s'"
    "\<And>u b. u \<in> U \<Longrightarrow> (u, b) \<notin> M \<Longrightarrow> view D bs s' u b = view D bs s u b"
    "bufs s' = (bufs s)(p := (bufs s p)\<lparr>b_flag := b_flag (bufs s p) AND NOT BFR_DIRTY\<rparr>)"
    "\<And>u b. u \<in> U \<Longrightarrow> (u, b) \<notin> M \<Longrightarrow> on_disk D s' u b =
      (if is_hit b u (bufs s p) then sector (b_buffer (bufs s p)) else on_disk D s u b)" "firstbuf s' = firstbuf s"
proof -
  let ?b = "bufs s p"
  let ?b' = "?b\<lparr>b_flag := b_flag ?b AND NOT BFR_DIRTY\<rparr>"
  obtain rq db w where f: "flush1 P p s = Some (True, (after_io rq db w s)\<lparr>bufs := (bufs s)(p := ?b')\<rparr>)"
      and od: "\<And>u' b'. u' \<in> U \<Longrightarrow> (u', b') \<notin> M \<Longrightarrow> on_disk D (after_io rq db w s) u' b' =
        (if is_hit b' u' ?b then sector (b_buffer ?b) else on_disk D s u' b')"
    using flush1_ok [OF inv p] by blast
  let ?t = "(after_io rq db w s)\<lparr>bufs := (bufs s)(p := ?b')\<rparr>"
  have v: "valid ?b' = valid ?b" "is_fat ?b' = is_fat ?b" "\<not> dirty ?b'"
    by (simp_all add: valid_def is_fat_def dirty_def bit_simps)
  have h: "is_hit b u ?b' = is_hit b u ?b" for b u using v by (simp add: is_hit_iff)
  have co: "copy_offset (after_io rq db w s) ?b' = copy_offset s ?b" by (simp add: copy_offset_def)
  have ok: "block_ok D U M (after_io rq db w s) ?b'" if "valid ?b'"
    using cache_invD(6) [OF inv p] that v od co by (auto simp: block_ok_def is_hit_iff)
  have un: "\<not> is_hit (b_blkno ?b') (unit_of ?b') (bufs s q)" if "valid ?b'" "q \<in> set bs" "q \<noteq> p" for q
    using cache_inv_unique [OF inv p that(2)] that v by (auto simp: is_hit_iff)
  have inv': "cache_inv P D U M ?t bs"
    by (rule put_inv(1) [OF inv p]) (use od ok un h in auto)
  have vw: "view D bs ?t u b = view D bs s u b" if "u \<in> U" "(u, b) \<notin> M" for u b
  proof -
    have "view D bs ?t u b = (if is_hit b u ?b' then sector (b_buffer ?b') else view D bs s u b)"
      by (rule put_inv(2) [OF inv p]) (use od ok un h that in auto)
    then show ?thesis using view_hit [OF inv p] h by simp
  qed
  have cs: "cache_step s ?t" by blast
  have odt: "on_disk D ?t u b = (if is_hit b u ?b then sector (b_buffer ?b) else on_disk D s u b)" if "u \<in> U" "(u, b) \<notin> M" for u b
    using od [OF that] unfolding on_disk_def cache_step_same(3) [OF cs] by simp
  show thesis by (rule that [OF f inv' cs vw _ odt]) (simp_all add: after_io_def)
qed

section \<open>Getting a block\<close>

lemma searchblock_inv:
  assumes inv: "cache_inv P D U M s bs"
  obtains p s1 where "searchblock b u s = Some (p, s1)" "p \<in> set bs" "firstbuf s1 = p" "cache_step s s1"
    "cache_inv P D U M s1 (p # remove1 p bs)" "\<And>u' b'. view D (p # remove1 p bs) s1 u' b' = view D bs s u' b'"
    "\<And>q. q \<noteq> p \<Longrightarrow> unlink (bufs s1 q) = unlink (bufs s q)"
    "uncached (bufs s1) p = (\<not> is_hit b u (bufs s1 p))"
    "\<And>q. \<not> is_hit b u (bufs s1 p) \<Longrightarrow> q \<in> set bs \<Longrightarrow> \<not> is_hit b u (bufs s1 q)"
    "\<not> uncached (bufs s) (firstbuf s) \<Longrightarrow> \<not> is_hit b u (bufs s (firstbuf s)) \<Longrightarrow> p \<noteq> firstbuf s"
proof -
  note i = cache_invD [OF inv]
  obtain p m' where e: "searchblock b u s = Some (p, s\<lparr>bufs := m', firstbuf := p\<rparr>)" and sd: "searched b u (bufs s) bs p m'"
    using searchblock_ring [OF i(3,4)] by blast
  have p: "p \<in> set bs" and r: "ring m' p (p # remove1 p bs)" and oth: "\<And>q. q \<noteq> p \<Longrightarrow> unlink (m' q) = unlink (bufs s q)"
    using sd by (auto simp: searched_def)
  have ds: "distinct bs" using i(3) by (simp add: ring_def)
  have al: "alike (bufs s q) (m' q)" for q
  proof (cases "q = p")
    case True
    show ?thesis using sd uncache_alike [of "m' p" "bufs s p"] unfolding True searched_def by presburger
  qed (rule unlink_alike, rule oth)
  let ?s1 = "s\<lparr>bufs := m', firstbuf := p\<rparr>"
  have st: "set (p # remove1 p bs) = set bs" "length (p # remove1 p bs) = length bs"
    using p ds by (auto simp: length_remove1 dest: length_pos_if_in_set)
  note ci = cache_inv_alike [OF inv al r st]
  have cs: "cache_step s ?s1"
    using cache_step_io [where rq = "IoReqHdr s" and db = "deblock_buf s" and w = "world s" and m = m' and f = p and s = s] by simp
  have hd: "hd bs = firstbuf s" using i(3) by (simp add: ring_def)
  have hit: "is_hit b u (bufs ?s1 q) = is_hit b u (bufs s q)" for q using alike_hit [OF al] by simp
  have unc: "uncached (bufs ?s1) p = (\<not> is_hit b u (bufs ?s1 p))"
  proof (cases "\<exists>q \<in> set bs. is_hit b u (bufs s q)")
    case True
    then have "is_hit b u (bufs s p)" "b_flag (m' p) = b_flag (bufs s p) AND NOT BFR_UNCACHE"
      using sd by (auto simp: searched_def unlink_eq)
    then show ?thesis using hit by (simp add: uncached_def flag_simps bit_simps)
  next
    case False
    then have "\<not> is_hit b u (bufs s p)" "b_flag (m' p) = b_flag (bufs s p) OR BFR_UNCACHE"
      using sd p by (auto simp: searched_def unlink_eq)
    then show ?thesis using hit by (simp add: uncached_def flag_simps bit_simps)
  qed
  have none: "\<not> is_hit b u (bufs ?s1 q)" if "\<not> is_hit b u (bufs ?s1 p)" "q \<in> set bs" for q
    using that sd hit by (auto simp: searched_def split: if_splits)
  have nf: "p \<noteq> firstbuf s" if "\<not> uncached (bufs s) (firstbuf s)" "\<not> is_hit b u (bufs s (firstbuf s))"
    using that sd hd i(5) by (auto simp: searched_def split: if_splits)
  show thesis
    by (rule that [OF e p _ cs ci]) (use oth unc none nf in auto)
qed

text \<open>A clean buffer that is given to a block no buffer holds.\<close>

lemma reuse_inv:
  fixes rq :: request and db :: bytes
  assumes inv: "cache_inv P D U M s bs" and p: "p \<in> set bs" and cl: "\<not> dirty (bufs s p)"
    and ub: "u \<in> U" "(u, b) \<notin> M" and none: "\<And>q. q \<in> set bs \<Longrightarrow> \<not> is_hit b u (bufs s q)"
    and w: "D w = D (world s)" and fl: "bit fl 5" "\<not> bit fl 1" and d: "\<not> bit fl 6 \<Longrightarrow> sector d = on_disk D s u b"
  defines "t \<equiv> (after_io rq db w s)\<lparr>bufs := (bufs s)(p := (bufs s p)\<lparr>b_buffer := d, b_flag := fl, b_unit := ucast u, b_blkno := b\<rparr>)\<rparr>"
  shows "cache_inv P D U M t bs"
    "u' \<in> U \<Longrightarrow> (u', b') \<notin> M \<Longrightarrow> view D bs t u' b' = (if u' = u \<and> b' = b then sector d else view D bs s u' b')"
    "is_hit b u (bufs t p)"
proof -
  let ?b = "(bufs s p)\<lparr>b_buffer := d, b_flag := fl, b_unit := ucast u, b_blkno := b\<rparr>"
  have uu: "unit_of ?b = u" using cache_invD(2) [OF inv] ub(1) by (simp add: drives_def)
  have od: "on_disk D (after_io rq db w s) u' b' = on_disk D s u' b'" for u' b'
    by (simp add: on_disk_def w)
  have hit: "is_hit b' u' ?b \<longleftrightarrow> b' = b \<and> u' = u" for b' u'
    using fl uu by (auto simp: is_hit_iff valid_def)
  have ok: "block_ok D U M (after_io rq db w s) ?b"
    using ub uu fl od d by (auto simp: block_ok_def is_fat_def dirty_def)
  have gone: "on_disk D (after_io rq db w s) u' b' = sector (b_buffer (bufs s p))" if "is_hit b' u' (bufs s p)" for u' b'
    using cache_invD(6) [OF inv p] cl that od by (auto simp: is_hit_iff block_ok_def)
  show "cache_inv P D U M t bs"
    unfolding t_def by (rule put_inv(1) [OF inv p]) (use od ok none gone uu in auto)
  show "view D bs t u' b' = (if u' = u \<and> b' = b then sector d else view D bs s u' b')" if "u' \<in> U" "(u', b') \<notin> M"
  proof -
    have "view D bs t u' b' = (if is_hit b' u' ?b then sector (b_buffer ?b) else view D bs s u' b')"
      unfolding t_def by (rule put_inv(2) [OF inv p]) (use od ok none gone uu that in auto)
    then show ?thesis using hit by simp
  qed
  show "is_hit b u (bufs t p)" using hit by (simp add: t_def)
qed

lemma getblk_ok:
  assumes inv: "cache_inv P D U M s bs" and ub: "u \<in> U" "(u, b) \<notin> M"
  obtains p s' where "getblk P b u False s = Some (Some p, s')" "p \<in> set bs" "firstbuf s' = p" "cache_step s s'"
    "cache_inv P D U M s' (p # remove1 p bs)" "is_hit b u (bufs s' p)" "\<not> uncached (bufs s') p"
    "\<And>u' b'. u' \<in> U \<Longrightarrow> (u', b') \<notin> M \<Longrightarrow> view D (p # remove1 p bs) s' u' b' = view D bs s u' b'"
    "\<And>q. q \<noteq> p \<Longrightarrow> unlink (bufs s' q) = unlink (bufs s q)"
    "\<not> uncached (bufs s) (firstbuf s) \<Longrightarrow> \<not> is_hit b u (bufs s (firstbuf s)) \<Longrightarrow> p \<noteq> firstbuf s"
proof -
  obtain p s1 where e: "searchblock b u s = Some (p, s1)" and p: "p \<in> set bs" and f1: "firstbuf s1 = p" and c1: "cache_step s s1"
      and i1: "cache_inv P D U M s1 (p # remove1 p bs)" and v1: "\<And>u' b'. view D (p # remove1 p bs) s1 u' b' = view D bs s u' b'"
      and o1: "\<And>q. q \<noteq> p \<Longrightarrow> unlink (bufs s1 q) = unlink (bufs s q)"
      and un: "uncached (bufs s1) p = (\<not> is_hit b u (bufs s1 p))"
      and none: "\<And>q. \<not> is_hit b u (bufs s1 p) \<Longrightarrow> q \<in> set bs \<Longrightarrow> \<not> is_hit b u (bufs s1 q)"
      and nf: "\<not> uncached (bufs s) (firstbuf s) \<Longrightarrow> \<not> is_hit b u (bufs s (firstbuf s)) \<Longrightarrow> p \<noteq> firstbuf s"
    by (rule searchblock_inv [OF inv, of b u], rule that, assumption+)
  let ?bs = "p # remove1 p bs"
  have ds: "distinct bs" using cache_invD(3) [OF inv] by (simp add: ring_def)
  have st: "set ?bs = set bs" using p ds by auto
  show thesis
  proof (cases "is_hit b u (bufs s1 p)")
    case True
    then have "getblk P b u False s = Some (Some p, s1)" using e un by (simp add: getblk_def uncached_def)
    then show thesis by (rule that [OF _ p f1 c1 i1 True _ v1 o1 nf]) (use un True in auto)
  next
    case False
    obtain s2 where fl: "flush1 P p s1 = Some (True, s2)" and i2: "cache_inv P D U M s2 ?bs" and c2: "cache_step s1 s2"
        and v2: "\<And>u' b'. u' \<in> U \<Longrightarrow> (u', b') \<notin> M \<Longrightarrow> view D ?bs s2 u' b' = view D ?bs s1 u' b'"
        and b2: "bufs s2 = (bufs s1)(p := (bufs s1 p)\<lparr>b_flag := b_flag (bufs s1 p) AND NOT BFR_DIRTY\<rparr>)"
        and f2: "firstbuf s2 = firstbuf s1"
      by (rule flush1_inv [OF i1, of p], simp, rule that, assumption+)
    obtain d rq db w where x: "dskxfer P u b (bufseg s2) (b_buffer (bufs s2 p)) 1 DSKREAD s2 = Some (0, d, after_io rq db w s2)"
        "D w = D (world s2)" "sector d = on_disk D s2 u b"
      using dskxfer_read [OF cache_invD(1,2) [OF i2] ub(1)] by blast
    let ?t = "(after_io rq db w s2)\<lparr>bufs := (bufs s2)(p := (bufs s2 p)\<lparr>b_buffer := d, b_flag := 0x28, b_unit := ucast u, b_blkno := b\<rparr>)\<rparr>"
    have g: "getblk P b u False s = Some (Some p, ?t)"
      using e False un fl x(1) by (simp add: getblk_def uncached_def)
    have cl: "\<not> dirty (bufs s2 p)" by (simp add: b2 dirty_def bit_simps)
    have n2: "\<not> is_hit b u (bufs s2 q)" if "q \<in> set ?bs" for q
      using none [OF False] that st b2 by (auto simp: is_hit_iff valid_def bit_simps)
    have pin: "p \<in> set ?bs" by simp
    note R = reuse_inv [OF i2 pin cl ub n2 x(2), where fl = "0x28" and d = d and rq = rq and db = db]
    have ci: "cache_inv P D U M ?t ?bs" using R(1) x(3) by simp
    have vw: "view D ?bs ?t u' b' = view D bs s u' b'" if "u' \<in> U" "(u', b') \<notin> M" for u' b'
    proof -
      have "view D ?bs s2 u b = sector d" using view_miss [of ?bs b u s2 D] n2 x(3) by simp
      then show ?thesis using R(2) [OF _ _ _ _ that] x(3) v2 [OF that] v1 [of u' b'] by (cases "u' = u \<and> b' = b") auto
    qed
    have ht: "is_hit b u (bufs ?t p)" using R(3) x(3) by simp
    have cs: "cache_step s ?t" by (rule cache_step_trans [OF c1 cache_step_trans [OF c2 cache_step_bufs]])
    show thesis
      by (rule that [OF g p _ cs ci ht _ vw _ nf]) (use f1 f2 o1 b2 in \<open>auto simp: after_io_def uncached_def\<close>)
  qed
qed

section \<open>Changing the contents of a buffer\<close>

text \<open>
  A client that has a block changes bytes of the buffer and sets \<^verbatim>\<open>BFR_DIRTY | BFR_VALID\<close>.
\<close>

definition put_data :: "u16 \<Rightarrow> bytes \<Rightarrow> ('w, 'a) kst_scheme \<Rightarrow> ('w, 'a) kst_scheme" where
  "put_data p d s = upd_buf p (\<lambda>b. b\<lparr>b_buffer := d, b_flag := b_flag b OR (BFR_DIRTY OR BFR_VALID)\<rparr>) s"

lemma put_here:
  assumes inv: "cache_inv P D U M s bs" and p: "p \<in> set bs" and h: "is_hit b u (bufs s p)"
    and l: "b_next b' = b_next (bufs s p)" "b_prev b' = b_prev (bufs s p)"
    and same: "b_unit b' = b_unit (bufs s p)" "b_blkno b' = b_blkno (bufs s p)" "valid b'"
    and ok: "block_ok D U M s b'"
  defines "t \<equiv> s\<lparr>bufs := (bufs s)(p := b')\<rparr>"
  shows "cache_inv P D U M t bs"
    "u' \<in> U \<Longrightarrow> (u', n) \<notin> M \<Longrightarrow> view D bs t u' n = (if u' = u \<and> n = b then sector (b_buffer b') else view D bs s u' n)"
    "is_hit b u (bufs t p)" "cache_step s t"
proof -
  have t: "t = (after_io (IoReqHdr s) (deblock_buf s) (world s) s)\<lparr>bufs := (bufs s)(p := b')\<rparr>" by (simp add: t_def)
  have hit: "is_hit n u' b' \<longleftrightarrow> n = b \<and> u' = u" for n u' using h same by (auto simp: is_hit_iff)
  have hs: "is_hit n u' (bufs s p) \<longleftrightarrow> n = b \<and> u' = u" for n u' using h by (auto simp: is_hit_iff)
  have un: "\<not> is_hit (b_blkno b') (unit_of b') (bufs s q)" if "q \<in> set bs" "q \<noteq> p" for q
    using cache_inv_unique [OF inv p that(1), of b u] h that same by (auto simp: is_hit_iff)
  show "cache_inv P D U M t bs"
    unfolding t by (rule put_inv(1) [OF inv p l]) (use ok un hit hs in auto)
  show "view D bs t u' n = (if u' = u \<and> n = b then sector (b_buffer b') else view D bs s u' n)" if "u' \<in> U" "(u', n) \<notin> M"
  proof -
    have "view D bs t u' n = (if is_hit n u' b' then sector (b_buffer b') else view D bs s u' n)"
      unfolding t by (rule put_inv(2) [OF inv p l]) (use ok un hit hs that in auto)
    then show ?thesis using hit by simp
  qed
  show "is_hit b u (bufs t p)" using hit by (simp add: t_def)
  show "cache_step s t" unfolding t by blast
qed

lemma put_data_inv:
  assumes inv: "cache_inv P D U M s bs" and p: "p \<in> set bs" and h: "is_hit b u (bufs s p)"
  shows "cache_inv P D U M (put_data p d s) bs"
    "u' \<in> U \<Longrightarrow> (u', n) \<notin> M \<Longrightarrow> view D bs (put_data p d s) u' n = (if u' = u \<and> n = b then sector d else view D bs s u' n)"
    "is_hit b u (bufs (put_data p d s) p)" "cache_step s (put_data p d s)"
proof -
  let ?b = "(bufs s p)\<lparr>b_buffer := d, b_flag := b_flag (bufs s p) OR (BFR_DIRTY OR BFR_VALID)\<rparr>"
  have "valid (bufs s p)" using h by (simp add: is_hit_iff)
  then have "block_ok D U M s (bufs s p)" by (rule cache_invD(6) [OF inv p])
  then have "block_ok D U M s ?b" "valid ?b"
    by (auto simp: block_ok_def dirty_def is_fat_def valid_def copy_offset_def bit_simps)
  note H = put_here [OF inv p h _ _ _ _ this(2,1), simplified]
  show "cache_inv P D U M (put_data p d s) bs" using H(1) by (simp add: put_data_def)
  show "view D bs (put_data p d s) u' n = (if u' = u \<and> n = b then sector d else view D bs s u' n)" if "u' \<in> U" "(u', n) \<notin> M"
    using H(2) [OF that] by (simp add: put_data_def)
  show "is_hit b u (bufs (put_data p d s) p)" "cache_step s (put_data p d s)" using H(3,4) by (simp_all add: put_data_def)
qed

section \<open>Walking the ring\<close>

lemma ring_loop_inv:
  assumes step: "\<And>don p rest ok s. bs = don @ p # rest \<Longrightarrow> R don ok s \<Longrightarrow>
      \<exists>r s'. body p s = Some (r, s') \<and> R (don @ [p]) (ok \<and> r) s' \<and> ring (bufs s') (firstbuf s') bs"
    and bs: "bs \<noteq> []" and init: "R [] True s"
  shows "\<exists>ok s'. ring_loop body (hd bs) True s = Some (ok, s') \<and> R bs ok s'"
proof -
  have "\<exists>ok' s'. ring_loop body p ok s = Some (ok', s') \<and> R bs ok' s'" if "bs = don @ p # rest" "R don ok s" for don p rest ok s
    using that
  proof (induction rest arbitrary: don p ok s)
    case Nil
    obtain r s' where b: "body p s = Some (r, s')" "R (don @ [p]) (ok \<and> r) s'" "ring (bufs s') (firstbuf s') bs"
      using step [OF Nil] by blast
    then have "b_next (bufs s' p) = firstbuf s'" using ring_next [of "bufs s'" "firstbuf s'" don p "[]"] Nil by simp
    then show ?case using b Nil by (subst ring_loop.simps) simp
  next
    case (Cons q rest)
    obtain r s' where b: "body p s = Some (r, s')" "R (don @ [p]) (ok \<and> r) s'" "ring (bufs s') (firstbuf s') bs"
      using step [OF Cons.prems] by blast
    have n: "b_next (bufs s' p) = q" using ring_next [of "bufs s'" "firstbuf s'" don p "q # rest"] Cons b by simp
    have "q \<noteq> firstbuf s'" using b(3) Cons.prems by (cases don) (auto simp: ring_def)
    moreover obtain ok' s'' where "ring_loop body q (ok \<and> r) s' = Some (ok', s'')" "R bs ok' s''"
      using Cons.IH [of "don @ [p]" q "ok \<and> r" s'] Cons.prems b by auto
    ultimately show ?case using b(1) n by (subst ring_loop.simps) simp
  qed
  from this [of "[]" "hd bs" "tl bs" True s] bs init show ?thesis by simp
qed

text \<open>Loops that flush the buffers a condition selects.\<close>

lemma flush_where:
  assumes inv: "cache_inv P D U M s bs"
  shows "\<exists>s'. ring_loop (\<lambda>p s. if S (bufs s p) then flush1 P p s else Some (True, s)) (firstbuf s) True s = Some (True, s') \<and>
    cache_inv P D U M s' bs \<and> cache_step s s' \<and> firstbuf s' = firstbuf s \<and>
    (\<forall>u \<in> U. \<forall>b. (u, b) \<notin> M \<longrightarrow> view D bs s' u b = view D bs s u b) \<and>
    (\<forall>p \<in> set bs. S (bufs s' p) \<longrightarrow> \<not> (valid (bufs s' p) \<and> dirty (bufs s' p)))"
proof -
  let ?body = "\<lambda>p s. if S (bufs s p) then flush1 P p s else Some (True, s)"
  let ?R = "\<lambda>don ok t. ok \<and> cache_inv P D U M t bs \<and> cache_step s t \<and> firstbuf t = firstbuf s \<and>
    (\<forall>u \<in> U. \<forall>b. (u, b) \<notin> M \<longrightarrow> view D bs t u b = view D bs s u b) \<and>
    (\<forall>p \<in> set don. S (bufs t p) \<longrightarrow> \<not> (valid (bufs t p) \<and> dirty (bufs t p)))"
  have hd: "hd bs = firstbuf s" "bs \<noteq> []" using cache_invD(3) [OF inv] by (auto simp: ring_def)
  have "\<exists>r t'. ?body p t = Some (r, t') \<and> ?R (don @ [p]) (ok \<and> r) t' \<and> ring (bufs t') (firstbuf t') bs"
    if "bs = don @ p # rest" and R: "?R don ok t" for don p rest ok t
  proof (cases "S (bufs t p)")
    case True
    have ci: "cache_inv P D U M t bs" and pin: "p \<in> set bs" using R that(1) by auto
    obtain t' where f: "flush1 P p t = Some (True, t')" "cache_inv P D U M t' bs" "cache_step t t'"
        "\<And>u b. u \<in> U \<Longrightarrow> (u, b) \<notin> M \<Longrightarrow> view D bs t' u b = view D bs t u b"
        and b': "bufs t' = (bufs t)(p := (bufs t p)\<lparr>b_flag := b_flag (bufs t p) AND NOT BFR_DIRTY\<rparr>)" and f1: "firstbuf t' = firstbuf t"
      by (rule flush1_inv [OF ci pin], rule that, assumption+)
    have nd: "\<not> dirty (bufs t' p)" by (simp add: b' dirty_def bit_simps)
    moreover have "cache_step s t'" using R f(3) cache_step_trans by blast
    ultimately have "?R (don @ [p]) True t'" using R f b' f1 by auto
    then show ?thesis using True f R cache_invD(3) [OF f(2)] by auto
  next
    case False
    have "ring (bufs t) (firstbuf t) bs" using R cache_invD(3) by blast
    then show ?thesis using R False by auto
  qed
  note step = this
  have "\<exists>ok s'. ring_loop ?body (hd bs) True s = Some (ok, s') \<and> ?R bs ok s'"
  proof (rule ring_loop_inv [of bs ?R ?body s])
    show "?R [] True s" using inv by simp
  qed (rule step, assumption+, rule hd(2))
  then obtain ok s' where l: "ring_loop ?body (hd bs) True s = Some (ok, s')" "?R bs ok s'" by blast
  then show ?thesis unfolding hd(1) by (intro exI [of _ s']) simp
qed

section \<open>The cache as its clients see it\<close>

lemma path_unique:
  assumes "links N V (x # xs @ [f])" "links N V' (x # ys @ [f])" "f \<notin> set xs" "f \<notin> set ys"
  shows "xs = ys"
  using assms
proof (induction xs arbitrary: x ys)
  case Nil
  then show ?case by (cases ys) auto
next
  case (Cons z zs)
  then obtain w ws where "ys = w # ws" by (cases ys) auto
  then show ?case using Cons.prems Cons.IH [of w ws] by auto
qed

lemma ring_unique:
  assumes "ring m f bs" "ring m f cs"
  shows "bs = cs"
proof -
  obtain xs ys where "bs = f # xs" "cs = f # ys" using assms by (cases bs; cases cs) (auto simp: ring_def)
  then show ?thesis using assms path_unique [of "b_next \<circ> m" "b_prev \<circ> m" f xs f "b_prev \<circ> m" ys] by (simp add: ring_def)
qed

definition ring_of :: "('w, 'a) kst_scheme \<Rightarrow> u16 list" where
  "ring_of s = (THE bs. ring (bufs s) (firstbuf s) bs)"

definition cache_ok :: "'w platform \<Rightarrow> 'w disk \<Rightarrow> u16 set \<Rightarrow> (u16 \<times> u32) set \<Rightarrow> ('w, 'a) kst_scheme \<Rightarrow> bool" where
  "cache_ok P D U M s \<longleftrightarrow> cache_inv P D U M s (ring_of s)"

definition content :: "'w disk \<Rightarrow> ('w, 'a) kst_scheme \<Rightarrow> u16 \<Rightarrow> u32 \<Rightarrow> bytes" where
  "content D s u b = view D (ring_of s) s u b"

definition holds :: "('w, 'a) kst_scheme \<Rightarrow> u16 \<Rightarrow> u16 \<Rightarrow> u32 \<Rightarrow> bool" where
  "holds s p u b \<longleftrightarrow> p \<in> set (ring_of s) \<and> is_hit b u (bufs s p)"

definition usable :: "u16 set \<Rightarrow> (u16 \<times> u32) set \<Rightarrow> u16 \<Rightarrow> u32 \<Rightarrow> bool" where
  "usable U M u b \<longleftrightarrow> u \<in> U \<and> (u, b) \<notin> M"

lemma ring_of_eq: "ring (bufs s) (firstbuf s) bs \<Longrightarrow> ring_of s = bs"
  unfolding ring_of_def using ring_unique by (intro the_equality) blast+

lemma cache_inv_ring: "cache_inv P D U M s bs \<Longrightarrow> ring_of s = bs"
  by (rule ring_of_eq) (rule cache_invD(3))

lemma cache_okI: "cache_inv P D U M s bs \<Longrightarrow> cache_ok P D U M s"
  by (frule cache_inv_ring) (simp add: cache_ok_def)

lemma contentI: "cache_inv P D U M s bs \<Longrightarrow> content D s u b = view D bs s u b"
  by (drule cache_inv_ring) (simp add: content_def)

lemma holds_unique: "cache_ok P D U M s \<Longrightarrow> holds s p u b \<Longrightarrow> holds s q u b \<Longrightarrow> p = q"
  unfolding cache_ok_def holds_def using cache_inv_unique by blast

lemma holds_content: "cache_ok P D U M s \<Longrightarrow> holds s p u b \<Longrightarrow> sector (b_buffer (bufs s p)) = content D s u b"
  unfolding cache_ok_def holds_def content_def using view_hit by metis

lemma fetch_block:
  assumes "cache_ok P D U M s" "usable U M u b"
  obtains p s' where "getblk P b u False s = Some (Some p, s')" "cache_ok P D U M s'" "cache_step s s'" "holds s' p u b"
    "\<And>u' b'. usable U M u' b' \<Longrightarrow> content D s' u' b' = content D s u' b'"
    "firstbuf s' = p" "\<not> uncached (bufs s') p"
    "\<And>q. q \<noteq> p \<Longrightarrow> unlink (bufs s' q) = unlink (bufs s q)" "set (ring_of s') = set (ring_of s)"
    "\<not> uncached (bufs s) (firstbuf s) \<Longrightarrow> \<not> is_hit b u (bufs s (firstbuf s)) \<Longrightarrow> p \<noteq> firstbuf s"
proof -
  have inv: "cache_inv P D U M s (ring_of s)" and ub: "u \<in> U" "(u, b) \<notin> M"
    using assms by (auto simp: cache_ok_def usable_def)
  obtain p s' where g: "getblk P b u False s = Some (Some p, s')" and p: "p \<in> set (ring_of s)" and f: "firstbuf s' = p" and c: "cache_step s s'"
    and i: "cache_inv P D U M s' (p # remove1 p (ring_of s))" and h: "is_hit b u (bufs s' p)" and n: "\<not> uncached (bufs s') p"
    and v: "\<And>u' b'. u' \<in> U \<Longrightarrow> (u', b') \<notin> M \<Longrightarrow> view D (p # remove1 p (ring_of s)) s' u' b' = view D (ring_of s) s u' b'"
    and o: "\<And>q. q \<noteq> p \<Longrightarrow> unlink (bufs s' q) = unlink (bufs s q)"
    and nf: "\<not> uncached (bufs s) (firstbuf s) \<Longrightarrow> \<not> is_hit b u (bufs s (firstbuf s)) \<Longrightarrow> p \<noteq> firstbuf s"
    by (rule getblk_ok [OF inv ub], rule that, assumption+)
  have ds: "distinct (ring_of s)" using cache_invD(3) [OF inv] by (simp add: ring_def)
  have st: "set (ring_of s') = set (ring_of s)" using cache_inv_ring [OF i] p ds by auto
  have ho: "holds s' p u b" using h st p by (simp add: holds_def)
  have cv: "content D s' u' b' = content D s u' b'" if "usable U M u' b'" for u' b'
    using that v contentI [OF i] by (simp add: usable_def content_def)
  show thesis by (rule that [OF g cache_okI [OF i] c ho cv f n o st nf])
qed

lemma store_block:
  assumes "cache_ok P D U M s" "holds s p u b"
  shows "cache_ok P D U M (put_data p d s)" "holds (put_data p d s) p u b" "cache_step s (put_data p d s)"
    "usable U M u' n \<Longrightarrow> content D (put_data p d s) u' n = (if u' = u \<and> n = b then sector d else content D s u' n)"
proof -
  have inv: "cache_inv P D U M s (ring_of s)" and p: "p \<in> set (ring_of s)" and h: "is_hit b u (bufs s p)"
    using assms by (auto simp: cache_ok_def holds_def)
  note W = put_data_inv [OF inv p h, where d = d]
  show "cache_ok P D U M (put_data p d s)" using W(1) by (rule cache_okI)
  show "holds (put_data p d s) p u b" using W(3) p cache_inv_ring [OF W(1)] by (simp add: holds_def)
  show "cache_step s (put_data p d s)" by (rule W(4))
  show "content D (put_data p d s) u' n = (if u' = u \<and> n = b then sector d else content D s u' n)" if "usable U M u' n"
    using that W(2) contentI [OF W(1)] by (simp add: usable_def content_def)
qed

text \<open>
  The interface: a store of blocks that is read and written through buffers. Whatever the
  provider does with its buffers, a sequence of writes followed by a read behaves like an array
  of blocks.
\<close>

type_synonym blk_write = "u16 \<times> u32 \<times> bytes"

primrec last_written :: "blk_write list \<Rightarrow> (u16 \<Rightarrow> u32 \<Rightarrow> bytes) \<Rightarrow> u16 \<Rightarrow> u32 \<Rightarrow> bytes" where
  "last_written [] c u b = c u b"
| "last_written (w # ws) c u b =
     last_written ws (\<lambda>u' b'. if u' = fst w \<and> b' = fst (snd w) then sector (snd (snd w)) else c u' b') u b"

lemma last_written_cong: "c u b = c' u b \<Longrightarrow> last_written ws c u b = last_written ws c' u b"
proof (induction ws arbitrary: c c')
  case (Cons w ws)
  show ?case unfolding last_written.simps by (rule Cons.IH) (simp add: Cons.prems)
qed simp

primrec write_blocks ::
  "(u32 \<Rightarrow> u16 \<Rightarrow> 's \<Rightarrow> (u16 option \<times> 's) option) \<Rightarrow> (u16 \<Rightarrow> bytes \<Rightarrow> 's \<Rightarrow> 's) \<Rightarrow> blk_write list \<Rightarrow> 's \<Rightarrow> 's option" where
  "write_blocks get put [] s = Some s"
| "write_blocks get put (w # ws) s =
     do {
       (p, s') \<leftarrow> get (fst (snd w)) (fst w) s;
       p \<leftarrow> p;
       write_blocks get put ws (put p (snd (snd w)) s')
     }"

locale block_store =
  fixes good :: "'s \<Rightarrow> bool" and allowed :: "u16 \<Rightarrow> u32 \<Rightarrow> bool" and blocks :: "'s \<Rightarrow> u16 \<Rightarrow> u32 \<Rightarrow> bytes"
    and get :: "u32 \<Rightarrow> u16 \<Rightarrow> 's \<Rightarrow> (u16 option \<times> 's) option" and put :: "u16 \<Rightarrow> bytes \<Rightarrow> 's \<Rightarrow> 's"
    and has :: "'s \<Rightarrow> u16 \<Rightarrow> u16 \<Rightarrow> u32 \<Rightarrow> bool" and data :: "'s \<Rightarrow> u16 \<Rightarrow> bytes"
  assumes get_law: "good s \<Longrightarrow> allowed u b \<Longrightarrow> \<exists>p s'. get b u s = Some (Some p, s') \<and> good s' \<and> has s' p u b \<and>
      (\<forall>u' b'. allowed u' b' \<longrightarrow> blocks s' u' b' = blocks s u' b')"
    and has_law: "good s \<Longrightarrow> has s p u b \<Longrightarrow> sector (data s p) = blocks s u b"
    and put_law: "good s \<Longrightarrow> has s p u b \<Longrightarrow> good (put p d s) \<and>
      (\<forall>u' b'. allowed u' b' \<longrightarrow> blocks (put p d s) u' b' = (if u' = u \<and> b' = b then sector d else blocks s u' b'))"
begin

lemma writes_law:
  assumes "good s" "\<forall>w \<in> set ws. allowed (fst w) (fst (snd w))"
  shows "\<exists>s'. write_blocks get put ws s = Some s' \<and> good s' \<and>
    (\<forall>u b. allowed u b \<longrightarrow> blocks s' u b = last_written ws (blocks s) u b)"
  using assms
proof (induction ws arbitrary: s)
  case (Cons w ws)
  obtain u b d where w: "w = (u, b, d)" by (cases w)
  obtain p s1 where g: "get b u s = Some (Some p, s1)" "good s1" "has s1 p u b"
      "\<And>u' b'. allowed u' b' \<Longrightarrow> blocks s1 u' b' = blocks s u' b'"
    using get_law [of s u b] Cons.prems w by auto
  let ?s2 = "put p d s1"
  have p: "good ?s2" "\<And>u' b'. allowed u' b' \<Longrightarrow> blocks ?s2 u' b' = (if u' = u \<and> b' = b then sector d else blocks s1 u' b')"
    using put_law [OF g(2,3)] by auto
  obtain s' where s': "write_blocks get put ws ?s2 = Some s'" "good s'"
      "\<And>u b. allowed u b \<Longrightarrow> blocks s' u b = last_written ws (blocks ?s2) u b"
    using Cons.IH [OF p(1)] Cons.prems by auto
  have "last_written ws (blocks ?s2) u' b' = last_written (w # ws) (blocks s) u' b'" if "allowed u' b'" for u' b'
    unfolding w last_written.simps by (rule last_written_cong) (simp add: p(2) [OF that] g(4) [OF that])
  then have "\<forall>u b. allowed u b \<longrightarrow> blocks s' u b = last_written (w # ws) (blocks s) u b" using s'(3) by simp
  moreover have "write_blocks get put (w # ws) s = Some s'" using g(1) s'(1) w by simp
  ultimately show ?case using s'(2) by blast
qed simp

lemma read_after_writes:
  assumes "good s" "\<forall>w \<in> set ws. allowed (fst w) (fst (snd w))" "allowed u b"
  shows "\<exists>s1 p s2. write_blocks get put ws s = Some s1 \<and> get b u s1 = Some (Some p, s2) \<and>
    sector (data s2 p) = last_written ws (blocks s) u b"
proof -
  obtain s1 where s1: "write_blocks get put ws s = Some s1" "good s1" "blocks s1 u b = last_written ws (blocks s) u b"
    using writes_law [OF assms(1,2)] assms(3) by blast
  obtain p s2 where "get b u s1 = Some (Some p, s2)" "good s2" "has s2 p u b" "blocks s2 u b = blocks s1 u b"
    using get_law [OF s1(2) assms(3)] assms(3) by blast
  then show ?thesis using s1 has_law by metis
qed

end

text \<open>The buffer cache provides this interface on every device that carries out its requests.\<close>

interpretation cache: block_store "cache_ok P D U M" "usable U M" "content D" "\<lambda>b u. getblk P b u False"
    put_data holds "\<lambda>s p. b_buffer (bufs s p)" for P D U M
proof unfold_locales
  fix s :: "('a, 'b) kst_scheme" and u b p d
  show "\<exists>p s'. getblk P b u False s = Some (Some p, s') \<and> cache_ok P D U M s' \<and> holds s' p u b \<and>
      (\<forall>u' b'. usable U M u' b' \<longrightarrow> content D s' u' b' = content D s u' b')" if "cache_ok P D U M s" "usable U M u b"
    by (rule fetch_block [OF that]) blast
  assume h: "cache_ok P D U M s" "holds s p u b"
  show "sector (b_buffer (bufs s p)) = content D s u b" using h by (rule holds_content)
  show "cache_ok P D U M (put_data p d s) \<and> (\<forall>u' b'. usable U M u' b' \<longrightarrow>
      content D (put_data p d s) u' b' = (if u' = u \<and> b' = b then sector d else content D s u' b'))"
    using store_block [OF h] by blast
qed

section \<open>Flushing\<close>

lemma dirty_scan_ring:
  assumes "ring m f (pre @ x # xs)"
  shows "dirty_scan u f m x = Some (\<exists>p \<in> set (x # xs). unit_of (m p) = u \<and> valid (m p) \<and> dirty (m p))"
  using assms
proof (induction xs arbitrary: pre x)
  case Nil
  have "b_next (m x) = f" using ring_next [OF Nil.prems] by simp
  then show ?case by (subst dirty_scan.simps) (auto simp: Let_def flag_simps valid_def dirty_def)
next
  case (Cons y ys)
  have n: "b_next (m x) = y" using ring_next [OF Cons.prems] by simp
  have "y \<noteq> f" using Cons.prems by (cases pre) (auto simp: ring_def)
  moreover have "ring m f ((pre @ [x]) @ y # ys)" using Cons.prems by simp
  from Cons.IH [OF this] show ?case using n \<open>y \<noteq> f\<close>
    by (subst dirty_scan.simps) (auto simp: Let_def flag_simps valid_def dirty_def)
qed

lemma dirty_buffers_iff:
  assumes "cache_ok P D U M s"
  shows "dirty_buffers u s = Some (\<exists>p \<in> set (ring_of s). unit_of (bufs s p) = u \<and> valid (bufs s p) \<and> dirty (bufs s p))"
proof -
  have r: "ring (bufs s) (firstbuf s) (ring_of s)" using assms cache_invD(3) unfolding cache_ok_def by blast
  then obtain xs where "ring_of s = firstbuf s # xs" by (cases "ring_of s") (auto simp: ring_def)
  then show ?thesis using dirty_scan_ring [of "bufs s" "firstbuf s" "[]" "firstbuf s" xs u] r by (simp add: dirty_buffers_def)
qed

text \<open>Where no valid buffer is dirty the disk holds what the cache shows.\<close>

lemma clean_on_disk:
  assumes "cache_ok P D U M s" "\<And>p. p \<in> set (ring_of s) \<Longrightarrow> is_hit b u (bufs s p) \<Longrightarrow> \<not> dirty (bufs s p)"
  shows "on_disk D s u b = content D s u b"
proof (cases "\<exists>p \<in> set (ring_of s). is_hit b u (bufs s p)")
  case True
  then obtain p where p: "p \<in> set (ring_of s)" "is_hit b u (bufs s p)" by blast
  have "block_ok D U M s (bufs s p)" using cache_invD(6) [OF assms(1) [unfolded cache_ok_def] p(1)] p(2) by (simp add: is_hit_iff)
  then have "sector (b_buffer (bufs s p)) = on_disk D s u b" using assms(2) [OF p] p(2) by (simp add: block_ok_def is_hit_iff)
  then show ?thesis using holds_content [OF assms(1), of p u b] p by (simp add: holds_def)
next
  case False
  then show ?thesis using view_miss [of "ring_of s" b u s D] by (simp add: content_def)
qed

lemma flush_selected:
  assumes ok: "cache_ok P D U M s"
  shows "\<exists>s'. ring_loop (\<lambda>p s. if S (bufs s p) then flush1 P p s else Some (True, s)) (firstbuf s) True s = Some (True, s') \<and>
    cache_ok P D U M s' \<and> cache_step s s' \<and> ring_of s' = ring_of s \<and>
    (\<forall>u b. usable U M u b \<longrightarrow> content D s' u b = content D s u b) \<and>
    (\<forall>p \<in> set (ring_of s). S (bufs s' p) \<longrightarrow> \<not> (valid (bufs s' p) \<and> dirty (bufs s' p)))"
proof -
  obtain s' where l: "ring_loop (\<lambda>p s. if S (bufs s p) then flush1 P p s else Some (True, s)) (firstbuf s) True s = Some (True, s')"
      and i: "cache_inv P D U M s' (ring_of s)" and c: "cache_step s s'"
      and v: "\<forall>u \<in> U. \<forall>b. (u, b) \<notin> M \<longrightarrow> view D (ring_of s) s' u b = view D (ring_of s) s u b"
      and n: "\<forall>p \<in> set (ring_of s). S (bufs s' p) \<longrightarrow> \<not> (valid (bufs s' p) \<and> dirty (bufs s' p))"
    using flush_where [OF ok [unfolded cache_ok_def], of S] by blast
  have "content D s' u b = content D s u b" if "usable U M u b" for u b
    using that v contentI [OF i] by (simp add: usable_def content_def)
  then show ?thesis using l c n cache_okI [OF i] cache_inv_ring [OF i] by blast
qed

end
