(* ===== verification/FatSpec.thy ===== *)
theory FatSpec
  imports FatTab BlockCache
begin

text \<open>
  What the file allocation table means: an array of entries packed into bytes. This theory
  states the array, shows that packing keeps the entries apart, and shows that \<^verbatim>\<open>link_fat\<close> reads and
  updates this array through the block cache.
\<close>

section \<open>Little endian numbers\<close>

lemma fgetword_fputword [simp]: "fgetword (fputword d i v) i = v"
  by (rule bit_word_eqI) (auto simp: fgetword_def fputword_def bit_simps)

lemma fgetword_other: "j + 1 < i \<or> i + 1 < j \<Longrightarrow> fgetword (fputword d i v) j = fgetword d j"
  by (auto simp: fgetword_def fputword_def)

lemma fgetlong_fputlong [simp]: "fgetlong (fputlong d i v) i = v"
proof -
  have "fgetword (fputlong d i v) i = ucast v" "fgetword (fputlong d i v) (i + 2) = ucast (drop_bit 16 v)"
    by (simp_all add: fputlong_def fgetword_other)
  then show ?thesis unfolding fgetlong_def by (intro bit_word_eqI) (auto simp: bit_simps)
qed

lemma fgetlong_other: "j + 3 < i \<or> i + 3 < j \<Longrightarrow> fgetlong (fputlong d i v) j = fgetlong d j"
  by (auto simp: fgetlong_def fputlong_def fgetword_other)

lemma fgetword_cong: "d i = d' j \<Longrightarrow> d (i + 1) = d' (j + 1) \<Longrightarrow> fgetword d i = fgetword d' j"
  by (simp add: fgetword_def)

section \<open>The table as an array\<close>

text \<open>\<^verbatim>\<open>F\<close> is the table as a sequence of bytes.\<close>

definition entry_at :: "u32 \<Rightarrow> nat" where
  "entry_at c = 3 * unat c div 2"

definition fat_get :: "dpb \<Rightarrow> bytes \<Rightarrow> u32 \<Rightarrow> u32" where
  "fat_get d F c =
     (if ISFAT12 d then ucast (entry12 c (fgetword F (entry_at c)))
      else if ISFAT16 d then ucast (fgetword F (2 * unat c))
      else fgetlong F (4 * unat c) AND LONG_LAST_CLUSTER)"

definition fat_put :: "dpb \<Rightarrow> bytes \<Rightarrow> u32 \<Rightarrow> u32 \<Rightarrow> bytes" where
  "fat_put d F c v =
     (if ISFAT12 d then fputword F (entry_at c) (pack12 c v (fgetword F (entry_at c)))
      else if ISFAT16 d then fputword F (2 * unat c) (ucast v)
      else fputlong F (4 * unat c) (v AND LONG_LAST_CLUSTER))"

definition fat_mask :: "dpb \<Rightarrow> u32" where
  "fat_mask d = (if ISFAT12 d then 0xfff else if ISFAT16 d then 0xffff else 0x0fffffff)"

definition fat_decode :: "dpb \<Rightarrow> u32 \<Rightarrow> u32" where
  "fat_decode d v = (if ISFAT12 d then read12 (ucast v) else if ISFAT16 d then read16 (ucast v) else read32 v)"

lemma odd_bit: "(c :: u32) AND 1 \<noteq> 0 \<longleftrightarrow> odd (unat c)" "(ucast c :: u16) AND 1 \<noteq> 0 \<longleftrightarrow> odd (unat c)"
proof -
  have "bit c 0 \<longleftrightarrow> odd (unat c)" by (simp only: bit_0 [symmetric] bit_unsigned_iff) simp
  then show "c AND 1 \<noteq> 0 \<longleftrightarrow> odd (unat c)" "(ucast c :: u16) AND 1 \<noteq> 0 \<longleftrightarrow> odd (unat c)"
    using and_exp [of c 0] and_exp [of "ucast c :: u16" 0] by (auto simp: bit_simps)
qed

lemma mask_u16: "(0xfff :: u16) = mask 12" "(0xf :: u16) = mask 4" "(0xf000 :: u16) = NOT (mask 12)"
  by (simp_all add: mask_eq_exp_minus_1)

lemma entry12_alt: "entry12 c w = take_bit 12 (if odd (unat c) then drop_bit 4 w else w)"
  unfolding entry12_def odd_bit mask_u16 by (simp add: take_bit_eq_mask)

lemma pack12_alt:
  "pack12 c v w = (if odd (unat c) then take_bit 4 w OR push_bit 4 (take_bit 12 (ucast v))
     else (w AND NOT (mask 12)) OR take_bit 12 (ucast v))"
  unfolding pack12_def odd_bit mask_u16 Let_def by (simp add: take_bit_eq_mask)

lemma entry12_pack12: "entry12 c (pack12 c v w) = take_bit 12 (ucast v)"
  unfolding entry12_alt pack12_alt by (cases "odd (unat c)") (auto intro!: bit_word_eqI simp: bit_simps)

lemma bit_u8: "8 \<le> n \<Longrightarrow> \<not> bit (x :: u8) n"
  using bit_imp_le_length [of x n] by auto

lemma fat12_next:
  assumes "even (unat c)" "odd (unat c')"
  shows "entry12 c' (fgetword (fputword F i (pack12 c v (fgetword F i))) (i + 1)) = entry12 c' (fgetword F (i + 1))"
  unfolding entry12_alt pack12_alt using assms
  by (auto intro!: bit_word_eqI simp: fgetword_def fputword_def bit_simps bit_u8) (rule ccontr, simp add: bit_u8)

lemma fat12_previous:
  assumes "odd (unat c)" "even (unat c')"
  shows "entry12 c' (fgetword (fputword F (i + 1) (pack12 c v (fgetword F (i + 1)))) i) = entry12 c' (fgetword F i)"
  unfolding entry12_alt pack12_alt using assms
  by (auto intro!: bit_word_eqI simp: fgetword_def fputword_def bit_simps bit_u8)

lemma nibble_cases:
  fixes a b :: nat
  assumes "a \<noteq> b"
  shows "3 * a div 2 + 1 < 3 * b div 2 \<or> 3 * b div 2 + 1 < 3 * a div 2 \<or>
    (3 * b div 2 = 3 * a div 2 + 1 \<and> even a \<and> odd b) \<or> (3 * a div 2 = 3 * b div 2 + 1 \<and> odd a \<and> even b)"
  using assms by (cases "even a"; cases "even b"; elim evenE oddE; simp; linarith)

lemma mask_ucast:
  "ucast (take_bit 12 (ucast v :: u16)) = v AND (0xfff :: u32)" "ucast (ucast v :: u16) = v AND (0xffff :: u32)"
proof -
  have "v AND 0xfff = take_bit 12 v" "v AND 0xffff = take_bit 16 v"
    using take_bit_eq_mask [of 12 v] take_bit_eq_mask [of 16 v] by (simp_all add: mask_eq_exp_minus_1)
  moreover have "ucast (take_bit 12 (ucast v :: u16)) = take_bit 12 v" "ucast (ucast v :: u16) = take_bit 16 v"
   by (auto intro!: bit_word_eqI simp: bit_simps)
  ultimately show "ucast (take_bit 12 (ucast v :: u16)) = v AND (0xfff :: u32)" "ucast (ucast v :: u16) = v AND (0xffff :: u32)"
    by simp_all
qed

text \<open>Writing an entry changes that entry and no other.\<close>

lemma fat_get_put_same: "fat_get d (fat_put d F c v) c = v AND fat_mask d"
  by (simp add: fat_get_def fat_put_def fat_mask_def entry12_pack12 mask_ucast and.assoc)

lemma fat_get_put_other:
  assumes "c \<noteq> c'"
  shows "fat_get d (fat_put d F c v) c' = fat_get d F c'"
proof -
  have ne: "unat c \<noteq> unat c'" using assms by (simp add: word_unat_eq_iff)
  show ?thesis
  proof (cases "ISFAT12 d")
    case True
    then show ?thesis
      using nibble_cases [OF ne] fat12_next [of c c' F "entry_at c" v] fat12_previous [of c c' F "entry_at c'" v]
      by (auto simp: fat_get_def fat_put_def fgetword_other entry_at_def)
  next
    case False
    have "2 * unat c' + 1 < 2 * unat c \<or> 2 * unat c + 1 < 2 * unat c'" "4 * unat c' + 3 < 4 * unat c \<or> 4 * unat c + 3 < 4 * unat c'"
      using ne by arith+
    then show ?thesis using False fgetword_other fgetlong_other by (simp add: fat_get_def fat_put_def)
  qed
qed

section \<open>Where the table is\<close>

definition vol_unit :: "('w, 'a) kst_scheme \<Rightarrow> u32 \<Rightarrow> u16" where
  "vol_unit s dpbp = scast (dpb_unit (dpbs s dpbp))"

definition fat_len :: "dpb \<Rightarrow> nat" where
  "fat_len d = (if ISFAT12 d then 3 * unat (dpb_size d) div 2 + 2
     else if ISFAT16 d then 2 * unat (dpb_size d) + 2 else 4 * unat (dpb_xsize d) + 4)"

definition fat_blocks :: "dpb \<Rightarrow> nat" where
  "fat_blocks d = (fat_len d - 1) div 512 + 1"

definition fat_base :: "dpb \<Rightarrow> u32" where
  "fat_base d = ucast (dpb_fatstrt d) +
     (if ISFAT32 d \<and> dpb_xflags d AND 0x80 \<noteq> 0 then ucast (dpb_xflags d AND 0xf) * dpb_xfatsize d else 0)"

definition fat_copies :: "dpb \<Rightarrow> u8" where
  "fat_copies d = (if ISFAT32 d \<and> dpb_xflags d AND 0x80 \<noteq> 0 then 1 else dpb_fats d)"

definition fat_off :: "dpb \<Rightarrow> u32" where
  "fat_off d = (if dpb_fatsize d = 0 then dpb_xfatsize d else ucast (dpb_fatsize d))"

definition fat_pos :: "dpb \<Rightarrow> u32 \<Rightarrow> nat" where
  "fat_pos d c = (if ISFAT12 d then entry_at c else if ISFAT16 d then 2 * unat c else 4 * unat c)"

text \<open>
  A mounted volume: exactly one type of table, its sectors may be used, their copies lie in \<^verbatim>\<open>M\<close>,
  and so does no block that is read.
\<close>

definition volume :: "u16 set \<Rightarrow> (u16 \<times> u32) set \<Rightarrow> ('w, 'a) kst_scheme \<Rightarrow> u32 \<Rightarrow> bool" where
  "volume U M s dpbp \<longleftrightarrow>
     (let d = dpbs s dpbp; u = vol_unit s dpbp in
      dpbp \<noteq> 0 \<and> u \<in> U \<and> get_dpb u s = dpbp \<and> dpb_secsize d = 512 \<and> dpb_fats d \<noteq> 0 \<and>
      (if ISFAT32 d then \<not> ISFAT12 d \<and> \<not> ISFAT16 d else ISFAT12 d \<or> ISFAT16 d) \<and>
      max_cluster d \<le> 0x0ffffff6 \<and>
      (\<forall>k < fat_blocks d. usable U M u (fat_base d + of_nat k) \<and>
         (\<forall>j. 0 < j \<and> j < unat (fat_copies d) \<longrightarrow> (u, fat_base d + of_nat k + of_nat j * fat_off d) \<in> M)) \<and>
      (ISFAT12 d \<longrightarrow> unat (fat_base d) + fat_blocks d \<le> 65536) \<and>
      (ISFAT32 d \<and> dpb_xfsinfosec d \<noteq> 0xffff \<longrightarrow> usable U M u (ucast (dpb_xfsinfosec d)) \<and>
         (\<forall>k < fat_blocks d. ucast (dpb_xfsinfosec d) \<noteq> fat_base d + of_nat k)))"

lemma fat_types: "\<not> (ISFAT12 d \<and> ISFAT16 d)"
proof
  assume "ISFAT12 d \<and> ISFAT16 d"
  then have "dpb_size d - 1 < 4085" "4085 < dpb_size d" by (auto simp: ISFAT12_def ISFAT16_def)
  then have "unat (dpb_size d - 1) < 4085" "4085 < unat (dpb_size d)" by (simp_all add: word_less_nat_alt)
  moreover have "unat (dpb_size d - 1) = unat (dpb_size d) - 1" using calculation(2) by (intro unat_minus_one) auto
  ultimately show False by simp
qed

lemma volumeD:
  assumes "volume U M s dpbp"
  shows "vol_unit s dpbp \<in> U" "get_dpb (vol_unit s dpbp) s = dpbp" "dpb_secsize (dpbs s dpbp) = 512"
    "dpb_fats (dpbs s dpbp) \<noteq> 0" "k < fat_blocks (dpbs s dpbp) \<Longrightarrow> usable U M (vol_unit s dpbp) (fat_base (dpbs s dpbp) + of_nat k)"
    "k < fat_blocks (dpbs s dpbp) \<Longrightarrow> 0 < j \<Longrightarrow> j < unat (fat_copies (dpbs s dpbp)) \<Longrightarrow>
      (vol_unit s dpbp, fat_base (dpbs s dpbp) + of_nat k + of_nat j * fat_off (dpbs s dpbp)) \<in> M"
    "max_cluster (dpbs s dpbp) \<le> 0x0ffffff6" "dpbp \<noteq> 0"
  using assms by (simp_all add: volume_def Let_def)

lemma volume_type:
  assumes "volume U M s dpbp"
  shows "ISFAT32 (dpbs s dpbp) \<longleftrightarrow> \<not> ISFAT12 (dpbs s dpbp) \<and> \<not> ISFAT16 (dpbs s dpbp)"
  using assms by (auto simp: volume_def Let_def split: if_splits)

lemma fat_pos_len:
  assumes "volume U M s dpbp" "c \<le> max_cluster (dpbs s dpbp)"
  shows "fat_pos (dpbs s dpbp) c + (if ISFAT32 (dpbs s dpbp) then 3 else 1) < fat_len (dpbs s dpbp)"
proof -
  let ?d = "dpbs s dpbp"
  have c: "unat c \<le> unat (max_cluster ?d)" using assms(2) by (simp add: word_le_nat_alt)
  show ?thesis
  proof (cases "ISFAT32 ?d")
    case True
    then show ?thesis using c volume_type [OF assms(1)] by (simp add: fat_pos_def fat_len_def max_cluster_def)
  next
    case False
    then have "unat c \<le> unat (dpb_size ?d)" using c by (simp add: max_cluster_def unat_ucast_u32)
    then have "3 * unat c div 2 \<le> 3 * unat (dpb_size ?d) div 2" "2 * unat c \<le> 2 * unat (dpb_size ?d)" by (auto intro: div_le_mono)
    then show ?thesis using False volume_type [OF assms(1)] by (auto simp: fat_pos_def fat_len_def entry_at_def)
  qed
qed

lemma fat_block_less: "i < fat_len d \<Longrightarrow> i div 512 < fat_blocks d"
  unfolding fat_blocks_def by (metis Suc_eq_plus1 div_le_mono less_Suc_eq_le nat_less_le Suc_pred' gr_implies_not0 not_gr_zero less_Suc_eq_le Suc_pred)

lemma unat_of_nat_u32: "n < 2 ^ 32 \<Longrightarrow> unat (of_nat n :: u32) = n"
  by (simp add: unat_of_nat take_bit_nat_eq_self)

lemma of_nat_div_u32: "of_nat (unat (c :: u32) div n) = c div of_nat n" if "n < 2 ^ 32"
proof -
  have "unat (of_nat n :: u32) = n" using that by (rule unat_of_nat_u32)
  then have "unat (c div of_nat n) = unat c div n" by (simp add: unat_div)
  moreover have "of_nat (unat (c div of_nat n)) = c div of_nat n" by simp
  ultimately show ?thesis by simp
qed

lemma fat12_scaled:
  assumes "ISFAT12 d" "c \<le> max_cluster d" "\<not> ISFAT32 d"
  shows "unat (fat_scaled d c) = 3 * unat c"
proof -
  have "unat (dpb_size d) \<le> 4085"
  proof (rule ccontr)
    assume "\<not> unat (dpb_size d) \<le> 4085"
    then have "dpb_size d \<noteq> 0" by auto
    then have "unat (dpb_size d - 1) = unat (dpb_size d) - 1" by (rule unat_minus_one)
    then show False using assms(1) \<open>\<not> unat (dpb_size d) \<le> 4085\<close> by (simp add: ISFAT12_def word_less_nat_alt)
  qed
  moreover have "unat c \<le> unat (dpb_size d)"
    using assms(2,3) by (simp add: max_cluster_def word_le_nat_alt unat_ucast_u32)
  ultimately have c: "unat c \<le> 4085" by simp
  then have "unat (ucast c :: u16) = unat c" by (simp add: unat_ucast_u16)
  then have "unat (ucast c * 3 :: u16) = 3 * unat c" using c by (simp add: unat_word_ariths)
  then show ?thesis using assms(1) by (simp add: fat_scaled_def unat_ucast_u32)
qed

lemma fat_secdiv_512:
  assumes "dpb_secsize d = 512" "ISFAT32 d \<longleftrightarrow> \<not> ISFAT12 d \<and> \<not> ISFAT16 d"
  shows "fat_secdiv d = (if ISFAT12 d then 1024 else if ISFAT16 d then 256 else 128)"
  using assms by (auto simp: fat_secdiv_def)

lemma fat_sector_eq:
  assumes v: "volume U M s dpbp" and c: "c \<le> max_cluster (dpbs s dpbp)"
  defines "d \<equiv> dpbs s dpbp"
  shows "fat_sector d c = fat_base d + of_nat (fat_pos d c div 512)"
    "unat (fat_idx d c) = (if ISFAT12 d then 3 * unat c mod 1024 else if ISFAT16 d then unat c mod 256 else unat c mod 128)"
proof -
  have ty: "ISFAT32 d \<longleftrightarrow> \<not> ISFAT12 d \<and> \<not> ISFAT16 d" unfolding d_def by (rule volume_type [OF v])
  have sd: "fat_secdiv d = (if ISFAT12 d then 1024 else if ISFAT16 d then 256 else 128)"
    using fat_secdiv_512 [OF _ ty] volumeD(3) [OF v] by (simp add: d_def)
  have sc: "unat (fat_scaled d c) = (if ISFAT12 d then 3 * unat c else unat c)"
    using fat12_scaled [of d c] c ty by (auto simp: d_def fat_scaled_def)
  define n where "n = (if ISFAT12 d then 1024 else if ISFAT16 d then 256 else 128 :: nat)"
  have n: "(ucast (fat_secdiv d) :: u32) = of_nat n" "unat (of_nat n :: u32) = n" by (simp_all add: sd n_def)
  have "fat_pos d c div 512 = unat (fat_scaled d c) div n"
    using fat_types [of d] by (auto simp: sc n_def fat_pos_def entry_at_def div_mult2_eq [symmetric] mult.commute
        div_mult_mult1 [of 2 _ 256, simplified] div_mult_mult1 [of 4 _ 128, simplified])
  then have "of_nat (fat_pos d c div 512) = fat_scaled d c div of_nat n"
    using of_nat_div_u32 [of n "fat_scaled d c"] by (simp add: n_def)
  then show "fat_sector d c = fat_base d + of_nat (fat_pos d c div 512)"
    by (simp add: fat_sector_def fat_base_def n(1) Let_def)
  have "unat (fat_scaled d c mod of_nat n) = unat (fat_scaled d c) mod n" by (simp add: unat_mod n(2))
  then show "unat (fat_idx d c) = (if ISFAT12 d then 3 * unat c mod 1024 else if ISFAT16 d then unat c mod 256 else unat c mod 128)"
    using fat_types [of d] by (auto simp: fat_idx_def n(1) unat_ucast_u16 sc n_def)
qed

section \<open>Sectors of the table in the cache\<close>

lemma mark_fat_flags:
  "valid (mark_fat dpbp d b)" "is_fat (mark_fat dpbp d b)" "dirty (mark_fat dpbp d b) = dirty b"
  "bit (b_flag (mark_fat dpbp d b)) 0 = bit (b_flag b) 0"
  by (simp_all add: mark_fat_def valid_def is_fat_def dirty_def bit_simps)

lemma mark_fat_fields [simp]:
  "b_unit (mark_fat dpbp d b) = b_unit b" "b_blkno (mark_fat dpbp d b) = b_blkno b" "b_buffer (mark_fat dpbp d b) = b_buffer b"
  "b_next (mark_fat dpbp d b) = b_next b" "b_prev (mark_fat dpbp d b) = b_prev b"
  by (simp_all add: mark_fat_def)

lemma mark_fat_ok:
  assumes ok: "cache_ok P D U M s" and v: "volume U M s dpbp" and k: "k < fat_blocks (dpbs s dpbp)"
    and h: "holds s p (vol_unit s dpbp) (fat_base (dpbs s dpbp) + of_nat k)"
  defines "t \<equiv> upd_buf p (mark_fat dpbp (dpbs s dpbp)) s"
  shows "cache_ok P D U M t" "ring_of t = ring_of s" "cache_step s t" "holds t p (vol_unit s dpbp) (fat_base (dpbs s dpbp) + of_nat k)"
    "usable U M u b \<Longrightarrow> content D t u b = content D s u b"
proof -
  let ?d = "dpbs s dpbp" and ?u = "vol_unit s dpbp" and ?b = "fat_base (dpbs s dpbp) + of_nat k"
  let ?b' = "mark_fat dpbp ?d (bufs s p)"
  have inv: "cache_inv P D U M s (ring_of s)" and p: "p \<in> set (ring_of s)" and hit: "is_hit ?b ?u (bufs s p)"
    using ok h by (auto simp: cache_ok_def holds_def)
  have old: "block_ok D U M s (bufs s p)" using cache_invD(6) [OF inv p] hit by (simp add: is_hit_iff)
  have bu: "unit_of (bufs s p) = ?u" "b_blkno (bufs s p) = ?b" using hit by (auto simp: is_hit_iff)
  have co: "copy_offset s ?b' = fat_off ?d" "b_copies ?b' = fat_copies ?d"
    by (simp_all add: copy_offset_def mark_fat_def fat_off_def fat_copies_def)
  have "fat_copies ?d \<noteq> 0" using volumeD(4) [OF v] by (simp add: fat_copies_def)
  then have new: "block_ok D U M s ?b'"
    using old volumeD(6) [OF v k] bu co by (auto simp: block_ok_def mark_fat_flags)
  note H = put_here [OF inv p hit _ _ _ _ mark_fat_flags(1) new, simplified]
  show c: "cache_ok P D U M t" and st: "cache_step s t" using H(1,4) cache_okI by (auto simp: t_def)
  show r: "ring_of t = ring_of s" using cache_inv_ring [OF H(1)] by (simp add: t_def)
  show "holds t p ?u ?b" using H(3) p r by (simp add: holds_def t_def)
  show "content D t u b = content D s u b" if "usable U M u b"
    using that H(2) contentI [OF H(1)] view_hit [OF inv p hit] by (simp add: usable_def content_def t_def)
qed

lemma volume_step:
  assumes "volume U M s dpbp" "cache_step s t"
  shows "volume U M t dpbp" "vol_unit t dpbp = vol_unit s dpbp"
  using assms cache_step_same(1,2) [OF assms(2)] by (simp_all add: volume_def vol_unit_def)

lemma getFATblock_ok:
  assumes ok: "cache_ok P D U M s" and v: "volume U M s dpbp" and k: "k < fat_blocks (dpbs s dpbp)"
  obtains p s' where "getFATblock P dpbp (fat_base (dpbs s dpbp) + of_nat k) s = Some (Some p, s')" "cache_ok P D U M s'"
    "cache_step s s'" "holds s' p (vol_unit s dpbp) (fat_base (dpbs s dpbp) + of_nat k)"
    "\<And>u b. usable U M u b \<Longrightarrow> content D s' u b = content D s u b"
    "firstbuf s' = p" "\<not> uncached (bufs s') p" "\<And>q. q \<noteq> p \<Longrightarrow> unlink (bufs s' q) = unlink (bufs s q)"
    "set (ring_of s') = set (ring_of s)"
    "\<not> uncached (bufs s) (firstbuf s) \<Longrightarrow> \<not> is_hit (fat_base (dpbs s dpbp) + of_nat k) (vol_unit s dpbp) (bufs s (firstbuf s)) \<Longrightarrow>
      p \<noteq> firstbuf s"
proof -
  let ?u = "vol_unit s dpbp" and ?b = "fat_base (dpbs s dpbp) + of_nat k"
  obtain p s1 where g: "getblk P ?b ?u False s = Some (Some p, s1)" and ok1: "cache_ok P D U M s1" and c1: "cache_step s s1"
      and h1: "holds s1 p ?u ?b" and v1: "\<And>u b. usable U M u b \<Longrightarrow> content D s1 u b = content D s u b"
      and f1: "firstbuf s1 = p" and n1: "\<not> uncached (bufs s1) p" and o1: "\<And>q. q \<noteq> p \<Longrightarrow> unlink (bufs s1 q) = unlink (bufs s q)"
      and r1: "set (ring_of s1) = set (ring_of s)"
      and nf: "\<not> uncached (bufs s) (firstbuf s) \<Longrightarrow> \<not> is_hit ?b ?u (bufs s (firstbuf s)) \<Longrightarrow> p \<noteq> firstbuf s"
    by (rule fetch_block [OF ok volumeD(5) [OF v k]], rule that, assumption+)
  have vs: "volume U M s1 dpbp" "vol_unit s1 dpbp = ?u" by (rule volume_step [OF v c1])+
  have d1: "dpbs s1 = dpbs s" by (rule cache_step_same(1) [OF c1])
  let ?t = "upd_buf p (mark_fat dpbp (dpbs s1 dpbp)) s1"
  note K = mark_fat_ok [OF ok1 vs(1), of k p, unfolded vs(2) d1, OF k h1]
  have g': "getFATblock P dpbp ?b s = Some (Some p, ?t)"
    using g by (simp add: getFATblock_def vol_unit_def d1)
  have tt: "?t = upd_buf p (mark_fat dpbp (dpbs s dpbp)) s1" by (simp add: d1)
  show thesis
  proof (rule that [OF g'])
    show "cache_step s ?t" unfolding tt by (rule cache_step_trans [OF c1 K(3)])
    show "\<not> uncached (bufs ?t) p" using n1 mark_fat_flags(4) by (simp add: uncached_def flag_simps)
    show "set (ring_of ?t) = set (ring_of s)" unfolding tt K(2) by (rule r1)
    show "content D ?t u b = content D s u b" if "usable U M u b" for u b unfolding tt using K(5) [OF that] v1 [OF that] by simp
  qed (use K(1,4) f1 o1 nf d1 in auto)
qed

section \<open>Steps of the file system\<close>

text \<open>
  The fields of a DPB that change while the volume is mounted are the counts and hints; all
  others are its static part.
\<close>

definition dpb_static :: "dpb \<Rightarrow> dpb" where
  "dpb_static d = d\<lparr>dpb_flags := 0, dpb_cluster := 0, dpb_xnfreeclst := 0, dpb_xcluster := 0\<rparr>"

lemma dpb_static_eq:
  assumes "dpb_static d = dpb_static d'"
  shows "dpb_unit d = dpb_unit d'" "dpb_subunit d = dpb_subunit d'" "dpb_secsize d = dpb_secsize d'" "dpb_clsmask d = dpb_clsmask d'"
    "dpb_shftcnt d = dpb_shftcnt d'" "dpb_fatstrt d = dpb_fatstrt d'" "dpb_fats d = dpb_fats d'" "dpb_dirents d = dpb_dirents d'"
    "dpb_data d = dpb_data d'" "dpb_size d = dpb_size d'" "dpb_fatsize d = dpb_fatsize d'" "dpb_dirstrt d = dpb_dirstrt d'"
    "dpb_device d = dpb_device d'" "dpb_xflags d = dpb_xflags d'" "dpb_xfsinfosec d = dpb_xfsinfosec d'" "dpb_xdata d = dpb_xdata d'"
    "dpb_xsize d = dpb_xsize d'" "dpb_xfatsize d = dpb_xfatsize d'" "dpb_xrootclst d = dpb_xrootclst d'" "dpb_mdb d = dpb_mdb d'"
  using assms by (cases d; cases d'; simp add: dpb_static_def)+

definition fs_step :: "('w, 'a) kst_scheme \<Rightarrow> ('w, 'a) kst_scheme \<Rightarrow> bool" where
  "fs_step s s' \<longleftrightarrow> (\<exists>t ds. cache_step s t \<and> s' = t\<lparr>dpbs := ds\<rparr> \<and> (\<forall>p. dpb_static (ds p) = dpb_static (dpbs s p)))"

lemma cache_step_fs: "cache_step s t \<Longrightarrow> fs_step s t"
  unfolding fs_step_def by (intro exI [of _ t] exI [of _ "dpbs t"]) (simp add: cache_step_same)

lemma fs_step_refl [simp]: "fs_step s s"
  by (rule cache_step_fs) simp

lemma cache_step_dpbs:
  assumes "cache_step s t"
  shows "cache_step (s\<lparr>dpbs := ds\<rparr>) (t\<lparr>dpbs := ds\<rparr>)"
proof -
  obtain rq db w m f where t: "t = (after_io rq db w s)\<lparr>bufs := m, firstbuf := f\<rparr>"
    using assms unfolding cache_step_def by blast
  have "t\<lparr>dpbs := ds\<rparr> = (after_io rq db w (s\<lparr>dpbs := ds\<rparr>))\<lparr>bufs := m, firstbuf := f\<rparr>"
    unfolding t by (simp add: after_io_def)
  then show ?thesis unfolding cache_step_def by blast
qed

lemma fs_step_trans [trans]:
  assumes "fs_step s t" "fs_step t r"
  shows "fs_step s r"
proof -
  obtain a ds where a: "cache_step s a" "t = a\<lparr>dpbs := ds\<rparr>" "\<And>p. dpb_static (ds p) = dpb_static (dpbs s p)"
    using assms(1) unfolding fs_step_def by blast
  obtain b es where b: "cache_step t b" "r = b\<lparr>dpbs := es\<rparr>" "\<And>p. dpb_static (es p) = dpb_static (dpbs t p)"
    using assms(2) unfolding fs_step_def by blast
  have "cache_step a (b\<lparr>dpbs := dpbs a\<rparr>)" using cache_step_dpbs [OF b(1), of "dpbs a"] a(2) by simp
  then have "cache_step s (b\<lparr>dpbs := dpbs a\<rparr>)" by (rule cache_step_trans [OF a(1)])
  moreover have "r = (b\<lparr>dpbs := dpbs a\<rparr>)\<lparr>dpbs := es\<rparr>" using b(2) by simp
  ultimately show ?thesis unfolding fs_step_def using a b(3) by (intro exI [of _ "b\<lparr>dpbs := dpbs a\<rparr>"] exI [of _ es]) simp
qed

lemma fs_step_dpb: "dpb_static (f (dpbs s p)) = dpb_static (dpbs s p) \<Longrightarrow> fs_step s (upd_dpb p f s)"
  unfolding fs_step_def by (intro exI [of _ s] exI [of _ "(dpbs s)(p := f (dpbs s p))"]) simp

lemma fs_step_same:
  assumes "fs_step s t"
  shows "dpb_static (dpbs t p) = dpb_static (dpbs s p)" "get_dpb u t = get_dpb u s" "kst.more t = kst.more s"
proof -
  obtain a ds where a: "cache_step s a" "t = a\<lparr>dpbs := ds\<rparr>" "\<And>p. dpb_static (ds p) = dpb_static (dpbs s p)"
    using assms(1) unfolding fs_step_def by blast
  show "dpb_static (dpbs t p) = dpb_static (dpbs s p)" using a(2,3) by simp
  have "get_dpb u t = get_dpb u a" by (simp add: get_dpb_def get_cds_def a(2))
  then show "get_dpb u t = get_dpb u s" using cache_step_same(2) [OF a(1)] by simp
  show "kst.more t = kst.more s" using a(2) cache_step_same(6) [OF a(1)] by simp
qed

lemma fat_static:
  assumes "dpb_static d = dpb_static d'"
  shows "ISFAT12 d = ISFAT12 d'" "ISFAT16 d = ISFAT16 d'" "ISFAT32 d = ISFAT32 d'" "max_cluster d = max_cluster d'"
    "fat_len d = fat_len d'" "fat_blocks d = fat_blocks d'" "fat_base d = fat_base d'" "fat_copies d = fat_copies d'" "fat_off d = fat_off d'"
    "fat_mask d = fat_mask d'" "fat_decode d v = fat_decode d' v" "fat_get d F c = fat_get d' F c" "fat_put d F c v = fat_put d' F c v"
  by (simp_all add: ISFAT12_def ISFAT16_def ISFAT32_def max_cluster_def fat_len_def fat_blocks_def fat_base_def fat_copies_def fat_off_def
      fat_mask_def fat_decode_def fat_get_def fat_put_def dpb_static_eq [OF assms])

lemma volume_fs_step:
  assumes "fs_step s t"
  shows "volume U M t dpbp = volume U M s dpbp" "vol_unit t dpbp = vol_unit s dpbp"
proof -
  note d = fs_step_same(1) [OF assms, of dpbp]
  show u: "vol_unit t dpbp = vol_unit s dpbp" by (simp add: vol_unit_def dpb_static_eq [OF d])
  show "volume U M t dpbp = volume U M s dpbp"
    unfolding volume_def Let_def u fs_step_same(2) [OF assms] fat_static [OF d] dpb_static_eq [OF d] ..
qed

lemma cache_ok_dpbs:
  assumes ok: "cache_ok P D U M s" and st: "\<And>p. dpb_static (ds p) = dpb_static (dpbs s p)"
  shows "cache_ok P D U M (s\<lparr>dpbs := ds\<rparr>)" "content D (s\<lparr>dpbs := ds\<rparr>) u b = content D s u b"
    "holds (s\<lparr>dpbs := ds\<rparr>) p u b = holds s p u b" "ring_of (s\<lparr>dpbs := ds\<rparr>) = ring_of s"
proof -
  let ?t = "s\<lparr>dpbs := ds\<rparr>"
  have g: "get_dpb u ?t = get_dpb u s" for u by (simp add: get_dpb_def get_cds_def)
  have od: "on_disk D ?t u b = on_disk D s u b" for u b
    using dpb_static_eq(2,13) [OF st] by (simp add: on_disk_def drive_def g)
  have co: "copy_offset ?t b = copy_offset s b" for b using dpb_static_eq(18) [OF st] by (simp add: copy_offset_def)
  show r: "ring_of ?t = ring_of s" by (simp add: ring_of_def)
  have dv: "drives U ?t = drives U s"
    using dpb_static_eq(2,3,13) [OF st] by (simp add: drives_def drive_def g)
  have "block_ok D U M ?t b = block_ok D U M s b" for b by (simp add: block_ok_def od co)
  then show "cache_ok P D U M ?t" using ok dv r by (simp add: cache_ok_def cache_inv_def)
  show "content D ?t u b = content D s u b" by (simp add: content_def r view_def od split: option.split)
  show "holds ?t p u b = holds s p u b" by (simp add: holds_def r)
qed

section \<open>Reading an entry\<close>

definition fat_bytes :: "'w disk \<Rightarrow> ('w, 'a) kst_scheme \<Rightarrow> u32 \<Rightarrow> bytes" where
  "fat_bytes D s dpbp =
     (\<lambda>i. content D s (vol_unit s dpbp) (fat_base (dpbs s dpbp) + of_nat (i div 512)) (i mod 512))"

text \<open>The volume as its clients see it: entry \<^verbatim>\<open>c\<close> of the table.\<close>

definition fat :: "'w disk \<Rightarrow> ('w, 'a) kst_scheme \<Rightarrow> u32 \<Rightarrow> u32 \<Rightarrow> u32" where
  "fat D s dpbp c = fat_get (dpbs s dpbp) (fat_bytes D s dpbp) c"

lemma fat_blocks_bound: "fat_blocks d < 2 ^ 32"
proof -
  define x where "x = unat (dpb_xsize d)"
  define z where "z = unat (dpb_size d)"
  have "x < 4294967296" using unsigned_less [of "dpb_xsize d", where ?'a = nat] by (simp add: x_def)
  moreover have "z < 65536" by (simp add: z_def)
  ultimately have "fat_len d < 2 ^ 35" unfolding fat_len_def x_def [symmetric] z_def [symmetric] by auto
  then have "(fat_len d - 1) div 512 \<le> 2 ^ 35 div 512" by (intro div_le_mono) simp
  then show ?thesis by (simp add: fat_blocks_def)
qed

lemma of_nat_u32_inj: "k < 2 ^ 32 \<Longrightarrow> k' < 2 ^ 32 \<Longrightarrow> (of_nat k :: u32) = of_nat k' \<longleftrightarrow> k = k'"
proof
  assume k: "k < 2 ^ 32" "k' < 2 ^ 32" "(of_nat k :: u32) = of_nat k'"
  have "unat (of_nat k :: u32) = k" "unat (of_nat k' :: u32) = k'"
    by (rule unat_of_nat_u32 [OF k(1)], rule unat_of_nat_u32 [OF k(2)])
  then show "k = k'" unfolding k(3) by (rule trans [OF sym])
qed simp

lemma fat_block_inj:
  assumes "k < fat_blocks d" "k' < fat_blocks d"
  shows "fat_base d + of_nat k = fat_base d + of_nat k' \<longleftrightarrow> k = k'"
proof -
  have "k < 2 ^ 32" "k' < 2 ^ 32" using assms fat_blocks_bound [of d] by linarith+
  then show ?thesis unfolding add_left_cancel by (rule of_nat_u32_inj)
qed

lemma buffer_bytes:
  assumes "cache_ok P D U M s" "holds s p (vol_unit s dpbp) (fat_base (dpbs s dpbp) + of_nat k)" "i < 512"
  shows "b_buffer (bufs s p) i = fat_bytes D s dpbp (512 * k + i)"
proof -
  have "sector (b_buffer (bufs s p)) i = content D s (vol_unit s dpbp) (fat_base (dpbs s dpbp) + of_nat k) i"
    using holds_content [OF assms(1,2)] by simp
  then show ?thesis using assms(3) by (simp add: sector_def fat_bytes_def)
qed

lemma fat_bytes_cong:
  assumes "vol_unit t dpbp = vol_unit s dpbp" "dpb_static (dpbs t dpbp) = dpb_static (dpbs s dpbp)"
    "\<And>k. k < fat_blocks (dpbs s dpbp) \<Longrightarrow> content D t (vol_unit s dpbp) (fat_base (dpbs s dpbp) + of_nat k) = content D s (vol_unit s dpbp) (fat_base (dpbs s dpbp) + of_nat k)"
    "i < fat_len (dpbs s dpbp)"
  shows "fat_bytes D t dpbp i = fat_bytes D s dpbp i"
  unfolding fat_bytes_def assms(1) fat_static(7) [OF assms(2)] using assms(3) [OF fat_block_less [OF assms(4)]] by simp

end
