(* ===== verification/FatLink.thy ===== *)
theory FatLink
  imports FatSpec
begin

text \<open>
  \<^verbatim>\<open>link_fat\<close> reads and updates the array of \<^verbatim>\<open>FatSpec\<close>: first the sectors an entry lies in, then
  reading, then writing with the count of free clusters.
\<close>

section \<open>The bytes of an entry\<close>

lemma fat12_idx:
  assumes v: "volume U M s dpbp" and c: "c \<le> max_cluster (dpbs s dpbp)" and t: "ISFAT12 (dpbs s dpbp)"
  defines "d \<equiv> dpbs s dpbp"
  shows "unat (fat_idx d c div 2) = fat_pos d c mod 512" "fat_idx d c div 2 \<ge> dpb_secsize d - 1 \<longleftrightarrow> fat_pos d c mod 512 = 511"
proof -
  have "unat (fat_idx d c) = 3 * unat c mod 1024" using fat_sector_eq(2) [OF v c] t by (simp add: d_def)
  moreover have "(3 * unat c mod 1024) div 2 = 3 * unat c div 2 mod 512"
    using mod_mult2_eq [of "3 * unat c" 2 512] by simp
  ultimately show i: "unat (fat_idx d c div 2) = fat_pos d c mod 512"
    using t by (simp add: unat_div fat_pos_def entry_at_def d_def)
  have "dpb_secsize d - 1 = 511" using volumeD(3) [OF v] by (simp add: d_def)
  moreover have "fat_pos d c mod 512 < 512" by simp
  ultimately show "fat_idx d c div 2 \<ge> dpb_secsize d - 1 \<longleftrightarrow> fat_pos d c mod 512 = 511"
    unfolding word_le_nat_alt i by auto
qed

text \<open>The two buffers of a FAT12 entry; they differ when the entry straddles a sector boundary.\<close>

lemma fat12_next_sector:
  assumes v: "volume U M s dpbp" and c: "c \<le> max_cluster (dpbs s dpbp)" and t: "ISFAT12 (dpbs s dpbp)"
    and sp: "fat_pos (dpbs s dpbp) c mod 512 = 511"
  defines "d \<equiv> dpbs s dpbp"
  shows "ucast (ucast (fat_sector d c) + 1 :: u16) = fat_base d + of_nat (fat_pos d c div 512 + 1)"
    "fat_pos d c div 512 + 1 < fat_blocks d" "(fat_pos d c + 1) div 512 = fat_pos d c div 512 + 1" "(fat_pos d c + 1) mod 512 = 0"
proof -
  let ?k = "fat_pos d c div 512"
  have a: "(fat_pos d c + 1) div 512 = ?k + 1" "(fat_pos d c + 1) mod 512 = 0" using sp by (simp_all add: d_def div_Suc mod_Suc)
  have "\<not> ISFAT32 d" using volume_type [OF v] t by (simp add: d_def)
  then have "fat_pos d c + 1 < fat_len d" using fat_pos_len [OF v c] by (simp add: d_def)
  then have k: "?k + 1 < fat_blocks d" using fat_block_less [of "fat_pos d c + 1" d] a by simp
  have b: "unat (fat_base d) + fat_blocks d \<le> 65536" using v t by (simp add: volume_def Let_def d_def)
  have kb: "?k + 1 < 2 ^ 32" using k b by simp
  have u: "unat (fat_base d + of_nat (?k + 1)) = unat (fat_base d) + (?k + 1)"
    using unat_of_nat_u32 [OF kb] k b by (simp add: unat_word_ariths)
  have "unat (fat_sector d c) = unat (fat_base d) + ?k"
    unfolding fat_sector_eq(1) [OF v c, folded d_def] using unat_of_nat_u32 [of ?k] kb k b by (simp add: unat_word_ariths)
  then have "unat (ucast (fat_sector d c) :: u16) = unat (fat_base d) + ?k" using k b by (simp add: unat_ucast_u16)
  then have "unat (ucast (fat_sector d c) + 1 :: u16) = unat (fat_base d) + (?k + 1)"
    using k b unat_u16_add [of "ucast (fat_sector d c)" 1] by simp
  then show "ucast (ucast (fat_sector d c) + 1 :: u16) = fat_base d + of_nat (?k + 1)"
    unfolding word_unat_eq_iff unat_ucast_u32 u .
  show "?k + 1 < fat_blocks d" by (rule k)
  show "(fat_pos d c + 1) div 512 = ?k + 1" "(fat_pos d c + 1) mod 512 = 0" by (rule a)+
qed

lemma fat12_fetch:
  assumes ok: "cache_ok P D U M s" and v: "volume U M s dpbp" and c: "c \<le> max_cluster (dpbs s dpbp)" and t: "ISFAT12 (dpbs s dpbp)"
    and h: "holds s bp (vol_unit s dpbp) (fat_base (dpbs s dpbp) + of_nat (fat_pos (dpbs s dpbp) c div 512))"
    and f: "firstbuf s = bp" and n: "\<not> uncached (bufs s) bp"
  obtains bp1 s' where
    "(if fat_idx (dpbs s dpbp) c div 2 \<ge> dpb_secsize (dpbs s dpbp) - 1
      then getFATblock P dpbp (ucast (ucast (fat_sector (dpbs s dpbp) c) + 1 :: u16)) s else Some (Some bp, s)) = Some (Some bp1, s')"
    "cache_ok P D U M s'" "cache_step s s'" "\<And>u b. usable U M u b \<Longrightarrow> content D s' u b = content D s u b"
    "holds s' bp (vol_unit s dpbp) (fat_base (dpbs s dpbp) + of_nat (fat_pos (dpbs s dpbp) c div 512))"
    "holds s' bp1 (vol_unit s dpbp) (fat_base (dpbs s dpbp) + of_nat ((fat_pos (dpbs s dpbp) c + 1) div 512))"
    "bp1 = bp \<longleftrightarrow> fat_pos (dpbs s dpbp) c mod 512 \<noteq> 511"
proof -
  let ?d = "dpbs s dpbp" and ?u = "vol_unit s dpbp"
  let ?k = "fat_pos ?d c div 512"
  note split = fat12_idx(2) [OF v c t]
  show thesis
  proof (cases "fat_pos ?d c mod 512 = 511")
    case True
    note nx = fat12_next_sector [OF v c t True]
    let ?b = "fat_base ?d + of_nat (?k + 1)"
    obtain bp1 s' where g: "getFATblock P dpbp ?b s = Some (Some bp1, s')" and ok': "cache_ok P D U M s'" and cs: "cache_step s s'"
        and h1: "holds s' bp1 ?u ?b" and ct: "\<And>u b. usable U M u b \<Longrightarrow> content D s' u b = content D s u b"
        and o: "\<And>q. q \<noteq> bp1 \<Longrightarrow> unlink (bufs s' q) = unlink (bufs s q)" and r: "set (ring_of s') = set (ring_of s)"
        and nf: "\<not> uncached (bufs s) (firstbuf s) \<Longrightarrow> \<not> is_hit ?b ?u (bufs s (firstbuf s)) \<Longrightarrow> bp1 \<noteq> firstbuf s"
      by (rule getFATblock_ok [OF ok v nx(2)], rule that, assumption+)
    have "?k < fat_blocks ?d" using nx(2) by simp
    then have "fat_base ?d + of_nat ?k \<noteq> ?b" using fat_block_inj [of ?k ?d "?k + 1"] nx(2) by simp
    then have ne: "bp1 \<noteq> bp" using nf f n h by (auto simp: holds_def is_hit_iff)
    then have "alike (bufs s bp) (bufs s' bp)" using o by (intro unlink_alike) simp
    then have "holds s' bp ?u (fat_base ?d + of_nat ?k)" using h r by (simp add: holds_def alike_hit)
    then show thesis using that [of bp1 s'] g ok' cs ct h1 ne True split nx(1,3) by simp
  next
    case False
    then have "(fat_pos ?d c + 1) div 512 = ?k" by (simp add: div_Suc mod_Suc)
    then show thesis using that [of bp s] ok h False split by simp
  qed
qed

lemma fgetword_two:
  assumes "d (i mod 512) = F i" "d' ((i + 1) mod 512) = F (i + 1)"
  shows "ucast (d (i mod 512)) OR push_bit 8 (ucast (d' ((i + 1) mod 512))) = fgetword F i"
  using assms by (simp add: fgetword_def)

lemma buffer_at:
  assumes "cache_ok P D U M s" "holds s p (vol_unit s dpbp) (fat_base (dpbs s dpbp) + of_nat (i div 512))"
  shows "b_buffer (bufs s p) (i mod 512) = fat_bytes D s dpbp i"
  using buffer_bytes [OF assms, of "i mod 512"] by simp

lemma buffer_word:
  assumes "cache_ok P D U M s" "holds s p (vol_unit s dpbp) (fat_base (dpbs s dpbp) + of_nat k)" "i + 1 < 512"
  shows "fgetword (b_buffer (bufs s p)) i = fgetword (fat_bytes D s dpbp) (512 * k + i)"
  using buffer_bytes [OF assms(1,2), of i] buffer_bytes [OF assms(1,2), of "i + 1"] assms(3) by (simp add: fgetword_def)

lemma buffer_long:
  assumes "cache_ok P D U M s" "holds s p (vol_unit s dpbp) (fat_base (dpbs s dpbp) + of_nat k)" "i + 3 < 512"
  shows "fgetlong (b_buffer (bufs s p)) i = fgetlong (fat_bytes D s dpbp) (512 * k + i)"
  using buffer_word [OF assms(1,2), of i] buffer_word [OF assms(1,2), of "i + 2"] assms(3) by (simp add: fgetlong_def add.assoc)

section \<open>Reading\<close>

lemma decode_ucast: "ISFAT12 d \<Longrightarrow> fat_decode d (ucast (x :: u16)) = read12 x" "\<not> ISFAT12 d \<Longrightarrow> ISFAT16 d \<Longrightarrow> fat_decode d (ucast (x :: u16)) = read16 x"
proof -
  have "(ucast (ucast x :: u32) :: u16) = x" by (rule bit_word_eqI) (auto simp: bit_simps)
  then show "ISFAT12 d \<Longrightarrow> fat_decode d (ucast x) = read12 x" "\<not> ISFAT12 d \<Longrightarrow> ISFAT16 d \<Longrightarrow> fat_decode d (ucast x) = read16 x"
    by (simp_all add: fat_decode_def)
qed

lemma fat_bytes_step:
  assumes "volume U M s dpbp" "cache_step s t" "\<And>u b. usable U M u b \<Longrightarrow> content D t u b = content D s u b" "i < fat_len (dpbs s dpbp)"
  shows "fat_bytes D t dpbp i = fat_bytes D s dpbp i"
  using volume_step(2) [OF assms(1,2)] cache_step_same(1) [OF assms(2)] assms(3) volumeD(5) [OF assms(1)]
  by (intro fat_bytes_cong [OF _ _ _ assms(4)]) auto

lemma fat_get_cong:
  assumes "volume U M s dpbp" "c \<le> max_cluster (dpbs s dpbp)" "\<And>i. i < fat_len (dpbs s dpbp) \<Longrightarrow> F i = G i"
  shows "fat_get (dpbs s dpbp) F c = fat_get (dpbs s dpbp) G c"
  using fat_pos_len [OF assms(1,2)] assms(3) volume_type [OF assms(1)]
  by (auto simp: fat_get_def fat_pos_def fgetword_def fgetlong_def)

lemma fat_cong:
  assumes "volume U M s dpbp" "cache_step s t" "\<And>u b. usable U M u b \<Longrightarrow> content D t u b = content D s u b"
    "c \<le> max_cluster (dpbs s dpbp)"
  shows "fat D t dpbp c = fat D s dpbp c"
  unfolding fat_def cache_step_same(1) [OF assms(2)]
  by (rule fat_get_cong [OF assms(1,4)], rule fat_bytes_step [OF assms(1-3)])

lemma link_fat_enter:
  assumes "2 \<le> c" "c \<le> max_cluster (dpbs s dpbp)" "v \<le> max_cluster (dpbs s dpbp) \<or> LONG_BAD \<le> v"
    "getFATblock P dpbp (fat_sector (dpbs s dpbp) c) s = Some (Some bp, s1)"
  shows "link_fat P dpbp c v s =
    (let d = dpbs s dpbp; i = unat (fat_idx d c) in
     if ISFAT12 d then link_fat12 P dpbp c v (fat_sector d c) (fat_idx d c) bp s1
     else if ISFAT16 d then
       let res = fgetword (b_buffer (bufs s1 bp)) (i * 2) in
       if (ucast v :: u16) = 1 then Some (read16 res, s1)
       else link_done P dpbp v (res = 0) bp
         (upd_buf bp (\<lambda>b. b\<lparr>b_buffer := fputword (b_buffer b) (i * 2) (ucast v)\<rparr>) s1)
     else if ISFAT32 d then
       let res = fgetlong (b_buffer (bufs s1 bp)) (i * 4) AND LONG_LAST_CLUSTER in
       if v = READ_CLUSTER then Some (read32 res, s1)
       else link_done P dpbp v (res = 0) bp
         (upd_buf bp (\<lambda>b. b\<lparr>b_buffer := fputlong (b_buffer b) (i * 4) (v AND LONG_LAST_CLUSTER)\<rparr>) s1)
     else Some (1, s1))"
proof -
  have a: "\<not> (c \<le> 1 \<or> c > max_cluster (dpbs s dpbp))" using assms(1,2) by (auto simp: word_le_nat_alt word_less_nat_alt)
  have b: "\<not> (v < LONG_BAD \<and> v > max_cluster (dpbs s dpbp))" using assms(3) by auto
  show ?thesis unfolding link_fat_def Let_def if_not_P [OF a] if_not_P [OF b] assms(4) by simp
qed

lemma fat_first_sector:
  assumes ok: "cache_ok P D U M s" and v: "volume U M s dpbp" and c: "c \<le> max_cluster (dpbs s dpbp)"
  obtains bp s1 where "getFATblock P dpbp (fat_sector (dpbs s dpbp) c) s = Some (Some bp, s1)" "cache_ok P D U M s1" "cache_step s s1"
    "holds s1 bp (vol_unit s dpbp) (fat_base (dpbs s dpbp) + of_nat (fat_pos (dpbs s dpbp) c div 512))"
    "\<And>u b. usable U M u b \<Longrightarrow> content D s1 u b = content D s u b" "firstbuf s1 = bp" "\<not> uncached (bufs s1) bp"
proof -
  have "fat_pos (dpbs s dpbp) c < fat_len (dpbs s dpbp)" using fat_pos_len [OF v c] by (simp split: if_splits)
  then have k: "fat_pos (dpbs s dpbp) c div 512 < fat_blocks (dpbs s dpbp)" by (rule fat_block_less)
  show thesis unfolding fat_sector_eq(1) [OF v c]
    by (rule getFATblock_ok [OF ok v k], rule that, unfold fat_sector_eq(1) [OF v c], assumption+)
qed

lemma fat_index:
  assumes v: "volume U M s dpbp" and c: "c \<le> max_cluster (dpbs s dpbp)"
  defines "d \<equiv> dpbs s dpbp"
  shows "\<not> ISFAT12 d \<Longrightarrow> ISFAT16 d \<Longrightarrow> unat (fat_idx d c) * 2 + 1 < 512 \<and> 512 * (fat_pos d c div 512) + unat (fat_idx d c) * 2 = 2 * unat c"
    "\<not> ISFAT12 d \<Longrightarrow> \<not> ISFAT16 d \<Longrightarrow> unat (fat_idx d c) * 4 + 3 < 512 \<and> 512 * (fat_pos d c div 512) + unat (fat_idx d c) * 4 = 4 * unat c"
proof -
  note i = fat_sector_eq(2) [OF v c, folded d_def]
  have m: "n mod 256 * 2 + 1 < 512" "512 * (2 * n div 512) + n mod 256 * 2 = 2 * n"
    "n mod 128 * 4 + 3 < 512" "512 * (4 * n div 512) + n mod 128 * 4 = 4 * n" for n :: nat
  proof -
    have "n mod 256 < 256" "n mod 128 < 128" by simp_all
    then show "n mod 256 * 2 + 1 < 512" "n mod 128 * 4 + 3 < 512" by linarith+
    have "2 * n div 512 = n div 256" "4 * n div 512 = n div 128" by simp_all
    then show "512 * (2 * n div 512) + n mod 256 * 2 = 2 * n" "512 * (4 * n div 512) + n mod 128 * 4 = 4 * n"
      using div_mult_mod_eq [of n 256] div_mult_mod_eq [of n 128] by linarith+
  qed
  show "unat (fat_idx d c) * 2 + 1 < 512 \<and> 512 * (fat_pos d c div 512) + unat (fat_idx d c) * 2 = 2 * unat c" if "\<not> ISFAT12 d" "ISFAT16 d"
    using that m [of "unat c"] unfolding i fat_pos_def by simp
  show "unat (fat_idx d c) * 4 + 3 < 512 \<and> 512 * (fat_pos d c div 512) + unat (fat_idx d c) * 4 = 4 * unat c" if "\<not> ISFAT12 d" "\<not> ISFAT16 d"
    using that m [of "unat c"] unfolding i fat_pos_def by simp
qed

lemma link_fat_read:
  assumes ok: "cache_ok P D U M s" and v: "volume U M s dpbp" and c: "2 \<le> c" "c \<le> max_cluster (dpbs s dpbp)"
  obtains s' where "link_fat P dpbp c READ_CLUSTER s = Some (fat_decode (dpbs s dpbp) (fat D s dpbp c), s')"
    "cache_ok P D U M s'" "cache_step s s'" "\<And>u b. usable U M u b \<Longrightarrow> content D s' u b = content D s u b"
proof -
  let ?d = "dpbs s dpbp" and ?F = "fat_bytes D s dpbp"
  obtain bp s1 where g: "getFATblock P dpbp (fat_sector ?d c) s = Some (Some bp, s1)" and ok1: "cache_ok P D U M s1" and c1: "cache_step s s1"
      and h1: "holds s1 bp (vol_unit s dpbp) (fat_base ?d + of_nat (fat_pos ?d c div 512))"
      and t1: "\<And>u b. usable U M u b \<Longrightarrow> content D s1 u b = content D s u b" and f1: "firstbuf s1 = bp" and n1: "\<not> uncached (bufs s1) bp"
    by (rule fat_first_sector [OF ok v c(2)], rule that, assumption+)
  note vs = volume_step [OF v c1] and d1 = cache_step_same(1) [OF c1]
  have one: "1 \<le> max_cluster ?d" using c by (simp add: word_le_nat_alt)
  note E = link_fat_enter [OF c disjI1 [OF one] g]
  have fb: "fat D s1 dpbp c = fat D s dpbp c" by (rule fat_cong [OF v c1 t1 c(2)])
  have h1': "holds s1 bp (vol_unit s1 dpbp) (fat_base (dpbs s1 dpbp) + of_nat (fat_pos ?d c div 512))"
    using h1 by (simp add: vs(2) d1)
  show thesis
  proof (cases "ISFAT12 ?d")
    case False
    have "link_fat P dpbp c READ_CLUSTER s = Some (fat_decode ?d (fat D s1 dpbp c), s1)"
    proof (cases "ISFAT16 ?d")
      case True
      note x = fat_index(1) [OF v c(2) False True]
      then have "fgetword (b_buffer (bufs s1 bp)) (unat (fat_idx ?d c) * 2) = fgetword (fat_bytes D s1 dpbp) (2 * unat c)"
        using buffer_word [OF ok1 h1', of "unat (fat_idx ?d c) * 2"] by simp
      then show ?thesis unfolding E Let_def using False True
        by (simp add: fat_def fat_get_def d1 decode_ucast)
    next
      case f16: False
      note x = fat_index(2) [OF v c(2) False f16]
      then have "fgetlong (b_buffer (bufs s1 bp)) (unat (fat_idx ?d c) * 4) = fgetlong (fat_bytes D s1 dpbp) (4 * unat c)"
        using buffer_long [OF ok1 h1', of "unat (fat_idx ?d c) * 4"] by simp
      then show ?thesis unfolding E Let_def using False f16 volume_type [OF v]
        by (simp add: fat_def fat_get_def d1 fat_decode_def)
    qed
    then show thesis using that [of s1] ok1 c1 t1 fb by simp
  next
    case True
    have c': "c \<le> max_cluster (dpbs s1 dpbp)" and t': "ISFAT12 (dpbs s1 dpbp)" using c True d1 by simp_all
    obtain bp1 s2 where
        e: "(if fat_idx ?d c div 2 \<ge> dpb_secsize ?d - 1
          then getFATblock P dpbp (ucast (ucast (fat_sector ?d c) + 1 :: u16)) s1 else Some (Some bp, s1)) = Some (Some bp1, s2)"
        and ok2: "cache_ok P D U M s2" and c2: "cache_step s1 s2" and t2: "\<And>u b. usable U M u b \<Longrightarrow> content D s2 u b = content D s1 u b"
        and h: "holds s2 bp (vol_unit s1 dpbp) (fat_base ?d + of_nat (fat_pos ?d c div 512))"
        and h': "holds s2 bp1 (vol_unit s1 dpbp) (fat_base ?d + of_nat ((fat_pos ?d c + 1) div 512))"
        and ne: "bp1 = bp \<longleftrightarrow> fat_pos ?d c mod 512 \<noteq> 511"
      by (rule fat12_fetch [OF ok1 vs(1) c' t' _ f1 n1, unfolded d1, OF h1' [unfolded d1]], rule that, assumption+)
    note vs2 = volume_step(2) [OF vs(1) c2] and d2 = cache_step_same(1) [OF c2]
    let ?i = "fat_pos ?d c"
    have ix: "unat (fat_idx ?d c div 2) = ?i mod 512" by (rule fat12_idx(1) [OF v c(2) True])
    have jx: "(if fat_idx ?d c div 2 \<ge> dpb_secsize ?d - 1 then 0 else ?i mod 512 + 1) = (?i + 1) mod 512"
      using fat12_idx(2) [OF v c(2) True] by (simp add: mod_Suc)
    have w: "ucast (b_buffer (bufs s2 bp) (?i mod 512)) OR push_bit 8 (ucast (b_buffer (bufs s2 bp1) ((?i + 1) mod 512))) =
        fgetword (fat_bytes D s2 dpbp) ?i"
      using buffer_at [OF ok2, of bp dpbp ?i] buffer_at [OF ok2, of bp1 dpbp "?i + 1"] h h' vs2 d1 d2
      by (intro fgetword_two) simp_all
    have "link_fat P dpbp c READ_CLUSTER s = Some (read12 (entry12 c (fgetword (fat_bytes D s2 dpbp) ?i)), s2)"
      unfolding E Let_def link_fat12_def d1 using e True w ix jx by (simp cong: if_cong)
    moreover have "fat_decode ?d (fat D s2 dpbp c) = read12 (entry12 c (fgetword (fat_bytes D s2 dpbp) ?i))"
      using True d1 d2 by (simp add: fat_def fat_get_def decode_ucast fat_pos_def)
    moreover have "fat D s2 dpbp c = fat D s dpbp c" using fat_cong [OF vs(1) c2 t2 c'] fb by simp
    ultimately show thesis using that [of s2] ok2 cache_step_trans [OF c1 c2] t1 t2 by simp
  qed
qed

section \<open>The FS information sector\<close>

lemma fputword_same: "fgetword d i = v \<Longrightarrow> fputword d i v = d"
proof -
  have "ucast (fgetword d i) = d i" "ucast (drop_bit 8 (fgetword d i)) = d (i + 1)"
    by (rule bit_word_eqI, auto simp: fgetword_def bit_simps bit_u8)+
  then show "fgetword d i = v \<Longrightarrow> fputword d i v = d" by (auto simp: fputword_def fun_eq_iff)
qed

lemma fputlong_same:
  assumes "fgetlong d i = v"
  shows "fputlong d i v = d"
proof -
  have "(ucast v :: u16) = fgetword d i" "(ucast (drop_bit 16 v) :: u16) = fgetword d (i + 2)"
    unfolding assms [symmetric] fgetlong_def by (rule bit_word_eqI, auto simp: bit_simps dest: bit_imp_le_length)+
  then show ?thesis by (simp add: fputlong_def fputword_same)
qed

definition fsinfo_block :: "('w, 'a) kst_scheme \<Rightarrow> u32 \<Rightarrow> u16 \<Rightarrow> u32 \<Rightarrow> bool" where
  "fsinfo_block s dpbp u b \<longleftrightarrow> ISFAT32 (dpbs s dpbp) \<and> dpb_xfsinfosec (dpbs s dpbp) \<noteq> 0xffff \<and>
     u = vol_unit s dpbp \<and> b = ucast (dpb_xfsinfosec (dpbs s dpbp))"

lemma write_fsinfo_ok:
  assumes ok: "cache_ok P D U M s" and v: "volume U M s dpbp" and t: "ISFAT32 (dpbs s dpbp)"
  obtains s' where "write_fsinfo P dpbp s = Some s'" "cache_ok P D U M s'" "cache_step s s'"
    "\<And>u b. usable U M u b \<Longrightarrow> \<not> fsinfo_block s dpbp u b \<Longrightarrow> content D s' u b = content D s u b"
proof (cases "dpb_xfsinfosec (dpbs s dpbp) = 0xffff")
  case True
  then show thesis using that [of s] ok by (simp add: write_fsinfo_def)
next
  case False
  let ?d = "dpbs s dpbp" and ?u = "vol_unit s dpbp"
  let ?b = "ucast (dpb_xfsinfosec ?d) :: u32"
  have us: "usable U M ?u ?b" using v t False by (simp add: volume_def Let_def)
  obtain p s1 where g: "getblk P ?b ?u False s = Some (Some p, s1)" and ok1: "cache_ok P D U M s1" and c1: "cache_step s s1"
      and h1: "holds s1 p ?u ?b" and t1: "\<And>u b. usable U M u b \<Longrightarrow> content D s1 u b = content D s u b"
    by (rule fetch_block [OF ok us], rule that, assumption+)
  define fl where "fl = (b_flag (bufs s1 p) AND NOT (BFR_DATA OR BFR_DIR OR BFR_FAT)) OR BFR_VALID"
  define news where "news \<longleftrightarrow> fgetlong (b_buffer (bufs s1 p)) 0x1e8 \<noteq> dpb_xnfreeclst ?d \<or> fgetlong (b_buffer (bufs s1 p)) 0x1ec \<noteq> dpb_xcluster ?d"
  define b' where "b' = (bufs s1 p)\<lparr>b_flag := (if news then fl OR BFR_DIRTY else fl),
      b_buffer := fputlong (fputlong (b_buffer (bufs s1 p)) 0x1e8 (dpb_xnfreeclst ?d)) 0x1ec (dpb_xcluster ?d)\<rparr>"
  have w: "write_fsinfo P dpbp s = Some (s1\<lparr>bufs := (bufs s1)(p := b')\<rparr>)"
    using g False by (simp add: write_fsinfo_def Let_def vol_unit_def b'_def fl_def news_def)
  have inv: "cache_inv P D U M s1 (ring_of s1)" and pr: "p \<in> set (ring_of s1)" and hit: "is_hit ?b ?u (bufs s1 p)"
    using ok1 h1 by (auto simp: cache_ok_def holds_def)
  have old: "block_ok D U M s1 (bufs s1 p)" using cache_invD(6) [OF inv pr] hit by (simp add: is_hit_iff)
  have fb: "valid b'" "\<not> is_fat b'" "dirty b' \<longleftrightarrow> news \<or> dirty (bufs s1 p)"
    by (auto simp: b'_def fl_def valid_def is_fat_def dirty_def bit_simps)
  have same: "\<not> news \<Longrightarrow> b_buffer b' = b_buffer (bufs s1 p)" by (simp add: b'_def news_def fputlong_same)
  have b'f: "b_unit b' = b_unit (bufs s1 p)" "b_blkno b' = b_blkno (bufs s1 p)" "b_next b' = b_next (bufs s1 p)" "b_prev b' = b_prev (bufs s1 p)"
    by (simp_all add: b'_def)
  have new: "block_ok D U M s1 b'" using old fb same b'f by (auto simp: block_ok_def)
  note H = put_here [OF inv pr hit b'f(3,4,1,2) fb(1) new]
  let ?t = "s1\<lparr>bufs := (bufs s1)(p := b')\<rparr>"
  have "content D ?t u b = content D s u b" if "usable U M u b" "\<not> fsinfo_block s dpbp u b" for u b
    using that H(2) [of u b] contentI [OF H(1)] t1 [OF that(1)] t False by (auto simp: usable_def content_def fsinfo_block_def)
  then show thesis using that [of ?t] w cache_okI [OF H(1)] cache_step_trans [OF c1 H(4)] by simp
qed

section \<open>The count of free clusters\<close>

definition free_field :: "dpb \<Rightarrow> u32" where
  "free_field d = (if ISFAT32 d then dpb_xnfreeclst d else ucast (dpb_nfreeclst d))"

definition free_unknown :: "dpb \<Rightarrow> bool" where
  "free_unknown d \<longleftrightarrow> free_field d = (if ISFAT32 d then 0xffffffff else 0xffff)"

text \<open>The count after an entry that was free or not is made free or not.\<close>

definition counted :: "dpb \<Rightarrow> bool \<Rightarrow> bool \<Rightarrow> dpb \<Rightarrow> bool" where
  "counted d was now d' \<longleftrightarrow> dpb_static d' = dpb_static d \<and> dpb_cluster d' = dpb_cluster d \<and> dpb_xcluster d' = dpb_xcluster d \<and>
     (if free_unknown d then free_unknown d'
      else if was \<and> \<not> now then 0 < unat (free_field d) \<longrightarrow> unat (free_field d') = unat (free_field d) - 1
      else if \<not> was \<and> now then unat (free_field d) + 1 < 65536 \<or> ISFAT32 d \<longrightarrow> unat (free_field d') = unat (free_field d) + 1
      else free_field d' = free_field d)"

lemma dpb_nfreeclst_set [simp]: "dpb_nfreeclst (set_nfreeclst n d) = n"
proof -
  have a: "(0xffff0000 :: u32) = NOT (mask 16)" by (simp add: mask_eq_exp_minus_1)
  have "\<not> bit (0xffff0000 :: u32) i" if "i < 16" for i unfolding a bit_not_iff bit_mask_iff using that by simp
  then show ?thesis unfolding dpb_nfreeclst_def set_nfreeclst_def
    by (auto intro!: bit_word_eqI simp: bit_simps)
qed

lemma set_nfreeclst_static [simp]: "dpb_static (set_nfreeclst n d) = dpb_static d"
  by (simp add: dpb_static_def set_nfreeclst_def)

lemma set_nfreeclst_hints [simp]: "dpb_cluster (set_nfreeclst n d) = dpb_cluster d" "dpb_xcluster (set_nfreeclst n d) = dpb_xcluster d"
  by (simp_all add: set_nfreeclst_def)

lemma isfat_static: "dpb_static d = dpb_static d' \<Longrightarrow> ISFAT32 d = ISFAT32 d'"
  by (rule fat_static(3))

lemma unat_dec: "x \<noteq> 0 \<Longrightarrow> unat (x + (- 1) :: 'a::len word) = unat x - 1"
  using unat_minus_one [of x] by simp

lemma counted16:
  assumes "\<not> ISFAT32 d" "dpb_nfreeclst d \<noteq> 0xffff" "was \<or> now"
  shows "counted d was now (set_nfreeclst (dpb_nfreeclst d + ucast (if \<not> was then 1 else if \<not> now then - 1 else 0 :: u32)) d)"
proof -
  have n: "\<not> free_unknown d" using assms(1,2) unat_ucast_u32 [of "dpb_nfreeclst d"]
    by (auto simp: free_unknown_def free_field_def word_unat_eq_iff)
  have "\<not> ISFAT32 (set_nfreeclst n d)" for n using isfat_static [OF set_nfreeclst_static, of n d] assms(1) by simp
  moreover have "ucast (- 1 :: u32) = (- 1 :: u16)" by (rule bit_word_eqI) (simp add: bit_simps)
  moreover have "unat (dpb_nfreeclst d + 1) = unat (dpb_nfreeclst d) + 1" if "unat (dpb_nfreeclst d) + 1 < 65536"
    using that unat_u16_add [of "dpb_nfreeclst d" 1] by simp
  ultimately show ?thesis using n assms unat_dec [of "dpb_nfreeclst d"]
    by (auto simp: counted_def free_field_def unat_ucast_u32 unat_gt_0)
qed

lemma counted32:
  assumes "ISFAT32 d" "dpb_xnfreeclst d \<noteq> 0xffffffff" "was \<or> now"
  shows "counted d was now (d\<lparr>dpb_xnfreeclst := dpb_xnfreeclst d + (if \<not> was then 1 else if \<not> now then - 1 else 0)\<rparr>)"
proof -
  have n: "\<not> free_unknown d" using assms(1,2) by (simp add: free_unknown_def free_field_def)
  have st: "dpb_static (d\<lparr>dpb_xnfreeclst := x\<rparr>) = dpb_static d" for x by (simp add: dpb_static_def)
  have "ISFAT32 (d\<lparr>dpb_xnfreeclst := x\<rparr>)" for x using isfat_static [OF st, of x] assms(1) by simp
  moreover have "dpb_xnfreeclst d + 1 \<noteq> 0"
  proof
    assume "dpb_xnfreeclst d + 1 = 0"
    then have "dpb_xnfreeclst d = - 1" by (simp add: eq_neg_iff_add_eq_0)
    then show False using assms(2) by simp
  qed
  then have "unat (dpb_xnfreeclst d + 1) = unat (dpb_xnfreeclst d) + 1" using unatSuc [of "dpb_xnfreeclst d"] by (simp add: add.commute)
  ultimately show ?thesis using n assms unat_dec [of "dpb_xnfreeclst d"]
    by (auto simp: counted_def free_field_def st unat_gt_0)
qed

lemma counted_same: "\<not> was \<and> \<not> now \<Longrightarrow> counted d was now d" "free_unknown d \<Longrightarrow> counted d was now d"
  by (auto simp: counted_def)

lemma link_done_ok:
  assumes t: "t = upd_buf bp (\<lambda>b. b\<lparr>b_flag := b_flag b OR (BFR_DIRTY OR BFR_VALID)\<rparr>) s"
    and ok: "cache_ok P D U M t" and v: "volume U M t dpbp"
  obtains s' where "link_done P dpbp c was bp s = Some (0, s')" "cache_ok P D U M s'" "fs_step t s'"
    "\<And>u b. usable U M u b \<Longrightarrow> \<not> fsinfo_block t dpbp u b \<Longrightarrow> content D s' u b = content D t u b"
    "counted (dpbs t dpbp) was (c = 0) (dpbs s' dpbp)"
proof -
  let ?d = "dpbs t dpbp"
  let ?a = "(if \<not> was then 1 else if c \<noteq> 0 then - 1 else 0) :: u32"
  have L: "link_done P dpbp c was bp s =
      (if c = 0 \<or> was then
         if ISFAT32 ?d \<and> dpb_xnfreeclst ?d \<noteq> XUNKNCLSTFREE then
           do { s2 \<leftarrow> write_fsinfo P dpbp (upd_dpb dpbp (\<lambda>d. d\<lparr>dpb_xnfreeclst := dpb_xnfreeclst d + ?a\<rparr>) t); Some (0, s2) }
         else if dpb_nfreeclst ?d \<noteq> UNKNCLSTFREE then Some (0, upd_dpb dpbp (\<lambda>d. set_nfreeclst (dpb_nfreeclst d + ucast ?a) d) t)
         else Some (0, t)
       else Some (0, t))"
    unfolding link_done_def Let_def t [symmetric] by simp
  consider (none) "\<not> (c = 0 \<or> was)" | (f32) "c = 0 \<or> was" "ISFAT32 ?d" "dpb_xnfreeclst ?d \<noteq> XUNKNCLSTFREE"
    | (u32) "c = 0 \<or> was" "ISFAT32 ?d" "dpb_xnfreeclst ?d = XUNKNCLSTFREE"
    | (f16) "c = 0 \<or> was" "\<not> ISFAT32 ?d" "dpb_nfreeclst ?d \<noteq> UNKNCLSTFREE"
    | (u16) "c = 0 \<or> was" "\<not> ISFAT32 ?d" "dpb_nfreeclst ?d = UNKNCLSTFREE" by blast
  then show thesis
  proof cases
    case none
    then have "counted ?d was (c = 0) ?d" by (intro counted_same(1)) auto
    then show thesis using that [of t] L none ok by simp
  next
    case f32
    let ?t = "upd_dpb dpbp (\<lambda>d. d\<lparr>dpb_xnfreeclst := dpb_xnfreeclst d + ?a\<rparr>) t"
    have st: "dpb_static (?d\<lparr>dpb_xnfreeclst := dpb_xnfreeclst ?d + ?a\<rparr>) = dpb_static ?d" by (simp add: dpb_static_def)
    have fs: "fs_step t ?t" by (rule fs_step_dpb) (rule st)
    have "\<And>p. dpb_static (((dpbs t)(dpbp := ?d\<lparr>dpb_xnfreeclst := dpb_xnfreeclst ?d + ?a\<rparr>)) p) = dpb_static (dpbs t p)" using st by simp
    note O = cache_ok_dpbs [OF ok this]
    have vt: "volume U M ?t dpbp" "vol_unit ?t dpbp = vol_unit t dpbp" using volume_fs_step [OF fs] v by simp_all
    have t32: "ISFAT32 (dpbs ?t dpbp)" using isfat_static [OF st] f32(2) by simp
    obtain s' where w: "write_fsinfo P dpbp ?t = Some s'" and ok': "cache_ok P D U M s'" and cs: "cache_step ?t s'"
        and ct: "\<And>u b. usable U M u b \<Longrightarrow> \<not> fsinfo_block ?t dpbp u b \<Longrightarrow> content D s' u b = content D ?t u b"
      by (rule write_fsinfo_ok [OF O(1) vt(1) t32], rule that, assumption+)
    have "fsinfo_block ?t dpbp = fsinfo_block t dpbp"
      using t32 f32(2) vt(2) by (simp add: fsinfo_block_def fun_eq_iff)
    moreover have "counted ?d was (c = 0) (dpbs s' dpbp)"
    proof -
      have e: "dpbs s' dpbp = ?d\<lparr>dpb_xnfreeclst := dpb_xnfreeclst ?d + ?a\<rparr>" unfolding cache_step_same(1) [OF cs] by simp
      have "was \<or> c = 0" using f32(1) by blast
      then show ?thesis unfolding e by (rule counted32 [OF f32(2,3)])
    qed
    moreover have "fs_step t s'" using fs cache_step_fs [OF cs] by (rule fs_step_trans)
    moreover have "link_done P dpbp c was bp s = Some (0, s')" unfolding L using f32 w by simp
    ultimately show thesis using that [of s'] ok' ct O(2) by simp
  next
    case u32
    then have "dpb_nfreeclst ?d = 0xffff" by (simp add: dpb_nfreeclst_def)
    moreover have "counted ?d was (c = 0) ?d" using u32 by (intro counted_same(2)) (simp add: free_unknown_def free_field_def)
    ultimately show thesis using that [of t] L u32 ok by simp
  next
    case f16
    let ?t = "upd_dpb dpbp (\<lambda>d. set_nfreeclst (dpb_nfreeclst d + ucast ?a) d) t"
    have fs: "fs_step t ?t" by (rule fs_step_dpb) simp
    have "\<And>p. dpb_static (((dpbs t)(dpbp := set_nfreeclst (dpb_nfreeclst ?d + ucast ?a) ?d)) p) = dpb_static (dpbs t p)" by simp
    note O = cache_ok_dpbs [OF ok this]
    have "was \<or> c = 0" using f16(1) by blast
    then have "counted ?d was (c = 0) (set_nfreeclst (dpb_nfreeclst ?d + ucast ?a) ?d)" by (rule counted16 [OF f16(2,3)])
    moreover have e: "dpbs ?t dpbp = set_nfreeclst (dpb_nfreeclst ?d + ucast ?a) ?d" by simp
    ultimately have "counted ?d was (c = 0) (dpbs ?t dpbp)" unfolding e by blast
    moreover have "link_done P dpbp c was bp s = Some (0, ?t)" unfolding L using f16 by simp
    ultimately show thesis using that [of ?t] O fs by simp
  next
    case u16
    then have "counted ?d was (c = 0) ?d"
      by (intro counted_same(2)) (simp add: free_unknown_def free_field_def)
    then show thesis using that [of t] L u16 ok by simp
  qed
qed

section \<open>Writing\<close>

lemma holds_put_other:
  assumes "cache_ok P D U M s" "holds s p u b" "holds s q u' b'" "q \<noteq> p"
  shows "holds (put_data p d s) q u' b'" "b_buffer (bufs (put_data p d s) q) = b_buffer (bufs s q)"
proof -
  have "ring_of (put_data p d s) = ring_of s"
    using put_data_inv(1) [of P D U M s "ring_of s" p b u d] assms(1,2) cache_inv_ring by (auto simp: cache_ok_def holds_def)
  then show "holds (put_data p d s) q u' b'" using assms(3,4) by (simp add: holds_def put_data_def)
  show "b_buffer (bufs (put_data p d s) q) = b_buffer (bufs s q)" using assms(4) by (simp add: put_data_def)
qed

lemma put_bytes:
  assumes ok: "cache_ok P D U M s" and v: "volume U M s dpbp" and k: "k < fat_blocks (dpbs s dpbp)"
    and h: "holds s p (vol_unit s dpbp) (fat_base (dpbs s dpbp) + of_nat k)" and i: "i < fat_len (dpbs s dpbp)"
  shows "fat_bytes D (put_data p d s) dpbp i = (if i div 512 = k then d (i mod 512) else fat_bytes D s dpbp i)"
proof -
  let ?d = "dpbs s dpbp"
  note W = store_block [OF ok h, where d = d]
  have ib: "i div 512 < fat_blocks ?d" by (rule fat_block_less [OF i])
  have "content D (put_data p d s) (vol_unit s dpbp) (fat_base ?d + of_nat (i div 512)) =
      (if i div 512 = k then sector d else content D s (vol_unit s dpbp) (fat_base ?d + of_nat (i div 512)))"
    using W(4) [OF volumeD(5) [OF v ib]] fat_block_inj [OF ib k] by simp
  then show ?thesis unfolding fat_bytes_def volume_step(2) [OF v W(3)] cache_step_same(1) [OF W(3)]
    by (simp add: sector_def)
qed

lemma fputword_block:
  assumes "\<And>i. i < 512 \<Longrightarrow> buf i = F (512 * k + i)" "j + 1 < 512"
  shows "(if i div 512 = k then fputword buf j v (i mod 512) else F i) = fputword F (512 * k + j) v i"
proof (cases "i div 512 = k")
  case True
  define m where "m = i mod 512"
  have "i = 512 * k + m" "m < 512" using True by (auto simp: m_def)
  then show ?thesis using assms True by (simp add: fputword_def flip: m_def)
next
  case False
  then have "i \<noteq> 512 * k + j" "i \<noteq> 512 * k + j + 1" using assms(2) by auto
  then show ?thesis using False by (simp add: fputword_def)
qed

lemma fputword_block_at:
  assumes "\<And>i. i < 512 \<Longrightarrow> buf i = F (512 * k + i)" "j + 1 < 512" "i < 512"
  shows "fputword buf j v i = fputword F (512 * k + j) v (512 * k + i)"
  using fputword_block [of buf F k j "512 * k + i" v, OF assms(1,2)] assms(3) by simp

lemma fputlong_block:
  assumes "\<And>i. i < 512 \<Longrightarrow> buf i = F (512 * k + i)" "j + 3 < 512"
  shows "(if i div 512 = k then fputlong buf j v (i mod 512) else F i) = fputlong F (512 * k + j) v i"
proof -
  let ?buf = "fputword buf j (ucast v)" and ?F = "fputword F (512 * k + j) (ucast v)"
  have a: "\<And>i. i < 512 \<Longrightarrow> ?buf i = ?F (512 * k + i)" by (rule fputword_block_at [of buf F k j _ "ucast v", OF assms(1)]) (use assms(2) in simp_all)
  have "(if i div 512 = k then fputword ?buf (j + 2) (ucast (drop_bit 16 v)) (i mod 512) else ?F i) =
      fputword ?F (512 * k + (j + 2)) (ucast (drop_bit 16 v)) i"
    by (rule fputword_block [of ?buf ?F k "j + 2" i, OF a]) (use assms(2) in simp_all)
  moreover have "i div 512 \<noteq> k \<Longrightarrow> ?F i = F i"
    using fputword_block [of buf F k j i "ucast v", OF assms(1)] assms(2) by simp
  ultimately show ?thesis by (simp add: fputlong_def add.assoc split: if_splits)
qed

definition fat_value :: "dpb \<Rightarrow> u32 \<Rightarrow> bool" where
  "fat_value d v \<longleftrightarrow> v = FREE \<or> (2 \<le> v \<and> v \<le> max_cluster d) \<or> v = LONG_BAD \<or> v = LONG_LAST_CLUSTER"

definition fat_area :: "('w, 'a) kst_scheme \<Rightarrow> u32 \<Rightarrow> u16 \<Rightarrow> u32 \<Rightarrow> bool" where
  "fat_area s dpbp u b \<longleftrightarrow> fsinfo_block s dpbp u b \<or>
     (u = vol_unit s dpbp \<and> (\<exists>k < fat_blocks (dpbs s dpbp). b = fat_base (dpbs s dpbp) + of_nat k))"

lemma fat_value_ok:
  assumes "volume U M s dpbp" "fat_value (dpbs s dpbp) v"
  shows "v \<le> max_cluster (dpbs s dpbp) \<or> LONG_BAD \<le> v" "v \<noteq> 1" "\<not> ISFAT32 (dpbs s dpbp) \<Longrightarrow> (ucast v :: u16) \<noteq> 1"
proof -
  show "v \<le> max_cluster (dpbs s dpbp) \<or> LONG_BAD \<le> v" "v \<noteq> 1" using assms(2) by (auto simp: fat_value_def word_le_nat_alt)
  assume n: "\<not> ISFAT32 (dpbs s dpbp)"
  show "(ucast v :: u16) \<noteq> 1"
  proof (cases "2 \<le> v \<and> v \<le> max_cluster (dpbs s dpbp)")
    case True
    then have "unat v \<le> unat (dpb_size (dpbs s dpbp))" using n by (simp add: max_cluster_def word_le_nat_alt unat_ucast_u32)
    moreover have "unat (dpb_size (dpbs s dpbp)) < 65536" by simp
    ultimately have "unat v < 65536" by linarith
    then have "unat (ucast v :: u16) = unat v" by (simp add: unat_ucast_u16)
    then show ?thesis using True by (auto simp: word_unat_eq_iff word_le_nat_alt)
  qed (use assms(2) in \<open>auto simp: fat_value_def\<close>)
qed

definition fat_written :: "'w disk \<Rightarrow> u16 set \<Rightarrow> (u16 \<times> u32) set \<Rightarrow> u32 \<Rightarrow> u32 \<Rightarrow> u32 \<Rightarrow> ('w, 'a) kst_scheme \<Rightarrow> ('w, 'a) kst_scheme \<Rightarrow> bool" where
  "fat_written D U M dpbp c v s s' \<longleftrightarrow>
     (\<forall>c' \<le> max_cluster (dpbs s dpbp). fat D s' dpbp c' = (if c' = c then v AND fat_mask (dpbs s dpbp) else fat D s dpbp c')) \<and>
     (\<forall>u b. usable U M u b \<and> \<not> fat_area s dpbp u b \<longrightarrow> content D s' u b = content D s u b) \<and>
     counted (dpbs s dpbp) (fat D s dpbp c = 0) (v = 0) (dpbs s' dpbp)"

lemma fsinfo_not_fat:
  assumes "volume U M s dpbp" "k < fat_blocks (dpbs s dpbp)"
  shows "\<not> fsinfo_block s dpbp (vol_unit s dpbp) (fat_base (dpbs s dpbp) + of_nat k)"
  using assms by (auto simp: volume_def Let_def fsinfo_block_def)

lemma link_finish:
  assumes v: "volume U M s dpbp" and c: "c \<le> max_cluster (dpbs s dpbp)" and ok: "cache_ok P D U M t" and cs: "cache_step s t"
    and bt: "\<And>i. i < fat_len (dpbs s dpbp) \<Longrightarrow> fat_bytes D t dpbp i = fat_put (dpbs s dpbp) (fat_bytes D s dpbp) c x i"
    and ct: "\<And>u b. usable U M u b \<Longrightarrow> \<not> fat_area s dpbp u b \<Longrightarrow> content D t u b = content D s u b"
    and t: "t = upd_buf bp (\<lambda>b. b\<lparr>b_flag := b_flag b OR (BFR_DIRTY OR BFR_VALID)\<rparr>) r"
    and was: "was = (fat D s dpbp c = 0)"
  obtains s' where "link_done P dpbp x was bp r = Some (0, s')" "cache_ok P D U M s'" "fs_step s s'" "fat_written D U M dpbp c x s s'"
proof -
  let ?d = "dpbs s dpbp" and ?F = "fat_bytes D s dpbp"
  note vt = volume_step [OF v cs] and dt = cache_step_same(1) [OF cs]
  obtain s' where L: "link_done P dpbp x was bp r = Some (0, s')" and ok': "cache_ok P D U M s'" and fs: "fs_step t s'"
      and ct': "\<And>u b. usable U M u b \<Longrightarrow> \<not> fsinfo_block t dpbp u b \<Longrightarrow> content D s' u b = content D t u b"
      and cn: "counted (dpbs t dpbp) was (x = 0) (dpbs s' dpbp)"
    by (rule link_done_ok [OF t ok vt(1)], rule that, assumption+)
  have fi: "fsinfo_block t dpbp = fsinfo_block s dpbp" by (simp add: fsinfo_block_def fun_eq_iff dt vt(2))
  have st: "dpb_static (dpbs s' dpbp) = dpb_static ?d" using fs_step_same(1) [OF fs] dt by simp
  have "fat_bytes D s' dpbp i = fat_bytes D t dpbp i" if "i < fat_len ?d" for i
  proof (rule fat_bytes_cong)
    show "vol_unit s' dpbp = vol_unit t dpbp" by (rule volume_fs_step(2) [OF fs])
    show "dpb_static (dpbs s' dpbp) = dpb_static (dpbs t dpbp)" by (rule fs_step_same(1) [OF fs])
    show "i < fat_len (dpbs t dpbp)" using that dt by simp
    fix k assume k: "k < fat_blocks (dpbs t dpbp)"
    show "content D s' (vol_unit t dpbp) (fat_base (dpbs t dpbp) + of_nat k) = content D t (vol_unit t dpbp) (fat_base (dpbs t dpbp) + of_nat k)"
      by (rule ct' [OF volumeD(5) [OF vt(1) k] fsinfo_not_fat [OF vt(1) k]])
  qed
  then have "fat_get ?d (fat_bytes D s' dpbp) c' = fat_get ?d (fat_put ?d ?F c x) c'" if "c' \<le> max_cluster ?d" for c'
    using bt by (intro fat_get_cong [OF v that]) simp
  then have "fat D s' dpbp c' = (if c' = c then x AND fat_mask ?d else fat D s dpbp c')" if "c' \<le> max_cluster ?d" for c'
    using that unfolding fat_def fat_static(12) [OF st] by (simp add: fat_get_put_same fat_get_put_other)
  moreover have "content D s' u b = content D s u b" if "usable U M u b" "\<not> fat_area s dpbp u b" for u b
    using ct [OF that] ct' [OF that(1)] that(2) fi by (simp add: fat_area_def)
  moreover have "counted ?d (fat D s dpbp c = 0) (x = 0) (dpbs s' dpbp)" using cn was dt by simp
  ultimately have "fat_written D U M dpbp c x s s'" unfolding fat_written_def by blast
  then show thesis using that [of s'] L ok' fs_step_trans [OF cache_step_fs [OF cs] fs] by simp
qed

text \<open>One buffer is changed.\<close>

lemma put_one:
  assumes v: "volume U M s dpbp" and ok1: "cache_ok P D U M s1" and c1: "cache_step s s1"
    and t1: "\<forall>u b. usable U M u b \<longrightarrow> content D s1 u b = content D s u b" and k: "k < fat_blocks (dpbs s dpbp)"
    and h: "holds s1 p (vol_unit s dpbp) (fat_base (dpbs s dpbp) + of_nat k)"
  shows "cache_ok P D U M (put_data p d s1)" "cache_step s (put_data p d s1)"
    "usable U M u b \<Longrightarrow> \<not> fat_area s dpbp u b \<Longrightarrow> content D (put_data p d s1) u b = content D s u b"
    "i < fat_len (dpbs s dpbp) \<Longrightarrow> fat_bytes D (put_data p d s1) dpbp i = (if i div 512 = k then d (i mod 512) else fat_bytes D s1 dpbp i)"
proof -
  note W = store_block [OF ok1 h, where d = d] and vs = volume_step [OF v c1] and d1 = cache_step_same(1) [OF c1]
  show "cache_ok P D U M (put_data p d s1)" by (rule W(1))
  show "cache_step s (put_data p d s1)" by (rule cache_step_trans [OF c1 W(3)])
  show "content D (put_data p d s1) u b = content D s u b" if "usable U M u b" "\<not> fat_area s dpbp u b"
    using W(4) [OF that(1)] t1 that(1) that(2) k by (auto simp: fat_area_def)
  show "fat_bytes D (put_data p d s1) dpbp i = (if i div 512 = k then d (i mod 512) else fat_bytes D s1 dpbp i)" if "i < fat_len (dpbs s dpbp)"
    by (rule put_bytes [OF ok1 vs(1)]) (use k h that d1 vs(2) in simp_all)
qed

lemma put_data_steps:
  "put_data p d s = upd_buf p (\<lambda>b. b\<lparr>b_flag := b_flag b OR (BFR_DIRTY OR BFR_VALID)\<rparr>) (upd_buf p (\<lambda>b. b\<lparr>b_buffer := d\<rparr>) s)"
  by (simp add: put_data_def)

lemma put_data_two:
  assumes "p \<noteq> q"
  shows "put_data p d (put_data q e s) =
    upd_buf p (\<lambda>b. b\<lparr>b_flag := b_flag b OR (BFR_DIRTY OR BFR_VALID)\<rparr>)
      (upd_buf q (\<lambda>b. b\<lparr>b_buffer := e\<rparr>) (upd_buf p (\<lambda>b. b\<lparr>b_buffer := d\<rparr>)
        (upd_buf q (\<lambda>b. b\<lparr>b_flag := b_flag b OR (BFR_DIRTY OR BFR_VALID)\<rparr>) s)))"
proof -
  have "bufs (put_data p d (put_data q e s)) = bufs (upd_buf p (\<lambda>b. b\<lparr>b_flag := b_flag b OR (BFR_DIRTY OR BFR_VALID)\<rparr>)
      (upd_buf q (\<lambda>b. b\<lparr>b_buffer := e\<rparr>) (upd_buf p (\<lambda>b. b\<lparr>b_buffer := d\<rparr>)
        (upd_buf q (\<lambda>b. b\<lparr>b_flag := b_flag b OR (BFR_DIRTY OR BFR_VALID)\<rparr>) s))))"
    using assms by (auto simp: put_data_def fun_eq_iff)
  then show ?thesis by (simp add: put_data_def)
qed

lemma link_fat12_write:
  assumes ok: "cache_ok P D U M s" and v: "volume U M s dpbp" and c: "2 \<le> c" "c \<le> max_cluster (dpbs s dpbp)"
    and x: "fat_value (dpbs s dpbp) x" and t12: "ISFAT12 (dpbs s dpbp)"
    and ok1: "cache_ok P D U M s1" and c1: "cache_step s s1" and t1: "\<And>u b. usable U M u b \<Longrightarrow> content D s1 u b = content D s u b"
    and h1: "holds s1 bp (vol_unit s dpbp) (fat_base (dpbs s dpbp) + of_nat (fat_pos (dpbs s dpbp) c div 512))"
    and f1: "firstbuf s1 = bp" and n1: "\<not> uncached (bufs s1) bp"
  obtains s' where "link_fat12 P dpbp c x (fat_sector (dpbs s dpbp) c) (fat_idx (dpbs s dpbp) c) bp s1 = Some (0, s')"
    "cache_ok P D U M s'" "fs_step s s'" "fat_written D U M dpbp c x s s'"
proof -
  let ?d = "dpbs s dpbp" and ?i = "fat_pos (dpbs s dpbp) c"
  note vs = volume_step [OF v c1] and d1 = cache_step_same(1) [OF c1]
  have n32: "\<not> ISFAT32 ?d" using volume_type [OF v] t12 by simp
  have len: "?i + 1 < fat_len ?d" using fat_pos_len [OF v c(2)] n32 by simp
  have c': "c \<le> max_cluster (dpbs s1 dpbp)" and t': "ISFAT12 (dpbs s1 dpbp)" using c t12 d1 by simp_all
  have h1': "holds s1 bp (vol_unit s1 dpbp) (fat_base ?d + of_nat (?i div 512))" using h1 vs(2) by simp
  obtain bp1 s2 where
      e: "(if fat_idx ?d c div 2 \<ge> dpb_secsize ?d - 1
        then getFATblock P dpbp (ucast (ucast (fat_sector ?d c) + 1 :: u16)) s1 else Some (Some bp, s1)) = Some (Some bp1, s2)"
      and ok2: "cache_ok P D U M s2" and c2: "cache_step s1 s2" and t2: "\<And>u b. usable U M u b \<Longrightarrow> content D s2 u b = content D s1 u b"
      and h: "holds s2 bp (vol_unit s1 dpbp) (fat_base ?d + of_nat (?i div 512))"
      and h': "holds s2 bp1 (vol_unit s1 dpbp) (fat_base ?d + of_nat ((?i + 1) div 512))"
      and ne: "bp1 = bp \<longleftrightarrow> ?i mod 512 \<noteq> 511"
    by (rule fat12_fetch [OF ok1 vs(1) c' t' _ f1 n1, unfolded d1, OF h1'], rule that, assumption+)
  note d2 = cache_step_same(1) [OF c2]
  have c02: "cache_step s s2" by (rule cache_step_trans [OF c1 c2])
  have t02: "\<And>u b. usable U M u b \<Longrightarrow> content D s2 u b = content D s u b" using t1 t2 by simp
  have T02: "\<forall>u b. usable U M u b \<longrightarrow> content D s2 u b = content D s u b" using t02 by blast
  have u2: "vol_unit s2 dpbp = vol_unit s dpbp" by (rule volume_step(2) [OF v c02])
  have F2: "fat_bytes D s2 dpbp i = fat_bytes D s dpbp i" if "i < fat_len ?d" for i by (rule fat_bytes_step [OF v c02 t02 that])
  note h = h [unfolded vs(2)] and h' = h' [unfolded vs(2)]
  have ix: "unat (fat_idx ?d c div 2) = ?i mod 512" by (rule fat12_idx(1) [OF v c(2) t12])
  note sp = fat12_idx(2) [OF v c(2) t12]
  define lo where "lo = b_buffer (bufs s2 bp)"
  define hi where "hi = b_buffer (bufs s2 bp1)"
  have lo: "lo (?i mod 512) = fat_bytes D s dpbp ?i"
    unfolding lo_def using buffer_at [OF ok2, of bp dpbp ?i] h u2 d2 d1 F2 [of ?i] len by simp
  have hi: "hi ((?i + 1) mod 512) = fat_bytes D s dpbp (?i + 1)"
    unfolding hi_def using buffer_at [OF ok2, of bp1 dpbp "?i + 1"] h' u2 d2 d1 F2 [of "?i + 1"] len by simp
  define w where "w = fgetword (fat_bytes D s dpbp) ?i"
  define w' where "w' = pack12 c x w"
  have weq: "ucast (lo (?i mod 512)) OR push_bit 8 (ucast (hi ((?i + 1) mod 512))) = w"
    unfolding w_def by (rule fgetword_two [of lo ?i "fat_bytes D s dpbp" hi, OF lo hi])
  have was: "(entry12 c w = 0) = (fat D s dpbp c = 0)"
  proof -
    have "fat D s dpbp c = ucast (entry12 c w)" using t12 by (simp add: fat_def fat_get_def w_def fat_pos_def)
    then show ?thesis using unat_ucast_u32 [of "entry12 c w"] by (simp add: word_unat_eq_iff)
  qed
  have put: "fat_put ?d (fat_bytes D s dpbp) c x = fputword (fat_bytes D s dpbp) ?i w'"
    using t12 by (simp add: fat_put_def w'_def w_def fat_pos_def)
  have x1: "(ucast x :: u16) \<noteq> 1" "x \<noteq> 1" using fat_value_ok [OF v x] n32 by simp_all
  have k: "?i div 512 < fat_blocks ?d" "(?i + 1) div 512 < fat_blocks ?d" using fat_block_less [of ?i ?d] fat_block_less [of "?i + 1" ?d] len by simp_all
  show thesis
  proof (cases "?i mod 512 = 511")
    case False
    then have bb: "bp1 = bp" and j: "(?i + 1) mod 512 = ?i mod 512 + 1" "?i mod 512 + 1 < 512" using ne by (auto simp: mod_Suc)
    let ?t = "put_data bp (fputword lo (?i mod 512) w') s2"
    let ?r = "upd_buf bp (\<lambda>b. b\<lparr>b_buffer := fputword lo (?i mod 512) w'\<rparr>) s2"
    have L: "link_fat12 P dpbp c x (fat_sector ?d c) (fat_idx ?d c) bp s1 = link_done P dpbp x (entry12 c w = 0) bp ?r"
      using e sp False bb x1 ix weq j unfolding link_fat12_def Let_def d1 lo_def hi_def
      by (simp add: w'_def fputword_def)
    note O = put_one [OF v ok2 c02 T02 k(1) h, where d = "fputword lo (?i mod 512) w'"]
    have "lo i = fat_bytes D s2 dpbp (512 * (?i div 512) + i)" if "i < 512" for i
      unfolding lo_def using buffer_bytes [OF ok2, of bp dpbp "?i div 512" i] h u2 d2 d1 that by simp
    then have "fat_bytes D ?t dpbp i = fputword (fat_bytes D s2 dpbp) ?i w' i" if "i < fat_len ?d" for i
      using O(4) [OF that] fputword_block [of lo "fat_bytes D s2 dpbp" "?i div 512" "?i mod 512" i w'] j by simp
    then have bt: "fat_bytes D ?t dpbp i = fat_put ?d (fat_bytes D s dpbp) c x i" if "i < fat_len ?d" for i
      using that F2 unfolding put by (simp add: fputword_def)
    show thesis
      by (rule link_finish [OF v c(2) O(1,2) bt O(3) put_data_steps was], assumption+) (use that L in auto)
  next
    case True
    then have bb: "bp \<noteq> bp1" and j: "(?i + 1) mod 512 = 0" "(?i + 1) div 512 = ?i div 512 + 1" using ne by (auto simp: mod_Suc div_Suc)
    let ?s3 = "put_data bp1 (hi(0 := ucast (drop_bit 8 w'))) s2"
    let ?t = "put_data bp (lo(511 := ucast w')) ?s3"
    let ?r = "upd_buf bp1 (\<lambda>b. b\<lparr>b_buffer := hi(0 := ucast (drop_bit 8 w'))\<rparr>) (upd_buf bp (\<lambda>b. b\<lparr>b_buffer := lo(511 := ucast w')\<rparr>)
        (upd_buf bp1 (\<lambda>b. b\<lparr>b_flag := b_flag b OR (BFR_DIRTY OR BFR_VALID)\<rparr>) s2))"
    have L: "link_fat12 P dpbp c x (fat_sector ?d c) (fat_idx ?d c) bp s1 = link_done P dpbp x (entry12 c w = 0) bp ?r"
      using e sp True bb x1 ix weq j unfolding link_fat12_def Let_def d1 lo_def hi_def
      by (simp add: w'_def)
    note O = put_one [OF v ok2 c02 T02 k(2) h', where d = "hi(0 := ucast (drop_bit 8 w'))"]
    note H3 = holds_put_other [OF ok2 h' h bb, where d = "hi(0 := ucast (drop_bit 8 w'))"]
    have ct3: "content D ?t u b = content D s u b" if "usable U M u b" "\<not> fat_area s dpbp u b" for u b
      using store_block(4) [OF O(1) H3(1) that(1)] O(3) [OF that] that(2) k(1) by (auto simp: fat_area_def)
    note W = store_block [OF O(1) H3(1), where d = "lo(511 := ucast w')"]
    have v3: "volume U M ?s3 dpbp" "vol_unit ?s3 dpbp = vol_unit s dpbp" by (rule volume_step [OF v O(2)])+
    have d3: "dpbs ?s3 = dpbs s" by (rule cache_step_same(1) [OF O(2)])
    have bt: "fat_bytes D ?t dpbp i = fat_put ?d (fat_bytes D s dpbp) c x i" if "i < fat_len ?d" for i
    proof -
      have a: "fat_bytes D ?t dpbp i = (if i div 512 = ?i div 512 then (lo(511 := ucast w')) (i mod 512) else fat_bytes D ?s3 dpbp i)"
        by (rule put_bytes [OF O(1) v3(1)]) (use k H3(1) that d3 v3(2) in simp_all)
      have b: "lo (i mod 512) = fat_bytes D s dpbp i" if "i div 512 = ?i div 512"
        unfolding lo_def using buffer_at [OF ok2, of bp dpbp i] that h u2 d2 d1 F2 [OF \<open>i < fat_len ?d\<close>] by simp
      have b': "hi (i mod 512) = fat_bytes D s dpbp i" if "i div 512 = (?i + 1) div 512"
        unfolding hi_def using buffer_at [OF ok2, of bp1 dpbp i] that h' u2 d2 d1 F2 [OF \<open>i < fat_len ?d\<close>] by simp
      have m: "i div 512 = ?i div 512 \<and> i mod 512 = 511 \<longleftrightarrow> i = ?i" "i div 512 = (?i + 1) div 512 \<and> i mod 512 = 0 \<longleftrightarrow> i = ?i + 1"
        using True j by (metis div_mult_mod_eq)+
      show ?thesis using a b b' m O(4) [OF that] F2 [OF that] j(2) unfolding put fputword_def by auto
    qed
    show thesis
      by (rule link_finish [OF v c(2) W(1) cache_step_trans [OF O(2) W(3)] bt ct3 put_data_two [OF bb] was], assumption+) (use that L in auto)
  qed
qed

lemma link_fat_write:
  assumes ok: "cache_ok P D U M s" and v: "volume U M s dpbp" and c: "2 \<le> c" "c \<le> max_cluster (dpbs s dpbp)"
    and x: "fat_value (dpbs s dpbp) x"
  obtains s' where "link_fat P dpbp c x s = Some (0, s')" "cache_ok P D U M s'" "fs_step s s'" "fat_written D U M dpbp c x s s'"
proof -
  let ?d = "dpbs s dpbp" and ?i = "fat_pos (dpbs s dpbp) c" and ?F = "fat_bytes D s dpbp"
  obtain bp s1 where g: "getFATblock P dpbp (fat_sector ?d c) s = Some (Some bp, s1)" and ok1: "cache_ok P D U M s1" and c1: "cache_step s s1"
      and h1: "holds s1 bp (vol_unit s dpbp) (fat_base ?d + of_nat (?i div 512))"
      and t1: "\<And>u b. usable U M u b \<Longrightarrow> content D s1 u b = content D s u b" and f1: "firstbuf s1 = bp" and n1: "\<not> uncached (bufs s1) bp"
    by (rule fat_first_sector [OF ok v c(2)], rule that, assumption+)
  note E = link_fat_enter [OF c fat_value_ok(1) [OF v x] g] and d1 = cache_step_same(1) [OF c1] and u1 = volume_step(2) [OF v c1]
  have T1: "\<forall>u b. usable U M u b \<longrightarrow> content D s1 u b = content D s u b" using t1 by blast
  have "?i < fat_len ?d" using fat_pos_len [OF v c(2)] by (simp split: if_splits)
  then have k: "?i div 512 < fat_blocks ?d" by (rule fat_block_less)
  have F1: "fat_bytes D s1 dpbp i = ?F i" if "i < fat_len ?d" for i by (rule fat_bytes_step [OF v c1 t1 that])
  have lo: "b_buffer (bufs s1 bp) i = fat_bytes D s1 dpbp (512 * (?i div 512) + i)" if "i < 512" for i
    using buffer_bytes [OF ok1, of bp dpbp "?i div 512" i] h1 u1 d1 that by simp
  have h1': "holds s1 bp (vol_unit s1 dpbp) (fat_base (dpbs s1 dpbp) + of_nat (?i div 512))" using h1 u1 d1 by simp
  note O = put_one [OF v ok1 c1 T1 k h1]
  have fc: "fat D s1 dpbp c = fat D s dpbp c" by (rule fat_cong [OF v c1 t1 c(2)])
  consider (f12) "ISFAT12 ?d" | (f16) "\<not> ISFAT12 ?d" "ISFAT16 ?d" | (f32) "\<not> ISFAT12 ?d" "\<not> ISFAT16 ?d" by blast
  then show thesis
  proof cases
    case f12
    obtain s' where "link_fat12 P dpbp c x (fat_sector ?d c) (fat_idx ?d c) bp s1 = Some (0, s')"
        "cache_ok P D U M s'" "fs_step s s'" "fat_written D U M dpbp c x s s'"
      by (rule link_fat12_write [OF ok v c x f12 ok1 c1 t1 h1 f1 n1], assumption, rule that, assumption+)
    then show thesis using that [of s'] f12 unfolding E Let_def by simp
  next
    case f16
    let ?j = "unat (fat_idx ?d c) * 2"
    have j: "?j + 1 < 512" "512 * (?i div 512) + ?j = 2 * unat c" using fat_index(1) [OF v c(2) f16] by simp_all
    let ?b = "fputword (b_buffer (bufs s1 bp)) ?j (ucast x)"
    have r: "fgetword (b_buffer (bufs s1 bp)) ?j = fgetword (fat_bytes D s1 dpbp) (2 * unat c)"
      using buffer_word [OF ok1 h1' j(1)] j(2) by simp
    have was: "(fgetword (b_buffer (bufs s1 bp)) ?j = 0) = (fat D s dpbp c = 0)"
    proof -
      have "fat D s1 dpbp c = ucast (fgetword (b_buffer (bufs s1 bp)) ?j)" using f16 by (simp add: fat_def fat_get_def d1 r)
      then show ?thesis using fc unat_ucast_u32 [of "fgetword (b_buffer (bufs s1 bp)) ?j"] by (simp add: word_unat_eq_iff)
    qed
    have bt: "fat_bytes D (put_data bp ?b s1) dpbp i = fat_put ?d ?F c x i" if "i < fat_len ?d" for i
      using O(4) [OF that, where d = ?b] fputword_block [of "b_buffer (bufs s1 bp)" "fat_bytes D s1 dpbp" "?i div 512" ?j i "ucast x", OF lo j(1)]
        j(2) F1 [OF that] f16 by (simp add: fat_put_def fputword_def)
    have x1: "(ucast x :: u16) \<noteq> 1" using fat_value_ok(3) [OF v x] volume_type [OF v] f16 by simp
    show thesis
      by (rule link_finish [OF v c(2) O(1,2) bt O(3) put_data_steps was], assumption+)
        (use that f16 x1 in \<open>simp add: E Let_def\<close>)
  next
    case f32
    let ?j = "unat (fat_idx ?d c) * 4"
    have j: "?j + 3 < 512" "512 * (?i div 512) + ?j = 4 * unat c" using fat_index(2) [OF v c(2) f32] by simp_all
    let ?b = "fputlong (b_buffer (bufs s1 bp)) ?j (x AND LONG_LAST_CLUSTER)"
    have r: "fgetlong (b_buffer (bufs s1 bp)) ?j = fgetlong (fat_bytes D s1 dpbp) (4 * unat c)"
      using buffer_long [OF ok1 h1' j(1)] j(2) by simp
    have was: "(fgetlong (b_buffer (bufs s1 bp)) ?j AND LONG_LAST_CLUSTER = 0) = (fat D s dpbp c = 0)"
      using f32 fc by (simp add: fat_def fat_get_def d1 r)
    have bt: "fat_bytes D (put_data bp ?b s1) dpbp i = fat_put ?d ?F c x i" if "i < fat_len ?d" for i
      using O(4) [OF that, where d = ?b]
        fputlong_block [of "b_buffer (bufs s1 bp)" "fat_bytes D s1 dpbp" "?i div 512" ?j i "x AND LONG_LAST_CLUSTER", OF lo j(1)]
        j(2) F1 [OF that] f32 by (simp add: fat_put_def fputword_def fputlong_def)
    have t32: "ISFAT32 ?d" "x \<noteq> 1" using volume_type [OF v] f32 fat_value_ok(2) [OF v x] by simp_all
    show thesis
      by (rule link_finish [OF v c(2) O(1,2) bt O(3) put_data_steps was], assumption+)
        (use that f32 t32 in \<open>simp add: E Let_def\<close>)
  qed
qed

end
