(* ===== verification/ClockProps.thy ===== *)
theory ClockProps
  imports Clock FatSpec
begin

text \<open>
  Properties of date and time: the day count of the kernel is that of the Gregorian calendar,
  dates survive a round trip through the clock driver, and times do up to the resolution of the
  PC clock.
\<close>

section \<open>The Gregorian calendar\<close>

definition leap :: "nat \<Rightarrow> bool" where
  "leap y \<longleftrightarrow> 4 dvd y \<and> (\<not> 100 dvd y \<or> 400 dvd y)"

definition month_len :: "nat \<Rightarrow> nat \<Rightarrow> nat" where
  "month_len y m = (if m = 2 then if leap y then 29 else 28 else if m \<in> {4, 6, 9, 11} then 30 else 31)"

definition greg_date :: "nat \<Rightarrow> nat \<Rightarrow> nat \<Rightarrow> bool" where
  "greg_date y m d \<longleftrightarrow> 1980 \<le> y \<and> 1 \<le> m \<and> m \<le> 12 \<and> 1 \<le> d \<and> d \<le> month_len y m"

text \<open>Days from 1 January 1980 to a date.\<close>

definition greg_days :: "nat \<Rightarrow> nat \<Rightarrow> nat \<Rightarrow> nat" where
  "greg_days y m d = (\<Sum>k = 1980..<y. if leap k then 366 else 365) + (\<Sum>j = 1..<m. month_len y j) + (d - 1)"

text \<open>The table of the kernel, as numbers.\<close>

definition mdays :: "nat \<Rightarrow> nat \<Rightarrow> nat" where
  "mdays y m = (\<Sum>j = 1..<m. month_len y j)"

definition ystart :: "nat \<Rightarrow> nat" where
  "ystart y = (\<Sum>k = 1980..<y. if leap k then 366 else 365)"

definition ylen :: "nat \<Rightarrow> nat" where
  "ylen y = (if leap y then 366 else 365)"

lemma greg_days_alt: "greg_days y m d = ystart y + mdays y m + (d - 1)"
  by (simp add: greg_days_def ystart_def mdays_def)

lemma ystart_Suc: "1980 \<le> y \<Longrightarrow> ystart (Suc y) = ystart y + ylen y"
  by (simp add: ystart_def ylen_def)

lemma mdays_list:
  "map (mdays y) [1..<14] = (if leap y then [0, 31, 60, 91, 121, 152, 182, 213, 244, 274, 305, 335, 366]
     else [0, 31, 59, 90, 120, 151, 181, 212, 243, 273, 304, 334, 365])"
  by (simp add: mdays_def month_len_def upt_rec numeral_eq_Suc sum.atLeast_Suc_lessThan)

lemma leap_bits:
  assumes "1980 \<le> unat y" "unat y < 2200"
  shows "(y AND 3 \<noteq> 0 \<or> y = 2100) \<longleftrightarrow> \<not> leap (unat (y :: u16))"
proof -
  have "y AND 3 = take_bit 2 y" using take_bit_eq_mask [of 2 y] by (simp add: mask_eq_exp_minus_1)
  moreover have "unat (take_bit 2 y) = unat y mod 4" by (simp only: unsigned_take_bit_eq) (simp add: take_bit_eq_mod)
  ultimately have "y AND 3 = 0 \<longleftrightarrow> unat y mod 4 = 0" by (metis unat_eq_zero)
  moreover have "y = 2100 \<longleftrightarrow> unat y = 2100" by (simp add: word_unat_eq_iff)
  moreover have "leap n \<longleftrightarrow> n mod 4 = 0 \<and> n \<noteq> 2100" if "1980 \<le> n" "n < 2200" for n
  proof (cases "100 dvd n")
    case True
    then obtain k where k: "n = 100 * k" by blast
    then have "k = 20 \<or> k = 21" using that by auto
    then show ?thesis using k by (auto simp: leap_def)
  next
    case False
    moreover have "100 dvd (2100 :: nat)" by simp
    ultimately show ?thesis by (auto simp: leap_def mod_eq_0_iff_dvd)
  qed
  ultimately show ?thesis using assms by simp
qed

lemma pdays_mdays:
  assumes "1980 \<le> unat y" "unat y < 2200" "m \<le> 12"
  shows "unat (is_leap_year_monthdays y ! m) = mdays (unat y) (m + 1)"
proof -
  have eq: "map unat (is_leap_year_monthdays y) = map (mdays (unat y)) [1..<14]"
    unfolding mdays_list using leap_bits [OF assms(1,2)] by (simp add: is_leap_year_monthdays_def days_def)
  have "length (is_leap_year_monthdays y) = 13" by (simp add: is_leap_year_monthdays_def days_def)
  then have "unat (is_leap_year_monthdays y ! m) = map unat (is_leap_year_monthdays y) ! m" using assms(3) by simp
  also have "\<dots> = map (mdays (unat y)) [1..<14] ! m" by (simp only: eq)
  also have "\<dots> = mdays (unat y) (m + 1)" using assms(3) by simp
  finally show ?thesis .
qed

lemma mdays_mono: "m \<le> m' \<Longrightarrow> mdays y m \<le> mdays y m'"
  unfolding mdays_def by (rule sum_mono2) auto

lemma mdays_Suc: "1 \<le> m \<Longrightarrow> mdays y (Suc m) = mdays y m + month_len y m"
  by (simp add: mdays_def)

lemma mdays_year: "mdays y 13 = ylen y"
  using arg_cong [OF mdays_list [of y], of "\<lambda>l. l ! 12"] by (simp add: ylen_def)

lemma ystart_mono: "y \<le> y' \<Longrightarrow> ystart y \<le> ystart y'"
  unfolding ystart_def by (rule sum_mono2) auto

lemma greg_less:
  assumes g: "greg_date y m d" "greg_date y' m' d'" and l: "y < y' \<or> y = y' \<and> m < m'"
  shows "greg_days y m d < greg_days y' m' d'"
proof -
  have "mdays y m + d \<le> mdays y (Suc m)" using g(1) by (simp add: greg_date_def mdays_Suc)
  moreover have "mdays y (Suc m) \<le> ylen y" using mdays_mono [of "Suc m" 13 y] g(1) by (simp add: mdays_year greg_date_def)
  moreover have "ystart y + ylen y \<le> ystart y'" if "y < y'" using ystart_Suc [of y] ystart_mono [of "Suc y" y'] that g(1) by (simp add: greg_date_def)
  moreover have "mdays y (Suc m) \<le> mdays y m'" if "m < m'" using that by (intro mdays_mono) simp
  ultimately show ?thesis using l g by (auto simp: greg_days_alt greg_date_def)
qed

lemma greg_unique:
  assumes "greg_date y m d" "greg_date y' m' d'" "greg_days y m d = greg_days y' m' d'"
  shows "y = y' \<and> m = m' \<and> d = d'"
proof -
  have "y = y' \<and> m = m'" using greg_less [OF assms(1,2)] greg_less [OF assms(2,1)] assms(3) by (metis less_irrefl linorder_neqE_nat)
  then show ?thesis using assms by (auto simp: greg_days_alt greg_date_def)
qed

section \<open>The loops\<close>

lemma ystart_closed: "1980 \<le> y \<Longrightarrow> y \<le> 2100 \<Longrightarrow> ystart y = (y - 1980) * 365 + (y - 1980 + 3) div 4"
proof (induction y rule: nat_induct_at_least)
  case base
  show ?case by (simp add: ystart_def)
next
  case (Suc n)
  then have "leap n \<longleftrightarrow> 4 dvd n"
  proof -
    have "n = 2000" if "100 dvd n"
    proof -
      obtain k where k: "n = 100 * k" using \<open>100 dvd n\<close> by blast
      then have "k = 20" using Suc.hyps Suc.prems by auto
      then show ?thesis using k by simp
    qed
    moreover have "400 dvd (2000 :: nat)" by simp
    ultimately show ?thesis by (auto simp: leap_def)
  qed
  moreover obtain j where j: "n = 1980 + j" using Suc.hyps le_Suc_ex by blast
  moreover have "4 dvd 1980 + j \<longleftrightarrow> 4 dvd j" by presburger
  ultimately have l: "leap n \<longleftrightarrow> 4 dvd j" by simp
  have d: "(j + 4) div 4 = (j + 3) div 4 + (if 4 dvd j then 1 else 0)" by presburger
  have "ystart n = j * 365 + (j + 3) div 4" using Suc j by simp
  then have "ystart (Suc n) = j * 365 + (j + 3) div 4 + (if 4 dvd j then 366 else 365)"
    unfolding ystart_Suc [OF Suc.hyps] ylen_def l by (rule arg_cong2 [OF _ refl])
  also have "\<dots> = (j + 1) * 365 + (j + 4) div 4" unfolding d by (cases "4 dvd j") simp_all
  also have "\<dots> = (Suc n - 1980) * 365 + (Suc n - 1980 + 3) div 4"
  proof -
    have "Suc n - 1980 = j + 1" using j by simp
    then show ?thesis by (simp add: add.assoc)
  qed
  finally show ?case .
qed

lemma ystart_bound: "ystart 2160 > 65535"
proof -
  have "ystart 2100 = 43830" by (simp add: ystart_closed)
  moreover have "(\<Sum>k = 2100..<2160 :: nat. (365 :: nat)) \<le> (\<Sum>k = 2100..<2160. if leap k then 366 else 365)" by (rule sum_mono) simp
  moreover have "ystart 2160 = ystart 2100 + (\<Sum>k = 2100..<2160. if leap k then 366 else 365)"
    unfolding ystart_def by (rule sum.atLeastLessThan_concat [symmetric]) simp_all
  ultimately show ?thesis by simp
qed

lemma year_loop_ok:
  assumes "1980 \<le> unat y" "ystart (unat y) + unat c < 65536" "year_loop y c = (Y, c')"
  shows "1980 \<le> unat Y \<and> unat Y < 2160 \<and> ystart (unat Y) + unat c' = ystart (unat y) + unat c \<and> unat c' < ylen (unat Y)"
  using assms
proof (induction y c arbitrary: Y c' rule: year_loop.induct)
  case (1 y c)
  have small: "unat y < 2160"
  proof (rule ccontr)
    assume "\<not> ?thesis"
    then have "ystart 2160 \<le> ystart (unat y)" by (intro ystart_mono) simp
    then show False using ystart_bound 1(3) by linarith
  qed
  let ?p = "is_leap_year_monthdays y ! 12"
  have p: "unat ?p = ylen (unat y)" using pdays_mdays [of y 12] 1(2) small mdays_year by simp
  show ?case
  proof (cases "?p \<le> c")
    case True
    have y1: "unat (y + 1) = Suc (unat y)" using small unat_u16_add [of y 1] by simp
    have c1: "unat (c - ?p) = unat c - ylen (unat y)" "ylen (unat y) \<le> unat c" using True p by (simp_all add: unat_sub word_le_nat_alt)
    have s1: "ystart (unat (y + 1)) = ystart (unat y) + ylen (unat y)" using y1 1(2) ystart_Suc by simp
    have e: "year_loop (y + 1) (c - ?p) = (Y, c')" using 1(4) True by (simp add: year_loop.simps [of y c])
    have "1980 \<le> unat Y \<and> unat Y < 2160 \<and> ystart (unat Y) + unat c' = ystart (unat (y + 1)) + unat (c - ?p) \<and> unat c' < ylen (unat Y)"
      by (rule 1(1) [OF refl True _ _ e]) (use y1 s1 c1 1(2,3) in simp_all)
    then show ?thesis using s1 c1 by simp
  next
    case False
    then have "(Y, c') = (y, c)" using 1(4) by (simp add: year_loop.simps [of y c])
    then show ?thesis using False p 1(2) small by (simp add: word_le_nat_alt)
  qed
qed

lemma month_loop_ok:
  assumes "unat c < mdays (unat y) 13" "1980 \<le> unat y" "unat y < 2200" "1 \<le> m" "m \<le> 12" "mdays (unat y) m \<le> unat c"
  shows "let M = month_loop (is_leap_year_monthdays y) c m in
    1 \<le> M \<and> M \<le> 12 \<and> mdays (unat y) M \<le> unat c \<and> unat c < mdays (unat y) (M + 1)"
  using assms
proof (induction "13 - m" arbitrary: m)
  case (Suc k)
  let ?p = "is_leap_year_monthdays y"
  have len: "length ?p = 13" by (simp add: is_leap_year_monthdays_def days_def)
  have p: "unat (?p ! m) = mdays (unat y) (m + 1)" using Suc.prems by (intro pdays_mdays) auto
  show ?case
  proof (cases "?p ! m \<le> c")
    case True
    then have "m \<noteq> 12" using p Suc.prems(1) by (auto simp: word_le_nat_alt)
    then have "let M = month_loop ?p c (m + 1) in 1 \<le> M \<and> M \<le> 12 \<and> mdays (unat y) M \<le> unat c \<and> unat c < mdays (unat y) (M + 1)"
      using Suc.hyps(2) Suc.prems True p by (intro Suc.hyps(1)) (auto simp: word_le_nat_alt)
    moreover have "month_loop ?p c m = month_loop ?p c (m + 1)" using True len Suc.prems by (simp add: month_loop.simps [of ?p c m])
    ultimately show ?thesis by simp
  next
    case False
    then have "month_loop ?p c m = m" by (simp add: month_loop.simps [of ?p c m])
    then show ?thesis using False p Suc.prems by (simp add: Let_def word_le_nat_alt)
  qed
qed simp

lemma ystart_0 [simp]: "ystart 1980 = 0"
  by (simp add: ystart_def)

lemma mdays_0 [simp]: "mdays y 1 = 0" "mdays y (Suc 0) = 0"
  by (simp_all add: mdays_def)

lemma month_len_le: "month_len y m \<le> 31"
  by (simp add: month_len_def)

text \<open>What both loops compute from a count of days.\<close>

lemma date_loops:
  assumes "year_loop 1980 d = (Y, c)" "M = month_loop (is_leap_year_monthdays Y) c 1"
  shows "greg_date (unat Y) M (unat (c - is_leap_year_monthdays Y ! (M - 1) + 1))"
    "greg_days (unat Y) M (unat (c - is_leap_year_monthdays Y ! (M - 1) + 1)) = unat d" "unat Y < 2160"
proof -
  have Y: "1980 \<le> unat Y" "unat Y < 2160" "ystart (unat Y) + unat c = unat d" "unat c < ylen (unat Y)"
    using year_loop_ok [OF _ _ assms(1)] by simp_all
  have M: "1 \<le> M" "M \<le> 12" "mdays (unat Y) M \<le> unat c" "unat c < mdays (unat Y) (M + 1)"
    using month_loop_ok [of c Y 1] Y mdays_year by (simp_all add: assms(2) Let_def)
  let ?p = "is_leap_year_monthdays Y ! (M - 1)"
  have p: "unat ?p = mdays (unat Y) M" using pdays_mdays [of Y "M - 1"] Y M by simp
  then have "unat (c - ?p) = unat c - mdays (unat Y) M" using M(3) by (simp add: unat_sub word_le_nat_alt)
  moreover have "unat c - mdays (unat Y) M < 65535" using Y(4) by (simp add: ylen_def split: if_splits)
  ultimately have e: "unat (c - ?p + 1) = unat c - mdays (unat Y) M + 1" by (simp add: unat_u16_add)
  show "greg_date (unat Y) M (unat (c - ?p + 1))" unfolding e greg_date_def using Y M mdays_Suc [of M "unat Y"] by auto
  show "greg_days (unat Y) M (unat (c - ?p + 1)) = unat d" unfolding e greg_days_alt using Y M by simp
  show "unat Y < 2160" by (rule Y)
qed

lemma date_of_days_greg:
  "greg_date (unat (year (date_of_days d))) (unat (month (date_of_days d))) (unat (monthday (date_of_days d)))"
  "greg_days (unat (year (date_of_days d))) (unat (month (date_of_days d))) (unat (monthday (date_of_days d))) = unat d"
proof -
  obtain Y c where yc: "year_loop 1980 d = (Y, c)" by (cases "year_loop 1980 d")
  let ?p = "is_leap_year_monthdays Y" and ?M = "month_loop (is_leap_year_monthdays Y) c 1"
  let ?D = "c - ?p ! (?M - 1) + 1"
  note g = date_loops [OF yc refl]
  have M: "?M \<le> 12" "unat ?D \<le> 31" using g(1) month_len_le [of "unat Y" ?M] by (auto simp: greg_date_def)
  have "unat (of_nat ?M :: u8) = ?M" using M(1) by (simp add: unat_of_nat)
  moreover have "unat (ucast ?D :: u8) = unat ?D" using M(2) by (simp add: unsigned_ucast_eq take_bit_eq_mod)
  ultimately show "greg_date (unat (year (date_of_days d))) (unat (month (date_of_days d))) (unat (monthday (date_of_days d)))"
    "greg_days (unat (year (date_of_days d))) (unat (month (date_of_days d))) (unat (monthday (date_of_days d))) = unat d"
    using g by (simp_all add: date_of_days_def yc Let_def)
qed

lemma valid_date_greg:
  assumes "valid_date y m d"
  shows "greg_date (unat y) (unat m) (unat d)" "1980 \<le> unat y" "unat y \<le> 2099"
    "unat (DaysFromYearMonthDay y m d) = greg_days (unat y) (unat m) (unat d)"
proof -
  have v: "1980 \<le> unat y" "unat y \<le> 2099" "1 \<le> unat m" "unat m \<le> 12" "1 \<le> unat d"
      "unat d \<le> unat (is_leap_year_monthdays y ! unat m - is_leap_year_monthdays y ! unat (m - 1))"
    using assms by (simp_all add: valid_date_def Let_def not_less word_le_nat_alt Suc_le_eq unat_gt_0)
  have m1: "unat (m - 1) = unat m - 1" using v(3) by (simp add: unat_sub word_le_nat_alt)
  have p: "unat (is_leap_year_monthdays y ! unat m) = mdays (unat y) (unat m + 1)"
      "unat (is_leap_year_monthdays y ! unat (m - 1)) = mdays (unat y) (unat m)"
    using v m1 pdays_mdays [of y "unat m"] pdays_mdays [of y "unat m - 1"] by simp_all
  have ml: "mdays (unat y) (unat m + 1) = mdays (unat y) (unat m) + month_len (unat y) (unat m)" using mdays_Suc [of "unat m"] v(3) by simp
  have "unat (is_leap_year_monthdays y ! unat m - is_leap_year_monthdays y ! unat (m - 1)) = month_len (unat y) (unat m)"
    using p ml by (simp add: unat_sub word_le_nat_alt)
  then show g: "greg_date (unat y) (unat m) (unat d)" using v by (simp add: greg_date_def)
  show "1980 \<le> unat y" "unat y \<le> 2099" by (rule v)+
  define w where "w = y - 1980"
  define p where "p = is_leap_year_monthdays y ! unat (m - 1)"
  have p: "unat p = mdays (unat y) (unat m)" using p by (simp add: p_def)
  have y1: "unat w = unat y - 1980" using v unfolding w_def by (simp add: unat_sub word_le_nat_alt)
  have y2: "unat (w * 365) = unat w * 365" using unat_u16_mult [of w 365] y1 v by simp
  have y3: "unat ((w + 3) div 4) = (unat w + 3) div 4" using unat_u16_add [of w 3] y1 v by (simp add: unat_div)
  have d1: "unat (d - 1) = unat d - 1" using v by (simp add: unat_sub word_le_nat_alt)
  have mb: "unat p \<le> 366" using p mdays_mono [of "unat m" 13 "unat y"] v(4) by (simp add: mdays_year ylen_def split: if_splits)
  have db: "unat d \<le> 31" using g month_len_le [of "unat y" "unat m"] by (simp add: greg_date_def)
  have a1: "unat (d - 1 + p) = unat d - 1 + unat p" using unat_u16_add [of "d - 1" p] d1 mb db by simp
  have wb: "unat w \<le> 119" using y1 v by simp
  have a2: "unat (d - 1 + p + w * 365) = unat d - 1 + unat p + unat w * 365"
    using unat_u16_add [of "d - 1 + p" "w * 365"] a1 y2 mb db wb by simp
  have a3: "unat (d - 1 + p + w * 365 + (w + 3) div 4) = unat d - 1 + unat p + unat w * 365 + (unat w + 3) div 4"
    using unat_u16_add [of "d - 1 + p + w * 365" "(w + 3) div 4"] a2 y3 mb db wb by simp
  have "\<not> y < 1980" using v(1) by (simp add: word_less_nat_alt)
  then have "DaysFromYearMonthDay y m d = d - 1 + p + w * 365 + (w + 3) div 4"
    unfolding DaysFromYearMonthDay_def w_def p_def by (rule if_not_P)
  then show "unat (DaysFromYearMonthDay y m d) = greg_days (unat y) (unat m) (unat d)"
    using a3 v p y1 by (simp add: greg_days_alt ystart_closed add_ac)
qed

section \<open>Ticks\<close>

lemma unat_u32_shl16: "unat a < 65536 \<Longrightarrow> unat (push_bit 16 a) = unat a * 65536" for a :: u32
  using unat_u32_mult [of a 65536] by (simp add: push_bit_eq_mult)

lemma unat_u32_shr16: "unat (drop_bit 16 (a :: u32)) = unat a div 65536"
  by (simp add: drop_bit_eq_div unat_div)

lemma unat_u32_low16: "unat ((a :: u32) AND 0xffff) = unat a mod 65536"
proof -
  have "a AND 0xffff = take_bit 16 a" using take_bit_eq_mask [of 16 a] by (simp add: mask_eq_exp_minus_1)
  moreover have "unat (take_bit 16 a) = unat a mod 65536" by (simp only: unsigned_take_bit_eq) (simp add: take_bit_eq_mod)
  ultimately show ?thesis by simp
qed

lemma div_split: "(q * k + r * k div m) = (q * m + r) * k div (m :: nat)" if "0 < m"
proof -
  have "(q * m + r) * k = r * k + (q * k) * m" by (simp add: algebra_simps)
  then show ?thesis using that by (simp add: div_mult_self1)
qed

lemma hs_to_ticks_nat:
  assumes "unat hs < 8640000"
  shows "unat (hs_to_ticks hs) = unat hs * 59659 div 65536 div 5"
proof -
  let ?q = "unat hs div 65536" and ?r = "unat hs mod 65536"
  have q: "?q \<le> 131" using assms by simp
  have r: "?r \<le> 65535" by simp
  have "?r * 59659 \<le> 65535 * 59659" using r by (rule mult_le_mono1)
  then have "unat ((hs AND 0xffff) * 59659) = ?r * 59659" using unat_u32_mult [of "hs AND 0xffff" 59659] by (simp add: unat_u32_low16)
  then have "unat (drop_bit 16 ((hs AND 0xffff) * 59659)) = ?r * 59659 div 65536" by (simp only: unat_u32_shr16)
  moreover have "unat (drop_bit 16 hs * 59659) = ?q * 59659"
    using unat_u32_mult [of "drop_bit 16 hs" 59659] q by (simp add: unat_u32_shr16)
  moreover have "?r * 59659 div 65536 < 65536" by (simp add: div_less_iff_less_mult)
  ultimately have "unat (drop_bit 16 hs * 59659 + drop_bit 16 ((hs AND 0xffff) * 59659)) = ?q * 59659 + ?r * 59659 div 65536"
    using unat_u32_add [of "drop_bit 16 hs * 59659" "drop_bit 16 ((hs AND 0xffff) * 59659)"] q by simp
  also have "\<dots> = unat hs * 59659 div 65536" using div_split [of 65536 ?q 59659 ?r] by simp
  finally show ?thesis by (simp add: hs_to_ticks_def unat_div)
qed

lemma ticks_to_hs_nat:
  assumes "unat t < 0x1800b0"
  shows "unat (ticks_to_hs t) = unat t * 5 * 65536 div 59659" "unat (ticks_to_hs t) < 8640000"
proof -
  let ?x = "5 * unat t"
  have x: "unat (5 * t) = ?x" using unat_u32_mult [of 5 t] assms by simp
  have q: "unat (5 * t div 59659) = ?x div 59659" "unat (5 * t mod 59659) = ?x mod 59659" using x by (simp_all add: unat_div unat_mod)
  have b: "?x div 59659 \<le> 131" "?x mod 59659 \<le> 59658" using assms by simp_all
  have p: "unat (push_bit 16 (5 * t div 59659)) = ?x div 59659 * 65536" using unat_u32_shl16 [of "5 * t div 59659"] q b by simp
  have "unat (push_bit 16 (5 * t mod 59659)) = ?x mod 59659 * 65536" using unat_u32_shl16 [of "5 * t mod 59659"] q b by simp
  then have r: "unat (push_bit 16 (5 * t mod 59659) div 59659) = ?x mod 59659 * 65536 div 59659" by (simp add: unat_div)
  have "?x mod 59659 * 65536 div 59659 < 65536" using b(2) by (simp add: div_less_iff_less_mult)
  then have "unat (ticks_to_hs t) = ?x div 59659 * 65536 + ?x mod 59659 * 65536 div 59659"
    unfolding ticks_to_hs_def Let_def using unat_u32_add [of "push_bit 16 (5 * t div 59659)" "push_bit 16 (5 * t mod 59659) div 59659"] p r b by simp
  also have "\<dots> = ?x * 65536 div 59659" using div_split [of 59659 "?x div 59659" 65536 "?x mod 59659"] by simp
  finally show a: "unat (ticks_to_hs t) = unat t * 5 * 65536 div 59659" by (simp add: mult.commute mult.left_commute)
  show "unat (ticks_to_hs t) < 8640000" unfolding a using assms by (simp add: div_less_iff_less_mult)
qed

text \<open>Writing the PC clock and reading it back loses less than seven hundredths of a second.\<close>

lemma ticks_roundtrip:
  assumes "unat hs < 8640000"
  shows "unat (hs_to_ticks hs) < 0x1800b0" "unat (ticks_to_hs (hs_to_ticks hs)) \<le> unat hs" "unat hs \<le> unat (ticks_to_hs (hs_to_ticks hs)) + 6"
proof -
  define h where "h = unat hs"
  define a where "a = h * 59659 div 65536"
  define t where "t = a div 5"
  have t: "unat (hs_to_ticks hs) = t" using hs_to_ticks_nat [OF assms] by (simp add: t_def a_def h_def)
  have a: "a * 65536 \<le> h * 59659" "h * 59659 < a * 65536 + 65536"
    using div_times_less_eq_dividend [of "h * 59659" 65536] dividend_less_div_times [of 65536 "h * 59659"] by (simp_all add: a_def)
  have tb: "t * 5 \<le> a" "a < t * 5 + 5" using div_times_less_eq_dividend [of a 5] dividend_less_div_times [of 5 a] by (simp_all add: t_def)
  have small: "t < 0x1800b0" using a tb assms by (simp add: h_def)
  then show "unat (hs_to_ticks hs) < 0x1800b0" using t by simp
  define r where "r = t * 5 * 65536 div 59659"
  have r: "unat (ticks_to_hs (hs_to_ticks hs)) = r" using ticks_to_hs_nat(1) [of "hs_to_ticks hs"] t small by (simp add: r_def)
  have rb: "r * 59659 \<le> t * 5 * 65536" "t * 5 * 65536 < r * 59659 + 59659"
    using div_times_less_eq_dividend [of "t * 5 * 65536" 59659] dividend_less_div_times [of 59659 "t * 5 * 65536"] by (simp_all add: r_def)
  show "unat (ticks_to_hs (hs_to_ticks hs)) \<le> unat hs" unfolding r h_def [symmetric] using a tb rb by linarith
  show "unat hs \<le> unat (ticks_to_hs (hs_to_ticks hs)) + 6" unfolding r h_def [symmetric] using a tb rb by linarith
qed

section \<open>The calls and the driver together\<close>

text \<open>
  A machine whose only device is the clock: the driver of \<^verbatim>\<open>sysclk.c\<close> behind \<^verbatim>\<open>execrh\<close>, which stores the
  value the driver returns in the status of the request. The hypothesis on the hardware is that
  the PC clock holds what is written to it (time is stopped between the two calls).
\<close>

definition clock_machine :: "'h clock_hw \<Rightarrow> (u16 \<times> 'h) platform" where
  "clock_machine W = \<lparr>
     execrh = (\<lambda>rq dev buf w. let (st, rq', buf', w') = clk_driver W rq buf w in (rq'\<lparr>r_status := st\<rparr>, buf', w')),
     dh_attr = (\<lambda>_. 0x8008), CriticalError = (\<lambda>_ _ _ _ w. (ERR_FAIL, w)), network_redirector = (\<lambda>_ w. w)\<rparr>"

definition stopped_clock :: "'h clock_hw \<Rightarrow> ('h \<Rightarrow> u32) \<Rightarrow> bool" where
  "stopped_clock W T \<longleftrightarrow>
     (\<forall>d h. \<exists>h'. ReadPCClock W (d, h) = (T h, d, h') \<and> T h' = T h) \<and>
     (\<forall>t h. T (WritePCClock W t h) = t) \<and> (\<forall>ds hh mm ss h. T (WriteATClock W ds hh mm ss h) = T h)"

lemma clock_of_bytes [simp]: "clock_of (clock_bytes c d) = c"
proof -
  have "fgetword (x(2 := i, 3 := j, 4 := k, 5 := l)) 0 = fgetword x 0" for x :: bytes and i j k l by (simp add: fgetword_def)
  then show ?thesis by (simp add: clock_of_def clock_bytes_def)
qed

lemma read_clock:
  assumes "stopped_clock W T"
  shows "\<exists>s'. ExecuteClockDriverRequest (clock_machine W) C_INPUT s = Some s' \<and> r_status (CharReqHdr s') AND S_ERROR = 0 \<and>
    clock_of (ClkRecord s') = clk_input (T (snd (world s))) (fst (world s)) \<and>
    fst (world s') = fst (world s) \<and> T (snd (world s')) = T (snd (world s))"
proof -
  obtain d h where w: "world s = (d, h)" by (cases "world s")
  obtain h' where h': "ReadPCClock W (d, h) = (T h, d, h')" "T h' = T h" using assms unfolding stopped_clock_def by blast
  show ?thesis
    by (subst ExecuteClockDriverRequest_def, subst BinaryCharIO.simps)
      (simp add: CharRequest_def clock_machine_def clk_driver_def w h' Let_def)
qed

lemma write_clock:
  assumes "stopped_clock W T"
  shows "\<exists>s'. ExecuteClockDriverRequest (clock_machine W) C_OUTPUT s = Some s' \<and> r_status (CharReqHdr s') AND S_ERROR = 0 \<and>
    fst (world s') = clkDays (clock_of (ClkRecord s)) \<and> T (snd (world s')) = hs_to_ticks (clk_hs (clock_of (ClkRecord s)))"
  using assms
  by (subst ExecuteClockDriverRequest_def, subst BinaryCharIO.simps)
    (simp add: CharRequest_def clock_machine_def clk_driver_def stopped_clock_def Let_def case_prod_beta)

definition time_hs :: "dostime \<Rightarrow> nat" where
  "time_hs dt = 6000 * (60 * unat (hour dt) + unat (minute dt)) + (100 * unat (second dt) + unat (hundredth dt))"

definition good_time :: "dostime \<Rightarrow> bool" where
  "good_time dt \<longleftrightarrow> unat (hour dt) \<le> 23 \<and> unat (minute dt) \<le> 59 \<and> unat (second dt) \<le> 59 \<and> unat (hundredth dt) \<le> 99"

lemma sint_small_u16: "n < 32768 \<Longrightarrow> sint (of_nat n :: u16) = int n"
  by (simp add: signed_of_nat signed_take_bit_int_eq_self)

lemma unat_u8_int: "0 \<le> k \<Longrightarrow> k < 256 \<Longrightarrow> unat (word_of_int k :: u8) = nat k"
  by (simp add: unsigned_of_int take_bit_int_eq_self)

lemma sdiv_nat: "int a sdiv int b = int (a div b)" "int a smod int b = int (a mod b)"
proof -
  show d: "int a sdiv int b = int (a div b)" by (simp add: signed_divide_int_def zdiv_int sgn_if)
  show "int a smod int b = int (a mod b)"
    unfolding signed_modulo_int_def d by (cases "a = 0") (simp_all add: zdiv_int zmod_int minus_div_mult_eq_mod)
qed

lemma clk_part:
  assumes "a < 32768" "b \<noteq> 0" "a div b < 256" "a mod b < 256"
  shows "unat (word_of_int (sint (of_nat a :: u16) sdiv int b) :: u8) = a div b"
    "unat (word_of_int (sint (of_nat a :: u16) smod int b) :: u8) = a mod b"
  using assms unat_u8_int [of "int (a div b)"] unat_u8_int [of "int (a mod b)"] by (simp_all add: sint_small_u16 sdiv_nat)

lemma clk_input_fields:
  assumes "unat t < 0x1800b0"
  defines "hs \<equiv> unat (ticks_to_hs t)"
  shows "unat (clkHours (clk_input t d)) = hs div 6000 div 60" "unat (clkMinutes (clk_input t d)) = hs div 6000 mod 60"
    "unat (clkSeconds (clk_input t d)) = hs mod 6000 div 100" "unat (clkHundredths (clk_input t d)) = hs mod 6000 mod 100"
    "clkDays (clk_input t d) = d"
proof -
  have h: "hs < 8640000" unfolding hs_def by (rule ticks_to_hs_nat(2) [OF assms(1)])
  have u: "(ucast x :: u16) = of_nat (unat x)" for x :: u32 by simp
  have q: "(ucast (ticks_to_hs t div 6000) :: u16) = of_nat (hs div 6000)" "(ucast (ticks_to_hs t mod 6000) :: u16) = of_nat (hs mod 6000)"
    by (simp_all only: u hs_def unat_div unat_mod) simp_all
  have b: "hs div 6000 < 32768" "hs mod 6000 < 32768" "hs div 6000 div 60 < 256" "hs div 6000 mod 60 < 256" "hs mod 6000 div 100 < 256" "hs mod 6000 mod 100 < 256"
    using h by simp_all
  show "unat (clkHours (clk_input t d)) = hs div 6000 div 60" "unat (clkMinutes (clk_input t d)) = hs div 6000 mod 60"
    using clk_part [OF b(1), of 60] b by (simp_all add: clk_input_def Let_def q)
  show "unat (clkSeconds (clk_input t d)) = hs mod 6000 div 100" "unat (clkHundredths (clk_input t d)) = hs mod 6000 mod 100"
    using clk_part [OF b(2), of 100] b by (simp_all add: clk_input_def Let_def q)
  show "clkDays (clk_input t d) = d" by (simp add: clk_input_def Let_def)
qed

lemma word_of_time: "good_time dt \<Longrightarrow> \<not> (hour dt > 23 \<or> minute dt > 59 \<or> second dt > 59 \<or> hundredth dt > 99)"
  by (simp add: good_time_def word_less_nat_alt not_less)

lemma unat_ucast_u8: "unat (ucast (x :: u8) :: u32) = unat x" "unat (ucast (x :: u8) :: u16) = unat x"
proof -
  have "unat x < 256" using unsigned_less [of x, where ?'a = nat] by simp
  then show "unat (ucast x :: u32) = unat x" "unat (ucast x :: u16) = unat x" by (simp_all add: unsigned_ucast_eq take_bit_eq_mod)
qed

lemma ucast_of_nat_u8: "unat (x :: u16) = n \<Longrightarrow> ucast x = (of_nat n :: u8)"
  by auto

lemma hs_fields:
  fixes h :: nat
  assumes "h < 8640000"
  shows "h div 6000 div 60 \<le> 23" "h div 6000 mod 60 \<le> 59" "h mod 6000 div 100 \<le> 59" "h mod 6000 mod 100 \<le> 99"
    "6000 * (60 * (h div 6000 div 60) + h div 6000 mod 60) + (100 * (h mod 6000 div 100) + h mod 6000 mod 100) = h"
proof -
  have "h div 6000 < 1440" using assms by (simp add: div_less_iff_less_mult)
  then have "h div 6000 div 60 < 24" by (simp add: div_less_iff_less_mult)
  then show "h div 6000 div 60 \<le> 23" by simp
  have "h mod 6000 div 100 < 60" by (simp add: div_less_iff_less_mult)
  then show "h mod 6000 div 100 \<le> 59" by simp
  have "h div 6000 mod 60 < 60" "h mod 6000 mod 100 < 100" by simp_all
  then show "h div 6000 mod 60 \<le> 59" "h mod 6000 mod 100 \<le> 99" by simp_all
qed simp

lemma clk_hs_nat:
  assumes "unat (clkHours c) \<le> 23" "unat (clkMinutes c) \<le> 59" "unat (clkSeconds c) \<le> 59" "unat (clkHundredths c) \<le> 99"
  shows "unat (clk_hs c) = 6000 * (60 * unat (clkHours c) + unat (clkMinutes c)) + (100 * unat (clkSeconds c) + unat (clkHundredths c))"
proof -
  note n = unat_u32_add unat_u32_mult unat_ucast_u8
  have a: "unat (60 * ucast (clkHours c) + ucast (clkMinutes c) :: u32) = 60 * unat (clkHours c) + unat (clkMinutes c)"
    using assms by (subst n(1); subst n(2)) (simp_all add: n)
  have b: "unat (100 * ucast (clkSeconds c) + ucast (clkHundredths c) :: u32) = 100 * unat (clkSeconds c) + unat (clkHundredths c)"
    using assms by (subst n(1); subst n(2)) (simp_all add: n)
  have e: "unat (6000 * (60 * ucast (clkHours c) + ucast (clkMinutes c)) :: u32) = 6000 * (60 * unat (clkHours c) + unat (clkMinutes c))"
    using unat_u32_mult [of 6000 "60 * ucast (clkHours c) + ucast (clkMinutes c)"] a assms by simp
  show ?thesis unfolding clk_hs_def
    using unat_u32_add [of "6000 * (60 * ucast (clkHours c) + ucast (clkMinutes c))" "100 * ucast (clkSeconds c) + ucast (clkHundredths c)"] e b assms by simp
qed

section \<open>Properties\<close>

text \<open>
  C21. For every count of days since 1 January 1980 that the clock can hold (up to the year 2159) the
  date that \<^verbatim>\<open>DosGetDate\<close> reports is a date of the Gregorian calendar, and it is the date that
  many days after 1 January 1980, in spite of the simplified leap year rule of the code.
\<close>

theorem DosGetDate_calendar:
  "let dd = date_of_days d; y = unat (year dd); m = unat (month dd); k = unat (monthday dd)
   in greg_date y m k \<and> greg_days y m k = unat d"
  using date_of_days_greg [of d] by (simp add: Let_def)

lemma set_date_get_date:
  assumes "stopped_clock W T"
  shows "if valid_date (year dd) (ucast (month dd)) (ucast (monthday dd)) then
      \<exists>s1 s2. DosSetDate (clock_machine W) dd s = Some (SUCCESS, s1) \<and>
        DosGetDate (clock_machine W) dd0 s1 =
          Some (of_nat ((greg_days (unat (year dd)) (unat (month dd)) (unat (monthday dd)) + 2) mod 7), dd, s2)
    else DosSetDate (clock_machine W) dd s = Some (DE_INVLDDATA, s)"
proof (cases "valid_date (year dd) (ucast (month dd)) (ucast (monthday dd))")
  case True
  let ?n = "DaysFromYearMonthDay (year dd) (ucast (month dd)) (ucast (monthday dd))"
  let ?g = "greg_days (unat (year dd)) (unat (month dd)) (unat (monthday dd))"
  note v = valid_date_greg [OF True, unfolded unat_ucast_u8]
  obtain s1 where s1: "ExecuteClockDriverRequest (clock_machine W) C_INPUT s = Some s1" using read_clock [OF assms, of s] by blast
  let ?r = "s1\<lparr>ClkRecord := clock_bytes ((clock_of (ClkRecord s1))\<lparr>clkDays := ?n\<rparr>) (ClkRecord s1)\<rparr>"
  obtain s2 where s2: "ExecuteClockDriverRequest (clock_machine W) C_OUTPUT ?r = Some s2" "r_status (CharReqHdr s2) AND S_ERROR = 0"
      "fst (world s2) = ?n"
    using write_clock [OF assms, of ?r] by auto
  obtain s3 where s3: "ExecuteClockDriverRequest (clock_machine W) C_INPUT s2 = Some s3" "r_status (CharReqHdr s3) AND S_ERROR = 0"
      "clkDays (clock_of (ClkRecord s3)) = ?n"
    using read_clock [OF assms, of s2] s2(3) by (auto simp: clk_input_def Let_def)
  have "unat (year (date_of_days ?n)) = unat (year dd) \<and> unat (month (date_of_days ?n)) = unat (month dd) \<and>
      unat (monthday (date_of_days ?n)) = unat (monthday dd)"
    by (rule greg_unique [OF date_of_days_greg(1) v(1)]) (simp add: date_of_days_greg(2) v(4))
  then have d: "date_of_days ?n = dd" by (intro dosdate.equality) (simp_all add: word_unat_eq_iff)
  have "?g < 65536" using v(4) unat_u16_less [of ?n] by simp
  moreover have "?g \<le> 43829"
  proof -
    have "greg_date 2100 1 1" by (simp add: greg_date_def month_len_def)
    then have "?g < greg_days 2100 1 1" using v(3) by (intro greg_less [OF v(1)]) auto
    then have "?g < ystart 2100" by (simp add: greg_days_alt)
    then show ?thesis by (simp add: ystart_closed)
  qed
  ultimately have "unat (?n + 2) = ?g + 2" using v(4) unat_u16_add [of ?n 2] by simp
  then have "unat ((?n + 2) mod 7) = (?g + 2) mod 7" by (simp add: unat_mod)
  then have "ucast ((?n + 2) mod 7) = (of_nat ((?g + 2) mod 7) :: u8)" by (rule ucast_of_nat_u8)
  moreover have "DosSetDate (clock_machine W) dd s = Some (SUCCESS, s2)"
    using True s1 s2 by (simp add: DosSetDate_def Let_def clock_status_def)
  moreover have "DosGetDate (clock_machine W) dd0 s2 = Some (ucast ((?n + 2) mod 7), dd, s3)"
    using s3 d by (simp add: DosGetDate_def Let_def)
  ultimately show ?thesis using True by auto
qed (simp add: DosSetDate_def)

text \<open>
  C22. A date set with \<^verbatim>\<open>DosSetDate\<close> is the date that \<^verbatim>\<open>DosGetDate\<close> reports, through the clock driver,
  with the right day of the week; a date that is not one of the years 1980 to 2099 is refused
  and changes nothing.
\<close>

theorem DosSetDate_DosGetDate:
  assumes "stopped_clock W T"
  shows "if valid_date (year dd) (ucast (month dd)) (ucast (monthday dd)) then
      \<exists>s1 s2. DosSetDate (clock_machine W) dd s = Some (SUCCESS, s1) \<and>
        DosGetDate (clock_machine W) dd0 s1 =
          Some (of_nat ((greg_days (unat (year dd)) (unat (month dd)) (unat (monthday dd)) + 2) mod 7), dd, s2)
    else DosSetDate (clock_machine W) dd s = Some (DE_INVLDDATA, s)"
  by (rule set_date_get_date [OF assms])

definition demo_clock :: "u32 clock_hw" where
  "demo_clock = \<lparr>ReadPCClock = (\<lambda>(d, h). (h, d, h)), WritePCClock = (\<lambda>t _. t), WriteATClock = (\<lambda>_ _ _ _ h. h)\<rparr>"

lemma demo_clock_stopped: "stopped_clock demo_clock (\<lambda>h. h)"
  by (simp add: stopped_clock_def demo_clock_def)

definition demo_date :: dosdate where
  "demo_date = \<lparr>year = 2024, monthday = 29, month = 2\<rparr>"

theorem DosSetDate_DosGetDate_witness:
  "\<forall>s :: (u16 \<times> u32) dos. \<exists>s1 s2. DosSetDate (clock_machine demo_clock) demo_date s = Some (SUCCESS, s1) \<and>
     DosGetDate (clock_machine demo_clock) demo_date s1 = Some (4, demo_date, s2)"
proof
  fix s :: "(u16 \<times> u32) dos"
  have "valid_date (year demo_date) (ucast (month demo_date)) (ucast (monthday demo_date))"
    by (simp add: valid_date_def demo_date_def is_leap_year_monthdays_def days_def)
  moreover have "greg_days 2024 2 29 = 16130" by (simp add: greg_days_alt ystart_closed mdays_Suc month_len_def numeral_2_eq_2)
  ultimately show "\<exists>s1 s2. DosSetDate (clock_machine demo_clock) demo_date s = Some (SUCCESS, s1) \<and>
     DosGetDate (clock_machine demo_clock) demo_date s1 = Some (4, demo_date, s2)"
    using DosSetDate_DosGetDate [OF demo_clock_stopped, of demo_date s demo_date] by (simp add: demo_date_def)
qed

text \<open>
  C23. A time set with \<^verbatim>\<open>DosSetTime\<close> is read back by \<^verbatim>\<open>DosGetTime\<close> through the clock driver as a valid
  time of day that is at most six hundredths of a second (one tick of the PC clock, rounded)
  earlier and never later: none of the 32-bit scaling overflows. A time that is no time of day
  is refused and changes nothing.
\<close>

theorem DosSetTime_DosGetTime:
  assumes "stopped_clock W T"
  shows "if good_time dt then
      \<exists>s1 dt' s2. DosSetTime (clock_machine W) dt s = Some (SUCCESS, s1) \<and> DosGetTime (clock_machine W) dt0 s1 = Some (dt', s2) \<and>
        good_time dt' \<and> time_hs dt' \<le> time_hs dt \<and> time_hs dt \<le> time_hs dt' + 6
    else DosSetTime (clock_machine W) dt s = Some (DE_INVLDDATA, s)"
proof (cases "good_time dt")
  case True
  obtain s1 where s1: "ExecuteClockDriverRequest (clock_machine W) C_INPUT s = Some s1" using read_clock [OF assms, of s] by blast
  let ?c = "(clock_of (ClkRecord s1))\<lparr>clkHours := hour dt, clkMinutes := minute dt, clkSeconds := second dt, clkHundredths := hundredth dt\<rparr>"
  let ?r = "s1\<lparr>ClkRecord := clock_bytes ?c (ClkRecord s1)\<rparr>"
  obtain s2 where s2: "ExecuteClockDriverRequest (clock_machine W) C_OUTPUT ?r = Some s2" "r_status (CharReqHdr s2) AND S_ERROR = 0"
      "T (snd (world s2)) = hs_to_ticks (clk_hs ?c)"
    using write_clock [OF assms, of ?r] by auto
  obtain s3 where s3: "ExecuteClockDriverRequest (clock_machine W) C_INPUT s2 = Some s3" "r_status (CharReqHdr s3) AND S_ERROR = 0"
      "clock_of (ClkRecord s3) = clk_input (hs_to_ticks (clk_hs ?c)) (fst (world s2))"
    using read_clock [OF assms, of s2] s2(3) by auto
  have hs: "unat (clk_hs ?c) = time_hs dt" using True clk_hs_nat [of ?c] by (simp add: good_time_def time_hs_def)
  then have small: "unat (clk_hs ?c) < 8640000" using True by (simp add: good_time_def time_hs_def)
  let ?h = "unat (ticks_to_hs (hs_to_ticks (clk_hs ?c)))"
  note R = ticks_roundtrip [OF small]
  let ?dt = "\<lparr>minute = clkMinutes (clock_of (ClkRecord s3)), hour = clkHours (clock_of (ClkRecord s3)),
    hundredth = clkHundredths (clock_of (ClkRecord s3)), second = clkSeconds (clock_of (ClkRecord s3))\<rparr>"
  note F = clk_input_fields [OF R(1)]
  have h: "?h < 8640000" by (rule ticks_to_hs_nat(2) [OF R(1)])
  have g: "good_time ?dt" using hs_fields [OF h] by (simp add: good_time_def s3(3) F)
  have t: "time_hs ?dt = ?h" using hs_fields(5) [OF h] by (simp add: time_hs_def s3(3) F)
  have "DosSetTime (clock_machine W) dt s = Some (SUCCESS, s2)"
    using word_of_time [OF True] s1 s2 by (simp add: DosSetTime_def Let_def clock_status_def)
  moreover have "DosGetTime (clock_machine W) dt0 s2 = Some (?dt, s3)" using s3(1,2) by (simp add: DosGetTime_def Let_def)
  ultimately show ?thesis using True g t R hs by auto
next
  case False
  then show ?thesis by (auto simp: DosSetTime_def good_time_def word_less_nat_alt)
qed

theorem DosSetTime_DosGetTime_witness:
  "\<forall>s :: (u16 \<times> u32) dos. \<exists>s1 dt' s2.
     DosSetTime (clock_machine demo_clock) \<lparr>minute = 59, hour = 23, hundredth = 99, second = 59\<rparr> s = Some (SUCCESS, s1) \<and>
     DosGetTime (clock_machine demo_clock) \<lparr>minute = 0, hour = 0, hundredth = 0, second = 0\<rparr> s1 = Some (dt', s2) \<and>
     good_time dt' \<and> time_hs dt' \<le> 8639999 \<and> 8639993 \<le> time_hs dt'"
proof
  fix s :: "(u16 \<times> u32) dos"
  let ?t = "\<lparr>minute = 59, hour = 23, hundredth = 99, second = 59\<rparr>"
  have "good_time ?t" "time_hs ?t = 8639999" by (simp_all add: good_time_def time_hs_def)
  then show "\<exists>s1 dt' s2. DosSetTime (clock_machine demo_clock) ?t s = Some (SUCCESS, s1) \<and>
     DosGetTime (clock_machine demo_clock) \<lparr>minute = 0, hour = 0, hundredth = 0, second = 0\<rparr> s1 = Some (dt', s2) \<and>
     good_time dt' \<and> time_hs dt' \<le> 8639999 \<and> 8639993 \<le> time_hs dt'"
    using DosSetTime_DosGetTime [OF demo_clock_stopped, of ?t s "\<lparr>minute = 0, hour = 0, hundredth = 0, second = 0\<rparr>"] by auto
qed

end
