(* ===== verification/DirProps.thy ===== *)
theory DirProps
  imports FatLink FatDir ClockProps
begin

text \<open>
  Properties of directory entries, names and stamps, of the parameter block built from a boot sector, and of
  the copying between file nodes and the system file table.
\<close>

section \<open>Entries on disk\<close>







section \<open>Names\<close>

text \<open>A blank padded name of a file: eight and three characters, neither empty nor with a special character inside.\<close>

definition padded :: "nat \<Rightarrow> u8 list \<Rightarrow> bool" where
  "padded n xs \<longleftrightarrow> length xs = n \<and> xs = strip_blanks xs @ replicate (n - length (strip_blanks xs)) 0x20 \<and>
     set (strip_blanks xs) \<inter> {0, 0x2e, 0x5c} = {}"

definition name83_ok :: "u8 list \<Rightarrow> bool" where
  "name83_ok xs \<longleftrightarrow> length xs = 11 \<and> padded 8 (take 8 xs) \<and> padded 3 (drop 8 xs) \<and> strip_blanks (take 8 xs) \<noteq> []"

lemma name83_run:
  "set cs \<inter> {0, 0x2e, 0x5c} = {} \<Longrightarrow> i + length cs \<le> 11 \<Longrightarrow> length f = 11 \<Longrightarrow>
    name83_loop i f (cs @ r) = name83_loop (i + length cs) (take i f @ cs @ drop (i + length cs) f) r"
proof (induction cs arbitrary: i f)
  case (Cons c cs)
  have "take (Suc i) (f[i := c]) @ cs @ drop (Suc i + length cs) (f[i := c]) = take i f @ (c # cs) @ drop (i + length (c # cs)) f"
    using Cons.prems by (simp add: take_Suc_conv_app_nth)
  then show ?case using Cons by simp
qed simp

lemma name83_ok_split:
  assumes "name83_ok xs" "n = strip_blanks (take 8 xs)" "e = strip_blanks (drop 8 xs)"
  shows "xs = n @ replicate (8 - length n) 0x20 @ e @ replicate (3 - length e) 0x20" "length n \<le> 8" "length e \<le> 3"
    "set n \<inter> {0, 0x2e, 0x5c} = {}" "set e \<inter> {0, 0x2e, 0x5c} = {}" "n \<noteq> []"
proof -
  have p: "padded 8 (take 8 xs)" "padded 3 (drop 8 xs)" "length xs = 11" using assms(1) by (auto simp: name83_ok_def)
  show "set n \<inter> {0, 0x2e, 0x5c} = {}" "set e \<inter> {0, 0x2e, 0x5c} = {}" "n \<noteq> []" using assms by (auto simp: name83_ok_def padded_def)
  have l: "take 8 xs = n @ replicate (8 - length n) 0x20" "drop 8 xs = e @ replicate (3 - length e) 0x20" using p assms(2,3) by (auto simp: padded_def)
  then show "xs = n @ replicate (8 - length n) 0x20 @ e @ replicate (3 - length e) 0x20" by (metis append_assoc append_take_drop_id)
  have "length n \<le> length (take 8 xs)" "length e \<le> length (drop 8 xs)" by (simp_all only: l) simp_all
  then show "length n \<le> 8" "length e \<le> 3" using p(3) by simp_all
qed

text \<open>
  C25. Names survive the trip through their printed form: for every blank padded 8+3 name of a file,
  \<^verbatim>\<open>ConvertNameSZToName83\<close> applied to what \<^verbatim>\<open>ConvertName83ToNameSZ\<close> prints gives the name back and leaves nothing
  of the string unread.
\<close>

theorem name83_roundtrip:
  assumes "name83_ok xs"
  shows "ConvertNameSZToName83 (ConvertName83ToNameSZ xs) = (xs, [])"
proof -
  define n e where "n = strip_blanks (take 8 xs)" and "e = strip_blanks (drop 8 xs)"
  note S = name83_ok_split [OF assms n_def e_def]
  have "xs ! 0 = n ! 0" "n ! 0 \<in> set n" using S(1,6) by (auto simp: nth_append)
  then have dot: "xs ! 0 \<noteq> 0x2e" using S(4) by auto
  have "take 3 (drop 8 xs) = drop 8 xs" using assms by (simp add: name83_ok_def)
  then have z: "ConvertName83ToNameSZ xs = n @ (if e \<noteq> [] then 0x2e # e else [])"
    using dot by (simp add: ConvertName83ToNameSZ_def Let_def n_def e_def)
  let ?f = "n @ replicate (11 - length n) 0x20 :: u8 list"
  have r: "name83_loop 0 (replicate 11 0x20) (n @ r) = name83_loop (length n) ?f r" for r
    using name83_run [of n 0 "replicate 11 0x20" r] S(2,4) by simp
  show ?thesis
  proof (cases "e = []")
    case True
    have "replicate (8 - length n) 0x20 @ replicate 3 0x20 = (replicate (11 - length n) 0x20 :: u8 list)" using S(2) by (simp flip: replicate_add)
    then show ?thesis using r [of "[]"] z True S(1) by (simp add: ConvertNameSZToName83_def)
  next
    case False
    have "length n < 11" using S(2) by simp
    then have "name83_loop (length n) ?f (0x2e # e) = name83_loop 8 ?f (e @ [])" by simp
    also have "\<dots> = name83_loop (8 + length e) (take 8 ?f @ e @ drop (8 + length e) ?f) []"
      using S(2,3,5) by (intro name83_run) auto
    also have "\<dots> = (xs, [])"
    proof -
      have "take 8 ?f = n @ replicate (8 - length n) 0x20" "drop (8 + length e) ?f = replicate (3 - length e) 0x20" using S(2,3) by auto
      then show ?thesis using S(1) by simp
    qed
    finally show ?thesis using r [of "0x2e # e"] z False by (simp add: ConvertNameSZToName83_def)
  qed
qed

theorem name83_roundtrip_witness:
  "ConvertName83ToNameSZ [0x4b, 0x45, 0x52, 0x4e, 0x45, 0x4c, 0x20, 0x20, 0x53, 0x59, 0x53] = [0x4b, 0x45, 0x52, 0x4e, 0x45, 0x4c, 0x2e, 0x53, 0x59, 0x53] \<and>
   ConvertNameSZToName83 (ConvertName83ToNameSZ [0x4b, 0x45, 0x52, 0x4e, 0x45, 0x4c, 0x20, 0x20, 0x53, 0x59, 0x53]) =
     ([0x4b, 0x45, 0x52, 0x4e, 0x45, 0x4c, 0x20, 0x20, 0x53, 0x59, 0x53], [])"
proof -
  have two: "replicate 2 x = [x, x]" for x :: u8 by (simp add: numeral_2_eq_2)
  have "name83_ok [0x4b, 0x45, 0x52, 0x4e, 0x45, 0x4c, 0x20, 0x20, 0x53, 0x59, 0x53]"
    by (simp add: name83_ok_def padded_def strip_blanks_def two)
  from name83_roundtrip [OF this] show ?thesis
    by (simp add: ConvertName83ToNameSZ_def strip_blanks_def Let_def)
qed

section \<open>Stamps\<close>

lemma field_masks: "(0xf :: u16) = mask 4" "(0x1f :: u16) = mask 5" "(0x7f :: u16) = mask 7"
  by (simp_all add: mask_eq_exp_minus_1)

lemma and_mask_u16: "unat (w AND 0xf) = unat w mod 16" "unat (w AND 0x1f) = unat w mod 32" "unat (w AND 0x7f) = unat w mod 128" for w :: u16
proof -
  have "w AND mask n = take_bit n w" for n by (rule bit_word_eqI) (auto simp: bit_simps)
  from this [of 4] this [of 5] this [of 7]
  show "unat (w AND 0xf) = unat w mod 16" "unat (w AND 0x1f) = unat w mod 32" "unat (w AND 0x7f) = unat w mod 128"
    by (simp_all add: mask_eq_exp_minus_1 take_bit_eq_mod unat_mod)
qed

lemma DT_fields:
  "DT_MONTH (DT_ENCODE m d y) = m AND 0xf" "DT_DAY (DT_ENCODE m d y) = d AND 0x1f" "DT_YEAR (DT_ENCODE m d y) = y AND 0x7f"
  unfolding DT_MONTH_def DT_DAY_def DT_YEAR_def DT_ENCODE_def field_masks by (rule bit_word_eqI; auto simp: bit_simps)+

text \<open>
  The date stamp of a file. After a valid date has been set, \<^verbatim>\<open>dos_getdate\<close>, which stamps directory entries,
  gets it through the clock driver and packs it so that the year, month and day can be unpacked again.
\<close>

theorem dos_getdate_stamp:
  assumes "stopped_clock W T" "valid_date (year dd) (ucast (month dd)) (ucast (monthday dd))"
  shows "\<exists>s1 s2 w. DosSetDate (clock_machine W) dd s = Some (SUCCESS, s1) \<and> dos_getdate (clock_machine W) s1 = Some (w, s2) \<and>
    unat (DT_YEAR w) + 1980 = unat (year dd) \<and> unat (DT_MONTH w) = unat (month dd) \<and> unat (DT_DAY w) = unat (monthday dd)"
proof -
  note v = valid_date_greg [OF assms(2), unfolded unat_ucast_u8]
  obtain s1 where s1: "DosSetDate (clock_machine W) dd s = Some (SUCCESS, s1)"
    using set_date_get_date [OF assms(1), of dd s dd] assms(2) by auto
  then obtain s2 where "DosGetDate (clock_machine W) (junk_date s1) s1 =
        Some (of_nat ((greg_days (unat (year dd)) (unat (month dd)) (unat (monthday dd)) + 2) mod 7), dd, s2)"
    using set_date_get_date [OF assms(1), of dd s "junk_date s1"] assms(2) by auto
  note s = s1 this
  have "unat (year dd - 1980) = unat (year dd) - 1980" using v(2) by (simp add: unat_sub_if_size word_le_nat_alt)
  moreover have "unat (year dd) \<le> 2099" using v(3) by simp
  moreover have "unat (month dd) < 16" "unat (monthday dd) < 32" 
    using v(1) month_len_le [of "unat (year dd)" "unat (month dd)"] by (auto simp: greg_date_def)
  ultimately show ?thesis using s v(2) by (simp add: dos_getdate_def DT_fields and_mask_u16 unat_ucast_u8)
qed


theorem dos_getdate_stamp_witness:
  "\<forall>s :: (u16 \<times> u32) dos. \<exists>s1 s2 w. DosSetDate (clock_machine demo_clock) demo_date s = Some (SUCCESS, s1) \<and>
     dos_getdate (clock_machine demo_clock) s1 = Some (w, s2) \<and> unat (DT_YEAR w) + 1980 = 2024 \<and> unat (DT_MONTH w) = 2 \<and> unat (DT_DAY w) = 29"
proof
  fix s :: "(u16 \<times> u32) dos"
  have "valid_date (year demo_date) (ucast (month demo_date)) (ucast (monthday demo_date))"
    by (simp add: valid_date_def demo_date_def is_leap_year_monthdays_def days_def)
  from dos_getdate_stamp [OF demo_clock_stopped this, of s]
  show "\<exists>s1 s2 w. DosSetDate (clock_machine demo_clock) demo_date s = Some (SUCCESS, s1) \<and>
     dos_getdate (clock_machine demo_clock) s1 = Some (w, s2) \<and> unat (DT_YEAR w) + 1980 = 2024 \<and> unat (DT_MONTH w) = 2 \<and> unat (DT_DAY w) = 29"
    by (simp add: demo_date_def)
qed

section \<open>The table of a new volume\<close>







section \<open>File nodes and the system file table\<close>

lemma sft_loop_entry: "sft_loop t i ts = Some p \<Longrightarrow> 0 \<le> i \<Longrightarrow> t \<le> fst p \<and> fst p - t < length ts \<and> snd p < length (ts ! (fst p - t))"
proof (induction t i ts rule: sft_loop.induct)
  case (2 t i sp sps)
  show ?case
  proof (cases "i < int (length sp)")
    case False
    then have "t + 1 \<le> fst p \<and> fst p - (t + 1) < length sps \<and> snd p < length (sps ! (fst p - (t + 1)))" using 2 by simp
    moreover from this have "fst p - t = Suc (fst p - (t + 1))" by arith
    ultimately show ?thesis by simp
  qed (use 2 in auto)
qed simp

lemma idx_to_sft_entry:
  assumes "idx_to_sft i s = (Some p, s1)"
  shows "sfthead s1 = sfthead s" "fnode s1 = fnode s" "dpbs s1 = dpbs s" "fst p < length (sfthead s)" "snd p < length (sfthead s ! fst p)"
    "sft_loop 0 i (sfthead s) = Some p" "0 \<le> i" "sft_count (sfthead s ! fst p ! snd p) \<noteq> 0"
  using assms sft_loop_entry [of 0 i "sfthead s" p]
  by (auto simp: idx_to_sft_def idx_to_sft_loc_def Let_def split: if_splits option.splits)

lemma idx_to_sft_again:
  assumes "idx_to_sft i s = (Some p, s1)" "sfthead t = sfthead s"
  shows "\<exists>t1. idx_to_sft i t = (Some p, t1) \<and> sfthead t1 = sfthead t \<and> fnode t1 = fnode t \<and> dpbs t1 = dpbs t"
  using idx_to_sft_entry [OF assms(1)] assms(2) by (simp add: idx_to_sft_def idx_to_sft_loc_def Let_def)

text \<open>A start cluster that the directory entry of the volume can hold.\<close>

definition start_fits :: "dpb \<Rightarrow> u32 \<Rightarrow> bool" where
  "start_fits d c \<longleftrightarrow> ISFAT32 d \<or> c < 0x10000"

lemma getdstart_fits: "start_fits d c \<Longrightarrow> getdstart d (setdstart d c e) = c"
proof -
  assume c: "start_fits d c"
  have "push_bit 16 (ucast (ucast (drop_bit 16 c) :: u16)) OR ucast (ucast c :: u16) = c" by (rule bit_word_eqI) (auto simp: bit_simps)
  then show ?thesis using c ucast_back [of c] by (auto simp: getdstart_def setdstart_def start_fits_def word_less_nat_alt)
qed

lemma word_join_high:
  "ucast (ucast r OR push_bit 16 (ucast h) :: u32) = (r :: u16)"
  "ucast (drop_bit 16 (ucast r) OR drop_bit 16 (push_bit 16 (ucast h)) :: u32) = (h :: u16)"
  for r h :: u16
  by (rule bit_word_eqI; auto simp: bit_simps dest: bit_imp_le_length)+

text \<open>
  Loading an open file into a file node and storing it back loses nothing: after \<^verbatim>\<open>sft_to_fnode\<close> and
  \<^verbatim>\<open>fnode_to_sft\<close> the system file table is as before, with every field of every entry, provided the name has
  its eleven characters and the start cluster is one that the file system of the volume can store.
\<close>

theorem sft_fnode_roundtrip:
  assumes "idx_to_sft fd s = (Some p, s0)" "fd < 256"
    "length (sft_name (sfthead s ! fst p ! snd p)) = 11"
    "start_fits (dpbs s (sft_dcb (sfthead s ! fst p ! snd p))) (sft_stclust (sfthead s ! fst p ! snd p))"
  shows "\<exists>s1 s2. sft_to_fnode fd s = Some s1 \<and> fnode_to_sft 0 s1 = Some s2 \<and> sfthead s2 = sfthead s"
proof -
  note I = idx_to_sft_entry [OF assms(1)]
  let ?sf = "sfthead s ! fst p ! snd p"
  define s1 where "s1 = the (sft_to_fnode fd s)"
  have s1: "sft_to_fnode fd s = Some s1" by (simp add: s1_def sft_to_fnode_def assms(1) Let_def)
  have h1: "sfthead s1 = sfthead s" "dpbs s1 = dpbs s" using I by (simp_all add: s1_def sft_to_fnode_def assms(1) Let_def)
  obtain t1 where t1: "idx_to_sft fd s1 = (Some p, t1)" "sfthead t1 = sfthead s1" "fnode t1 = fnode s1" "dpbs t1 = dpbs s1"
    using idx_to_sft_again [OF assms(1) h1(1)] by blast
  have n1: "fnode s1 0 = (fnode s 0)\<lparr>f_sft_idx := word_of_int fd, f_flags := sft_flags ?sf,
      f_dir := setdstart (dpbs s (sft_dcb ?sf)) (sft_stclust ?sf) ((f_dir (fnode s 0))\<lparr>dir_attrib := sft_attrib ?sf, dir_name := take 11 (sft_name ?sf),
        dir_time := sft_time ?sf, dir_date := sft_date ?sf, dir_size := sft_size ?sf\<rparr>),
      f_dpb := sft_dcb ?sf, f_diridx := sft_diridx ?sf, f_dirsector := sft_dirsector ?sf, f_offset := sft_posit ?sf, f_cluster := sft_cuclust ?sf,
      f_cluster_offset := ucast (sft_relclust ?sf) OR push_bit 16 (ucast (sft_relclust_high ?sf))\<rparr>"
    using I by (simp add: s1_def sft_to_fnode_def assms(1) Let_def)
  have "uint (word_of_int fd :: u8) = fd" using I(7) assms(2) by (simp add: uint_word_of_int)
  then have i1: "idx_to_sft (uint (f_sft_idx (fnode s1 0))) s1 = (Some p, t1)" using t1(1) n1 by simp
  have "fnode_to_sft 0 s1 = Some (upd_sft p (\<lambda>_. ?sf) t1)"
  proof -
    have "dir_attrib (setdstart d c e) = dir_attrib e" "dir_name (setdstart d c e) = dir_name e" "dir_time (setdstart d c e) = dir_time e"
      "dir_date (setdstart d c e) = dir_date e" "dir_size (setdstart d c e) = dir_size e" for d c e
      by (simp_all add: setdstart_def Let_def)
    then show ?thesis using getdstart_fits [OF assms(4)] assms(3) t1(2,4) h1
      by (simp add: fnode_to_sft_def Let_def i1) (simp add: n1 word_join_high)
  qed
  moreover have "sfthead (upd_sft p (\<lambda>_. ?sf) t1) = sfthead s" using t1(2) h1(1) by simp
  ultimately show ?thesis using s1 by blast
qed

definition demo_sft :: sft where
  "demo_sft = \<lparr>sft_count = 1, sft_mode = 2, sft_attrib = 0x20, sft_flags = 0x40, sft_dcb = 1, sft_relclust_high = 1, sft_time = 0x6000, sft_date = 0x5851,
     sft_size = 1000, sft_posit = 600, sft_relclust = 1, sft_dirsector = 19, sft_diridx = 3, sft_name = replicate 8 0x41 @ replicate 3 0x42,
     sft_stclust = 5, sft_mach = 0, sft_psp = 0, sft_shroff = 0xffff, sft_cuclust = 6\<rparr>"

theorem sft_fnode_roundtrip_witness:
  "\<forall>x :: nat dos. \<exists>s1 s2. sft_to_fnode 0 (x\<lparr>sfthead := [[demo_sft]]\<rparr>) = Some s1 \<and> fnode_to_sft 0 s1 = Some s2 \<and> sfthead s2 = [[demo_sft]]"
proof
  fix x :: "nat dos"
  let ?s = "x\<lparr>sfthead := [[demo_sft]]\<rparr>"
  have "idx_to_sft 0 ?s = (Some (0, 0), ?s\<lparr>lpCurSft := Some (0, 0)\<rparr>)" by (simp add: idx_to_sft_def idx_to_sft_loc_def demo_sft_def)
  from sft_fnode_roundtrip [OF this] show "\<exists>s1 s2. sft_to_fnode 0 ?s = Some s1 \<and> fnode_to_sft 0 s1 = Some s2 \<and> sfthead s2 = [[demo_sft]]"
    by (simp add: demo_sft_def start_fits_def)
qed


lemma length_give_table [simp]: "length (give_table d n i xs) = length xs"
  by (induction xs arbitrary: i) simp_all



lemma give_tables_shape: "map length (give_tables d n i ts) = map length ts"
  by (induction ts arbitrary: i) simp_all



end
