(* ===== verification/HandleProps.thy ===== *)
theory HandleProps
  imports Handles TrueProps DirProps
begin

text \<open>
  Handles and reference counts. The abstract state of a process and the system file table is the map from its
  handles to entries and the count of each entry. Closing, duplicating and opening a handle are steps of an
  abstract machine that keeps the counts equal to the numbers of references; the calls of the code are shown to be
  such steps, and with them every sequence of calls that succeed.
\<close>

section \<open>The abstract machine\<close>

type_synonym htab = "(nat \<rightharpoonup> nat) \<times> (nat \<Rightarrow> nat)"

inductive hstep :: "htab \<Rightarrow> htab \<Rightarrow> bool" where
  hclose: "tab h = Some i \<Longrightarrow> 0 < cnt i \<Longrightarrow> hstep (tab, cnt) (tab(h := None), cnt(i := cnt i - 1))"
| hdup: "tab h = Some i \<Longrightarrow> tab h' = None \<Longrightarrow> hstep (tab, cnt) (tab(h' \<mapsto> i), cnt(i := cnt i + 1))"
| hopen: "tab h = None \<Longrightarrow> cnt i = 0 \<Longrightarrow> hstep (tab, cnt) (tab(h \<mapsto> i), cnt(i := 1))"

text \<open>\<^verbatim>\<open>other\<close> counts the references that other processes hold.\<close>

definition counted :: "(nat \<Rightarrow> nat) \<Rightarrow> htab \<Rightarrow> bool" where
  "counted other a \<longleftrightarrow> finite (dom (fst a)) \<and> (\<forall>i. snd a i = card {h. fst a h = Some i} + other i)"








section \<open>Places in the tables\<close>

definition put2 :: "nat \<times> nat \<Rightarrow> 'x \<Rightarrow> 'x list list \<Rightarrow> 'x list list" where
  "put2 p x ts = ts[fst p := (ts ! fst p)[snd p := x]]"

lemma sft_loop_flat:
  assumes "sft_loop t i ts = Some p" "0 \<le> i" "map length cs = map length ts"
  shows "t \<le> fst p \<and> nat i < length (concat cs) \<and> concat cs ! nat i = cs ! (fst p - t) ! snd p \<and>
    concat (put2 (fst p - t, snd p) x cs) = (concat cs)[nat i := x]"
  using assms
proof (induction t i ts arbitrary: cs rule: sft_loop.induct)
  case (2 t i sp sps)
  obtain c cs' where cs: "cs = c # cs'" "length c = length sp" "map length cs' = map length sps" using 2(4) by (cases cs) auto
  show ?case
  proof (cases "i < int (length sp)")
    case True
    then show ?thesis using 2(2,3) cs by (auto simp: put2_def nth_append list_update_append nat_less_iff)
  next
    case False
    have l: "sft_loop (t + 1) (i - int (length sp)) sps = Some p" using 2(2) False by simp
    have IH: "t + 1 \<le> fst p \<and> nat (i - int (length sp)) < length (concat cs') \<and>
        concat cs' ! nat (i - int (length sp)) = cs' ! (fst p - (t + 1)) ! snd p \<and>
        concat (put2 (fst p - (t + 1), snd p) x cs') = (concat cs')[nat (i - int (length sp)) := x]"
      by (rule 2(1) [OF False l _ cs(3)]) (use False in simp)
    have e: "nat i = length c + nat (i - int (length sp))" using False cs(2) by simp
    have d: "fst p - t = Suc (fst p - (t + 1))" using IH by arith
    show ?thesis using IH by (simp add: cs(1) e d put2_def nth_append list_update_append)
  qed
qed simp

lemma sft_loop_exists: "0 \<le> i \<Longrightarrow> nat i < length (concat ts) \<Longrightarrow> \<exists>p. sft_loop t i ts = Some p"
proof (induction t i ts rule: sft_loop.induct)
  case (2 t i sp sps)
  then show ?case by (cases "i < int (length sp)") (auto simp: nat_diff_distrib)
qed simp

section \<open>The abstraction\<close>

definition cnts :: "('w, 'a) dos_scheme \<Rightarrow> u16 list" where
  "cnts s = concat (fst (dkeep s))"

definition habs :: "('w, 'a) job_scheme \<Rightarrow> htab" where
  "habs s = (\<lambda>h. if h < unat (ps_maxfiles s) \<and> ps_filetab s h \<noteq> 0xff then Some (unat (ps_filetab s h)) else None,
             \<lambda>i. if i < length (cnts s) then unat (cnts s ! i) else 0)"

lemma job_frame: "snd (dkeep s') = snd (dkeep s) \<Longrightarrow> ps_filetab s' = ps_filetab s \<and> ps_maxfiles s' = ps_maxfiles s"
  by (cases s, cases s') (auto simp: dkeep_def job.defs)

lemma habs_frame: "dkeep s' = dkeep s \<Longrightarrow> habs s' = habs s"
proof -
  assume k: "dkeep s' = dkeep s"
  have j: "ps_filetab s' = ps_filetab s" "ps_maxfiles s' = ps_maxfiles s" using job_frame [of s' s] k by simp_all
  show ?thesis unfolding habs_def cnts_def j k ..
qed

lemma dkeep_put2: "dkeep (upd_sft p f s) = (put2 p (sft_count (f (sft_at p s))) (fst (dkeep s)), snd (dkeep s))"
  by (cases "fst p < length (sfthead s)") (simp_all add: dkeep_def put2_def map_update list_update_beyond)

lemma dkeep_at: "fst p < length (sfthead s) \<Longrightarrow> snd p < length (sfthead s ! fst p) \<Longrightarrow> sft_count (sft_at p s) = fst (dkeep s) ! fst p ! snd p"
  by (simp add: dkeep_def)

lemma dkeep_lengths: "map length (fst (dkeep s)) = map length (sfthead s)"
  by (simp add: dkeep_def)

lemma dkeep_at_frame:
  assumes "dkeep s' = dkeep s" "fst p < length (sfthead s)" "snd p < length (sfthead s ! fst p)"
  shows "sft_count (sft_at p s') = sft_count (sft_at p s)"
proof -
  have l: "map length (sfthead s') = map length (sfthead s)" using assms(1) dkeep_lengths by metis
  then have "fst p < length (sfthead s')" "length (sfthead s' ! fst p) = length (sfthead s ! fst p)"
    using assms(2) l by (metis length_map, metis length_map nth_map)
  then show ?thesis using assms dkeep_at [of p s'] dkeep_at [of p s] by simp
qed

text \<open>An entry that an index leads to, and what a change of its count does to the abstract state.\<close>

lemma idx_to_sft_cnts:
  assumes "idx_to_sft i s = (Some p, s1)"
  shows "0 \<le> i" "nat i < length (cnts s)" "cnts s ! nat i = sft_count (sft_at p s)" "sft_count (sft_at p s) \<noteq> 0"
    "concat (put2 p x (fst (dkeep s))) = (cnts s)[nat i := x]" "fst p < length (sfthead s)" "snd p < length (sfthead s ! fst p)"
    "dkeep s1 = dkeep s" "sfthead s1 = sfthead s"
proof -
  note e = idx_to_sft_entry [OF assms]
  show "0 \<le> i" "sft_count (sft_at p s) \<noteq> 0" "fst p < length (sfthead s)" "snd p < length (sfthead s ! fst p)" "sfthead s1 = sfthead s"
    using e by simp_all
  show "dkeep s1 = dkeep s" using idx_to_sft_frame(1) [of i s] assms by simp
  show "nat i < length (cnts s)" "cnts s ! nat i = sft_count (sft_at p s)" "concat (put2 p x (fst (dkeep s))) = (cnts s)[nat i := x]"
    using sft_loop_flat [OF e(6,7) dkeep_lengths, of x] dkeep_at [OF e(4,5)] by (simp_all add: cnts_def)
qed

definition redirector_closes :: "('w, 'v) services_scheme \<Rightarrow> bool" where
  "redirector_closes V \<longleftrightarrow> (\<forall>sf w r sf' w'. network_redirector_fp V 0x1106 sf w = (r, sf', w') \<longrightarrow> r = SUCCESS \<longrightarrow>
     sft_count sf' = sft_count sf - 1)"

lemma IsShareInstalled_frame [simp]: "IsShareInstalled V b s = (r, s') \<Longrightarrow> dkeep s' = dkeep s"
  by (auto simp: IsShareInstalled_def Let_def split: if_splits prod.splits)

lemma DosCloseSft_counts:
  assumes "DosCloseSft P V i False s = Some (SUCCESS, s')" "redirector_closes V"
  shows "\<exists>p s1. idx_to_sft i s = (Some p, s1) \<and> dkeep s' = (put2 p (sft_count (sft_at p s) - 1) (fst (dkeep s)), snd (dkeep s))"
proof -
  obtain q s0 where i: "idx_to_sft i s = (q, s0)" by fastforce
  then obtain p where p: "idx_to_sft i s = (Some p, s0)" "q = Some p" using assms(1) by (cases q) (auto simp: DosCloseSft_def)
  define s1 where "s1 = s0\<lparr>lpCurSft := Some p\<rparr>"
  note e = idx_to_sft_cnts [OF p(1)]
  have k: "dkeep s1 = dkeep s" "sft_at p s1 = sft_at p s" using e(8,9) by (simp_all add: s1_def)
  have b: "BinaryCharIO P d n buf c s1 = Some (r, x, t) \<Longrightarrow> dkeep t = dkeep s" for d n buf c r x t
    using keeps_dest [OF BinaryCharIO_frame [OF k(1)]] by fastforce
  have c: "dos_close P i s1 = Some (r, t) \<Longrightarrow> dkeep t = dkeep s" for r t
    using keeps_dest [OF dos_close_frame [OF k(1)]] by fastforce
  define dr where "dr = (\<lambda>t. upd_sft p (\<lambda>f. f\<lparr>sft_count := sft_count f - 1\<rparr>) (t :: ('a, 'b) dos_scheme))"
  have dr: "upd_sft p (\<lambda>f. f\<lparr>sft_count := sft_count f - 1\<rparr>) t = dr t" for t by (simp add: dr_def)
  have d: "dkeep (dr t) = (put2 p (sft_count (sft_at p s) - 1) (fst (dkeep s)), snd (dkeep s))" if "dkeep t = dkeep s" for t
    using that dkeep_at_frame [OF that e(6,7)] by (simp add: dr_def dkeep_put2)
  have n: "dkeep (upd_sft p (\<lambda>_. sf') (s1\<lparr>world := w\<rparr>)) = (put2 p (sft_count (sft_at p s) - 1) (fst (dkeep s)), snd (dkeep s))"
    if "network_redirector_fp V 0x1106 (sft_at p s1) (world s1) = (SUCCESS, sf', w)" for sf' w
  proof -
    have "sft_count sf' = sft_count (sft_at p s) - 1"
      using that assms(2) unfolding redirector_closes_def k(2) by blast
    then show ?thesis using k dkeep_put2 [where p = p and f = "\<lambda>_. sf'" and s = "s1\<lparr>world := w\<rparr>"] by simp
  qed
  consider (shared) "sft_flags (sft_at p s1) AND SFT_FSHARED \<noteq> 0"
    | (dev) "sft_flags (sft_at p s1) AND SFT_FSHARED = 0" "sft_flags (sft_at p s1) AND SFT_FDEVICE \<noteq> 0"
    | (disk) "sft_flags (sft_at p s1) AND SFT_FSHARED = 0" "sft_flags (sft_at p s1) AND SFT_FDEVICE = 0" by blast
  then have "dkeep s' = (put2 p (sft_count (sft_at p s) - 1) (fst (dkeep s)), snd (dkeep s))"
  proof cases
    case shared
    obtain r sf' w where r: "network_redirector_fp V 0x1106 (sft_at p s1) (world s1) = (r, sf', w)" by (cases "network_redirector_fp V 0x1106 (sft_at p s1) (world s1)")
    have "r = SUCCESS" "s' = upd_sft p (\<lambda>_. sf') (s1\<lparr>world := w\<rparr>)"
      using assms(1) shared r unfolding DosCloseSft_def p(1) Let_def prod.case option.case s1_def [symmetric] by simp_all
    then show ?thesis using n r by simp
  next
    case dev
    have "\<exists>s2. dkeep s2 = dkeep s \<and> s' = dr s2"
      using assms(1) dev k(1) unfolding DosCloseSft_def p(1) Let_def prod.case option.case s1_def [symmetric] dr
      by (auto simp: bind_eq_Some_conv split: if_splits dest: b intro: exI)
    then show ?thesis using d by auto
  next
    case disk
    obtain s2 where r: "dos_close P i s1 = Some (SUCCESS, s2)"
      using assms(1) disk unfolding DosCloseSft_def p(1) Let_def prod.case option.case s1_def [symmetric] dr
      by (auto simp: bind_eq_Some_conv split: if_splits)
    note k2 = c [OF r]
    have "\<exists>s4. dkeep s4 = dkeep s \<and> s' = dr s4"
    proof (cases "sft_count (sft_at p s2) = 1")
      case True
      obtain share s3 where sh: "IsShareInstalled V True s2 = (share, s3)" by fastforce
      then have k3: "dkeep s3 = dkeep s" using k2 by simp
      define s4 where "s4 = (if share then
        let w = (if \<not> bit (sft_shroff (sft_at p s3)) 15 then share_close_file V (sft_shroff (sft_at p s3)) (world s3) else world s3)
        in upd_sft p (\<lambda>f. f\<lparr>sft_shroff := 0xffff\<rparr>) (s3\<lparr>world := w\<rparr>) else s3)"
      have "s' = dr s4"
        using assms(1) disk r True unfolding DosCloseSft_def p(1) Let_def prod.case option.case s1_def [symmetric] dr
        by (auto simp: sh s4_def Let_def)
      moreover have "dkeep s4 = dkeep s3"
        using upd_sft_frame [of "sft_at p s3\<lparr>sft_shroff := 0xffff\<rparr>" "s3\<lparr>world := w\<rparr>" "fst p" "snd p" for w] by (simp add: s4_def Let_def)
      ultimately show ?thesis using k3 by metis
    next
      case False
      show ?thesis
        using k2 assms(1) disk r False unfolding DosCloseSft_def p(1) Let_def prod.case option.case s1_def [symmetric] dr by auto
    qed
    then show ?thesis using d by auto
  qed
  then show ?thesis using p(1) by blast
qed

section \<open>Closing and duplicating\<close>

lemma sft_loop_lengths: "map length ts = map length ts' \<Longrightarrow> sft_loop t i ts = sft_loop t i ts'"
proof (induction t i ts arbitrary: ts' rule: sft_loop.induct)
  case (2 t i sp sps)
  then show ?case by (cases ts') auto
qed simp

lemma unat_pred: "x \<noteq> 0 \<Longrightarrow> unat (x - 1) = unat x - 1" for x :: u16
  by (simp add: unat_gt_0 unat_sub word_le_nat_alt Suc_le_eq)

lemma unat_succ: "unat x < 65535 \<Longrightarrow> unat (x + 1) = unat x + 1" for x :: u16
  by (simp add: unat_u16_add)

lemma habs_upd:
  assumes "cnts s' = (cnts s)[i := x]" "i < length (cnts s)" "ps_maxfiles s' = ps_maxfiles s"
    "ps_filetab s' = (ps_filetab s)(h := v)" "h < unat (ps_maxfiles s)"
  shows "habs s' = ((fst (habs s))(h := if v = 0xff then None else Some (unat v)), (snd (habs s))(i := unat x))"
proof (rule prod_eqI)
  show "fst (habs s') = fst ((fst (habs s))(h := if v = 0xff then None else Some (unat v)), (snd (habs s))(i := unat x))"
    using assms(3-5) by (auto simp: habs_def)
  show "snd (habs s') = snd ((fst (habs s))(h := if v = 0xff then None else Some (unat v)), (snd (habs s))(i := unat x))"
    using assms(1,2) by (auto simp: habs_def fun_eq_iff)
qed

lemma get_sft_idx_tab:
  "0 \<le> get_sft_idx h s \<Longrightarrow> unat h < unat (ps_maxfiles s) \<and> ps_filetab s (unat h) \<noteq> 0xff \<and> get_sft_idx h s = int (unat (ps_filetab s (unat h)))"
  by (auto simp: get_sft_idx_def Let_def word_le_nat_alt split: if_splits)

lemma get_sft_idx_habs: "0 \<le> get_sft_idx h s \<Longrightarrow> fst (habs s) (unat h) = Some (nat (get_sft_idx h s))"
  using get_sft_idx_tab [of h s] by (simp add: habs_def)

lemma DosClose_habs:
  assumes "DosClose P V hndl s = Some (SUCCESS, s')" "redirector_closes V"
  shows "\<exists>i. fst (habs s) (unat hndl) = Some i \<and> 0 < snd (habs s) i \<and>
      habs s' = ((fst (habs s))(unat hndl := None), (snd (habs s))(i := snd (habs s) i - 1))"
    and "map length (sfthead s') = map length (sfthead s)" and "ps_maxfiles s' = ps_maxfiles s"
    and "ps_filetab s' = (ps_filetab s)(unat hndl := 0xff)"
proof -
  define i where "i = get_sft_idx hndl s"
  obtain p s1 where p: "idx_to_sft i s = (Some p, s1)" "DosCloseSft P V i False (set_hndl hndl 0xff s1) = Some (SUCCESS, s')"
    using assms(1) unfolding DosClose_def Let_def i_def [symmetric] by (cases "idx_to_sft i s") (auto split: if_splits)
  note e = idx_to_sft_cnts [OF p(1)]
  define t where "t = set_hndl hndl 0xff s1"
  have j: "ps_filetab s1 = ps_filetab s" "ps_maxfiles s1 = ps_maxfiles s" using job_frame [of s1 s] e(8) by simp_all
  have t: "fst (dkeep t) = fst (dkeep s)" "ps_filetab t = (ps_filetab s)(unat hndl := 0xff)" "ps_maxfiles t = ps_maxfiles s"
    using e(8) by (simp_all add: t_def dkeep_def j)
  obtain q t1 where q: "idx_to_sft i t = (Some q, t1)" "dkeep s' = (put2 q (sft_count (sft_at q t) - 1) (fst (dkeep t)), snd (dkeep t))"
    using DosCloseSft_counts [OF _ assms(2)] p(2) unfolding t_def by blast
  note f = idx_to_sft_cnts [OF q(1)]
  have c: "cnts t = cnts s" using t(1) by (simp add: cnts_def)
  have s': "cnts s' = (cnts s)[nat i := cnts s ! nat i - 1]" "ps_filetab s' = (ps_filetab s)(unat hndl := 0xff)" "ps_maxfiles s' = ps_maxfiles s"
    using f(3,5) q(2) c t job_frame [of s' t] by (simp_all add: cnts_def)
  have nz: "cnts s ! nat i \<noteq> 0" "nat i < length (cnts s)" using e by simp_all
  have h: "unat hndl < unat (ps_maxfiles s)" using get_sft_idx_tab [of hndl s] e(1) by (simp add: i_def)
  have "habs s' = ((fst (habs s))(unat hndl := None), (snd (habs s))(nat i := unat (cnts s ! nat i - 1)))"
    using habs_upd [OF s'(1) nz(2) s'(3,2) h] by simp
  then show "\<exists>i. fst (habs s) (unat hndl) = Some i \<and> 0 < snd (habs s) i \<and>
      habs s' = ((fst (habs s))(unat hndl := None), (snd (habs s))(i := snd (habs s) i - 1))"
    using get_sft_idx_habs [of hndl s] e(1) nz by (intro exI [of _ "nat i"]) (simp add: i_def [symmetric] habs_def unat_pred unat_gt_0)
  show "map length (sfthead s') = map length (sfthead s)"
    using dkeep_lengths [of s'] dkeep_lengths [of s] q(2) t(1) by (simp add: put2_def same_count)
  show "ps_maxfiles s' = ps_maxfiles s" "ps_filetab s' = (ps_filetab s)(unat hndl := 0xff)" by (fact s'(3), fact s'(2))
qed

lemma add_ref:
  assumes "sft_loop 0 i ts = Some p" "0 \<le> i" "map length (sfthead t) = map length ts"
  shows "cnts (upd_sft p (\<lambda>f. f\<lparr>sft_count := sft_count f + 1\<rparr>) t) = (cnts t)[nat i := cnts t ! nat i + 1]" "nat i < length (cnts t)"
proof -
  have l: "sft_loop 0 i (sfthead t) = Some p" using assms(1) sft_loop_lengths [OF assms(3)] by simp
  note r = sft_loop_entry [OF l assms(2)]
  show "nat i < length (cnts t)" using sft_loop_flat [OF l assms(2) dkeep_lengths] by (simp add: cnts_def)
  show "cnts (upd_sft p (\<lambda>f. f\<lparr>sft_count := sft_count f + 1\<rparr>) t) = (cnts t)[nat i := cnts t ! nat i + 1]"
    using sft_loop_flat [OF l assms(2) dkeep_lengths, of "sft_count (sft_at p t) + 1"] r dkeep_at [of p t] by (simp add: cnts_def dkeep_put2)
qed

definition roomy :: "('w, 'a) job_scheme \<Rightarrow> bool" where
  "roomy s \<longleftrightarrow> (\<forall>i. snd (habs s) i < 65535)"

lemma cnts_length: "map length (sfthead a) = map length (sfthead b) \<Longrightarrow> length (cnts a) = length (cnts b)"
  using dkeep_lengths [of a] dkeep_lengths [of b] by (simp add: cnts_def length_concat)

lemma DosForceDup_habs:
  assumes "DosForceDup P V old new s = Some (SUCCESS, s')" "ps_filetab s (unat new) \<noteq> 0xff \<longrightarrow> redirector_closes V"
    "old \<noteq> new" "new < ps_maxfiles s" "roomy s"
  shows "hstep\<^sup>*\<^sup>* (habs s) (habs s') \<and> ps_maxfiles s' = ps_maxfiles s \<and> length (cnts s') = length (cnts s) \<and> fst (habs s') (unat new) = fst (habs s) (unat old) \<and>
    (\<exists>i. fst (habs s) (unat old) = Some i \<and>
      (ps_filetab s (unat new) = 0xff \<longrightarrow> habs s' = ((fst (habs s))(unat new \<mapsto> i), (snd (habs s))(i := snd (habs s) i + 1))))"
proof -
  define i where "i = get_sft_idx old s"
  obtain p s1 where p: "idx_to_sft i s = (Some p, s1)"
    using assms(1) unfolding DosForceDup_def get_sft_def i_def [symmetric] by (cases "idx_to_sft i s") (auto split: option.splits)
  note e = idx_to_sft_cnts [OF p]
  have j: "ps_filetab s1 = ps_filetab s" "ps_maxfiles s1 = ps_maxfiles s" using job_frame [of s1 s] e(8) by simp_all
  have a1: "habs s1 = habs s" by (rule habs_frame [OF e(8)])
  define F where "F = (\<lambda>t :: ('a, 'b) job_scheme. upd_sft p (\<lambda>f. f\<lparr>sft_count := sft_count f + 1\<rparr>) (set_hndl new (ps_filetab t (unat old)) t))"
  have F: "((if ps_filetab s1 (unat new) \<noteq> 0xff then DosClose P V new s1 else Some (SUCCESS, s1)) \<bind>
      (\<lambda>(ret, s2). if ret \<noteq> SUCCESS then Some (ret, s2) else Some (SUCCESS, F s2))) = Some (SUCCESS, s')"
    using assms(1) unfolding DosForceDup_def get_sft_def i_def [symmetric] p Let_def prod.case option.case F_def .
  obtain s2 where s2: "(if ps_filetab s1 (unat new) \<noteq> 0xff then DosClose P V new s1 else Some (SUCCESS, s1)) = Some (SUCCESS, s2)" "s' = F s2"
    using F unfolding bind_eq_Some_conv by (auto split: if_splits)
  have n: "unat new < unat (ps_maxfiles s)" "unat old \<noteq> unat new" using assms(3,4) by (simp_all add: word_less_nat_alt word_unat_eq_iff)
  have m: "hstep\<^sup>*\<^sup>* (habs s) (habs s2) \<and> map length (sfthead s2) = map length (sfthead s) \<and> ps_maxfiles s2 = ps_maxfiles s \<and>
      ps_filetab s2 = (ps_filetab s)(unat new := 0xff) \<and> (\<forall>i. snd (habs s2) i < 65535) \<and> (ps_filetab s (unat new) = 0xff \<longrightarrow> habs s2 = habs s)"
  proof (cases "ps_filetab s (unat new) = 0xff")
    case True
    then have "s2 = s1" using s2(1) j by simp
    then show ?thesis using a1 True j e(9) assms(5) by (auto simp: roomy_def)
  next
    case False
    then have c: "DosClose P V new s1 = Some (SUCCESS, s2)" and cl: "redirector_closes V" using s2(1) j assms(2) by simp_all
    obtain k where k: "fst (habs s1) (unat new) = Some k" "0 < snd (habs s1) k"
      "habs s2 = ((fst (habs s1))(unat new := None), (snd (habs s1))(k := snd (habs s1) k - 1))"
      using DosClose_habs(1) [OF c cl] by blast
    have "hstep (habs s1) (habs s2)" using hclose [of "fst (habs s1)" "unat new" k "snd (habs s1)"] k by simp
    moreover have "snd (habs s2) i < 65535" for i
    proof -
      have "snd (habs s) k < 65535" "snd (habs s) i < 65535" using assms(5) by (simp_all add: roomy_def)
      then show ?thesis using k(3) a1 by (auto simp: less_imp_diff_less)
    qed
    ultimately show ?thesis using DosClose_habs(2-4) [OF c cl] a1 j e(9) False by auto
  qed
  define t where "t = set_hndl new (ps_filetab s2 (unat old)) s2"
  have lp: "sft_loop 0 i (sfthead s) = Some p" by (rule idx_to_sft_entry(6) [OF p])
  have lt: "map length (sfthead t) = map length (sfthead s)" using m by (simp add: t_def)
  note r = add_ref [OF lp e(1) lt]
  have ct: "cnts t = cnts s2" by (simp add: t_def cnts_def dkeep_def)
  have o: "fst (habs s) (unat old) = Some (nat i)" "ps_filetab s (unat old) \<noteq> 0xff" "nat i = unat (ps_filetab s (unat old))"
    using get_sft_idx_habs [of old s] get_sft_idx_tab [of old s] e(1) by (simp_all add: i_def)
  have f: "ps_filetab s' = (ps_filetab s2)(unat new := ps_filetab s (unat old))" "ps_maxfiles s' = ps_maxfiles s2"
    using m n(2) by (simp_all add: s2(2) F_def)
  have "habs s' = ((fst (habs s2))(unat new \<mapsto> nat i), (snd (habs s2))(nat i := unat (cnts s2 ! nat i + 1)))"
    using habs_upd [OF _ _ f(2,1), of "nat i" "cnts s2 ! nat i + 1"] r o n m unfolding s2(2) F_def t_def [symmetric] ct by simp
  moreover have "unat (cnts s2 ! nat i + 1) = snd (habs s2) (nat i) + 1"
    using m r(2) ct unat_succ [of "cnts s2 ! nat i"] by (auto simp: habs_def dest!: spec [of _ "nat i"])
  ultimately have h: "habs s' = ((fst (habs s2))(unat new \<mapsto> nat i), (snd (habs s2))(nat i := snd (habs s2) (nat i) + 1))" by simp
  have "fst (habs s2) (unat old) = Some (nat i)" "fst (habs s2) (unat new) = None"
    using m o n(2) get_sft_idx_tab [of old s] e(1) by (simp_all add: habs_def i_def)
  then have "hstep (habs s2) (habs s')" using hdup [of "fst (habs s2)" "unat old" "nat i" "unat new" "snd (habs s2)"] h by simp
  then have "hstep\<^sup>*\<^sup>* (habs s) (habs s')" using m by (meson rtranclp.rtrancl_into_rtrancl)
  moreover have "length (cnts s') = length (cnts s)"
    using r(1) ct cnts_length [of s2 s] m unfolding s2(2) F_def t_def [symmetric] by simp
  ultimately show ?thesis using h m f(2) o(1) by auto
qed

section \<open>Opening\<close>

text \<open>What the search for a name leaves alone: the counts and the table of handles.\<close>

definition tkeep :: "('w, 'a) job_scheme \<Rightarrow> u16 list list \<times> (nat \<Rightarrow> u8) \<times> u16" where
  "tkeep s = (fst (dkeep s), ps_filetab s, ps_maxfiles s)"

definition tkeep1 :: "'r \<times> ('w, 'a) job_scheme \<Rightarrow> u16 list list \<times> (nat \<Rightarrow> u8) \<times> u16" where
  "tkeep1 y = tkeep (snd y)"

lemma tkeep1_simp [simp]: "tkeep1 (r, s) = tkeep s"
  by (simp add: tkeep1_def)

lemma tkeep_frame: "dkeep s' = dkeep s \<Longrightarrow> tkeep s' = tkeep s"
  using job_frame [of s' s] by (simp add: tkeep_def)

lemma tkeep_upd [simp]:
  "tkeep (s\<lparr>TempCDS := x1\<rparr>) = tkeep s" "tkeep (s\<lparr>current_ldt := x2\<rparr>) = tkeep s" "tkeep (s\<lparr>world := x3\<rparr>) = tkeep s"
  "tkeep (s\<lparr>CDSp := x4\<rparr>) = tkeep s" "tkeep (s\<lparr>PriPathName := x5\<rparr>) = tkeep s" "tkeep (s\<lparr>DirEntBuffer := x6\<rparr>) = tkeep s"
  "tkeep (s\<lparr>current_sft_idx := x7\<rparr>) = tkeep s" "tkeep (s\<lparr>OpenMode := x8\<rparr>) = tkeep s" "tkeep (s\<lparr>lpCurSft := x9\<rparr>) = tkeep s"
  by (simp_all add: tkeep_def dkeep_def)

lemma keeps_tbind [frame]:
  "keeps tkeep1 m x \<Longrightarrow> (\<And>r s. tkeep s = m \<Longrightarrow> keeps f m (h (r, s))) \<Longrightarrow> keeps f m (x \<bind> h)"
  by (erule keeps_bind) auto

lemma lift_tkeep: "keeps dkeep1 (dkeep s) x \<Longrightarrow> tkeep s = m \<Longrightarrow> keeps tkeep1 m x"
  by (auto simp: keeps_def intro: tkeep_frame)

lemmas lifted_tkeep [frame] =
  media_check_frame [OF refl, THEN lift_tkeep] dos_cd_frame [OF refl, THEN lift_tkeep] dir_exists_frame [OF refl, THEN lift_tkeep]

lemma tn_curdir_frame [frame]: "tkeep s = m \<Longrightarrow> keeps tkeep1 m (tn_curdir P E d s)"
  unfolding tn_curdir_def Let_def by (auto intro!: frame)

lemma keeps_pair: "(\<And>a b. keeps f m (h a b)) \<Longrightarrow> keeps f m (case p of (a, b) \<Rightarrow> h a b)"
  by (cases p) simp

lemma keeps_sum: "(\<And>a. keeps f m (g a)) \<Longrightarrow> (\<And>b. keeps f m (h b)) \<Longrightarrow> keeps f m (case x of Inl a \<Rightarrow> g a | Inr b \<Rightarrow> h b)"
  by (cases x) simp_all

lemma tn_finish_frame [frame]: "tkeep s = m \<Longrightarrow> keeps tkeep1 m (tn_finish P mode r dest s)"
  unfolding tn_finish_def Let_def by (rule keeps_get) (auto intro!: frame keeps_pair)

lemma tn_local_frame [frame]: "tkeep s = m \<Longrightarrow> keeps tkeep1 m (tn_local P E mode d r src s)"
  unfolding tn_local_def Let_def by (auto intro!: frame keeps_pair keeps_sum)

lemma truename_frame [frame]: "tkeep s = m \<Longrightarrow> keeps tkeep1 m (truename P E V src mode s)"
  unfolding truename_def Let_def by (auto intro!: frame keeps_pair split: sum.split)

lemma free_entry_nth: "free_entry k sp = Some i \<Longrightarrow> k \<le> i \<and> i - k < length sp \<and> sft_count (sp ! (i - k)) = 0"
proof (induction k sp rule: free_entry.induct)
  case (2 k f fs)
  show ?case
  proof (cases "sft_count f = 0")
    case False
    then have "k + 1 \<le> i \<and> i - (k + 1) < length fs \<and> sft_count (fs ! (i - (k + 1))) = 0" using 2 by simp
    moreover from this have "i - k = Suc (i - (k + 1))" by arith
    ultimately show ?thesis by simp
  qed (use 2 in auto)
qed simp

lemma free_loop_flat:
  "free_loop t n ts = Some (p, k) \<Longrightarrow>
    n \<le> k \<and> k - n < length (concat ts) \<and> sft_count (concat ts ! (k - n)) = 0 \<and> sft_loop t (int (k - n)) ts = Some p"
proof (induction t n ts rule: free_loop.induct)
  case (2 t n sp sps)
  show ?case
  proof (cases "free_entry 0 sp")
    case None
    then have l: "free_loop (t + 1) (n + length sp) sps = Some (p, k)" using 2(2) by simp
    note IH = 2(1) [OF None l]
    then obtain d where "k = n + length sp + d" using le_Suc_ex by blast
    then show ?thesis using IH None by (simp add: nth_append)
  next
    case (Some i)
    then show ?thesis using 2(2) free_entry_nth [OF Some] by (auto simp: nth_append)
  qed
qed simp

lemma tkeep_put2:
  "tkeep (s\<lparr>sfthead := (sfthead s)[fst p := (sfthead s ! fst p)[snd p := x]]\<rparr>) = (put2 p (sft_count x) (fst (tkeep s)), snd (tkeep s))"
  using dkeep_put2 [where p = p and f = "\<lambda>_. x" and s = s] by (simp add: tkeep_def)

lemma put2_put2: "fst p < length ts \<Longrightarrow> put2 p x (put2 p y ts) = put2 p x ts"
  by (simp add: put2_def)

lemma tkeep_same: "sft_count (f (sft_at p s)) = sft_count (sft_at p s) \<Longrightarrow> tkeep (upd_sft p f s) = tkeep s"
  using upd_sft_frame [of "f (sft_at p s)" s "fst p" "snd p"] by (intro tkeep_frame)

definition redirector_opens :: "('w, 'v) net_scheme \<Rightarrow> bool" where
  "redirector_opens V \<longleftrightarrow> (\<forall>c a fl nm sf w st sf' w'. remote_open V c a fl nm sf w = (st, sf', w') \<longrightarrow> sft_count sf = 0 \<longrightarrow>
     sft_count sf' = 0 \<or> SUCCESS \<le> st \<and> sft_count sf' = 1)"

text \<open>A free entry, and the three ways to open a name into it.\<close>

definition free_at :: "nat \<times> nat \<Rightarrow> ('w, 'a) job_scheme \<Rightarrow> bool" where
  "free_at p s \<longleftrightarrow> fst p < length (sfthead s) \<and> snd p < length (sfthead s ! fst p) \<and> sft_count (sft_at p s) = 0"

definition opened_at :: "nat \<times> nat \<Rightarrow> ('w, 'a) job_scheme \<Rightarrow> ('w, 'b) job_scheme \<Rightarrow> bool" where
  "opened_at p s s' \<longleftrightarrow> tkeep s' = (put2 p 1 (fst (tkeep s)), snd (tkeep s))"

lemma DeviceOpenSft_opened:
  assumes "DeviceOpenSft P dhp p s = Some (rc, s')" "free_at p s"
  shows "opened_at p s s'"
proof -
  define s1 where "s1 = upd_sft p (\<lambda>f. f\<lparr>sft_shroff := 0xffff, sft_count := sft_count f + 1,
         sft_flags := (dh_attr P (dh_addr dhp) AND NOT (SFT_MASK OR SFT_FSHARED)) OR SFT_FDEVICE OR SFT_FEOF,
         sft_name := DosUpFMem s (pad_name (take 8 (dh_name dhp) @ drop 8 (sft_name f))), sft_dcb := dh_addr dhp\<rparr>) s"
  have k1: "opened_at p s s1" using assms(2) by (simp add: s1_def opened_at_def tkeep_put2 free_at_def)
  have "keeps dkeep1 (dkeep s1) (DeviceOpenSft P dhp p s)"
    unfolding DeviceOpenSft_def Let_def s1_def [symmetric] by (auto intro!: frame)
  then have "dkeep s' = dkeep s1" using keeps_dest [OF _ assms(1)] by fastforce
  then show ?thesis using k1 tkeep_frame [of s' s1] by (simp add: opened_at_def)
qed

text \<open>What becomes of the entry: it is in use once when the open succeeds and free again when it fails.\<close>

definition open_outcome :: "nat \<times> nat \<Rightarrow> nat \<Rightarrow> ('w, 'a) job_scheme \<Rightarrow> int + (nat \<times> int) \<Rightarrow> ('w, 'b) job_scheme \<Rightarrow> bool" where
  "open_outcome p i s q s' \<longleftrightarrow> (case q of Inl e \<Rightarrow> tkeep s' = tkeep s | Inr (j, st) \<Rightarrow> opened_at p s s' \<and> j = i)"

lemma free_put2: "free_at p s \<Longrightarrow> tkeep s = (put2 p 0 (fst (tkeep s)), snd (tkeep s))"
  using tkeep_put2 [where p = p and x = "sft_at p s" and s = s] by (simp add: free_at_def)

lemma free_at_length: "free_at p s \<Longrightarrow> fst p < length (fst (tkeep s))"
  by (simp add: free_at_def tkeep_def dkeep_def)

lemma same_lengths: "map length xs = map length ys \<Longrightarrow> length xs = length ys \<and> (\<forall>i < length ys. length (xs ! i) = length (ys ! i))"
  by (metis length_map nth_map)

lemma free_at_dkeep: "free_at p s \<Longrightarrow> dkeep s' = dkeep s \<Longrightarrow> free_at p s'"
  using same_lengths [of "sfthead s'" "sfthead s"] dkeep_lengths [of s'] dkeep_lengths [of s] dkeep_at_frame [of s' s p]
  by (simp add: free_at_def)

lemma open_remote_outcome:
  assumes "open_remote V p i fl a s = (q, s')" "free_at p s" "redirector_opens V"
  shows "open_outcome p i s q s'"
proof -
  obtain c b r sf w where r: "remote_open V c b fl (PriPathName s) (sft_at p (s\<lparr>lpCurSft := Some p\<rparr>)) (world s) = (r, sf, w)"
    and o: "(q, s') = (let s2 = upd_sft p (\<lambda>_. sf) (s\<lparr>lpCurSft := Some p, world := w\<rparr>) in
      if r \<ge> SUCCESS then (Inr (i, r), if sft_count sf = 0 then upd_sft p (\<lambda>f. f\<lparr>sft_count := 1\<rparr>) s2 else s2) else (Inl r, s2))"
    using assms(1) unfolding open_remote_def Let_def by (simp split: prod.splits)
  have "sft_count (sft_at p (s\<lparr>lpCurSft := Some p\<rparr>)) = 0" using assms(2) by (simp add: free_at_def)
  then have c: "sft_count sf = 0 \<or> SUCCESS \<le> r \<and> sft_count sf = 1" using assms(3) r unfolding redirector_opens_def by blast
  define s2 where "s2 = upd_sft p (\<lambda>_. sf) (s\<lparr>lpCurSft := Some p, world := w\<rparr>)"
  have "tkeep s2 = (put2 p (sft_count sf) (fst (tkeep s)), snd (tkeep s))"
    using tkeep_put2 [where p = p and x = sf and s = "s\<lparr>lpCurSft := Some p, world := w\<rparr>"] by (simp add: s2_def)
  then show ?thesis
    using o c free_put2 [OF assms(2)] free_at_length [OF assms(2)] unfolding s2_def [symmetric] Let_def open_outcome_def
    by (auto simp: opened_at_def put2_put2 tkeep_put2 split: if_splits)
qed

lemma dos_open_outcome:
  assumes "dos_open P name fl a (int i) (upd_sft p (\<lambda>f. f\<lparr>sft_count := sft_count f + 1, sft_flags := x\<rparr>) s) = Some (r, s4)" "free_at p s"
  shows "opened_at p s s4"
    "dkeep t = dkeep s4 \<Longrightarrow> tkeep (upd_sft p (\<lambda>f. f\<lparr>sft_count := sft_count f - 1\<rparr>) t) = tkeep s"
proof -
  define s3 where "s3 = upd_sft p (\<lambda>f. f\<lparr>sft_count := sft_count f + 1, sft_flags := x\<rparr>) s"
  have k3: "tkeep s3 = (put2 p 1 (fst (tkeep s)), snd (tkeep s))" using assms(2) by (simp add: s3_def tkeep_put2 free_at_def)
  have k4: "dkeep s4 = dkeep s3" using keeps_dest [OF dos_open_frame [OF refl] assms(1)] by (simp add: s3_def)
  show "opened_at p s s4" using tkeep_frame [OF k4] k3 by (simp add: opened_at_def)
  assume t: "dkeep t = dkeep s4"
  have len: "fst p < length (sfthead s3)" "snd p < length (sfthead s3 ! fst p)" using assms(2) by (simp_all add: s3_def free_at_def)
  have k5: "dkeep t = dkeep s3" using t k4 by simp
  have "sft_count (sft_at p t) = 1" using dkeep_at_frame [OF k5 len] assms(2) by (simp add: s3_def free_at_def)
  then have "tkeep (upd_sft p (\<lambda>f. f\<lparr>sft_count := sft_count f - 1\<rparr>) t) = (put2 p 0 (put2 p 1 (fst (tkeep s))), snd (tkeep s))"
    using tkeep_frame [OF k5] k3 by (simp add: tkeep_put2)
  then show "tkeep (upd_sft p (\<lambda>f. f\<lparr>sft_count := sft_count f - 1\<rparr>) t) = tkeep s"
    using free_put2 [OF assms(2)] put2_put2 [OF free_at_length [OF assms(2)], of 0 1] by simp
qed

lemma open_local_outcome:
  assumes "open_local P V p i fl a s = Some (q, s')" "free_at p s"
  shows "open_outcome p i s q s'"
proof (cases "fl AND O_ACCMODE > 2 \<or> fl AND O_FCB = 0 \<and> a AND NOT 0x2f \<noteq> 0")
  case True
  then show ?thesis using assms(1) unfolding open_local_def by (auto simp: open_outcome_def split: if_splits)
next
  case False
  then have f: "\<not> fl AND O_ACCMODE > 2" "\<not> (fl AND O_FCB = 0 \<and> a AND NOT 0x2f \<noteq> 0)" by auto
  obtain sh s1 where s1: "IsShareInstalled V True s = (sh, s1)" by fastforce
  obtain off w where off: "(if sh then share_open_check V (PriPathName s1) (cu_psp (arena s1)) (fl AND 3) (drop_bit 4 fl AND 7) (world s1)
      else (sft_shroff (sft_at p s1), world s1)) = (off, w)" by fastforce
  define s2 where "s2 = upd_sft p (\<lambda>f. f\<lparr>sft_shroff := off\<rparr>) (s1\<lparr>world := w\<rparr>)"
  have k2: "dkeep s2 = dkeep s"
    using upd_sft_frame [of "sft_at p s1\<lparr>sft_shroff := off\<rparr>" "s1\<lparr>world := w\<rparr>" "fst p" "snd p"] IsShareInstalled_frame [OF s1] by (simp add: s2_def)
  define cl where "cl = (\<lambda>s4. (if \<not> bit (sft_shroff (sft_at p s4)) 15
    then upd_sft p (\<lambda>f. f\<lparr>sft_shroff := 0xffff\<rparr>) (s4\<lparr>world := share_close_file V (sft_shroff (sft_at p s4)) (world s4)\<rparr>) else s4) :: ('a, 'b) job_scheme)"
  have cl: "dkeep (cl t) = dkeep t" for t
    using upd_sft_frame [of "sft_at p t\<lparr>sft_shroff := 0xffff\<rparr>" "t\<lparr>world := w\<rparr>" "fst p" "snd p" for w] by (simp add: cl_def)
  note unf = open_local_def if_not_P [OF f(1)] if_not_P [OF f(2)] s1 Let_def prod.case off s2_def [symmetric]
  show ?thesis
  proof (cases "sh \<and> bit off 15")
    case True
    then show ?thesis using assms(1) tkeep_frame [OF k2] unfolding unf by (auto simp: open_outcome_def)
  next
    case nsh: False
    obtain r s4 where d: "dos_open P (PriPathName (upd_sft p (\<lambda>f. f\<lparr>sft_count := sft_count f + 1, sft_flags := scast (peek (PriPathName s2) 0) - 0x41\<rparr>) s2))
        fl a (int i) (upd_sft p (\<lambda>f. f\<lparr>sft_count := sft_count f + 1, sft_flags := scast (peek (PriPathName s2) 0) - 0x41\<rparr>) s2) = Some (r, s4)"
      and o: "(q, s') = (if r < 0 then (Inl r, upd_sft p (\<lambda>f. f\<lparr>sft_count := sft_count f - 1\<rparr>) (cl s4)) else (Inr (i, r), s4))"
      using assms(1) unfolding unf if_not_P [OF nsh] bind_eq_Some_conv cl_def by (auto split: if_splits)
    show ?thesis
      using o dos_open_outcome [OF d free_at_dkeep [OF assms(2) k2]] cl tkeep_frame [OF k2]
      by (auto simp: open_outcome_def opened_at_def split: if_splits)
  qed
qed

lemma set_fcbname_tkeep [simp]: "tkeep (set_fcbname s) = tkeep s"
  by (simp add: set_fcbname_def)

lemma get_free_sft_found:
  assumes "get_free_sft s = (Some (p, i), s')"
  shows "free_at p s'" "sft_loop 0 (int i) (sfthead s') = Some p" "tkeep s' = tkeep s" "i < length (cnts s)" "cnts s ! i = 0"
proof -
  have f: "free_loop 0 0 (sfthead s) = Some (p, i)" "s' = s\<lparr>current_sft_idx := of_nat i\<rparr>"
    using assms by (auto simp: get_free_sft_def split: option.splits)
  note l = free_loop_flat [OF f(1), simplified]
  note e = sft_loop_entry [of 0 "int i" "sfthead s" p]
  have "sft_count (concat (sfthead s) ! i) = sft_count (sft_at p s)"
    using sft_loop_flat [of 0 "int i" "sfthead s" p "sfthead s" x for x] l by simp
  then show "free_at p s'" using l e by (simp add: free_at_def f(2))
  show "sft_loop 0 (int i) (sfthead s') = Some p" "tkeep s' = tkeep s" using l by (simp_all add: f(2))
  show "i < length (cnts s)" "cnts s ! i = 0"
    using l sft_loop_flat [of 0 "int i" "sfthead s" p "fst (dkeep s)" x for x] e dkeep_at [of p s]
    by (simp_all add: cnts_def dkeep_lengths) (simp_all add: \<open>sft_count (concat (sfthead s) ! i) = sft_count (sft_at p s)\<close>)
qed

lemma opened_at_cnts:
  assumes "opened_at p s s'" "sft_loop 0 (int i) (sfthead s) = Some p"
  shows "cnts s' = (cnts s)[i := 1]" "ps_filetab s' = ps_filetab s" "ps_maxfiles s' = ps_maxfiles s"
  using assms(1) sft_loop_flat [OF assms(2) _ dkeep_lengths, of 1] by (simp_all add: opened_at_def tkeep_def cnts_def)

text \<open>
  A device whose driver asks to be told of opens can refuse one. The code returns without freeing the entry then, so
  that the entry stays in use.
\<close>

definition opens_device :: "'w platform \<Rightarrow> u8 list \<Rightarrow> ('w, 'a) job_scheme \<Rightarrow> bool" where
  "opens_device P fname s \<longleftrightarrow> (\<exists>dhp. IsDevice P fname s = Some dhp \<and> dh_attr P (dh_addr dhp) AND SFT_FOCRM \<noteq> 0)"

lemma DeviceOpenSft_error: "DeviceOpenSft P dhp p s = Some (rc, s') \<Longrightarrow> rc < SUCCESS \<Longrightarrow> rc = DE_ACCESS \<and> dh_attr P (dh_addr dhp) AND SFT_FOCRM \<noteq> 0"
  unfolding DeviceOpenSft_def Let_def by (auto simp: bind_eq_Some_conv split: if_splits)

lemma DosOpenSft_cases:
  fixes s s' :: "('w, 'a) job_scheme"
  assumes "DosOpenSft P E V fname fl a s = Some (q, s')" "redirector_opens V"
  obtains (early) e where "q = Inl e" "tkeep s' = tkeep s"
  | (tried) p i and s3 :: "('w, 'a) job_scheme" where "free_at p s3" "sft_loop 0 (int i) (sfthead s3) = Some p" "tkeep s3 = tkeep s" "i < length (cnts s)" "cnts s ! i = 0"
      "open_outcome p i s3 q s' \<or> q = Inl DE_ACCESS \<and> opened_at p s3 s' \<and> opens_device P fname s3"
proof -
  obtain t s1 where t: "truename P E V fname CDS_MODE_CHECK_DEV_PATH s = Some (t, s1)"
    using assms(1) unfolding DosOpenSft_def by (cases "truename P E V fname CDS_MODE_CHECK_DEV_PATH s") auto
  have k1: "tkeep s1 = tkeep s" using keeps_dest [OF truename_frame [OF refl] t] by simp
  show thesis
  proof (cases t)
    case (Inl e)
    then show thesis using assms(1) early [of e] k1 unfolding DosOpenSft_def t by simp
  next
    case (Inr rn)
    obtain res name where q: "t = Inr (res, name)" using Inr by (cases rn) simp
    define s0 where "s0 = set_fcbname (s1\<lparr>PriPathName := name\<rparr>)"
    have k0: "tkeep s0 = tkeep s" using k1 by (simp add: s0_def)
    have c0: "cnts s0 = cnts s" using k0 by (simp add: tkeep_def cnts_def)
    note unf = DosOpenSft_def t q bind.bind_lunit prod.case sum.case s0_def [symmetric]
    obtain g s2 where g: "get_free_sft s0 = (g, s2)" by fastforce
    show thesis
    proof (cases g)
      case None
      then have "tkeep s2 = tkeep s" using g k0 by (auto simp: get_free_sft_def split: option.splits)
      then show thesis using assms(1) early [of DE_TOOMANY] unfolding unf g None by simp
    next
      case (Some pj)
      obtain p j where j: "g = Some (p, j)" using Some by (cases pj) simp
      note f = get_free_sft_found [OF g [unfolded j]]
      define z where "z = zero_sft\<lparr>sft_psp := cu_psp (arena s2), sft_mode := fl AND 0xf0ff, sft_shroff := 0xffff, sft_attrib := ucast (a OR 0x20)\<rparr>"
      define s3 where "s3 = (upd_sft p (\<lambda>_. z) s2)\<lparr>OpenMode := ucast fl\<rparr>"
      have z: "sft_count z = 0" by (simp add: z_def zero_sft_def)
      have k3: "tkeep s3 = tkeep s" using f(1,3) k0 z tkeep_same [where f = "\<lambda>_. z" and p = p and s = s2] by (simp add: s3_def free_at_def)
      have f3: "free_at p s3" "sft_loop 0 (int j) (sfthead s3) = Some p"
        using f(1,2) z sft_loop_lengths [of "sfthead s3" "sfthead s2" 0 "int j"] by (simp_all add: s3_def free_at_def same_count)
      have "open_outcome p j s3 q s' \<or> q = Inl DE_ACCESS \<and> opened_at p s3 s' \<and> opens_device P fname s3"
      proof (cases "if res AND IS_DEVICE \<noteq> 0 then IsDevice P fname s3 else None")
        case (Some dhp)
        then obtain rc where rc: "DeviceOpenSft P dhp p s3 = Some (rc, s')" "q = (if rc < SUCCESS then Inl rc else Inr (j, 0))"
          using assms(1) unfolding unf g j option.case Let_def z_def [symmetric] s3_def [symmetric] by (auto simp: bind_eq_Some_conv)
        then show ?thesis using DeviceOpenSft_opened [OF _ f3(1)] DeviceOpenSft_error [OF rc(1)] Some
          by (auto simp: open_outcome_def opens_device_def split: if_splits)
      next
        case None
        have "if res AND IS_NETWORK \<noteq> 0 then open_remote V p j fl (a OR 0x20) s3 = (q, s')
            else open_local P V p j fl (a OR 0x20) s3 = Some (q, s')"
          using assms(1) None unfolding unf g j option.case Let_def z_def [symmetric] s3_def [symmetric] by (simp split: if_splits)
        then show ?thesis using open_remote_outcome [OF _ f3(1) assms(2)] open_local_outcome [OF _ f3(1)] by (metis (no_types))
      qed
      then show thesis using tried [OF f3 k3] f(4,5) unfolding c0 by blast
    qed
  qed
qed

lemma DosOpenSft_opened:
  assumes "DosOpenSft P E V fname fl a s = Some (Inr (i, st), s')" "redirector_opens V"
  shows "i < length (cnts s) \<and> cnts s ! i = 0 \<and> cnts s' = (cnts s)[i := 1] \<and> ps_filetab s' = ps_filetab s \<and> ps_maxfiles s' = ps_maxfiles s"
  using assms
proof (cases rule: DosOpenSft_cases)
  case (tried p j s3)
  then have "opened_at p s3 s'" "i = j" by (simp_all add: open_outcome_def)
  then show ?thesis using opened_at_cnts [OF _ tried(2), of s'] tried(3-5) by (simp add: tkeep_def cnts_def)
qed simp

lemma DosOpenSft_failed:
  fixes s s' :: "('w, 'a) job_scheme"
  assumes "DosOpenSft P E V fname fl a s = Some (Inl e, s')" "redirector_opens V"
  shows "ps_filetab s' = ps_filetab s \<and> ps_maxfiles s' = ps_maxfiles s \<and>
    (cnts s' = cnts s \<or> e = DE_ACCESS \<and> (\<exists>t. opens_device P fname (t :: ('w, 'a) job_scheme)) \<and> (\<exists>i < length (cnts s). cnts s ! i = 0 \<and> cnts s' = (cnts s)[i := 1]))"
  using assms
proof (cases rule: DosOpenSft_cases)
  case (early e')
  then show ?thesis by (simp add: tkeep_def cnts_def)
next
  case (tried p i s3)
  have k: "cnts s3 = cnts s" "ps_filetab s3 = ps_filetab s" "ps_maxfiles s3 = ps_maxfiles s" using tried(3) by (simp_all add: tkeep_def cnts_def)
  consider "tkeep s' = tkeep s" | "e = DE_ACCESS" "opened_at p s3 s'" "opens_device P fname s3"
    using tried(3,6) by (auto simp: open_outcome_def)
  then show ?thesis
  proof cases
    case 2
    then show ?thesis using opened_at_cnts [OF 2(2) tried(2)] k tried(4,5) by auto
  qed (simp add: tkeep_def cnts_def)
qed

lemma get_free_hndl_first:
  assumes "get_free_hndl s = Some h"
  shows "h < ps_maxfiles s" "ps_filetab s (unat h) = 0xff" "\<forall>g < unat h. ps_filetab s g \<noteq> 0xff"
proof -
  obtain k where k: "find (\<lambda>h. ps_filetab s h = 0xff) [0..<unat (ps_maxfiles s)] = Some k" "h = of_nat k"
    using assms by (auto simp: get_free_hndl_def)
  then obtain j where j: "j < unat (ps_maxfiles s)" "k = j" "ps_filetab s j = 0xff" "\<forall>g<j. ps_filetab s g \<noteq> 0xff"
    by (auto simp: find_Some_iff)
  have "k < 65536" using j(1,2) unat_u16_less [of "ps_maxfiles s"] by linarith
  then have "unat h = k" using k(2) by (simp add: unat_of_nat)
  then show "h < ps_maxfiles s" "ps_filetab s (unat h) = 0xff" "\<forall>g < unat h. ps_filetab s g \<noteq> 0xff"
    using j by (simp_all add: word_less_nat_alt)
qed

lemma DosOpen_habs:
  assumes "DosOpen P E V fname md a s = Some (Inr (h, st), s')" "redirector_opens V" "length (cnts s) \<le> 255"
  shows "\<exists>i. get_free_hndl s = Some h \<and> snd (habs s) i = 0 \<and> i < length (cnts s) \<and> ps_maxfiles s' = ps_maxfiles s \<and>
    length (cnts s') = length (cnts s) \<and> habs s' = ((fst (habs s))(unat h \<mapsto> i), (snd (habs s))(i := 1))"
proof -
  obtain g where g: "get_free_hndl s = Some g" using assms(1) by (cases "get_free_hndl s") (auto simp: DosOpen_def split: if_splits)
  obtain q s1 where q: "DosOpenSft P E V fname md a s = Some (q, s1)"
    using assms(1) g by (cases "DosOpenSft P E V fname md a s") (auto simp: DosOpen_def split: if_splits)
  then obtain i where i: "q = Inr (i, st)" "h = g" "s' = set_hndl h (of_nat i) s1"
    using assms(1) g by (auto simp: DosOpen_def split: if_splits sum.splits prod.splits)
  note o = DosOpenSft_opened [OF q [unfolded i(1)] assms(2)]
  note f = get_free_hndl_first [OF g]
  have u: "unat (of_nat i :: u8) = i" using o assms(3) by (simp add: unat_of_nat)
  have v: "(of_nat i :: u8) \<noteq> 0xff"
  proof
    assume "(of_nat i :: u8) = 0xff"
    then have "unat (of_nat i :: u8) = 255" by simp
    then show False using u o assms(3) by simp
  qed
  have c: "cnts s' = (cnts s)[i := 1]" using o by (simp add: i(3) cnts_def dkeep_def)
  have "habs s' = ((fst (habs s))(unat h := if (of_nat i :: u8) = 0xff then None else Some (unat (of_nat i :: u8))), (snd (habs s))(i := unat (1 :: u16)))"
    by (rule habs_upd [OF c]) (use o f(1) in \<open>simp_all add: i(2,3) word_less_nat_alt\<close>)
  then have "habs s' = ((fst (habs s))(unat h \<mapsto> i), (snd (habs s))(i := 1))" using u v by simp
  moreover have "snd (habs s) i = 0" using o by (simp add: habs_def)
  moreover have "ps_maxfiles s' = ps_maxfiles s" using o by (simp add: i(3))
  ultimately show ?thesis using o g i(2) by (intro exI [of _ i]) (simp add: c)
qed

section \<open>Sequences of calls\<close>

text \<open>
  The calls that succeed, as steps of the machine. Handles are duplicated onto another handle of the table;
  what happens otherwise is shown below.
\<close>

inductive call_step ::
  "'w platform \<Rightarrow> 'w media_driver \<Rightarrow> ('w, 'v) net_scheme \<Rightarrow> ('w, 'a) job_scheme \<Rightarrow> ('w, 'a) job_scheme \<Rightarrow> bool"
  for P :: "'w platform" and E :: "'w media_driver" and V :: "('w, 'v) net_scheme" where
  "DosClose P V h s = Some (SUCCESS, s') \<Longrightarrow> call_step P E V s s'"
| "DosDup P V h s = Some (Inr h', s') \<Longrightarrow> call_step P E V s s'"
| "DosForceDup P V h h' s = Some (SUCCESS, s') \<Longrightarrow> h \<noteq> h' \<Longrightarrow> h' < ps_maxfiles s \<Longrightarrow> call_step P E V s s'"
| "DosOpen P E V name mode attrib s = Some (Inr (h, st), s') \<Longrightarrow> call_step P E V s s'"

definition handles_ok :: "(nat \<Rightarrow> nat) \<Rightarrow> ('w, 'a) job_scheme \<Rightarrow> bool" where
  "handles_ok other s \<longleftrightarrow> counted other (habs s) \<and> (\<forall>i. other i + unat (ps_maxfiles s) < 65535) \<and> length (cnts s) \<le> 255"

lemma handles_ok_roomy: "handles_ok other s \<Longrightarrow> roomy s"
proof -
  assume a: "handles_ok other s"
  have "card {h. fst (habs s) h = Some i} \<le> card {..<unat (ps_maxfiles s)}" for i
    by (rule card_mono) (auto simp: habs_def split: if_splits)
  then have c: "card {h. fst (habs s) h = Some i} \<le> unat (ps_maxfiles s)" for i by simp
  have d: "snd (habs s) i = card {h. fst (habs s) h = Some i} + other i" "other i + unat (ps_maxfiles s) < 65535" for i
    using a by (simp_all add: handles_ok_def counted_def)
  have "snd (habs s) i < 65535" for i using c [of i] d(1) [of i] d(2) [of i] by linarith
  then show ?thesis by (simp add: roomy_def)
qed

lemma idx_to_sft_open:
  "(\<exists>p s1. idx_to_sft (get_sft_idx h s) s = (Some p, s1)) \<longleftrightarrow> (\<exists>i. fst (habs s) (unat h) = Some i \<and> 0 < snd (habs s) i)"
proof
  assume "\<exists>p s1. idx_to_sft (get_sft_idx h s) s = (Some p, s1)"
  then obtain p s1 where p: "idx_to_sft (get_sft_idx h s) s = (Some p, s1)" by blast
  note e = idx_to_sft_cnts [OF p]
  show "\<exists>i. fst (habs s) (unat h) = Some i \<and> 0 < snd (habs s) i"
    using get_sft_idx_habs [OF e(1)] e(2-4) by (intro exI [of _ "nat (get_sft_idx h s)"]) (simp add: habs_def unat_gt_0)
next
  assume "\<exists>i. fst (habs s) (unat h) = Some i \<and> 0 < snd (habs s) i"
  then obtain i where i: "fst (habs s) (unat h) = Some i" "0 < snd (habs s) i" by blast
  have g: "get_sft_idx h s = int i" using i(1) by (auto simp: habs_def get_sft_idx_def Let_def word_le_nat_alt split: if_splits)
  have c: "i < length (cnts s)" "cnts s ! i \<noteq> 0" using i(2) by (auto simp: habs_def split: if_splits)
  then obtain p where p: "sft_loop 0 (int i) (sfthead s) = Some p"
    using sft_loop_exists [of "int i" "sfthead s" 0] dkeep_lengths [of s] by (auto simp: cnts_def length_concat)
  have "sft_count (sft_at p s) \<noteq> 0"
    using sft_loop_flat [OF p _ dkeep_lengths] sft_loop_entry [OF p] dkeep_at [of p s] c by (simp add: cnts_def)
  then show "\<exists>p s1. idx_to_sft (get_sft_idx h s) s = (Some p, s1)" unfolding g by (simp add: idx_to_sft_def idx_to_sft_loc_def p Let_def)
qed

lemma DosDup_Inr:
  assumes "DosDup P V h s = Some (Inr h', s')"
  shows "get_free_hndl s = Some h'" "DosForceDup P V h h' s = Some (SUCCESS, s')" "h \<noteq> h'"
proof -
  obtain g where g: "get_free_hndl s = Some g" using assms by (cases "get_free_hndl s") (auto simp: DosDup_def)
  then obtain r where r: "DosForceDup P V h g s = Some (r, s')" "\<not> r < 0" "h' = g"
    using assms by (auto simp: DosDup_def bind_eq_Some_conv split: if_splits)
  show "get_free_hndl s = Some h'" using g r(3) by simp
  note f = get_free_hndl_first [OF g]
  show "h \<noteq> h'"
  proof
    assume "h = h'"
    then have "get_sft_idx h s = DE_INVLDHNDL" using f(2) r(3) by (simp add: get_sft_idx_def)
    then have "DosForceDup P V h g s = Some (DE_INVLDHNDL, snd (get_sft h s))"
      by (simp add: DosForceDup_def get_sft_def idx_to_sft_def idx_to_sft_loc_def)
    then show False using r by simp
  qed
  have "ps_filetab (snd (get_sft h s)) = ps_filetab s"
    using job_frame [of "snd (get_sft h s)" s] by (simp add: get_sft_def)
  then have "r = SUCCESS \<or> r = DE_INVLDHNDL"
    using r(1) f(2) unfolding DosForceDup_def by (cases "get_sft h s") (auto simp: Let_def split: option.splits)
  then show "DosForceDup P V h h' s = Some (SUCCESS, s')" using r by auto
qed




text \<open>The witness: a process with handle 0 on the first entry of a table with two duplicates it.\<close>

definition demo_net :: "nat net" where
  "demo_net = \<lparr>network_redirector_fp = (\<lambda>_ f w. (0, f\<lparr>sft_count := sft_count f - 1\<rparr>, w)), share_check = (\<lambda>w. (0, w)), share_close_file = (\<lambda>_ w. w),
     QRemote_Fn = (\<lambda>_ w. (-1, [], w)), remote_call = (\<lambda>_ _ _ w. (-1, w)), remote_open = (\<lambda>_ _ _ _ f w. (-1, f, w)),
     remote_lseek = (\<lambda>_ p w. (p, w)), remote_getspace = (\<lambda>_ _ w. (-1, \<lambda>_. 0, w)), remote_find = (\<lambda>_ _ _ m e w. (-1, m, e, w)),
     remote_setattr = (\<lambda>_ _ w. (-1, w)), remote_lock = (\<lambda>_ _ _ _ w. (-1, w)), share_open_check = (\<lambda>_ _ _ _ w. (0, w)),
     share_is_file_open = (\<lambda>_ w. (False, w)), share_lock_unlock = (\<lambda>_ _ _ _ _ w. (0, w))\<rparr>"

lemma demo_net_ok: "redirector_closes demo_net" "redirector_opens demo_net"
  by (simp_all add: redirector_closes_def redirector_opens_def demo_net_def)

definition demo_handles :: "nat job \<Rightarrow> nat job" where
  "demo_handles x = x\<lparr>sfthead := [[demo_sft, zero_sft]], ps_maxfiles := 3, ps_filetab := (\<lambda>_. 0xff)(0 := 0)\<rparr>"

lemma demo_handles_ok: "handles_ok (\<lambda>_. 0) (demo_handles x)"
proof -
  have c: "cnts (demo_handles x) = [1, 0]" by (simp add: cnts_def dkeep_def demo_handles_def demo_sft_def zero_sft_def)
  have t: "fst (habs (demo_handles x)) h = (if h = 0 then Some 0 else None)" for h by (simp add: habs_def demo_handles_def)
  have n: "snd (habs (demo_handles x)) i = (if i = 0 then 1 else 0)" for i by (cases i) (auto simp: habs_def c nth_Cons split: nat.split)
  have "card {h. fst (habs (demo_handles x)) h = Some i} = (if i = 0 then 1 else 0)" for i
    by (cases i) (auto simp: t)
  moreover have "dom (fst (habs (demo_handles x))) = {0}" by (auto simp: t dom_def)
  ultimately have "counted (\<lambda>_. 0) (habs (demo_handles x))" unfolding counted_def n by simp
  then show ?thesis unfolding handles_ok_def c by (simp add: demo_handles_def)
qed



section \<open>The calls one by one\<close>

lemma get_free_hndl_None: "get_free_hndl s = None \<longleftrightarrow> (\<forall>h < unat (ps_maxfiles s). ps_filetab s h \<noteq> 0xff)"
  by (auto simp: get_free_hndl_def find_None_iff)

lemma DosForceDup_returns:
  assumes "ps_filetab s (unat new) = 0xff"
  shows "\<exists>r s'. DosForceDup P V old new s = Some (r, s') \<and>
    (if \<exists>i. fst (habs s) (unat old) = Some i \<and> 0 < snd (habs s) i then r = SUCCESS else r = DE_INVLDHNDL \<and> habs s' = habs s)"
proof -
  obtain q s1 where q: "get_sft old s = (q, s1)" by fastforce
  have k: "dkeep s1 = dkeep s" using idx_to_sft_frame(1) [of "get_sft_idx old s" s] unfolding q [unfolded get_sft_def] by simp
  have t: "ps_filetab s1 = ps_filetab s" using job_frame [of s1 s] k by simp
  have o: "(\<exists>p. q = Some p) \<longleftrightarrow> (\<exists>i. fst (habs s) (unat old) = Some i \<and> 0 < snd (habs s) i)"
    using idx_to_sft_open [of old s] q by (simp add: get_sft_def)
  show ?thesis
  proof (cases q)
    case None
    then have "DosForceDup P V old new s = Some (DE_INVLDHNDL, s1)" by (simp add: DosForceDup_def q)
    then show ?thesis using o None habs_frame [OF k] by simp
  next
    case (Some p)
    then have "\<exists>s'. DosForceDup P V old new s = Some (SUCCESS, s')" using assms t by (simp add: DosForceDup_def q)
    then show ?thesis using o Some by auto
  qed
qed

text \<open>
  C38. Duplicating a handle, in all cases: without a free handle the call fails and changes nothing; with a handle
  that is not open it fails and no handle or count changes; else it returns the lowest free handle, which refers to the
  same entry, and the count of the entry goes up by one.
\<close>

theorem DosDup_correct:
  assumes "roomy s"
  shows "if \<forall>g < unat (ps_maxfiles s). ps_filetab s g \<noteq> 0xff then DosDup P V h s = Some (Inl DE_TOOMANY, s)
    else case fst (habs s) (unat h) of
      Some i \<Rightarrow>
        if snd (habs s) i = 0 then \<exists>s'. DosDup P V h s = Some (Inl DE_INVLDHNDL, s') \<and> habs s' = habs s
        else \<exists>n s'. DosDup P V h s = Some (Inr n, s') \<and> n < ps_maxfiles s \<and> ps_filetab s (unat n) = 0xff \<and>
          (\<forall>g < unat n. ps_filetab s g \<noteq> 0xff) \<and> habs s' = ((fst (habs s))(unat n \<mapsto> i), (snd (habs s))(i := snd (habs s) i + 1))
    | None \<Rightarrow> \<exists>s'. DosDup P V h s = Some (Inl DE_INVLDHNDL, s') \<and> habs s' = habs s"
proof (cases "get_free_hndl s")
  case None
  then have "DosDup P V h s = Some (Inl DE_TOOMANY, s)" by (simp add: DosDup_def)
  then show ?thesis using None unfolding get_free_hndl_None by simp
next
  case (Some n)
  then have nf: "\<not> (\<forall>g < unat (ps_maxfiles s). ps_filetab s g \<noteq> 0xff)" using get_free_hndl_None [of s] by simp
  note f = get_free_hndl_first [OF Some]
  obtain r s' where r: "DosForceDup P V h n s = Some (r, s')"
    "if \<exists>i. fst (habs s) (unat h) = Some i \<and> 0 < snd (habs s) i then r = SUCCESS else r = DE_INVLDHNDL \<and> habs s' = habs s"
    using DosForceDup_returns [OF f(2)] by blast
  have d: "DosDup P V h s = Some (if r < 0 then Inl DE_INVLDHNDL else Inr n, s')" by (simp add: DosDup_def Some r(1))
  show ?thesis
  proof (cases "\<exists>i. fst (habs s) (unat h) = Some i \<and> 0 < snd (habs s) i")
    case False
    then show ?thesis unfolding if_not_P [OF nf] using d r(2) by (auto split: option.split)
  next
    case True
    then obtain i where i: "fst (habs s) (unat h) = Some i" "0 < snd (habs s) i" by blast
    have ok: "DosDup P V h s = Some (Inr n, s')" using d r(2) True by simp
    note F = DosDup_Inr [OF ok]
    have "habs s' = ((fst (habs s))(unat n \<mapsto> i), (snd (habs s))(i := snd (habs s) i + 1))"
      using DosForceDup_habs [OF F(2) _ F(3) f(1) assms] f(2) i(1) by auto
    then show ?thesis unfolding if_not_P [OF nf] using ok i f by simp
  qed
qed

theorem DosDup_correct_witness:
  "\<forall>x. \<exists>n s'. DosDup demo_machine demo_net 0 (demo_handles x) = Some (Inr n, s') \<and> n < 3 \<and> n \<noteq> 0 \<and> snd (habs s') 0 = 2"
proof
  fix x
  have a: "fst (habs (demo_handles x)) (unat (0 :: u16)) = Some 0" "snd (habs (demo_handles x)) 0 = 1"
    by (simp_all add: habs_def demo_handles_def cnts_def dkeep_def demo_sft_def zero_sft_def)
  have b: "ps_maxfiles (demo_handles x) = 3" "ps_filetab (demo_handles x) = (\<lambda>_. 0xff)(0 := 0)" by (simp_all add: demo_handles_def)
  have c: "\<not> (\<forall>g < unat (3 :: u16). ((\<lambda>_. 0xff)(0 := 0 :: u8)) g \<noteq> 0xff)"
  proof
    assume "\<forall>g < unat (3 :: u16). ((\<lambda>_. 0xff)(0 := 0 :: u8)) g \<noteq> 0xff"
    from this [rule_format, of 1] show False by simp
  qed
  have "\<exists>n s'. DosDup demo_machine demo_net 0 (demo_handles x) = Some (Inr n, s') \<and> n < 3 \<and> ((\<lambda>_. 0xff)(0 := 0 :: u8)) (unat n) = 0xff \<and>
      (\<forall>g < unat n. ((\<lambda>_. 0xff)(0 := 0 :: u8)) g \<noteq> 0xff) \<and>
      habs s' = ((fst (habs (demo_handles x)))(unat n \<mapsto> 0), (snd (habs (demo_handles x)))(0 := 1 + 1))"
    using DosDup_correct [OF handles_ok_roomy [OF demo_handles_ok [of x]], of demo_machine demo_net 0]
    unfolding a b if_not_P [OF c] option.case by simp
  then obtain n s' where n: "DosDup demo_machine demo_net 0 (demo_handles x) = Some (Inr n, s')" "n < 3" "((\<lambda>_. 0xff)(0 := 0 :: u8)) (unat n) = 0xff"
      "habs s' = ((fst (habs (demo_handles x)))(unat n \<mapsto> 0), (snd (habs (demo_handles x)))(0 := 1 + 1))" by blast
  have "n \<noteq> 0" using n(3) by auto
  moreover have "snd (habs s') 0 = 2" unfolding n(4) by simp
  ultimately show "\<exists>n s'. DosDup demo_machine demo_net 0 (demo_handles x) = Some (Inr n, s') \<and> n < 3 \<and> n \<noteq> 0 \<and> snd (habs s') 0 = 2"
    using n(1,2) by blast
qed

text \<open>
  C37. Opening a file, on every branch: a call that succeeds returns the lowest free handle, which refers to an entry of
  the system file table that was free and has the count one now; nothing else changes in the table of handles and
  in the counts. A call that fails leaves both as they were, with one exception: when a device whose driver asks to be
  told of opens refuses, an entry stays in use that no handle refers to. With no handle free, or with bits in the mode
  that are not defined, the call fails at once.
\<close>

theorem DosOpen_correct:
  fixes s s' :: "('w, 'a) job_scheme"
  assumes "DosOpen P E V fname md a s = Some (q, s')" "redirector_opens V" "length (cnts s) \<le> 255"
  shows "(md AND NOT O_VALIDMASK \<noteq> 0 \<longrightarrow> q = Inl DE_INVLDACC) \<and>
    (md AND NOT O_VALIDMASK = 0 \<and> (\<forall>g < unat (ps_maxfiles s). ps_filetab s g \<noteq> 0xff) \<longrightarrow> q = Inl DE_TOOMANY) \<and>
    (case q of
       Inr (h, st) \<Rightarrow> h < ps_maxfiles s \<and> ps_filetab s (unat h) = 0xff \<and> (\<forall>g < unat h. ps_filetab s g \<noteq> 0xff) \<and>
         (\<exists>i. snd (habs s) i = 0 \<and> habs s' = ((fst (habs s))(unat h \<mapsto> i), (snd (habs s))(i := 1)))
     | Inl e \<Rightarrow> habs s' = habs s \<or> e = DE_ACCESS \<and> (\<exists>t. opens_device P fname (t :: ('w, 'a) job_scheme)) \<and>
         (\<exists>i. snd (habs s) i = 0 \<and> habs s' = (fst (habs s), (snd (habs s))(i := 1))))"
    (is "_ \<and> _ \<and> ?outcome")
proof -
  have "md AND NOT O_VALIDMASK \<noteq> 0 \<longrightarrow> q = Inl DE_INVLDACC" using assms(1) by (auto simp: DosOpen_def split: if_splits)
  moreover have "md AND NOT O_VALIDMASK = 0 \<and> (\<forall>g < unat (ps_maxfiles s). ps_filetab s g \<noteq> 0xff) \<longrightarrow> q = Inl DE_TOOMANY"
    using assms(1) get_free_hndl_None [of s] by (auto simp: DosOpen_def)
  moreover have ?outcome
  proof (cases q)
    case (Inr hs)
    obtain h st where q: "q = Inr (h, st)" using Inr by (cases hs) simp
    obtain i where i: "get_free_hndl s = Some h" "snd (habs s) i = 0" "habs s' = ((fst (habs s))(unat h \<mapsto> i), (snd (habs s))(i := 1))"
      using DosOpen_habs [OF assms(1) [unfolded q] assms(2,3)] by blast
    show ?thesis unfolding q sum.case prod.case using get_free_hndl_first [OF i(1)] i(2,3) by blast
  next
    case (Inl e)
    have "habs s' = habs s \<or> e = DE_ACCESS \<and> (\<exists>t. opens_device P fname (t :: ('w, 'a) job_scheme)) \<and>
         (\<exists>i. snd (habs s) i = 0 \<and> habs s' = (fst (habs s), (snd (habs s))(i := 1)))"
    proof (cases "s' = s")
      case False
      then obtain n where n: "get_free_hndl s = Some n" "\<not> md AND NOT O_VALIDMASK \<noteq> 0"
        using assms(1) by (cases "get_free_hndl s") (auto simp: DosOpen_def split: if_splits)
      obtain r s1 where r: "DosOpenSft P E V fname md a s = Some (r, s1)"
        using assms(1) unfolding DosOpen_def if_not_P [OF n(2)] n(1) by (cases "DosOpenSft P E V fname md a s") auto
      have "DosOpenSft P E V fname md a s = Some (Inl e, s')"
        using assms(1) unfolding DosOpen_def if_not_P [OF n(2)] n(1) by (cases r) (auto simp: Inl r split: prod.splits)
      note f = DosOpenSft_failed [OF this assms(2)]
      then have ft: "ps_filetab s' = ps_filetab s" "ps_maxfiles s' = ps_maxfiles s" by blast+
      have t: "fst (habs s') = fst (habs s)" unfolding habs_def ft fst_conv ..
      consider "cnts s' = cnts s" | i where "e = DE_ACCESS" "\<exists>t. opens_device P fname (t :: ('w, 'a) job_scheme)" "i < length (cnts s)" "cnts s ! i = 0" "cnts s' = (cnts s)[i := 1]"
        using f by blast
      then show ?thesis
      proof cases
        case 1
        have "habs s' = habs s" unfolding habs_def ft 1 ..
        then show ?thesis ..
      next
        case (2 i)
        have "snd (habs s') = (snd (habs s))(i := 1)" using 2(3,5) by (auto simp: habs_def fun_eq_iff)
        moreover have "snd (habs s) i = 0" using 2(3,4) by (simp add: habs_def)
        ultimately show ?thesis using t 2(1,2) by (intro disjI2 conjI exI [of _ i]) (simp_all add: prod_eq_iff)
      qed
    qed simp
    then show ?thesis unfolding Inl sum.case .
  qed
  ultimately show ?thesis by blast
qed

text \<open>The witness: the device \<^verbatim>\<open>nul\<close> is opened for reading and writing.\<close>

definition demo_open :: "nat job \<Rightarrow> nat job" where
  "demo_open x = demo_handles (demo_job x)"

lemma demo_IsDevice:
  "nul_dev s = nul_dev (demo_job x) \<Longrightarrow> nlsFUpcase s = (\<lambda>c. c) \<Longrightarrow> IsDevice demo_machine [0x6e, 0x75, 0x6c] s = Some (hd (nul_dev s))"
  by (simp add: IsDevice_def get_root_def demo_job_def demo_machine_def DosUpFChar_def DosUpFMem_def upMMem_def up_char_def)

lemma demo_open_name:
  "truename demo_machine E demo_net [0x6e, 0x75, 0x6c] 2 (demo_open x) =
    Some (Inr (0x22, [0x43, 0x3a, 0x2f, 0x4e, 0x55, 0x4c]), (demo_open x)\<lparr>TempCDS := CDSp (demo_open x) 2, current_ldt := Ldt 2\<rparr>)"
proof -
  have d: "IsDevice demo_machine [0x6e, 0x75, 0x6c] (demo_open x) = Some (hd (nul_dev (demo_open x)))"
    by (rule demo_IsDevice [of _ x]) (simp_all add: demo_open_def demo_handles_def demo_job_def)
  have p: "path_loop slash 2 False [0x43, 0x3a] [0x6e, 0x75, 0x6c] = Inr (False, [0x43, 0x3a, 0x2f, 0x6e, 0x75, 0x6c])"
    by code_simp
  show ?thesis unfolding truename_def d
    by (simp add: Let_def tn_cds_def tn_drive_def get_cds_def demo_open_def demo_handles_def demo_job_def demo_net_def tn_local_def tn_device_def
        get_root_def tn_path_def p tn_finish_def DosUpFString_def DosUpFMem_def upMMem_def up_char_def)
qed

lemma demo_clock_answers:
  "\<exists>d t. dos_getdate demo_machine s = Some (d, t)" "\<exists>d t. dos_gettime demo_machine s = Some (d, t)"
  by (simp_all add: dos_getdate_def dos_gettime_def DosGetDate_def DosGetTime_def ExecuteClockDriverRequest_def BinaryCharIO.simps CharRequest_def
      demo_machine_def Let_def)

lemma demo_DeviceOpen: "\<exists>s'. DeviceOpenSft demo_machine dhp p s = Some (SUCCESS, s')"
proof -
  define attr where "attr = dh_attr demo_machine (dh_addr dhp)"
  have a: "\<not> attr AND SFT_FOCRM \<noteq> 0" by (simp add: attr_def demo_machine_def)
  define s1 where "s1 = upd_sft p (\<lambda>f. f\<lparr>sft_shroff := 0xffff, sft_count := sft_count f + 1,
         sft_flags := (attr AND NOT (SFT_MASK OR SFT_FSHARED)) OR SFT_FDEVICE OR SFT_FEOF,
         sft_name := DosUpFMem s (pad_name (take 8 (dh_name dhp) @ drop 8 (sft_name f))), sft_dcb := dh_addr dhp\<rparr>) s"
  obtain d s2 where d: "dos_getdate demo_machine s1 = Some (d, s2)" using demo_clock_answers by blast
  obtain t s3 where t: "dos_gettime demo_machine s2 = Some (t, s3)" using demo_clock_answers by blast
  show ?thesis unfolding DeviceOpenSft_def Let_def attr_def [symmetric] s1_def [symmetric] d bind.bind_lunit prod.case t if_not_P [OF a] by blast
qed

lemma demo_DosOpen: "\<exists>s'. DosOpen demo_machine E demo_net [0x6e, 0x75, 0x6c] 2 0 (demo_open x) = Some (Inr (1, 0), s')"
proof -
  define s1 where "s1 = set_fcbname ((demo_open x)\<lparr>TempCDS := CDSp (demo_open x) 2, current_ldt := Ldt 2, PriPathName := [0x43, 0x3a, 0x2f, 0x4e, 0x55, 0x4c]\<rparr>)"
  have f: "get_free_sft s1 = (Some ((0, 1), 1), s1\<lparr>current_sft_idx := 1\<rparr>)"
    by (simp add: get_free_sft_def s1_def set_fcbname_def demo_open_def demo_handles_def demo_sft_def zero_sft_def)
  have h: "get_free_hndl (demo_open x) = Some 1" by (simp add: get_free_hndl_def demo_open_def demo_handles_def upt_conv_Cons)
  have d: "IsDevice demo_machine [0x6e, 0x75, 0x6c] s = Some (hd (nul_dev s))"
    if "nul_dev s = nul_dev s1" "nlsFUpcase s = nlsFUpcase s1" for s
    using that by (intro demo_IsDevice [of _ x]) (simp_all add: s1_def set_fcbname_def demo_open_def demo_handles_def demo_job_def)
  have "\<exists>s'. DosOpenSft demo_machine E demo_net [0x6e, 0x75, 0x6c] 2 0 (demo_open x) = Some (Inr (1, 0), s')"
    unfolding DosOpenSft_def demo_open_name bind.bind_lunit prod.case sum.case s1_def [symmetric] f option.case Let_def
    using demo_DeviceOpen by (auto simp: d bind_eq_Some_conv) blast
  then show ?thesis unfolding DosOpen_def h by auto
qed

theorem DosOpen_correct_witness:
  "\<forall>E x. \<exists>s' i. DosOpen demo_machine E demo_net [0x6e, 0x75, 0x6c] 2 0 (demo_open x) = Some (Inr (1, 0), s') \<and>
    snd (habs (demo_open x)) i = 0 \<and> habs s' = ((fst (habs (demo_open x)))(1 \<mapsto> i), (snd (habs (demo_open x)))(i := 1))"
proof (intro allI)
  fix E x
  obtain s' where s': "DosOpen demo_machine E demo_net [0x6e, 0x75, 0x6c] 2 0 (demo_open x) = Some (Inr (1, 0), s')" using demo_DosOpen by blast
  have "length (cnts (demo_open x)) \<le> 255" using demo_handles_ok [of "demo_job x"] by (simp add: handles_ok_def demo_open_def)
  from DosOpen_correct [OF s' demo_net_ok(2) this]
  have "\<exists>i. snd (habs (demo_open x)) i = 0 \<and> habs s' = ((fst (habs (demo_open x)))(unat (1 :: u16) \<mapsto> i), (snd (habs (demo_open x)))(i := 1))"
    unfolding sum.case prod.case by blast
  then show "\<exists>s' i. DosOpen demo_machine E demo_net [0x6e, 0x75, 0x6c] 2 0 (demo_open x) = Some (Inr (1, 0), s') \<and>
    snd (habs (demo_open x)) i = 0 \<and> habs s' = ((fst (habs (demo_open x)))(1 \<mapsto> i), (snd (habs (demo_open x)))(i := 1))"
    using s' by auto
qed

section \<open>Outside the table\<close>

text \<open>
  Two calls of \<^verbatim>\<open>DosForceDup\<close> that the steps above leave out. Duplicating a handle onto itself closes it: the byte of the
  table is FFh afterwards, while the count of the entry is what it was, so that the entry is never freed. And
  there is no check of the new handle: behind the table the byte is written and the call succeeds.
\<close>

lemma DosForceDup_self:
  assumes "DosForceDup P V h h s = Some (SUCCESS, s')" "redirector_closes V"
  shows "ps_filetab s' (unat h) = 0xff"
proof -
  obtain p s1 where g: "get_sft h s = (Some p, s1)"
    using assms(1) unfolding DosForceDup_def by (cases "get_sft h s") (auto split: option.splits)
  have k: "dkeep s1 = dkeep s" by (rule idx_to_sft_cnts(8)) (use g in \<open>simp add: get_sft_def\<close>)
  note i = idx_to_sft_cnts [OF g [unfolded get_sft_def]]
  have "ps_filetab s1 (unat h) \<noteq> 0xff" using get_sft_idx_tab [OF i(1)] job_frame [of s1 s] k by simp
  then obtain s2 where c: "DosClose P V h s1 = Some (SUCCESS, s2)" and s': "ps_filetab s' (unat h) = ps_filetab s2 (unat h)"
    using assms(1) unfolding DosForceDup_def g Let_def prod.case option.case
    by (auto simp: bind_eq_Some_conv split: if_splits)
  then show ?thesis using DosClose_habs(4) [OF c assms(2)] by simp
qed

lemma DosForceDup_behind_table:
  "DosForceDup P V 0 200 (demo_handles x) = Some (SUCCESS, x\<lparr>sfthead := [[demo_sft\<lparr>sft_count := 2\<rparr>, zero_sft]], ps_maxfiles := 3,
    ps_filetab := (\<lambda>_. 0xff)(0 := 0, 200 := 0), lpCurSft := Some (0, 0)\<rparr>)"
  by (simp add: DosForceDup_def get_sft_def get_sft_idx_def demo_handles_def idx_to_sft_def idx_to_sft_loc_def demo_sft_def Let_def)

end
