(* ===== verification/CacheProps.thy ===== *)
theory CacheProps
  imports BlockCache
begin

text \<open>
  The properties of the block cache, stated over the operations of \<^verbatim>\<open>blockio.c\<close>, with a concrete
  device (a disk kept in memory) and a concrete cache of three buffers as witnesses.
\<close>

section \<open>A concrete device and cache\<close>

type_synonym ram = "u32 \<Rightarrow> u8 \<Rightarrow> u32 \<Rightarrow> bytes"

definition ram_disk :: "ram platform" where
  "ram_disk = \<lparr>
     execrh = (\<lambda>rq dev buf w.
       if r_command rq = C_INPUT then
         (rq\<lparr>r_status := S_DONE\<rparr>,
          \<lambda>i. if i < 512 * unat (r_count rq) then w dev (r_unit rq) (rq_block rq + of_nat (i div 512)) (i mod 512) else buf i,
          w)
       else if r_command rq = C_OUTPUT \<or> r_command rq = C_OUTVFY then
         (rq\<lparr>r_status := S_DONE\<rparr>, buf,
          \<lambda>dev' un b. if dev' = dev \<and> un = r_unit rq \<and> unat (b - rq_block rq) < unat (r_count rq)
            then sector (\<lambda>i. buf (512 * unat (b - rq_block rq) + i)) else w dev' un b)
       else (rq\<lparr>r_status := 0x8103\<rparr>, buf, w)),
     dh_attr = (\<lambda>_. 0), CriticalError = (\<lambda>_ _ _ _ w. (ERR_FAIL, w)), network_redirector = (\<lambda>_ w. w)\<rparr>"

lemma ram_disk_good: "good_disk ram_disk (\<lambda>w. w)"
  by (simp add: good_disk_def ram_disk_def)

definition demo_dpb :: dpb where
  "demo_dpb = \<lparr>dpb_unit = 0, dpb_subunit = 0, dpb_secsize = 512, dpb_clsmask = 0, dpb_shftcnt = 0, dpb_fatstrt = 1,
     dpb_fats = 2, dpb_dirents = 224, dpb_data = 33, dpb_size = 2848, dpb_fatsize = 9, dpb_dirstrt = 19, dpb_device = 0x700040,
     dpb_mdb = 0xf0, dpb_flags = 0, dpb_next = 0xffffffff, dpb_cluster = 0, dpb_xnfreeclst = 0xffffffff, dpb_xflags = 0, dpb_xfsinfosec = 0xffff, dpb_xbackupsec = 0xffff,
     dpb_xdata = 0, dpb_xsize = 0, dpb_xfatsize = 0, dpb_xrootclst = 0, dpb_xcluster = 0\<rparr>"

definition demo_buf :: "u16 \<Rightarrow> u16 \<Rightarrow> u8 \<Rightarrow> u32 \<Rightarrow> bytes \<Rightarrow> buffer" where
  "demo_buf n p fl b d = \<lparr>b_next = n, b_prev = p, b_unit = 0, b_flag = fl, b_blkno = b, b_copies = 1, b_offset = 0, b_dpbp = 0,
     b_buffer = d\<rparr>"

definition demo_cache :: "ram kst" where
  "demo_cache = \<lparr>
     bufs = (\<lambda>_. demo_buf 0 0 0 0 (\<lambda>_. 0))
       (0x100 := demo_buf 0x314 0x528 0 0 (\<lambda>_. 0), 0x314 := demo_buf 0x528 0x100 0x68 5 (\<lambda>_. 7),
        0x528 := demo_buf 0x100 0x314 0 0 (\<lambda>_. 0)),
     bufseg = 0x80, firstbuf = 0x100, LoL_nbuffers = 3, bufloc = 0, deblock_buf = (\<lambda>_. 0),
     IoReqHdr = \<lparr>r_length = 0, r_unit = 0, r_command = 0, r_status = 0, r_meddesc = 0, r_count = 0, r_start = 0, r_huge = 0\<rparr>,
     CritErrCode = 0, verify_ena = 0, dpbs = (\<lambda>_. demo_dpb), 
     CDSp = (\<lambda>_. \<lparr>cdsCurrentPath = [0x41, 0x3a, 0x5c], cdsFlags = CDSPHYSDRV, cdsDpb = 1, cdsStrtClst = 0xffff, cdsBackslashOffset = 2\<rparr>),
     lastdrive = 1, default_drive = 0, world = (\<lambda>_ _ _ _. 0)\<rparr>"

definition demo_io :: "ram disk" where
  "demo_io = (\<lambda>w. w)"

lemma demo_dpb_0: "get_dpb 0 demo_cache = 1"
  by (simp add: get_dpb_def get_cds_def demo_cache_def)

lemma demo_drive: "drive demo_cache 0 = demo_dpb"
  by (simp add: drive_def demo_cache_def)

lemma demo_ring: "ring (bufs demo_cache) (firstbuf demo_cache) [0x100, 0x314, 0x528]"
  by (simp add: ring_def demo_cache_def demo_buf_def)

lemma demo_cache_inv: "cache_inv ram_disk demo_io {0} {} demo_cache [0x100, 0x314, 0x528]"
proof -
  have "drives {0} demo_cache" by (simp add: drives_def demo_dpb_0 demo_drive demo_dpb_def)
  moreover have "valid (bufs demo_cache p) \<longrightarrow> block_ok demo_io {0} {} demo_cache (bufs demo_cache p)" for p
    by (simp add: demo_cache_def demo_buf_def valid_def block_ok_def dirty_def is_fat_def)
  moreover have "p = q" if "valid (bufs demo_cache p)" "valid (bufs demo_cache q)" for p q
    using that by (simp add: demo_cache_def demo_buf_def valid_def split: if_splits)
  ultimately show ?thesis
    using ram_disk_good demo_ring by (simp add: cache_inv_def demo_io_def)
qed

lemma demo_cache_ok: "cache_ok ram_disk demo_io {0} {} demo_cache"
  by (rule cache_okI [OF demo_cache_inv])

section \<open>Transparency\<close>

text \<open>
  C9. Reading a block through the cache, after any sequence of block writes through the cache,
  gives the data of the last write to that block, or what the disk and the cache held before if
  there was none, whichever buffers were recycled on the way.
\<close>

theorem cache_read_after_writes:
  assumes "cache_ok P D U M s" "\<forall>w \<in> set ws. usable U M (fst w) (fst (snd w))" "usable U M u b"
  shows "\<exists>s1 p s2. write_blocks (\<lambda>b u. getblk P b u False) put_data ws s = Some s1 \<and> getblk P b u False s1 = Some (Some p, s2) \<and>
    sector (b_buffer (bufs s2 p)) = last_written ws (content D s) u b"
  using assms by (rule cache.read_after_writes)

theorem cache_read_after_writes_witness:
  "\<exists>s1 p s2. write_blocks (\<lambda>b u. getblk ram_disk b u False) put_data
      [(0, 3, \<lambda>_. 1), (0, 4, \<lambda>_. 2), (0, 9, \<lambda>_. 3), (0, 10, \<lambda>_. 4), (0, 3, \<lambda>_. 5)] demo_cache = Some s1 \<and>
    getblk ram_disk 3 0 False s1 = Some (Some p, s2) \<and> sector (b_buffer (bufs s2 p)) = sector (\<lambda>_. 5)"
  using cache_read_after_writes [OF demo_cache_ok,
    of "[(0, 3, \<lambda>_. 1), (0, 4, \<lambda>_. 2), (0, 9, \<lambda>_. 3), (0, 10, \<lambda>_. 4), (0, 3, \<lambda>_. 5)]" 0 3]
  by (simp add: usable_def)

section \<open>Flushing\<close>

text \<open>
  C10. \<^verbatim>\<open>flush_buffers\<close> returns success, after it the disk of the drive holds, block by block, what the
  cache showed before, nothing visible through the cache has changed, and \<^verbatim>\<open>dirty_buffers\<close>
  reports the drive clean.
\<close>

theorem flush_buffers_correct:
  assumes "cache_ok P D U M s" "u \<in> U"
  shows "\<exists>s'. flush_buffers P u s = Some (True, s') \<and> cache_ok P D U M s' \<and> dirty_buffers u s' = Some False \<and>
    (\<forall>b. usable U M u b \<longrightarrow> on_disk D s' u b = content D s u b) \<and>
    (\<forall>u' b. usable U M u' b \<longrightarrow> content D s' u' b = content D s u' b)"
proof -
  obtain s' where s': "flush_buffers P u s = Some (True, s')" "cache_ok P D U M s'" "ring_of s' = ring_of s"
      "\<And>u b. usable U M u b \<Longrightarrow> content D s' u b = content D s u b"
      "\<And>p. p \<in> set (ring_of s) \<Longrightarrow> unit_of (bufs s' p) = u \<Longrightarrow> \<not> (valid (bufs s' p) \<and> dirty (bufs s' p))"
    using flush_selected [OF assms(1), of "\<lambda>b. unit_of b = u"] by (auto simp: flush_buffers_def)
  have "dirty_buffers u s' = Some False" using dirty_buffers_iff [OF s'(2), of u] s'(3,5) by auto
  moreover have "on_disk D s' u b = content D s u b" if "usable U M u b" for b
    using clean_on_disk [OF s'(2), of b u] s'(3,5) s'(4) [OF that] by (auto simp: is_hit_iff)
  ultimately show ?thesis using s'(1,2,4) by blast
qed

lemma demo_content: "content demo_io demo_cache 0 5 = sector (\<lambda>_. 7)"
proof -
  have "is_hit 5 0 (bufs demo_cache 0x314)" by (simp add: is_hit_def demo_cache_def demo_buf_def)
  then have "holds demo_cache 0x314 0 5" using ring_of_eq [OF demo_ring] by (simp add: holds_def)
  from holds_content [OF demo_cache_ok this] show ?thesis by (simp add: demo_cache_def demo_buf_def)
qed

theorem flush_buffers_correct_witness:
  "\<exists>s'. flush_buffers ram_disk 0 demo_cache = Some (True, s') \<and> dirty_buffers 0 s' = Some False \<and>
    on_disk demo_io s' 0 5 = sector (\<lambda>_. 7)"
  using flush_buffers_correct [OF demo_cache_ok, of 0] demo_content by (auto simp: usable_def)

text \<open>
  C11. Before sectors are read past the cache, \<^verbatim>\<open>DeleteBlockInBufferCache\<close> in read mode makes the disk
  agree with the cache on the whole range of blocks asked for, and changes nothing that is
  visible through the cache.
\<close>

theorem DeleteBlockInBufferCache_read:
  assumes "cache_ok P D U M s" "u \<in> U"
  shows "\<exists>s'. DeleteBlockInBufferCache P lo hi u XFR_READ s = Some (False, s') \<and> cache_ok P D U M s' \<and>
    (\<forall>b. usable U M u b \<and> lo \<le> b \<and> b \<le> hi \<longrightarrow> on_disk D s' u b = content D s u b) \<and>
    (\<forall>u' b. usable U M u' b \<longrightarrow> content D s' u' b = content D s u' b)"
proof -
  let ?S = "\<lambda>b. lo \<le> b_blkno b \<and> b_blkno b \<le> hi \<and> b_flag b AND BFR_VALID \<noteq> 0 \<and> unit_of b = u"
  obtain s' where l: "ring_loop (\<lambda>p s. if ?S (bufs s p) then flush1 P p s else Some (True, s)) (firstbuf s) True s = Some (True, s')"
      and s': "cache_ok P D U M s'" "ring_of s' = ring_of s" "\<And>u b. usable U M u b \<Longrightarrow> content D s' u b = content D s u b"
      "\<And>p. p \<in> set (ring_of s) \<Longrightarrow> ?S (bufs s' p) \<Longrightarrow> \<not> (valid (bufs s' p) \<and> dirty (bufs s' p))"
    using flush_selected [OF assms(1), of ?S] by blast
  have "DeleteBlockInBufferCache P lo hi u XFR_READ s = Some (False, s')"
    using l by (simp add: DeleteBlockInBufferCache_def Let_def cong: if_cong)
  moreover have "on_disk D s' u b = content D s u b" if "usable U M u b" "lo \<le> b" "b \<le> hi" for b
    using clean_on_disk [OF s'(1), of b u] s'(2,4) s'(3) [OF that(1)] that by (auto simp: is_hit_iff valid_def flag_simps)
  ultimately show ?thesis using s'(1,3) by blast
qed

theorem DeleteBlockInBufferCache_read_witness:
  "\<exists>s'. DeleteBlockInBufferCache ram_disk 4 8 0 XFR_READ demo_cache = Some (False, s') \<and> on_disk demo_io s' 0 5 = sector (\<lambda>_. 7)"
  using DeleteBlockInBufferCache_read [OF demo_cache_ok, of 0 4 8] demo_content by (auto simp: usable_def)

section \<open>Errors\<close>

text \<open>
  C12. A transfer the device refuses, when the user answers Abort or Fail, returns the status of the
  device and leaves the error code for the program: 0x13 plus the low byte of the status.
\<close>

theorem dskxfer_error:
  assumes "get_dpb u s \<noteq> 0" "xfer_command mode s = Some cmd" "mode = DSKREAD \<or> mode = DSKWRITE"
    and "xfer_once P (drive s u) (xfer_request P (drive s u) cmd b n (IoReqHdr s)) sg buf n mode s = (buf', s1)"
    and "r_status (IoReqHdr s1) AND 0x8100 \<noteq> 0x100"
    and "CriticalError P (if mode = DSKWRITE then 0x39 else 0x38) (scast (dpb_unit (drive s u))) (r_status (IoReqHdr s1) AND S_MASK)
      (dpb_device (drive s u)) (world s1) = (r, w)" "r = ERR_ABORT \<or> r = ERR_FAIL"
  shows "\<exists>s'. dskxfer P u b sg buf n mode s = Some (r_status (IoReqHdr s1), buf', s') \<and>
    CritErrCode s' = (r_status (IoReqHdr s1) AND S_MASK) + 0x13"
proof -
  let ?s2 = "s1\<lparr>CritErrCode := (r_status (IoReqHdr s1) AND S_MASK) + 0x13, world := w\<rparr>"
  have "block_error P (scast (dpb_unit (drive s u))) (dpb_device (drive s u)) mode s1 = (r, ?s2)"
    using assms(3,6) by (auto simp: block_error_def Let_def)
  then have a: "ask_user P (scast (dpb_unit (drive s u))) (dpb_device (drive s u)) mode s1 = Some (r, ?s2)"
    using assms(7) by (subst ask_user.simps) auto
  have "\<not> mode \<ge> DSKWRITEINT26" using assms(3) by auto
  then have "xfer_loop P (drive s u) b sg n mode buf s = Some (r_status (IoReqHdr s1), buf', ?s2)"
    using assms(2,4,5,7) a by (subst xfer_loop.simps) auto
  then show ?thesis using assms(1) by (simp add: dskxfer_def drive_def)
qed

definition bad_disk :: "ram platform" where
  "bad_disk = ram_disk\<lparr>execrh := (\<lambda>rq dev buf w.
     if r_command rq = C_INPUT \<and> rq_block rq = 9 then (rq\<lparr>r_status := 0x8104\<rparr>, \<lambda>_. 0xaa, w)
     else execrh ram_disk rq dev buf w)\<rparr>"

theorem dskxfer_error_witness:
  "\<exists>s'. dskxfer bad_disk 0 9 0x80 (\<lambda>_. 0) 1 DSKREAD demo_cache = Some (0x8104, \<lambda>_. 0xaa, s') \<and> CritErrCode s' = 0x17"
proof -
  let ?rq = "xfer_request bad_disk demo_dpb C_INPUT 9 1 (IoReqHdr demo_cache)"
  have "execrh bad_disk ?rq (dpb_device demo_dpb) (\<lambda>_. 0) (world demo_cache) = (?rq\<lparr>r_status := 0x8104\<rparr>, \<lambda>_. 0xaa, world demo_cache)"
    by (simp add: bad_disk_def)
  from xfer_once_direct [OF this, of "0x80" 1 DSKREAD]
  have "xfer_once bad_disk (drive demo_cache 0) (xfer_request bad_disk (drive demo_cache 0) C_INPUT 9 1 (IoReqHdr demo_cache)) 0x80
      (\<lambda>_. 0) 1 DSKREAD demo_cache =
    (\<lambda>_. 0xaa, after_io (?rq\<lparr>r_status := 0x8104\<rparr>) (deblock_buf demo_cache) (world demo_cache) demo_cache)"
    by (simp add: demo_drive)
  from dskxfer_error [OF _ _ _ this, where r = ERR_FAIL and w = "world demo_cache"] show ?thesis
    by (simp add: demo_dpb_0 xfer_command_def bad_disk_def ram_disk_def)
qed

definition full_cache :: "ram kst" where
  "full_cache = demo_cache\<lparr>
     bufs := (\<lambda>_. demo_buf 0 0 0 0 (\<lambda>_. 0))
       (0x100 := demo_buf 0x314 0x528 0x28 1 (\<lambda>_. 0), 0x314 := demo_buf 0x528 0x100 0x28 2 (\<lambda>_. 0),
        0x528 := demo_buf 0x100 0x314 0x28 3 (\<lambda>_. 0))\<rparr>"

lemma failed_read_run:
  "case getblk bad_disk 9 0 False full_cache of None \<Rightarrow> False | Some (r, s1) \<Rightarrow> r = None \<and>
     (case getblk bad_disk 3 0 False s1 of None \<Rightarrow> False | Some (r, s2) \<Rightarrow>
        r = Some 0x528 \<and> b_buffer (bufs s2 0x528) 0 = 0xaa \<and> world s2 0x700040 0 3 0 = 0)"
  by code_simp

text \<open>
  A failed read leaves a wrong block behind. When \<^verbatim>\<open>getblk\<close> cannot read a block it returns
  \<^verbatim>\<open>NULL\<close>, but the buffer it recycled stays valid for the block it held before although the transfer
  may have changed its bytes: here reading block 9 fails, and a later read of block 3 is a cache
  hit that gives the bytes of the failed transfer and not those of the disk.
\<close>

theorem getblk_failed_read:
  "\<exists>s1 s2. getblk bad_disk 9 0 False full_cache = Some (None, s1) \<and> getblk bad_disk 3 0 False s1 = Some (Some 0x528, s2) \<and>
    b_buffer (bufs s2 0x528) 0 = 0xaa \<and> world s2 0x700040 0 3 0 = 0"
  using failed_read_run by (auto split: option.splits)

text \<open>
  A single sector written with INT 26h from memory at or above segment A000h, when the buffers
  are in the HMA, ignores the data of the caller: the outcome and the state, the disk included, do not
  depend on it, since only \<^verbatim>\<open>DSKWRITE\<close> copies the data to the workspace buffer.
\<close>

theorem dskxfer_int26_ignores_data:
  assumes "sg \<ge> 0xa000" "bufloc s \<noteq> 0"
  shows "map_option (\<lambda>(r, _, s'). (r, s')) (dskxfer P dsk blkno sg buf 1 DSKWRITEINT26 s) =
    map_option (\<lambda>(r, _, s'). (r, s')) (dskxfer P dsk blkno sg buf' 1 DSKWRITEINT26 s)"
proof (cases "get_dpb dsk s = 0")
  case False
  let ?d = "dpbs s (get_dpb dsk s)"
  let ?rq = "xfer_request P ?d C_OUTPUT blkno 1 (IoReqHdr s)"
  obtain rq' db' w where e: "execrh P ?rq (dpb_device ?d) (deblock_buf s) (world s) = (rq', db', w)" by (cases "execrh P ?rq (dpb_device ?d) (deblock_buf s) (world s)")
  have x: "xfer_once P ?d ?rq sg bf 1 DSKWRITEINT26 s = (bf, after_io rq' db' w s)" for bf
    using xfer_once_hma [of P ?rq ?d DSKWRITEINT26 s bf rq' db' w sg] e assms by simp
  have "xfer_loop P ?d blkno sg 1 DSKWRITEINT26 bf s =
      Some (if r_status rq' AND 0x8100 = 0x100 then 0 else r_status rq', bf, after_io rq' db' w s)" for bf
    using x [of bf] by (subst xfer_loop.simps) (simp add: xfer_command_def)
  then show ?thesis using False by (simp add: dskxfer_def)
qed (simp add: dskxfer_def)

theorem dskxfer_int26_ignores_data_witness:
  "map_option (\<lambda>(r, _, s'). (r, s')) (dskxfer ram_disk 0 3 0xc800 (\<lambda>_. 1) 1 DSKWRITEINT26 (demo_cache\<lparr>bufloc := 1\<rparr>)) =
    map_option (\<lambda>(r, _, s'). (r, s')) (dskxfer ram_disk 0 3 0xc800 (\<lambda>_. 2) 1 DSKWRITEINT26 (demo_cache\<lparr>bufloc := 1\<rparr>))"
  by (rule dskxfer_int26_ignores_data) simp_all

end
