(* ===== verification/FatProps.thy ===== *)
theory FatProps
  imports FatLink CacheProps
begin

text \<open>
  Properties of the file allocation table: what is written is read back, no other entry and no other
  sector changes, the count of free clusters stays true, and chains are followed correctly.
\<close>

section \<open>Values of entries\<close>

lemma fat_size_bound:
  assumes "volume U M s dpbp" "\<not> ISFAT32 (dpbs s dpbp)"
  shows "max_cluster (dpbs s dpbp) \<le> (if ISFAT12 (dpbs s dpbp) then 4085 else 65525)"
proof -
  let ?d = "dpbs s dpbp"
  have m: "unat (max_cluster ?d) = unat (dpb_size ?d)" using assms(2) by (simp add: max_cluster_def unat_ucast_u32)
  show ?thesis
  proof (cases "ISFAT12 ?d")
    case True
    have "unat (dpb_size ?d) \<le> 4085"
    proof (cases "dpb_size ?d = 0")
      case False
      then have "unat (dpb_size ?d - 1) = unat (dpb_size ?d) - 1" by (rule unat_minus_one)
      then show ?thesis using True by (simp add: ISFAT12_def word_less_nat_alt)
    qed simp
    then show ?thesis using True m by (simp add: word_le_nat_alt)
  next
    case False
    then have "ISFAT16 ?d" using volume_type [OF assms(1)] assms(2) by blast
    then show ?thesis using False m by (simp add: ISFAT16_def word_le_nat_alt)
  qed
qed

lemma masked_small:
  fixes v :: u32
  assumes "unat v < 2 ^ n"
  shows "v AND mask n = v"
proof -
  have "take_bit n (unat v) = unat v" using assms by (simp add: take_bit_nat_eq_self)
  then have "unat (take_bit n v) = unat v" by (simp add: unsigned_take_bit_eq)
  then show ?thesis by (simp add: take_bit_eq_mask [symmetric] word_unat_eq_iff)
qed

lemma mask_u32: "(0xfff :: u32) = mask 12" "(0xffff :: u32) = mask 16" "(0x0fffffff :: u32) = mask 28"
  by (simp_all add: mask_eq_exp_minus_1)

lemma fat_value_masked:
  assumes v: "volume U M s dpbp" and x: "2 \<le> x" "x \<le> max_cluster (dpbs s dpbp)"
  shows "x AND fat_mask (dpbs s dpbp) = x"
proof -
  let ?d = "dpbs s dpbp"
  have "unat x \<le> unat (max_cluster ?d)" using x(2) by (simp add: word_le_nat_alt)
  moreover have "unat (max_cluster ?d) \<le> (if ISFAT12 ?d then 4085 else if ISFAT16 ?d then 65525 else 0x0ffffff6)"
    using fat_size_bound [OF v] volumeD(7) [OF v] volume_type [OF v] fat_types [of ?d] by (auto simp: word_le_nat_alt)
  ultimately show ?thesis
    unfolding fat_mask_def mask_u32 using fat_types [of ?d] by (auto intro!: masked_small)
qed

lemma decode_value:
  assumes v: "volume U M s dpbp" and x: "fat_value (dpbs s dpbp) x"
  shows "fat_decode (dpbs s dpbp) (x AND fat_mask (dpbs s dpbp)) = x" "x AND fat_mask (dpbs s dpbp) = 0 \<longleftrightarrow> x = 0"
proof -
  let ?d = "dpbs s dpbp"
  note ty = volume_type [OF v] and nt = fat_types [of ?d]
  have "fat_decode ?d (x AND fat_mask ?d) = x \<and> (x AND fat_mask ?d = 0 \<longleftrightarrow> x = 0)"
  proof (cases "2 \<le> x \<and> x \<le> max_cluster ?d")
    case True
    then have m: "x AND fat_mask ?d = x" using fat_value_masked [OF v] by blast
    have le: "unat x \<le> unat (max_cluster ?d)" using True by (simp add: word_le_nat_alt)
    have "fat_decode ?d x = x"
    proof (cases "ISFAT32 ?d")
      case True
      then show ?thesis using le volumeD(7) [OF v] ty by (simp add: fat_decode_def read32_def word_less_nat_alt word_le_nat_alt)
    next
      case False
      note b = fat_size_bound [OF v False]
      have b': "unat (max_cluster ?d) \<le> (if ISFAT12 ?d then 4085 else 65525)" using b by (simp add: word_le_nat_alt split: if_splits)
      then have s: "unat x < 65536" using le by (auto split: if_splits)
      then have u: "unat (ucast x :: u16) = unat x" by (simp add: unat_ucast_u16)
      have bk: "ucast (ucast x :: u16) = x" using s by (rule ucast_back)
      show ?thesis
      proof (cases "ISFAT12 ?d")
        case True
        then have "unat (ucast x :: u16) \<le> 4085" using u le b' by simp
        then have "\<not> 0xff8 \<le> (ucast x :: u16)" "(ucast x :: u16) \<noteq> 0xff7" by (auto simp: word_le_nat_alt)
        then show ?thesis using True bk by (simp add: fat_decode_def read12_def)
      next
        case n12: False
        then have "unat (ucast x :: u16) \<le> 65525" using u le b' by simp
        then have "\<not> 0xfff8 \<le> (ucast x :: u16)" "(ucast x :: u16) \<noteq> 0xfff7" by (auto simp: word_le_nat_alt)
        then show ?thesis using n12 False ty bk by (simp add: fat_decode_def read16_def)
      qed
    qed
    then show ?thesis using m True by (auto simp: word_le_nat_alt)
  next
    case False
    then have "x = 0 \<or> x = LONG_BAD \<or> x = LONG_LAST_CLUSTER" using x unfolding fat_value_def by blast
    then show ?thesis by (cases "ISFAT12 ?d"; cases "ISFAT16 ?d"; elim disjE; simp add: fat_decode_def fat_mask_def read12_def read16_def read32_def)
  qed
  then show "fat_decode ?d (x AND fat_mask ?d) = x" "x AND fat_mask ?d = 0 \<longleftrightarrow> x = 0" by blast+
qed

section \<open>The table as an array\<close>

primrec entries_after :: "(u32 \<times> u32) list \<Rightarrow> (u32 \<Rightarrow> u32) \<Rightarrow> u32 \<Rightarrow> u32" where
  "entries_after [] f = f"
| "entries_after (w # ws) f = entries_after ws (f(fst w := snd w))"

lemma entries_after_cong: "f c = g c \<Longrightarrow> entries_after ws f c = entries_after ws g c"
proof (induction ws arbitrary: f g)
  case (Cons w ws)
  show ?case unfolding entries_after.simps by (rule Cons.IH) (simp add: Cons.prems)
qed simp

text \<open>
  The interface of the table towards the file system: entries that are read and written, and a
  frame that every access keeps.
\<close>

locale fat_table =
  fixes get :: "u32 \<Rightarrow> 's \<Rightarrow> (u32 \<times> 's) option" and put :: "u32 \<Rightarrow> u32 \<Rightarrow> 's \<Rightarrow> (u32 \<times> 's) option"
    and ok :: "'s \<Rightarrow> bool" and entry :: "'s \<Rightarrow> u32 \<Rightarrow> u32" and legal :: "u32 \<Rightarrow> bool" and value_ok :: "u32 \<Rightarrow> bool"
    and frame :: "'s \<Rightarrow> 's \<Rightarrow> bool"
  assumes get_law: "ok s \<Longrightarrow> legal c \<Longrightarrow>
      \<exists>s'. get c s = Some (entry s c, s') \<and> ok s' \<and> frame s s' \<and> (\<forall>c'. legal c' \<longrightarrow> entry s' c' = entry s c')"
    and put_law: "ok s \<Longrightarrow> legal c \<Longrightarrow> value_ok x \<Longrightarrow>
      \<exists>s'. put c x s = Some (0, s') \<and> ok s' \<and> frame s s' \<and> (\<forall>c'. legal c' \<longrightarrow> entry s' c' = (if c' = c then x else entry s c'))"
    and frame_refl: "frame s s" and frame_trans: "frame s t \<Longrightarrow> frame t r \<Longrightarrow> frame s r"
begin

primrec put_all :: "(u32 \<times> u32) list \<Rightarrow> 's \<Rightarrow> 's option" where
  "put_all [] s = Some s"
| "put_all (w # ws) s = do { (_, s1) \<leftarrow> put (fst w) (snd w) s; put_all ws s1 }"

lemma put_all_law:
  "ok s \<Longrightarrow> \<forall>w \<in> set ws. legal (fst w) \<and> value_ok (snd w) \<Longrightarrow>
    \<exists>s'. put_all ws s = Some s' \<and> ok s' \<and> frame s s' \<and>
      (\<forall>c. legal c \<longrightarrow> entry s' c = entries_after ws (entry s) c)"
proof (induction ws arbitrary: s)
  case (Cons w ws)
  obtain s1 where s1: "put (fst w) (snd w) s = Some (0, s1)" "ok s1" "frame s s1"
      "\<forall>c'. legal c' \<longrightarrow> entry s1 c' = (if c' = fst w then snd w else entry s c')"
    using put_law [of s "fst w" "snd w"] Cons.prems by auto
  obtain s' where s': "put_all ws s1 = Some s'" "ok s'" "frame s1 s'"
      "\<forall>c. legal c \<longrightarrow> entry s' c = entries_after ws (entry s1) c"
    using Cons.IH [OF s1(2)] Cons.prems(2) by auto
  have "entry s' c = entries_after (w # ws) (entry s) c" if "legal c" for c
    using that s'(4) s1(4) by (auto intro!: entries_after_cong)
  then show ?case using s1 s' frame_trans by auto
qed (auto intro: frame_refl)

lemma get_after_puts:
  assumes "ok s" "\<forall>w \<in> set ws. legal (fst w) \<and> value_ok (snd w)" "legal c"
  shows "\<exists>s1 s2. put_all ws s = Some s1 \<and> get c s1 = Some (entries_after ws (entry s) c, s2) \<and> ok s2 \<and> frame s s2"
proof -
  obtain s1 where s1: "put_all ws s = Some s1" "ok s1" "frame s s1" "entry s1 c = entries_after ws (entry s) c"
    using put_all_law [OF assms(1,2)] assms(3) by blast
  obtain s2 where "get c s1 = Some (entry s1 c, s2)" "ok s2" "frame s1 s2" using get_law [OF s1(2) assms(3)] by blast
  then show ?thesis using s1 frame_trans by auto
qed

end

definition entry_of :: "'w disk \<Rightarrow> u32 \<Rightarrow> ('w, 'a) kst_scheme \<Rightarrow> u32 \<Rightarrow> u32" where
  "entry_of D dpbp s c = fat_decode (dpbs s dpbp) (fat D s dpbp c)"

definition legal_cluster :: "dpb \<Rightarrow> u32 \<Rightarrow> bool" where
  "legal_cluster d c \<longleftrightarrow> 2 \<le> c \<and> c \<le> max_cluster d"

definition vol_ok :: "'w platform \<Rightarrow> 'w disk \<Rightarrow> u16 set \<Rightarrow> (u16 \<times> u32) set \<Rightarrow> u32 \<Rightarrow> dpb \<Rightarrow> ('w, 'a) kst_scheme \<Rightarrow> bool" where
  "vol_ok P D U M dpbp d s \<longleftrightarrow> cache_ok P D U M s \<and> volume U M s dpbp \<and> dpb_static (dpbs s dpbp) = dpb_static d"

definition fat_frame :: "'w disk \<Rightarrow> u16 set \<Rightarrow> (u16 \<times> u32) set \<Rightarrow> u32 \<Rightarrow> ('w, 'a) kst_scheme \<Rightarrow> ('w, 'a) kst_scheme \<Rightarrow> bool" where
  "fat_frame D U M dpbp s s' \<longleftrightarrow> fs_step s s' \<and>
     (\<forall>u b. usable U M u b \<and> \<not> fat_area s dpbp u b \<longrightarrow> content D s' u b = content D s u b)"

lemma fat_area_step: "fs_step s t \<Longrightarrow> fat_area t dpbp u b = fat_area s dpbp u b"
  using dpb_static_eq(15) [OF fs_step_same(1) [of s t dpbp]]
  by (simp add: fat_area_def fsinfo_block_def volume_fs_step fat_static [OF fs_step_same(1) [of s t dpbp]])

lemma vol_ok_step: "vol_ok P D U M dpbp d s \<Longrightarrow> fs_step s s' \<Longrightarrow> cache_ok P D U M s' \<Longrightarrow> vol_ok P D U M dpbp d s'"
  by (simp add: vol_ok_def volume_fs_step fs_step_same)

lemma table_get:
  assumes "vol_ok P D U M dpbp d s" "legal_cluster d c"
  shows "\<exists>s'. link_fat P dpbp c READ_CLUSTER s = Some (entry_of D dpbp s c, s') \<and> vol_ok P D U M dpbp d s' \<and>
    fat_frame D U M dpbp s s' \<and> (\<forall>c'. legal_cluster d c' \<longrightarrow> entry_of D dpbp s' c' = entry_of D dpbp s c') \<and>
    dpbs s' = dpbs s \<and> (\<forall>u b. usable U M u b \<longrightarrow> content D s' u b = content D s u b)"
proof -
  have a: "cache_ok P D U M s" "volume U M s dpbp" and st: "dpb_static (dpbs s dpbp) = dpb_static d" using assms(1) by (auto simp: vol_ok_def)
  have c: "2 \<le> c" "c \<le> max_cluster (dpbs s dpbp)" using assms(2) fat_static(4) [OF st] by (auto simp: legal_cluster_def)
  obtain s' where s': "link_fat P dpbp c READ_CLUSTER s = Some (fat_decode (dpbs s dpbp) (fat D s dpbp c), s')" "cache_ok P D U M s'"
      "cache_step s s'" "\<And>u b. usable U M u b \<Longrightarrow> content D s' u b = content D s u b"
    by (rule link_fat_read [OF a c], rule that, assumption+)
  have "entry_of D dpbp s' c' = entry_of D dpbp s c'" if "legal_cluster d c'" for c'
    using that fat_cong [OF a(2) s'(3,4)] fat_static(4) [OF st] cache_step_same(1) [OF s'(3)] by (simp add: entry_of_def legal_cluster_def)
  then show ?thesis
    using s' vol_ok_step [OF assms(1) cache_step_fs [OF s'(3)] s'(2)] cache_step_fs [OF s'(3)] cache_step_same(1) [OF s'(3)]
    by (auto simp: entry_of_def fat_frame_def)
qed

lemma ucast_u16_0: "(ucast (x :: u16) :: u32) = 0 \<longleftrightarrow> x = 0"
  by (simp add: word_unat_eq_iff unat_ucast_u32)

lemma read_0: "read12 x = 0 \<longleftrightarrow> x = 0" "read16 x = 0 \<longleftrightarrow> x = 0" "read32 y = 0 \<longleftrightarrow> y = 0"
  by (auto simp: read12_def read16_def read32_def ucast_u16_0)

lemma decode_get_0: "fat_decode d (fat_get d F c) = 0 \<longleftrightarrow> fat_get d F c = 0"
proof -
  consider "ISFAT12 d" | "\<not> ISFAT12 d" "ISFAT16 d" | "\<not> ISFAT12 d" "\<not> ISFAT16 d" by blast
  then show ?thesis
    by cases (simp_all add: fat_get_def decode_ucast ucast_u16_0 read_0, simp_all add: fat_decode_def read_0)
qed

lemma table_put:
  assumes "vol_ok P D U M dpbp d s" "legal_cluster d c" "fat_value d x"
  shows "\<exists>s'. link_fat P dpbp c x s = Some (0, s') \<and> vol_ok P D U M dpbp d s' \<and> fat_frame D U M dpbp s s' \<and>
    (\<forall>c'. legal_cluster d c' \<longrightarrow> entry_of D dpbp s' c' = (if c' = c then x else entry_of D dpbp s c')) \<and>
    counted (dpbs s dpbp) (entry_of D dpbp s c = 0) (x = 0) (dpbs s' dpbp)"
proof -
  have a: "cache_ok P D U M s" "volume U M s dpbp" and st: "dpb_static (dpbs s dpbp) = dpb_static d" using assms(1) by (auto simp: vol_ok_def)
  have c: "2 \<le> c" "c \<le> max_cluster (dpbs s dpbp)" using assms(2) fat_static(4) [OF st] by (auto simp: legal_cluster_def)
  have x: "fat_value (dpbs s dpbp) x" using assms(3) by (simp add: fat_value_def fat_static(4) [OF st])
  obtain s' where s': "link_fat P dpbp c x s = Some (0, s')" "cache_ok P D U M s'" "fs_step s s'" "fat_written D U M dpbp c x s s'"
    by (rule link_fat_write [OF a c x], rule that, assumption+)
  have dec: "fat_decode (dpbs s' dpbp) v = fat_decode (dpbs s dpbp) v" for v by (rule fat_static(11) [OF fs_step_same(1) [OF s'(3)]])
  note z = decode_get_0 [of "dpbs s dpbp" "fat_bytes D s dpbp" c]
  show ?thesis using s' vol_ok_step [OF assms(1) s'(3,2)] decode_value(1) [OF a(2) x] fat_static(4) [OF st]
    by (auto simp: fat_written_def fat_frame_def entry_of_def dec z [folded fat_def] legal_cluster_def)
qed

interpretation table: fat_table "\<lambda>c. link_fat P dpbp c READ_CLUSTER" "link_fat P dpbp" "vol_ok P D U M dpbp d" "entry_of D dpbp"
  "legal_cluster d" "fat_value d" "fat_frame D U M dpbp" for P D U M dpbp d
proof (unfold_locales, goal_cases)
  case (1 s c)
  then show ?case using table_get by metis
next
  case (2 s c x)
  then show ?case using table_put by metis
next
  case (3 s)
  show ?case by (simp add: fat_frame_def)
next
  case (4 s t r)
  then have "fs_step s r" by (auto simp: fat_frame_def intro: fs_step_trans)
  moreover have "fs_step s t" using 4 by (simp add: fat_frame_def)
  ultimately show ?case using 4 by (simp add: fat_frame_def fat_area_step)
qed

definition free_set :: "'w disk \<Rightarrow> u32 \<Rightarrow> ('w, 'a) kst_scheme \<Rightarrow> u32 set" where
  "free_set D dpbp s = {c. legal_cluster (dpbs s dpbp) c \<and> entry_of D dpbp s c = FREE}"

text \<open>The count of free clusters in the parameter block is unknown or right.\<close>

definition free_count_ok :: "'w disk \<Rightarrow> u32 \<Rightarrow> ('w, 'a) kst_scheme \<Rightarrow> bool" where
  "free_count_ok D dpbp s \<longleftrightarrow> free_unknown (dpbs s dpbp) \<or> unat (free_field (dpbs s dpbp)) = card (free_set D dpbp s)"

lemma legal_static: "dpb_static d = dpb_static d' \<Longrightarrow> legal_cluster d c = legal_cluster d' c"
  using fat_static(4) [of d d'] by (simp add: legal_cluster_def)

lemma card_legal: "card {c. legal_cluster d c} \<le> unat (max_cluster d) - 1"
proof -
  have "unat ` {c. legal_cluster d c} \<subseteq> {2..unat (max_cluster d)}" by (auto simp: legal_cluster_def word_le_nat_alt)
  then have "card (unat ` {c. legal_cluster d c}) \<le> card {2..unat (max_cluster d)}" by (intro card_mono) auto
  moreover have "inj_on unat {c. legal_cluster d c}" by (rule inj_onI) (rule unsigned_word_eqI)
  ultimately show ?thesis by (simp add: card_image)
qed

lemma free_count_step:
  assumes v: "volume U M s dpbp" and st: "dpb_static (dpbs s' dpbp) = dpb_static (dpbs s dpbp)" and c: "legal_cluster (dpbs s dpbp) c"
    and e: "\<And>c'. legal_cluster (dpbs s dpbp) c' \<Longrightarrow> entry_of D dpbp s' c' = (if c' = c then x else entry_of D dpbp s c')"
    and n: "counted (dpbs s dpbp) (entry_of D dpbp s c = 0) (x = 0) (dpbs s' dpbp)" and ok: "free_count_ok D dpbp s"
  shows "free_count_ok D dpbp s'"
proof (cases "free_unknown (dpbs s dpbp)")
  case False
  let ?F = "free_set D dpbp s"
  have k: "unat (free_field (dpbs s dpbp)) = card ?F" using ok False by (simp add: free_count_ok_def)
  have F: "free_set D dpbp s' = (if x = 0 then insert c ?F else ?F - {c})"
    using c e by (auto simp: free_set_def legal_static [OF st] split: if_splits)
  have in': "entry_of D dpbp s c = 0 \<longleftrightarrow> c \<in> ?F" using c by (simp add: free_set_def)
  have fin: "finite ?F" by simp
  have "card (insert c ?F) \<le> card {c. legal_cluster (dpbs s dpbp) c}" using c by (intro card_mono) (auto simp: free_set_def)
  then have small: "card (insert c ?F) \<le> unat (max_cluster (dpbs s dpbp)) - 1" using card_legal [of "dpbs s dpbp"] by linarith
  have "unat (free_field (dpbs s dpbp)) + 1 < 65536 \<or> ISFAT32 (dpbs s dpbp)" if "c \<notin> ?F"
    using that small fat_size_bound [OF v] k by (auto simp: word_le_nat_alt split: if_splits)
  moreover have "0 < card ?F" if "c \<in> ?F" using that fin by (auto simp: card_gt_0_iff)
  ultimately have "unat (free_field (dpbs s' dpbp)) = card (free_set D dpbp s')"
    using n False k F in' by (auto simp: counted_def card_insert_if insert_absorb split: if_splits)
  then show ?thesis by (simp add: free_count_ok_def)
qed (use n in \<open>simp add: free_count_ok_def counted_def\<close>)

section \<open>Following a chain\<close>

definition follow :: "dpb \<Rightarrow> (u32 \<Rightarrow> u32) \<Rightarrow> u32 \<Rightarrow> u32" where
  "follow d E c =
     (if \<not> legal_cluster d c then 1
      else if E c < 2 \<or> E c \<ge> LONG_BAD then E c
      else if legal_cluster d (E c) \<and> (legal_cluster d (E (E c)) \<or> E (E c) \<ge> LONG_BAD) then E c
      else 1)"

lemma not_legal: "c \<le> 1 \<or> c > max_cluster d \<longleftrightarrow> \<not> legal_cluster d c"
  by (auto simp: legal_cluster_def word_le_nat_alt word_less_nat_alt)

lemma link_fat_illegal:
  assumes "\<not> legal_cluster (dpbs s dpbp) c"
  shows "link_fat P dpbp c x s = Some (1, s)"
  using assms by (simp add: link_fat_def Let_def not_legal)

lemma legal_below_bad: "volume U M s dpbp \<Longrightarrow> legal_cluster (dpbs s dpbp) c \<Longrightarrow> c < LONG_BAD"
  using volumeD(7) [of U M s dpbp] by (auto simp: legal_cluster_def word_le_nat_alt word_less_nat_alt)

lemma next_cluster_ok:
  assumes "vol_ok P D U M dpbp d s"
  shows "\<exists>s'. next_cluster P dpbp c s = Some (follow d (entry_of D dpbp s) c, s') \<and> vol_ok P D U M dpbp d s' \<and>
    fat_frame D U M dpbp s s' \<and> dpbs s' = dpbs s \<and>
    (\<forall>c'. legal_cluster d c' \<longrightarrow> entry_of D dpbp s' c' = entry_of D dpbp s c') \<and>
    (\<forall>u b. usable U M u b \<longrightarrow> content D s' u b = content D s u b)"
proof -
  have st: "dpb_static (dpbs s dpbp) = dpb_static d" using assms by (simp add: vol_ok_def)
  note L = legal_static [OF st]
  show ?thesis
  proof (cases "legal_cluster d c")
    case False
    then have "link_fat P dpbp c READ_CLUSTER s = Some (1, s)" using link_fat_illegal L by blast
    then show ?thesis using False assms table.frame_refl by (auto simp: next_cluster_def follow_def)
  next
    case True
    obtain s1 where s1: "link_fat P dpbp c READ_CLUSTER s = Some (entry_of D dpbp s c, s1)" "vol_ok P D U M dpbp d s1"
        "fat_frame D U M dpbp s s1" "\<forall>c'. legal_cluster d c' \<longrightarrow> entry_of D dpbp s1 c' = entry_of D dpbp s c'" "dpbs s1 = dpbs s"
        "\<forall>u b. usable U M u b \<longrightarrow> content D s1 u b = content D s u b"
      using table_get [OF assms True] by blast
    let ?n = "entry_of D dpbp s c"
    consider (stop) "?n < 2 \<or> ?n \<ge> LONG_BAD" | (bad) "\<not> (?n < 2 \<or> ?n \<ge> LONG_BAD)" "\<not> legal_cluster d ?n"
      | (go) "\<not> (?n < 2 \<or> ?n \<ge> LONG_BAD)" "legal_cluster d ?n" by blast
    then show ?thesis
    proof cases
      case stop
      then have "follow d (entry_of D dpbp s) c = ?n" "next_cluster P dpbp c s = Some (?n, s1)"
        using True s1(1) by (auto simp: follow_def next_cluster_def)
      then show ?thesis using s1 by simp
    next
      case bad
      then have "link_fat P dpbp ?n READ_CLUSTER s1 = Some (1, s1)" using link_fat_illegal [of s1 dpbp] L s1(5) by simp
      then have "next_cluster P dpbp c s = Some (1, s1)" using s1(1) bad by (simp add: next_cluster_def)
      moreover have "follow d (entry_of D dpbp s) c = 1" using True bad by (simp add: follow_def)
      ultimately show ?thesis using s1 by simp
    next
      case go
      let ?f = "entry_of D dpbp s ?n"
      obtain s2 where s2: "link_fat P dpbp ?n READ_CLUSTER s1 = Some (?f, s2)" "vol_ok P D U M dpbp d s2"
          "fat_frame D U M dpbp s1 s2" "\<forall>c'. legal_cluster d c' \<longrightarrow> entry_of D dpbp s2 c' = entry_of D dpbp s1 c'" "dpbs s2 = dpbs s1"
          "\<forall>u b. usable U M u b \<longrightarrow> content D s2 u b = content D s1 u b"
        using table_get [OF s1(2) go(2)] s1(4) go(2) by auto
      have m: "max_cluster (dpbs s2 dpbp) = max_cluster d" using fat_static(4) [OF st] s1(5) s2(5) by simp
      have "next_cluster P dpbp c s = Some (follow d (entry_of D dpbp s) c, s2)"
        using s1(1) s2(1) go True by (auto simp: next_cluster_def follow_def m legal_cluster_def)
      then show ?thesis using s1 s2 table.frame_trans [OF s1(3) s2(3)] by simp
    qed
  qed
qed

section \<open>Properties\<close>

definition demo_vol :: "ram kst" where
  "demo_vol = demo_cache\<lparr>
     bufs := (\<lambda>_. demo_buf 0 0 0 0 (\<lambda>_. 0))
       (0x100 := demo_buf 0x314 0x528 0 0 (\<lambda>_. 0), 0x314 := demo_buf 0x528 0x100 0 0 (\<lambda>_. 0),
        0x528 := demo_buf 0x100 0x314 0 0 (\<lambda>_. 0)),
     dpbs := (\<lambda>_. demo_dpb\<lparr>dpb_size := 5, dpb_fatsize := 1, dpb_dirstrt := 3, dpb_data := 17, dpb_xnfreeclst := 4\<rparr>)\<rparr>"

definition demo_copies :: "(u16 \<times> u32) set" where
  "demo_copies = {(0, 2)}"

abbreviation (input) demo_vdpb :: dpb where
  "demo_vdpb \<equiv> dpbs demo_vol 1"

lemma demo_vol_ring: "ring (bufs demo_vol) (firstbuf demo_vol) [0x100, 0x314, 0x528]"
  by (simp add: ring_def demo_vol_def demo_cache_def demo_buf_def)

lemma demo_vol_invalid: "p \<in> {0x100, 0x314, 0x528} \<Longrightarrow> \<not> valid (bufs demo_vol p)"
  by (auto simp: demo_vol_def demo_buf_def valid_def)

lemma demo_vol_dpb: "get_dpb 0 demo_vol = 1"
  by (simp add: get_dpb_def get_cds_def demo_vol_def demo_cache_def)

lemma demo_vol_cache: "cache_ok ram_disk demo_io {0} demo_copies demo_vol"
proof -
  have "dpb_secsize demo_vdpb = 512" by (simp add: demo_vol_def demo_dpb_def)
  then have "drives {0} demo_vol" by (simp add: drives_def demo_vol_dpb drive_def)
  then have "cache_inv ram_disk demo_io {0} demo_copies demo_vol [0x100, 0x314, 0x528]"
    using ram_disk_good demo_vol_ring demo_vol_invalid by (simp add: cache_inv_def demo_io_def)
  then show ?thesis by (rule cache_okI)
qed

lemma demo_vdpb_fields:
  "ISFAT12 demo_vdpb" "\<not> ISFAT16 demo_vdpb" "\<not> ISFAT32 demo_vdpb" "max_cluster demo_vdpb = 5" "fat_blocks demo_vdpb = 1"
  "fat_base demo_vdpb = 1" "fat_copies demo_vdpb = 2" "fat_off demo_vdpb = 1" "fat_len demo_vdpb = 9"
  by (simp_all add: demo_vol_def demo_dpb_def ISFAT12_def ISFAT16_def ISFAT32_def max_cluster_def fat_blocks_def fat_len_def fat_base_def
      fat_copies_def fat_off_def)

lemma demo_volume: "volume {0} demo_copies demo_vol 1"
proof -
  have "vol_unit demo_vol 1 = 0" "dpb_secsize demo_vdpb = 512" "dpb_fats demo_vdpb \<noteq> 0"
    by (simp_all add: vol_unit_def demo_vol_def demo_dpb_def)
  moreover have "(of_nat j :: u32) = 1" if "0 < j" "j < 2" for j :: nat
  proof -
    have "j = 1" using that by simp
    then show ?thesis by simp
  qed
  ultimately show ?thesis
    by (auto simp: volume_def Let_def demo_vdpb_fields demo_vol_dpb usable_def demo_copies_def)
qed

lemma demo_vol_ok: "vol_ok ram_disk demo_io {0} demo_copies 1 demo_vdpb demo_vol"
  by (simp add: vol_ok_def demo_vol_cache demo_volume)

lemma demo_entry: "legal_cluster demo_vdpb c \<Longrightarrow> entry_of demo_io 1 demo_vol c = 0"
proof -
  have "content demo_io demo_vol u b i = 0" for u b i
  proof -
    have "ring_of demo_vol = [0x100, 0x314, 0x528]" by (rule ring_of_eq [OF demo_vol_ring])
    moreover have "\<not> is_hit b u (bufs demo_vol p)" if "p \<in> {0x100, 0x314, 0x528}" for p using demo_vol_invalid [OF that] by (simp add: is_hit_iff)
    ultimately have "content demo_io demo_vol u b = on_disk demo_io demo_vol u b" by (simp add: content_def view_def)
    also have "\<dots> = (\<lambda>_. 0)" by (simp add: on_disk_def sector_def demo_io_def demo_vol_def demo_cache_def)
    finally show ?thesis by simp
  qed
  then show ?thesis by (simp add: entry_of_def fat_def fat_get_def fat_bytes_def fgetword_def entry12_def fat_decode_def demo_vdpb_fields read12_def)
qed

text \<open>
  C13. The table on disk is an array of entries. After any sequence of writes of legitimate values
  through \<^verbatim>\<open>link_fat\<close>, on a FAT12, FAT16 or FAT32 volume, reading an entry with \<^verbatim>\<open>link_fat\<close> gives the
  value last written to it, or its old value when there was none (neighbours that share bytes
  with a FAT12 entry included, whether or not an entry straddles two sectors); no block outside
  the table and the information sector changes.
\<close>

theorem link_fat_roundtrip:
  assumes "vol_ok P D U M dpbp d s" "\<forall>w \<in> set ws. legal_cluster d (fst w) \<and> fat_value d (snd w)" "legal_cluster d c"
  shows "\<exists>s1 s2. fat_table.put_all (link_fat P dpbp) ws s = Some s1 \<and>
    link_fat P dpbp c READ_CLUSTER s1 = Some (entries_after ws (entry_of D dpbp s) c, s2) \<and>
    vol_ok P D U M dpbp d s2 \<and> fat_frame D U M dpbp s s2"
  by (rule table.get_after_puts [OF assms])

theorem link_fat_roundtrip_witness:
  "\<exists>s1 s2. fat_table.put_all (link_fat ram_disk 1) [(2, 3), (3, 0x0fffffff), (4, 0x0ffffff7), (2, 5)] demo_vol = Some s1 \<and>
    link_fat ram_disk 1 3 READ_CLUSTER s1 = Some (0x0fffffff, s2)"
  using link_fat_roundtrip [OF demo_vol_ok, of "[(2, 3), (3, 0x0fffffff), (4, 0x0ffffff7), (2, 5)]" 3]
  by (auto simp: legal_cluster_def fat_value_def demo_vdpb_fields)

text \<open>
  C14. The count of free clusters in the drive parameter block stays true: when it is right (or marked
  unknown), it is so after any write of a legitimate value to any entry, whether this allocates
  a cluster, frees one, or changes neither.
\<close>

theorem link_fat_free_count:
  assumes "vol_ok P D U M dpbp d s" "legal_cluster d c" "fat_value d x" "free_count_ok D dpbp s"
  shows "\<exists>s'. link_fat P dpbp c x s = Some (0, s') \<and> free_count_ok D dpbp s'"
proof -
  have st: "dpb_static (dpbs s dpbp) = dpb_static d" and v: "volume U M s dpbp" using assms(1) by (auto simp: vol_ok_def)
  obtain s' where s': "link_fat P dpbp c x s = Some (0, s')" "vol_ok P D U M dpbp d s'"
      "\<forall>c'. legal_cluster d c' \<longrightarrow> entry_of D dpbp s' c' = (if c' = c then x else entry_of D dpbp s c')"
      "counted (dpbs s dpbp) (entry_of D dpbp s c = 0) (x = 0) (dpbs s' dpbp)"
    using table_put [OF assms(1-3)] by blast
  have "dpb_static (dpbs s' dpbp) = dpb_static (dpbs s dpbp)" using s'(2) st by (simp add: vol_ok_def)
  from free_count_step [OF v this _ _ s'(4) assms(4)] show ?thesis using s'(1,3) assms(2) legal_static [OF st] by simp
qed

lemma demo_free_count: "free_count_ok demo_io 1 demo_vol"
proof -
  have "legal_cluster demo_vdpb c \<longleftrightarrow> c \<in> {2, 3, 4, 5}" for c
  proof -
    have "legal_cluster demo_vdpb c \<longleftrightarrow> 2 \<le> unat c \<and> unat c \<le> 5" by (simp add: legal_cluster_def demo_vdpb_fields word_le_nat_alt)
    also have "\<dots> \<longleftrightarrow> unat c = 2 \<or> unat c = 3 \<or> unat c = 4 \<or> unat c = 5" by auto
    finally show ?thesis by (simp add: word_unat_eq_iff [of c])
  qed
  then have "{c. legal_cluster demo_vdpb c} = {2, 3, 4, 5}" by blast
  moreover have "free_set demo_io 1 demo_vol = {c. legal_cluster demo_vdpb c}"
    unfolding free_set_def using demo_entry by (intro Collect_cong) blast
  ultimately have "free_set demo_io 1 demo_vol = {2, 3, 4, 5}" by simp
  moreover have "free_field demo_vdpb = 4" by (simp add: free_field_def demo_vdpb_fields) (simp add: demo_vol_def dpb_nfreeclst_def)
  ultimately show ?thesis by (simp add: free_count_ok_def)
qed

theorem link_fat_free_count_witness:
  "\<exists>s'. link_fat ram_disk 1 3 0x0fffffff demo_vol = Some (0, s') \<and> free_count_ok demo_io 1 s'"
  using link_fat_free_count [OF demo_vol_ok _ _ demo_free_count, of 3 "0x0fffffff"]
  by (simp add: legal_cluster_def fat_value_def demo_vdpb_fields)

text \<open>
  C15. \<^verbatim>\<open>next_cluster\<close> returns the next cluster of a chain only when that cluster is on the volume and its
  own entry continues the chain or ends it; it passes the end mark and the bad mark through, and
  returns 1 for a chain that runs into a free cluster or out of the volume. It changes nothing
  that can be read from the disk.
\<close>

theorem next_cluster_correct:
  assumes "vol_ok P D U M dpbp d s"
  shows "\<exists>s'. next_cluster P dpbp c s = Some (follow d (entry_of D dpbp s) c, s') \<and> vol_ok P D U M dpbp d s' \<and>
    (\<forall>u b. usable U M u b \<longrightarrow> content D s' u b = content D s u b)"
  using next_cluster_ok [OF assms] by blast

theorem next_cluster_correct_witness:
  "\<exists>s1 s2 s3. link_fat ram_disk 1 2 3 demo_vol = Some (0, s1) \<and> next_cluster ram_disk 1 2 s1 = Some (1, s2) \<and>
    next_cluster ram_disk 1 3 s2 = Some (0, s3)"
proof -
  obtain s1 where s1: "link_fat ram_disk 1 2 3 demo_vol = Some (0, s1)" "vol_ok ram_disk demo_io {0} demo_copies 1 demo_vdpb s1"
      "\<forall>c'. legal_cluster demo_vdpb c' \<longrightarrow> entry_of demo_io 1 s1 c' = (if c' = 2 then 3 else entry_of demo_io 1 demo_vol c')"
    using table_put [OF demo_vol_ok, of 2 3] by (auto simp: legal_cluster_def fat_value_def demo_vdpb_fields)
  have E: "entry_of demo_io 1 s1 2 = 3" "entry_of demo_io 1 s1 3 = 0"
    using s1(3) demo_entry by (simp_all add: legal_cluster_def demo_vdpb_fields)
  obtain s2 where s2: "next_cluster ram_disk 1 2 s1 = Some (1, s2)"
    using next_cluster_correct [OF s1(2), of 2] E by (auto simp: follow_def legal_cluster_def demo_vdpb_fields)
  from next_cluster_ok [OF s1(2), of 2] s2 have v2: "vol_ok ram_disk demo_io {0} demo_copies 1 demo_vdpb s2" "entry_of demo_io 1 s2 3 = 0"
    using E by (auto simp: legal_cluster_def demo_vdpb_fields)
  then obtain s3 where "next_cluster ram_disk 1 3 s2 = Some (0, s3)"
    using next_cluster_correct [OF v2(1), of 3] by (auto simp: follow_def legal_cluster_def demo_vdpb_fields)
  then show ?thesis using s1(1) s2 by blast
qed

end
