(* ===== verification/FatChain.thy ===== *)
theory FatChain
  imports FatProps FatFile
begin

text \<open>
  Chains of clusters: what the operations of \<^verbatim>\<open>FatFile\<close> do to the table, stated over the array of
  entries that \<^verbatim>\<open>FatProps\<close> shows the table to be.
\<close>

section \<open>Steps of a volume\<close>

text \<open>
  A step of a mounted volume after which the table holds \<^verbatim>\<open>E\<close>; nothing else on the disks has changed
  and a count of free clusters that was right still is.
\<close>

definition fat_to ::
  "'w platform \<Rightarrow> 'w disk \<Rightarrow> u16 set \<Rightarrow> (u16 \<times> u32) set \<Rightarrow> u32 \<Rightarrow> dpb \<Rightarrow> ('w, 'a) kst_scheme \<Rightarrow> (u32 \<Rightarrow> u32) \<Rightarrow> ('w, 'a) kst_scheme \<Rightarrow> bool" where
  "fat_to P D U M dpbp d s E s' \<longleftrightarrow> vol_ok P D U M dpbp d s' \<and> fat_frame D U M dpbp s s' \<and>
     (\<forall>c. legal_cluster d c \<longrightarrow> entry_of D dpbp s' c = E c) \<and> (free_count_ok D dpbp s \<longrightarrow> free_count_ok D dpbp s')"

lemma fat_toD:
  assumes "fat_to P D U M dpbp d s E s'"
  shows "vol_ok P D U M dpbp d s'" "fat_frame D U M dpbp s s'" "legal_cluster d c \<Longrightarrow> entry_of D dpbp s' c = E c"
    "free_count_ok D dpbp s \<Longrightarrow> free_count_ok D dpbp s'" "fs_step s s'" "kst.more s' = kst.more s"
  using assms fs_step_same(3) by (auto simp: fat_to_def fat_frame_def)

lemma fat_to_trans: "fat_to P D U M dpbp d s E s' \<Longrightarrow> fat_to P D U M dpbp d s' E' s'' \<Longrightarrow> fat_to P D U M dpbp d s E' s''"
  using table.frame_trans by (auto simp: fat_to_def)

lemma fat_to_refl: "vol_ok P D U M dpbp d s \<Longrightarrow> fat_to P D U M dpbp d s (entry_of D dpbp s) s"
  using table.frame_refl by (auto simp: fat_to_def)

lemma fat_to_cong: "fat_to P D U M dpbp d s E s' \<Longrightarrow> (\<And>c. legal_cluster d c \<Longrightarrow> E c = E' c) \<Longrightarrow> fat_to P D U M dpbp d s E' s'"
  by (simp add: fat_to_def)

lemma vol_static: "vol_ok P D U M dpbp d s \<Longrightarrow> dpb_static (dpbs s dpbp) = dpb_static d"
  by (simp add: vol_ok_def)

lemma entry_static:
  assumes "vol_ok P D U M dpbp d s" "dpb_static (dpbs t dpbp) = dpb_static (dpbs s dpbp)"
    "\<And>k. k < fat_blocks (dpbs s dpbp) \<Longrightarrow> content D t (vol_unit s dpbp) (fat_base (dpbs s dpbp) + of_nat k) = content D s (vol_unit s dpbp) (fat_base (dpbs s dpbp) + of_nat k)"
    "legal_cluster d c"
  shows "entry_of D dpbp t c = entry_of D dpbp s c"
proof -
  have v: "volume U M s dpbp" and st: "dpb_static (dpbs s dpbp) = dpb_static d" using assms(1) by (auto simp: vol_ok_def)
  have c: "c \<le> max_cluster (dpbs s dpbp)" using assms(4) fat_static(4) [OF st] by (simp add: legal_cluster_def)
  have u: "vol_unit t dpbp = vol_unit s dpbp" by (simp add: vol_unit_def dpb_static_eq [OF assms(2)])
  have "fat_get (dpbs s dpbp) (fat_bytes D t dpbp) c = fat_get (dpbs s dpbp) (fat_bytes D s dpbp) c"
    by (rule fat_get_cong [OF v c], rule fat_bytes_cong [OF u assms(2,3)])
  then show ?thesis by (simp add: entry_of_def fat_def fat_static(11,12) [OF assms(2)])
qed

lemma free_count_same:
  assumes "dpb_static (dpbs t dpbp) = dpb_static (dpbs s dpbp)" "dpb_xnfreeclst (dpbs t dpbp) = dpb_xnfreeclst (dpbs s dpbp)"
    "\<And>c. legal_cluster (dpbs s dpbp) c \<Longrightarrow> entry_of D dpbp t c = entry_of D dpbp s c"
  shows "free_count_ok D dpbp t = free_count_ok D dpbp s"
proof -
  have "free_set D dpbp t = free_set D dpbp s" using assms(3) legal_static [OF assms(1)] by (auto simp: free_set_def)
  moreover have "free_field (dpbs t dpbp) = free_field (dpbs s dpbp)" "free_unknown (dpbs t dpbp) = free_unknown (dpbs s dpbp)"
    using assms(2) fat_static(3) [OF assms(1)] by (simp_all add: free_field_def free_unknown_def dpb_nfreeclst_def)
  ultimately show ?thesis by (simp add: free_count_ok_def)
qed

text \<open>A change of the fields of a parameter block that do not lay out the volume, and of its hints.\<close>

lemma dpb_step:
  assumes "vol_ok P D U M dpbp d s" "dpb_static (f (dpbs s dpbp)) = dpb_static (dpbs s dpbp)"
  shows "vol_ok P D U M dpbp d (upd_dpb dpbp f s)" "fat_frame D U M dpbp s (upd_dpb dpbp f s)"
    "legal_cluster d c \<Longrightarrow> entry_of D dpbp (upd_dpb dpbp f s) c = entry_of D dpbp s c"
proof -
  let ?t = "upd_dpb dpbp f s"
  have ok: "cache_ok P D U M s" using assms(1) by (simp add: vol_ok_def)
  have st: "\<And>p. dpb_static (((dpbs s)(dpbp := f (dpbs s dpbp))) p) = dpb_static (dpbs s p)" using assms(2) by simp
  note O = cache_ok_dpbs [where ds = "(dpbs s)(dpbp := f (dpbs s dpbp))", OF ok st]
  have fs: "fs_step s ?t" by (rule fs_step_dpb) (rule assms(2))
  show "entry_of D dpbp ?t c = entry_of D dpbp s c" if "legal_cluster d c"
    by (rule entry_static [OF assms(1) _ _ that]) (simp_all add: assms(2) O(2))
  show "vol_ok P D U M dpbp d ?t" "fat_frame D U M dpbp s ?t" using vol_ok_step [OF assms(1) fs O(1)] fs O(2) by (simp_all add: fat_frame_def)
qed

lemma hint_step:
  assumes "vol_ok P D U M dpbp d s" "dpb_static (f (dpbs s dpbp)) = dpb_static (dpbs s dpbp)"
    "dpb_xnfreeclst (f (dpbs s dpbp)) = dpb_xnfreeclst (dpbs s dpbp)"
  shows "fat_to P D U M dpbp d s (entry_of D dpbp s) (upd_dpb dpbp f s)"
proof -
  note S = dpb_step [where f = f, OF assms(1,2)]
  have "free_count_ok D dpbp (upd_dpb dpbp f s) = free_count_ok D dpbp s"
    by (rule free_count_same) (use assms S(3) legal_static [OF vol_static [OF assms(1)]] in simp_all)
  then show ?thesis using S by (simp add: fat_to_def)
qed

lemma fsinfo_step:
  assumes "vol_ok P D U M dpbp d s" "ISFAT32 d"
  obtains s' where "write_fsinfo P dpbp s = Some s'" "fat_to P D U M dpbp d s (entry_of D dpbp s) s'" "dpbs s' = dpbs s"
proof -
  have a: "cache_ok P D U M s" "volume U M s dpbp" and st: "dpb_static (dpbs s dpbp) = dpb_static d" using assms(1) by (auto simp: vol_ok_def)
  have t: "ISFAT32 (dpbs s dpbp)" using assms(2) fat_static(3) [OF st] by simp
  obtain s' where w: "write_fsinfo P dpbp s = Some s'" "cache_ok P D U M s'" "cache_step s s'"
      "\<And>u b. usable U M u b \<Longrightarrow> \<not> fsinfo_block s dpbp u b \<Longrightarrow> content D s' u b = content D s u b"
    by (rule write_fsinfo_ok [OF a t], rule that, assumption+)
  note ds = cache_step_same(1) [OF w(3)]
  have e: "entry_of D dpbp s' c = entry_of D dpbp s c" if "legal_cluster d c" for c
    by (rule entry_static [OF assms(1) _ _ that]) (simp_all add: ds w(4) volumeD(5) [OF a(2)] fsinfo_not_fat [OF a(2)])
  have "free_count_ok D dpbp s' = free_count_ok D dpbp s"
    by (rule free_count_same) (use e legal_static [OF st] in \<open>simp_all add: ds\<close>)
  then have "fat_to P D U M dpbp d s (entry_of D dpbp s) s'"
    using vol_ok_step [OF assms(1) cache_step_fs [OF w(3)] w(2)] cache_step_fs [OF w(3)] w(4) e by (auto simp: fat_to_def fat_frame_def fat_area_def)
  then show thesis using that w(1) ds by blast
qed

lemma put_step:
  assumes "vol_ok P D U M dpbp d s" "legal_cluster d c" "fat_value d x"
  obtains s' where "link_fat P dpbp c x s = Some (0, s')" "fat_to P D U M dpbp d s ((entry_of D dpbp s)(c := x)) s'"
    "dpb_cluster (dpbs s' dpbp) = dpb_cluster (dpbs s dpbp)" "dpb_xcluster (dpbs s' dpbp) = dpb_xcluster (dpbs s dpbp)"
proof -
  obtain s' where s': "link_fat P dpbp c x s = Some (0, s')" "vol_ok P D U M dpbp d s'" "fat_frame D U M dpbp s s'"
      "\<forall>c'. legal_cluster d c' \<longrightarrow> entry_of D dpbp s' c' = (if c' = c then x else entry_of D dpbp s c')"
      "counted (dpbs s dpbp) (entry_of D dpbp s c = 0) (x = 0) (dpbs s' dpbp)"
    using table_put [OF assms] by blast
  have v: "volume U M s dpbp" using assms(1) by (simp add: vol_ok_def)
  note L = legal_static [OF vol_static [OF assms(1)]]
  have "free_count_ok D dpbp s'" if "free_count_ok D dpbp s"
    by (rule free_count_step [OF v _ _ _ s'(5) that]) (use s'(4) assms(2) L vol_static [OF assms(1)] vol_static [OF s'(2)] in simp_all)
  then show thesis using that [of s'] s' by (simp add: fat_to_def counted_def)
qed

lemma next_step:
  assumes "vol_ok P D U M dpbp d s"
  obtains s' where "next_cluster P dpbp c s = Some (follow d (entry_of D dpbp s) c, s')"
    "fat_to P D U M dpbp d s (entry_of D dpbp s) s'" "dpbs s' = dpbs s"
proof -
  obtain s' where s': "next_cluster P dpbp c s = Some (follow d (entry_of D dpbp s) c, s')" "vol_ok P D U M dpbp d s'"
      "fat_frame D U M dpbp s s'" "dpbs s' = dpbs s" "\<forall>c'. legal_cluster d c' \<longrightarrow> entry_of D dpbp s' c' = entry_of D dpbp s c'"
    using next_cluster_ok [OF assms] by blast
  have "free_count_ok D dpbp s' = free_count_ok D dpbp s"
    by (rule free_count_same) (use s' legal_static [OF vol_static [OF assms]] in simp_all)
  then show thesis using that s' by (simp add: fat_to_def)
qed

lemma get_step:
  assumes "vol_ok P D U M dpbp d s" "legal_cluster d c"
  obtains s' where "is_free_cluster P dpbp c s = Some (entry_of D dpbp s c = 0, s')"
    "fat_to P D U M dpbp d s (entry_of D dpbp s) s'" "dpbs s' = dpbs s"
proof -
  obtain s' where s': "link_fat P dpbp c READ_CLUSTER s = Some (entry_of D dpbp s c, s')" "vol_ok P D U M dpbp d s'"
      "fat_frame D U M dpbp s s'" "dpbs s' = dpbs s" "\<forall>c'. legal_cluster d c' \<longrightarrow> entry_of D dpbp s' c' = entry_of D dpbp s c'"
    using table_get [OF assms] by blast
  have "free_count_ok D dpbp s' = free_count_ok D dpbp s"
    by (rule free_count_same) (use s' legal_static [OF vol_static [OF assms(1)]] in simp_all)
  then show thesis using that s' by (simp add: fat_to_def is_free_cluster_def)
qed

section \<open>Chains\<close>

text \<open>The clusters of a chain from its first cluster to the one with the end mark.\<close>

fun chain :: "dpb \<Rightarrow> (u32 \<Rightarrow> u32) \<Rightarrow> u32 list \<Rightarrow> u32 \<Rightarrow> bool" where
  "chain d E [] st \<longleftrightarrow> st = LONG_LAST_CLUSTER"
| "chain d E (c # cs) st \<longleftrightarrow> st = c \<and> legal_cluster d c \<and> chain d E cs (E c)"

lemma vol_legal:
  assumes "vol_ok P D U M dpbp d s" "legal_cluster d c"
  shows "c < LONG_BAD" "c \<noteq> LONG_LAST_CLUSTER" "2 \<le> c" "\<not> c \<le> 1" "c \<noteq> 0" "unat c \<le> unat (max_cluster d)" "unat (max_cluster d) \<le> 0x0ffffff6"
proof -
  have "max_cluster d \<le> 0x0ffffff6"
    using assms(1) volumeD(7) [of U M s dpbp] fat_static(4) [OF vol_static [OF assms(1)]] by (simp add: vol_ok_def)
  then show "unat (max_cluster d) \<le> 0x0ffffff6" by (simp add: word_le_nat_alt)
  moreover have "2 \<le> unat c" "unat c \<le> unat (max_cluster d)" using assms(2) by (simp_all add: legal_cluster_def word_le_nat_alt)
  ultimately show "c < LONG_BAD" "c \<noteq> LONG_LAST_CLUSTER" "2 \<le> c" "\<not> c \<le> 1" "c \<noteq> 0" "unat c \<le> unat (max_cluster d)"
    by (auto simp: word_le_nat_alt word_less_nat_alt)
qed

lemma chain_legal: "chain d E cs st \<Longrightarrow> c \<in> set cs \<Longrightarrow> legal_cluster d c"
  by (induction cs arbitrary: st) auto

lemma chain_cong: "(\<And>c. c \<in> set cs \<Longrightarrow> E c = E' c) \<Longrightarrow> chain d E cs st = chain d E' cs st"
  by (induction cs arbitrary: st) auto

lemma chain_unique:
  assumes "\<not> legal_cluster d LONG_LAST_CLUSTER"
  shows "chain d E cs st \<Longrightarrow> chain d E cs' st \<Longrightarrow> cs = cs'"
proof (induction cs arbitrary: st cs')
  case Nil
  then show ?case using assms by (cases cs') auto
next
  case (Cons c cs)
  then show ?case using assms by (cases cs') auto
qed

lemma chain_suffix: "chain d E (xs @ c # ys) st \<Longrightarrow> chain d E (c # ys) c"
  by (induction xs arbitrary: st) auto

lemma chain_distinct:
  assumes "\<not> legal_cluster d LONG_LAST_CLUSTER"
  shows "chain d E cs st \<Longrightarrow> distinct cs"
proof (induction cs arbitrary: st)
  case (Cons c cs)
  have "c \<notin> set cs"
  proof
    assume "c \<in> set cs"
    then obtain xs ys where cs: "cs = xs @ c # ys" by (auto simp: in_set_conv_decomp)
    then have "chain d E (c # ys) c" using Cons.prems by (intro chain_suffix [of d E "c # xs"]) simp
    then have "c # ys = c # cs" using chain_unique [OF assms] Cons.prems by auto
    then show False using cs by simp
  qed
  then show ?case using Cons by auto
qed simp

lemma chain_follow:
  assumes "vol_ok P D U M dpbp d s" "chain d E (c # cs) st"
  shows "follow d E c = E c" "\<not> E c \<le> 1"
proof -
  have "follow d E c = E c \<and> \<not> E c \<le> 1"
  proof (cases cs)
    case Nil
    then show ?thesis using assms(2) by (auto simp: follow_def word_less_nat_alt word_le_nat_alt)
  next
    case (Cons y ys)
    then have y: "E c = y" "legal_cluster d y" "chain d E ys (E y)" using assms(2) by auto
    then have "legal_cluster d (E y) \<or> E y = LONG_LAST_CLUSTER" by (cases ys) auto
    then show ?thesis using y vol_legal [OF assms(1) y(2)] assms(2) by (auto simp: follow_def word_less_nat_alt word_le_nat_alt)
  qed
  then show "follow d E c = E c" "\<not> E c \<le> 1" by blast+
qed

section \<open>Freeing a chain\<close>

definition hint_ok :: "dpb \<Rightarrow> bool" where
  "hint_ok d \<longleftrightarrow> (if ISFAT32 d then dpb_xcluster d = 0 \<or> legal_cluster d (dpb_xcluster d)
     else dpb_cluster d = 0 \<or> legal_cluster d (ucast (dpb_cluster d)))"

lemma hint_ok_static:
  "dpb_static d' = dpb_static d \<Longrightarrow> dpb_cluster d' = dpb_cluster d \<Longrightarrow> dpb_xcluster d' = dpb_xcluster d \<Longrightarrow> hint_ok d' = hint_ok d"
  using fat_static(3) [of d' d] legal_static [of d' d] by (simp add: hint_ok_def)

lemma small_cluster: "vol_ok P D U M dpbp d s \<Longrightarrow> \<not> ISFAT32 d \<Longrightarrow> legal_cluster d c \<Longrightarrow> ucast (ucast c :: u16) = c"
proof -
  assume v: "vol_ok P D U M dpbp d s" and n: "\<not> ISFAT32 d" and c: "legal_cluster d c"
  have "max_cluster d = ucast (dpb_size d)" using n by (simp add: max_cluster_def)
  then have "unat (max_cluster d) < 65536" by (simp add: unat_ucast_u32)
  then show "ucast (ucast c :: u16) = c" using vol_legal(6) [OF v c] by (intro ucast_back) simp
qed

lemma hint_freed_static: "dpb_static (hint_freed st d) = dpb_static d" "dpb_xnfreeclst (hint_freed st d) = dpb_xnfreeclst d"
  by (simp_all add: hint_freed_def dpb_static_def)

lemma hint_freed_ok:
  assumes "vol_ok P D U M dpbp d s" "legal_cluster d st" "hint_ok (dpbs s dpbp)"
  shows "hint_ok (hint_freed st (dpbs s dpbp))"
proof -
  let ?d = "dpbs s dpbp"
  note S = vol_static [OF assms(1)]
  have L: "legal_cluster (hint_freed st ?d) c = legal_cluster d c" "ISFAT32 (hint_freed st ?d) = ISFAT32 ?d" "legal_cluster ?d c = legal_cluster d c" for c
    using legal_static [OF hint_freed_static(1), of st ?d] fat_static(3) [OF hint_freed_static(1), of st ?d] legal_static [OF S] by simp_all
  have "ucast (ucast st :: u16) = st" if "\<not> ISFAT32 ?d" using that small_cluster [OF assms(1) _ assms(2)] fat_static(3) [OF S] by simp
  then show ?thesis using assms(2,3) by (auto simp: hint_ok_def L) (auto simp: hint_freed_def split: if_splits)
qed

lemma wipe_ok:
  "vol_ok P D U M dpbp d s \<Longrightarrow> chain d (entry_of D dpbp s) cs st \<Longrightarrow> hint_ok (dpbs s dpbp) \<Longrightarrow>
    \<exists>s'. wipe_out_clusters P dpbp st s = Some s' \<and>
      fat_to P D U M dpbp d s (\<lambda>c. if c \<in> set cs then FREE else entry_of D dpbp s c) s' \<and> hint_ok (dpbs s' dpbp)"
proof (induction cs arbitrary: st s)
  case Nil
  then have st: "st = LONG_LAST_CLUSTER" by simp
  have t: "ISFAT32 (dpbs s dpbp) = ISFAT32 d" by (rule fat_static(3) [OF vol_static [OF Nil(1)]])
  show ?case
  proof (cases "ISFAT32 d")
    case True
    obtain s' where "write_fsinfo P dpbp s = Some s'" "fat_to P D U M dpbp d s (entry_of D dpbp s) s'" "dpbs s' = dpbs s"
      by (rule fsinfo_step [OF Nil(1) True], rule that, assumption+)
    then show ?thesis using st t True Nil(3) by (simp add: wipe_out_clusters.simps)
  qed (use st t fat_to_refl [OF Nil(1)] Nil(3) in \<open>simp add: wipe_out_clusters.simps\<close>)
next
  case (Cons c cs)
  let ?E = "entry_of D dpbp s"
  have c: "st = c" "legal_cluster d c" "chain d ?E cs (?E c)" using Cons.prems(2) by auto
  note V = vol_legal [OF Cons.prems(1) c(2)]
  note F = chain_follow [OF Cons.prems(1,2)]
  have last: "\<not> legal_cluster d LONG_LAST_CLUSTER" using vol_legal(2) [OF Cons.prems(1)] by blast
  then have "c \<notin> set cs" using chain_distinct [OF last Cons.prems(2)] by simp
  obtain s1 where s1: "next_cluster P dpbp c s = Some (?E c, s1)" "fat_to P D U M dpbp d s ?E s1" "dpbs s1 = dpbs s"
    using next_step [OF Cons.prems(1), of c] F(1) by metis
  note v1 = fat_toD(1,3) [OF s1(2)]
  obtain s2 where s2: "link_fat P dpbp c FREE s1 = Some (0, s2)" "fat_to P D U M dpbp d s1 ((entry_of D dpbp s1)(c := FREE)) s2"
      "dpb_cluster (dpbs s2 dpbp) = dpb_cluster (dpbs s1 dpbp)" "dpb_xcluster (dpbs s2 dpbp) = dpb_xcluster (dpbs s1 dpbp)"
    by (rule put_step [OF v1(1) c(2), of FREE]) (auto simp: fat_value_def)
  note v2 = fat_toD(1,3) [OF s2(2)]
  have h2: "hint_ok (dpbs s2 dpbp)"
    using hint_ok_static [of "dpbs s2 dpbp" "dpbs s dpbp"] s2(3,4) s1(3) Cons.prems(3) vol_static [OF v2(1)] vol_static [OF Cons.prems(1)] by simp
  let ?s3 = "upd_dpb dpbp (hint_freed c) s2"
  have s3: "fat_to P D U M dpbp d s2 (entry_of D dpbp s2) ?s3" by (rule hint_step [where f = "hint_freed c", OF v2(1) hint_freed_static])
  have h3: "hint_ok (dpbs ?s3 dpbp)" using hint_freed_ok [OF v2(1) c(2) h2] by simp
  have E3: "entry_of D dpbp ?s3 x = (?E(c := FREE)) x" if "legal_cluster d x" for x
    using fat_toD(3) [OF s3 that] v2(2) [OF that] v1(2) [OF that] by simp
  have "chain d (entry_of D dpbp ?s3) cs (?E c) = chain d ?E cs (?E c)"
    by (rule chain_cong) (use E3 chain_legal [OF c(3)] \<open>c \<notin> set cs\<close> in auto)
  then obtain s' where s': "wipe_out_clusters P dpbp (?E c) ?s3 = Some s'"
      "fat_to P D U M dpbp d ?s3 (\<lambda>x. if x \<in> set cs then FREE else entry_of D dpbp ?s3 x) s'" "hint_ok (dpbs s' dpbp)"
    using Cons.IH [OF fat_toD(1) [OF s3] _ h3] c(3) by blast
  have "wipe_out_clusters P dpbp st s = Some s'"
    using c(1) V F(2) s1(1) s2(1) s'(1) by (subst wipe_out_clusters.simps) simp
  moreover have "fat_to P D U M dpbp d s (\<lambda>x. if x \<in> set (c # cs) then FREE else ?E x) s'"
    using fat_to_trans [OF fat_to_trans [OF fat_to_trans [OF s1(2) s2(2)] s3] s'(2)] by (rule fat_to_cong) (auto simp: E3)
  ultimately show ?case using s'(3) by blast
qed

section \<open>Finding a free cluster\<close>

text \<open>The clusters in the order of the search: from the hint to the end of the volume, then from 2.\<close>

definition search_order :: "dpb \<Rightarrow> u32 \<Rightarrow> u32 list" where
  "search_order d h = map of_nat ([unat h..<unat (max_cluster d) + 1] @ [2..<unat h])"

definition cyc_next :: "dpb \<Rightarrow> u32 \<Rightarrow> u32" where
  "cyc_next d c = (if c + 1 > max_cluster d then 2 else c + 1)"

lemma of_nat_legal:
  assumes "2 \<le> n" "n \<le> unat (max_cluster d)"
  shows "legal_cluster d (of_nat n)" "unat (of_nat n :: u32) = n"
proof -
  show "unat (of_nat n :: u32) = n" using assms unsigned_less [of "max_cluster d", where ?'a = nat] by (intro unat_of_nat_u32) simp
  then show "legal_cluster d (of_nat n)" using assms by (simp add: legal_cluster_def word_le_nat_alt)
qed

lemma search_order_props:
  assumes "legal_cluster d h" "unat (max_cluster d) \<le> 0x0ffffff6"
  shows "hd (search_order d h) = h" "set (search_order d h) = {c. legal_cluster d c}" "search_order d h \<noteq> []"
    "distinct (search_order d h)"
proof -
  have h: "2 \<le> unat h" "unat h \<le> unat (max_cluster d)" using assms by (simp_all add: legal_cluster_def word_le_nat_alt)
  then show "hd (search_order d h) = h" "search_order d h \<noteq> []" by (simp_all add: search_order_def upt_rec)
  have n: "set ([unat h..<unat (max_cluster d) + 1] @ [2..<unat h]) = {2..unat (max_cluster d)}" using h by auto
  have "set (search_order d h) = of_nat ` {2..unat (max_cluster d)}" unfolding search_order_def set_map n ..
  also have "\<dots> = {c. legal_cluster d c}"
  proof (intro equalityI subsetI)
    fix c
    assume "c \<in> {c. legal_cluster d c}"
    then have "unat c \<in> {2..unat (max_cluster d)}" by (simp add: legal_cluster_def word_le_nat_alt)
    then show "c \<in> of_nat ` {2..unat (max_cluster d)}" by (rule rev_image_eqI) simp
  qed (use of_nat_legal(1) in auto)
  finally show "set (search_order d h) = {c. legal_cluster d c}" .
  have "inj_on (of_nat :: nat \<Rightarrow> u32) {2..unat (max_cluster d)}"
    by (rule inj_on_inverseI [of _ unat]) (use of_nat_legal(2) in auto)
  then show "distinct (search_order d h)" unfolding search_order_def distinct_map using n by auto
qed

lemma cyc_next_nat:
  assumes "2 \<le> n" "n \<le> unat (max_cluster d)" "unat (max_cluster d) \<le> 0x0ffffff6"
  shows "cyc_next d (of_nat n) = (if n = unat (max_cluster d) then 2 else of_nat (n + 1))"
proof -
  have "unat (of_nat n + 1 :: u32) = n + 1" using of_nat_legal(2) [OF assms(1,2)] assms unat_u32_add [of "of_nat n" 1] by simp
  then show ?thesis using assms by (simp add: cyc_next_def word_less_nat_alt)
qed

lemma search_order_next:
  assumes "legal_cluster d h" "unat (max_cluster d) \<le> 0x0ffffff6" "search_order d h = pre @ x # post"
  shows "cyc_next d x = (case post of [] \<Rightarrow> h | y # _ \<Rightarrow> y)"
proof -
  let ?N = "unat (max_cluster d)" and ?H = "unat h"
  let ?l = "[?H..<?N + 1] @ [2..<?H]" and ?i = "length pre"
  have h: "2 \<le> ?H" "?H \<le> ?N" using assms by (simp_all add: legal_cluster_def word_le_nat_alt)
  have len: "length ?l = ?N - 1" using h by simp
  have "length (search_order d h) = ?N - 1" by (simp add: search_order_def len del: upt_Suc) (use h in simp)
  then have i: "?i < ?N - 1" "length post = ?N - 1 - ?i - 1" using assms(3) by simp_all
  have l: "?l ! k = (if k < ?N + 1 - ?H then ?H + k else k - (?N + 1 - ?H) + 2)" if "k < ?N - 1" for k
    using that h by (simp add: nth_append del: upt_Suc)
  have nth: "search_order d h ! k = of_nat (?l ! k)" if "k < ?N - 1" for k unfolding search_order_def by (rule nth_map) (simp only: len that)
  have x: "x = of_nat (?l ! ?i)" using nth [OF i(1)] assms(3) by simp
  have b: "2 \<le> ?l ! ?i" "?l ! ?i \<le> ?N" using l [OF i(1)] i(1) h by (auto split: if_splits)
  note c = cyc_next_nat [OF b assms(2), folded x]
  show ?thesis
  proof (cases post)
    case Nil
    then have e: "?i = ?N - 2" using i h by simp
    show ?thesis
    proof (cases "?H = 2")
      case True
      then have "?l ! ?i = ?N" unfolding l [OF i(1)] using e h by auto
      then show ?thesis using c Nil True by (simp add: word_unat_eq_iff [of h])
    next
      case False
      then have "?l ! ?i = ?H - 1" using l [OF i(1)] e h by (auto split: if_splits)
      then have "cyc_next d x = of_nat ?H" using c False h by auto
      then show ?thesis using Nil by simp
    qed
  next
    case (Cons y ys)
    then have i1: "?i + 1 < ?N - 1" using i by simp
    have "y = search_order d h ! (?i + 1)" using assms(3) Cons by (simp add: nth_append)
    then have y: "y = of_nat (?l ! (?i + 1))" using nth [OF i1] by simp
    have "cyc_next d x = of_nat (?l ! (?i + 1))"
    proof (cases "?i + 1 < ?N + 1 - ?H")
      case True
      then show ?thesis using c l [OF i(1)] l [OF i1] by auto
    next
      case False
      show ?thesis
      proof (cases "?i < ?N + 1 - ?H")
        case True
        then have "?l ! ?i = ?N" "?l ! (?i + 1) = 2" using l [OF i(1)] l [OF i1] False h by auto
        then show ?thesis using c by simp
      next
        case last: False
        then have "?l ! ?i + 1 = ?l ! (?i + 1)" "?l ! ?i \<noteq> ?N" using l [OF i(1)] l [OF i1] False i1 h by auto
        then show ?thesis using c by (metis of_nat_add of_nat_1)
      qed
    qed
    then show ?thesis using Cons y by simp
  qed
qed

lemma find_in: "find Q xs = Some x \<Longrightarrow> x \<in> set xs \<and> Q x"
  by (induction xs) (auto split: if_splits)

lemma free_search_ok:
  assumes h: "legal_cluster d h" and L: "search_order d h = pre @ x # post"
  shows "vol_ok P D U M dpbp d s \<Longrightarrow> \<forall>c. legal_cluster d c \<longrightarrow> entry_of D dpbp s c = E c \<Longrightarrow>
    \<exists>s'. free_search P dpbp (max_cluster d) h x s =
        Some (case find (\<lambda>c. E c = 0) (x # post) of Some c \<Rightarrow> (c, c, s') | None \<Rightarrow> (0, LONG_LAST_CLUSTER, s')) \<and>
      fat_to P D U M dpbp d s E s' \<and> dpbs s' = dpbs s"
  using L
proof (induction post arbitrary: pre x s)
  case Nil
  have bd: "unat (max_cluster d) \<le> 0x0ffffff6" by (rule vol_legal(7) [OF Nil.prems(1) h])
  have x: "legal_cluster d x" using search_order_props(2) [OF h bd] Nil.prems(3) by auto
  have ex: "entry_of D dpbp s x = E x" using Nil.prems(2) x by blast
  obtain s1 where s1: "is_free_cluster P dpbp x s = Some (entry_of D dpbp s x = 0, s1)" "fat_to P D U M dpbp d s (entry_of D dpbp s) s1" "dpbs s1 = dpbs s"
    by (rule get_step [OF Nil.prems(1) x], rule that, assumption+)
  have n: "(if x + 1 > max_cluster d then 2 else x + 1) = h" using search_order_next [OF h bd Nil.prems(3)] by (simp add: cyc_next_def)
  have "fat_to P D U M dpbp d s E s1" using s1(2) by (rule fat_to_cong) (use Nil.prems(2) in blast)
  then show ?case using s1 n ex by (subst free_search.simps) (auto simp: Let_def)
next
  case (Cons y ys)
  have bd: "unat (max_cluster d) \<le> 0x0ffffff6" by (rule vol_legal(7) [OF Cons.prems(1) h])
  note P = search_order_props [OF h bd]
  have x: "legal_cluster d x" using P(2) Cons.prems(3) by auto
  have ex: "entry_of D dpbp s x = E x" using Cons.prems(2) x by blast
  obtain s1 where s1: "is_free_cluster P dpbp x s = Some (entry_of D dpbp s x = 0, s1)" "fat_to P D U M dpbp d s (entry_of D dpbp s) s1" "dpbs s1 = dpbs s"
    by (rule get_step [OF Cons.prems(1) x], rule that, assumption+)
  have f1: "fat_to P D U M dpbp d s E s1" using s1(2) by (rule fat_to_cong) (use Cons.prems(2) in blast)
  have L': "search_order d h = (pre @ [x]) @ y # ys" using Cons.prems(3) by simp
  have n: "(if x + 1 > max_cluster d then 2 else x + 1) = y" using search_order_next [OF h bd Cons.prems(3)] by (simp add: cyc_next_def)
  have yh: "y \<noteq> h"
  proof -
    have "hd (pre @ x # y # ys) = h" "distinct (pre @ x # y # ys)" using P(1,4) Cons.prems(3) by simp_all
    then show ?thesis by (cases pre) auto
  qed
  show ?case
  proof (cases "E x = 0")
    case True
    then show ?thesis using s1 f1 ex by (subst free_search.simps) auto
  next
    case False
    have e1: "\<forall>c. legal_cluster d c \<longrightarrow> entry_of D dpbp s1 c = E c" using fat_toD(3) [OF f1] by blast
    note ih = Cons.IH [OF fat_toD(1) [OF f1] e1 L']
    obtain s' where s': "free_search P dpbp (max_cluster d) h y s1 =
          Some (case find (\<lambda>c. E c = 0) (y # ys) of Some c \<Rightarrow> (c, c, s') | None \<Rightarrow> (0, LONG_LAST_CLUSTER, s'))"
        "fat_to P D U M dpbp d s1 E s'" "dpbs s' = dpbs s1"
      using ih by (elim exE conjE) (rule that, assumption+)
    have "free_search P dpbp (max_cluster d) h x s = free_search P dpbp (max_cluster d) h y s1"
      using s1(1) False ex yh by (subst free_search.simps) (simp add: n Let_def)
    then show ?thesis using s' False fat_to_trans [OF f1 s'(2)] s1(3) by (intro exI [of _ s']) simp
  qed
qed

definition first_free :: "dpb \<Rightarrow> (u32 \<Rightarrow> u32) \<Rightarrow> u32 \<Rightarrow> u32 option" where
  "first_free d E h = find (\<lambda>c. E c = 0) (search_order d h)"

lemma free_start_legal:
  assumes "vol_ok P D U M dpbp d s" "hint_ok (dpbs s dpbp)" "2 \<le> max_cluster d"
  shows "legal_cluster d (free_start (dpbs s dpbp))"
proof -
  have "legal_cluster d 2" using assms(3) by (simp add: legal_cluster_def)
  then show ?thesis using assms(2) unfolding hint_ok_def free_start_def legal_static [OF vol_static [OF assms(1)]] by (simp split: if_splits) metis+
qed

lemma find_fat_free_ok:
  assumes v: "vol_ok P D U M dpbp d s" and h: "hint_ok (dpbs s dpbp)" and m: "2 \<le> max_cluster d"
  shows "\<exists>s'. find_fat_free P dpbp s =
      Some (case first_free d (entry_of D dpbp s) (free_start (dpbs s dpbp)) of Some c \<Rightarrow> c | None \<Rightarrow> LONG_LAST_CLUSTER, s') \<and>
    fat_to P D U M dpbp d s (entry_of D dpbp s) s' \<and> hint_ok (dpbs s' dpbp)"
proof -
  let ?E = "entry_of D dpbp s" and ?h = "free_start (dpbs s dpbp)"
  have hl: "legal_cluster d ?h" by (rule free_start_legal [OF v h m])
  note P = search_order_props [OF hl vol_legal(7) [OF v hl]]
  obtain post where L: "search_order d ?h = [] @ ?h # post" using P(1,3) by (cases "search_order d ?h") auto
  define r where "r = first_free d ?E ?h"
  have r: "r = find (\<lambda>c. ?E c = 0) (?h # post)" using L by (simp add: r_def first_free_def)
  obtain s1 where s1: "free_search P dpbp (max_cluster d) ?h ?h s = Some (case r of Some c \<Rightarrow> (c, c, s1) | None \<Rightarrow> (0, LONG_LAST_CLUSTER, s1))"
      "fat_to P D U M dpbp d s ?E s1" "dpbs s1 = dpbs s"
    using free_search_ok [OF hl L v, of ?E, folded r] by blast
  note v1 = fat_toD(1) [OF s1(2)]
  define k where "k = (case r of Some c \<Rightarrow> c | None \<Rightarrow> 0)"
  have k: "k = 0 \<or> legal_cluster d k"
  proof (cases r)
    case (Some c)
    then have "c \<in> set (search_order d ?h)" using L r find_in [of "\<lambda>c. ?E c = 0" "?h # post" c] by simp
    then show ?thesis using P(2) Some by (simp add: k_def)
  qed (simp add: k_def)
  have m1: "max_cluster (dpbs s dpbp) = max_cluster d" by (rule fat_static(4) [OF vol_static [OF v]])
  have t1: "ISFAT32 (dpbs s1 dpbp) = ISFAT32 d" by (rule fat_static(3) [OF vol_static [OF v1]])
  have F: "find_fat_free P dpbp s = (if ISFAT32 d then
      do { s2 \<leftarrow> write_fsinfo P dpbp (upd_dpb dpbp (\<lambda>d. d\<lparr>dpb_xcluster := k\<rparr>) s1);
           Some (case r of Some c \<Rightarrow> c | None \<Rightarrow> LONG_LAST_CLUSTER, s2) }
    else Some (case r of Some c \<Rightarrow> c | None \<Rightarrow> LONG_LAST_CLUSTER, upd_dpb dpbp (\<lambda>d. d\<lparr>dpb_cluster := ucast k\<rparr>) s1))"
    unfolding find_fat_free_def Let_def m1 using s1(1) t1 by (cases r) (simp_all add: k_def)
  show ?thesis
  proof (cases "ISFAT32 d")
    case True
    let ?s2 = "upd_dpb dpbp (\<lambda>d. d\<lparr>dpb_xcluster := k\<rparr>) s1"
    have s2: "fat_to P D U M dpbp d s1 (entry_of D dpbp s1) ?s2" by (rule hint_step [OF v1]) (simp_all add: dpb_static_def)
    obtain s3 where s3: "write_fsinfo P dpbp ?s2 = Some s3" "fat_to P D U M dpbp d ?s2 (entry_of D dpbp ?s2) s3" "dpbs s3 = dpbs ?s2"
      by (rule fsinfo_step [OF fat_toD(1) [OF s2] True], rule that, assumption+)
    have "hint_ok (dpbs s3 dpbp)"
      using k True t1 legal_static [OF vol_static [OF fat_toD(1) [OF s3(2)]]] by (simp add: hint_ok_def s3(3)) (simp add: ISFAT32_def)
    moreover have "fat_to P D U M dpbp d s ?E s3" using fat_to_trans [OF fat_to_trans [OF s1(2) s2] s3(2)]
      by (rule fat_to_cong) (use fat_toD(3) [OF s2] fat_toD(3) [OF s1(2)] in simp)
    ultimately show ?thesis using F True s3(1) by (auto simp: r_def)
  next
    case False
    let ?s2 = "upd_dpb dpbp (\<lambda>d. d\<lparr>dpb_cluster := ucast k\<rparr>) s1"
    have s2: "fat_to P D U M dpbp d s1 (entry_of D dpbp s1) ?s2" by (rule hint_step [OF v1]) (simp_all add: dpb_static_def)
    have "k = 0 \<or> ucast (ucast k :: u16) = k" using k small_cluster [OF v False] by blast
    then have "hint_ok (dpbs ?s2 dpbp)"
      using k False t1 legal_static [OF vol_static [OF fat_toD(1) [OF s2]]] by (auto simp: hint_ok_def ISFAT32_def)
    moreover have "fat_to P D U M dpbp d s ?E ?s2" using fat_to_trans [OF s1(2) s2] by (rule fat_to_cong) (use fat_toD(3) [OF s1(2)] in simp)
    ultimately show ?thesis using F False by (auto simp: r_def)
  qed
qed

lemma first_free_props:
  assumes "vol_ok P D U M dpbp d s" "legal_cluster d h"
  shows "first_free d E h = Some c \<Longrightarrow> legal_cluster d c \<and> E c = 0" "first_free d E h = None \<Longrightarrow> legal_cluster d c \<Longrightarrow> E c \<noteq> 0"
proof -
  note P = search_order_props [OF assms(2) vol_legal(7) [OF assms]]
  show "first_free d E h = Some c \<Longrightarrow> legal_cluster d c \<and> E c = 0"
    unfolding first_free_def using P(2) by (auto dest!: find_in)
  show "first_free d E h = None \<Longrightarrow> legal_cluster d c \<Longrightarrow> E c \<noteq> 0" using P(2) by (auto simp: first_free_def find_None_iff)
qed

end
