(* ===== verification/FileProps.thy ===== *)
theory FileProps
  imports FatChain
begin

text \<open>
  What the operations of \<^verbatim>\<open>FatFile\<close> do to the files of a mounted volume: counting free space, growing a
  chain, and finding the cluster of a position in a file.
\<close>

section \<open>Free space\<close>

lemma free_from_step:
  assumes "2 \<le> k" "k \<le> unat (max_cluster d)"
  shows "{c. legal_cluster d c \<and> k \<le> unat c \<and> E c = FREE} =
    (if E (of_nat k) = FREE then insert (of_nat k) {c. legal_cluster d c \<and> k + 1 \<le> unat c \<and> E c = FREE}
     else {c. legal_cluster d c \<and> k + 1 \<le> unat c \<and> E c = FREE})"
proof -
  note L = of_nat_legal [OF assms]
  have "k \<le> unat c \<longleftrightarrow> c = of_nat k \<or> k + 1 \<le> unat c" for c :: u32
    using L(2) word_unat_eq_iff [of c "of_nat k"] by auto
  then show ?thesis using L by auto
qed

abbreviation (input) set_hint :: "u32 \<Rightarrow> dpb \<Rightarrow> dpb" where
  "set_hint i \<equiv> \<lambda>d. if ISFAT32 d then d\<lparr>dpb_xcluster := i\<rparr> else d\<lparr>dpb_cluster := ucast i\<rparr>"

lemma set_hint_step:
  assumes "vol_ok P D U M dpbp d s" "legal_cluster d i"
  shows "fat_to P D U M dpbp d s (entry_of D dpbp s) (upd_dpb dpbp (set_hint i) s)"
    "hint_ok (set_hint i (dpbs s dpbp))" "dpb_xnfreeclst (set_hint i (dpbs s dpbp)) = dpb_xnfreeclst (dpbs s dpbp)"
proof -
  have st: "dpb_static (set_hint i (dpbs s dpbp)) = dpb_static (dpbs s dpbp)" by (simp add: dpb_static_def)
  show x: "dpb_xnfreeclst (set_hint i (dpbs s dpbp)) = dpb_xnfreeclst (dpbs s dpbp)" by simp
  show "fat_to P D U M dpbp d s (entry_of D dpbp s) (upd_dpb dpbp (set_hint i) s)"
    by (rule hint_step [where f = "set_hint i", OF assms(1) st x])
  note S = vol_static [OF assms(1)]
  have "\<not> ISFAT32 d \<Longrightarrow> ucast (ucast i :: u16) = i" by (rule small_cluster [OF assms(1) _ assms(2)])
  then show "hint_ok (set_hint i (dpbs s dpbp))"
    using assms(2) legal_static [OF S] legal_static [OF st] fat_static(3) [OF S] fat_static(3) [OF st]
    by (cases "ISFAT32 d") (simp_all add: hint_ok_def)
qed

lemma count_loop_ok:
  "vol_ok P D U M dpbp d s \<Longrightarrow> hint_ok (dpbs s dpbp) \<Longrightarrow> \<forall>c. legal_cluster d c \<longrightarrow> entry_of D dpbp s c = E c \<Longrightarrow> 2 \<le> k \<Longrightarrow>
    k + n = unat (max_cluster d) + 1 \<Longrightarrow> legal_cluster d h \<Longrightarrow>
    \<exists>s'. count_loop P dpbp (max_cluster d) (of_nat k) cnt s =
        Some (cnt + of_nat (card {c. legal_cluster d c \<and> k \<le> unat c \<and> E c = FREE}), s') \<and>
      fat_to P D U M dpbp d s E s' \<and> hint_ok (dpbs s' dpbp) \<and> dpb_xnfreeclst (dpbs s' dpbp) = dpb_xnfreeclst (dpbs s dpbp)"
proof (induction n arbitrary: k cnt s)
  case 0
  have "{c. legal_cluster d c \<and> k \<le> unat c \<and> E c = FREE} = {}" using 0(5) by (auto simp: legal_cluster_def word_le_nat_alt)
  then have z: "card {c. legal_cluster d c \<and> k \<le> unat c \<and> E c = FREE} = 0" by (simp only: card.empty)
  have "\<not> (of_nat k :: u32) \<le> max_cluster d"
    using 0(5) vol_legal(7) [OF 0(1,6)] unat_of_nat_u32 [of k] by (simp add: word_le_nat_alt)
  moreover have "fat_to P D U M dpbp d s E s" using fat_to_refl [OF 0(1)] by (rule fat_to_cong) (use 0(3) in blast)
  ultimately show ?case unfolding z using 0(2) by (simp add: count_loop.simps)
next
  case (Suc n)
  let ?k = "of_nat k :: u32" and ?F = "\<lambda>k. {c. legal_cluster d c \<and> k \<le> unat c \<and> E c = FREE}"
  have kN: "k \<le> unat (max_cluster d)" using Suc.prems(5) by simp
  note L = of_nat_legal [OF Suc.prems(4) kN]
  have Ek: "entry_of D dpbp s ?k = E ?k" using Suc.prems(3) L(1) by blast
  obtain s1 where s1: "is_free_cluster P dpbp ?k s = Some (entry_of D dpbp s ?k = 0, s1)" "fat_to P D U M dpbp d s (entry_of D dpbp s) s1" "dpbs s1 = dpbs s"
    by (rule get_step [OF Suc.prems(1) L(1)], rule that, assumption+)
  note v1 = fat_toD(1) [OF s1(2)]
  define s2 where "s2 = (if E ?k = FREE \<and> cnt = 0 then upd_dpb dpbp (set_hint ?k) s1 else s1)"
  have s2: "fat_to P D U M dpbp d s1 (entry_of D dpbp s1) s2" "hint_ok (dpbs s2 dpbp)" "dpb_xnfreeclst (dpbs s2 dpbp) = dpb_xnfreeclst (dpbs s1 dpbp)"
    using set_hint_step [OF v1 L(1)] fat_to_refl [OF v1] s1(3) Suc.prems(2) by (simp_all add: s2_def)
  have "fat_to P D U M dpbp d s (entry_of D dpbp s1) s2" by (rule fat_to_trans [OF s1(2) s2(1)])
  then have f2: "fat_to P D U M dpbp d s E s2" by (rule fat_to_cong) (use fat_toD(3) [OF s1(2)] Suc.prems(3) in simp)
  have e2: "\<forall>c. legal_cluster d c \<longrightarrow> entry_of D dpbp s2 c = E c" using fat_toD(3) [OF f2] by blast
  have k1: "2 \<le> k + 1" "(k + 1) + n = unat (max_cluster d) + 1" using Suc.prems(4,5) by simp_all
  let ?c = "if E ?k = FREE then cnt + 1 else cnt"
  obtain s' where s': "count_loop P dpbp (max_cluster d) (of_nat (k + 1)) ?c s2 = Some (?c + of_nat (card (?F (k + 1))), s')"
      "fat_to P D U M dpbp d s2 E s'" "hint_ok (dpbs s' dpbp)" "dpb_xnfreeclst (dpbs s' dpbp) = dpb_xnfreeclst (dpbs s2 dpbp)"
    using Suc.IH [OF fat_toD(1) [OF f2] s2(2) e2 k1 Suc.prems(6), of ?c] by blast
  have le: "?k \<le> max_cluster d" using L(1) by (simp add: legal_cluster_def)
  have "count_loop P dpbp (max_cluster d) ?k cnt s = count_loop P dpbp (max_cluster d) (?k + 1) ?c s2"
    using s1(1) le Ek by (subst count_loop.simps) (simp add: Let_def s2_def)
  moreover have "card (?F k) = (if E ?k = FREE then card (?F (k + 1)) + 1 else card (?F (k + 1)))"
    unfolding free_from_step [OF Suc.prems(4) kN] by (simp add: card_insert_if L(2))
  then have "?c + of_nat (card (?F (k + 1))) = cnt + of_nat (card (?F k))" by simp
  moreover have "of_nat (k + 1) = ?k + (1 :: u32)" by (simp only: of_nat_add of_nat_1)
  ultimately have "count_loop P dpbp (max_cluster d) ?k cnt s = Some (cnt + of_nat (card (?F k)), s')" using s'(1) by (simp only:)
  then show ?case using s'(2-4) s1(3) s2(3) fat_to_trans [OF f2 s'(2)] by simp
qed

lemma free_set_vol: "vol_ok P D U M dpbp d s \<Longrightarrow> free_set D dpbp s = {c. legal_cluster d c \<and> entry_of D dpbp s c = FREE}"
  unfolding free_set_def by (rule Collect_cong) (use legal_static [OF vol_static, of P D U M dpbp d s] in blast)

lemma free_set_small:
  assumes "vol_ok P D U M dpbp d s"
  shows "card (free_set D dpbp s) < (if ISFAT32 d then 0x0fffffff else 0xffff)"
proof -
  have v: "volume U M s dpbp" using assms by (simp add: vol_ok_def)
  have "card (free_set D dpbp s) \<le> card {c. legal_cluster d c}" unfolding free_set_vol [OF assms] by (intro card_mono) auto
  moreover have "unat (max_cluster d) \<le> 0x0ffffff6"
    using fat_static(4) [OF vol_static [OF assms]] volumeD(7) [OF v] by (simp add: word_le_nat_alt)
  moreover have "unat (max_cluster d) < 65536" if "\<not> ISFAT32 d" by (simp add: max_cluster_def unat_ucast_u32 that)
  ultimately show ?thesis using card_legal [of d] by (auto split: if_splits)
qed

text \<open>Storing the count of the free clusters.\<close>

lemma count_step:
  assumes "vol_ok P D U M dpbp d s" "dpb_static (f (dpbs s dpbp)) = dpb_static (dpbs s dpbp)"
    "free_field (f (dpbs s dpbp)) = of_nat (card (free_set D dpbp s))"
  shows "fat_to P D U M dpbp d s (entry_of D dpbp s) (upd_dpb dpbp f s)" "\<not> free_unknown (dpbs (upd_dpb dpbp f s) dpbp)"
    "unat (free_field (f (dpbs s dpbp))) = card (free_set D dpbp s)"
proof -
  note S = dpb_step [where f = f, OF assms(1,2)]
  have t: "ISFAT32 (f (dpbs s dpbp)) = ISFAT32 d" using fat_static(3) [OF assms(2)] fat_static(3) [OF vol_static [OF assms(1)]] by simp
  show u: "unat (free_field (f (dpbs s dpbp))) = card (free_set D dpbp s)"
    unfolding assms(3) using free_set_small [OF assms(1)] by (intro unat_of_nat_u32) (simp split: if_splits)
  have "free_set D dpbp (upd_dpb dpbp f s) = free_set D dpbp s" 
    unfolding free_set_vol [OF S(1)] free_set_vol [OF assms(1)] by (rule Collect_cong) (use S(3) in metis)
  then have "free_count_ok D dpbp (upd_dpb dpbp f s)" using u by (simp add: free_count_ok_def)
  then show "fat_to P D U M dpbp d s (entry_of D dpbp s) (upd_dpb dpbp f s)" using S by (simp add: fat_to_def)
  show "\<not> free_unknown (dpbs (upd_dpb dpbp f s) dpbp)"
    using free_set_small [OF assms(1)] u t by (auto simp: free_unknown_def word_unat_eq_iff [of "free_field (f (dpbs s dpbp))"] split: if_splits)
qed

lemma free_unknown_iff: "free_unknown d \<longleftrightarrow> (if ISFAT32 d then dpb_xnfreeclst d = XUNKNCLSTFREE else dpb_nfreeclst d = UNKNCLSTFREE)"
  using unat_ucast_u32 [of "dpb_nfreeclst d"] by (simp add: free_unknown_def free_field_def word_unat_eq_iff [of "ucast (dpb_nfreeclst d)"] word_unat_eq_iff [of "dpb_nfreeclst d"])

lemma dos_free_ok:
  assumes v: "vol_ok P D U M dpbp d s" and h: "hint_ok (dpbs s dpbp)" and m: "2 \<le> max_cluster d" and f: "free_count_ok D dpbp s"
  shows "\<exists>n s'. dos_free P dpbp s = Some (n, s') \<and> unat n = card (free_set D dpbp s) \<and>
    fat_to P D U M dpbp d s (entry_of D dpbp s) s' \<and> \<not> free_unknown (dpbs s' dpbp) \<and> hint_ok (dpbs s' dpbp)"
proof (cases "free_unknown (dpbs s dpbp)")
  case False
  then have "dos_free P dpbp s = Some (free_field (dpbs s dpbp), s)" by (simp add: dos_free_def free_unknown_iff free_field_def Let_def split: if_splits)
  then show ?thesis using False f fat_to_refl [OF v] h by (simp add: free_count_ok_def)
next
  case True
  let ?E = "entry_of D dpbp s" and ?n = "of_nat (card (free_set D dpbp s)) :: u32"
  have h2: "legal_cluster d 2" using m by (simp add: legal_cluster_def)
  have m1: "max_cluster (dpbs s dpbp) = max_cluster d" by (rule fat_static(4) [OF vol_static [OF v]])
  have F: "{c. legal_cluster d c \<and> 2 \<le> unat c \<and> ?E c = FREE} = free_set D dpbp s"
    unfolding free_set_vol [OF v] by (auto simp: legal_cluster_def word_le_nat_alt)
  have k: "2 + (unat (max_cluster d) - 1) = unat (max_cluster d) + 1" using m by (simp add: word_le_nat_alt)
  obtain s1 where s1: "count_loop P dpbp (max_cluster d) 2 0 s = Some (?n, s1)" "fat_to P D U M dpbp d s ?E s1"
      "hint_ok (dpbs s1 dpbp)" "dpb_xnfreeclst (dpbs s1 dpbp) = dpb_xnfreeclst (dpbs s dpbp)"
    using count_loop_ok [OF v h _ order.refl k h2, of ?E 0] unfolding F by auto
  note v1 = fat_toD(1) [OF s1(2)]
  have t: "ISFAT32 (dpbs s dpbp) = ISFAT32 d" "ISFAT32 (dpbs s1 dpbp) = ISFAT32 d"
    using fat_static(3) [OF vol_static [OF v]] fat_static(3) [OF vol_static [OF v1]] by simp_all
  have F1: "free_set D dpbp s1 = free_set D dpbp s"
    unfolding free_set_vol [OF v1] free_set_vol [OF v] by (rule Collect_cong) (use fat_toD(3) [OF s1(2)] in metis)
  define g where "g = (\<lambda>d. if ISFAT32 d then d\<lparr>dpb_xnfreeclst := ?n\<rparr> else set_nfreeclst (ucast ?n) d)"
  have small: "ucast (ucast ?n :: u16) = ?n" if "\<not> ISFAT32 d"
    using free_set_small [OF v] that unat_of_nat_u32 [of "card (free_set D dpbp s)"] by (intro ucast_back) simp
  have st: "dpb_static (g (dpbs s1 dpbp)) = dpb_static (dpbs s1 dpbp)" by (simp add: g_def) (simp add: dpb_static_def)
  have "free_field (g (dpbs s1 dpbp)) = ?n"
    using small t(2) fat_static(3) [OF st] by (simp add: free_field_def g_def split: if_splits)
  then have ff: "free_field (g (dpbs s1 dpbp)) = of_nat (card (free_set D dpbp s1))" by (simp only: F1)
  let ?s2 = "upd_dpb dpbp g s1"
  note S = count_step [where f = g, OF v1 st ff]
  have n: "unat ?n = card (free_set D dpbp s)" using S(3) ff unfolding F1 by simp
  have h2: "hint_ok (g (dpbs s1 dpbp))" using hint_ok_static [OF st] s1(3) by (simp add: g_def)
  have f2: "fat_to P D U M dpbp d s ?E ?s2" using fat_to_trans [OF s1(2) S(1)] by (rule fat_to_cong) (rule fat_toD(3) [OF s1(2)])
  have D: "dos_free P dpbp s = (if ISFAT32 d then do { s2 \<leftarrow> write_fsinfo P dpbp ?s2; Some (?n, s2) } else Some (?n, ?s2))"
    using True s1(1) t by (simp add: dos_free_def free_unknown_iff m1 Let_def g_def)
  show ?thesis
  proof (cases "ISFAT32 d")
    case True
    obtain s3 where s3: "write_fsinfo P dpbp ?s2 = Some s3" "fat_to P D U M dpbp d ?s2 (entry_of D dpbp ?s2) s3" "dpbs s3 = dpbs ?s2"
      by (rule fsinfo_step [OF fat_toD(1) [OF f2] True], rule that, assumption+)
    have "fat_to P D U M dpbp d s ?E s3" using fat_to_trans [OF f2 s3(2)] by (rule fat_to_cong) (rule fat_toD(3) [OF f2])
    then show ?thesis using D True s3 n S(2) h2 by simp
  next
    case False
    then show ?thesis using D n S(2) h2 f2 by simp
  qed
qed

section \<open>Files\<close>

text \<open>The volume depends on the state of the block layer only.\<close>

lemma truncate_same:
  fixes s :: "('w, 'a) kst_scheme" and t :: "('w, 'b) kst_scheme"
  assumes "kst.truncate s = kst.truncate t"
  shows "vol_ok P D U M dpbp d s = vol_ok P D U M dpbp d t" "content D s = content D t" "entry_of D dpbp s = entry_of D dpbp t"
    "free_count_ok D dpbp s = free_count_ok D dpbp t" "dpbs s = dpbs t"
proof -
  have F: "bufs s = bufs t" "firstbuf s = firstbuf t" "dpbs s = dpbs t" "CDSp s = CDSp t" "lastdrive s = lastdrive t" "world s = world t"
    using assms by (simp_all add: kst.truncate_def)
  then have r: "ring_of s = ring_of t" and g: "get_dpb u s = get_dpb u t" for u by (simp_all add: ring_of_def get_dpb_def get_cds_def)
  have v: "drive s u = drive t u" "vol_unit s p = vol_unit t p" for u p by (simp_all add: drive_def vol_unit_def g F)
  show c: "content D s = content D t" by (intro ext) (simp add: content_def view_def r F on_disk_def v split: option.split)
  show e: "entry_of D dpbp s = entry_of D dpbp t" by (intro ext) (simp add: entry_of_def fat_def fat_bytes_def c v F)
  show "free_count_ok D dpbp s = free_count_ok D dpbp t" by (simp add: free_count_ok_def free_set_def e F)
  show "vol_ok P D U M dpbp d s = vol_ok P D U M dpbp d t"
    by (simp add: vol_ok_def cache_ok_def cache_inv_def r drives_def block_ok_def volume_def copy_offset_def on_disk_def g v F)
  show "dpbs s = dpbs t" by (rule F(3))
qed

lemma fnode_steps:
  fixes s :: "('w, 'a) dos_scheme"
  shows "fs_step s s' \<Longrightarrow> fs_step (s\<lparr>fnode := f\<rparr>) (s'\<lparr>fnode := f\<rparr>)"
    "vol_ok P D U M dpbp d (s\<lparr>fnode := f\<rparr>) = vol_ok P D U M dpbp d s"
    "content D (s\<lparr>fnode := f\<rparr>) = content D s" "entry_of D dpbp (s\<lparr>fnode := f\<rparr>) = entry_of D dpbp s"
    "free_count_ok D dpbp (s\<lparr>fnode := f\<rparr>) = free_count_ok D dpbp s"
proof -
  have "kst.truncate (s\<lparr>fnode := f\<rparr>) = kst.truncate s" by (simp add: kst.truncate_def)
  note T = truncate_same [OF this]
  show "vol_ok P D U M dpbp d (s\<lparr>fnode := f\<rparr>) = vol_ok P D U M dpbp d s"
    "content D (s\<lparr>fnode := f\<rparr>) = content D s" "entry_of D dpbp (s\<lparr>fnode := f\<rparr>) = entry_of D dpbp s"
    "free_count_ok D dpbp (s\<lparr>fnode := f\<rparr>) = free_count_ok D dpbp s" by (rule T)+
  show "fs_step (s\<lparr>fnode := f\<rparr>) (s'\<lparr>fnode := f\<rparr>)" if "fs_step s s'"
  proof -
    obtain rq db w m g ds where s': "s' = (after_io rq db w s)\<lparr>bufs := m, firstbuf := g\<rparr>\<lparr>dpbs := ds\<rparr>" "\<forall>p. dpb_static (ds p) = dpb_static (dpbs s p)"
      using \<open>fs_step s s'\<close> by (auto simp: fs_step_def cache_step_def)
    let ?t = "(after_io rq db w (s\<lparr>fnode := f\<rparr>))\<lparr>bufs := m, firstbuf := g\<rparr>"
    have "s'\<lparr>fnode := f\<rparr> = ?t\<lparr>dpbs := ds\<rparr>" by (simp add: s'(1) after_io_def)
    then show ?thesis unfolding fs_step_def using s'(2) by (intro exI [of _ ?t] exI [of _ ds]) auto
  qed
qed

text \<open>A step of a volume in the course of which the file nodes change as well.\<close>

definition dos_to ::
  "'w platform \<Rightarrow> 'w disk \<Rightarrow> u16 set \<Rightarrow> (u16 \<times> u32) set \<Rightarrow> u32 \<Rightarrow> dpb \<Rightarrow> ('w, 'a) dos_scheme \<Rightarrow> (u32 \<Rightarrow> u32) \<Rightarrow> ('w, 'a) dos_scheme \<Rightarrow> bool" where
  "dos_to P D U M dpbp d s E s' \<longleftrightarrow> fat_to P D U M dpbp d s E (s'\<lparr>fnode := fnode s\<rparr>)"

lemma same_more:
  fixes s s' :: "('w, 'a) dos_scheme"
  assumes "kst.more s' = kst.more s"
  shows "fnode s' = fnode s" "dms s' = dms s" "sfthead s' = sfthead s" "share_installed s' = share_installed s" "s'\<lparr>fnode := fnode s\<rparr> = s'"
  using assms by (cases s; cases s'; simp)+

lemma fat_to_dos: "fat_to P D U M dpbp d s E s' \<Longrightarrow> dos_to P D U M dpbp d s E s'"
  using fat_toD(6) [of P D U M dpbp d s E s'] by (simp add: dos_to_def same_more(5))

lemma dos_toD:
  assumes "dos_to P D U M dpbp d s E s'"
  shows "vol_ok P D U M dpbp d s'" "legal_cluster d c \<Longrightarrow> entry_of D dpbp s' c = E c" "free_count_ok D dpbp s \<Longrightarrow> free_count_ok D dpbp s'"
    "usable U M u b \<Longrightarrow> \<not> fat_area s dpbp u b \<Longrightarrow> content D s' u b = content D s u b" "dms s' = dms s" "sfthead s' = sfthead s"
proof -
  note T = assms [unfolded dos_to_def]
  show "vol_ok P D U M dpbp d s'" "legal_cluster d c \<Longrightarrow> entry_of D dpbp s' c = E c" "free_count_ok D dpbp s \<Longrightarrow> free_count_ok D dpbp s'"
    using fat_toD(1,3,4) [OF T] by (simp_all add: fnode_steps)
  show "usable U M u b \<Longrightarrow> \<not> fat_area s dpbp u b \<Longrightarrow> content D s' u b = content D s u b"
    using fat_toD(2) [OF T] by (simp add: fat_frame_def fnode_steps)
  show "dms s' = dms s" "sfthead s' = sfthead s" using same_more(2,3) [OF fat_toD(6) [OF T]] by simp_all
qed

lemma dos_to_fnode: "dos_to P D U M dpbp d s E s' \<Longrightarrow> dos_to P D U M dpbp d s E (s'\<lparr>fnode := f\<rparr>)"
  by (simp add: dos_to_def)

lemma dos_to_cong: "dos_to P D U M dpbp d s E s' \<Longrightarrow> (\<And>c. legal_cluster d c \<Longrightarrow> E c = E' c) \<Longrightarrow> dos_to P D U M dpbp d s E' s'"
  unfolding dos_to_def by (rule fat_to_cong)

lemma dos_to_refl: "vol_ok P D U M dpbp d s \<Longrightarrow> dos_to P D U M dpbp d s (entry_of D dpbp s) s"
  by (rule fat_to_dos [OF fat_to_refl])

lemma dos_to_trans:
  assumes "dos_to P D U M dpbp d s E s'" "dos_to P D U M dpbp d s' E' s''"
  shows "dos_to P D U M dpbp d s E' s''"
proof -
  have "fat_to P D U M dpbp d (s'\<lparr>fnode := fnode s\<rparr>) E' (s''\<lparr>fnode := fnode s\<rparr>)"
    using assms(2) fnode_steps(1) [of s' "s''\<lparr>fnode := fnode s'\<rparr>" "fnode s"]
    by (simp add: dos_to_def fat_to_def fat_frame_def fnode_steps(2-5) fat_area_def fsinfo_block_def vol_unit_def)
  with assms(1) [unfolded dos_to_def] show ?thesis unfolding dos_to_def by (rule fat_to_trans)
qed

lemma chain_snoc:
  "chain d E cs st \<Longrightarrow> distinct (cs @ [c]) \<Longrightarrow> cs \<noteq> [] \<Longrightarrow> legal_cluster d c \<Longrightarrow>
    chain d (E(c := LONG_LAST_CLUSTER, last cs := c)) (cs @ [c]) st"
proof (induction cs arbitrary: st)
  case (Cons x xs)
  show ?case
  proof (cases "xs = []")
    case False
    then have "last xs \<in> set xs" by simp
    then have x: "x \<noteq> last xs" "x \<noteq> c" using Cons.prems(2) by auto
    define E' where "E' = E(c := LONG_LAST_CLUSTER, last xs := c)"
    have "chain d E' (xs @ [c]) (E x)" unfolding E'_def by (rule Cons.IH) (use Cons.prems False in auto)
    moreover have "E' x = E x" using x by (simp add: E'_def)
    ultimately have "chain d E' ((x # xs) @ [c]) st" using Cons.prems(1) by simp
    then show ?thesis using False by (simp only: E'_def last.simps if_False)
  qed (use Cons.prems in auto)
qed simp

lemma chain_last: "chain d E cs st \<Longrightarrow> cs \<noteq> [] \<Longrightarrow> E (last cs) = LONG_LAST_CLUSTER"
  by (induction cs arbitrary: st) (auto split: if_splits)

lemma chain_nth:
  "chain d E cs st \<Longrightarrow> i < length cs \<Longrightarrow> E (cs ! i) = (if Suc i < length cs then cs ! Suc i else LONG_LAST_CLUSTER)"
proof (induction cs arbitrary: st i)
  case (Cons x xs)
  show ?case
  proof (cases i)
    case 0
    then show ?thesis using Cons.prems by (cases xs) auto
  next
    case (Suc j)
    then show ?thesis using Cons.IH [of "E x" j] Cons.prems by auto
  qed
qed simp

text \<open>
  \<^verbatim>\<open>extend\<close> on a node that is empty or stands on the last cluster of its chain: when there is a free
  cluster, the one found gets the end mark and is linked; otherwise nothing changes.
\<close>

lemma extend_ok:
  assumes v: "vol_ok P D U M dpbp d s" and h: "hint_ok (dpbs s dpbp)" and m: "2 \<le> max_cluster d" and n: "f_dpb (fn fnp s) = dpbp"
    and cl: "f_cluster (fn fnp s) = FREE \<or> legal_cluster d (f_cluster (fn fnp s)) \<and> entry_of D dpbp s (f_cluster (fn fnp s)) = LONG_LAST_CLUSTER"
  shows "\<exists>s'. extend P fnp s = Some (case first_free d (entry_of D dpbp s) (free_start (dpbs s dpbp)) of Some c \<Rightarrow> c | None \<Rightarrow> LONG_LAST_CLUSTER, s') \<and>
    hint_ok (dpbs s' dpbp) \<and>
    (case first_free d (entry_of D dpbp s) (free_start (dpbs s dpbp)) of
       None \<Rightarrow> fat_to P D U M dpbp d s (entry_of D dpbp s) s'
     | Some c \<Rightarrow>
         if f_cluster (fn fnp s) = FREE then
           dos_to P D U M dpbp d s ((entry_of D dpbp s)(c := LONG_LAST_CLUSTER)) s' \<and>
           fnode s' = (fnode s)(fnp := (fn fnp s)\<lparr>f_dir := setdstart d c (f_dir (fn fnp s))\<rparr>)
         else fat_to P D U M dpbp d s ((entry_of D dpbp s)(c := LONG_LAST_CLUSTER, f_cluster (fn fnp s) := c)) s')"
proof -
  let ?E = "entry_of D dpbp s" and ?f = "f_cluster (fn fnp s)"
  define r where "r = first_free d ?E (free_start (dpbs s dpbp))"
  note hl = free_start_legal [OF v h m]
  obtain s1 where s1: "find_fat_free P dpbp s = Some (case r of Some c \<Rightarrow> c | None \<Rightarrow> LONG_LAST_CLUSTER, s1)"
      "fat_to P D U M dpbp d s ?E s1" "hint_ok (dpbs s1 dpbp)"
    using find_fat_free_ok [OF v h m, folded r_def] by blast
  note v1 = fat_toD(1) [OF s1(2)]
  show ?thesis
  proof (cases r)
    case None
    then show ?thesis using s1 n unfolding r_def [symmetric] by (simp add: extend_def)
  next
    case (Some c)
    have c: "legal_cluster d c" "?E c = 0" using first_free_props(1) [OF v hl] Some by (auto simp: r_def)
    note cv = vol_legal [OF v c(1)]
    obtain s2 where s2: "link_fat P dpbp c LONG_LAST_CLUSTER s1 = Some (0, s2)"
        "fat_to P D U M dpbp d s1 ((entry_of D dpbp s1)(c := LONG_LAST_CLUSTER)) s2"
        "dpb_cluster (dpbs s2 dpbp) = dpb_cluster (dpbs s1 dpbp)" "dpb_xcluster (dpbs s2 dpbp) = dpb_xcluster (dpbs s1 dpbp)"
      by (rule put_step [OF v1 c(1), of LONG_LAST_CLUSTER]) (auto simp: fat_value_def)
    have f2: "fat_to P D U M dpbp d s (?E(c := LONG_LAST_CLUSTER)) s2" using fat_to_trans [OF s1(2) s2(2)]
      by (rule fat_to_cong) (use fat_toD(3) [OF s1(2)] in simp)
    note v2 = fat_toD(1) [OF f2]
    have h2: "hint_ok (dpbs s2 dpbp)"
      using hint_ok_static [of "dpbs s2 dpbp" "dpbs s1 dpbp"] s2(3,4) s1(3) vol_static [OF v2] vol_static [OF v1] by simp
    have n2: "fnode s2 = fnode s" by (rule same_more(1) [OF fat_toD(6) [OF f2]])
    show ?thesis
    proof (cases "?f = FREE")
      case True
      let ?s' = "upd_fn fnp (\<lambda>n. n\<lparr>f_dir := setdstart (dpbs s2 dpbp) c (f_dir n)\<rparr>) s2"
      have "extend P fnp s = Some (c, ?s')" using s1(1) s2(1) n n2 Some True cv by (simp add: extend_def)
      moreover have "setdstart (dpbs s2 dpbp) c = setdstart d c" by (simp add: setdstart_def fun_eq_iff fat_static(3) [OF vol_static [OF v2]])
      moreover have "dos_to P D U M dpbp d s (?E(c := LONG_LAST_CLUSTER)) ?s'" by (rule dos_to_fnode [OF fat_to_dos [OF f2]])
      ultimately show ?thesis using Some True h2 n2 unfolding r_def [symmetric] by simp
    next
      case False
      then have f: "legal_cluster d ?f" "?E ?f = LONG_LAST_CLUSTER" using cl by auto
      obtain s3 where s3: "next_cluster P dpbp ?f s2 = Some (follow d (entry_of D dpbp s2) ?f, s3)"
          "fat_to P D U M dpbp d s2 (entry_of D dpbp s2) s3" "dpbs s3 = dpbs s2"
        by (rule next_step [OF v2], rule that, assumption+)
      have e2: "entry_of D dpbp s2 ?f = LONG_LAST_CLUSTER" using fat_toD(3) [OF f2 f(1)] f(2) by simp
      have "follow d (entry_of D dpbp s2) ?f = LONG_LAST_CLUSTER" using f(1) e2 by (simp add: follow_def)
      then have nx: "next_cluster P dpbp ?f s2 = Some (LONG_LAST_CLUSTER, s3)" using s3(1) by simp
      note v3 = fat_toD(1) [OF s3(2)]
      have n3: "fnode s3 = fnode s" using same_more(1) [OF fat_toD(6) [OF s3(2)]] n2 by simp
      obtain s4 where s4: "link_fat P dpbp ?f c s3 = Some (0, s4)" "fat_to P D U M dpbp d s3 ((entry_of D dpbp s3)(?f := c)) s4"
          "dpb_cluster (dpbs s4 dpbp) = dpb_cluster (dpbs s3 dpbp)" "dpb_xcluster (dpbs s4 dpbp) = dpb_xcluster (dpbs s3 dpbp)"
        by (rule put_step [OF v3 f(1), of c]) (use c(1) cv in \<open>auto simp: fat_value_def legal_cluster_def\<close>)
      have "fat_to P D U M dpbp d s (?E(c := LONG_LAST_CLUSTER, ?f := c)) s4"
        using fat_to_trans [OF fat_to_trans [OF f2 s3(2)] s4(2)] by (rule fat_to_cong) (use fat_toD(3) [OF f2] fat_toD(3) [OF s3(2)] in simp)
      moreover have "hint_ok (dpbs s4 dpbp)"
        using hint_ok_static [of "dpbs s4 dpbp" "dpbs s2 dpbp"] s4(3,4) s3(3) h2 vol_static [OF v2] vol_static [OF fat_toD(1) [OF s4(2)]] by simp
      moreover have "extend P fnp s = Some (c, s4)" using s1(1) s2(1) nx s4(1) n n2 n3 Some False cv by (simp add: extend_def)
      ultimately show ?thesis using Some False unfolding r_def [symmetric] by simp
    qed
  qed
qed

section \<open>The cluster of a position\<close>

text \<open>A node that stands on a cluster of its chain.\<close>

definition stands_on :: "dpb \<Rightarrow> (u32 \<Rightarrow> u32) \<Rightarrow> u32 list \<Rightarrow> u32 \<Rightarrow> f_node \<Rightarrow> bool" where
  "stands_on d E cs st n \<longleftrightarrow> chain d E cs st \<and> unat (f_cluster_offset n) < length cs \<and> f_cluster n = cs ! unat (f_cluster_offset n)"

lemma chain_follow_nth:
  assumes "vol_ok P D U M dpbp d s" "chain d E cs st" "i < length cs"
  shows "follow d E (cs ! i) = (if Suc i < length cs then cs ! Suc i else LONG_LAST_CLUSTER)" "legal_cluster d (cs ! i)"
proof -
  have "chain d E (cs ! i # drop (Suc i) cs) (cs ! i)"
    using chain_suffix [of d E "take i cs" "cs ! i" "drop (Suc i) cs"] assms(2,3) by (simp add: id_take_nth_drop [symmetric])
  then show "follow d E (cs ! i) = (if Suc i < length cs then cs ! Suc i else LONG_LAST_CLUSTER)"
    using chain_follow(1) [OF assms(1)] chain_nth [OF assms(2,3)] by metis
  show "legal_cluster d (cs ! i)" using chain_legal [OF assms(2)] assms(3) by simp
qed

lemma follow_cong:
  assumes "\<And>c. legal_cluster d c \<Longrightarrow> E c = E' c"
  shows "follow d E c = follow d E' c"
  using assms [of c] assms [of "E c"] by (auto simp: follow_def)

lemma map_iter:
  assumes v: "vol_ok P D U M dpbp d s" and n: "f_dpb (fn fnp s) = dpbp" and E: "\<forall>c. legal_cluster d c \<longrightarrow> entry_of D dpbp s c = E c"
    and c: "stands_on d E cs st (fn fnp s)"
  obtains s1 where "next_cluster P dpbp (f_cluster (fn fnp s)) s =
      Some (if Suc (unat (f_cluster_offset (fn fnp s))) < length cs then cs ! Suc (unat (f_cluster_offset (fn fnp s))) else LONG_LAST_CLUSTER, s1)"
    "fat_to P D U M dpbp d s E s1" "dpbs s1 = dpbs s" "fnode s1 = fnode s"
proof -
  obtain s1 where s1: "next_cluster P dpbp (f_cluster (fn fnp s)) s = Some (follow d (entry_of D dpbp s) (f_cluster (fn fnp s)), s1)"
      "fat_to P D U M dpbp d s (entry_of D dpbp s) s1" "dpbs s1 = dpbs s"
    by (rule next_step [OF v], rule that, assumption+)
  have "follow d (entry_of D dpbp s) (f_cluster (fn fnp s)) = follow d E (f_cluster (fn fnp s))" by (rule follow_cong) (use E in blast)
  then have "follow d (entry_of D dpbp s) (f_cluster (fn fnp s)) =
      (if Suc (unat (f_cluster_offset (fn fnp s))) < length cs then cs ! Suc (unat (f_cluster_offset (fn fnp s))) else LONG_LAST_CLUSTER)"
    using chain_follow_nth(1) [OF v, of E cs st] c by (simp add: stands_on_def)
  moreover have "fat_to P D U M dpbp d s E s1" using s1(2) by (rule fat_to_cong) (use E in blast)
  moreover have "fnode s1 = fnode s" by (rule same_more(1) [OF fat_toD(6) [OF s1(2)]])
  ultimately show thesis using that [of s1] s1(1,3) by presburger
qed

abbreviation (input) move_to :: "u32 \<Rightarrow> nat \<Rightarrow> f_node \<Rightarrow> f_node" where
  "move_to cl j \<equiv> \<lambda>n. n\<lparr>f_cluster := cl, f_cluster_offset := of_nat j\<rparr>"

lemma map_loop_in:
  assumes v: "vol_ok P D U M dpbp d s" and n: "f_dpb (fn fnp s) = dpbp" and E: "\<forall>c. legal_cluster d c \<longrightarrow> entry_of D dpbp s c = E c"
    and c: "stands_on d E cs st (fn fnp s)" and off: "off = unat (f_cluster_offset (fn fnp s))" "f_cluster_offset (fn fnp s) \<noteq> rel" "Suc off < length cs"
  obtains s2 where "map_loop P fnp mode rel s = map_loop P fnp mode rel s2" "dos_to P D U M dpbp d s E s2" "dpbs s2 = dpbs s"
    "fnode s2 = (fnode s)(fnp := move_to (cs ! Suc off) (Suc off) (fn fnp s))"
proof -
  obtain s1 where s1: "next_cluster P dpbp (f_cluster (fn fnp s)) s = Some (cs ! Suc off, s1)"
      "fat_to P D U M dpbp d s E s1" "dpbs s1 = dpbs s" "fnode s1 = fnode s"
    using map_iter [OF v n E c] off by auto
  have L: "legal_cluster d (cs ! Suc off)" using chain_follow_nth(2) [OF v _ off(3), of E st] c by (simp add: stands_on_def)
  let ?s2 = "upd_fn fnp (move_to (cs ! Suc off) (Suc off)) s1"
  have o: "f_cluster_offset (fn fnp s) + 1 = of_nat (Suc off)" using off(1) by simp
  have "map_loop P fnp mode rel s = map_loop P fnp mode rel ?s2"
    using s1(1,4) n vol_legal(2,4) [OF v L] off(2) by (subst map_loop.simps) (simp add: o)
  then show thesis using that [of ?s2] dos_to_fnode [OF fat_to_dos [OF s1(2)]] s1(3,4) by simp
qed

lemma map_loop_end:
  assumes v: "vol_ok P D U M dpbp d s" and n: "f_dpb (fn fnp s) = dpbp" and E: "\<forall>c. legal_cluster d c \<longrightarrow> entry_of D dpbp s c = E c"
    and c: "stands_on d E cs st (fn fnp s)" and off: "off = unat (f_cluster_offset (fn fnp s))" "f_cluster_offset (fn fnp s) \<noteq> rel" "Suc off = length cs"
  obtains s1 where "map_loop P fnp mode rel s =
      (if mode = XFR_READ then Some (DE_SEEK, s1)
       else do {
         (cluster, s2) \<leftarrow> extend P fnp s1;
         if cluster = LONG_LAST_CLUSTER then Some (DE_HNDLDSKFULL, s2)
         else map_loop P fnp mode rel (upd_fn fnp (\<lambda>n. n\<lparr>f_cluster := cluster, f_cluster_offset := f_cluster_offset n + 1\<rparr>) s2)
       })" "fat_to P D U M dpbp d s E s1" "dpbs s1 = dpbs s" "fnode s1 = fnode s"
proof -
  obtain s1 where s1: "next_cluster P dpbp (f_cluster (fn fnp s)) s = Some (LONG_LAST_CLUSTER, s1)"
      "fat_to P D U M dpbp d s E s1" "dpbs s1 = dpbs s" "fnode s1 = fnode s"
    using map_iter [OF v n E c] off by auto
  show thesis by (rule that [OF _ s1(2-4)]) (use s1(1,4) n off(2) in \<open>subst map_loop.simps, simp add: word_le_nat_alt\<close>)
qed

text \<open>
  The chain \<^verbatim>\<open>cs\<close> has grown by the clusters \<^verbatim>\<open>new\<close>, which were free; no other entry has changed.
\<close>

definition grown :: "dpb \<Rightarrow> (u32 \<Rightarrow> u32) \<Rightarrow> u32 list \<Rightarrow> u32 \<Rightarrow> u32 list \<Rightarrow> (u32 \<Rightarrow> u32) \<Rightarrow> bool" where
  "grown d E cs st new E' \<longleftrightarrow> chain d E' (cs @ new) st \<and> (\<forall>c \<in> set new. E c = FREE) \<and> distinct (cs @ new) \<and>
     (\<forall>c. legal_cluster d c \<and> c \<notin> set (cs @ new) \<longrightarrow> E' c = E c)"

lemma chain_not_free: "vol_ok P D U M dpbp d s \<Longrightarrow> chain d E cs st \<Longrightarrow> c \<in> set cs \<Longrightarrow> E c \<noteq> 0"
proof (induction cs arbitrary: st)
  case (Cons x xs)
  show ?case
  proof (cases "c = x")
    case True
    then show ?thesis using chain_follow(2) [OF Cons.prems(1,2)] by auto
  qed (use Cons in auto)
qed simp

lemma grown_snoc:
  assumes v: "vol_ok P D U M dpbp d s" and c: "chain d E cs st" "cs \<noteq> []" "legal_cluster d c" "E c = FREE"
  shows "grown d E cs st [c] (E(c := LONG_LAST_CLUSTER, last cs := c))"
proof -
  have "\<not> legal_cluster d LONG_LAST_CLUSTER" using vol_legal(2) [OF v] by blast
  then have "distinct (cs @ [c])" using chain_distinct [OF _ c(1)] chain_not_free [OF v c(1)] c(4) by auto
  then show ?thesis using chain_snoc [OF c(1) _ c(2,3)] c(2,4) by (auto simp: grown_def)
qed

lemma grown_trans:
  assumes "vol_ok P D U M dpbp d s" "grown d E cs st new E'" "grown d E' (cs @ new) st new' E''"
  shows "grown d E cs st (new @ new') E''"
proof -
  have "E c = FREE" if "c \<in> set new'" for c
  proof -
    have c: "E' c = FREE" "c \<notin> set (cs @ new)" "legal_cluster d c"
      using assms(3) that chain_legal [of d E'' "cs @ new @ new'"] by (auto simp: grown_def)
    then show ?thesis using assms(2) by (simp add: grown_def)
  qed
  then show ?thesis using assms(2,3) by (auto simp: grown_def)
qed

lemma stands_still: "stands_on d E cs st (f i) \<Longrightarrow> j = unat (f_cluster_offset (f i)) \<Longrightarrow> f(i := move_to (cs ! j) j (f i)) = f"
proof -
  assume "stands_on d E cs st (f i)" "j = unat (f_cluster_offset (f i))"
  then have "cs ! j = f_cluster (f i)" "of_nat j = f_cluster_offset (f i)" by (simp_all add: stands_on_def)
  then show ?thesis by (simp only:) simp
qed

lemma grown_refl: "vol_ok P D U M dpbp d s \<Longrightarrow> chain d E cs st \<Longrightarrow> grown d E cs st [] E"
  using chain_distinct vol_legal(2) [of P D U M dpbp d s LONG_LAST_CLUSTER] by (fastforce simp: grown_def)

definition map_result :: "int \<Rightarrow> nat \<Rightarrow> u32 list \<Rightarrow> int" where
  "map_result mode rel cs = (if rel < length cs then SUCCESS else if mode = XFR_READ then DE_SEEK else DE_HNDLDSKFULL)"

lemma extend_end:
  assumes v: "vol_ok P D U M dpbp d s" and h: "hint_ok (dpbs s dpbp)" and m: "2 \<le> max_cluster d" and n: "f_dpb (fn fnp s) = dpbp"
    and E: "\<forall>c. legal_cluster d c \<longrightarrow> entry_of D dpbp s c = E c" and c: "stands_on d E cs st (fn fnp s)"
    and off: "Suc (unat (f_cluster_offset (fn fnp s))) = length cs"
  obtains r s2 where "extend P fnp s = Some (case r of Some c \<Rightarrow> c | None \<Rightarrow> LONG_LAST_CLUSTER, s2)" "hint_ok (dpbs s2 dpbp)"
    "r = None \<Longrightarrow> fat_to P D U M dpbp d s E s2 \<and> (\<forall>c. legal_cluster d c \<longrightarrow> E c \<noteq> FREE)"
    "\<And>c. r = Some c \<Longrightarrow> legal_cluster d c \<and> E c = FREE \<and> fat_to P D U M dpbp d s (E(c := LONG_LAST_CLUSTER, last cs := c)) s2"
proof -
  let ?E = "entry_of D dpbp s"
  define r where "r = first_free d ?E (free_start (dpbs s dpbp))"
  have ch: "chain d E cs st" "cs \<noteq> []" using c off by (auto simp: stands_on_def)
  have f: "f_cluster (fn fnp s) = last cs" using c off ch(2) by (simp add: stands_on_def last_conv_nth) (metis diff_Suc_1')
  have l: "legal_cluster d (last cs)" "E (last cs) = LONG_LAST_CLUSTER" using chain_legal [OF ch(1)] chain_last [OF ch] ch(2) by auto
  have el: "?E (last cs) = LONG_LAST_CLUSTER" using E l by simp
  note nz = vol_legal(5) [OF v l(1)]
  obtain s2 where s2: "extend P fnp s = Some (case r of Some c \<Rightarrow> c | None \<Rightarrow> LONG_LAST_CLUSTER, s2)" "hint_ok (dpbs s2 dpbp)"
      "case r of None \<Rightarrow> fat_to P D U M dpbp d s ?E s2 | Some c \<Rightarrow> fat_to P D U M dpbp d s (?E(c := LONG_LAST_CLUSTER, last cs := c)) s2"
    using extend_ok [OF v h m n, folded r_def] f l(1) el nz by (auto split: option.splits)
  note F = first_free_props [OF v free_start_legal [OF v h m], of ?E, folded r_def]
  have none: "fat_to P D U M dpbp d s E s2 \<and> (\<forall>c. legal_cluster d c \<longrightarrow> E c \<noteq> FREE)" if "r = None"
  proof -
    have "fat_to P D U M dpbp d s E s2" by (rule fat_to_cong [of _ _ _ _ _ _ _ ?E]) (use s2(3) that E in simp_all)
    then show ?thesis using F(2) [OF that] E by simp
  qed
  have some: "legal_cluster d c \<and> E c = FREE \<and> fat_to P D U M dpbp d s (E(c := LONG_LAST_CLUSTER, last cs := c)) s2" if "r = Some c" for c
  proof -
    have "fat_to P D U M dpbp d s (E(c := LONG_LAST_CLUSTER, last cs := c)) s2"
      by (rule fat_to_cong [of _ _ _ _ _ _ _ "?E(c := LONG_LAST_CLUSTER, last cs := c)"]) (use s2(3) that E in simp_all)
    then show ?thesis using F(1) [OF that] E by auto
  qed
  show thesis by (rule that [OF s2(1,2) none some])
qed

lemma map_loop_ok:
  fixes s :: "('w, 'a) dos_scheme"
  shows "vol_ok P D U M dpbp d s \<Longrightarrow> hint_ok (dpbs s dpbp) \<Longrightarrow> 2 \<le> max_cluster d \<Longrightarrow> f_dpb (fn fnp s) = dpbp \<Longrightarrow>
    \<forall>c. legal_cluster d c \<longrightarrow> entry_of D dpbp s c = E c \<Longrightarrow> stands_on d E cs st (fn fnp s) \<Longrightarrow>
    unat rel = unat (f_cluster_offset (fn fnp s)) + k \<Longrightarrow>
    \<exists>s' new E'. map_loop P fnp mode rel s = Some (map_result mode (unat rel) (cs @ new), s') \<and>
      dos_to P D U M dpbp d s E' s' \<and> hint_ok (dpbs s' dpbp) \<and> grown d E cs st new E' \<and>
      (let j = min (unat rel) (length (cs @ new) - 1) in fnode s' = (fnode s)(fnp := move_to ((cs @ new) ! j) j (fn fnp s))) \<and>
      (new \<noteq> [] \<longrightarrow> mode \<noteq> XFR_READ \<and> length (cs @ new) \<le> unat rel + 1) \<and>
      (mode \<noteq> XFR_READ \<and> length (cs @ new) \<le> unat rel \<longrightarrow> (\<forall>c. legal_cluster d c \<longrightarrow> E' c \<noteq> FREE))"
    (is "_ \<Longrightarrow> _ \<Longrightarrow> _ \<Longrightarrow> _ \<Longrightarrow> _ \<Longrightarrow> _ \<Longrightarrow> _ \<Longrightarrow> \<exists>s' new E'. ?Q s cs E s' new E'")
proof (induction k arbitrary: s cs E)
  case 0
  let ?n = "fn fnp s"
  have o: "f_cluster_offset ?n = rel" using 0(7) word_unat_eq_iff [of "f_cluster_offset ?n" rel] by simp
  have c: "chain d E cs st" "unat rel < length cs" "f_cluster ?n = cs ! unat rel" using 0(6) o by (auto simp: stands_on_def)
  have m: "min (unat rel) (length (cs @ []) - 1) = unat rel" using c(2) by simp
  have "dos_to P D U M dpbp d s E s" using dos_to_refl [OF 0(1)] by (rule dos_to_cong) (use 0(5) in blast)
  moreover have "(fnode s)(fnp := move_to ((cs @ []) ! unat rel) (unat rel) ?n) = fnode s" unfolding append_Nil2 by (rule stands_still [where f = "fnode s" and i = fnp, OF 0(6)]) (simp add: o)
  moreover have "map_loop P fnp mode rel s = Some (SUCCESS, s)" using o by (simp add: map_loop.simps)
  ultimately have "?Q s cs E s [] E" unfolding Let_def m using c(2) 0(2) grown_refl [OF 0(1) c(1)] by (simp add: map_result_def)
  then show ?case by blast
next
  case (Suc k)
  let ?n = "fn fnp s"
  define off where "off = unat (f_cluster_offset ?n)"
  have ne: "f_cluster_offset ?n \<noteq> rel" using Suc.prems(7) by auto
  have rel1: "unat rel = Suc off + k" using Suc.prems(7) by (simp add: off_def)
  have "unat (of_nat (Suc off) :: u32) = Suc off" by (rule unat_of_nat_u32) (use rel1 unsigned_less [of rel, where ?'a = nat] in simp)
  note rel = rel1 this
  have c: "chain d E cs st" "off < length cs" "f_cluster ?n = cs ! off" using Suc.prems(6) by (auto simp: stands_on_def off_def)
  show ?case
  proof (cases "Suc off < length cs")
    case True
    obtain s2 where s2: "map_loop P fnp mode rel s = map_loop P fnp mode rel s2" "dos_to P D U M dpbp d s E s2" "dpbs s2 = dpbs s"
        "fnode s2 = (fnode s)(fnp := move_to (cs ! Suc off) (Suc off) ?n)"
      by (rule map_loop_in [OF Suc.prems(1,4,5,6) off_def ne True], rule that, assumption+)
    have e2: "\<forall>c. legal_cluster d c \<longrightarrow> entry_of D dpbp s2 c = E c" using dos_toD(2) [OF s2(2)] by blast
    have p2: "stands_on d E cs st (fn fnp s2)" using c(1) True rel(2) by (simp add: stands_on_def s2(4))
    have "hint_ok (dpbs s2 dpbp)" "f_dpb (fn fnp s2) = dpbp" "unat rel = unat (f_cluster_offset (fn fnp s2)) + k"
      using Suc.prems(2,4) s2(3,4) rel by simp_all
    then obtain s' new E' where Q: "?Q s2 cs E s' new E'" using Suc.IH [OF dos_toD(1) [OF s2(2)] _ Suc.prems(3) _ e2 p2] by blast
    have "?Q s cs E s' new E'" using Q dos_to_trans [OF s2(2)] s2(1,4) by (simp add: Let_def fun_eq_iff)
    then show ?thesis by blast
  next
    case False
    then have len: "Suc off = length cs" using c(2) by simp
    have m: "min (unat rel) (length (cs @ []) - 1) = off" using len rel(1) by simp
    have stay: "(fnode s)(fnp := move_to ((cs @ []) ! off) off ?n) = fnode s" unfolding append_Nil2 by (rule stands_still [where f = "fnode s" and i = fnp, OF Suc.prems(6) off_def])
    note gr = grown_refl [OF Suc.prems(1) c(1)]
    obtain s1 where s1: "map_loop P fnp mode rel s =
          (if mode = XFR_READ then Some (DE_SEEK, s1)
           else do {
             (cluster, s2) \<leftarrow> extend P fnp s1;
             if cluster = LONG_LAST_CLUSTER then Some (DE_HNDLDSKFULL, s2)
             else map_loop P fnp mode rel (upd_fn fnp (\<lambda>n. n\<lparr>f_cluster := cluster, f_cluster_offset := f_cluster_offset n + 1\<rparr>) s2)
           })" "fat_to P D U M dpbp d s E s1" "dpbs s1 = dpbs s" "fnode s1 = fnode s"
      by (rule map_loop_end [OF Suc.prems(1,4,5,6) off_def ne len], rule that, assumption+)
    note v1 = fat_toD(1) [OF s1(2)]
    have st1: "stands_on d E cs st (fn fnp s1)" using Suc.prems(6) s1(4) by simp
    show ?thesis
    proof (cases "mode = XFR_READ")
      case True
      then have "map_loop P fnp mode rel s = Some (DE_SEEK, s1)" using s1(1) by simp
      moreover have "?Q s cs E s1 [] E" if "map_loop P fnp mode rel s = Some (DE_SEEK, s1)"
        unfolding Let_def m stay using that True len rel(1) s1(3,4) Suc.prems(2) fat_to_dos [OF s1(2)] gr by (simp add: map_result_def)
      ultimately show ?thesis by blast
    next
      case mode: False
      have e1: "\<forall>c. legal_cluster d c \<longrightarrow> entry_of D dpbp s1 c = E c" using fat_toD(3) [OF s1(2)] by blast
      obtain r s2 where r: "extend P fnp s1 = Some (case r of Some c \<Rightarrow> c | None \<Rightarrow> LONG_LAST_CLUSTER, s2)" "hint_ok (dpbs s2 dpbp)"
          "r = None \<Longrightarrow> fat_to P D U M dpbp d s1 E s2 \<and> (\<forall>c. legal_cluster d c \<longrightarrow> E c \<noteq> FREE)"
          "\<And>c. r = Some c \<Longrightarrow> legal_cluster d c \<and> E c = FREE \<and> fat_to P D U M dpbp d s1 (E(c := LONG_LAST_CLUSTER, last cs := c)) s2"
        by (rule extend_end [OF v1 _ Suc.prems(3) _ e1 st1]) (use s1(3,4) Suc.prems(2,4) len in \<open>simp_all add: off_def\<close>)
      show ?thesis
      proof (cases r)
        case None
        then have f2: "fat_to P D U M dpbp d s E s2" "\<forall>c. legal_cluster d c \<longrightarrow> E c \<noteq> FREE" using r(3) fat_to_trans [OF s1(2)] by auto
        have n2: "fnode s2 = fnode s" by (rule same_more(1) [OF fat_toD(6) [OF f2(1)]])
        have "?Q s cs E s2 [] E" unfolding Let_def m stay
          using s1(1) mode None r(1,2) len rel(1) fat_to_dos [OF f2(1)] f2(2) gr n2 by (simp add: map_result_def)
        then show ?thesis by blast
      next
        case (Some c')
        define E1 where "E1 = E(c' := LONG_LAST_CLUSTER, last cs := c')"
        have f2: "fat_to P D U M dpbp d s E1 s2" and c': "legal_cluster d c'" "E c' = FREE" using r(4) [OF Some] fat_to_trans [OF s1(2)] by (auto simp: E1_def)
        have n2: "fnode s2 = fnode s" by (rule same_more(1) [OF fat_toD(6) [OF f2]])
        let ?s3 = "upd_fn fnp (move_to c' (Suc off)) s2"
        have o: "f_cluster_offset ?n + 1 = of_nat (Suc off)" by (simp add: off_def)
        have f3: "dos_to P D U M dpbp d s E1 ?s3" by (rule dos_to_fnode [OF fat_to_dos [OF f2]])
        have L: "map_loop P fnp mode rel s = map_loop P fnp mode rel ?s3"
          using s1(1) mode Some r(1) n2 vol_legal(2) [OF v1 c'(1)] o by simp
        have "cs \<noteq> []" using c(2) by auto
        then have g1: "grown d E cs st [c'] E1" unfolding E1_def by (intro grown_snoc [OF Suc.prems(1) c(1) _ c'])
        have p3: "stands_on d E1 (cs @ [c']) st (fn fnp ?s3)" using g1 rel(2) len by (simp add: stands_on_def grown_def nth_append)
        have e3: "\<forall>c. legal_cluster d c \<longrightarrow> entry_of D dpbp ?s3 c = E1 c" using dos_toD(2) [OF f3] by blast
        have "hint_ok (dpbs ?s3 dpbp)" "f_dpb (fn fnp ?s3) = dpbp" "unat rel = unat (f_cluster_offset (fn fnp ?s3)) + k"
          using Suc.prems(4) r(2) n2 rel by simp_all
        then obtain s' new E' where Q: "?Q ?s3 (cs @ [c']) E1 s' new E'" using Suc.IH [OF dos_toD(1) [OF f3] _ Suc.prems(3) _ e3 p3] by blast
        have "new \<noteq> [] \<Longrightarrow> length (cs @ [c'] @ new) \<le> unat rel + 1" using Q by simp
        then have le: "length cs + length new \<le> unat rel" using len rel(1) by (cases "new = []") simp_all
        have "?Q s cs E s' (c' # new) E'"
          using Q dos_to_trans [OF f3] L n2 grown_trans [OF v1 g1] mode le by (simp add: Let_def fun_eq_iff)
        then show ?thesis by blast
      qed
    qed
  qed
qed

definition node_start :: "nat \<Rightarrow> ('w, 'a) dos_scheme \<Rightarrow> u32" where
  "node_start fnp s = (if f_sft_idx (fn fnp s) = 0xff then dm_dircluster (dm fnp s) else getdstart (fdpb fnp s) (f_dir (fn fnp s)))"

text \<open>
  What \<^verbatim>\<open>map_cluster\<close> has done: the chain \<^verbatim>\<open>cs\<close> has grown by \<^verbatim>\<open>new\<close>, and the node stands on the cluster asked
  for or, when the chain is too short, on the last one.
\<close>

definition mapped ::
  "'w platform \<Rightarrow> 'w disk \<Rightarrow> u16 set \<Rightarrow> (u16 \<times> u32) set \<Rightarrow> u32 \<Rightarrow> dpb \<Rightarrow> nat \<Rightarrow> int \<Rightarrow> u32 list \<Rightarrow> f_node \<Rightarrow> ('w, 'a) dos_scheme \<Rightarrow>
    u32 list \<Rightarrow> int \<Rightarrow> ('w, 'a) dos_scheme \<Rightarrow> bool" where
  "mapped P D U M dpbp d fnp mode cs n s new r s' \<longleftrightarrow>
     (let rel = unat (rel_cluster n (dpbs s dpbp)); j = min rel (length (cs @ new) - 1) in
      r = map_result mode rel (cs @ new) \<and> hint_ok (dpbs s' dpbp) \<and>
      (\<exists>E'. dos_to P D U M dpbp d s E' s' \<and> grown d (entry_of D dpbp s) cs (hd (cs @ new)) new E' \<and>
        (mode \<noteq> XFR_READ \<and> length (cs @ new) \<le> rel \<longrightarrow> (\<forall>c. legal_cluster d c \<longrightarrow> E' c \<noteq> FREE))) \<and>
      fnode s' = (fnode s)(fnp := move_to ((cs @ new) ! j) j n) \<and>
      (new \<noteq> [] \<longrightarrow> mode \<noteq> XFR_READ \<and> length (cs @ new) \<le> rel + 1))"

lemma map_cluster_ok:
  assumes v: "vol_ok P D U M dpbp d s" and h: "hint_ok (dpbs s dpbp)" and m: "2 \<le> max_cluster d" and n: "f_dpb (fn fnp s) = dpbp"
    and c: "stands_on d (entry_of D dpbp s) cs (node_start fnp s) (fn fnp s)"
  shows "\<exists>r new s'. map_cluster P fnp mode s = Some (r, s') \<and> mapped P D U M dpbp d fnp mode cs (fn fnp s) s new r s'"
proof -
  let ?n = "fn fnp s" and ?E = "entry_of D dpbp s" and ?st = "node_start fnp s"
  define rel where "rel = rel_cluster ?n (dpbs s dpbp)"
  have cs: "chain d ?E cs ?st" "cs \<noteq> []" using c by (auto simp: stands_on_def)
  have hd: "cs ! 0 = ?st" "hd cs = ?st" using cs by (cases cs; simp)+
  have "legal_cluster d (f_cluster ?n)" using c chain_legal [OF cs(1)] by (simp add: stands_on_def)
  then have nf: "f_cluster ?n \<noteq> FREE" by (rule vol_legal(5) [OF v])
  define s1 where "s1 = map_start fnp rel s"
  have M: "map_cluster P fnp mode s = map_loop P fnp mode rel s1" using nf n by (simp add: map_cluster_def rel_def s1_def Let_def)
  have f1: "fnode s1 = (fnode s)(fnp := (if rel < f_cluster_offset ?n then move_to ?st 0 ?n else ?n))"
    using n by (simp add: s1_def map_start_def node_start_def)
  have s1: "s1 = s\<lparr>fnode := fnode s1\<rparr>" by (simp add: s1_def map_start_def)
  have d1: "dos_to P D U M dpbp d s ?E s1" by (subst s1) (rule dos_to_fnode [OF dos_to_refl [OF v]])
  have e1: "\<forall>c. legal_cluster d c \<longrightarrow> entry_of D dpbp s1 c = ?E c" using dos_toD(2) [OF d1] by blast
  have p1: "stands_on d ?E cs ?st (fn fnp s1)" using c cs(2) hd(1) by (auto simp: f1 stands_on_def)
  have ds: "dpbs s1 = dpbs s" by (subst s1) simp
  have le: "unat rel = unat (f_cluster_offset (fn fnp s1)) + (unat rel - unat (f_cluster_offset (fn fnp s1)))"
    by (simp add: f1 word_less_nat_alt)
  have n1: "f_dpb (fn fnp s1) = dpbp" "hint_ok (dpbs s1 dpbp)" using n h by (simp_all add: f1 ds)
  obtain s' new E' where Q: "map_loop P fnp mode rel s1 = Some (map_result mode (unat rel) (cs @ new), s')"
      "dos_to P D U M dpbp d s1 E' s'" "hint_ok (dpbs s' dpbp)" "grown d ?E cs ?st new E'"
      "let j = min (unat rel) (length (cs @ new) - 1) in fnode s' = (fnode s1)(fnp := move_to ((cs @ new) ! j) j (fn fnp s1))"
      "new \<noteq> [] \<longrightarrow> mode \<noteq> XFR_READ \<and> length (cs @ new) \<le> unat rel + 1"
      "mode \<noteq> XFR_READ \<and> length (cs @ new) \<le> unat rel \<longrightarrow> (\<forall>c. legal_cluster d c \<longrightarrow> E' c \<noteq> FREE)"
    using map_loop_ok [OF dos_toD(1) [OF d1] n1(2) m n1(1) e1 p1 le, of mode] by blast
  have "fnode s' = (fnode s)(fnp := move_to ((cs @ new) ! min (unat rel) (length (cs @ new) - 1)) (min (unat rel) (length (cs @ new) - 1)) ?n)"
    using Q(5) by (simp add: Let_def f1 fun_eq_iff)
  then have "mapped P D U M dpbp d fnp mode cs ?n s new (map_result mode (unat rel) (cs @ new)) s'"
    unfolding mapped_def rel_def [symmetric] Let_def using Q(3,4,6,7) dos_to_trans [OF d1 Q(2)] cs(2) hd(2) by auto
  then show ?thesis using M Q(1) by auto
qed

text \<open>Writing to an empty file.\<close>

lemma grown_first:
  assumes "grown d E [] c [c] E1" "grown d E1 [c] c new E'" "vol_ok P D U M dpbp d s"
  shows "grown d E [] c (c # new) E'"
  using grown_trans [OF assms(3), of E "[]" c "[c]" E1 new E'] assms(1,2) by simp

lemma map_cluster_empty:
  assumes v: "vol_ok P D U M dpbp d s" and h: "hint_ok (dpbs s dpbp)" and m: "2 \<le> max_cluster d" and n: "f_dpb (fn fnp s) = dpbp"
    and f: "f_cluster (fn fnp s) = FREE" "f_cluster_offset (fn fnp s) = 0" and w: "mode \<noteq> XFR_READ"
  obtains (full) s' where "map_cluster P fnp mode s = Some (DE_HNDLDSKFULL, s')" "fat_to P D U M dpbp d s (entry_of D dpbp s) s'"
      "hint_ok (dpbs s' dpbp)" "\<And>c. legal_cluster d c \<Longrightarrow> entry_of D dpbp s c \<noteq> FREE"
  | (more) c new r s' where "map_cluster P fnp mode s = Some (r, s')" "legal_cluster d c"
      "mapped P D U M dpbp d fnp mode [] ((fn fnp s)\<lparr>f_dir := setdstart d c (f_dir (fn fnp s))\<rparr>) s (c # new) r s'"
proof -
  let ?n = "fn fnp s" and ?E = "entry_of D dpbp s"
  define q where "q = first_free d ?E (free_start (dpbs s dpbp))"
  note F = first_free_props [OF v free_start_legal [OF v h m], of ?E, folded q_def]
  obtain s1 where s1: "extend P fnp s = Some (case q of Some c \<Rightarrow> c | None \<Rightarrow> LONG_LAST_CLUSTER, s1)" "hint_ok (dpbs s1 dpbp)"
      "case q of None \<Rightarrow> fat_to P D U M dpbp d s ?E s1
       | Some c \<Rightarrow> dos_to P D U M dpbp d s (?E(c := LONG_LAST_CLUSTER)) s1 \<and> fnode s1 = (fnode s)(fnp := ?n\<lparr>f_dir := setdstart d c (f_dir ?n)\<rparr>)"
    using extend_ok [OF v h m n, folded q_def, unfolded f(1)] by (simp only: simp_thms if_True) blast
  show thesis
  proof (cases q)
    case None
    have "map_cluster P fnp mode s = Some (DE_HNDLDSKFULL, s1)" using s1(1) None f w by (simp add: map_cluster_def)
    then show thesis using full s1(2,3) None F(2) by simp
  next
    case (Some c)
    note c = F(1) [OF Some]
    let ?n' = "?n\<lparr>f_dir := setdstart d c (f_dir ?n)\<rparr>"
    define s2 where "s2 = upd_fn fnp (\<lambda>n. n\<lparr>f_cluster := c\<rparr>) s1"
    define E1 where "E1 = ?E(c := LONG_LAST_CLUSTER)"
    define rel where "rel = rel_cluster ?n' (dpbs s dpbp)"
    have d1: "dos_to P D U M dpbp d s E1 s1" and n1: "fnode s1 = (fnode s)(fnp := ?n')" using s1(3) Some by (simp_all add: E1_def)
    have d2: "dos_to P D U M dpbp d s E1 s2" unfolding s2_def by (rule dos_to_fnode [OF d1])
    have n2: "fnode s2 = (fnode s)(fnp := ?n'\<lparr>f_cluster := c\<rparr>)" by (simp add: s2_def n1)
    note v2 = dos_toD(1) [OF d2]
    have st: "dpb_static (dpbs s2 dpbp) = dpb_static (dpbs s dpbp)" using vol_static [OF v2] vol_static [OF v] by simp
    have "rel_cluster (fn fnp s2) (dpbs s2 dpbp) = rel" using dpb_static_eq [OF st] by (simp add: n2 rel_def rel_cluster_def)
    moreover have "map_start fnp rel s2 = s2" using f(2) by (simp add: map_start_def n2)
    ultimately have M: "map_cluster P fnp mode s = map_loop P fnp mode rel s2"
      using f w n s1(1) Some n2 vol_legal(2) [OF v, of c] c by (simp add: map_cluster_def s2_def [symmetric] Let_def)
    have g1: "grown d ?E [] c [c] E1" using c by (simp add: grown_def E1_def)
    have p2: "stands_on d E1 [c] c (fn fnp s2)" using c f(2) by (simp add: stands_on_def n2 E1_def)
    have e2: "\<forall>c. legal_cluster d c \<longrightarrow> entry_of D dpbp s2 c = E1 c" using dos_toD(2) [OF d2] by blast
    have k: "hint_ok (dpbs s2 dpbp)" "f_dpb (fn fnp s2) = dpbp" "unat rel = unat (f_cluster_offset (fn fnp s2)) + unat rel"
      using s1(2) n f(2) by (simp_all add: s2_def n1)
    obtain s' new E' where Q: "map_loop P fnp mode rel s2 = Some (map_result mode (unat rel) ([c] @ new), s')"
        "dos_to P D U M dpbp d s2 E' s'" "hint_ok (dpbs s' dpbp)" "grown d E1 [c] c new E'"
        "let j = min (unat rel) (length ([c] @ new) - 1) in fnode s' = (fnode s2)(fnp := move_to (([c] @ new) ! j) j (fn fnp s2))"
        "new \<noteq> [] \<longrightarrow> mode \<noteq> XFR_READ \<and> length ([c] @ new) \<le> unat rel + 1"
        "mode \<noteq> XFR_READ \<and> length ([c] @ new) \<le> unat rel \<longrightarrow> (\<forall>c. legal_cluster d c \<longrightarrow> E' c \<noteq> FREE)"
      using map_loop_ok [OF v2 k(1) m k(2) e2 p2 k(3), of mode] by blast
    have "fnode s' = (fnode s)(fnp := move_to ((c # new) ! min (unat rel) (length new)) (min (unat rel) (length new)) ?n')"
      using Q(5) by (simp add: Let_def n2 fun_eq_iff)
    then have "mapped P D U M dpbp d fnp mode [] ?n' s (c # new) (map_result mode (unat rel) (c # new)) s'"
      unfolding mapped_def rel_def [symmetric] Let_def using Q(3,6,7) w dos_to_trans [OF d2 Q(2)] grown_first [OF g1 Q(4) v] by auto
    then show thesis using more [of "map_result mode (unat rel) (c # new)" s' c new] M Q(1) c by simp
  qed
qed

lemma getdstart_setdstart:
  assumes "vol_ok P D U M dpbp d s" "legal_cluster d c"
  shows "getdstart d (setdstart d c e) = c"
proof (cases "ISFAT32 d")
  case True
  have "push_bit 16 (ucast (ucast (drop_bit 16 c) :: u16)) OR ucast (ucast c :: u16) = c"
    by (rule bit_word_eqI) (auto simp: bit_simps)
  then show ?thesis using True by (simp add: getdstart_def setdstart_def)
qed (use small_cluster [OF assms(1) _ assms(2)] in \<open>simp add: getdstart_def setdstart_def\<close>)

section \<open>Properties\<close>

text \<open>The volume of the examples with a chain of the clusters 2 and 3.\<close>

lemma demo_hint: "hint_ok demo_vdpb" "2 \<le> max_cluster demo_vdpb"
  by (simp_all add: hint_ok_def demo_vdpb_fields) (simp add: demo_vol_def demo_dpb_def)

lemma demo_chain:
  obtains s1 s2 where "link_fat ram_disk 1 2 3 demo_vol = Some (0, s1)" "link_fat ram_disk 1 3 LONG_LAST_CLUSTER s1 = Some (0, s2)"
    "fat_to ram_disk demo_io {0} demo_copies 1 demo_vdpb demo_vol ((\<lambda>_. 0)(2 := 3, 3 := LONG_LAST_CLUSTER)) s2" "hint_ok (dpbs s2 1)"
proof -
  let ?ok = "fat_to ram_disk demo_io {0} demo_copies 1 demo_vdpb"
  obtain s1 where s1: "link_fat ram_disk 1 2 3 demo_vol = Some (0, s1)" "?ok demo_vol ((entry_of demo_io 1 demo_vol)(2 := 3)) s1"
      "dpb_cluster (dpbs s1 1) = dpb_cluster demo_vdpb" "dpb_xcluster (dpbs s1 1) = dpb_xcluster demo_vdpb"
    by (rule put_step [OF demo_vol_ok, of 2 3]) (auto simp: legal_cluster_def fat_value_def demo_vdpb_fields)
  obtain s2 where s2: "link_fat ram_disk 1 3 LONG_LAST_CLUSTER s1 = Some (0, s2)" "?ok s1 ((entry_of demo_io 1 s1)(3 := LONG_LAST_CLUSTER)) s2"
      "dpb_cluster (dpbs s2 1) = dpb_cluster (dpbs s1 1)" "dpb_xcluster (dpbs s2 1) = dpb_xcluster (dpbs s1 1)"
    by (rule put_step [OF fat_toD(1) [OF s1(2)], of 3 LONG_LAST_CLUSTER]) (auto simp: legal_cluster_def fat_value_def demo_vdpb_fields)
  have "?ok demo_vol ((\<lambda>_. 0)(2 := 3, 3 := LONG_LAST_CLUSTER)) s2" using fat_to_trans [OF s1(2) s2(2)]
    by (rule fat_to_cong) (use fat_toD(3) [OF s1(2)] demo_entry in simp)
  moreover have "hint_ok (dpbs s2 1)"
    using hint_ok_static [of "dpbs s2 1" demo_vdpb] s1(3,4) s2(3,4) demo_hint(1) vol_static [OF fat_toD(1) [OF s2(2)]] by simp
  ultimately show thesis using that s1(1) s2(1) by blast
qed

text \<open>
  C16. Deleting a file frees exactly its clusters. On a chain of clusters of the volume that ends with
  the end mark, \<^verbatim>\<open>wipe_out_clusters\<close> returns; then every cluster of the chain is free, every other entry of
  the table is as it was, no block outside the table and the information sector has changed, and
  the count of free clusters is right if it was.
\<close>

theorem wipe_out_clusters_frees:
  assumes "vol_ok P D U M dpbp d s" "chain d (entry_of D dpbp s) cs st" "hint_ok (dpbs s dpbp)"
  shows "\<exists>s'. wipe_out_clusters P dpbp st s = Some s' \<and> vol_ok P D U M dpbp d s' \<and>
    (\<forall>c. legal_cluster d c \<longrightarrow> entry_of D dpbp s' c = (if c \<in> set cs then FREE else entry_of D dpbp s c)) \<and>
    (\<forall>u b. usable U M u b \<and> \<not> fat_area s dpbp u b \<longrightarrow> content D s' u b = content D s u b) \<and>
    (free_count_ok D dpbp s \<longrightarrow> free_count_ok D dpbp s')"
  using wipe_ok [OF assms] by (auto simp: fat_to_def fat_frame_def)

theorem wipe_out_clusters_frees_witness:
  "\<exists>s1 s2 s3. link_fat ram_disk 1 2 3 demo_vol = Some (0, s1) \<and> link_fat ram_disk 1 3 LONG_LAST_CLUSTER s1 = Some (0, s2) \<and>
    wipe_out_clusters ram_disk 1 2 s2 = Some s3 \<and> entry_of demo_io 1 s2 2 = 3 \<and> entry_of demo_io 1 s3 2 = FREE \<and> entry_of demo_io 1 s3 3 = FREE"
proof (rule demo_chain)
  fix s1 s2
  assume s: "link_fat ram_disk 1 2 3 demo_vol = Some (0, s1)" "link_fat ram_disk 1 3 LONG_LAST_CLUSTER s1 = Some (0, s2)"
    and t: "fat_to ram_disk demo_io {0} demo_copies 1 demo_vdpb demo_vol ((\<lambda>_. 0)(2 := 3, 3 := LONG_LAST_CLUSTER)) s2" and h: "hint_ok (dpbs s2 1)"
  have L: "legal_cluster demo_vdpb 2" "legal_cluster demo_vdpb 3" by (simp_all add: legal_cluster_def demo_vdpb_fields)
  have E: "entry_of demo_io 1 s2 2 = 3" "entry_of demo_io 1 s2 3 = LONG_LAST_CLUSTER" using fat_toD(3) [OF t] L by simp_all
  have "chain demo_vdpb (entry_of demo_io 1 s2) [2, 3] 2" using L E by simp
  from wipe_out_clusters_frees [OF fat_toD(1) [OF t] this h] show ?thesis using s E L by auto
qed

text \<open>
  C19. The search for a free cluster ends and finds one when there is one. \<^verbatim>\<open>find_fat_free\<close>, which starts
  at the hint in the parameter block and wraps around at the end of the volume, returns a free cluster if
  the table has one and the end mark if it has none; the table is unchanged.
\<close>

theorem find_fat_free_correct:
  assumes "vol_ok P D U M dpbp d s" "hint_ok (dpbs s dpbp)" "2 \<le> max_cluster d"
  shows "\<exists>c s'. find_fat_free P dpbp s = Some (c, s') \<and>
    (if free_set D dpbp s = {} then c = LONG_LAST_CLUSTER else c \<in> free_set D dpbp s) \<and>
    vol_ok P D U M dpbp d s' \<and> hint_ok (dpbs s' dpbp) \<and> (\<forall>c. legal_cluster d c \<longrightarrow> entry_of D dpbp s' c = entry_of D dpbp s c)"
proof -
  define r where "r = first_free d (entry_of D dpbp s) (free_start (dpbs s dpbp))"
  note F = first_free_props [OF assms(1) free_start_legal [OF assms], of "entry_of D dpbp s", folded r_def]
  have "(if free_set D dpbp s = {} then (case r of Some c \<Rightarrow> c | None \<Rightarrow> LONG_LAST_CLUSTER) = LONG_LAST_CLUSTER
      else (case r of Some c \<Rightarrow> c | None \<Rightarrow> LONG_LAST_CLUSTER) \<in> free_set D dpbp s)"
    unfolding free_set_vol [OF assms(1)] using F by (cases r) auto
  then show ?thesis using find_fat_free_ok [OF assms, folded r_def] unfolding fat_to_def by blast
qed

theorem find_fat_free_correct_witness:
  "\<exists>c s'. find_fat_free ram_disk 1 demo_vol = Some (c, s') \<and> c \<in> free_set demo_io 1 demo_vol"
proof -
  have "2 \<in> free_set demo_io 1 demo_vol"
    unfolding free_set_vol [OF demo_vol_ok] using demo_entry by (simp add: legal_cluster_def demo_vdpb_fields)
  then have "free_set demo_io 1 demo_vol \<noteq> {}" by blast
  then show ?thesis using find_fat_free_correct [OF demo_vol_ok demo_hint] by auto
qed

text \<open>
  C20. Free space is the number of free entries. When the count in the parameter block is right or
  unknown, \<^verbatim>\<open>dos_free\<close> returns the number of free clusters, whether it takes it from there or counts them,
  and leaves a known and right count; the table is unchanged.
\<close>

theorem dos_free_counts:
  assumes "vol_ok P D U M dpbp d s" "hint_ok (dpbs s dpbp)" "2 \<le> max_cluster d" "free_count_ok D dpbp s"
  shows "\<exists>n s'. dos_free P dpbp s = Some (n, s') \<and> unat n = card (free_set D dpbp s) \<and> vol_ok P D U M dpbp d s' \<and>
    free_count_ok D dpbp s' \<and> \<not> free_unknown (dpbs s' dpbp) \<and> (\<forall>c. legal_cluster d c \<longrightarrow> entry_of D dpbp s' c = entry_of D dpbp s c)"
  using dos_free_ok [OF assms] assms(4) by (auto simp: fat_to_def)

theorem dos_free_counts_witness:
  "\<exists>n s1 s'. link_fat ram_disk 1 3 0x0fffffff demo_vol = Some (0, s1) \<and> dos_free ram_disk 1 s1 = Some (n, s') \<and>
    unat n = card (free_set demo_io 1 s1)"
proof -
  obtain s1 where s1: "link_fat ram_disk 1 3 LONG_LAST_CLUSTER demo_vol = Some (0, s1)"
      "fat_to ram_disk demo_io {0} demo_copies 1 demo_vdpb demo_vol ((entry_of demo_io 1 demo_vol)(3 := LONG_LAST_CLUSTER)) s1"
      "dpb_cluster (dpbs s1 1) = dpb_cluster demo_vdpb" "dpb_xcluster (dpbs s1 1) = dpb_xcluster demo_vdpb"
    by (rule put_step [OF demo_vol_ok, of 3 LONG_LAST_CLUSTER]) (auto simp: legal_cluster_def fat_value_def demo_vdpb_fields)
  have "hint_ok (dpbs s1 1)"
    using hint_ok_static [of "dpbs s1 1" demo_vdpb] s1(3,4) demo_hint(1) vol_static [OF fat_toD(1) [OF s1(2)]] by simp
  from dos_free_counts [OF fat_toD(1) [OF s1(2)] this demo_hint(2) fat_toD(4) [OF s1(2) demo_free_count]]
  show ?thesis using s1(1) by blast
qed

text \<open>
  C18. Seeking in a file. For a node that stands on a cluster of its chain, \<^verbatim>\<open>map_cluster\<close> for reading returns
  and finds the cluster of the position, also when that is behind the node; past the end of the chain it
  returns the seek error. The table is unchanged.
\<close>

theorem map_cluster_read:
  assumes "vol_ok P D U M dpbp d s" "hint_ok (dpbs s dpbp)" "2 \<le> max_cluster d" "f_dpb (fn fnp s) = dpbp"
    "stands_on d (entry_of D dpbp s) cs (node_start fnp s) (fn fnp s)"
  shows "\<exists>s'. map_cluster P fnp XFR_READ s = Some (if unat (rel_cluster (fn fnp s) (dpbs s dpbp)) < length cs then SUCCESS else DE_SEEK, s') \<and>
    vol_ok P D U M dpbp d s' \<and> (\<forall>c. legal_cluster d c \<longrightarrow> entry_of D dpbp s' c = entry_of D dpbp s c) \<and>
    (unat (rel_cluster (fn fnp s) (dpbs s dpbp)) < length cs \<longrightarrow>
      f_cluster (fn fnp s') = cs ! unat (rel_cluster (fn fnp s) (dpbs s dpbp)) \<and>
      f_cluster_offset (fn fnp s') = rel_cluster (fn fnp s) (dpbs s dpbp))"
proof -
  let ?r = "rel_cluster (fn fnp s) (dpbs s dpbp)"
  obtain r new s' where m: "map_cluster P fnp XFR_READ s = Some (r, s')" "mapped P D U M dpbp d fnp XFR_READ cs (fn fnp s) s new r s'"
    using map_cluster_ok [OF assms] by blast
  then have new: "new = []" and r: "r = map_result XFR_READ (unat ?r) cs" by (auto simp: mapped_def Let_def)
  obtain E' where E': "dos_to P D U M dpbp d s E' s'" "grown d (entry_of D dpbp s) cs (hd cs) [] E'" using m(2) new by (auto simp: mapped_def Let_def)
  have "E' c = entry_of D dpbp s c" if "legal_cluster d c" for c
  proof (cases "c \<in> set cs")
    case True
    then obtain i where i: "i < length cs" "c = cs ! i" by (auto simp: in_set_conv_nth)
    have "chain d E' cs (hd cs)" "chain d (entry_of D dpbp s) cs (node_start fnp s)" using E'(2) assms(5) by (auto simp: grown_def stands_on_def)
    then show ?thesis using chain_nth [OF _ i(1)] i(2) by metis
  qed (use E'(2) that in \<open>auto simp: grown_def\<close>)
  moreover have "min (unat ?r) (length cs - 1) = unat ?r" if "unat ?r < length cs" using that by simp
  then have "f_cluster (fn fnp s') = cs ! unat ?r \<and> f_cluster_offset (fn fnp s') = ?r" if "unat ?r < length cs"
    using that m(2) new by (simp add: mapped_def Let_def)
  ultimately show ?thesis using m(1) r dos_toD(1,2) [OF E'(1)] by (simp add: map_result_def)
qed

text \<open>A state of the file system over the example volume, with one open file at cluster \<^verbatim>\<open>k\<close> of its chain and position \<^verbatim>\<open>pos\<close>.\<close>

definition demo_file :: "ram kst \<Rightarrow> ram dos \<Rightarrow> u32 \<Rightarrow> u32 \<Rightarrow> u32 \<Rightarrow> ram dos" where
  "demo_file s x cl k pos = (kst.extend s (kst.more x))\<lparr>fnode := (\<lambda>_. (fnode x 0)\<lparr>f_dpb := 1, f_sft_idx := 0, f_cluster := cl,
     f_cluster_offset := k, f_offset := pos, f_dir := (f_dir (fnode x 0))\<lparr>dir_start := 2\<rparr>\<rparr>)\<rparr>"

lemma demo_file_same: "kst.truncate (demo_file s x cl k pos) = kst.truncate s"
  by (simp add: demo_file_def kst.truncate_def kst.extend_def)

lemma demo_file_node:
  assumes "vol_ok ram_disk demo_io {0} demo_copies 1 demo_vdpb s"
  shows "f_dpb (fn 0 (demo_file s x cl k pos)) = 1" "f_cluster (fn 0 (demo_file s x cl k pos)) = cl"
    "f_cluster_offset (fn 0 (demo_file s x cl k pos)) = k" "node_start 0 (demo_file s x cl k pos) = 2"
    "rel_cluster (fn 0 (demo_file s x cl k pos)) (dpbs (demo_file s x cl k pos) 1) = pos div 512"
proof -
  have s: "dpbs (demo_file s x cl k pos) = dpbs s" by (rule truncate_same(5) [OF demo_file_same])
  have st: "dpb_static (dpbs s 1) = dpb_static demo_vdpb" by (rule vol_static [OF assms])
  have "\<not> ISFAT32 (dpbs s 1)" using fat_static(3) [OF st] demo_vdpb_fields(3) by simp
  then show "f_dpb (fn 0 (demo_file s x cl k pos)) = 1" "f_cluster (fn 0 (demo_file s x cl k pos)) = cl"
    "f_cluster_offset (fn 0 (demo_file s x cl k pos)) = k" "node_start 0 (demo_file s x cl k pos) = 2"
    by (simp_all add: node_start_def s getdstart_def) (simp_all add: demo_file_def)
  have "dpb_secsize (dpbs s 1) = 512" "dpb_shftcnt (dpbs s 1) = 0" using dpb_static_eq [OF st] by (simp_all add: demo_vol_def demo_dpb_def)
  then show "rel_cluster (fn 0 (demo_file s x cl k pos)) (dpbs (demo_file s x cl k pos) 1) = pos div 512"
    by (simp add: rel_cluster_def s) (simp add: demo_file_def)
qed

theorem map_cluster_read_witness:
  "\<forall>x. \<exists>s1 s2 s'. link_fat ram_disk 1 2 3 demo_vol = Some (0, s1) \<and> link_fat ram_disk 1 3 LONG_LAST_CLUSTER s1 = Some (0, s2) \<and>
    map_cluster ram_disk 0 XFR_READ (demo_file s2 x 2 0 1000) = Some (SUCCESS, s') \<and> f_cluster (fn 0 s') = 3"
proof (rule demo_chain, rule allI)
  fix s1 s2 x
  assume s: "link_fat ram_disk 1 2 3 demo_vol = Some (0, s1)" "link_fat ram_disk 1 3 LONG_LAST_CLUSTER s1 = Some (0, s2)"
    and t: "fat_to ram_disk demo_io {0} demo_copies 1 demo_vdpb demo_vol ((\<lambda>_. 0)(2 := 3, 3 := LONG_LAST_CLUSTER)) s2" and h: "hint_ok (dpbs s2 1)"
  let ?f = "demo_file s2 x 2 0 1000"
  note T = truncate_same [OF demo_file_same [of s2 x 2 0 1000]] and N = demo_file_node [OF fat_toD(1) [OF t], of x 2 0 1000]
  have v: "vol_ok ram_disk demo_io {0} demo_copies 1 demo_vdpb ?f" "hint_ok (dpbs ?f 1)" using fat_toD(1) [OF t] h by (simp_all add: T)
  have L: "legal_cluster demo_vdpb 2" "legal_cluster demo_vdpb 3" by (simp_all add: legal_cluster_def demo_vdpb_fields)
  have E: "entry_of demo_io 1 ?f 2 = 3" "entry_of demo_io 1 ?f 3 = LONG_LAST_CLUSTER" using fat_toD(3) [OF t] L by (simp_all add: T)
  have on: "stands_on demo_vdpb (entry_of demo_io 1 ?f) [2, 3] (node_start 0 ?f) (fn 0 ?f)" unfolding stands_on_def N using L E by simp
  have r: "unat ((1000 :: u32) div 512) = 1" by (simp add: unat_div)
  obtain s' where "map_cluster ram_disk 0 XFR_READ ?f = Some (SUCCESS, s')" "f_cluster (fn 0 s') = 3"
    using map_cluster_read [OF v demo_hint(2) N(1) on, unfolded N(5) r] by auto
  then show "\<exists>s1 s2 s'. link_fat ram_disk 1 2 3 demo_vol = Some (0, s1) \<and> link_fat ram_disk 1 3 LONG_LAST_CLUSTER s1 = Some (0, s2) \<and>
    map_cluster ram_disk 0 XFR_READ (demo_file s2 x 2 0 1000) = Some (SUCCESS, s') \<and> f_cluster (fn 0 s') = 3" using s by blast
qed

text \<open>
  C17. Growing a file. For a node that stands on a cluster of its chain, \<^verbatim>\<open>map_cluster\<close> for writing returns. The
  chain has then grown by clusters that were free, no further than the position needs, and no other entry of
  the table has changed; the node stands on the cluster of the position, or the call reports a full disk and
  no cluster of the volume is free. The count of free clusters stays right.
\<close>

theorem map_cluster_write:
  assumes "vol_ok P D U M dpbp d s" "hint_ok (dpbs s dpbp)" "2 \<le> max_cluster d" "f_dpb (fn fnp s) = dpbp"
    "stands_on d (entry_of D dpbp s) cs (node_start fnp s) (fn fnp s)" "rel = unat (rel_cluster (fn fnp s) (dpbs s dpbp))"
  shows "\<exists>s' new. map_cluster P fnp XFR_WRITE s = Some (if rel < length (cs @ new) then SUCCESS else DE_HNDLDSKFULL, s') \<and>
    vol_ok P D U M dpbp d s' \<and> chain d (entry_of D dpbp s') (cs @ new) (node_start fnp s) \<and> distinct (cs @ new) \<and>
    (\<forall>c \<in> set new. entry_of D dpbp s c = FREE) \<and> (new \<noteq> [] \<longrightarrow> length (cs @ new) \<le> rel + 1) \<and>
    (\<forall>c. legal_cluster d c \<and> c \<notin> set (cs @ new) \<longrightarrow> entry_of D dpbp s' c = entry_of D dpbp s c) \<and>
    (if rel < length (cs @ new) then f_cluster (fn fnp s') = (cs @ new) ! rel \<and> unat (f_cluster_offset (fn fnp s')) = rel
     else free_set D dpbp s' = {}) \<and>
    (free_count_ok D dpbp s \<longrightarrow> free_count_ok D dpbp s')"
proof -
  let ?E = "entry_of D dpbp s" and ?r = "rel_cluster (fn fnp s) (dpbs s dpbp)"
  obtain r new s' where m: "map_cluster P fnp XFR_WRITE s = Some (r, s')" "mapped P D U M dpbp d fnp XFR_WRITE cs (fn fnp s) s new r s'"
    using map_cluster_ok [OF assms(1-5)] by blast
  have cs: "chain d ?E cs (node_start fnp s)" "cs \<noteq> []" using assms(5) by (auto simp: stands_on_def)
  then have hd: "hd (cs @ new) = node_start fnp s" by (cases cs) auto
  obtain E' where E': "dos_to P D U M dpbp d s E' s'" "grown d ?E cs (node_start fnp s) new E'"
      "length (cs @ new) \<le> rel \<longrightarrow> (\<forall>c. legal_cluster d c \<longrightarrow> E' c \<noteq> FREE)"
    using m(2) hd assms(6) by (auto simp: mapped_def Let_def)
  note S = dos_toD [OF E'(1)]
  have ch: "chain d E' (cs @ new) (node_start fnp s)" using E'(2) by (simp add: grown_def)
  then have "chain d (entry_of D dpbp s') (cs @ new) (node_start fnp s)"
    using chain_cong [of "cs @ new" "entry_of D dpbp s'" E', OF S(2) [OF chain_legal [OF ch]]] by blast
  moreover have "free_set D dpbp s' = {}" if "\<not> rel < length (cs @ new)"
    unfolding free_set_vol [OF S(1)] using E'(3) that S(2) by auto
  moreover have "f_cluster (fn fnp s') = (cs @ new) ! rel \<and> unat (f_cluster_offset (fn fnp s')) = rel" if "rel < length (cs @ new)"
  proof -
    have "min (unat ?r) (length (cs @ new) - 1) = unat ?r" using that assms(6) by simp
    then show ?thesis using m(2) assms(6) unfolding mapped_def Let_def by simp
  qed
  moreover have "r = (if rel < length (cs @ new) then SUCCESS else DE_HNDLDSKFULL)" "new \<noteq> [] \<longrightarrow> length (cs @ new) \<le> rel + 1"
    using m(2) assms(6) by (auto simp: mapped_def Let_def map_result_def)
  ultimately show ?thesis using m(1) S(1,2,3) E'(2) by (intro exI [of _ s'] exI [of _ new]) (simp add: grown_def)
qed

theorem map_cluster_write_witness:
  "\<forall>x. \<exists>s1 s2 s' new. link_fat ram_disk 1 2 3 demo_vol = Some (0, s1) \<and> link_fat ram_disk 1 3 LONG_LAST_CLUSTER s1 = Some (0, s2) \<and>
    map_cluster ram_disk 0 XFR_WRITE (demo_file s2 x 2 0 2000) = Some (if 3 < length ([2, 3] @ new) then SUCCESS else DE_HNDLDSKFULL, s') \<and>
    chain demo_vdpb (entry_of demo_io 1 s') ([2, 3] @ new) 2 \<and> length ([2, 3] @ new) \<le> 4"
proof (rule demo_chain, rule allI)
  fix s1 s2 x
  assume s: "link_fat ram_disk 1 2 3 demo_vol = Some (0, s1)" "link_fat ram_disk 1 3 LONG_LAST_CLUSTER s1 = Some (0, s2)"
    and t: "fat_to ram_disk demo_io {0} demo_copies 1 demo_vdpb demo_vol ((\<lambda>_. 0)(2 := 3, 3 := LONG_LAST_CLUSTER)) s2" and h: "hint_ok (dpbs s2 1)"
  let ?f = "demo_file s2 x 2 0 2000"
  note T = truncate_same [OF demo_file_same [of s2 x 2 0 2000]] and N = demo_file_node [OF fat_toD(1) [OF t], of x 2 0 2000]
  have v: "vol_ok ram_disk demo_io {0} demo_copies 1 demo_vdpb ?f" "hint_ok (dpbs ?f 1)" using fat_toD(1) [OF t] h by (simp_all add: T)
  have L: "legal_cluster demo_vdpb 2" "legal_cluster demo_vdpb 3" by (simp_all add: legal_cluster_def demo_vdpb_fields)
  have E: "entry_of demo_io 1 ?f 2 = 3" "entry_of demo_io 1 ?f 3 = LONG_LAST_CLUSTER" using fat_toD(3) [OF t] L by (simp_all add: T)
  have on: "stands_on demo_vdpb (entry_of demo_io 1 ?f) [2, 3] (node_start 0 ?f) (fn 0 ?f)" unfolding stands_on_def N using L E by simp
  have r: "3 = unat (rel_cluster (fn 0 ?f) (dpbs ?f 1))" unfolding N(5) by (simp add: unat_div)
  obtain s' new where "map_cluster ram_disk 0 XFR_WRITE ?f = Some (if 3 < length ([2, 3] @ new) then SUCCESS else DE_HNDLDSKFULL, s')"
      "chain demo_vdpb (entry_of demo_io 1 s') ([2, 3] @ new) 2" "new \<noteq> [] \<longrightarrow> length ([2, 3] @ new) \<le> 3 + 1"
    using map_cluster_write [OF v demo_hint(2) N(1) on r] unfolding N(4) by blast
  moreover from this(3) have "length ([2, 3] @ new) \<le> 4" by (cases "new = []") simp_all
  ultimately show "\<exists>s1 s2 s' new. link_fat ram_disk 1 2 3 demo_vol = Some (0, s1) \<and> link_fat ram_disk 1 3 LONG_LAST_CLUSTER s1 = Some (0, s2) \<and>
    map_cluster ram_disk 0 XFR_WRITE (demo_file s2 x 2 0 2000) = Some (if 3 < length ([2, 3] @ new) then SUCCESS else DE_HNDLDSKFULL, s') \<and>
    chain demo_vdpb (entry_of demo_io 1 s') ([2, 3] @ new) 2 \<and> length ([2, 3] @ new) \<le> 4" using s by blast
qed

text \<open>
  The first write to an empty file. \<^verbatim>\<open>map_cluster\<close> returns; either no cluster is free and it reports a full
  disk without changing the table, or the directory entry of the node now starts a chain of clusters that
  were free, at most as many as the position needs.
\<close>

theorem map_cluster_first:
  assumes "vol_ok P D U M dpbp d s" "hint_ok (dpbs s dpbp)" "2 \<le> max_cluster d" "f_dpb (fn fnp s) = dpbp"
    "f_cluster (fn fnp s) = FREE" "f_cluster_offset (fn fnp s) = 0"
  shows "\<exists>s' new. map_cluster P fnp XFR_WRITE s = Some (if unat (rel_cluster (fn fnp s) (dpbs s dpbp)) < length new then SUCCESS else DE_HNDLDSKFULL, s') \<and>
    vol_ok P D U M dpbp d s' \<and> length new \<le> unat (rel_cluster (fn fnp s) (dpbs s dpbp)) + 1 \<and>
    (if new = [] then free_set D dpbp s = {} else chain d (entry_of D dpbp s') new (getdstart d (f_dir (fn fnp s')))) \<and>
    (\<forall>c \<in> set new. entry_of D dpbp s c = FREE) \<and>
    (\<forall>c. legal_cluster d c \<and> c \<notin> set new \<longrightarrow> entry_of D dpbp s' c = entry_of D dpbp s c)"
proof -
  let ?r = "rel_cluster (fn fnp s) (dpbs s dpbp)" and ?E = "entry_of D dpbp s"
  have w: "XFR_WRITE \<noteq> XFR_READ" by simp
  show ?thesis
  proof (rule map_cluster_empty [OF assms w])
    fix s'
    assume s': "map_cluster P fnp XFR_WRITE s = Some (DE_HNDLDSKFULL, s')" "fat_to P D U M dpbp d s ?E s'" "hint_ok (dpbs s' dpbp)"
      "\<And>c. legal_cluster d c \<Longrightarrow> ?E c \<noteq> FREE"
    then have "free_set D dpbp s = {}" unfolding free_set_vol [OF assms(1)] by blast
    then show ?thesis using s'(1) fat_toD(1,3) [OF s'(2)] by (intro exI [of _ s'] exI [of _ "[]"]) simp
  next
    fix c new r s'
    assume m: "map_cluster P fnp XFR_WRITE s = Some (r, s')" "legal_cluster d c"
      "mapped P D U M dpbp d fnp XFR_WRITE [] ((fn fnp s)\<lparr>f_dir := setdstart d c (f_dir (fn fnp s))\<rparr>) s (c # new) r s'"
    have rel: "rel_cluster ((fn fnp s)\<lparr>f_dir := setdstart d c (f_dir (fn fnp s))\<rparr>) (dpbs s dpbp) = ?r" by (simp add: rel_cluster_def)
    obtain E' where E': "dos_to P D U M dpbp d s E' s'" "grown d ?E [] c (c # new) E'" using m(3) by (auto simp: mapped_def Let_def)
    note S = dos_toD [OF E'(1)]
    have ch: "chain d E' (c # new) c" using E'(2) by (simp add: grown_def)
    have "chain d (entry_of D dpbp s') (c # new) c"
      using ch chain_cong [of "c # new" "entry_of D dpbp s'" E', OF S(2) [OF chain_legal [OF ch]]] by blast
    moreover have "getdstart d (f_dir (fn fnp s')) = c"
      using m(3) getdstart_setdstart [OF assms(1) m(2)] unfolding mapped_def Let_def by simp
    ultimately show ?thesis using m(1,3) S(1,2) E'(2) rel
      by (intro exI [of _ s'] exI [of _ "c # new"]) (auto simp: mapped_def Let_def grown_def map_result_def)
  qed
qed

theorem map_cluster_first_witness:
  "\<forall>x. \<exists>s' new. map_cluster ram_disk 0 XFR_WRITE (demo_file demo_vol x 0 0 600) = Some (if 1 < length new then SUCCESS else DE_HNDLDSKFULL, s') \<and>
    new \<noteq> [] \<and> chain demo_vdpb (entry_of demo_io 1 s') new (getdstart demo_vdpb (f_dir (fn 0 s')))"
proof
  fix x
  let ?f = "demo_file demo_vol x 0 0 600"
  note T = truncate_same [OF demo_file_same [of demo_vol x 0 0 600]] and N = demo_file_node [OF demo_vol_ok, of x 0 0 600]
  have v: "vol_ok ram_disk demo_io {0} demo_copies 1 demo_vdpb ?f" "hint_ok (dpbs ?f 1)" using demo_vol_ok demo_hint(1) by (simp_all add: T)
  have "2 \<in> free_set demo_io 1 ?f" unfolding free_set_vol [OF v(1)] using demo_entry by (simp add: T legal_cluster_def demo_vdpb_fields)
  then have "free_set demo_io 1 ?f \<noteq> {}" by blast
  moreover have r: "unat ((600 :: u32) div 512) = 1" by (simp add: unat_div)
  ultimately show "\<exists>s' new. map_cluster ram_disk 0 XFR_WRITE ?f = Some (if 1 < length new then SUCCESS else DE_HNDLDSKFULL, s') \<and>
    new \<noteq> [] \<and> chain demo_vdpb (entry_of demo_io 1 s') new (getdstart demo_vdpb (f_dir (fn 0 s')))"
    using map_cluster_first [OF v demo_hint(2) N(1-3), unfolded N(5) r] by metis
qed

end
