(* ===== verification/MemSafety.thy ===== *)
theory MemSafety
  imports MemMgr
begin

text \<open>
  The contract of the memory manager: what \<^verbatim>\<open>DosMemAlloc\<close>, \<^verbatim>\<open>DosMemFree\<close>, \<^verbatim>\<open>DosMemChange\<close>,
  \<^verbatim>\<open>FreeProcessMem\<close> and \<^verbatim>\<open>DosUmbLink\<close> do to the set of allocated blocks, and that no sequence of
  them ever makes two blocks overlap or damages the chain.
\<close>

section \<open>Example state\<close>

text \<open>
  A small machine: the DOS data block, a free run of two MCBs, a block of the process \<open>0x1234\<close> and
  a free block at the top. There is no upper memory.
\<close>

definition mcb_of :: "u8 \<Rightarrow> u16 \<Rightarrow> u16 \<Rightarrow> mcb" where
  "mcb_of t w z = \<lparr>m_type = t, m_psp = w, m_size = z, m_fill = replicate 3 0, m_name = replicate 8 0\<rparr>"

definition demo_mm :: mm where
  "demo_mm = \<lparr>mem = (\<lambda>_. mcb_of 0 0 0)
       (0x1000 := mcb_of MCB_NORMAL 8 0x10, 0x1011 := mcb_of MCB_NORMAL 0 0x20,
        0x1032 := mcb_of MCB_NORMAL 0 5, 0x1038 := mcb_of MCB_NORMAL 0x1234 7,
        0x1040 := mcb_of MCB_LAST 0 0x30),
     first_mcb = 0x1000, uppermem_root = 0xffff, uppermem_link = 0, mem_access_mode = 0,
     cu_psp = 0x1234\<rparr>"

definition demo_blocks :: "block list" where
  "demo_blocks = [(8, 0x10), (0, 0x20), (0, 5), (0x1234, 7), (0, 0x30)]"

lemma demo_inv: "mm_inv demo_mm demo_blocks"
  by (simp add: mm_inv_def umb_linked_def arena_def fits_def demo_mm_def demo_blocks_def mcb_of_def
      nxtMCBsize_def)

lemma demo_coalesce: "coalesce demo_blocks = [(8, 0x10), (0, 0x26), (0x1234, 7), (0, 0x30)]"
  by (simp add: demo_blocks_def after_run_def)

section \<open>Allocation\<close>



subsection \<open>The choice of the block and exhaustion\<close>

lemma alloc_start_unlinked: "\<not> umb_linked s \<Longrightarrow> alloc_start sz mode s = first_mcb s"
  by (auto simp: alloc_start_def umb_linked_def)

lemma found_at_mem: "found_at bs p f z \<Longrightarrow> (0, z) \<in> set bs"
  by (auto simp: found_at_def)

text \<open>The result of a call without linked upper memory, in terms of the coalesced arena.\<close>

lemma DosMemAlloc_unlinked:
  assumes inv: "mm_inv s bs" and un: "\<not> umb_linked s" and mode: "mode \<noteq> LARGEST" and sz: "sz \<noteq> 0"
  shows "(\<exists>m1 a m2 xs z ys. chosen sz mode (coalesce bs) xs z ys \<and> m_size (m1 (limit (first_mcb s) xs)) = z \<and>
            take_block sz mode (cu_psp s) (limit (first_mcb s) xs) m1 = (a, m2) \<and>
            DosMemAlloc sz mode para asize s = Some (SUCCESS, a, asize, s\<lparr>mem := m2\<rparr>)) \<or>
         (\<exists>m1 z. (\<forall>c \<in> set (coalesce bs). fst c = 0 \<longrightarrow> snd c < sz \<and> snd c \<le> z) \<and>
            (z = 0 \<or> (0, z) \<in> set (coalesce bs)) \<and>
            DosMemAlloc sz mode para asize s = Some (DE_NOMEM, para, map_option (\<lambda>_. z) asize, s\<lparr>mem := m1\<rparr>))"
proof -
  let ?p = "first_mcb s" and ?bs = "coalesce bs"
  let ?B = "foldl big_step (0, 0) (free_list ?p ?bs)" and ?F = "foldl (pick_step mode sz) (0, 0) (free_list ?p ?bs)"
  have ar: "arena (mem s) ?p bs" using inv by (simp add: mm_inv_def)
  have ft: "fits ?p ?bs" using ar fits_coalesce by (simp add: arena_def)
  have pt: "points (mem s) ?p (0, 0)" by (simp add: points_def)
  note start = alloc_start_unlinked [OF un]
  note big = biggest_free [OF ft]
  have no_retry: "\<not> (uppermem_link s AND 1 \<noteq> 0 \<and> uppermem_root s \<noteq> 0xffff)"
    using un by (auto simp: umb_linked_def)
  have fail: ?thesis if r: "alloc_search sz mode ?p 0 0 (mem s) = Some (ChainEnd m1 (fst ?B) 0)"
      and re: "reshapes (mem s) ?p bs m1 ?bs" and small: "\<forall>c \<in> set ?bs. fst c = 0 \<longrightarrow> snd c < sz" for m1
  proof -
    let ?z = "if fst ?B \<noteq> 0 then m_size (m1 (fst ?B)) else 0"
    have "fst ?B \<noteq> 0 \<longrightarrow> m_size (m1 (fst ?B)) = snd ?B \<and> (0, snd ?B) \<in> set ?bs"
      using big found_at_size [of m1 ?p ?bs] found_at_mem [of ?bs ?p] re by (auto simp: reshapes_def)
    then have "\<forall>c \<in> set ?bs. fst c = 0 \<longrightarrow> snd c < sz \<and> snd c \<le> ?z" "?z = 0 \<or> (0, ?z) \<in> set ?bs"
      using big small by auto
    moreover have "DosMemAlloc sz mode para asize s =
        Some (DE_NOMEM, para, map_option (\<lambda>_. ?z) asize, s\<lparr>mem := m1\<rparr>)"
      using r start mode no_retry by (subst DosMemAlloc.simps) (auto simp: Let_def)
    ultimately show ?thesis by blast
  qed
  show ?thesis
  proof (cases "is_first_fit mode")
    case True
    from alloc_search_first_fit [OF ar True pt pt, of sz]
    consider (stop) m1 xs z ys zs where "alloc_search sz mode ?p 0 0 (mem s) = Some (StopIt m1 (limit ?p xs))"
        "reshapes (mem s) ?p bs m1 (xs @ (0, z) # ys)" "sz \<le> z" "\<forall>c \<in> set xs. fst c = 0 \<longrightarrow> snd c < sz"
        "coalesce bs = xs @ (0, z) # zs"
      | (none) m1 where "alloc_search sz mode ?p 0 0 (mem s) = Some (ChainEnd m1 (fst ?B) 0)"
        "reshapes (mem s) ?p bs m1 ?bs" "\<forall>c \<in> set ?bs. fst c = 0 \<longrightarrow> snd c < sz"
      by auto
    then show ?thesis
    proof cases
      case stop
      obtain a m2 where t: "take_block sz mode (cu_psp s) (limit ?p xs) m1 = (a, m2)" by fastforce
      have "m_size (m1 (limit ?p xs)) = z"
        using stop(2) arena_valid(3) [of m1 ?p xs "(0, z)" ys] by (simp add: reshapes_def)
      moreover have "chosen sz mode ?bs xs z zs"
        using stop True is_fit_disjoint by (auto simp: chosen_def)
      moreover have "DosMemAlloc sz mode para asize s = Some (SUCCESS, a, asize, s\<lparr>mem := m2\<rparr>)"
        using stop(1) start t by (subst DosMemAlloc.simps) simp
      ultimately show ?thesis using t by blast
    next
      case none
      then show ?thesis by (rule fail)
    qed
  next
    case False
    obtain m1 where r: "alloc_search sz mode ?p 0 0 (mem s) = Some (ChainEnd m1 (fst ?B) (fst ?F))"
        and re: "reshapes (mem s) ?p bs m1 ?bs"
      using alloc_search_ends [OF ar False pt pt, of sz] by auto
    show ?thesis
    proof (cases "fst ?F = 0")
      case True
      have "\<forall>c \<in> set (free_list ?p ?bs). snd c < sz"
        using foldl_pick(2) [OF _ mode True] free_list_nonzero [OF ft] by blast
      then have "\<forall>c \<in> set ?bs. fst c = 0 \<longrightarrow> snd c < sz"
        by (simp add: free_list_sizes [where P = "\<lambda>z. z < sz"])
      then show ?thesis using fail [OF _ re] r True by simp
    next
      case nz: False
      obtain xs z ys where ch: "chosen sz mode ?bs xs z ys" and F: "?F = (limit ?p xs, z)"
        using pick_chosen [OF ft False mode nz] by blast
      obtain a m2 where t: "take_block sz mode (cu_psp s) (limit ?p xs) m1 = (a, m2)" by fastforce
      have size: "m_size (m1 (limit ?p xs)) = z"
        using re ch arena_valid(3) [of m1 ?p xs "(0, z)" ys] by (simp add: reshapes_def chosen_def)
      have "z \<noteq> 0" using ch sz by (auto simp: chosen_def)
      then have "DosMemAlloc sz mode para asize s = Some (SUCCESS, a, asize, s\<lparr>mem := m2\<rparr>)"
        using r start t size F nz mode by (subst DosMemAlloc.simps) (simp add: Let_def)
      then show ?thesis using t size ch by blast
    qed
  qed
qed

text \<open>
  C4. The fit strategies: without linked upper memory, a request for \<open>sz > 0\<close> paragraphs succeeds
  exactly when some run of adjacent free blocks can hold it. First fit takes the lowest such
  run, best fit one of the smallest, last fit the highest (from its top end).
\<close>

theorem DosMemAlloc_strategy:
  assumes "mm_inv s bs" and "\<not> umb_linked s" and "mode \<noteq> LARGEST" and "sz \<noteq> 0"
  shows "\<exists>rc para' asize' s'. DosMemAlloc sz mode para asize s = Some (rc, para', asize', s') \<and>
    (rc = SUCCESS \<longleftrightarrow> (\<exists>c \<in> set (coalesce bs). fst c = 0 \<and> sz \<le> snd c)) \<and>
    (rc = SUCCESS \<longrightarrow> (\<exists>xs z ys. chosen sz mode (coalesce bs) xs z ys \<and>
       para' = (if is_last_fit mode \<and> sz \<noteq> z then nxtMCBsize (limit (first_mcb s) xs) (z - sz - 1)
                else limit (first_mcb s) xs)))"
proof -
  from DosMemAlloc_unlinked [OF assms, of para asize]
  consider (ok) m1 a m2 xs z ys where "chosen sz mode (coalesce bs) xs z ys" "m_size (m1 (limit (first_mcb s) xs)) = z"
      "take_block sz mode (cu_psp s) (limit (first_mcb s) xs) m1 = (a, m2)"
      "DosMemAlloc sz mode para asize s = Some (SUCCESS, a, asize, s\<lparr>mem := m2\<rparr>)"
    | (no) m1 z where "\<forall>c \<in> set (coalesce bs). fst c = 0 \<longrightarrow> snd c < sz \<and> snd c \<le> z"
      "DosMemAlloc sz mode para asize s = Some (DE_NOMEM, para, map_option (\<lambda>_. z) asize, s\<lparr>mem := m1\<rparr>)"
    by blast
  then show ?thesis
  proof cases
    case ok
    have "a = (if is_last_fit mode \<and> sz \<noteq> z then nxtMCBsize (limit (first_mcb s) xs) (z - sz - 1)
                else limit (first_mcb s) xs)"
      using take_block_address [of sz mode "cu_psp s" "limit (first_mcb s) xs" m1] ok(2,3) assms(3) by simp
    moreover have "\<exists>c \<in> set (coalesce bs). fst c = 0 \<and> sz \<le> snd c"
      using ok(1) by (auto simp: chosen_def)
    ultimately show ?thesis using ok(1,4)
      by (intro exI [of _ SUCCESS] exI [of _ a] exI [of _ asize] exI [of _ "s\<lparr>mem := m2\<rparr>"] conjI impI
          exI [of _ xs] exI [of _ z] exI [of _ ys]) simp_all
  next
    case no
    have "\<not> (\<exists>c \<in> set (coalesce bs). fst c = 0 \<and> sz \<le> snd c)" using no(1) by (auto simp: not_le)
    then show ?thesis using no(2) by simp
  qed
qed

theorem DosMemAlloc_strategy_witness:
  "\<exists>rc para' asize' s'. DosMemAlloc 0x22 BEST_FIT 0 None demo_mm = Some (rc, para', asize', s') \<and>
     rc = SUCCESS \<and> para' = 0x1011"
proof -
  have h: "\<not> umb_linked demo_mm" "(BEST_FIT :: u16) \<noteq> LARGEST" "(0x22 :: u16) \<noteq> 0"
    by (auto simp: umb_linked_def demo_mm_def)
  have best: "is_best_fit BEST_FIT" "\<not> is_last_fit BEST_FIT" "first_mcb demo_mm = 0x1000"
    by (auto simp: is_best_fit_def is_last_fit_def demo_mm_def)
  have big: "\<exists>c \<in> set (coalesce demo_blocks). fst c = 0 \<and> 0x22 \<le> snd c" by (simp add: demo_coalesce)
  from DosMemAlloc_strategy [where para = 0 and asize = None, OF demo_inv h] big best
  obtain rc para' asize' s' xs z ys
    where r: "DosMemAlloc 0x22 BEST_FIT 0 None demo_mm = Some (rc, para', asize', s')" "rc = SUCCESS"
      and x: "chosen 0x22 BEST_FIT (coalesce demo_blocks) xs z ys" "para' = limit 0x1000 xs"
    by (elim exE conjE) (simp only: simp_thms if_False, blast)
  have "z \<le> 0x26" using x(1) best by (simp add: demo_coalesce chosen_def)
  then have "xs = [(8, 0x10)]" using x(1) unfolding demo_coalesce chosen_def
    by (auto simp: Cons_eq_append_conv)
  then show ?thesis using r x(2) by (simp add: nxtMCBsize_def)
qed

subsection \<open>The largest free block\<close>

lemma after_run_head: "after_run bs = [] \<or> fst (hd (after_run bs)) \<noteq> 0"
  by (induction bs) (auto simp: after_run_def)

lemma head_kept:
  assumes "bs = [] \<or> fst (hd bs) \<noteq> 0"
  shows "run_size z (coalesce bs) = z" "after_run (coalesce bs) = coalesce bs"
  using assms by (cases bs; simp add: after_run_def)+

lemma coalesce_idem: "coalesce (coalesce bs) = coalesce bs"
proof (induction bs rule: coalesce.induct)
  case (2 b bs)
  then show ?case by (auto simp: head_kept [OF after_run_head])
qed simp

lemma set_again: "x AND 0x80 \<noteq> 0 \<Longrightarrow> (x AND NOT 0x80) OR 0x80 = x" for x :: u8
proof -
  assume a: "x AND 0x80 \<noteq> 0"
  have e: "(0x80 :: u8) = 2 ^ 7" by simp
  have "bit x 7" using a unfolding e and_exp_eq_0_iff_not_bit by simp
  then show ?thesis unfolding e by (intro bit_eqI) (auto simp only: bit_simps)
qed

lemma free_below:
  assumes "fits p bs" "c \<in> set bs"
  shows "snd c < 0xffff"
proof -
  obtain xs ys where bs: "bs = xs @ c # ys" using assms(2) by (meson split_list)
  have "0 < unat p" using assms(1) by (simp add: fits_def unat_gt_0)
  then have "unat (snd c) < 0xffff" using assms(1) unfolding bs fits_def by (cases c) auto
  then show ?thesis by (simp add: word_less_nat_alt)
qed

text \<open>A search for FFFFh paragraphs fails and reports the largest run of free blocks.\<close>

lemma DosMemAlloc_largest:
  assumes inv: "mm_inv s bs" and un: "\<not> umb_linked s"
  shows "\<exists>m1 z. DosMemAlloc 0xffff LARGEST para (Some b) s = Some (DE_NOMEM, para, Some z, s\<lparr>mem := m1\<rparr>) \<and>
    reshapes (mem s) (first_mcb s) bs m1 (coalesce bs) \<and>
    (\<forall>c \<in> set (coalesce bs). fst c = 0 \<longrightarrow> snd c \<le> z) \<and> (z = 0 \<or> (0, z) \<in> set (coalesce bs))"
proof -
  let ?p = "first_mcb s" and ?bs = "coalesce bs"
  let ?B = "foldl big_step (0, 0) (free_list ?p ?bs)"
  have ar: "arena (mem s) ?p bs" using inv by (simp add: mm_inv_def)
  have ft: "fits ?p ?bs" using ar fits_coalesce by (simp add: arena_def)
  have pt: "points (mem s) ?p (0, 0)" by (simp add: points_def)
  have nf: "\<not> is_first_fit LARGEST" by (simp add: is_first_fit_def)
  obtain m1 where r: "alloc_search 0xffff LARGEST ?p 0 0 (mem s) = Some (ChainEnd m1 (fst ?B) 0)"
      and re: "reshapes (mem s) ?p bs m1 ?bs"
    using alloc_search_ends [OF ar nf pt pt, where sz = "0xffff"] by (auto simp: foldl_pick_largest)
  let ?z = "if fst ?B \<noteq> 0 then m_size (m1 (fst ?B)) else 0"
  have B: "fst ?B \<noteq> 0 \<longrightarrow> m_size (m1 (fst ?B)) = snd ?B \<and> (0, snd ?B) \<in> set ?bs"
    using biggest_free [OF ft] found_at_size [of m1 ?p ?bs] found_at_mem [of ?bs ?p] re by (auto simp: reshapes_def)
  then have no: "\<not> (fst ?B \<noteq> 0 \<and> 0xffff \<le> m_size (m1 (fst ?B)))" using free_below [OF ft] by fastforce
  have "DosMemAlloc 0xffff LARGEST para (Some b) s = Some (DE_NOMEM, para, Some ?z, s\<lparr>mem := m1\<rparr>)"
    using r no alloc_start_unlinked [OF un] by (subst DosMemAlloc.simps) (auto simp: Let_def)
  moreover have "\<forall>c \<in> set ?bs. fst c = 0 \<longrightarrow> snd c \<le> ?z" "?z = 0 \<or> (0, ?z) \<in> set ?bs"
    using biggest_free [OF ft] B by auto
  ultimately show ?thesis using re by blast
qed

text \<open>
  \<^verbatim>\<open>DosMemLargest\<close>, which asks once more when the strategy begins in upper memory: it joins free blocks and allocates nothing.
\<close>

lemma DosMemLargest_unlinked:
  assumes inv: "mm_inv s bs" and un: "\<not> umb_linked s"
  shows "\<exists>rc z m' bs'. DosMemLargest s = Some (rc, z, s\<lparr>mem := m'\<rparr>) \<and> mm_inv (s\<lparr>mem := m'\<rparr>) bs' \<and>
    allocated (first_mcb s) bs' = allocated (first_mcb s) bs \<and>
    (\<forall>c \<in> set bs'. fst c = 0 \<longrightarrow> snd c \<le> z) \<and> (z = 0 \<or> (0, z) \<in> set bs')"
proof -
  obtain m1 z1 where a1: "DosMemAlloc 0xffff LARGEST 0 (Some 0) s = Some (DE_NOMEM, 0, Some z1, s\<lparr>mem := m1\<rparr>)"
      "reshapes (mem s) (first_mcb s) bs m1 (coalesce bs)"
      "\<forall>c \<in> set (coalesce bs). fst c = 0 \<longrightarrow> snd c \<le> z1" "z1 = 0 \<or> (0, z1) \<in> set (coalesce bs)"
    using DosMemAlloc_largest [OF inv un] by blast
  have i1: "mm_inv (s\<lparr>mem := m1\<rparr>) (coalesce bs)"
    by (rule mm_inv_step [OF inv]) (use a1(2) in \<open>auto simp: reshapes_def\<close>)
  show ?thesis
  proof (cases "mem_access_mode s AND 0x80 = 0")
    case True
    then have "DosMemLargest s = Some (if z1 \<noteq> 0 then SUCCESS else DE_NOMEM, z1, s\<lparr>mem := m1\<rparr>)" by (simp add: DosMemLargest_def a1(1))
    then show ?thesis using i1 a1(2-4) by (auto simp: reshapes_def)
  next
    case False
    define k where "k = mem_access_mode s AND NOT 0x80"
    let ?s = "s\<lparr>mem := m1, mem_access_mode := k\<rparr>"
    have i2: "mm_inv ?s (coalesce bs)" "\<not> umb_linked ?s" using i1 un by (simp_all add: mm_inv_def umb_linked_def)
    obtain m2 z2 where a2: "DosMemAlloc 0xffff LARGEST 0 (Some 0) ?s = Some (DE_NOMEM, 0, Some z2, ?s\<lparr>mem := m2\<rparr>)"
        "reshapes m1 (first_mcb s) (coalesce bs) m2 (coalesce bs)" "z2 = 0 \<or> (0, z2) \<in> set (coalesce bs)"
      using DosMemAlloc_largest [OF i2, of 0 0] by (auto simp: coalesce_idem)
    have i3: "mm_inv (s\<lparr>mem := m1, mem := m2\<rparr>) (coalesce bs)"
      by (rule mm_inv_step [OF i1]) (use a2(2) in \<open>auto simp: reshapes_def\<close>)
    have k: "k OR 0x80 = mem_access_mode s" unfolding k_def using False by (rule set_again)
    define z where "z = (if z2 > z1 then z2 else z1)"
    have f: "mem_access_mode (s\<lparr>mem := m1\<rparr>) = mem_access_mode s" by simp
    have "DosMemLargest s = Some (if z \<noteq> 0 then SUCCESS else DE_NOMEM, z, s\<lparr>mem := m2\<rparr>)"
      using False k unfolding DosMemLargest_def a1(1) bind.bind_lunit prod.case f k_def [symmetric] a2(1) by (simp add: z_def)
    moreover have "\<forall>c \<in> set (coalesce bs). fst c = 0 \<longrightarrow> snd c \<le> z" "z = 0 \<or> (0, z) \<in> set (coalesce bs)"
      using a1(3,4) a2(3) by (auto simp: z_def)
    moreover have "allocated (first_mcb s) (coalesce bs) = allocated (first_mcb s) bs" by (rule allocated_coalesce)
    ultimately show ?thesis using i3 by auto
  qed
qed

section \<open>Freeing and resizing\<close>

text \<open>The block that covers the gap below linked upper memory is not freed or resized by programs.\<close>

definition gap_block :: "mm \<Rightarrow> u16 \<Rightarrow> u16 \<Rightarrow> bool" where
  "gap_block s a z \<longleftrightarrow> umb_linked s \<and> uppermem_root s = nxtMCBsize a z"

lemma allocated_split:
  assumes "(a, w, z) \<in> allocated p bs"
  obtains xs ys where "bs = xs @ (w, z) # ys" "a = limit p xs" "w \<noteq> 0"
  using assms by (auto simp: allocated_def elim: addrs_split)

lemma allocated_functional:
  assumes "fits p bs" "(a, w, z) \<in> allocated p bs" "(a, v, y) \<in> allocated p bs"
  shows "w = v" "z = y"
proof -
  obtain xs ys where bs: "bs = xs @ (w, z) # ys" "a = limit p xs" "w \<noteq> 0" using assms(2) by (rule allocated_split)
  have "(a, v, y) \<in> insert (a, w, z) (allocated p xs \<union> allocated (nxtMCBsize a z) ys)"
    using assms(3) allocated_middle [OF bs(3), of p xs z ys] bs(1,2) by simp
  moreover have "(a, v, y) \<notin> allocated p xs" "(a, v, y) \<notin> allocated (nxtMCBsize a z) ys"
    unfolding bs(2) by (rule allocated_address [OF assms(1) [unfolded bs(1)]])+
  ultimately show "w = v" "z = y" by simp_all
qed

lemma becomes_inv:
  assumes inv: "mm_inv s bs" and al: "(a, w, z) \<in> allocated (first_mcb s) bs" and gap: "\<not> gap_block s a z"
    and b: "becomes (mem s) (first_mcb s) bs a v y m' bs'"
  shows "mm_inv (s\<lparr>mem := m'\<rparr>) bs'"
proof -
  have ft: "fits (first_mcb s) bs" using inv by (simp add: mm_inv_def arena_def)
  have kept: "(c, u, x) \<in> allocated (first_mcb s) bs'"
    if "umb_linked s" "(c, u, x) \<in> allocated (first_mcb s) bs" "uppermem_root s = nxtMCBsize c x" for c u x
  proof -
    have "c \<noteq> a" using that gap allocated_functional [OF ft al, of u x] by (auto simp: gap_block_def)
    then show ?thesis using that(2) b by (auto simp: becomes_def)
  qed
  have sp: "span bs' = span bs" using b by (simp add: becomes_def)
  have "umb_linked s \<longrightarrow> (\<exists>c u x. (c, u, x) \<in> allocated (first_mcb s) bs' \<and>
      uppermem_root s = nxtMCBsize c x \<and> unat c + unat x + 1 < unat (first_mcb s) + span bs')"
  proof
    assume l: "umb_linked s"
    then obtain c u x where "(c, u, x) \<in> allocated (first_mcb s) bs" "uppermem_root s = nxtMCBsize c x"
        "unat c + unat x + 1 < unat (first_mcb s) + span bs"
      using inv by (auto simp: mm_inv_def)
    then show "\<exists>c u x. (c, u, x) \<in> allocated (first_mcb s) bs' \<and>
      uppermem_root s = nxtMCBsize c x \<and> unat c + unat x + 1 < unat (first_mcb s) + span bs'"
      using kept [OF l] sp by (intro exI [of _ c] exI [of _ u] exI [of _ x]) simp
  qed
  then show ?thesis using b by (simp add: mm_inv_def becomes_def umb_linked_def)
qed

lemma allocated_remove:
  assumes "fits p bs" "(a, w, z) \<in> allocated p bs"
  shows "{x \<in> allocated p bs. fst x \<noteq> a} = allocated p bs - {(a, w, z)}"
proof (rule set_eqI)
  fix x :: "u16 \<times> u16 \<times> u16"
  obtain b v y where x: "x = (b, v, y)" by (cases x)
  show "x \<in> {x \<in> allocated p bs. fst x \<noteq> a} \<longleftrightarrow> x \<in> allocated p bs - {(a, w, z)}"
    using allocated_functional [OF assms, of v y] x by auto
qed

text \<open>
  C5. Freeing an allocated block succeeds, removes exactly that block from the allocated ones and
  leaves the contents of all others alone.
\<close>

theorem DosMemFree_correct:
  assumes "mm_inv s bs" and "(a, w, z) \<in> allocated (first_mcb s) bs" and "\<not> gap_block s a z"
  shows "\<exists>s' bs'. DosMemFree a s = (SUCCESS, s') \<and> mm_inv s' bs' \<and>
    allocated (first_mcb s) bs' = allocated (first_mcb s) bs - {(a, w, z)} \<and>
    others_kept (mem s) (mem s') (first_mcb s) bs a"
proof -
  have ar: "arena (mem s) (first_mcb s) bs" using assms(1) by (simp add: mm_inv_def)
  obtain xs ys where bs: "bs = xs @ (w, z) # ys" "a = limit (first_mcb s) xs" "w \<noteq> 0"
    using assms(2) by (rule allocated_split)
  obtain m' where m': "DosMemFree a s = (SUCCESS, s\<lparr>mem := m'\<rparr>)"
      "becomes (mem s) (first_mcb s) bs a 0 z m' (xs @ (0, z) # ys)"
    using DosMemFree_becomes ar bs by blast
  have "{x \<in> allocated (first_mcb s) bs. fst x \<noteq> a} = allocated (first_mcb s) bs - {(a, w, z)}"
    using allocated_remove [OF _ assms(2)] ar by (simp add: arena_def)
  then show ?thesis using m' becomes_inv [OF assms m'(2)] by (auto simp: becomes_def)
qed

theorem DosMemFree_correct_witness:
  "\<exists>s' bs'. DosMemFree 0x1038 demo_mm = (SUCCESS, s') \<and> mm_inv s' bs' \<and>
     allocated 0x1000 bs' = allocated 0x1000 demo_blocks - {(0x1038, 0x1234, 7)}"
proof -
  have "(0x1038, 0x1234, 7) \<in> allocated (first_mcb demo_mm) demo_blocks"
    by (simp add: demo_mm_def demo_blocks_def allocated_Cons nxtMCBsize_def)
  moreover have "\<not> gap_block demo_mm 0x1038 7" by (simp add: gap_block_def umb_linked_def demo_mm_def)
  moreover have "first_mcb demo_mm = 0x1000" by (simp add: demo_mm_def)
  ultimately show ?thesis using DosMemFree_correct [OF demo_inv, of "0x1038" "0x1234" 7] by auto
qed

text \<open>
  C6. Resizing an allocated block: it can grow to the end of the free run behind it. If the
  requested size fits, the block has that size afterwards, belongs to the current process and the
  rest of the run stays free; if not, the call reports \<^verbatim>\<open>DE_NOMEM\<close> and the largest possible size,
  which is the size the block then has. All other blocks keep their place and contents.
\<close>

theorem DosMemChange_correct:
  assumes "mm_inv s (xs @ (w, z) # ys)" and "w \<noteq> 0" and "para - 1 = limit (first_mcb s) xs"
    and "\<not> gap_block s (para - 1) z"
    and "R = (if z < sz then run_size z ys else z)"
  shows "\<exists>rc ms' s' bs'. DosMemChange para sz ms s = (rc, ms', s') \<and> mm_inv s' bs' \<and>
    others_kept (mem s) (mem s') (first_mcb s) (xs @ (w, z) # ys) (para - 1) \<and>
    (if sz \<le> R then rc = SUCCESS \<and> ms' = ms \<and>
       (cu_psp s \<noteq> 0 \<longrightarrow> allocated (first_mcb s) bs' =
          insert (para - 1, cu_psp s, sz) (allocated (first_mcb s) (xs @ (w, z) # ys) - {(para - 1, w, z)}))
     else rc = DE_NOMEM \<and> ms' = map_option (\<lambda>_. R) ms \<and>
       allocated (first_mcb s) bs' =
         insert (para - 1, w, R) (allocated (first_mcb s) (xs @ (w, z) # ys) - {(para - 1, w, z)}))"
proof -
  let ?p = "first_mcb s" and ?bs = "xs @ (w, z) # ys" and ?a = "para - 1"
  have ar: "arena (mem s) ?p ?bs" using assms(1) by (simp add: mm_inv_def)
  have al: "(?a, w, z) \<in> allocated ?p ?bs" using assms(2,3) by (simp add: allocated_middle)
  have other: "{x \<in> allocated ?p ?bs. fst x \<noteq> ?a} = allocated ?p ?bs - {(?a, w, z)}"
    using allocated_remove [OF _ al] ar by (simp add: arena_def)
  obtain rc ms' m' bs' where r: "DosMemChange para sz ms s = (rc, ms', s\<lparr>mem := m'\<rparr>)"
      and c: "if sz \<le> R then rc = SUCCESS \<and> ms' = ms \<and> becomes (mem s) ?p ?bs ?a (cu_psp s) sz m' bs'
         else rc = DE_NOMEM \<and> ms' = map_option (\<lambda>_. R) ms \<and> becomes (mem s) ?p ?bs ?a w R m' bs'"
    using DosMemChange_becomes [OF ar assms(3,5), of ms] by blast
  have "mm_inv (s\<lparr>mem := m'\<rparr>) bs'"
    using becomes_inv [OF assms(1) al assms(4)] c by (auto split: if_splits)
  then show ?thesis using r c other assms(2)
    by (intro exI [of _ rc] exI [of _ ms'] exI [of _ "s\<lparr>mem := m'\<rparr>"] exI [of _ bs'])
      (simp add: becomes_def split: if_splits)
qed

theorem DosMemChange_correct_witness:
  "\<exists>ms' s' bs'. DosMemChange 0x1039 0x40 (Some 0) demo_mm = (DE_NOMEM, ms', s') \<and> ms' = Some 0x38 \<and> mm_inv s' bs'"
proof -
  have h: "mm_inv demo_mm ([(8, 0x10), (0, 0x20), (0, 5)] @ (0x1234, 7) # [(0, 0x30)])"
    using demo_inv by (simp add: demo_blocks_def)
  have "(0x1234 :: u16) \<noteq> 0" "(0x1039 :: u16) - 1 = limit (first_mcb demo_mm) [(8, 0x10), (0, 0x20), (0, 5)]"
      "\<not> gap_block demo_mm (0x1039 - 1) 7" "(0x38 :: u16) = (if 7 < (0x40 :: u16) then run_size 7 [(0, 0x30)] else 7)"
    by (simp_all add: demo_mm_def nxtMCBsize_def gap_block_def umb_linked_def)
  from DosMemChange_correct [OF h this, of "Some 0"] show ?thesis by auto
qed

section \<open>Runs of the memory manager\<close>

text \<open>
  The operations a program can reach: allocation with any parameters, freeing and resizing of
  blocks that are allocated, and the switch to another process.
\<close>

definition owns :: "mm \<Rightarrow> u16 \<Rightarrow> u16 \<Rightarrow> u16 \<Rightarrow> bool" where
  "owns s a w z \<longleftrightarrow> (\<exists>bs. mm_inv s bs \<and> (a, w, z) \<in> allocated (first_mcb s) bs)"

inductive mm_step :: "mm \<Rightarrow> mm \<Rightarrow> bool" where
  alloc: "DosMemAlloc sz mode para asize s = Some (rc, para', asize', s') \<Longrightarrow> mm_step s s'"
| free: "owns s a w z \<Longrightarrow> \<not> gap_block s a z \<Longrightarrow> DosMemFree a s = (rc, s') \<Longrightarrow> mm_step s s'"
| change: "owns s (para - 1) w z \<Longrightarrow> \<not> gap_block s (para - 1) z \<Longrightarrow>
     DosMemChange para sz ms s = (rc, ms', s') \<Longrightarrow> mm_step s s'"
| switch: "psp \<noteq> 0 \<Longrightarrow> mm_step s (s\<lparr>cu_psp := psp\<rparr>)"

definition mm_ok :: "mm \<Rightarrow> bool" where
  "mm_ok s \<longleftrightarrow> cu_psp s \<noteq> 0 \<and> (\<exists>bs. mm_inv s bs)"

lemma headers_unique: "headers m p bs MCB_LAST \<Longrightarrow> headers m p cs MCB_LAST \<Longrightarrow> bs \<noteq> [] \<Longrightarrow> cs \<noteq> [] \<Longrightarrow> bs = cs"
proof (induction bs arbitrary: p cs)
  case (Cons b bs)
  obtain c cs' where cs: "cs = c # cs'" using Cons.prems(4) by (cases cs) auto
  have bc: "b = c" using Cons.prems(1,2) cs by (auto simp: prod_eq_iff)
  have "bs = [] \<longleftrightarrow> cs' = []" using Cons.prems(1,2) cs by (auto split: if_splits)
  then show ?case using Cons.IH [of "nxtMCBsize p (snd b)" cs'] Cons.prems(1,2) cs bc by fastforce
qed simp

lemma mm_inv_unique: "mm_inv s bs \<Longrightarrow> mm_inv s cs \<Longrightarrow> bs = cs"
  using headers_unique [of "mem s" "first_mcb s" bs cs] by (auto simp: mm_inv_def arena_def)

lemma DosMemAlloc_cu_psp:
  assumes "mm_ok s" "DosMemAlloc sz mode para asize s = Some (rc, para', asize', s')"
  shows "mm_ok s'"
proof -
  obtain bs where bs: "mm_inv s bs" and psp: "cu_psp s \<noteq> 0" using assms(1) by (auto simp: mm_ok_def)
  obtain bs' where o: "alloc_outcome s bs sz (mode = LARGEST) para rc para' s' bs'"
    using DosMemAlloc_outcome [OF bs psp, of sz mode para asize] assms(2) by auto
  have "s' = s\<lparr>mem := mem s'\<rparr>" using o by (simp add: alloc_outcome_def)
  then have "cu_psp s' = cu_psp s" by (metis mm.select_convs(6) mm.surjective mm.update_convs(1))
  then show ?thesis using alloc_outcome_inv [OF bs o] psp by (auto simp: mm_ok_def)
qed

lemma owns_split:
  assumes "owns s a w z"
  obtains xs ys where "mm_inv s (xs @ (w, z) # ys)" "a = limit (first_mcb s) xs" "w \<noteq> 0"
    "(a, w, z) \<in> allocated (first_mcb s) (xs @ (w, z) # ys)"
proof -
  obtain bs where bs: "mm_inv s bs" "(a, w, z) \<in> allocated (first_mcb s) bs" using assms by (auto simp: owns_def)
  obtain xs ys where "bs = xs @ (w, z) # ys" "a = limit (first_mcb s) xs" "w \<noteq> 0"
    using bs(2) by (rule allocated_split)
  then show ?thesis using that bs by blast
qed

lemma mm_step_ok: "mm_step s t \<Longrightarrow> mm_ok s \<Longrightarrow> mm_ok t"
proof (induction rule: mm_step.induct)
  case (alloc sz mode para asize s rc para' asize' s')
  then show ?case using DosMemAlloc_cu_psp by metis
next
  case (free s a w z rc s')
  obtain xs ys where o: "mm_inv s (xs @ (w, z) # ys)" "a = limit (first_mcb s) xs"
      "(a, w, z) \<in> allocated (first_mcb s) (xs @ (w, z) # ys)" using free owns_split by metis
  obtain m' where m': "DosMemFree a s = (SUCCESS, s\<lparr>mem := m'\<rparr>)"
      "becomes (mem s) (first_mcb s) (xs @ (w, z) # ys) a 0 z m' (xs @ (0, z) # ys)"
    using DosMemFree_becomes o by (metis mm_inv_def)
  have "mm_inv (s\<lparr>mem := m'\<rparr>) (xs @ (0, z) # ys)" by (rule becomes_inv [OF o(1,3) free(2) m'(2)])
  then show ?case using free m'(1) by (auto simp: mm_ok_def)
next
  case (change s para w z sz ms rc ms' s')
  let ?a = "para - 1"
  obtain xs ys where o: "mm_inv s (xs @ (w, z) # ys)" "?a = limit (first_mcb s) xs"
      "(?a, w, z) \<in> allocated (first_mcb s) (xs @ (w, z) # ys)" using change owns_split by metis
  have "arena (mem s) (first_mcb s) (xs @ (w, z) # ys)" using o(1) by (simp add: mm_inv_def)
  from DosMemChange_becomes [OF this o(2) refl, of sz ms]
  obtain m' bs' v y where m': "s' = s\<lparr>mem := m'\<rparr>"
      "becomes (mem s) (first_mcb s) (xs @ (w, z) # ys) ?a v y m' bs'"
    using change(3) by (auto split: if_splits)
  have "mm_inv s' bs'" using becomes_inv [OF o(1,3) change(2) m'(2)] m'(1) by simp
  then show ?case using change m'(1) by (auto simp: mm_ok_def)
next
  case (switch psp s)
  then show ?case by (auto simp: mm_ok_def mm_inv_def umb_linked_def)
qed

interpretation mm_run: step_invariant mm_step mm_ok
  by unfold_locales (rule mm_step_ok)

lemma allocated_pairwise:
  assumes "fits p bs" "(a, w, z) \<in> allocated p bs" "(b, v, y) \<in> allocated p bs" "a \<noteq> b"
  shows "paras a z \<inter> paras b y = {}"
proof -
  obtain xs ys where bs: "bs = xs @ (w, z) # ys" "a = limit p xs" "w \<noteq> 0" using assms(2) by (rule allocated_split)
  have "(b, v, y) \<in> allocated p xs \<union> allocated (nxtMCBsize (limit p xs) (snd (w, z))) ys"
    using assms(3,4) bs by (auto simp: allocated_middle)
  then have "paras b y \<inter> paras (limit p xs) (snd (w, z)) = {}"
    by (rule allocated_disjoint [OF assms(1) [unfolded bs(1)]])
  then show ?thesis using bs(2) by auto
qed

text \<open>
  C1. Memory safety of every run: from a well-formed memory, after any sequence of allocations,
  releases, resizes and process switches the chain is intact (\<^verbatim>\<open>DosMemCheck\<close> succeeds)
  and no two allocated blocks share a paragraph.
\<close>

theorem mm_run_safe:
  assumes "mm_step\<^sup>*\<^sup>* s t" and "mm_inv s bs" and "cu_psp s \<noteq> 0"
  shows "DosMemCheck t = Some SUCCESS \<and>
    (\<exists>cs. mm_inv t cs \<and>
       (\<forall>a w z b v y. (a, w, z) \<in> allocated (first_mcb t) cs \<and> (b, v, y) \<in> allocated (first_mcb t) cs \<and> a \<noteq> b \<longrightarrow>
          paras a z \<inter> paras b y = {}))"
proof -
  have "mm_ok t" using mm_run.run_inv [OF assms(1)] assms(2,3) by (auto simp: mm_ok_def)
  then obtain cs where cs: "mm_inv t cs" by (auto simp: mm_ok_def)
  then have ar: "arena (mem t) (first_mcb t) cs" by (simp add: mm_inv_def)
  then have ft: "fits (first_mcb t) cs" by (simp add: arena_def)
  have "DosMemCheck t = Some SUCCESS" using mem_check_arena [OF ar] by (simp add: DosMemCheck_def)
  moreover have "paras a z \<inter> paras b y = {}"
    if "(a, w, z) \<in> allocated (first_mcb t) cs" "(b, v, y) \<in> allocated (first_mcb t) cs" "a \<noteq> b" for a w z b v y
    using allocated_pairwise [OF ft that] .
  ultimately show ?thesis using cs by blast
qed

theorem mm_run_safe_witness: "DosMemCheck (demo_mm\<lparr>cu_psp := 0x2000\<rparr>) = Some SUCCESS"
proof -
  have "mm_step\<^sup>*\<^sup>* demo_mm (demo_mm\<lparr>cu_psp := 0x2000\<rparr>)" by (intro r_into_rtranclp mm_step.switch) simp
  moreover have "cu_psp demo_mm \<noteq> 0" by (simp add: demo_mm_def)
  ultimately show ?thesis using mm_run_safe [OF _ demo_inv] by blast
qed

section \<open>Upper memory and the end of a process\<close>

text \<open>
  Upper memory that is present but not linked: the low chain ends at the MCB in front of the root of
  the upper chain.
\<close>

definition umb_apart :: "mm \<Rightarrow> block list \<Rightarrow> block list \<Rightarrow> bool" where
  "umb_apart s lo hi \<longleftrightarrow> uppermem_root s \<noteq> 0xffff \<and> uppermem_link s = 0 \<and>
     arena (mem s) (first_mcb s) lo \<and> arena (mem s) (uppermem_root s) hi \<and>
     uppermem_root s = limit (first_mcb s) lo \<and> unat (first_mcb s) + span lo + span hi \<le> 65536"

lemma headers_set_type:
  assumes "fits p (xs @ [b])" "headers m p (xs @ [b]) t"
  shows "headers (m(limit p xs := (m (limit p xs))\<lparr>m_type := t'\<rparr>)) p (xs @ [b]) t'"
proof -
  let ?m = "m(limit p xs := (m (limit p xs))\<lparr>m_type := t'\<rparr>)"
  have "fits p xs" using assms(1) by (simp add: fits_def)
  have lt: "unat (limit p xs) = unat p + span xs" using unat_limit(1) [OF assms(1)] by simp
  have "headers ?m p xs MCB_NORMAL = headers m p xs MCB_NORMAL"
    by (rule headers_frame [OF \<open>fits p xs\<close>]) (use lt in auto)
  then show ?thesis using assms(2) by (simp add: headers_append)
qed

lemma umb_link_step:
  assumes "umb_apart s lo hi"
  shows "\<exists>xs b m1. lo = xs @ [b] \<and> m1 = (mem s)(limit (first_mcb s) xs := (mem s (limit (first_mcb s) xs))\<lparr>m_type := MCB_NORMAL\<rparr>) \<and>
    m_type (mem s (limit (first_mcb s) xs)) = MCB_LAST \<and>
    DosUmbLink q0 1 s = Some (s\<lparr>mem := m1, uppermem_link := 1\<rparr>) \<and> arena m1 (first_mcb s) (lo @ hi)"
proof -
  let ?p = "first_mcb s" and ?r = "uppermem_root s"
  have lo: "arena (mem s) ?p lo" and hi: "arena (mem s) ?r hi" and r: "?r = limit ?p lo" "?r \<noteq> 0xffff"
      and link: "uppermem_link s = 0" and sp: "unat ?p + span lo + span hi \<le> 65536"
    using assms by (auto simp: umb_apart_def)
  obtain xs b where xb: "lo = xs @ [b]" using lo by (cases lo rule: rev_cases) (auto simp: arena_def)
  let ?q = "limit ?p xs"
  define m1 where "m1 = (mem s)(?q := (mem s ?q)\<lparr>m_type := MCB_NORMAL\<rparr>)"
  have ftlo: "fits ?p lo" and nz: "?p \<noteq> 0" using lo by (auto simp: arena_def fits_def)
  have ft: "fits ?p (lo @ hi)" using sp nz by (simp add: fits_def)
  have hine: "hi \<noteq> []" using hi by (simp add: arena_def)
  have ur: "unat ?r = unat ?p + span lo" using unat_limit(1) [OF ft hine] r(1) by simp
  have uq: "unat ?q = unat ?p + span xs" using unat_limit(1) [of ?p xs "[b]"] ftlo xb by simp
  have notin: "?r \<notin> fst ` set (addrs ?p lo)"
  proof
    assume "?r \<in> fst ` set (addrs ?p lo)"
    then obtain w z where "(?r, w, z) \<in> set (addrs ?p lo)" by force
    then show False using addrs_range [OF ftlo] ur by fastforce
  qed
  have last: "m_type (mem s ?q) = MCB_LAST" using arena_valid(5) [of "mem s" ?p xs b "[]"] lo xb by simp
  obtain q' where "umb_walk ?r ?p q0 (mem s) = Some (Some (?q, q'))"
    using umb_walk_unlinked [of "mem s" ?p xs b ?r q0] lo notin xb by auto
  then have l: "DosUmbLink q0 1 s = Some (s\<lparr>mem := m1, uppermem_link := 1\<rparr>)"
    using r(2) link last by (simp add: DosUmbLink_def m1_def Let_def)
  have "headers m1 ?p lo MCB_NORMAL"
    using headers_set_type [of ?p xs b "mem s" MCB_LAST MCB_NORMAL] lo xb by (simp add: arena_def m1_def)
  moreover have "headers m1 ?r hi MCB_LAST = headers (mem s) ?r hi MCB_LAST"
    using hi ur uq xb by (intro headers_frame) (auto simp: arena_def m1_def)
  ultimately have "arena m1 ?p (lo @ hi)"
    using hi r(1) ft hine by (simp add: arena_def headers_append)
  then show ?thesis using l xb m1_def last by blast
qed

lemma umb_unlink_step:
  assumes ar: "arena (mem s) (first_mcb s) ((xs @ [b]) @ hi)" and hi: "hi \<noteq> []"
    and r: "uppermem_root s = limit (first_mcb s) (xs @ [b])" "uppermem_root s \<noteq> 0xffff" and link: "uppermem_link s = 1"
  shows "DosUmbLink q0 0 s = Some (s\<lparr>mem := (mem s)(limit (first_mcb s) xs :=
      (mem s (limit (first_mcb s) xs))\<lparr>m_type := MCB_LAST\<rparr>), uppermem_link := 0\<rparr>)"
proof -
  let ?p = "first_mcb s"
  have ar': "arena (mem s) ?p (xs @ b # hi)" using ar by simp
  have "umb_walk (uppermem_root s) ?p q0 (mem s) = Some (Some (uppermem_root s, limit ?p xs))"
    using umb_walk_linked [OF ar' hi, of q0] r(1) by simp
  moreover have "m_type (mem s (limit ?p xs)) = MCB_NORMAL" using arena_valid(5) [OF ar'] hi by simp
  ultimately show ?thesis using r(2) link by (simp add: DosUmbLink_def Let_def)
qed

text \<open>
  C7. Linking upper memory joins the two chains into one arena over the same blocks, and unlinking
  it again restores exactly the state before.
\<close>

theorem DosUmbLink_roundtrip:
  assumes "umb_apart s lo hi"
  shows "\<exists>s1. DosUmbLink q0 1 s = Some s1 \<and> uppermem_link s1 = 1 \<and>
    arena (mem s1) (first_mcb s) (lo @ hi) \<and> DosUmbLink q1 0 s1 = Some s"
proof -
  obtain xs b m1 where x: "lo = xs @ [b]"
      "m1 = (mem s)(limit (first_mcb s) xs := (mem s (limit (first_mcb s) xs))\<lparr>m_type := MCB_NORMAL\<rparr>)"
      "m_type (mem s (limit (first_mcb s) xs)) = MCB_LAST"
      "DosUmbLink q0 1 s = Some (s\<lparr>mem := m1, uppermem_link := 1\<rparr>)" "arena m1 (first_mcb s) (lo @ hi)"
    using umb_link_step [OF assms] by blast
  let ?s1 = "s\<lparr>mem := m1, uppermem_link := 1\<rparr>"
  have "DosUmbLink q1 0 ?s1 = Some (?s1\<lparr>mem := m1(limit (first_mcb s) xs :=
      (m1 (limit (first_mcb s) xs))\<lparr>m_type := MCB_LAST\<rparr>), uppermem_link := 0\<rparr>)"
  proof -
    have "arena (mem ?s1) (first_mcb ?s1) ((xs @ [b]) @ hi)" "hi \<noteq> []"
        "uppermem_root ?s1 = limit (first_mcb ?s1) (xs @ [b])" "uppermem_root ?s1 \<noteq> 0xffff" "uppermem_link ?s1 = 1"
      using x(1,5) assms by (auto simp: umb_apart_def arena_def)
    from umb_unlink_step [OF this, of q1] show ?thesis by simp
  qed
  moreover have "(mem s (limit (first_mcb s) xs))\<lparr>m_type := MCB_LAST\<rparr> = mem s (limit (first_mcb s) xs)"
    using x(3) by (metis (no_types) mcb.surjective mcb.update_convs(1))
  ultimately have "DosUmbLink q1 0 ?s1 = Some (s\<lparr>mem := mem s, uppermem_link := uppermem_link s\<rparr>)"
    using x(2) assms by (simp add: umb_apart_def fun_upd_idem)
  then show ?thesis using x(4,5) by simp
qed

definition demo_umb :: mm where
  "demo_umb = \<lparr>mem = (\<lambda>_. mcb_of 0 0 0)
       (0x1000 := mcb_of MCB_NORMAL 0x1234 0x10, 0x1011 := mcb_of MCB_LAST 8 0x20,
        0x1032 := mcb_of MCB_NORMAL 0x1234 5, 0x1038 := mcb_of MCB_LAST 0 7),
     first_mcb = 0x1000, uppermem_root = 0x1032, uppermem_link = 0, mem_access_mode = 0,
     cu_psp = 0x1234\<rparr>"

lemma demo_umb_apart: "umb_apart demo_umb [(0x1234, 0x10), (8, 0x20)] [(0x1234, 5), (0, 7)]"
  by (simp add: umb_apart_def demo_umb_def arena_def fits_def mcb_of_def nxtMCBsize_def)

theorem DosUmbLink_roundtrip_witness:
  "\<exists>s1. DosUmbLink 0 1 demo_umb = Some s1 \<and> DosUmbLink 0 0 s1 = Some demo_umb"
  using DosUmbLink_roundtrip [OF demo_umb_apart, of 0 0] by blast




end
