(* ===== verification/CallProps.thy ===== *)
theory CallProps
  imports HandleProps FileProps MemSafety
begin

text \<open>
  The calls that put components together: the free space of a drive, which \<^verbatim>\<open>DosGetFree\<close> takes from the file
  allocation table and makes fit into sixteen bits, and the table of handles, for which \<^verbatim>\<open>SetJFTSize\<close> gets memory
  from the arena.
\<close>

section \<open>Free space\<close>

lemma shift_free_spec:
  assumes "shift_free cs spc nt nf = (spc', nt', nf')" "unat cs = 512 * unat spc" "0 < unat spc"
  shows "\<exists>k. unat spc' = unat spc * 2 ^ k \<and> unat nt' = unat nt div 2 ^ k \<and> unat nf' = unat nf div 2 ^ k \<and> (unat nt' \<le> 65525 \<or> 64 \<le> unat spc')"
  using assms
proof (induction cs spc nt nf rule: shift_free.induct)
  case (1 cs spc nt nf)
  show ?case
  proof (cases "nt > FAT_MAGIC16 \<and> cs < 0x8000")
    case True
    then have c: "unat cs < 0x8000" by (simp add: word_less_nat_alt)
    have "unat (push_bit 1 cs) = 2 * unat cs" "unat (push_bit 1 spc) = 2 * unat spc" using c 1(3) by (simp_all add: push_bit_eq_mult unat_word_ariths)
    moreover have "unat (drop_bit 1 nt) = unat nt div 2" "unat (drop_bit 1 nf) = unat nf div 2" by (simp_all add: drop_bit_eq_div unat_div)
    ultimately have d: "unat (push_bit 1 cs) = 2 * unat cs" "unat (push_bit 1 spc) = 2 * unat spc" "unat (drop_bit 1 nt) = unat nt div 2"
      "unat (drop_bit 1 nf) = unat nf div 2" by simp_all
    have s: "shift_free (push_bit 1 cs) (push_bit 1 spc) (drop_bit 1 nt) (drop_bit 1 nf) = (spc', nt', nf')"
      using 1(2) True by (subst (asm) shift_free.simps) simp
    obtain k where k: "unat spc' = unat (push_bit 1 spc) * 2 ^ k" "unat nt' = unat (drop_bit 1 nt) div 2 ^ k" "unat nf' = unat (drop_bit 1 nf) div 2 ^ k"
      "unat nt' \<le> 65525 \<or> 64 \<le> unat spc'"
      using 1(1) [OF True s] 1(3,4) d by auto
    show ?thesis using k d by (intro exI [of _ "Suc k"]) (simp add: div_mult2_eq)
  next
    case False
    then have e: "spc' = spc" "nt' = nt" "nf' = nf" using 1(2) by (subst (asm) shift_free.simps, simp)+
    have "unat nt \<le> 65525 \<or> 64 \<le> unat spc" using False 1(3) by (auto simp: word_less_nat_alt)
    then show ?thesis unfolding e by (intro exI [of _ 0]) simp
  qed
qed

lemma u8_below: "unat x < 256" for x :: u8
  using unsigned_less [of x] by simp

lemma unat_clip16: "unat (clip16 n) = min 65525 (unat n)"
  by (auto simp: clip16_def word_less_nat_alt unat_ucast_u16)

lemma unat_double16: "unat (double16 n) = (if unat n < 32762 then 2 * unat n else 65525)"
  by (auto simp: double16_def word_less_nat_alt push_bit_eq_mult unat_word_ariths)

lemma shift_free_clipped:
  assumes "shift_free (push_bit sh 512) spc nt nf = (spc', nt', nf')" "unat spc = c" "c = 2 ^ sh" "c \<le> 256" "unat nt = t" "unat nf = n" "n \<le> t"
  shows "clip16 nf' \<le> clip16 nt' \<and> (\<exists>k. unat spc' = c * 2 ^ k \<and> unat (clip16 nf') = min 65525 (n div 2 ^ k) \<and>
    unat (clip16 nt') = min 65525 (t div 2 ^ k) \<and> (t div 2 ^ k \<le> 65525 \<or> 64 \<le> unat spc'))"
proof -
  have "push_bit sh (512 :: u32) = of_nat (512 * c)" unfolding assms(3) by (simp add: push_bit_eq_mult)
  then have "unat (push_bit sh (512 :: u32)) = 512 * unat spc" using assms(2,4) unat_of_nat_u32 [of "512 * c"] by simp
  then obtain k where k: "unat spc' = c * 2 ^ k" "unat nt' = t div 2 ^ k" "unat nf' = n div 2 ^ k" "unat nt' \<le> 65525 \<or> 64 \<le> unat spc'"
    using shift_free_spec [OF assms(1)] assms(2,3) unfolding assms(5,6) by auto
  then show ?thesis using div_le_mono [OF assms(7), of "2 ^ k"] by (auto simp: word_le_nat_alt unat_clip16)
qed

lemma halved_clusters:
  fixes spc :: u16
  assumes "unat spc = c" "unat navc = n" "unat nc = t" "n \<le> t" "t \<le> 65525"
  shows "\<exists>spc' navc' nc'. (if spc > 64 then (drop_bit 1 spc, double16 navc, x, double16 nc) else (spc, navc, x, nc)) = (spc', navc', x, nc') \<and>
    navc' \<le> nc' \<and> unat nc' \<le> 65525 \<and>
    (if c \<le> 64 then unat spc' = c \<and> unat navc' = n \<and> unat nc' = t
     else unat spc' = c div 2 \<and> unat navc' = (if n < 32762 then 2 * n else 65525) \<and> unat nc' = (if t < 32762 then 2 * t else 65525))"
proof (cases "c \<le> 64")
  case True
  then have "\<not> spc > 64" using assms(1) by (simp add: word_less_nat_alt)
  then show ?thesis using True assms by (simp add: word_le_nat_alt)
next
  case False
  then have "spc > 64" "unat (drop_bit 1 spc) = c div 2" using assms(1) by (simp_all add: word_less_nat_alt drop_bit_eq_div unat_div)
  then show ?thesis using False assms by (simp add: word_le_nat_alt unat_double16)
qed

text \<open>
  C40. What \<^verbatim>\<open>DosGetFree\<close> reports of a local drive, next to the free clusters \<^verbatim>\<open>n\<close> and all clusters \<^verbatim>\<open>t\<close> of the table. On FAT12 and
  FAT16 with at most 64 sectors in a cluster the numbers are exact. Larger clusters are reported as two of half the
  size, as long as the number fits. On FAT32 clusters are joined in powers of two, as many times as are needed for
  the number of clusters to fit or the size to be 32K, and the numbers are cut off at 65525. There are never more
  free clusters than clusters.
\<close>

theorem local_free_reports:
  assumes "vol_ok P D U M dpbp d s" "hint_ok (dpbs s dpbp)" "2 \<le> max_cluster d" "free_count_ok D dpbp s"
    "unat (dpb_clsmask d) + 1 = 2 ^ unat (dpb_shftcnt d)"
    "n = card (free_set D dpbp s)" "t = unat (max_cluster d) - 1" "c = unat (dpb_clsmask d) + 1"
  shows "\<exists>spc navc nc s'. local_free P True dpbp s = Some ((spc, navc, 512, nc), s') \<and> navc \<le> nc \<and> unat nc \<le> 65525 \<and>
    (if ISFAT32 d then
       \<exists>k. unat spc = c * 2 ^ k \<and> unat navc = min 65525 (n div 2 ^ k) \<and> unat nc = min 65525 (t div 2 ^ k) \<and> (t div 2 ^ k \<le> 65525 \<or> 64 \<le> unat spc)
     else if c \<le> 64 then unat spc = c \<and> unat navc = n \<and> unat nc = t
     else unat spc = c div 2 \<and> unat navc = (if n < 32762 then 2 * n else 65525) \<and> unat nc = (if t < 32762 then 2 * t else 65525))"
proof -
  obtain n' s' where f: "dos_free P dpbp s = Some (n', s')" "unat n' = n" "fat_to P D U M dpbp d s (entry_of D dpbp s) s'"
    using dos_free_ok [OF assms(1-4)] assms(6) by auto
  define e where "e = dpbs s dpbp"
  have st: "dpb_static e = dpb_static d" "dpb_static (dpbs s' dpbp) = dpb_static d"
    using vol_static [OF assms(1)] vol_static [OF fat_toD(1) [OF f(3)]] by (simp_all add: e_def)
  have e: "dpb_secsize e = 512" "dpb_clsmask e = dpb_clsmask d" "dpb_shftcnt e = dpb_shftcnt d" "dpb_size (dpbs s' dpbp) = dpb_size d" "dpb_xsize e = dpb_xsize d"
    "ISFAT32 e = ISFAT32 d" using dpb_static_eq [OF st(1)] dpb_static_eq [OF st(2)] fat_static(3) [OF st(1)] assms(1)
    by (simp_all add: vol_ok_def volume_def Let_def e_def)
  define spc where "spc = (ucast (dpb_clsmask d) + 1 :: u16)"
  have spc: "unat spc = c" using assms(8) u8_below [of "dpb_clsmask d"] by (simp add: spc_def unat_word_ariths unat_ucast_u8)
  have "card {c. legal_cluster d c \<and> entry_of D dpbp s c = FREE} \<le> card {c. legal_cluster d c}" by (rule card_mono) auto
  then have nt: "n \<le> t" using card_legal [of d] by (simp add: assms(6,7) free_set_vol [OF assms(1)])
  show ?thesis
  proof (cases "ISFAT32 d")
    case True
    obtain spc' nt' nf' where sh: "shift_free (push_bit (unat (dpb_shftcnt d)) 512) spc (dpb_xsize d - 1) n' = (spc', nt', nf')" by (metis prod_cases3)
    have c: "c = 2 ^ unat (dpb_shftcnt d)" "c \<le> 256" using assms(5,8) u8_below [of "dpb_clsmask d"] by simp_all
    have m: "unat (dpb_xsize d - 1) = t" using assms(3,7) True by (simp add: max_cluster_def unat_sub word_le_nat_alt)
    have "local_free P True dpbp s = Some ((spc', clip16 nf', 512, clip16 nt'), s')"
      using True f(1) sh by (simp add: local_free_def e_def [symmetric] e spc_def [symmetric])
    moreover have "unat (clip16 nt') \<le> 65525" by (simp add: unat_clip16)
    ultimately show ?thesis unfolding if_P [OF True] using shift_free_clipped [OF sh spc c m f(2) nt] by blast
  next
    case False
    have m: "unat (dpb_size d - 1) = t" using assms(3,7) False by (simp add: max_cluster_def unat_sub word_le_nat_alt unat_ucast_u32)
    then have "t < 65536" using unat_u16_less [of "dpb_size d - 1"] by metis
    have nf: "unat (ucast n' :: u16) = n" using f(2) nt \<open>t < 65536\<close> by (simp add: unat_ucast_u16)
    have "ISFAT12 d \<or> ISFAT16 d" using False assms(1) fat_static(1-3) [OF st(1)] by (simp add: vol_ok_def volume_def Let_def e_def)
    then have t: "t \<le> 65525" using m assms(3) False
      by (auto simp: ISFAT12_def ISFAT16_def word_less_nat_alt word_le_nat_alt max_cluster_def unat_sub unat_ucast_u32)
    have "local_free P True dpbp s = Some (if spc > 64 then (drop_bit 1 spc, double16 (ucast n'), 512, double16 (dpb_size d - 1))
        else (spc, ucast n', 512, dpb_size d - 1), s')"
      using False f(1) by (simp add: local_free_def e_def [symmetric] e spc_def [symmetric] Let_def)
    moreover obtain spc' navc' nc' where h: "(if spc > 64 then (drop_bit 1 spc, double16 (ucast n'), 512, double16 (dpb_size d - 1))
        else (spc, ucast n', 512 :: u16, dpb_size d - 1)) = (spc', navc', 512, nc')" "navc' \<le> nc'" "unat nc' \<le> 65525"
      "if c \<le> 64 then unat spc' = c \<and> unat navc' = n \<and> unat nc' = t
       else unat spc' = c div 2 \<and> unat navc' = (if n < 32762 then 2 * n else 65525) \<and> unat nc' = (if t < 32762 then 2 * t else 65525)"
      using halved_clusters [OF spc nf m nt t, of 512] by blast
    ultimately have "local_free P True dpbp s = Some ((spc', navc', 512, nc'), s')" by simp
    then show ?thesis unfolding if_not_P [OF False] using h(2-4) by blast
  qed
qed

text \<open>The witness: the empty volume with four clusters of one sector.\<close>

theorem local_free_reports_witness:
  "\<forall>x :: ram job. \<exists>spc navc nc s'. local_free ram_disk True 1 (kst.extend demo_vol (kst.more x)) = Some ((spc, navc, 512, nc), s') \<and>
    navc \<le> nc \<and> unat spc = 1 \<and> unat nc = 4"
proof
  fix x :: "ram job"
  let ?s = "kst.extend demo_vol (kst.more x)"
  have T: "kst.truncate ?s = kst.truncate demo_vol" by (simp add: kst.truncate_def kst.extend_def)
  note T = truncate_same [OF T]
  have c: "unat (dpb_clsmask demo_vdpb) + 1 = 2 ^ unat (dpb_shftcnt demo_vdpb)" "unat (dpb_clsmask demo_vdpb) + 1 = 1"
    by (simp_all add: demo_vol_def demo_dpb_def)
  have "vol_ok ram_disk demo_io {0} demo_copies 1 demo_vdpb ?s" "hint_ok (dpbs ?s 1)" "free_count_ok demo_io 1 ?s"
    using demo_vol_ok demo_hint(1) demo_free_count by (simp_all add: T)
  note L = local_free_reports [OF this(1,2) demo_hint(2) this(3) c(1) refl refl refl, unfolded c(2) if_not_P [OF demo_vdpb_fields(3)]]
  have "(1 :: nat) \<le> 64" "unat (max_cluster demo_vdpb) - 1 = 4" by (simp_all add: demo_vdpb_fields)
  then show "\<exists>spc navc nc s'. local_free ram_disk True 1 ?s = Some ((spc, navc, 512, nc), s') \<and> navc \<le> nc \<and> unat spc = 1 \<and> unat nc = 4"
    using L unfolding if_P [OF \<open>(1 :: nat) \<le> 64\<close>] by metis
qed

text \<open>With large clusters and exactly 32762 of them free, half a cluster more is reported than there is.\<close>

lemma double16_one_more: "64 * unat (double16 32762) = 128 * 32762 + 64"
  by (simp add: unat_double16)

section \<open>The table of handles\<close>




text \<open>The sum that wraps around: a table of FFF1h handles gets a block of no paragraphs.\<close>

lemma table_paragraphs_wrap: "drop_bit 4 (0xfff1 + 0xf :: u16) = 0"
  by simp

end
