(* ===== verification/Console.thy ===== *)
theory Console
  imports Handles
begin

text \<open>
  Character input and output: \<^verbatim>\<open>kernel/chario.c\<close> and \<^verbatim>\<open>kernel/break.c\<close>, and \<^verbatim>\<open>DosRWSft\<close> of \<^verbatim>\<open>kernel/dosfns.c\<close>, the read and write
  of a handle.

  \<^verbatim>\<open>handle_break\<close> ends in interrupt 23h and does not return to its callers, so for them its value is
  \<^const>\<open>None\<close>; the definition gives the state in which the interrupt is entered. The recursion of the code is only
  through the echo to the printer, which goes back to \<^verbatim>\<open>DosRWSft\<close>: \<^verbatim>\<open>DosRWSft_body\<close> has the calls for cooked devices as
  arguments, and \<^verbatim>\<open>cooked_write\<close> closes the loop.
\<close>

section \<open>State\<close>

text \<open>
  What is outside: the flag of the BIOS for Ctrl-Break at 40:71, the idle interrupt, interrupt 29h for fast output, reads and
  writes of redirected files, and the lock check of SHARE.
\<close>

record 'w console = "'w net" +
  CB_FLG :: "'w \<Rightarrow> bool \<times> 'w"
  CB_reset :: "'w \<Rightarrow> 'w"
  DosIdle_int :: "'w \<Rightarrow> 'w"
  fast_put_char :: "u8 \<Rightarrow> 'w \<Rightarrow> 'w"
  remote_rw :: "u16 \<Rightarrow> sft \<Rightarrow> u32 \<Rightarrow> u16 \<Rightarrow> bytes \<Rightarrow> 'w \<Rightarrow> int \<times> sft \<times> bytes \<times> 'w"
  share_access_check :: "u16 \<Rightarrow> u16 \<Rightarrow> u32 \<Rightarrow> u32 \<Rightarrow> 'w \<Rightarrow> int \<times> 'w"

text \<open>
  The line buffers. \<^verbatim>\<open>local_buffer\<close> is declared with 256 bytes, but only 128 are reserved for it: behind them is \<^verbatim>\<open>kb_buf\<close>, the
  buffer for lines of handles with its size, its count and its characters (\<^verbatim>\<open>kernel.asm\<close>). \<^verbatim>\<open>linemem\<close> is this memory,
  with \<^verbatim>\<open>local_buffer\<close> at 0 and \<^verbatim>\<open>kb_buf\<close> at 128, and \<^verbatim>\<open>user_kb\<close> the buffer of a program. \<^verbatim>\<open>ds_mem\<close> is the data segment of
  the kernel, and \<^verbatim>\<open>junk_c\<close> what a local variable holds that is not initialised.
\<close>

record 'w tty = "'w job" +
  scr_pos :: u8
  PrinterEcho :: u8
  linemem :: "nat \<Rightarrow> u8"
  user_kb :: "nat \<Rightarrow> u8"
  inputptr :: "nat option"
  syscon :: u32
  InDOS :: u8
  ErrorMode :: u8
  user_AH :: u8
  current_filepos :: u32
  ds_mem :: "u16 \<Rightarrow> u8"
  junk_c :: u16

abbreviation (input) S_BUSY :: u16 where "S_BUSY \<equiv> 0x0200"
abbreviation (input) C_NDREAD :: u8 where "C_NDREAD \<equiv> 5"
abbreviation (input) C_ISTAT :: u8 where "C_ISTAT \<equiv> 6"
abbreviation (input) C_IFLUSH :: u8 where "C_IFLUSH \<equiv> 7"
abbreviation (input) XFR_FORCE_WRITE :: int where "XFR_FORCE_WRITE \<equiv> 3"
abbreviation (input) SFT_FBINARY :: u16 where "SFT_FBINARY \<equiv> 0x0020"
abbreviation (input) SFT_FNUL :: u16 where "SFT_FNUL \<equiv> 0x0004"
abbreviation (input) SFT_FCONOUT :: u16 where "SFT_FCONOUT \<equiv> 0x0002"
abbreviation (input) SFT_FCONIN :: u16 where "SFT_FCONIN \<equiv> 0x0001"
abbreviation (input) STDIN :: u16 where "STDIN \<equiv> 0"
abbreviation (input) STDOUT :: u16 where "STDOUT \<equiv> 1"
abbreviation (input) STDAUX :: u16 where "STDAUX \<equiv> 3"
abbreviation (input) STDPRN :: u16 where "STDPRN \<equiv> 4"
abbreviation (input) CTL_C :: "'n::len word" where "CTL_C \<equiv> 0x03"
abbreviation (input) CTL_F :: "'n::len word" where "CTL_F \<equiv> 0x06"
abbreviation (input) BELL :: "'n::len word" where "BELL \<equiv> 0x07"
abbreviation (input) BS :: "'n::len word" where "BS \<equiv> 0x08"
abbreviation (input) HT :: "'n::len word" where "HT \<equiv> 0x09"
abbreviation (input) LF :: "'n::len word" where "LF \<equiv> 0x0a"
abbreviation (input) CR :: "'n::len word" where "CR \<equiv> 0x0d"
abbreviation (input) CTL_S :: "'n::len word" where "CTL_S \<equiv> 0x13"
abbreviation (input) CTL_Z :: "'n::len word" where "CTL_Z \<equiv> 0x1a"
abbreviation (input) ESC :: "'n::len word" where "ESC \<equiv> 0x1b"
abbreviation (input) CTL_BS :: "'n::len word" where "CTL_BS \<equiv> 0x7f"
abbreviation (input) INS :: u16 where "INS \<equiv> 0x5200"
abbreviation (input) DEL :: u16 where "DEL \<equiv> 0x5300"
abbreviation (input) F1 :: u16 where "F1 \<equiv> 0x3b00"
abbreviation (input) F2 :: u16 where "F2 \<equiv> 0x3c00"
abbreviation (input) F3 :: u16 where "F3 \<equiv> 0x3d00"
abbreviation (input) F4 :: u16 where "F4 \<equiv> 0x3e00"
abbreviation (input) F5 :: u16 where "F5 \<equiv> 0x3f00"
abbreviation (input) F6 :: u16 where "F6 \<equiv> 0x4000"
abbreviation (input) LEFT :: u16 where "LEFT \<equiv> 0x4b00"
abbreviation (input) RIGHT :: u16 where "RIGHT \<equiv> 0x4d00"

section \<open>Requests\<close>

definition CharIO :: "'w platform \<Rightarrow> u32 \<Rightarrow> u8 \<Rightarrow> u8 \<Rightarrow> ('w, 'a) dos_scheme \<Rightarrow> (int \<times> ('w, 'a) dos_scheme) option" where
  "CharIO P dev ch command s =
     do {
       (err, buf, s1) \<leftarrow> BinaryCharIO P dev 1 (\<lambda>_. ch) command s;
       Some (if err = 0 then 256 else if err < 0 then err else uint (buf 0), s1)
     }"

text \<open>Commands without a transfer; the drivers do not use the transfer address then.\<close>

partial_function (option) CharCmd :: "'w platform \<Rightarrow> u32 \<Rightarrow> u8 \<Rightarrow> ('w, 'a) dos_scheme \<Rightarrow> ('w, 'a) dos_scheme option" where
  "CharCmd P dev command s =
     do {
       (r, _, s1) \<leftarrow> CharRequest P dev command (\<lambda>_. 0) s;
       if r = 1 then CharCmd P dev command s1 else Some s1
     }"

definition Busy :: "'w platform \<Rightarrow> u32 \<Rightarrow> ('w, 'a) dos_scheme \<Rightarrow> (bool \<times> ('w, 'a) dos_scheme) option" where
  "Busy P dev s =
     do {
       s1 \<leftarrow> CharCmd P dev C_NDREAD s;
       s2 \<leftarrow> (if r_status (CharReqHdr s1) AND S_ERROR \<noteq> 0 then CharCmd P dev C_ISTAT s1 else Some s1);
       Some (r_status (CharReqHdr s2) AND S_BUSY \<noteq> 0, s2)
     }"

definition con_flush :: "'w platform \<Rightarrow> u32 \<Rightarrow> ('w, 'a) dos_scheme \<Rightarrow> ('w, 'a) dos_scheme option" where
  "con_flush P dev s = CharCmd P dev C_IFLUSH s"

text \<open>A device, or \<^const>\<open>None\<close> for an entry that is no device.\<close>

definition sft_to_dev :: "(nat \<times> nat) option \<Rightarrow> ('w, 'a) tty_scheme \<Rightarrow> u32 option" where
  "sft_to_dev q s =
     (case q of
        None \<Rightarrow> Some (syscon s)
      | Some p \<Rightarrow> if sft_flags (sft_at p s) AND SFT_FDEVICE \<noteq> 0 then Some (sft_dcb (sft_at p s)) else None)"

definition StdinBusy :: "'w platform \<Rightarrow> ('w, 'a) tty_scheme \<Rightarrow> (bool \<times> ('w, 'a) tty_scheme) option" where
  "StdinBusy P s =
     (let (q, s1) = get_sft STDIN s in
      case sft_to_dev q s1 of
        Some dev \<Rightarrow> Busy P dev s1
      | None \<Rightarrow> (case q of None \<Rightarrow> None | Some p \<Rightarrow> Some (sft_posit (sft_at p s1) \<ge> sft_size (sft_at p s1), s1)))"

text \<open>The byte of a request for a non-destructive read is where the media descriptor is in other requests.\<close>

definition ndread :: "'w platform \<Rightarrow> u32 \<Rightarrow> ('w, 'a) dos_scheme \<Rightarrow> (int \<times> ('w, 'a) dos_scheme) option" where
  "ndread P dev s =
     do {
       s1 \<leftarrow> CharCmd P dev C_NDREAD s;
       Some (if r_status (CharReqHdr s1) AND S_BUSY \<noteq> 0 then -1 else uint (r_meddesc (CharReqHdr s1)), s1)
     }"

section \<open>Break\<close>

definition ctrl_break_pressed :: "('w, 'v) console_scheme \<Rightarrow> ('w, 'a) tty_scheme \<Rightarrow> bool \<times> ('w, 'a) tty_scheme" where
  "ctrl_break_pressed V s = (let (b, w) = CB_FLG V (world s) in (b, s\<lparr>world := w\<rparr>))"

definition check_handle_break ::
  "'w platform \<Rightarrow> ('w, 'v) console_scheme \<Rightarrow> u32 \<Rightarrow> ('w, 'a) tty_scheme \<Rightarrow> (u8 \<times> ('w, 'a) tty_scheme) option" where
  "check_handle_break P V dev s =
     do {
       let (b, s1) = ctrl_break_pressed V s;
       (c, s2) \<leftarrow> (if \<not> b then do { (r, s2) \<leftarrow> ndread P (syscon s1) s1; Some (word_of_int r, s2) } else Some (CTL_C :: u8, s1));
       (c, s3) \<leftarrow> (if c \<noteq> CTL_C \<and> dev \<noteq> syscon s2 then do { (r, s3) \<leftarrow> ndread P dev s2; Some (word_of_int r, s3) } else Some (c, s2));
       if c = CTL_C then None else Some (c, s3)
     }"

section \<open>Characters from a device or a file\<close>

text \<open>
  \<^verbatim>\<open>DosRWSft\<close>, with the reads of lines and the writes of cooked devices as arguments. \<^verbatim>\<open>ptr\<close> is the address of the buffer
  and \<^verbatim>\<open>buf\<close> its bytes. The test for the end of file reads the first byte through a near pointer, from the data segment of
  the kernel.
\<close>

definition update_scr_pos :: "u8 \<Rightarrow> u8 \<Rightarrow> ('w, 'a) tty_scheme \<Rightarrow> ('w, 'a) tty_scheme" where
  "update_scr_pos c count s =
     s\<lparr>scr_pos := (if c = CR then 0 else if c = BS then (if scr_pos s > 0 then scr_pos s - 1 else scr_pos s)
                  else if c \<noteq> LF \<and> c \<noteq> BELL then scr_pos s + count else scr_pos s)\<rparr>"

definition near_char :: "u16 \<times> u16 \<Rightarrow> bytes \<Rightarrow> ('w, 'a) tty_scheme \<Rightarrow> u8" where
  "near_char ptr buf s = (if fst ptr = dos_ds s then buf 0 else ds_mem s (snd ptr))"

definition DosRWSft_body ::
  "(int \<Rightarrow> u32 \<Rightarrow> bool \<Rightarrow> u16 \<Rightarrow> bytes \<Rightarrow> ('w, 'a) tty_scheme \<Rightarrow> (int \<times> bytes \<times> ('w, 'a) tty_scheme) option) \<Rightarrow>
    (u32 \<Rightarrow> u8 list \<Rightarrow> ('w, 'a) tty_scheme \<Rightarrow> (int \<times> ('w, 'a) tty_scheme) option) \<Rightarrow>
    'w platform \<Rightarrow> ('w, 'v) console_scheme \<Rightarrow> int \<Rightarrow> u16 \<Rightarrow> u16 \<times> u16 \<Rightarrow> bytes \<Rightarrow> int \<Rightarrow> ('w, 'a) tty_scheme \<Rightarrow>
    (int \<times> bytes \<times> ('w, 'a) tty_scheme) option" where
  "DosRWSft_body dev_read dev_write P V sft_idx n ptr buf mode0 s =
     (case idx_to_sft sft_idx s of
        (None, s1) \<Rightarrow> Some (DE_INVLDHNDL, buf, s1)
      | (Some p, s1) \<Rightarrow>
          let f = sft_at p s1 in
          if (mode0 = XFR_READ \<and> sft_mode f AND 1 \<noteq> 0) \<or> (mode0 = XFR_WRITE \<and> sft_mode f AND O_ACCMODE = RDONLY)
          then Some (DE_ACCESS, buf, s1)
          else
            let mode = (if mode0 = XFR_FORCE_WRITE then XFR_WRITE else mode0) in
            if sft_flags f AND SFT_FSHARED \<noteq> 0 then
              let s2 = s1\<lparr>lpCurSft := Some p, current_filepos := sft_posit f\<rparr>;
                  (r, f', buf', w) = remote_rw V (if mode = XFR_READ then 0x1108 else 0x1109) f (sft_posit f) n buf (world s2)
              in Some (r, buf', upd_sft p (\<lambda>_. f') (s2\<lparr>world := w\<rparr>))
            else if sft_flags f AND SFT_FDEVICE \<noteq> 0 then
              if sft_flags f AND SFT_FBINARY \<noteq> 0 then
                BinaryCharIO P (sft_dcb f) n buf (if mode = XFR_READ then C_INPUT else C_OUTPUT) s1 \<bind> (\<lambda>(rc, buf', s2).
                Some (rc, buf', if mode = XFR_WRITE \<and> rc > 0 \<and> sft_flags (sft_at p s2) AND SFT_FCONOUT \<noteq> 0
                  then fold (\<lambda>c. update_scr_pos c 1) (map buf' [0..<nat rc]) s2 else s2))
              else if mode = XFR_READ then
                if sft_flags f AND SFT_FEOF = 0 then Some (0, buf, s1)
                else
                  dev_read sft_idx (sft_dcb f) (sft_flags f AND SFT_FCONIN \<noteq> 0) n buf s1 \<bind> (\<lambda>(rc, buf', s2).
                  Some (rc, buf', if near_char ptr buf' s2 = CTL_Z
                    then upd_sft p (\<lambda>f. f\<lparr>sft_flags := sft_flags f AND NOT SFT_FEOF\<rparr>) s2 else s2))
              else
                let s2 = upd_sft p (\<lambda>f. f\<lparr>sft_flags := sft_flags f OR SFT_FEOF\<rparr>) s1 in
                if sft_flags f AND SFT_FNUL \<noteq> 0 then Some (int (unat n), buf, s2)
                else dev_write (sft_dcb f) (map buf [0..<unat n]) s2 \<bind> (\<lambda>(rc, s3). Some (rc, buf, s3))
            else
              let (rc, s2) =
                (if share_installed s1 \<and> \<not> bit (sft_shroff f) 15
                 then let (rc, w) = share_access_check V (cu_psp (arena s1)) (sft_shroff f) (sft_posit f) (ucast n) (world s1) in (rc, s1\<lparr>world := w\<rparr>)
                 else (SUCCESS, s1))
              in if rc \<noteq> SUCCESS then Some (rc, buf, s2) else rwblock P sft_idx ptr buf n mode s2)"

lemma DosRWSft_body_mono [partial_function_mono]:
  assumes "\<And>d cs s. mono_option (\<lambda>f. dev_write f d cs s)"
  shows "mono_option (\<lambda>f. DosRWSft_body dev_read (dev_write f) P V sft_idx n ptr buf mode s)"
proof -
  obtain q s1 where q: "idx_to_sft sft_idx s = (q, s1)" by fastforce
  show ?thesis unfolding DosRWSft_body_def Let_def q prod.case
    by (cases q; simp only: option.case; intro partial_function_mono option.const_mono assms)
qed

text \<open>The loop that waits for a character of a device. The values above 255 are errors and the missing character.\<close>

partial_function (option) wait_char ::
  "'w platform \<Rightarrow> ('w, 'v) console_scheme \<Rightarrow> u32 \<Rightarrow> bool \<Rightarrow> ('w, 'a) tty_scheme \<Rightarrow> (u16 \<times> ('w, 'a) tty_scheme) option" where
  "wait_char P V dev check_break s =
     (let (b, s1) = ctrl_break_pressed V s in
      if b then Some (CTL_C, s1)
      else do {
        (busy, s2) \<leftarrow> Busy P dev s1;
        if \<not> busy then do { (c, s3) \<leftarrow> CharIO P dev 0 C_INPUT s2; Some (word_of_int c, s3) }
        else do {
          s3 \<leftarrow> (if check_break \<and> dev \<noteq> syscon s2 then map_option snd (check_handle_break P V (syscon s2) s2) else Some s2);
          wait_char P V dev check_break (if user_AH s3 < 0xd then s3\<lparr>world := DosIdle_int V (world s3)\<rparr> else s3)
        }
      })"

text \<open>
  From a file the character is read into a variable that is not initialised, of which only the low byte is written. This
  call of \<^verbatim>\<open>DosRWSft\<close> is for an entry that is no device.
\<close>

definition next_char ::
  "'w platform \<Rightarrow> ('w, 'v) console_scheme \<Rightarrow> int \<Rightarrow> u32 option \<Rightarrow> bool \<Rightarrow> ('w, 'a) tty_scheme \<Rightarrow> (u16 \<times> ('w, 'a) tty_scheme) option" where
  "next_char P V sft_in pdev check_break s =
     (case pdev of
        Some dev \<Rightarrow> wait_char P V dev check_break s
      | None \<Rightarrow> do {
          (_, buf, s1) \<leftarrow> DosRWSft_body (\<lambda>_ _ _ _ _ _. None) (\<lambda>_ _ _. None) P V sft_in 1 (dos_ds s, 0) (\<lambda>_. ucast (junk_c s)) XFR_READ s;
          Some ((junk_c s AND 0xff00) OR ucast (buf 0), s1)
        })"

definition read_char_sft_dev ::
  "'w platform \<Rightarrow> ('w, 'v) console_scheme \<Rightarrow> int \<Rightarrow> u32 option \<Rightarrow> bool \<Rightarrow> ('w, 'a) tty_scheme \<Rightarrow> (u16 \<times> ('w, 'a) tty_scheme) option" where
  "read_char_sft_dev P V sft_in pdev check_break s =
     do {
       (c, s1) \<leftarrow> next_char P V sft_in pdev check_break s;
       if check_break \<and> (c = CTL_C \<or> c = CTL_S) then do {
         (c, s2) \<leftarrow> (if c = CTL_S then next_char P V sft_in pdev False s1 else Some (c, s1));
         if c = CTL_C then None
         else do {
           let (q, s3) = idx_to_sft sft_in s2;
           (c, s4) \<leftarrow> next_char P V sft_in (sft_to_dev q s3) False s3;
           Some (ucast (ucast c :: u8), s4)
         }
       }
       else Some (c, s1)
     }"

definition raw_get_char ::
  "'w platform \<Rightarrow> ('w, 'v) console_scheme \<Rightarrow> u32 \<Rightarrow> bool \<Rightarrow> ('w, 'a) tty_scheme \<Rightarrow> (u16 \<times> ('w, 'a) tty_scheme) option" where
  "raw_get_char P V dev check_break s = read_char_sft_dev P V (-1) (Some dev) check_break s"

definition read_char ::
  "'w platform \<Rightarrow> ('w, 'v) console_scheme \<Rightarrow> int \<Rightarrow> bool \<Rightarrow> ('w, 'a) tty_scheme \<Rightarrow> (u8 \<times> ('w, 'a) tty_scheme) option" where
  "read_char P V sft_in check_break s =
     do {
       let (q, s1) = idx_to_sft sft_in s;
       (c, s2) \<leftarrow> read_char_sft_dev P V sft_in (sft_to_dev q s1) check_break s1;
       Some (ucast c, s2)
     }"

definition read_char_check_break ::
  "'w platform \<Rightarrow> ('w, 'v) console_scheme \<Rightarrow> int \<Rightarrow> ('w, 'a) tty_scheme \<Rightarrow> (u8 \<times> ('w, 'a) tty_scheme) option" where
  "read_char_check_break P V sft_in s = read_char P V sft_in True s"

definition read_char_stdin ::
  "'w platform \<Rightarrow> ('w, 'v) console_scheme \<Rightarrow> bool \<Rightarrow> ('w, 'a) tty_scheme \<Rightarrow> (u8 \<times> ('w, 'a) tty_scheme) option" where
  "read_char_stdin P V check_break s = read_char P V (get_sft_idx STDIN s) check_break s"

section \<open>Cooked output\<close>

text \<open>One character, \<^verbatim>\<open>count\<close> times; \<^verbatim>\<open>echo\<close> writes it to the printer. The result is an error or the counter.\<close>

primrec put_loop ::
  "(u8 \<Rightarrow> ('w, 'a) tty_scheme \<Rightarrow> ('w, 'a) tty_scheme option) \<Rightarrow> 'w platform \<Rightarrow> ('w, 'v) console_scheme \<Rightarrow> u32 \<Rightarrow> u8 \<Rightarrow> nat \<Rightarrow> u8 \<Rightarrow>
    ('w, 'a) tty_scheme \<Rightarrow> ((int + u8) \<times> ('w, 'a) tty_scheme) option" where
  "put_loop echo P V dev c 0 fast_counter s = Some (Inr fast_counter, s)"
| "put_loop echo P V dev c (Suc count) fast_counter s =
     (if fast_counter \<le> 0x80
      then check_handle_break P V dev s \<bind> (\<lambda>(b, s1). if b = CTL_S then map_option snd (raw_get_char P V dev True s1) else Some s1)
      else Some s) \<bind> (\<lambda>s1.
      (if PrinterEcho s1 \<noteq> 0 then echo c s1 else Some s1) \<bind> (\<lambda>s2.
       let fc = (fast_counter + 1) AND 0x9f in
       if fc AND 0x80 \<noteq> 0 then put_loop echo P V dev c count fc (s2\<lparr>world := fast_put_char V c (world s2)\<rparr>)
       else CharIO P dev c C_OUTPUT s2 \<bind> (\<lambda>(err, s3). if err < 0 then Some (Inl err, s3) else put_loop echo P V dev c count fc s3)))"

primrec write_loop ::
  "(u8 \<Rightarrow> ('w, 'a) tty_scheme \<Rightarrow> ('w, 'a) tty_scheme option) \<Rightarrow> 'w platform \<Rightarrow> ('w, 'v) console_scheme \<Rightarrow> u32 \<Rightarrow> u8 list \<Rightarrow> nat \<Rightarrow> u8 \<Rightarrow>
    ('w, 'a) tty_scheme \<Rightarrow> (int \<times> ('w, 'a) tty_scheme) option" where
  "write_loop echo P V dev [] xfer fast_counter s = Some (int xfer, s)"
| "write_loop echo P V dev (c # cs) xfer fast_counter s =
     (if c = CTL_Z then Some (int xfer, s)
      else
        let count = (if c = HT then 8 - (scr_pos s AND 7) else 1); c = (if c = HT then 0x20 else c) in
        put_loop echo P V dev c (unat count) fast_counter (update_scr_pos c count s) \<bind> (\<lambda>(r, s1).
        case r of Inl err \<Rightarrow> Some (err, s1) | Inr fc \<Rightarrow> write_loop echo P V dev cs (xfer + 1) fc s1))"

lemma put_loop_mono [partial_function_mono]:
  assumes "\<And>c s. mono_option (\<lambda>f. echo f c s)"
  shows "mono_option (\<lambda>f. put_loop (echo f) P V dev c count fc s)"
proof (induction count arbitrary: fc s)
  case (Suc count)
  have "mono_option (\<lambda>f. case y of (err, s3) \<Rightarrow> if err < 0 then Some (Inl err, s3) else put_loop (echo f) P V dev c count k s3)" for k and y :: "int \<times> _"
    by (cases y; simp only: prod.case; intro partial_function_mono option.const_mono Suc)
  then show ?case unfolding put_loop.simps Let_def by (intro partial_function_mono option.const_mono assms Suc)
qed (simp only: put_loop.simps, rule option.const_mono)

lemma write_loop_mono [partial_function_mono]:
  assumes "\<And>c s. mono_option (\<lambda>f. echo f c s)"
  shows "mono_option (\<lambda>f. write_loop (echo f) P V dev cs xfer fc s)"
proof (induction cs arbitrary: xfer fc s)
  case (Cons c cs)
  have 1: "mono_option (\<lambda>f. case r of Inl err \<Rightarrow> Some (err, s1) | Inr k \<Rightarrow> write_loop (echo f) P V dev cs (xfer + 1) k s1)" for r s1
    by (cases r; simp only: sum.case; intro option.const_mono Cons)
  have "mono_option (\<lambda>f. case y of (r, s1) \<Rightarrow> case r of Inl err \<Rightarrow> Some (err, s1) | Inr k \<Rightarrow> write_loop (echo f) P V dev cs (xfer + 1) k s1)" for y
    by (cases y; simp only: prod.case; rule 1)
  then show ?case unfolding write_loop.simps Let_def by (intro partial_function_mono option.const_mono assms put_loop_mono)
qed (simp only: write_loop.simps, rule option.const_mono)

partial_function (option) cooked_write ::
  "'w platform \<Rightarrow> ('w, 'v) console_scheme \<Rightarrow> u32 \<Rightarrow> u8 list \<Rightarrow> ('w, 'a) tty_scheme \<Rightarrow> (int \<times> ('w, 'a) tty_scheme) option" where
  "cooked_write P V dev cs s =
     write_loop (\<lambda>c s.
       DosRWSft_body (\<lambda>_ _ _ _ _ _. None) (cooked_write P V) P V (get_sft_idx STDPRN s) 1 (dos_ds s, 0) (\<lambda>_. c) XFR_WRITE s \<bind> (\<lambda>(_, _, s1). Some s1))
       P V dev cs 0 (ucast (push_bit 3 (dh_attr P dev AND 0x10))) s"

declare CharCmd.simps [code] wait_char.simps [code] cooked_write.simps [code]

text \<open>Writing a character, for which no read of a device is needed. A local variable of the kernel is the buffer.\<close>

definition write_char ::
  "'w platform \<Rightarrow> ('w, 'v) console_scheme \<Rightarrow> u8 \<Rightarrow> int \<Rightarrow> ('w, 'a) tty_scheme \<Rightarrow> ('w, 'a) tty_scheme option" where
  "write_char P V c sft_idx s =
     DosRWSft_body (\<lambda>_ _ _ _ _ _. None) (cooked_write P V) P V sft_idx 1 (dos_ds s, 0) (\<lambda>_. c) XFR_FORCE_WRITE s \<bind> (\<lambda>(_, _, s1). Some s1)"

primrec write_times ::
  "'w platform \<Rightarrow> ('w, 'v) console_scheme \<Rightarrow> u8 \<Rightarrow> nat \<Rightarrow> ('w, 'a) tty_scheme \<Rightarrow> ('w, 'a) tty_scheme option" where
  "write_times P V c 0 s = Some s"
| "write_times P V c (Suc count) s = do { s1 \<leftarrow> write_char P V c (get_sft_idx STDOUT s) s; write_times P V c count s1 }"

definition write_char_stdout ::
  "'w platform \<Rightarrow> ('w, 'v) console_scheme \<Rightarrow> u8 \<Rightarrow> ('w, 'a) tty_scheme \<Rightarrow> ('w, 'a) tty_scheme option" where
  "write_char_stdout P V c0 s =
     (let (q, s1) = get_sft STDOUT s in
      case q of
        None \<Rightarrow> None
      | Some p \<Rightarrow>
          let flags = sft_flags (sft_at p s1); expand = (flags AND (SFT_FDEVICE OR SFT_FBINARY) \<noteq> SFT_FDEVICE);
              count = (if expand \<and> c0 = HT then 8 - (scr_pos s1 AND 7) else 1); c = (if expand \<and> c0 = HT then 0x20 else c0);
              s2 = (if expand \<and> flags AND (SFT_FDEVICE OR SFT_FCONOUT) \<noteq> SFT_FDEVICE OR SFT_FCONOUT then update_scr_pos c count s1 else s1)
          in write_times P V c (unat count) s2)"

abbreviation (input) iscntrl :: "u8 \<Rightarrow> bool" where
  "iscntrl c \<equiv> c < 0x20"

definition echo_char ::
  "'w platform \<Rightarrow> ('w, 'v) console_scheme \<Rightarrow> u8 \<Rightarrow> int \<Rightarrow> ('w, 'a) tty_scheme \<Rightarrow> ('w, 'a) tty_scheme option" where
  "echo_char P V c sft_idx s =
     (if iscntrl c \<and> c \<noteq> HT \<and> c \<noteq> LF \<and> c \<noteq> CR then do { s1 \<leftarrow> write_char P V 0x5e sft_idx s; write_char P V (c + 0x40) sft_idx s1 }
      else write_char P V c sft_idx s)"

definition destr_bs :: "'w platform \<Rightarrow> ('w, 'v) console_scheme \<Rightarrow> int \<Rightarrow> ('w, 'a) tty_scheme \<Rightarrow> ('w, 'a) tty_scheme option" where
  "destr_bs P V sft_idx s = do { s1 \<leftarrow> write_char P V BS sft_idx s; s2 \<leftarrow> write_char P V 0x20 sft_idx s1; write_char P V BS sft_idx s2 }"

section \<open>Reading\<close>

primrec cooked_read ::
  "'w platform \<Rightarrow> ('w, 'v) console_scheme \<Rightarrow> u32 \<Rightarrow> nat \<Rightarrow> nat \<Rightarrow> bytes \<Rightarrow> ('w, 'a) tty_scheme \<Rightarrow> (int \<times> bytes \<times> ('w, 'a) tty_scheme) option" where
  "cooked_read P V dev 0 xfer buf s = Some (int xfer, buf, s)"
| "cooked_read P V dev (Suc n) xfer buf s =
     do {
       (c, s1) \<leftarrow> raw_get_char P V dev True s;
       if sint c < 0 then Some (sint c, buf, s1)
       else if c = 256 then Some (int xfer, buf, s1)
       else
         let ch = ucast c; buf' = buf(xfer := ch) in
         if ch = CTL_Z then Some (int (xfer + 1), buf', s1) else cooked_read P V dev n (xfer + 1) buf' s1
     }"

text \<open>The buffer of a line, of the kernel or of a program: size, count and characters.\<close>

datatype kbp = KbKernel | KbUser

definition kb_get :: "kbp \<Rightarrow> nat \<Rightarrow> ('w, 'a) tty_scheme \<Rightarrow> u8" where
  "kb_get kp i s = (case kp of KbKernel \<Rightarrow> linemem s (128 + i) | KbUser \<Rightarrow> user_kb s i)"

definition kb_set :: "kbp \<Rightarrow> nat \<Rightarrow> u8 \<Rightarrow> ('w, 'a) tty_scheme \<Rightarrow> ('w, 'a) tty_scheme" where
  "kb_set kp i v s =
     (case kp of KbKernel \<Rightarrow> s\<lparr>linemem := (linemem s)(128 + i := v)\<rparr> | KbUser \<Rightarrow> s\<lparr>user_kb := (user_kb s)(i := v)\<rparr>)"

abbreviation (input) kb_buf :: "kbp \<Rightarrow> nat \<Rightarrow> ('w, 'a) tty_scheme \<Rightarrow> u8" where
  "kb_buf kp i s \<equiv> kb_get kp (2 + i) s"

abbreviation (input) put_local :: "u16 \<Rightarrow> u8 \<Rightarrow> ('w, 'a) tty_scheme \<Rightarrow> ('w, 'a) tty_scheme" where
  "put_local i c s \<equiv> s\<lparr>linemem := (linemem s)(unat i := c)\<rparr>"

text \<open>The copy of \<^verbatim>\<open>local_buffer\<close> to the buffer.\<close>

definition copy_line :: "kbp \<Rightarrow> u16 \<Rightarrow> ('w, 'a) tty_scheme \<Rightarrow> ('w, 'a) tty_scheme" where
  "copy_line kp count s = fold (\<lambda>i t. kb_set kp (2 + i) (linemem s i) t) [0..<unat count] s"

text \<open>The state of the editor: characters in \<^verbatim>\<open>local_buffer\<close>, the place in the stored line and its length, insert mode.\<close>

record editor =
  ed_count :: u16
  stored_pos :: u16
  stored_size :: u16
  ed_insert :: bool

text \<open>A character of the stored line, if the line has room.\<close>

definition copy_char ::
  "'w platform \<Rightarrow> ('w, 'v) console_scheme \<Rightarrow> int \<Rightarrow> kbp \<Rightarrow> editor \<Rightarrow> ('w, 'a) tty_scheme \<Rightarrow> (editor \<times> ('w, 'a) tty_scheme) option" where
  "copy_char P V sft_out kp e s =
     do {
       let c = kb_buf kp (unat (stored_pos e)) s;
       s1 \<leftarrow> echo_char P V c sft_out s;
       Some (e\<lparr>ed_count := ed_count e + 1, stored_pos := stored_pos e + 1\<rparr>, put_local (ed_count e) c s1)
     }"

primrec copy_loop ::
  "'w platform \<Rightarrow> ('w, 'v) console_scheme \<Rightarrow> int \<Rightarrow> kbp \<Rightarrow> u16 \<Rightarrow> nat \<Rightarrow> editor \<Rightarrow> ('w, 'a) tty_scheme \<Rightarrow>
    (editor \<times> ('w, 'a) tty_scheme) option" where
  "copy_loop P V sft_out kp sz 0 e s = Some (e, s)"
| "copy_loop P V sft_out kp sz (Suc k) e s =
     (if ed_count e < sz - 1 then do { (e1, s1) \<leftarrow> copy_char P V sft_out kp e s; copy_loop P V sft_out kp sz k e1 s1 } else Some (e, s))"

text \<open>The search for a character of the stored line, with the length as the code computes it.\<close>

definition find_char :: "kbp \<Rightarrow> u16 \<Rightarrow> u8 \<Rightarrow> u16 \<Rightarrow> ('w, 'a) tty_scheme \<Rightarrow> nat option" where
  "find_char kp start c len s = find (\<lambda>i. kb_buf kp (unat start + i) s = c) [0..<unat len]"

text \<open>The column behind the first characters of the line.\<close>

definition column :: "u16 \<Rightarrow> u8 list \<Rightarrow> u16" where
  "column = foldl (\<lambda>pos c. if c = HT then (pos + 8) AND NOT 7 else if iscntrl c then pos + 2 else pos + 1)"

partial_function (option) bs_loop ::
  "'w platform \<Rightarrow> ('w, 'v) console_scheme \<Rightarrow> int \<Rightarrow> u16 \<Rightarrow> ('w, 'a) tty_scheme \<Rightarrow> ('w, 'a) tty_scheme option" where
  "bs_loop P V sft_out new_pos s =
     do { s1 \<leftarrow> destr_bs P V sft_out s; if ucast (scr_pos s1) > new_pos then bs_loop P V sft_out new_pos s1 else Some s1 }"

primrec blanks :: "'w platform \<Rightarrow> ('w, 'v) console_scheme \<Rightarrow> int \<Rightarrow> nat \<Rightarrow> ('w, 'a) tty_scheme \<Rightarrow> ('w, 'a) tty_scheme option" where
  "blanks P V sft_out 0 s = Some s"
| "blanks P V sft_out (Suc k) s = do { s1 \<leftarrow> write_char P V 0x20 sft_out s; blanks P V sft_out k s1 }"

definition start_new_line ::
  "'w platform \<Rightarrow> ('w, 'v) console_scheme \<Rightarrow> int \<Rightarrow> u16 \<Rightarrow> editor \<Rightarrow> ('w, 'a) tty_scheme \<Rightarrow> (editor \<times> ('w, 'a) tty_scheme) option" where
  "start_new_line P V sft_out cu_pos e s =
     do {
       s1 \<leftarrow> write_char P V CR sft_out s;
       s2 \<leftarrow> write_char P V LF sft_out s1;
       s3 \<leftarrow> blanks P V sft_out (unat cu_pos) s2;
       Some (e\<lparr>ed_count := 0, stored_pos := 0, ed_insert := False\<rparr>, s3)
     }"

text \<open>The cases of the switch that are longer than a line.\<close>

definition key_copy ::
  "'w platform \<Rightarrow> ('w, 'v) console_scheme \<Rightarrow> int \<Rightarrow> int \<Rightarrow> kbp \<Rightarrow> u16 \<Rightarrow> u16 \<Rightarrow> editor \<Rightarrow> ('w, 'a) tty_scheme \<Rightarrow>
    (editor \<times> ('w, 'a) tty_scheme) option" where
  "key_copy P V sft_in sft_out kp sz c e s =
     do {
       (new_pos, s1) \<leftarrow>
         (if c = F3 then Some (stored_size e, s)
          else do {
            (c2, s1) \<leftarrow> read_char_check_break P V sft_in s;
            if c2 = 0 then do { (_, s2) \<leftarrow> read_char_check_break P V sft_in s1; Some (stored_pos e, s2) }
            else Some (case find_char kp (stored_pos e) c2 (stored_size e - stored_pos e) s1 of
                   None \<Rightarrow> stored_pos e | Some i \<Rightarrow> of_nat i + 1, s1)
          });
       (e1, s2) \<leftarrow> (if c \<noteq> F4 then copy_loop P V sft_out kp sz (unat new_pos - unat (stored_pos e)) e s1 else Some (e, s1));
       Some (e1\<lparr>stored_pos := new_pos\<rparr>, s2)
     }"

definition key_back ::
  "'w platform \<Rightarrow> ('w, 'v) console_scheme \<Rightarrow> int \<Rightarrow> u16 \<Rightarrow> editor \<Rightarrow> ('w, 'a) tty_scheme \<Rightarrow> (editor \<times> ('w, 'a) tty_scheme) option" where
  "key_back P V sft_out cu_pos e s =
     do {
       (e1, s1) \<leftarrow>
         (if ed_count e > 0 then do {
            let count = ed_count e - 1;
            let c2 = linemem s (unat count);
            s1 \<leftarrow> (if c2 = HT then bs_loop P V sft_out (column cu_pos (map (linemem s) [0..<unat count])) s
                   else do { s1 \<leftarrow> (if iscntrl c2 then destr_bs P V sft_out s else Some s); destr_bs P V sft_out s1 });
            Some (e\<lparr>ed_count := count\<rparr>, s1)
          }
          else Some (e, s));
       Some (if stored_pos e1 > 0 then e1\<lparr>stored_pos := stored_pos e1 - 1\<rparr> else e1, s1)
     }"

definition key_char ::
  "'w platform \<Rightarrow> ('w, 'v) console_scheme \<Rightarrow> int \<Rightarrow> u16 \<Rightarrow> u8 \<Rightarrow> editor \<Rightarrow> ('w, 'a) tty_scheme \<Rightarrow> (editor \<times> ('w, 'a) tty_scheme) option" where
  "key_char P V sft_out sz c e s =
     do {
       (e1, s1) \<leftarrow>
         (if ed_count e < sz - 1 \<or> c = CR
          then do { s1 \<leftarrow> echo_char P V c sft_out s; Some (e\<lparr>ed_count := ed_count e + 1\<rparr>, put_local (ed_count e) c s1) }
          else do { s1 \<leftarrow> write_char P V BELL sft_out s; Some (e, s1) });
       Some (if stored_pos e1 < stored_size e1 \<and> \<not> ed_insert e1 then e1\<lparr>stored_pos := stored_pos e1 + 1\<rparr> else e1, s1)
     }"

definition edit_key ::
  "'w platform \<Rightarrow> ('w, 'v) console_scheme \<Rightarrow> int \<Rightarrow> int \<Rightarrow> kbp \<Rightarrow> u16 \<Rightarrow> u16 \<Rightarrow> bool \<Rightarrow> u16 \<Rightarrow> editor \<Rightarrow> ('w, 'a) tty_scheme \<Rightarrow>
    (editor \<times> ('w, 'a) tty_scheme) option" where
  "edit_key P V sft_in sft_out kp sz cu_pos first c e s =
     (if c = LF then
        if first then Some (e, s) else do { s1 \<leftarrow> write_char P V CR sft_out s; s2 \<leftarrow> write_char P V LF sft_out s1; Some (e, s2) }
      else if c = CTL_F then Some (e, s)
      else if c = RIGHT \<or> c = F1 then
        if stored_pos e < stored_size e \<and> ed_count e < sz - 1 then copy_char P V sft_out kp e s else Some (e, s)
      else if c = F2 \<or> c = F4 \<or> c = F3 then key_copy P V sft_in sft_out kp sz c e s
      else if c = F5 then do {
        s1 \<leftarrow> write_char P V 0x40 sft_out (copy_line kp (ed_count e) s);
        start_new_line P V sft_out cu_pos (e\<lparr>stored_size := ed_count e\<rparr>) s1
      }
      else if c = INS then Some (e\<lparr>ed_insert := \<not> ed_insert e\<rparr>, s)
      else if c = DEL then Some (e\<lparr>stored_pos := stored_pos e + 1\<rparr>, s)
      else if c = LEFT \<or> c = CTL_BS \<or> c = BS then key_back P V sft_out cu_pos e s
      else if c = ESC then do { s1 \<leftarrow> write_char P V 0x5c sft_out s; start_new_line P V sft_out cu_pos e s1 }
      else if c = F6 then key_char P V sft_out sz CTL_Z e s
      else if c \<ge> 256 then Some (e, s)
      else key_char P V sft_out sz (ucast c) e s)"

partial_function (option) line_loop ::
  "'w platform \<Rightarrow> ('w, 'v) console_scheme \<Rightarrow> int \<Rightarrow> int \<Rightarrow> kbp \<Rightarrow> u16 \<Rightarrow> u16 \<Rightarrow> bool \<Rightarrow> editor \<Rightarrow> ('w, 'a) tty_scheme \<Rightarrow>
    (editor \<times> ('w, 'a) tty_scheme) option" where
  "line_loop P V sft_in sft_out kp sz cu_pos first e s =
     do {
       (c0, s1) \<leftarrow> read_char_check_break P V sft_in s;
       (c, s2) \<leftarrow> (if c0 = 0 then do { (c1, s2) \<leftarrow> read_char_check_break P V sft_in s1; Some (push_bit 8 (ucast c1), s2) } else Some (ucast c0 :: u16, s1));
       (e1, s3) \<leftarrow> edit_key P V sft_in sft_out kp sz cu_pos first c e s2;
       if c = CR then Some (e1, s3) else line_loop P V sft_in sft_out kp sz cu_pos False e1 s3
     }"

definition read_line ::
  "'w platform \<Rightarrow> ('w, 'v) console_scheme \<Rightarrow> int \<Rightarrow> int \<Rightarrow> kbp \<Rightarrow> ('w, 'a) tty_scheme \<Rightarrow> ('w, 'a) tty_scheme option" where
  "read_line P V sft_in sft_out kp s =
     (let sz = ucast (kb_get kp 0 s) :: u16; stored = ucast (kb_get kp 1 s) :: u16 in
      if sz = 0 then Some s
      else do {
        (e, s1) \<leftarrow> line_loop P V sft_in sft_out kp sz (ucast (scr_pos s)) True
          \<lparr>ed_count = 0, stored_pos = 0, stored_size = (if kb_buf kp (unat stored) s \<noteq> CR then 0 else stored), ed_insert = False\<rparr> s;
        let s2 = copy_line kp (ed_count e) s1;
        let s3 = (if ed_count e > 128 then s2\<lparr>linemem := (linemem s2)(128 := 0)\<rparr> else s2);
        Some (kb_set kp 1 (ucast (ed_count e - 1)) s3)
      })"

declare bs_loop.simps [code] line_loop.simps [code]

section \<open>Handles\<close>

definition read_line_handle ::
  "'w platform \<Rightarrow> ('w, 'v) console_scheme \<Rightarrow> int \<Rightarrow> u16 \<Rightarrow> bytes \<Rightarrow> ('w, 'a) tty_scheme \<Rightarrow> (int \<times> bytes \<times> ('w, 'a) tty_scheme) option" where
  "read_line_handle P V sft_idx n buf s =
     do {
       s1 \<leftarrow>
         (case inputptr s of
            Some _ \<Rightarrow> Some s
          | None \<Rightarrow> do {
              let s1 = (if kb_get KbKernel 0 s \<noteq> 128 then kb_set KbKernel 0 128 (kb_set KbKernel 1 0 s) else s);
              s2 \<leftarrow> read_line P V sft_idx sft_idx KbKernel s1;
              s3 \<leftarrow> echo_char P V LF sft_idx s2;
              let s4 = kb_set KbKernel (2 + unat (kb_get KbKernel 1 s3) + 1) LF s3;
              Some (s4\<lparr>inputptr := (if kb_buf KbKernel 0 s4 = CTL_Z then None else Some 0)\<rparr>)
            });
       case inputptr s1 of
         None \<Rightarrow> Some (0, buf, s1)
       | Some i \<Rightarrow>
           let chars_left = (of_nat (unat (kb_get KbKernel 1 s1) + 2) - of_nat i :: u16);
               m = (if n > chars_left then chars_left else n);
               buf' = (\<lambda>j. if j < unat m then kb_buf KbKernel (i + j) s1 else buf j)
           in Some (uint m, buf', s1\<lparr>inputptr := (if m = chars_left then None else Some (i + unat m))\<rparr>)
     }"

definition DosRWSft ::
  "'w platform \<Rightarrow> ('w, 'v) console_scheme \<Rightarrow> int \<Rightarrow> u16 \<Rightarrow> u16 \<times> u16 \<Rightarrow> bytes \<Rightarrow> int \<Rightarrow> ('w, 'a) tty_scheme \<Rightarrow>
    (int \<times> bytes \<times> ('w, 'a) tty_scheme) option" where
  "DosRWSft P V =
     DosRWSft_body (\<lambda>sft_idx dev conin n buf s. if conin then read_line_handle P V sft_idx n buf s else cooked_read P V dev (unat n) 0 buf s)
       (cooked_write P V) P V"

definition DosRead ::
  "'w platform \<Rightarrow> ('w, 'v) console_scheme \<Rightarrow> u16 \<Rightarrow> u16 \<Rightarrow> u16 \<times> u16 \<Rightarrow> bytes \<Rightarrow> ('w, 'a) tty_scheme \<Rightarrow> (int \<times> bytes \<times> ('w, 'a) tty_scheme) option" where
  "DosRead P V hndl n ptr buf s = DosRWSft P V (get_sft_idx hndl s) n ptr buf XFR_READ s"

definition DosWrite ::
  "'w platform \<Rightarrow> ('w, 'v) console_scheme \<Rightarrow> u16 \<Rightarrow> u16 \<Rightarrow> u16 \<times> u16 \<Rightarrow> bytes \<Rightarrow> ('w, 'a) tty_scheme \<Rightarrow> (int \<times> bytes \<times> ('w, 'a) tty_scheme) option" where
  "DosWrite P V hndl n ptr buf s = DosRWSft P V (get_sft_idx hndl s) n ptr buf XFR_WRITE s"

text \<open>The state in which interrupt 23h is entered.\<close>

definition handle_break ::
  "'w platform \<Rightarrow> ('w, 'v) console_scheme \<Rightarrow> u32 \<Rightarrow> int \<Rightarrow> ('w, 'a) tty_scheme \<Rightarrow> ('w, 'a) tty_scheme option" where
  "handle_break P V dev sft_out s =
     do {
       let cs = [0x5e, 0x43, CR, LF];
       s1 \<leftarrow> con_flush P dev (s\<lparr>world := CB_reset V (world s)\<rparr>);
       s2 \<leftarrow> (if sft_out = -1 then map_option snd (cooked_write P V dev cs s1)
              else map_option (\<lambda>(_, _, s2). s2) (DosRWSft P V sft_out 4 (dos_ds s1, 0) (\<lambda>i. if i < 4 then cs ! i else 0) XFR_FORCE_WRITE s1));
       Some (if ErrorMode s2 = 0 \<and> InDOS s2 \<noteq> 0 then s2\<lparr>InDOS := InDOS s2 - 1\<rparr> else s2)
     }"

section \<open>The calls 01h to 0Ch\<close>

text \<open>
  The cases of \<^verbatim>\<open>int21_service\<close> for characters. \<^verbatim>\<open>str\<close> are the bytes at DS:DX up to the dollar sign, and the buffer of
  function 0Ah there is \<^verbatim>\<open>user_kb\<close>. The result has register AL, and the zero flag where it is set.
\<close>

primrec write_string :: "'w platform \<Rightarrow> ('w, 'v) console_scheme \<Rightarrow> u8 list \<Rightarrow> ('w, 'a) tty_scheme \<Rightarrow> ('w, 'a) tty_scheme option" where
  "write_string P V [] s = Some s"
| "write_string P V (c # cs) s = do { s1 \<leftarrow> write_char_stdout P V c s; write_string P V cs s1 }"

definition con_read :: "'w platform \<Rightarrow> ('w, 'v) console_scheme \<Rightarrow> u8 \<Rightarrow> u8 \<Rightarrow> u8 \<Rightarrow> ('w, 'a) tty_scheme \<Rightarrow>
    (u8 \<times> bool option \<times> ('w, 'a) tty_scheme) option" where
  "con_read P V AH AL DL s =
     (if AH = 0x01 then do { (c, s1) \<leftarrow> read_char_stdin P V True s; s2 \<leftarrow> write_char_stdout P V c s1; Some (c, None, s2) }
      else if AH = 0x06 then
        if DL \<noteq> 0xff then do { s1 \<leftarrow> write_char_stdout P V DL s; Some (DL, None, s1) }
        else do {
          (busy, s1) \<leftarrow> StdinBusy P s;
          if busy then Some (0, Some True, s1\<lparr>world := DosIdle_int V (world s1)\<rparr>)
          else do { (c, s2) \<leftarrow> read_char_stdin P V False s1; Some (c, Some False, s2) }
        }
      else if AH = 0x07 then do { (c, s1) \<leftarrow> read_char_stdin P V False s; Some (c, None, s1) }
      else if AH = 0x08 then do { (c, s1) \<leftarrow> read_char_stdin P V True s; Some (c, None, s1) }
      else if AH = 0x0a then do { s1 \<leftarrow> read_line P V (get_sft_idx STDIN s) (get_sft_idx STDOUT s) KbUser s; Some (AL, None, s1) }
      else Some (0, None, s))"

definition con_service :: "'w platform \<Rightarrow> ('w, 'v) console_scheme \<Rightarrow> u8 \<Rightarrow> u8 \<Rightarrow> u8 \<Rightarrow> u8 list \<Rightarrow> ('w, 'a) tty_scheme \<Rightarrow>
    (u8 \<times> bool option \<times> ('w, 'a) tty_scheme) option" where
  "con_service P V AH AL DL str s =
     (if AH \<in> {0x01, 0x06, 0x07, 0x08, 0x0a} then con_read P V AH AL DL s
      else if AH = 0x02 then do { s1 \<leftarrow> write_char_stdout P V DL s; Some (DL, None, s1) }
      else if AH = 0x03 then do { (c, s1) \<leftarrow> read_char P V (get_sft_idx STDAUX s) True s; Some (c, None, s1) }
      else if AH = 0x04 then do { s1 \<leftarrow> write_char P V DL (get_sft_idx STDAUX s) s; Some (AL, None, s1) }
      else if AH = 0x05 then do { s1 \<leftarrow> write_char P V DL (get_sft_idx STDPRN s) s; Some (AL, None, s1) }
      else if AH = 0x09 then do { s1 \<leftarrow> write_string P V str s; Some (0x24, None, s1) }
      else if AH = 0x0b then do { (busy, s1) \<leftarrow> StdinBusy P s; Some (if busy then 0 else 0xff, None, s1) }
      else do {
        let (q, s1) = get_sft STDIN s;
        s2 \<leftarrow> (case sft_to_dev q s1 of Some dev \<Rightarrow> con_flush P dev s1 | None \<Rightarrow> Some s1);
        if AL \<in> {0x01, 0x06, 0x07, 0x08, 0x0a} then con_read P V AL AL DL s2 else Some (0, None, s2)
      })"

end
