(* ===== verification/Fcb.thy ===== *)
theory Fcb
  imports Console
begin

text \<open>
  File control blocks: \<^verbatim>\<open>kernel/fcbfns.c\<close>, and \<^verbatim>\<open>SftGetFsize\<close> of \<^verbatim>\<open>kernel/task.c\<close>. The block lies in the memory of the
  program; the calls get its value and return the changed one. The disk transfer area is given by its address in the state and
  by its bytes as an argument; it is not the block itself.
\<close>

section \<open>Data\<close>

record fcb =
  fcb_drive :: u8
  fcb_fname :: "u8 list"
  fcb_fext :: "u8 list"
  fcb_cublock :: u16
  fcb_recsiz :: u16
  fcb_fsize :: u32
  fcb_date :: u16
  fcb_time :: u16
  fcb_sftno :: u8
  fcb_attrib_hi :: u8
  fcb_attrib_lo :: u8
  fcb_strtclst :: u16
  fcb_dirclst :: u16
  fcb_diroff :: u8
  fcb_curec :: u8
  fcb_rndm :: u32

text \<open>An extended block has FFh in its first byte, and five reserved bytes and an attribute in front of the block proper.\<close>

datatype 'f xfcb = Plain 'f | Ext "u8 list" u8 'f

text \<open>The block of a rename call.\<close>

record rfcb =
  renDriveID :: u8
  renOldName :: "u8 list"
  renOldExtent :: "u8 list"
  renNewName :: "u8 list"
  renNewExtent :: "u8 list"

text \<open>The search block of the calls for directories, the attribute of a search, and the address of the transfer area.\<close>

record 'w fcbs = "'w tty" +
  Dmatch :: ffblk
  wAttr :: u16
  dta_ptr :: "u16 \<times> u16"

abbreviation (input) FCB_SUCCESS :: u8 where "FCB_SUCCESS \<equiv> 0"
abbreviation (input) FCB_ERR_NODATA :: u8 where "FCB_ERR_NODATA \<equiv> 1"
abbreviation (input) FCB_ERR_SEGMENT_WRAP :: u8 where "FCB_ERR_SEGMENT_WRAP \<equiv> 2"
abbreviation (input) FCB_ERR_EOF :: u8 where "FCB_ERR_EOF \<equiv> 3"
abbreviation (input) FCB_ERROR :: u8 where "FCB_ERROR \<equiv> 0xff"
abbreviation (input) XFR_FCB_RANDOM :: u16 where "XFR_FCB_RANDOM \<equiv> 4"

definition ExtFcbToFcb :: "'f xfcb \<Rightarrow> 'f" where
  "ExtFcbToFcb x = (case x of Plain f \<Rightarrow> f | Ext _ _ f \<Rightarrow> f)"

definition put_fcb :: "'f \<Rightarrow> 'f xfcb \<Rightarrow> 'f xfcb" where
  "put_fcb f x = (case x of Plain _ \<Rightarrow> Plain f | Ext r a _ \<Rightarrow> Ext r a f)"

text \<open>The attribute of a search: the one of an extended block, or all files.\<close>

definition xfcb_attr :: "'f xfcb \<Rightarrow> u8 \<Rightarrow> u8" where
  "xfcb_attr x d = (case x of Plain _ \<Rightarrow> d | Ext _ a _ \<Rightarrow> a)"

section \<open>Parsing a name\<close>

definition TestCmnSeps :: "u8 \<Rightarrow> bool" where
  "TestCmnSeps c \<longleftrightarrow> c \<in> {0x3a, 0x3b, 0x2c, 0x3d, 0x2b, 0x20, 0x09}"

definition TestFieldSeps :: "u8 \<Rightarrow> bool" where
  "TestFieldSeps c \<longleftrightarrow> c \<le> 0x20 \<or> c \<in> {0x2f, 0x5c, 0x22, 0x5b, 0x5d, 0x3c, 0x3e, 0x7c, 0x2e, 0x3a, 0x3b, 0x2c, 0x3d, 0x2b, 0x09}"

definition ParseSkipWh :: "u8 list \<Rightarrow> u8 list" where
  "ParseSkipWh = dropWhile (\<lambda>c. c = 0x20 \<or> c = 0x09)"

text \<open>A field of a name: its bytes, whether there are wildcards, and the rest of the string.\<close>

fun GetNameField :: "(u8 \<Rightarrow> u8) \<Rightarrow> u8 list \<Rightarrow> nat \<Rightarrow> bool \<Rightarrow> u8 list \<times> bool \<times> u8 list" where
  "GetNameField up [] n wild = (replicate n 0x20, wild, [])"
| "GetNameField up (c # cs) n wild =
     (if c = 0 \<or> TestFieldSeps c \<or> n = 0 then (replicate n 0x20, wild, c # cs)
      else if c = 0x2a then (replicate n 0x3f, True, cs)
      else let (f, w, r) = GetNameField up cs (n - 1) (wild \<or> c = 0x3f) in (up c # f, w, r))"

text \<open>The result has the code for AL, the rest of the string, and the block.\<close>

definition FcbParseFname :: "u8 \<Rightarrow> u8 list \<Rightarrow> fcb \<Rightarrow> ('w, 'a) job_scheme \<Rightarrow> u8 \<times> u8 list \<times> fcb" where
  "FcbParseFname wTestMode str f s =
     (let str1 = ParseSkipWh (if wTestMode AND 0x01 \<noteq> 0 then dropWhile TestCmnSeps str else str);
          has_drive = (\<not> TestFieldSeps (peek str1 0) \<and> peek str1 1 = 0x3a);
          Drive = DosUpFChar s (peek str1 0) - 0x41;
          bad = (has_drive \<and> get_cds (ucast Drive) s = None);
          f1 = (if has_drive then f\<lparr>fcb_drive := Drive + 1\<rparr> else if wTestMode AND 0x02 = 0 then f\<lparr>fcb_drive := 0\<rparr> else f);
          str2 = (if has_drive then drop 2 str1 else str1);
          f2 = f1\<lparr>fcb_cublock := 0, fcb_recsiz := 0,
            fcb_fname := (if wTestMode AND 0x04 = 0 then replicate 8 0x20 else fcb_fname f1),
            fcb_fext := (if wTestMode AND 0x08 = 0 then replicate 3 0x20 else fcb_fext f1)\<rparr>
      in if peek str2 0 = 0x2e then
           if peek str2 1 = 0x2e then (0, drop 2 str2, f2\<lparr>fcb_fname := (fcb_fname f2)[0 := 0x2e, 1 := 0x2e]\<rparr>)
           else (0, drop 1 str2, f2\<lparr>fcb_fname := (fcb_fname f2)[0 := 0x2e]\<rparr>)
         else
           let (nm, wn, str3) = GetNameField (DosUpFChar s) str2 8 False;
               f3 = f2\<lparr>fcb_fname := nm\<rparr>;
               (ext, we, str4) = (if peek str3 0 = 0x2e then GetNameField (DosUpFChar s) (drop 1 str3) 3 False else (fcb_fext f3, False, str3))
           in (if bad then 0xff else if wn \<or> we then 1 else 0, str4, f3\<lparr>fcb_fext := ext\<rparr>))"

text \<open>The name of a block as a string, with its drive; the number of the drive is returned, too.\<close>

definition FcbNameInit :: "u8 \<Rightarrow> u8 list \<Rightarrow> ('w, 'a) job_scheme \<Rightarrow> u8 list \<times> u16" where
  "FcbNameInit drive nm s =
     (if drive \<noteq> 0 then (0x41 + drive - 1) # 0x3a # ConvertName83ToNameSZ nm else ConvertName83ToNameSZ nm,
      if drive \<noteq> 0 then ucast drive else scast (default_drive s) + 1)"

definition CommonFcbInit :: "fcb xfcb \<Rightarrow> ('w, 'a) job_scheme \<Rightarrow> u16 \<times> ('w, 'a) job_scheme" where
  "CommonFcbInit x s =
     (let f = ExtFcbToFcb x; (nm, drive) = FcbNameInit (fcb_drive f) (fcb_fname f @ fcb_fext f) s in (drive, s\<lparr>SecPathName := nm\<rparr>))"

section \<open>Records\<close>

definition FcbNextRecord :: "fcb \<Rightarrow> fcb" where
  "FcbNextRecord f =
     (let f1 = f\<lparr>fcb_curec := fcb_curec f + 1\<rparr> in
      if fcb_curec f1 \<ge> 128 then f1\<lparr>fcb_curec := 0, fcb_cublock := fcb_cublock f1 + 1\<rparr> else f1)"

definition FcbRec :: "fcb \<Rightarrow> u32" where
  "FcbRec f = ucast (fcb_cublock f) * 128 + ucast (fcb_curec f)"

definition SftGetFsize :: "int \<Rightarrow> ('w, 'a) dos_scheme \<Rightarrow> u32 \<times> ('w, 'a) dos_scheme" where
  "SftGetFsize sft_idx s =
     (let (q, s1) = idx_to_sft sft_idx s in (case q of None \<Rightarrow> word_of_int DE_INVLDHNDL | Some p \<Rightarrow> sft_size (sft_at p s1), s1))"

text \<open>Zeros in the segment of the transfer area; offsets wrap around.\<close>

definition clear_dta :: "u16 \<Rightarrow> u16 \<Rightarrow> bytes \<Rightarrow> bytes" where
  "clear_dta off n buf = (\<lambda>j. if j < 65536 \<and> (of_nat j - off :: u16) < n then 0 else buf j)"

text \<open>How a transfer ends; a record size of zero is divided by.\<close>

definition fcb_done :: "u16 \<Rightarrow> u16 \<Rightarrow> int \<Rightarrow> fcb \<Rightarrow> bytes \<Rightarrow> (u8 \<times> fcb \<times> bytes) option" where
  "fcb_done mode size0 nTransfer f buf =
     (let n = word_of_int nTransfer :: u16; recsiz = fcb_recsiz f;
          f1 = (if mode AND XFR_FCB_RANDOM \<noteq> 0 \<and> recsiz > 0 then f\<lparr>fcb_rndm := fcb_rndm f + ucast ((n + recsiz - 1) div recsiz)\<rparr> else f);
          size1 = size0 - n
      in if size1 = 0 then Some (FCB_SUCCESS, FcbNextRecord f1, buf)
         else if recsiz = 0 then None
         else
           let size2 = size1 mod recsiz in
           if mode AND 1 \<noteq> 0 \<and> size2 > 0 then Some (FCB_ERR_EOF, FcbNextRecord f1, clear_dta n size2 buf)
           else Some (FCB_ERR_NODATA, f1, buf))"

definition FcbReadWrite ::
  "'w platform \<Rightarrow> ('w, 'v) console_scheme \<Rightarrow> fcb xfcb \<Rightarrow> u16 \<Rightarrow> u16 \<Rightarrow> bytes \<Rightarrow> ('w, 'a) fcbs_scheme \<Rightarrow>
    (u8 \<times> fcb xfcb \<times> bytes \<times> ('w, 'a) fcbs_scheme) option" where
  "FcbReadWrite P V x recno mode buf s =
     (let f = ExtFcbToFcb x; recsiz = fcb_recsiz f; bigsize = ucast recsiz * ucast recno :: u32; size = ucast bigsize :: u16;
          off = snd (dta_ptr s); sft_idx = sint (fcb_sftno f)
      in if bigsize > 0xffff then Some (FCB_ERR_SEGMENT_WRAP, x, buf, s)
         else if off + size < off then Some (FCB_ERR_SEGMENT_WRAP, x, buf, s)
         else
           let (r, s1) = SftSeek V sft_idx (FcbRec f * ucast recsiz) 0 s; s2 = s1\<lparr>CritErrCode := word_of_int (- r)\<rparr> in
           if r \<noteq> SUCCESS then Some (FCB_ERR_NODATA, x, buf, s2)
           else do {
             (nTransfer, buf1, s3) \<leftarrow> DosRWSft P V sft_idx size (dta_ptr s2) buf (uint (mode AND NOT XFR_FCB_RANDOM)) s2;
             let s4 = (if nTransfer < 0 then s3\<lparr>CritErrCode := word_of_int (- nTransfer)\<rparr> else s3);
             let (f1, s5) = (if mode AND 2 \<noteq> 0 then let (sz, s5) = SftGetFsize sft_idx s4 in (f\<lparr>fcb_fsize := sz\<rparr>, s5) else (f, s4));
             (rc, f2, buf2) \<leftarrow> fcb_done mode size nTransfer f1 buf1;
             Some (rc, put_fcb f2 x, buf2, s5)
           })"

definition FcbSetRandom :: "fcb xfcb \<Rightarrow> fcb xfcb" where
  "FcbSetRandom x = (let f = ExtFcbToFcb x in put_fcb (f\<lparr>fcb_rndm := FcbRec f\<rparr>) x)"

definition FcbCalcRec :: "fcb xfcb \<Rightarrow> fcb xfcb" where
  "FcbCalcRec x =
     (let f = ExtFcbToFcb x in put_fcb (f\<lparr>fcb_cublock := ucast (fcb_rndm f div 128), fcb_curec := ucast (fcb_rndm f) AND 127\<rparr>) x)"

definition FcbRandomBlockIO ::
  "'w platform \<Rightarrow> ('w, 'v) console_scheme \<Rightarrow> fcb xfcb \<Rightarrow> u16 \<Rightarrow> u16 \<Rightarrow> bytes \<Rightarrow> ('w, 'a) fcbs_scheme \<Rightarrow>
    (u8 \<times> u16 \<times> fcb xfcb \<times> bytes \<times> ('w, 'a) fcbs_scheme) option" where
  "FcbRandomBlockIO P V x nRecords mode buf s =
     do {
       let x1 = FcbCalcRec x;
       (rc, x2, buf1, s1) \<leftarrow> FcbReadWrite P V x1 nRecords mode buf s;
       Some (rc, ucast (fcb_rndm (ExtFcbToFcb x2) - fcb_rndm (ExtFcbToFcb x1)), FcbCalcRec x2, buf1, s1)
     }"

definition FcbRandomIO ::
  "'w platform \<Rightarrow> ('w, 'v) console_scheme \<Rightarrow> fcb xfcb \<Rightarrow> u16 \<Rightarrow> bytes \<Rightarrow> ('w, 'a) fcbs_scheme \<Rightarrow>
    (u8 \<times> fcb xfcb \<times> bytes \<times> ('w, 'a) fcbs_scheme) option" where
  "FcbRandomIO P V x mode buf s =
     do {
       let x1 = FcbCalcRec x;
       let f = ExtFcbToFcb x1;
       (rc, x2, buf1, s1) \<leftarrow> FcbReadWrite P V x1 1 mode buf s;
       Some (rc, put_fcb ((ExtFcbToFcb x2)\<lparr>fcb_cublock := fcb_cublock f, fcb_curec := fcb_curec f\<rparr>) x2, buf1, s1)
     }"

section \<open>Open and close\<close>

text \<open>
  The parameters of a drive: the media byte, the sectors of a cluster, the bytes of a sector and the number of clusters. For a redirected
  drive the media byte is in the high byte of what the redirector returns.
\<close>

definition FatGetDrvData ::
  "'w platform \<Rightarrow> 'w media_driver \<Rightarrow> ('w, 'v) net_scheme \<Rightarrow> u8 \<Rightarrow> ('w, 'a) job_scheme \<Rightarrow>
    ((u8 \<times> u8 \<times> u16 \<times> u16) option \<times> ('w, 'a) job_scheme) option" where
  "FatGetDrvData P E V drive s =
     do {
       (q, s1) \<leftarrow> DosGetFree P E V drive False s;
       Some (case q of
          None \<Rightarrow> None
        | Some (spc, _, bps, nc) \<Rightarrow>
            if spc = 0xffff then None
            else
              let dpbp = get_dpb (if drive = 0 then scast (default_drive s1) else ucast drive - 1) s1 in
              Some (if dpbp = 0 then ucast (drop_bit 8 spc) else dpb_mdb (dpbs s1 dpbp), ucast spc, bps, nc), s1)
     }"

definition FcbGetFileSize ::
  "'w platform \<Rightarrow> 'w media_driver \<Rightarrow> ('w, 'v) net_scheme \<Rightarrow> fcb xfcb \<Rightarrow> ('w, 'a) job_scheme \<Rightarrow> (u8 \<times> fcb xfcb \<times> ('w, 'a) job_scheme) option" where
  "FcbGetFileSize P E V x s =
     (let (_, s1) = CommonFcbInit x s; f = ExtFcbToFcb x; recsiz = fcb_recsiz f in
      if IsDevice P (SecPathName s1) s1 \<noteq> None \<or> recsiz = 0 then Some (FCB_ERROR, x, s1)
      else do {
        (q, s2) \<leftarrow> DosOpenSft P E V (SecPathName s1) (O_LEGACY OR RDONLY OR O_OPEN) 0 s1;
        case q of
          Inl e \<Rightarrow> Some (FCB_ERROR, x, s2\<lparr>CritErrCode := word_of_int (- e)\<rparr>)
        | Inr (sft_idx, _) \<Rightarrow> do {
            let (fsize, s3) = SftGetFsize (int sft_idx) s2;
            let x1 = put_fcb (f\<lparr>fcb_rndm := (fsize + (ucast recsiz - 1)) div ucast recsiz\<rparr>) x;
            (r, s4) \<leftarrow> DosCloseSft P V (int sft_idx) False s3;
            Some (if r = SUCCESS then FCB_SUCCESS else FCB_ERROR, x1, s4\<lparr>CritErrCode := word_of_int (- r)\<rparr>)
          }
      })"

definition FcbOpen ::
  "'w platform \<Rightarrow> 'w media_driver \<Rightarrow> ('w, 'v) net_scheme \<Rightarrow> fcb xfcb \<Rightarrow> u16 \<Rightarrow> ('w, 'a) job_scheme \<Rightarrow>
    (u8 \<times> fcb xfcb \<times> ('w, 'a) job_scheme) option" where
  "FcbOpen P E V x flags s =
     (let (FcbDrive, s1) = CommonFcbInit x s; f = ExtFcbToFcb x;
          attr = (if flags AND O_CREAT \<noteq> 0 then ucast (xfcb_attr x 0) else 0) :: u16
      in do {
        (q, s2) \<leftarrow> DosOpenSft P E V (SecPathName s1) flags attr s1;
        case q of
          Inl e \<Rightarrow> Some (FCB_ERROR, x, s2\<lparr>CritErrCode := word_of_int (- e)\<rparr>)
        | Inr (sft_idx, _) \<Rightarrow>
            (case idx_to_sft (int sft_idx) s2 of
               (None, _) \<Rightarrow> None
             | (Some p, s3) \<Rightarrow>
                 let s4 = upd_sft p (\<lambda>sf. sf\<lparr>sft_mode := sft_mode sf OR O_FCB\<rparr>) s3; sf = sft_at p s4;
                     f1 = f\<lparr>fcb_sftno := of_nat sft_idx, fcb_cublock := 0, fcb_recsiz := 0\<rparr>;
                     f2 = (if sft_flags sf AND SFT_FDEVICE = 0 then f1\<lparr>fcb_drive := ucast FcbDrive, fcb_recsiz := 128\<rparr> else f1)
                 in Some (FCB_SUCCESS, put_fcb (f2\<lparr>fcb_fsize := sft_size sf, fcb_date := sft_date sf, fcb_time := sft_time sf\<rparr>) x, s4))
      })"

definition FcbClose ::
  "'w platform \<Rightarrow> ('w, 'v) services_scheme \<Rightarrow> fcb xfcb \<Rightarrow> ('w, 'a) job_scheme \<Rightarrow> (u8 \<times> fcb xfcb \<times> ('w, 'a) job_scheme) option" where
  "FcbClose P V x s =
     (let f = ExtFcbToFcb x; sft_idx = sint (fcb_sftno f) in
      if fcb_sftno f = 0xff then Some (FCB_SUCCESS, x, s)
      else case idx_to_sft sft_idx s of
        (None, s1) \<Rightarrow> Some (FCB_ERROR, x, s1)
      | (Some p, s1) \<Rightarrow> do {
          let s2 = upd_sft p (\<lambda>sf. sf\<lparr>sft_size := fcb_fsize f\<rparr>) s1;
          s3 \<leftarrow> (if sft_flags (sft_at p s2) AND SFT_FSHARED = 0 then dos_merge_file_changes sft_idx s2 else Some s2);
          let (_, s4) = DosSetFtimeSft sft_idx (fcb_date f) (fcb_time f) s3;
          (r, s5) \<leftarrow> DosCloseSft P V sft_idx False s4;
          let s6 = s5\<lparr>CritErrCode := word_of_int (- r)\<rparr>;
          Some (if r = SUCCESS then (FCB_SUCCESS, put_fcb (f\<lparr>fcb_sftno := 0xff\<rparr>) x, s6) else (FCB_ERROR, x, s6))
        })"

text \<open>The loop ends with the first index that is free or behind the table.\<close>

partial_function (option) close_all ::
  "'w platform \<Rightarrow> ('w, 'v) services_scheme \<Rightarrow> int \<Rightarrow> ('w, 'a) job_scheme \<Rightarrow> ('w, 'a) job_scheme option" where
  "close_all P V idx s =
     (let (q, s1) = idx_to_sft idx s in
      case q of
        None \<Rightarrow> Some s1
      | Some p \<Rightarrow>
          if sft_mode (sft_at p s1) AND O_FCB \<noteq> 0 \<and> sft_psp (sft_at p s1) = cu_psp (job.arena s1)
          then DosCloseSft P V idx False s1 \<bind> (\<lambda>(_, s2). close_all P V (idx + 1) s2)
          else close_all P V (idx + 1) s1)"

definition FcbCloseAll :: "'w platform \<Rightarrow> ('w, 'v) services_scheme \<Rightarrow> ('w, 'a) job_scheme \<Rightarrow> ('w, 'a) job_scheme option" where
  "FcbCloseAll P V s = close_all P V 0 s"

section \<open>Directories\<close>

text \<open>A search block on the stack, before it is filled in.\<close>

definition zero_ff :: ffblk where
  "zero_ff = \<lparr>ff_state = zero_dm, dm_attr_fnd = 0, dm_time = 0, dm_date = 0, dm_size = 0, dm_name = []\<rparr>"

definition drive_name :: "u16 \<Rightarrow> u8 list \<Rightarrow> u8 list" where
  "drive_name FcbDrive nm = (0x41 + ucast FcbDrive - 1) # 0x3a # nm"

partial_function (option) delete_loop ::
  "'w platform \<Rightarrow> 'w media_driver \<Rightarrow> ('w, 'v) net_scheme \<Rightarrow> u16 \<Rightarrow> u8 \<Rightarrow> ffblk \<Rightarrow> ('w, 'a) job_scheme \<Rightarrow> (u8 \<times> ('w, 'a) job_scheme) option" where
  "delete_loop P E V FcbDrive attr ff s =
     DosDelete P E V (drive_name FcbDrive (dm_name ff)) attr (s\<lparr>SecPathName := drive_name FcbDrive (dm_name ff)\<rparr>) \<bind> (\<lambda>(r, s1).
     if r \<noteq> SUCCESS then Some (FCB_ERROR, s1)
     else DosFindNext P E V ff s1 \<bind> (\<lambda>(r, ff1, s2).
       let s3 = s2\<lparr>CritErrCode := word_of_int (- r)\<rparr> in
       if r = SUCCESS then delete_loop P E V FcbDrive attr ff1 s3 else Some (FCB_SUCCESS, s3)))"

definition FcbDelete ::
  "'w platform \<Rightarrow> 'w media_driver \<Rightarrow> ('w, 'v) net_scheme \<Rightarrow> fcb xfcb \<Rightarrow> ('w, 'a) job_scheme \<Rightarrow> (u8 \<times> ('w, 'a) job_scheme) option" where
  "FcbDelete P E V x s =
     (let (FcbDrive, s1) = CommonFcbInit x s in
      if IsDevice P (SecPathName s1) s1 \<noteq> None then Some (FCB_ERROR, s1)
      else do {
        let attr = xfcb_attr x D_ALL;
        (r, ff, s2) \<leftarrow> DosFindFirst P E V (ucast attr) (SecPathName s1) zero_ff s1;
        let s3 = s2\<lparr>CritErrCode := word_of_int (- r)\<rparr>;
        if r \<noteq> SUCCESS then Some (FCB_ERROR, s3) else delete_loop P E V FcbDrive attr ff s3
      })"

text \<open>The new name: the pattern, with the characters of the old name where it has question marks.\<close>

definition overlay :: "u8 list \<Rightarrow> u8 list \<Rightarrow> u8 list" where
  "overlay pat nm = map2 (\<lambda>t n. if t \<noteq> 0x3f then t else n) pat nm"

definition zero_fcb :: fcb where
  "zero_fcb = \<lparr>fcb_drive = 0, fcb_fname = replicate 8 0, fcb_fext = replicate 3 0, fcb_cublock = 0, fcb_recsiz = 0, fcb_fsize = 0, fcb_date = 0,
     fcb_time = 0, fcb_sftno = 0, fcb_attrib_hi = 0, fcb_attrib_lo = 0, fcb_strtclst = 0, fcb_dirclst = 0, fcb_diroff = 0, fcb_curec = 0, fcb_rndm = 0\<rparr>"

definition rename_one ::
  "'w platform \<Rightarrow> 'w media_driver \<Rightarrow> ('w, 'v) net_scheme \<Rightarrow> u16 \<Rightarrow> u8 list \<Rightarrow> ffblk \<Rightarrow> ('w, 'a) fcbs_scheme \<Rightarrow> (bool \<times> ('w, 'a) fcbs_scheme) option" where
  "rename_one P E V FcbDrive pat ff s =
     do {
       let (_, _, lf) = FcbParseFname 0 (dm_name ff) zero_fcb s;
       let nm = overlay pat (fcb_fname lf @ fcb_fext lf);
       let old_name = drive_name FcbDrive (dm_name ff);
       (q, s1) \<leftarrow> truename P E V old_name 0 (s\<lparr>SecPathName := old_name\<rparr>);
       case q of
         Inl _ \<Rightarrow> Some (False, s1)
       | Inr (rc, n1) \<Rightarrow>
           let s2 = s1\<lparr>PriPathName := n1\<rparr> in
           if rc AND IS_DEVICE \<noteq> 0 then Some (False, s2)
           else do {
             let (new_name, _) = FcbNameInit (ucast FcbDrive) nm s2;
             (q, s3) \<leftarrow> truename P E V new_name 0 s2;
             case q of
               Inl _ \<Rightarrow> Some (False, s3)
             | Inr (rc, n2) \<Rightarrow>
                 let s4 = s3\<lparr>SecPathName := n2\<rparr> in
                 if rc AND (IS_NETWORK OR IS_DEVICE) = IS_DEVICE then Some (False, s4)
                 else do {
                   (r, s5) \<leftarrow> DosRenameTrue P V (PriPathName s4) (SecPathName s4) (ucast (wAttr s4)) s4;
                   Some (r = SUCCESS, s5)
                 }
           }
     }"

partial_function (option) rename_loop ::
  "'w platform \<Rightarrow> 'w media_driver \<Rightarrow> ('w, 'v) net_scheme \<Rightarrow> u16 \<Rightarrow> u8 list \<Rightarrow> ffblk \<Rightarrow> ('w, 'a) fcbs_scheme \<Rightarrow> (u8 \<times> ('w, 'a) fcbs_scheme) option" where
  "rename_loop P E V FcbDrive pat ff s =
     rename_one P E V FcbDrive pat ff s \<bind> (\<lambda>(ok, s1).
     if \<not> ok then Some (FCB_ERROR, s1)
     else DosFindNext P E V ff s1 \<bind> (\<lambda>(r, ff1, s2).
       let s3 = s2\<lparr>CritErrCode := word_of_int (- r)\<rparr> in
       if r = SUCCESS then rename_loop P E V FcbDrive pat ff1 s3 else Some (FCB_SUCCESS, s3)))"

definition FcbRename ::
  "'w platform \<Rightarrow> 'w media_driver \<Rightarrow> ('w, 'v) net_scheme \<Rightarrow> rfcb xfcb \<Rightarrow> ('w, 'a) fcbs_scheme \<Rightarrow> (u8 \<times> ('w, 'a) fcbs_scheme) option" where
  "FcbRename P E V x s =
     (let f = ExtFcbToFcb x; (nm, FcbDrive) = FcbNameInit (renDriveID f) (renOldName f @ renOldExtent f) s; s1 = s\<lparr>SecPathName := nm\<rparr>;
          pat = fst (GetNameField (DosUpFChar s1) (renNewName f) 8 False) @ fst (GetNameField (DosUpFChar s1) (renNewExtent f) 3 False)
      in if IsDevice P (SecPathName s1) s1 \<noteq> None then Some (FCB_ERROR, s1)
         else do {
           let s2 = s1\<lparr>wAttr := ucast (xfcb_attr x D_ALL)\<rparr>;
           (r, ff, s3) \<leftarrow> DosFindFirst P E V (wAttr s2) (SecPathName s2) zero_ff s2;
           let s4 = s3\<lparr>CritErrCode := word_of_int (- r)\<rparr>;
           if r \<noteq> SUCCESS then Some (FCB_ERROR, s4) else rename_loop P E V FcbDrive pat ff s4
         })"

text \<open>
  The search writes to the transfer area: the seven bytes of an extended block, the drive and the directory entry. The state of the search is in
  the static \<^verbatim>\<open>Dmatch\<close>, which is set from the block in the first call, not in the next ones.
\<close>

definition put_bytes :: "nat \<Rightarrow> u8 list \<Rightarrow> bytes \<Rightarrow> bytes" where
  "put_bytes i bs d = (\<lambda>k. if i \<le> k \<and> k < i + length bs then bs ! (k - i) else d k)"

definition FcbFindFirstNext ::
  "'w platform \<Rightarrow> 'w media_driver \<Rightarrow> ('w, 'v) net_scheme \<Rightarrow> fcb xfcb \<Rightarrow> bool \<Rightarrow> bytes \<Rightarrow> ('w, 'a) fcbs_scheme \<Rightarrow>
    (u8 \<times> fcb xfcb \<times> bytes \<times> ('w, 'a) fcbs_scheme) option" where
  "FcbFindFirstNext P E V x First buf s =
     (let (FcbDrive, s1) = CommonFcbInit x s; f = ExtFcbToFcb x;
          s2 = (if First
                then s1\<lparr>Dmatch := (Dmatch s1)\<lparr>ff_state := \<lparr>dm_drive = fcb_sftno f, dm_name_pat = DosUpFMem s1 (fcb_fname f @ fcb_fext f),
                       dm_attr_srch = ucast (wAttr s1), dm_entry = fcb_strtclst f, dm_dircluster = ucast (fcb_dirclst f)\<rparr>\<rparr>, wAttr := ucast D_ALL\<rparr>
                else s1);
          (s3, buf1, off) =
            (case x of Plain _ \<Rightarrow> (s2, buf, 0) | Ext r a _ \<Rightarrow> (s2\<lparr>wAttr := ucast a\<rparr>, put_bytes 0 (0xff # r @ [a]) buf, 7))
      in do {
        (r, ff, s4) \<leftarrow> (if First then DosFindFirst P E V (wAttr s3) (SecPathName s3) (Dmatch s3) s3 else DosFindNext P E V (Dmatch s3) s3);
        let s5 = s4\<lparr>CritErrCode := word_of_int (- r), Dmatch := ff\<rparr>;
        if r \<noteq> SUCCESS then Some (FCB_ERROR, x, buf1, s5)
        else Some (FCB_SUCCESS,
          put_fcb (f\<lparr>fcb_dirclst := ucast (dm_dircluster (ff_state ff)), fcb_strtclst := dm_entry (ff_state ff), fcb_sftno := dm_drive (ff_state ff)\<rparr>) x,
          putdirent (SearchDir s5) (buf1(off := ucast FcbDrive)) (off + 1), s5)
      })"

declare close_all.simps [code] delete_loop.simps [code] rename_loop.simps [code]

end
