(* ===== verification/Ioctl.thy ===== *)
theory Ioctl
  imports Fcb
begin

text \<open>
  Device control: \<^verbatim>\<open>kernel/ioctl.c\<close>, on the registers of the caller. The generic requests have a part of their own in the request block; the
  driver's answer to them is a parameter.
\<close>

section \<open>Registers and requests\<close>

record lregs =
  AX :: u16
  BX :: u16
  CX :: u16
  DX :: u16
  SI :: u16
  DI :: u16
  DS :: u16
  ES :: u16

definition lo8 :: "u16 \<Rightarrow> u8" where
  "lo8 w = ucast w"

definition hi8 :: "u16 \<Rightarrow> u8" where
  "hi8 w = ucast (drop_bit 8 w)"

definition set_lo8 :: "u8 \<Rightarrow> u16 \<Rightarrow> u16" where
  "set_lo8 b w = (w AND 0xff00) OR ucast b"

record gen_request =
  r_cat :: u8
  r_fun :: u8
  r_si :: u16
  r_di :: u16
  r_io :: "u16 \<times> u16"

record 'w ioctl_driver =
  gen_execrh :: "request \<Rightarrow> gen_request \<Rightarrow> u32 \<Rightarrow> bytes \<Rightarrow> 'w \<Rightarrow> request \<times> bytes \<times> 'w"

record 'w ioc = "'w fcbs" +
  NetDelay :: u8
  NetRetry :: u8

abbreviation (input) ATTR_IOCTL :: u16 where "ATTR_IOCTL \<equiv> 0x4000"
abbreviation (input) ATTR_REMOTE :: u16 where "ATTR_REMOTE \<equiv> 0x1000"
abbreviation (input) ATTR_QRYIOCTL :: u16 where "ATTR_QRYIOCTL \<equiv> 0x0080"
abbreviation (input) ATTR_GENIOCTL :: u16 where "ATTR_GENIOCTL \<equiv> 0x0040"
abbreviation (input) ATTR_EXCALLS :: u16 where "ATTR_EXCALLS \<equiv> 0x0800"
abbreviation (input) ATTR_SUBST :: u16 where "ATTR_SUBST \<equiv> 0x8000"
abbreviation (input) CDSSUBST_FLAG :: u16 where "CDSSUBST_FLAG \<equiv> 0x1000"

text \<open>The commands of the driver, by subfunction.\<close>

definition ioctl_cmd :: "u8 list" where
  "ioctl_cmd = [0, 0, 0x03, 0x0c, 0x03, 0x0c, 0x06, 0x0a, 0x0f, 0, 0, 0, 0x13, 0x13, 0x17, 0x18, 0x19, 0x19]"

section \<open>Handles\<close>

text \<open>
  The subfunctions on handles that need no driver, and the others on files; the result is an answer, or the device of the handle.
\<close>

definition ioctl_handle ::
  "'w platform \<Rightarrow> lregs \<Rightarrow> ('w, 'a) ioc_scheme \<Rightarrow> ((int \<times> lregs) + u32) \<times> ('w, 'a) ioc_scheme" where
  "ioctl_handle P r s =
     (let AL = lo8 (AX r); (q, s1) = get_sft (BX r) s in
      case q of
        None \<Rightarrow> (Inl (DE_INVLDHNDL, r), s1)
      | Some p \<Rightarrow>
          let sf = sft_at p s1; flags = sft_flags sf; device = (flags AND SFT_FDEVICE \<noteq> 0) in
          if AL = 0x00 then
            let a = (flags AND 0xff) OR (if device then dh_attr P (sft_dcb sf) AND 0xff00 else 0) in (Inl (SUCCESS, r\<lparr>AX := a, DX := a\<rparr>), s1)
          else if AL = 0x01 then
            if \<not> device then (Inl (DE_INVLDFUNC, r), s1)
            else if hi8 (DX r) \<noteq> 0 then (Inl (DE_INVLDDATA, r), s1)
            else (Inl (SUCCESS, r\<lparr>AX := set_lo8 (lo8 flags) (AX r)\<rparr>),
                  upd_sft p (\<lambda>f. f\<lparr>sft_flags := set_lo8 (0x80 OR lo8 (DX r)) (sft_flags f)\<rparr>) s1)
          else if AL = 0x0a then (Inl (SUCCESS, r\<lparr>DX := flags, AX := 0\<rparr>), s1)
          else if \<not> device then
            if AL = 0x06 then (Inl (SUCCESS, r\<lparr>AX := set_lo8 (if sft_posit sf \<ge> sft_size sf then 0 else 0xff) (AX r)\<rparr>), s1)
            else if AL = 0x07 then (Inl (SUCCESS, r\<lparr>AX := set_lo8 0 (AX r)\<rparr>), s1)
            else (Inl (DE_INVLDFUNC, r), s1)
          else (Inr (sft_dcb sf), s1\<lparr>CharReqHdr := (CharReqHdr s1)\<lparr>r_unit := 0\<rparr>\<rparr>))"

section \<open>Drives\<close>

text \<open>A null pointer in place of a parameter block is used only after a test that excludes it.\<close>

definition ioctl_drive ::
  "'w platform \<Rightarrow> lregs \<Rightarrow> ('w, 'a) ioc_scheme \<Rightarrow> (((int \<times> lregs) + u32) \<times> ('w, 'a) ioc_scheme) option" where
  "ioctl_drive P r s =
     (let AL = lo8 (AX r); d = ucast (lo8 (BX r) AND 0x1f) :: u16; dpbp = get_dpb (if d = 0 then scast (default_drive s) else d - 1) s;
          s1 = (if dpbp \<noteq> 0 then s\<lparr>CharReqHdr := (CharReqHdr s)\<lparr>r_unit := dpb_subunit (dpbs s dpbp)\<rparr>\<rparr> else s);
          attr = (if dpbp \<noteq> 0 then dh_attr P (dpb_device (dpbs s dpbp)) else ATTR_REMOTE)
      in if dpbp = 0 \<and> AL \<noteq> 8 \<and> AL \<noteq> 9 then Some (Inl (DE_INVLDDRV, r), s1)
         else if AL = 0x08 then
           (case get_cds1 d s1 of
              None \<Rightarrow> Some (Inl (DE_INVLDDRV, r), s1)
            | Some cdsp \<Rightarrow>
                if cdsFlags cdsp AND CDSNETWDRV \<noteq> 0 then Some (Inl (DE_INVLDFUNC, r), s1)
                else if dpbp = 0 then None
                else Some (Inl (SUCCESS, r\<lparr>AX := (if dpb_flags (dpbs s1 dpbp) = 0 then 1 else 0)\<rparr>), s1))
         else if AL = 0x09 then
           (case get_cds1 d s1 of
              None \<Rightarrow> Some (Inl (DE_INVLDDRV, r), s1)
            | Some cdsp \<Rightarrow>
                Some (Inl (SUCCESS, r\<lparr>AX := S_DONE OR S_BUSY, DX := (if cdsFlags cdsp AND CDSSUBST_FLAG \<noteq> 0 then attr OR ATTR_SUBST else attr)\<rparr>), s1))
         else if AL = 0x0d \<and> CX r AND NOT (0x486b - 0x084a) = 0x084a then Some (Inl (SUCCESS, r\<lparr>AX := 0\<rparr>), s1)
         else Some (Inr (dpb_device (dpbs s1 dpbp)), s1))"

section \<open>The call\<close>

definition ioctl_request ::
  "'w platform \<Rightarrow> ('w, 'g) ioctl_driver_scheme \<Rightarrow> lregs \<Rightarrow> u32 \<Rightarrow> bytes \<Rightarrow> ('w, 'a) ioc_scheme \<Rightarrow> int \<times> lregs \<times> bytes \<times> ('w, 'a) ioc_scheme" where
  "ioctl_request P G r dev buf s =
     (let AL = lo8 (AX r);
          testattr = (if AL \<le> 0x05 then ATTR_IOCTL else if AL \<le> 0x07 then 0xffff else if AL \<le> 0x08 then ATTR_EXCALLS
                      else if AL \<le> 0x0f then ATTR_GENIOCTL else ATTR_QRYIOCTL)
      in if dh_attr P dev AND testattr = 0 then (DE_INVLDFUNC, r, buf, s)
         else
           let generic = (AL = 0x0c \<or> AL = 0x0d \<or> AL \<ge> 0x10);
               rq = (CharReqHdr s)\<lparr>r_command := ioctl_cmd ! unat AL, r_length := 30, r_status := 0\<rparr>;
               (rq', buf', w) =
                 (if generic
                  then gen_execrh G rq \<lparr>r_cat = hi8 (CX r), r_fun = lo8 (CX r), r_si = SI r, r_di = DI r, r_io = (DS r, DX r)\<rparr> dev buf (world s)
                  else execrh P (rq\<lparr>r_count := CX r\<rparr>) dev buf (world s));
               s1 = s\<lparr>CharReqHdr := rq', world := w\<rparr>; status = r_status rq'
           in if status AND S_ERROR \<noteq> 0 then (DE_ACCESS, r, buf', s1\<lparr>CritErrCode := (status AND S_MASK) + 0x13\<rparr>)
              else
                (SUCCESS,
                 if AL \<le> 0x05 then r\<lparr>AX := r_count rq'\<rparr>
                 else if AL \<le> 0x07 then r\<lparr>AX := (if status AND S_BUSY \<noteq> 0 then 0 else 0xff)\<rparr>
                 else if AL = 0x08 then r\<lparr>AX := (if status AND S_BUSY \<noteq> 0 then 1 else 0)\<rparr>
                 else if AL = 0x0e \<or> AL = 0x0f then r\<lparr>AX := set_lo8 (r_unit rq') (AX r)\<rparr>
                 else r\<lparr>AX := status\<rparr>, buf', s1))"

definition DosDevIOctl ::
  "'w platform \<Rightarrow> ('w, 'g) ioctl_driver_scheme \<Rightarrow> lregs \<Rightarrow> bytes \<Rightarrow> ('w, 'a) ioc_scheme \<Rightarrow> (int \<times> lregs \<times> bytes \<times> ('w, 'a) ioc_scheme) option" where
  "DosDevIOctl P G r buf s =
     (let AL = lo8 (AX r) in
      if AL > 0x11 then Some (DE_INVLDFUNC, r, buf, s)
      else if AL = 0x0b then Some (SUCCESS, r, buf, if DX r \<noteq> 0 then s\<lparr>NetDelay := lo8 (CX r), NetRetry := lo8 (DX r)\<rparr> else s\<lparr>NetDelay := lo8 (CX r)\<rparr>)
      else do {
        (q, s1) \<leftarrow>
          (if AL \<in> {0x00, 0x01, 0x02, 0x03, 0x06, 0x07, 0x0a, 0x0c, 0x10} then Some (ioctl_handle P r s) else ioctl_drive P r s);
        case q of
          Inl (rc, r1) \<Rightarrow> Some (rc, r1, buf, s1)
        | Inr dev \<Rightarrow> Some (ioctl_request P G r dev buf s1)
      })"

end
