(* ===== verification/Fat32.thy ===== *)
theory Fat32
  imports Ioctl
begin

text \<open>
  The functions 73h for FAT32: \<^verbatim>\<open>int21_fat32\<close> of \<^verbatim>\<open>kernel/inthndlr.c\<close>. The structures of \<^verbatim>\<open>hdr/xstructs.h\<close> that the caller has at ES:DI,
  and the block of an absolute transfer at DS:BX, are arguments; their contents after the call are part of the result.
\<close>

section \<open>Structures of the caller\<close>

record HugeSectorBlock =
  hs_blkno :: u32
  hs_nblks :: u16
  hs_seg :: u16

text \<open>
  The union of \<^verbatim>\<open>xdpbforformat\<close> by its first two double words: the number of free clusters or the new value, and the first free cluster or
  the old value. The second is also the pointer to a BIOS parameter block, which is \<^verbatim>\<open>xdff_bpb\<close>.
\<close>

record xdpbforformat =
  xdff_datasize :: u16
  xdff_version :: u16
  xdff_function :: u32
  xdff_f0 :: u32
  xdff_f1 :: u32
  xdff_bpb :: bpb

record xdpbdata =
  xdd_dpbsize :: u16
  xdd_dpb :: dpb

record fat32_args =
  xddp :: xdpbdata
  xfsp :: xfreespace
  xdffp :: xdpbforformat
  SectorBlock :: HugeSectorBlock
  sector_buf :: bytes

abbreviation (input) DE_INVLDBUF :: int where "DE_INVLDBUF \<equiv> -24"
abbreviation (input) DE_INVLDPARM :: int where "DE_INVLDPARM \<equiv> -0x57"

text \<open>The table of the disk driver that \<^verbatim>\<open>getddt\<close> gives access to belongs to the driver; \<^verbatim>\<open>set_ddt_bpb\<close> stores a parameter block in it.\<close>

record 'w disk_tables = "'w ioctl_driver" +
  set_ddt_bpb :: "u8 \<Rightarrow> bpb \<Rightarrow> 'w \<Rightarrow> 'w"

section \<open>Parameter blocks of drives\<close>

text \<open>The code after \<^verbatim>\<open>flush_buffers\<close>: the parameters of the volume are read again.\<close>

definition rebuild_dpb ::
  "'w platform \<Rightarrow> 'w media_driver \<Rightarrow> u32 \<Rightarrow> ('w, 'a) ioc_scheme \<Rightarrow> (int \<times> ('w, 'a) ioc_scheme) option" where
  "rebuild_dpb P E dpbp s =
     do {
       (_, s1) \<leftarrow> flush_buffers P (scast (dpb_unit (dpbs s dpbp))) s;
       (rc, s2) \<leftarrow> media_check P E dpbp (upd_dpb dpbp (\<lambda>d. d\<lparr>dpb_flags := 0xff\<rparr>) s1);
       Some (if rc < 0 then DE_INVLDDRV else SUCCESS, s2)
     }"

text \<open>The block that function 7302h returns: for FAT12 and FAT16 the fields for FAT32 are filled in from the others.\<close>

definition extended_dpb :: "dpb \<Rightarrow> dpb" where
  "extended_dpb d =
     (if \<not> ISFAT32 d \<and> dpb_xsize d \<noteq> ucast (dpb_size d) then
        (dpb16to32 (d\<lparr>dpb_xnfreeclst := push_bit 16 (if dpb_nfreeclst d = 0xffff then 0xffff else 0) OR ucast (dpb_nfreeclst d)\<rparr>))
          \<lparr>dpb_xfatsize := ucast (dpb_fatsize d), dpb_xcluster := (if dpb_cluster d = 0xffff then 0xffffffff else ucast (dpb_cluster d))\<rparr>
      else d)"

definition set_counts ::
  "'w platform \<Rightarrow> u32 \<Rightarrow> u32 \<Rightarrow> u32 \<Rightarrow> ('w, 'a) ioc_scheme \<Rightarrow> (int \<times> ('w, 'a) ioc_scheme) option" where
  "set_counts P dpbp nfreeclst cluster s =
     (let d = dpbs s dpbp in
      if ISFAT32 d then
        if dpb_xfsinfosec d = 0xffff \<and> (nfreeclst \<noteq> 0 \<or> cluster \<noteq> 0) \<or> nfreeclst = 1 \<or> nfreeclst > dpb_xsize d \<or> cluster = 1 \<or> cluster > dpb_xsize d
        then Some (DE_INVLDPARM, s)
        else do { s1 \<leftarrow> write_fsinfo P dpbp (upd_dpb dpbp (\<lambda>d. d\<lparr>dpb_xnfreeclst := nfreeclst, dpb_xcluster := cluster\<rparr>) s); Some (SUCCESS, s1) }
      else
        let nf = ucast nfreeclst :: u16; cl = ucast cluster :: u16 in
        if nf = 1 \<or> nf > dpb_size d \<or> cl = 1 \<or> cl > dpb_size d then Some (DE_INVLDPARM, s)
        else Some (SUCCESS, upd_dpb dpbp (\<lambda>d. d\<lparr>dpb_xnfreeclst := (dpb_xnfreeclst d AND 0xffff0000) OR ucast nf, dpb_cluster := cl\<rparr>) s))"

text \<open>The active table or the root directory, by \<^verbatim>\<open>mirror\<close>; a block that cannot be read is a null pointer.\<close>

definition set_get ::
  "'w platform \<Rightarrow> 'w media_driver \<Rightarrow> bool \<Rightarrow> u32 \<Rightarrow> xdpbforformat \<Rightarrow> ('w, 'a) ioc_scheme \<Rightarrow> (int \<times> xdpbforformat \<times> ('w, 'a) ioc_scheme) option" where
  "set_get P E mirror dpbp x s =
     (let d = dpbs s dpbp; v = xdff_f0 x in
      if \<not> ISFAT32 d then Some (DE_INVLDPARM, x, s)
      else if mirror \<and> v \<noteq> 0xffffffff \<and> v AND NOT (0xf OR 0x80) \<noteq> 0 then Some (DE_INVLDPARM, x, s)
      else if \<not> mirror \<and> v \<noteq> 0xffffffff \<and> (v < 2 \<or> v > dpb_xsize d) then Some (DE_INVLDPARM, x, s)
      else do {
        let x1 = x\<lparr>xdff_f1 := (if mirror then ucast (dpb_xflags d) else dpb_xrootclst d)\<rparr>;
        s1 \<leftarrow> (if v = 0xffffffff then Some s
               else do {
                 (q, s1) \<leftarrow> getblock P 1 (scast (dpb_unit d)) s;
                 bp \<leftarrow> q;
                 Some (upd_buf bp (\<lambda>b. b\<lparr>b_flag := (b_flag b AND NOT (BFR_DATA OR BFR_DIR OR BFR_FAT)) OR BFR_VALID OR BFR_DIRTY,
                   b_buffer := (if mirror then fputword (b_buffer b) (11 + 29) (ucast v) else fputlong (b_buffer b) (11 + 33) v)\<rparr>) s1)
               });
        (rc, s2) \<leftarrow> rebuild_dpb P E dpbp s1;
        Some (rc, x1, s2)
      })"

definition format_dpb ::
  "'w platform \<Rightarrow> 'w media_driver \<Rightarrow> ('w, 'g) disk_tables_scheme \<Rightarrow> u8 \<Rightarrow> u32 \<Rightarrow> xdpbforformat \<Rightarrow> ('w, 'a) ioc_scheme \<Rightarrow>
    (int \<times> xdpbforformat \<times> ('w, 'a) ioc_scheme) option" where
  "format_dpb P E G DL dpbp x0 s =
     (let x = x0\<lparr>xdff_datasize := 24, xdff_version := 0\<rparr>; f = ucast (xdff_function x) :: u16 in
      if f = 0 then map_option (\<lambda>(rc, s1). (rc, x, s1)) (set_counts P dpbp (xdff_f0 x) (xdff_f1 x) s)
      else if f = 1 then map_option (\<lambda>(rc, s1). (rc, x, s1)) (rebuild_dpb P E dpbp (s\<lparr>world := set_ddt_bpb G DL (xdff_bpb x) (world s)\<rparr>))
      else if f = 2 then map_option (\<lambda>(rc, s1). (rc, x, s1)) (rebuild_dpb P E dpbp s)
      else if f = 3 \<or> f = 4 then set_get P E (f = 3) dpbp x s
      else Some (DE_INVLDFUNC, x, s))"

section \<open>The functions\<close>

definition int21_fat32 ::
  "'w platform \<Rightarrow> 'w media_driver \<Rightarrow> ('w, 'v) console_scheme \<Rightarrow> ('w, 'g) disk_tables_scheme \<Rightarrow> lregs \<Rightarrow> u8 list \<Rightarrow> fat32_args \<Rightarrow>
    ('w, 'a) ioc_scheme \<Rightarrow> (int \<times> lregs \<times> fat32_args \<times> ('w, 'a) ioc_scheme) option" where
  "int21_fat32 P E V G r DriveString a s =
     (let AL = lo8 (AX r); DL = lo8 (DX r) in
      if AL = 0x02 then
        if CX r < 63 then Some (DE_INVLDBUF, r, a, s)
        else (case GetDriveDPB DL s of
            Inl e \<Rightarrow> Some (e, r, a, s)
          | Inr dpbp \<Rightarrow> do {
              (rc, s1) \<leftarrow> rebuild_dpb P E dpbp s;
              Some (rc, r, if rc < SUCCESS then a else a\<lparr>xddp := \<lparr>xdd_dpbsize = 61, xdd_dpb = extended_dpb (dpbs s1 dpbp)\<rparr>\<rparr>, s1)
            })
      else if AL = 0x03 then
        if CX r < 44 then Some (DE_INVLDBUF, r, a, s)
        else do {
          (q, s1) \<leftarrow> DosGetExtFree P E V DriveString s;
          case q of
            Inl e \<Rightarrow> Some (e, r, a\<lparr>xfsp := \<lparr>xfs_datasize = 44, xfs_clussize = 0, xfs_secsize = 0, xfs_freeclusters = 0, xfs_totalclusters = 0,
              xfs_freesectors = 0, xfs_totalsectors = 0, xfs_freeunits = 0, xfs_totalunits = 0\<rparr>\<rparr>, s1)
          | Inr x \<Rightarrow> Some (SUCCESS, r, a\<lparr>xfsp := x\<rparr>, s1)
        }
      else if AL = 0x04 then
        if CX r < 24 then Some (DE_INVLDBUF, r, a, s)
        else (case GetDriveDPB DL s of
            Inl e \<Rightarrow> Some (e, r, a, s)
          | Inr dpbp \<Rightarrow> do { (rc, x, s1) \<leftarrow> format_dpb P E G DL dpbp (xdffp a) s; Some (rc, r, a\<lparr>xdffp := x\<rparr>, s1) })
      else if AL = 0x05 then
        if CX r \<noteq> 0xffff \<or> SI r AND NOT 0x6001 \<noteq> 0 then Some (DE_INVLDPARM, r, a, s)
        else if DL > lastdrive s \<or> DL = 0 then Some (-0x207, r, a, s)
        else do {
          let mode = (if SI r AND 1 = 0 then DSKREADINT25 else DSKWRITEINT26);
          let b = SectorBlock a;
          let dsk = ucast DL - 1;
          (st, buf, s1) \<leftarrow> dskxfer P dsk (hs_blkno b) (hs_seg b) (sector_buf a) (hs_nblks b) mode s;
          s2 \<leftarrow> (if mode = DSKWRITEINT26 \<and> st = 0 then setinvld dsk s1 else Some s1);
          Some (if st > 0 then -0x20c else SUCCESS, r\<lparr>AX := st\<rparr>, a\<lparr>sector_buf := buf\<rparr>, s2)
        }
      else Some (DE_INVLDFUNC, r, a, s))"

end
