(* ===== verification/Int21.thy ===== *)
theory Int21
  imports Fat32
begin

text \<open>
  The dispatcher of the DOS functions: \<^verbatim>\<open>int21_service\<close> of \<^verbatim>\<open>kernel/inthndlr.c\<close>, on the registers of the caller. The cases are grouped:
  characters, drives and the clock, file control blocks, files and directories, memory, FAT32. The functions that end or start a program or
  deliver pointers into the kernel, and those for national languages beyond upper case and for the network, are not among them; for them the
  result is \<^const>\<open>None\<close>, as for a function that does not return.
\<close>

section \<open>State\<close>

text \<open>
  What the kernel finds in the memory of the program, by the registers that point to it: strings, blocks, and the bytes at DS:DX. The
  transfer area is there as a search block and as bytes, and \<^verbatim>\<open>zero_flag\<close> is the flag in the frame of the interrupt. Of the program
  segment the version to report is in the state of the kernel; the pointer to the frame of the interrupt that is stored there is left out.
\<close>

record uargs =
  str_ds_dx :: "u8 list"
  str_ds_si :: "u8 list"
  str_es_di :: "u8 list"
  buf_ds_dx :: bytes
  fcb_ds_dx :: "fcb xfcb"
  rfcb_ds_dx :: "rfcb xfcb"
  fcb_es_di :: fcb
  ff_dta :: ffblk
  buf_dta :: bytes
  media_ds_bx :: u8
  dollar_ds_dx :: "u8 list"
  regs_ds_dx :: lregs
  fat32 :: fat32_args
  code_cs_ip :: bytes
  zero_flag :: bool

record 'w sys = "'w ioc" +
  switchar :: u8
  break_ena :: u8
  CritErrLocus :: u8
  CritErrAction :: u8
  CritErrClass :: u8
  CritErrDev :: u32
  junk_q :: u16
  return_code :: u16
  BootDrive :: u8
  CPULevel :: u8
  os_major :: u8
  os_minor :: u8
  version_flags :: u8
  os_setver_major :: u8
  os_setver_minor :: u8
  os_release :: "u16 \<times> u16"
  Int21AX :: u16
  ps_retdosver :: u16
  ReturnAnyDosVersionExpected :: u8
  behind_tab :: "nat \<Rightarrow> u8"

definition set_hi8 :: "u8 \<Rightarrow> u16 \<Rightarrow> u16" where
  "set_hi8 b w = (w AND 0x00ff) OR push_bit 8 (ucast b)"

text \<open>How a case ends: the labels at the end of the function.\<close>

datatype check = Exit | ErrorCarry | ErrorInvalid | ErrorExit int | ShortCheck int | LongCheck int | ClearCarry check

definition error_exit :: "int \<Rightarrow> lregs \<Rightarrow> ('w, 'a) sys_scheme \<Rightarrow> lregs \<times> bool \<times> ('w, 'a) sys_scheme" where
  "error_exit rc r s =
     (let a = word_of_int (- rc) in (r\<lparr>AX := a\<rparr>, True, if CritErrCode s = 0 then s\<lparr>CritErrCode := a\<rparr> else s))"

fun finish :: "check \<Rightarrow> lregs \<Rightarrow> bool \<Rightarrow> ('w, 'a) sys_scheme \<Rightarrow> lregs \<times> bool \<times> ('w, 'a) sys_scheme" where
  "finish Exit r carry s = (r, carry, s)"
| "finish ErrorCarry r carry s = (r, True, s)"
| "finish ErrorInvalid r carry s = error_exit DE_INVLDFUNC r s"
| "finish (ErrorExit rc) r carry s = error_exit rc r s"
| "finish (ShortCheck rc) r carry s = (if rc < SUCCESS then error_exit rc r s else (r, carry, s))"
| "finish (LongCheck lrc) r carry s = (if lrc \<ge> SUCCESS then (r\<lparr>AX := word_of_int lrc\<rparr>, carry, s) else error_exit lrc r s)"
| "finish (ClearCarry c) r carry s = finish c r False s"

abbreviation (input) ret :: "check \<Rightarrow> lregs \<Rightarrow> uargs \<Rightarrow> ('w, 'a) sys_scheme \<Rightarrow> (check \<times> lregs \<times> uargs \<times> ('w, 'a) sys_scheme) option" where
  "ret c r u s \<equiv> Some (c, r, u, s)"

abbreviation (input) set_AL :: "u8 \<Rightarrow> lregs \<Rightarrow> lregs" where
  "set_AL b r \<equiv> r\<lparr>AX := set_lo8 b (AX r)\<rparr>"

abbreviation (input) open_code :: "int + (u16 \<times> int) \<Rightarrow> int" where
  "open_code q \<equiv> (case q of Inl e \<Rightarrow> e | Inr (h, _) \<Rightarrow> uint h)"

section \<open>Drives and the clock\<close>

definition regs_date :: "lregs \<Rightarrow> dosdate" where
  "regs_date r = \<lparr>year = CX r, monthday = lo8 (DX r), month = hi8 (DX r)\<rparr>"

definition regs_time :: "lregs \<Rightarrow> dostime" where
  "regs_time r = \<lparr>minute = lo8 (CX r), hour = hi8 (CX r), hundredth = lo8 (DX r), second = hi8 (DX r)\<rparr>"

definition pair8 :: "u8 \<Rightarrow> u8 \<Rightarrow> u16" where
  "pair8 h l = push_bit 8 (ucast h) OR ucast l"

text \<open>Functions 1Fh and 32h; a FAT32 volume is refused.\<close>

definition int21_dpb ::
  "'w platform \<Rightarrow> 'w media_driver \<Rightarrow> lregs \<Rightarrow> ('w, 'a) sys_scheme \<Rightarrow> (lregs \<times> ('w, 'a) sys_scheme) option" where
  "int21_dpb P E r s =
     (let DL = lo8 (DX r); dpbp = get_dpb (if DL = 0 \<or> hi8 (AX r) = 0x1f then scast (default_drive s) else ucast DL - 1) s in
      if dpbp = 0 then Some (set_AL 0xff r, s\<lparr>CritErrCode := 15\<rparr>)
      else do {
        (_, s1) \<leftarrow> flush_buffers P (scast (dpb_unit (dpbs s dpbp))) s;
        (rc, s2) \<leftarrow> media_check P E dpbp (upd_dpb dpbp (\<lambda>d. d\<lparr>dpb_flags := 0xff\<rparr>) s1);
        Some (if rc < 0 \<or> ISFAT32 (dpbs s2 dpbp) then (set_AL 0xff r, s2\<lparr>CritErrCode := 15\<rparr>)
              else (set_AL 0 (r\<lparr>DS := ucast (drop_bit 16 dpbp), BX := ucast dpbp\<rparr>), s2))
      })"

text \<open>Functions 1Bh and 1Ch return the address of the media byte in DS:BX; here the byte itself is returned.\<close>

definition int21_drive ::
  "'w platform \<Rightarrow> 'w media_driver \<Rightarrow> ('w, 'v) console_scheme \<Rightarrow> lregs \<Rightarrow> uargs \<Rightarrow> ('w, 'a) sys_scheme \<Rightarrow>
    (check \<times> lregs \<times> uargs \<times> ('w, 'a) sys_scheme) option" where
  "int21_drive P E V r u s =
     (let AH = hi8 (AX r); AL = lo8 (AX r); DL = lo8 (DX r) in
      if AH = 0x0d then do { (_, s1) \<leftarrow> flush_all P s; ret Exit r u s1 }
      else if AH = 0x0e then let (a, s1) = DosSelectDrv DL s in ret Exit (set_AL a r) u s1
      else if AH = 0x19 then ret Exit (set_AL (default_drive s) r) u s
      else if AH = 0x1a then ret Exit r u (s\<lparr>dta_ptr := (DS r, DX r)\<rparr>)
      else if AH = 0x1b \<or> AH = 0x1c then do {
        let r1 = (if AH = 0x1b then r\<lparr>DX := set_lo8 0 (DX r)\<rparr> else r);
        (q, s1) \<leftarrow> FatGetDrvData P E V (lo8 (DX r1)) s;
        case q of
          None \<Rightarrow> ret Exit (set_AL 0xff r1) u s1
        | Some (mdb, spc, bps, nc) \<Rightarrow> ret Exit (set_AL spc (r1\<lparr>CX := bps, DX := nc\<rparr>)) (u\<lparr>media_ds_bx := mdb\<rparr>) s1
      }
      else if AH = 0x1f \<or> AH = 0x32 then do { (r1, s1) \<leftarrow> int21_dpb P E r s; ret Exit r1 u s1 }
      else if AH = 0x2a then do {
        (wd, d, s1) \<leftarrow> DosGetDate P (regs_date r) s;
        ret Exit (set_AL wd (r\<lparr>CX := year d, DX := pair8 (month d) (monthday d)\<rparr>)) u s1
      }
      else if AH = 0x2b then do { (rc, s1) \<leftarrow> DosSetDate P (regs_date r) s; ret Exit (set_AL (if rc = SUCCESS then 0 else 0xff) r) u s1 }
      else if AH = 0x2c then do {
        (t, s1) \<leftarrow> DosGetTime P (regs_time r) s;
        ret Exit (r\<lparr>CX := pair8 (hour t) (minute t), DX := pair8 (second t) (hundredth t)\<rparr>) u s1
      }
      else if AH = 0x2d then do { (rc, s1) \<leftarrow> DosSetTime P (regs_time r) s; ret Exit (set_AL (if rc = SUCCESS then 0 else 0xff) r) u s1 }
      else if AH = 0x2e then ret Exit r u (s\<lparr>verify_ena := AL AND 1\<rparr>)
      else if AH = 0x2f then ret Exit (r\<lparr>BX := snd (dta_ptr s), ES := fst (dta_ptr s)\<rparr>) u s
      else if AH = 0x36 then do {
        (q, s1) \<leftarrow> DosGetFree P E V DL True s;
        case q of
          None \<Rightarrow> ret Exit (r\<lparr>AX := 0xffff\<rparr>) u s1
        | Some (spc, navc, bps, nc) \<Rightarrow> ret Exit (r\<lparr>AX := spc, BX := navc, CX := bps, DX := nc\<rparr>) u s1
      }
      else if AH = 0x37 then
        if AL = 0x00 then ret Exit (set_AL 0 (r\<lparr>DX := set_lo8 (switchar s) (DX r)\<rparr>)) u s
        else if AL = 0x01 then ret Exit (set_AL 0 r) u (s\<lparr>switchar := DL\<rparr>)
        else ret ErrorInvalid r u s
      else if AH = 0x54 then ret Exit (set_AL (verify_ena s) r) u s
      else if AH = 0x59 then
        ret Exit (r\<lparr>AX := CritErrCode s, CX := set_hi8 (CritErrLocus s) (CX r), BX := pair8 (CritErrClass s) (CritErrAction s),
          DI := ucast (CritErrDev s), ES := ucast (drop_bit 16 (CritErrDev s))\<rparr>) u s
      else if AH \<in> {0x18, 0x1d, 0x1e, 0x20, 0x61, 0x6b} \<or> AH \<ge> 0x6d \<and> AH \<noteq> 0x71 \<and> AH \<noteq> 0x73 then ret Exit (set_AL 0 r) u s
      else None)"

section \<open>File control blocks\<close>

definition int21_fcb ::
  "'w platform \<Rightarrow> 'w media_driver \<Rightarrow> ('w, 'v) console_scheme \<Rightarrow> lregs \<Rightarrow> uargs \<Rightarrow> ('w, 'a) sys_scheme \<Rightarrow>
    (check \<times> lregs \<times> uargs \<times> ('w, 'a) sys_scheme) option" where
  "int21_fcb P E V r u s =
     (let AH = hi8 (AX r); x = fcb_ds_dx u in
      if AH = 0x0f \<or> AH = 0x16 then do {
        (a, x1, s1) \<leftarrow> FcbOpen P E V x (if AH = 0x0f then O_FCB OR O_LEGACY OR O_OPEN OR 2 else O_FCB OR O_LEGACY OR O_CREAT OR O_TRUNC OR 2) s;
        ret Exit (set_AL a r) (u\<lparr>fcb_ds_dx := x1\<rparr>) s1
      }
      else if AH = 0x10 then do { (a, x1, s1) \<leftarrow> FcbClose P V x s; ret Exit (set_AL a r) (u\<lparr>fcb_ds_dx := x1\<rparr>) s1 }
      else if AH = 0x11 \<or> AH = 0x12 then do {
        (a, x1, b1, s1) \<leftarrow> FcbFindFirstNext P E V x (AH = 0x11) (buf_dta u) s;
        ret Exit (set_AL a r) (u\<lparr>fcb_ds_dx := x1, buf_dta := b1\<rparr>) s1
      }
      else if AH = 0x13 then do { (a, s1) \<leftarrow> FcbDelete P E V x s; ret Exit (set_AL a r) u s1 }
      else if AH = 0x14 \<or> AH = 0x15 then do {
        (a, x1, b1, s1) \<leftarrow> FcbReadWrite P V x 1 (if AH = 0x14 then 1 else 2) (buf_dta u) s;
        ret Exit (set_AL a r) (u\<lparr>fcb_ds_dx := x1, buf_dta := b1\<rparr>) s1
      }
      else if AH = 0x17 then do { (a, s1) \<leftarrow> FcbRename P E V (rfcb_ds_dx u) s; ret Exit (set_AL a r) u s1 }
      else if AH = 0x21 \<or> AH = 0x22 then do {
        (a, x1, b1, s1) \<leftarrow> FcbRandomIO P V x (if AH = 0x21 then 1 else 2) (buf_dta u) s;
        ret Exit (set_AL a r) (u\<lparr>fcb_ds_dx := x1, buf_dta := b1\<rparr>) s1
      }
      else if AH = 0x23 then do { (a, x1, s1) \<leftarrow> FcbGetFileSize P E V x s; ret Exit (set_AL a r) (u\<lparr>fcb_ds_dx := x1\<rparr>) s1 }
      else if AH = 0x24 then ret Exit r (u\<lparr>fcb_ds_dx := FcbSetRandom x\<rparr>) s
      else if AH = 0x27 \<or> AH = 0x28 then do {
        (a, n, x1, b1, s1) \<leftarrow> FcbRandomBlockIO P V x (CX r) ((if AH = 0x27 then 1 else 2) OR XFR_FCB_RANDOM) (buf_dta u) s;
        ret Exit (set_AL a (r\<lparr>CX := n\<rparr>)) (u\<lparr>fcb_ds_dx := x1, buf_dta := b1\<rparr>) s1
      }
      else if AH = 0x29 then
        let (a, rst, f) = FcbParseFname (lo8 (AX r)) (str_ds_si u) (fcb_es_di u) s in
        ret Exit (set_AL a (r\<lparr>SI := SI r + of_nat (length (str_ds_si u) - length rst)\<rparr>)) (u\<lparr>fcb_es_di := f\<rparr>) s
      else None)"

section \<open>Files and directories\<close>

definition int21_attr ::
  "'w platform \<Rightarrow> 'w media_driver \<Rightarrow> ('w, 'v) console_scheme \<Rightarrow> lregs \<Rightarrow> uargs \<Rightarrow> ('w, 'a) sys_scheme \<Rightarrow>
    (check \<times> lregs \<times> uargs \<times> ('w, 'a) sys_scheme) option" where
  "int21_attr P E V r u s =
     (let AL = lo8 (AX r); CL = lo8 (CX r) in
      if AL = 0x00 then do {
        (rc, s1) \<leftarrow> DosGetFattr P E V (str_ds_dx u) s;
        ret (ShortCheck rc) (if rc \<ge> SUCCESS then r\<lparr>CX := word_of_int rc\<rparr> else r) u s1
      }
      else if AL = 0x01 then do { (rc, s1) \<leftarrow> DosSetFattr P E V (str_ds_dx u) (CX r) s; ret (ShortCheck rc) (r\<lparr>AX := CX r\<rparr>) u s1 }
      else if AL = 0xff \<and> (CL = 0x39 \<or> CL = 0x3a) then do { (rc, s1) \<leftarrow> DosMkRmdir P E V (str_ds_dx u) CL s; ret (ShortCheck rc) r u s1 }
      else if AL = 0xff \<and> CL = 0x56 then do { (rc, s1) \<leftarrow> DosRename P E V (str_ds_dx u) (str_es_di u) s; ret (ShortCheck rc) r u s1 }
      else ret ErrorInvalid r u s)"

definition int21_ioctl ::
  "'w platform \<Rightarrow> ('w, 'g) disk_tables_scheme \<Rightarrow> lregs \<Rightarrow> uargs \<Rightarrow> ('w, 'a) sys_scheme \<Rightarrow> (check \<times> lregs \<times> uargs \<times> ('w, 'a) sys_scheme) option" where
  "int21_ioctl P G r u s =
     do {
       (rc, r1, b1, s1) \<leftarrow> DosDevIOctl P G r (buf_ds_dx u) s;
       let u1 = u\<lparr>buf_ds_dx := b1\<rparr>;
       if rc < SUCCESS then
         let a = word_of_int (- rc) in
         ret ErrorCarry (r1\<lparr>AX := a\<rparr>) u1 (if rc \<noteq> DE_DEVICE \<and> rc \<noteq> DE_ACCESS then s1\<lparr>CritErrCode := a\<rparr> else s1)
       else ret Exit r1 u1 s1
     }"

text \<open>The functions on handles.\<close>

definition int21_handle ::
  "'w platform \<Rightarrow> 'w media_driver \<Rightarrow> ('w, 'v) console_scheme \<Rightarrow> lregs \<Rightarrow> uargs \<Rightarrow> ('w, 'a) sys_scheme \<Rightarrow>
    (check \<times> lregs \<times> uargs \<times> ('w, 'a) sys_scheme) option" where
  "int21_handle P E V r u s =
     (let AH = hi8 (AX r); AL = lo8 (AX r) in
      if AH = 0x3c then do {
        (q, s1) \<leftarrow> DosOpen P E V (str_ds_dx u) (O_LEGACY OR 2 OR O_CREAT OR O_TRUNC) (ucast (lo8 (CX r))) s;
        ret (LongCheck (open_code q)) r u s1
      }
      else if AH = 0x3d then do { (q, s1) \<leftarrow> DosOpen P E V (str_ds_dx u) (O_LEGACY OR O_OPEN OR ucast AL) 0 s; ret (LongCheck (open_code q)) r u s1 }
      else if AH = 0x3e then do { (rc, s1) \<leftarrow> DosClose P V (BX r) s; ret (ShortCheck rc) r u s1 }
      else if AH = 0x3f then do {
        (n, b1, s1) \<leftarrow> DosRead P V (BX r) (CX r) (DS r, DX r) (buf_ds_dx u) s;
        ret (LongCheck n) r (u\<lparr>buf_ds_dx := b1\<rparr>) s1
      }
      else if AH = 0x40 then do {
        (n, b1, s1) \<leftarrow> DosWrite P V (BX r) (CX r) (DS r, DX r) (buf_ds_dx u) s;
        ret (LongCheck n) r (u\<lparr>buf_ds_dx := b1\<rparr>) s1
      }
      else if AH = 0x42 then
        if AL > 2 then ret ErrorInvalid r u s
        else
          let (q, s1) = DosSeek V (BX r) (push_bit 16 (ucast (CX r)) OR ucast (DX r)) (ucast AL) s in
          (case q of
             Inl e \<Rightarrow> ret (ShortCheck e) r u s1
           | Inr pos \<Rightarrow> ret (ShortCheck SUCCESS) (r\<lparr>DX := ucast (drop_bit 16 pos), AX := ucast pos\<rparr>) u s1)
      else if AH = 0x45 then do {
        (q, s1) \<leftarrow> DosDup P V (BX r) s;
        ret (LongCheck (case q of Inl e \<Rightarrow> e | Inr h \<Rightarrow> uint h)) r u s1
      }
      else if AH = 0x46 then do { (rc, s1) \<leftarrow> DosForceDup P V (BX r) (CX r) s; ret (ShortCheck rc) r u s1 }
      else if AH = 0x57 then
        if AL = 0x00 then
          let (q, s1) = DosGetFtime (BX r) s in
          (case q of Inl e \<Rightarrow> ret (ShortCheck e) r u s1 | Inr (d, t) \<Rightarrow> ret (ShortCheck SUCCESS) (r\<lparr>DX := d, CX := t\<rparr>) u s1)
        else if AL = 0x01 then let (rc, s1) = DosSetFtimeSft (get_sft_idx (BX r) s) (DX r) (CX r) s in ret (ShortCheck rc) r u s1
        else ret ErrorInvalid r u s
      else if AH = 0x5a then do {
        (q, nm, s1) \<leftarrow> DosMkTmp P E V (str_ds_dx u) (CX r) s;
        ret (LongCheck (open_code q)) r (u\<lparr>str_ds_dx := nm\<rparr>) s1
      }
      else if AH = 0x5b then do { (q, s1) \<leftarrow> DosOpen P E V (str_ds_dx u) (O_LEGACY OR 2 OR O_CREAT) (CX r) s; ret (LongCheck (open_code q)) r u s1 }
      else if AH = 0x5c then
        let (rc, s1) = DosLockUnlock V (BX r) (push_bit 16 (ucast (CX r)) OR ucast (DX r)) (push_bit 16 (ucast (SI r)) OR ucast (DI r)) (if AL \<noteq> 0 then 1 else 0) s in
        ret (if rc \<noteq> SUCCESS then ErrorExit rc else Exit) r u s1
      else if AH = 0x67 then do { (rc, s1) \<leftarrow> SetJFTSize (behind_tab s) (BX r) s; ret (ShortCheck rc) r u s1 }
      else if AH = 0x68 \<or> AH = 0x6a then do { (rc, s1) \<leftarrow> DosCloseSft P V (get_sft_idx (BX r) s) True s; ret (ShortCheck rc) r u s1 }
      else if AH = 0x6c then
        let DL = lo8 (DX r) in
        if DL AND 0xef > 2 then ret ErrorInvalid r u s
        else do {
          (q, s1) \<leftarrow> DosOpen P E V (str_ds_si u)
            ((BX r AND 0x70ff) OR push_bit 8 (ucast (DL AND 3)) OR push_bit 6 (ucast (DL AND 0x10))) (ucast (lo8 (CX r))) s;
          ret (LongCheck (open_code q)) (case q of Inl _ \<Rightarrow> r | Inr (_, st) \<Rightarrow> r\<lparr>CX := word_of_int st\<rparr>) u s1
        }
      else None)"

text \<open>The functions on names.\<close>

definition int21_name ::
  "'w platform \<Rightarrow> 'w media_driver \<Rightarrow> ('w, 'v) console_scheme \<Rightarrow> lregs \<Rightarrow> uargs \<Rightarrow> ('w, 'a) sys_scheme \<Rightarrow>
    (check \<times> lregs \<times> uargs \<times> ('w, 'a) sys_scheme) option" where
  "int21_name P E V r u s =
     (let AH = hi8 (AX r) in
      if AH = 0x39 \<or> AH = 0x3a then do { (rc, s1) \<leftarrow> DosMkRmdir P E V (str_ds_dx u) AH s; ret (ShortCheck rc) r u s1 }
      else if AH = 0x3b then do { (rc, s1) \<leftarrow> DosChangeDir P E V (str_ds_dx u) s; ret (ShortCheck rc) r u s1 }
      else if AH = 0x41 then do { (rc, s1) \<leftarrow> DosDelete P E V (str_ds_dx u) D_ALL s; ret (ShortCheck rc) r u s1 }
      else if AH = 0x43 then int21_attr P E V r u s
      else if AH = 0x47 then do {
        (q, s1) \<leftarrow> DosGetCuDir P E V (lo8 (DX r)) s;
        case q of
          Inl e \<Rightarrow> ret (ShortCheck e) (r\<lparr>AX := 0x0100\<rparr>) u s1
        | Inr d \<Rightarrow> ret (ShortCheck SUCCESS) (r\<lparr>AX := 0x0100\<rparr>) (u\<lparr>str_ds_si := d\<rparr>) s1
      }
      else if AH = 0x4e then do {
        (rc, ff, s1) \<leftarrow> DosFindFirst P E V (CX r) (str_ds_dx u) (ff_dta u) s;
        ret (ShortCheck rc) (r\<lparr>AX := 0\<rparr>) (u\<lparr>ff_dta := ff\<rparr>) s1
      }
      else if AH = 0x4f then do {
        (rc, ff, s1) \<leftarrow> DosFindNext P E V (ff_dta u) s;
        ret (ShortCheck rc) (r\<lparr>AX := 0\<rparr>) (u\<lparr>ff_dta := ff\<rparr>) s1
      }
      else if AH = 0x56 then do { (rc, s1) \<leftarrow> DosRename P E V (str_ds_dx u) (str_es_di u) s; ret (ShortCheck rc) r u s1 }
      else if AH = 0x60 then do {
        (q, s1) \<leftarrow> DosTruename P E V (str_ds_si u) s;
        case q of
          Inl e \<Rightarrow> ret (ShortCheck e) (r\<lparr>AX := word_of_int e\<rparr>) u s1
        | Inr (rc, d) \<Rightarrow> ret (ShortCheck (sint rc)) (r\<lparr>AX := rc\<rparr>) (u\<lparr>str_es_di := d\<rparr>) s1
      }
      else None)"

section \<open>Other functions\<close>

text \<open>The characters; the result of the last program; extended errors and drive letters of the functions 5Dh and 5Fh; FAT32.\<close>

definition int21_con ::
  "'w platform \<Rightarrow> ('w, 'v) console_scheme \<Rightarrow> lregs \<Rightarrow> uargs \<Rightarrow> ('w, 'a) sys_scheme \<Rightarrow> (check \<times> lregs \<times> uargs \<times> ('w, 'a) sys_scheme) option" where
  "int21_con P V r u s =
     do {
       (a, z, s1) \<leftarrow> con_service P V (hi8 (AX r)) (lo8 (AX r)) (lo8 (DX r)) (dollar_ds_dx u) s;
       ret Exit (set_AL a r) (case z of None \<Rightarrow> u | Some b \<Rightarrow> u\<lparr>zero_flag := b\<rparr>) s1
     }"

text \<open>
  The version: a program that compares AX with a constant behind the call gets that constant, when the kernel is configured so.
\<close>

definition int21_version :: "lregs \<Rightarrow> uargs \<Rightarrow> ('w, 'a) sys_scheme \<Rightarrow> lregs" where
  "int21_version r u s =
     (let r1 = r\<lparr>AX := ps_retdosver s, BX := pair8 (if lo8 (AX r) = 1 then version_flags s else 0xfd) 45, CX := 0\<rparr>; c = code_cs_ip u in
      if ReturnAnyDosVersionExpected s = 0 then r1
      else if c 0 = 0x3d \<and> (c 3 = 0x75 \<or> c 3 = 0x74) then r1\<lparr>AX := pair8 (c 2) (c 1)\<rparr>
      else if c 0 = 0x86 \<and> c 1 = 0xc4 \<and> c 2 = 0x3d \<and> (c 5 = 0x75 \<or> c 5 = 0x74) then r1\<lparr>AX := pair8 (c 3) (c 4)\<rparr>
      else r1)"

definition DosUpChar :: "('w, 'a) job_scheme \<Rightarrow> u8 \<Rightarrow> u8" where
  "DosUpChar s ch = hd (DosUpMem s [ch])"

definition DosUpString :: "('w, 'a) job_scheme \<Rightarrow> u8 list \<Rightarrow> u8 list" where
  "DosUpString s str = DosUpMem s str"

text \<open>Upper case for the program, by characters, areas and strings; the rest of function 65h is about national languages.\<close>

definition int21_upcase :: "lregs \<Rightarrow> uargs \<Rightarrow> ('w, 'a) sys_scheme \<Rightarrow> (check \<times> lregs \<times> uargs \<times> ('w, 'a) sys_scheme) option" where
  "int21_upcase r u s =
     (let AL = lo8 (AX r); DL = lo8 (DX r); area = (\<lambda>up. u\<lparr>buf_ds_dx := put_bytes 0 (up s (map (buf_ds_dx u) [0..<unat (CX r)])) (buf_ds_dx u)\<rparr>) in
      if AL = 0x20 then ret Exit (r\<lparr>DX := set_lo8 (DosUpChar s DL) (DX r)\<rparr>) u s
      else if AL = 0x21 then ret Exit r (area DosUpMem) s
      else if AL = 0x22 then ret Exit r (u\<lparr>str_ds_dx := DosUpString s (str_ds_dx u)\<rparr>) s
      else if AL = 0xa0 then ret Exit (r\<lparr>DX := set_lo8 (DosUpFChar s DL) (DX r)\<rparr>) u s
      else if AL = 0xa1 then ret Exit r (area DosUpFMem) s
      else if AL = 0xa2 then ret Exit r (u\<lparr>str_ds_dx := DosUpFString s (str_ds_dx u)\<rparr>) s
      else None)"

text \<open>The serial number of a volume, by way of function 440Dh.\<close>

definition int21_serial ::
  "'w platform \<Rightarrow> ('w, 'g) disk_tables_scheme \<Rightarrow> lregs \<Rightarrow> uargs \<Rightarrow> ('w, 'a) sys_scheme \<Rightarrow> (check \<times> lregs \<times> uargs \<times> ('w, 'a) sys_scheme) option" where
  "int21_serial P G r u s =
     (let AL = lo8 (AX r); BL = lo8 (BX r); drv = (if BL = 0 then scast (default_drive s) else ucast BL - 1) :: u16 in
      if AL < 2 \<and> get_cds drv s = None then ret (ErrorExit DE_INVLDDRV) r u s
      else if AL < 2 \<and> get_dpb drv s \<noteq> 0 then do {
        (rc, r1, b1, s1) \<leftarrow> DosDevIOctl P G (r\<lparr>AX := set_lo8 0x0d (AX r), CX := (if AL = 0 then 0x0866 else 0x0846)\<rparr>) (buf_ds_dx u) s;
        ret (ShortCheck rc) (r1\<lparr>CX := CX r\<rparr>) (u\<lparr>buf_ds_dx := b1\<rparr>) s1
      }
      else ret ErrorInvalid r u s)"

definition int21_misc ::
  "'w platform \<Rightarrow> 'w media_driver \<Rightarrow> ('w, 'v) console_scheme \<Rightarrow> ('w, 'g) disk_tables_scheme \<Rightarrow> lregs \<Rightarrow> uargs \<Rightarrow> ('w, 'a) sys_scheme \<Rightarrow>
    (check \<times> lregs \<times> uargs \<times> ('w, 'a) sys_scheme) option" where
  "int21_misc P E V G r u s =
     (let AH = hi8 (AX r); AL = lo8 (AX r); DL = lo8 (DX r) in
      if AH = 0x30 then ret Exit (int21_version r u s) u s
      else if AH = 0x4d then ret Exit (r\<lparr>AX := return_code s\<rparr>) u (s\<lparr>return_code := 0\<rparr>)
      else if AH = 0x5d then
        if AL = 0x0a then
          let er = regs_ds_dx u in
          ret (ClearCarry Exit) r u (s\<lparr>CritErrCode := AX er, CritErrDev := push_bit 16 (ucast (ES er)) OR ucast (DI er), CritErrLocus := hi8 (CX er),
            CritErrClass := hi8 (BX er), CritErrAction := lo8 (BX er)\<rparr>)
        else if AL \<in> {0x00, 0x06, 0x07, 0x08, 0x09} then None
        else ret ErrorInvalid r u (s\<lparr>CritErrCode := 0\<rparr>)
      else if AH = 0x5f then
        if AL = 7 \<or> AL = 8 then
          let c = CDSp s (ucast DL); fl = cdsFlags c AND NOT CDSPHYSDRV in
          if DL < lastdrive s \<and> cdsDpb c AND 0xffff \<noteq> 0
          then ret Exit r u (s\<lparr>CDSp := (CDSp s)(ucast DL := c\<lparr>cdsFlags := (if AL = 7 then fl OR CDSPHYSDRV else fl)\<rparr>)\<rparr>)
          else ret (ErrorExit DE_INVLDDRV) r u s
        else None
      else if AH = 0x64 then ret ErrorInvalid r u s
      else if AH = 0x65 then int21_upcase r u s
      else if AH = 0x69 then int21_serial P G r u s
      else if AH = 0x73 then do {
        (rc, r1, a, s1) \<leftarrow> int21_fat32 P E V G r (str_ds_dx u) (fat32 u) (s\<lparr>CritErrCode := 0\<rparr>);
        ret (ClearCarry (ShortCheck rc)) r1 (u\<lparr>fat32 := a\<rparr>) s1
      }
      else None)"

section \<open>Memory\<close>

text \<open>A chain that is not well formed stops the kernel.\<close>

definition mem_intact :: "mm \<Rightarrow> unit option" where
  "mem_intact m = do { c \<leftarrow> DosMemCheck m; if c \<noteq> SUCCESS then None else Some () }"

definition int21_mem :: "lregs \<Rightarrow> u16 \<Rightarrow> mm \<Rightarrow> (check \<times> lregs \<times> mm) option" where
  "int21_mem r q0 m =
     (let AH = hi8 (AX r); AL = lo8 (AX r); BL = lo8 (BX r) in
      if AH = 0x48 then do {
        (rc, para, asize, m1) \<leftarrow> DosMemAlloc (BX r) (ucast (mem_access_mode m)) (AX r) (Some (BX r)) m;
        let r1 = r\<lparr>AX := para, BX := the asize\<rparr>;
        if rc < 0 then do {
          (_, big, m2) \<leftarrow> DosMemLargest m1;
          _ \<leftarrow> mem_intact m2;
          Some (ErrorExit rc, r1\<lparr>BX := big\<rparr>, m2)
        }
        else Some (Exit, r1\<lparr>AX := AX r1 + 1\<rparr>, m1)
      }
      else if AH = 0x49 then
        let (rc, m1) = DosMemFree (ES r - 1) m in
        if rc < SUCCESS then do { _ \<leftarrow> mem_intact m1; Some (ErrorExit rc, r, m1) } else Some (Exit, r, m1)
      else if AH = 0x4a then do {
        _ \<leftarrow> mem_intact m;
        let (rc, big, m1) = DosMemChange (ES r) (BX r) (Some (BX r)) m;
        let r1 = r\<lparr>BX := the big\<rparr>;
        if rc < 0 then do { _ \<leftarrow> mem_intact m1; Some (ErrorExit rc, r1, m1) } else Some (Exit, r1\<lparr>AX := ES r1\<rparr>, m1)
      }
      else if AH = 0x58 then
        if AL = 0x00 then Some (Exit, r\<lparr>AX := ucast (mem_access_mode m)\<rparr>, m)
        else if AL = 0x01 then
          if BL > 0x82 \<or> BL AND 0x3f > 2 then Some (ErrorInvalid, r, m) else Some (Exit, r, m\<lparr>mem_access_mode := BL\<rparr>)
        else if AL = 0x02 then Some (Exit, set_AL (uppermem_link m) r, m)
        else if AL = 0x03 \<and> uppermem_root m \<noteq> 0xffff then do { m1 \<leftarrow> DosUmbLink q0 (BX r) m; Some (Exit, r, m1) }
        else Some (ErrorInvalid, r, m)
      else None)"

section \<open>The service\<close>

definition int21_dispatch ::
  "'w platform \<Rightarrow> 'w media_driver \<Rightarrow> ('w, 'v) console_scheme \<Rightarrow> ('w, 'g) disk_tables_scheme \<Rightarrow> lregs \<Rightarrow> uargs \<Rightarrow> ('w, 'a) sys_scheme \<Rightarrow>
    (check \<times> lregs \<times> uargs \<times> ('w, 'a) sys_scheme) option" where
  "int21_dispatch P E V G r u s =
     (let AH = hi8 (AX r) in
      if AH \<ge> 0x01 \<and> AH \<le> 0x0c then int21_con P V r u s
      else if AH \<in> {0x0f, 0x10, 0x11, 0x12, 0x13, 0x14, 0x15, 0x16, 0x17, 0x21, 0x22, 0x23, 0x24, 0x27, 0x28, 0x29} then int21_fcb P E V r u s
      else if AH \<in> {0x39, 0x3a, 0x3b, 0x41, 0x43, 0x47, 0x4e, 0x4f, 0x56, 0x60} then int21_name P E V r u s
      else if AH \<in> {0x30, 0x4d, 0x5d, 0x5f, 0x64, 0x65, 0x69, 0x73} then int21_misc P E V G r u s
      else if AH = 0x44 then int21_ioctl P G r u s
      else if AH \<in> {0x3c, 0x3d, 0x3e, 0x3f, 0x40, 0x42, 0x45, 0x46, 0x57, 0x5a, 0x5b, 0x5c, 0x67, 0x68, 0x6a, 0x6c} then int21_handle P E V r u s
      else if AH \<in> {0x48, 0x49, 0x4a, 0x58} then do {
        (c, r1, m1) \<leftarrow> int21_mem r (junk_q s) (job.arena s);
        ret c r1 u (s\<lparr>arena := m1\<rparr>)
      }
      else int21_drive P E V r u s)"

text \<open>The functions that clear the carry flag and the error of the last call, and the entry and the exit of the service.\<close>

definition clears_carry :: "u8 \<Rightarrow> bool" where
  "clears_carry AH \<longleftrightarrow> AH \<ge> 0x38 \<and> AH \<le> 0x4f \<or> AH \<ge> 0x56 \<and> AH \<le> 0x5c \<or> AH \<ge> 0x5e \<and> AH \<le> 0x60 \<or> AH \<ge> 0x65 \<and> AH \<le> 0x6a \<or> AH = 0x6c"

definition int21_enter ::
  "'w platform \<Rightarrow> ('w, 'v) console_scheme \<Rightarrow> u8 \<Rightarrow> bool \<Rightarrow> ('w, 'a) sys_scheme \<Rightarrow> (bool \<times> ('w, 'a) sys_scheme) option" where
  "int21_enter P V AH carry s =
     (let s1 = (if clears_carry AH \<and> AH \<noteq> 0x59 then s\<lparr>CritErrCode := 0\<rparr> else s);
          s2 = (if AH > 0x0c \<and> AH \<noteq> 0x30 \<and> AH \<noteq> 0x59 then s1\<lparr>ErrorMode := 0\<rparr> else s1)
      in do {
        s3 \<leftarrow> (if break_ena s2 \<noteq> 0 \<or> AH \<ge> 1 \<and> AH \<le> 5 \<or> AH \<ge> 8 \<and> AH \<le> 0x0b then map_option snd (check_handle_break P V (syscon s2) s2) else Some s2);
        Some (if clears_carry AH then False else carry, s3)
      })"

definition int21_service ::
  "'w platform \<Rightarrow> 'w media_driver \<Rightarrow> ('w, 'v) console_scheme \<Rightarrow> ('w, 'g) disk_tables_scheme \<Rightarrow> lregs \<Rightarrow> bool \<Rightarrow> uargs \<Rightarrow> ('w, 'a) sys_scheme \<Rightarrow>
    (lregs \<times> bool \<times> uargs \<times> ('w, 'a) sys_scheme) option" where
  "int21_service P E V G r carry u s =
     do {
       (carry1, s1) \<leftarrow> int21_enter P V (hi8 (AX r)) carry s;
       (c, r1, u1, s2) \<leftarrow> int21_dispatch P E V G r u s1;
       let (r2, carry2, s3) = finish c r1 carry1 s2;
       Some (r2, carry2, u1, s3)
     }"

section \<open>Calls on the stack of the user\<close>

text \<open>\<^verbatim>\<open>int21_syscall\<close>: the functions 33h, 50h, 51h and 62h, which are answered before the stack is switched.\<close>

definition int21_vars :: "lregs \<Rightarrow> ('w, 'a) sys_scheme \<Rightarrow> lregs \<times> ('w, 'a) sys_scheme" where
  "int21_vars r s =
     (let AL = lo8 (AX r); DL = lo8 (DX r); set_DL = (\<lambda>b. r\<lparr>DX := set_lo8 b (DX r)\<rparr>) in
      if AL = 0x00 then (set_DL (break_ena s), s)
      else if AL = 0x01 then (set_DL (DL AND 1), s\<lparr>break_ena := DL AND 1\<rparr>)
      else if AL = 0x02 then (set_DL (break_ena s), s\<lparr>break_ena := DL AND 1\<rparr>)
      else if AL = 0x05 then (set_DL (BootDrive s), s)
      else if AL = 0x06 then (r\<lparr>BX := pair8 (os_minor s) (os_major s), DX := pair8 (version_flags s) 0\<rparr>, s)
      else if AL = 0xfa then (r\<lparr>AX := set_lo8 (CPULevel s) (AX r)\<rparr>, s)
      else if AL = 0xfc then (r, s\<lparr>os_setver_major := lo8 (BX r), os_setver_minor := hi8 (BX r)\<rparr>)
      else if AL = 0xff then (r\<lparr>DX := fst (os_release s), AX := snd (os_release s)\<rparr>, s)
      else (r\<lparr>AX := set_lo8 0xff (AX r)\<rparr>, s))"

definition int21_syscall :: "lregs \<Rightarrow> ('w, 'a) sys_scheme \<Rightarrow> lregs \<times> ('w, 'a) sys_scheme" where
  "int21_syscall r s0 =
     (let AH = hi8 (AX r); s = s0\<lparr>Int21AX := AX r\<rparr> in
      if AH = 0x33 then int21_vars r s
      else if AH = 0x50 then (r, s\<lparr>arena := (job.arena s)\<lparr>cu_psp := BX r\<rparr>\<rparr>)
      else if AH = 0x51 \<or> AH = 0x62 then (r\<lparr>BX := cu_psp (job.arena s)\<rparr>, s)
      else (r, s))"

section \<open>Absolute disk access\<close>

text \<open>
  Interrupts 25h and 26h: a transfer between the disk and the memory of the program, past the file system. The memory is that at DS:BX, or
  with CX = FFFFh the one that the block at DS:BX names by its segment; \<^verbatim>\<open>bytes\<close> and \<^verbatim>\<open>hbytes\<close> are the contents of the two.
\<close>

definition int2526_handler ::
  "'w platform \<Rightarrow> u16 \<Rightarrow> lregs \<Rightarrow> bool \<Rightarrow> bytes \<Rightarrow> HugeSectorBlock \<Rightarrow> bytes \<Rightarrow> ('w, 'a) tty_scheme \<Rightarrow>
    (lregs \<times> bool \<times> bytes \<times> bytes \<times> ('w, 'a) tty_scheme) option" where
  "int2526_handler P md r carry buf hs hbuf s =
     (let mode = (if md = 0x26 then DSKWRITEINT26 else DSKREADINT25); drv = ucast (AX r AND 0x7f) :: u8; dpbp = get_dpb (ucast drv) s;
          d = dpbs s dpbp; huge = (CX r = 0xffff)
      in if drv \<ge> lastdrive s \<or> dpbp = 0 then Some (r\<lparr>AX := 0x201\<rparr>, True, buf, hbuf, s)
         else if DX r \<noteq> 0 \<and> ISFAT32 d \<and> dpb_xfatsize d \<noteq> 0 then Some (r\<lparr>AX := 0x207\<rparr>, True, buf, hbuf, s)
         else do {
           let (blkno, nblks, sg, b) = (if huge then (hs_blkno hs, hs_nblks hs, hs_seg hs, hbuf) else (ucast (DX r), CX r, DS r, buf));
           let s1 = s\<lparr>InDOS := InDOS s + 1\<rparr>;
           s2 \<leftarrow> (if mode = DSKWRITEINT26 then map_option snd (DeleteBlockInBufferCache P blkno blkno (ucast drv) XFR_WRITE s1) else Some s1);
           (st, b', s3) \<leftarrow> dskxfer P (ucast drv) blkno sg b nblks mode s2;
           s4 \<leftarrow> (if st \<noteq> 0 \<and> mode = DSKWRITEINT26 then setinvld (ucast drv) s3 else Some s3);
           Some (r\<lparr>AX := st\<rparr>, st \<noteq> 0, if huge then buf else b', if huge then b' else hbuf, s4\<lparr>InDOS := InDOS s4 - 1\<rparr>)
         })"

end
