(* ===== verification/ConsoleProps.thy ===== *)
theory ConsoleProps
  imports Console HandleProps
begin

text \<open>
  The line editor. Reading keys and echoing characters leave the line buffers alone; the editor itself writes inside
  of them, whatever keys it gets, and ends with a line that fits into the buffer of the caller.
\<close>

section \<open>What input and output leave alone\<close>

definition lkeep :: "('w, 'a) tty_scheme \<Rightarrow> (nat \<Rightarrow> u8) \<times> (nat \<Rightarrow> u8)" where
  "lkeep s = (linemem s, user_kb s)"

definition lkeep1 :: "'r \<times> ('w, 'a) tty_scheme \<Rightarrow> (nat \<Rightarrow> u8) \<times> (nat \<Rightarrow> u8)" where
  "lkeep1 y = lkeep (snd y)"

definition lkeep2 :: "'r \<times> 'b \<times> ('w, 'a) tty_scheme \<Rightarrow> (nat \<Rightarrow> u8) \<times> (nat \<Rightarrow> u8)" where
  "lkeep2 y = lkeep (snd (snd y))"

lemma lkeep_simps [simp]: "lkeep1 (r, s) = lkeep s" "lkeep2 (r, b, s) = lkeep s"
  by (simp_all add: lkeep1_def lkeep2_def)

lemma lkeep_upd [simp]:
  "lkeep (s\<lparr>world := x1\<rparr>) = lkeep s" "lkeep (s\<lparr>scr_pos := x2\<rparr>) = lkeep s" "lkeep (s\<lparr>sfthead := x3\<rparr>) = lkeep s"
  "lkeep (s\<lparr>lpCurSft := x4\<rparr>) = lkeep s" "lkeep (s\<lparr>current_filepos := x5\<rparr>) = lkeep s" "lkeep (s\<lparr>inputptr := x6\<rparr>) = lkeep s"
  by (simp_all add: lkeep_def)

lemma lkeep_frame: "dkeep s' = dkeep s \<Longrightarrow> lkeep s' = lkeep s"
  by (cases s, cases s') (auto simp: lkeep_def dkeep_def job.defs tty.defs)

named_theorems lines

lemmas lines_base [lines] = keeps_Some keeps_None keeps_if keeps_option

lemma keeps_lbind [lines]:
  "keeps lkeep m x0 \<Longrightarrow> (\<And>s. lkeep s = m \<Longrightarrow> keeps f m (h0 s)) \<Longrightarrow> keeps f m (x0 \<bind> h0)"
  "keeps lkeep1 m x1 \<Longrightarrow> (\<And>r s. lkeep s = m \<Longrightarrow> keeps f m (h1 (r, s))) \<Longrightarrow> keeps f m (x1 \<bind> h1)"
  "keeps lkeep2 m x2 \<Longrightarrow> (\<And>r b s. lkeep s = m \<Longrightarrow> keeps f m (h2 (r, b, s))) \<Longrightarrow> keeps f m (x2 \<bind> h2)"
  by (auto elim!: keeps_bind)

lemma keeps_lstate [lines]:
  "lkeep1 p = m \<Longrightarrow> (\<And>a s. lkeep s = m \<Longrightarrow> keeps f m (h a s)) \<Longrightarrow> keeps f m (case p of (a, s) \<Rightarrow> h a s)"
  by (cases p) simp

lemma keeps_lsnd [lines]: "keeps lkeep1 m x \<Longrightarrow> keeps lkeep m (map_option snd x)"
  by (auto simp: keeps_def lkeep1_def)

lemma lift_lkeep:
  "keeps dkeep (dkeep s) x0 \<Longrightarrow> lkeep s = m \<Longrightarrow> keeps lkeep m x0"
  "keeps dkeep1 (dkeep s) x1 \<Longrightarrow> lkeep s = m \<Longrightarrow> keeps lkeep1 m x1"
  "keeps dkeep2 (dkeep s) x2 \<Longrightarrow> lkeep s = m \<Longrightarrow> keeps lkeep2 m x2"
  by (auto simp: keeps_def dkeep1_def dkeep2_def lkeep1_def lkeep2_def intro!: lkeep_frame)

lemma CharIO_frame [frame]: "dkeep s = m \<Longrightarrow> keeps dkeep1 m (CharIO P dev ch c s)"
  unfolding CharIO_def by (auto intro!: frame)

lemma CharCmd_frame [frame]: "dkeep s = m \<Longrightarrow> keeps dkeep m (CharCmd P dev c s)"
proof (rule keepsI, drule CharCmd.raw_induct [of "\<lambda>x y. dkeep y = dkeep (snd x)", rotated], goal_cases)
  case (1 y f P dev c s y')
  have ih: "dkeep s = m \<Longrightarrow> keeps dkeep m (f P dev c s)" for P dev c s m
    by (rule keepsI) (use 1(2) in fastforce)
  show ?case by (intro keeps_dest [OF _ 1(3)]) (auto intro!: frame ih)
qed simp

lemma Busy_frame [frame]: "dkeep s = m \<Longrightarrow> keeps dkeep1 m (Busy P dev s)"
  unfolding Busy_def by (auto intro!: frame)

lemma ndread_frame [frame]: "dkeep s = m \<Longrightarrow> keeps dkeep1 m (ndread P dev s)"
  unfolding ndread_def by (auto intro!: frame)

lemmas lifted_lkeep [lines] =
  CharIO_frame [OF refl, THEN lift_lkeep(2)] CharCmd_frame [OF refl, THEN lift_lkeep(1)] Busy_frame [OF refl, THEN lift_lkeep(2)]
  ndread_frame [OF refl, THEN lift_lkeep(2)] BinaryCharIO_frame [OF refl, THEN lift_lkeep(3)] rwblock_frame [OF refl, THEN lift_lkeep(3)]

lemma ctrl_break_frame [simp]: "lkeep1 (ctrl_break_pressed V s) = lkeep s"
  by (simp add: ctrl_break_pressed_def split: prod.split)

lemma idx_to_sft_lkeep [simp]: "lkeep1 (idx_to_sft i s) = lkeep s"
  using lkeep_frame [OF idx_to_sft_frame(1) [of i s]] by (cases "idx_to_sft i s") simp

lemma lkeep_if [simp]: "lkeep (if b then s else s') = (if b then lkeep s else lkeep s')"
  by simp

lemma check_handle_break_frame [lines]: "lkeep s = m \<Longrightarrow> keeps lkeep1 m (check_handle_break P V dev s)"
  unfolding check_handle_break_def Let_def by (intro lines) simp_all

lemma wait_char_frame [lines]: "lkeep s = m \<Longrightarrow> keeps lkeep1 m (wait_char P V dev cb s)"
proof (rule keepsI, drule wait_char.raw_induct [of "\<lambda>x y. lkeep1 y = lkeep (snd x)", rotated], goal_cases)
  case (1 y f P V dev cb s y')
  have ih: "lkeep s = m \<Longrightarrow> keeps lkeep1 m (f P V dev cb s)" for P V dev cb s m
    by (rule keepsI) (use 1(2) in fastforce)
  show ?case by (intro keeps_dest [OF _ 1(3)], unfold Let_def snd_conv) (intro lines ih; simp)
qed simp

lemma update_scr_pos_lkeep [simp]: "lkeep (update_scr_pos c n s) = lkeep s"
  by (simp add: update_scr_pos_def)

lemma fold_scr_pos_lkeep [simp]: "lkeep (fold (\<lambda>c. update_scr_pos c n) cs s) = lkeep s"
  by (induction cs arbitrary: s) simp_all

lemma DosRWSft_body_frame:
  assumes r: "\<And>i d ci n b t. lkeep t = m \<Longrightarrow> keeps lkeep2 m (dr i d ci n b t)"
    and w: "\<And>d cs t. lkeep t = m \<Longrightarrow> keeps lkeep1 m (dw d cs t)" and "lkeep s = m"
  shows "keeps lkeep2 m (DosRWSft_body dr dw P V i n ptr buf md s)"
proof -
  obtain q s1 where q: "idx_to_sft i s = (q, s1)" by fastforce
  then have k: "lkeep s1 = m" using idx_to_sft_lkeep [of i s] assms(3) by simp
  show ?thesis
  proof (cases q)
    case None
    then show ?thesis using k by (simp add: DosRWSft_body_def q keeps_Some)
  next
    case (Some p)
    show ?thesis unfolding DosRWSft_body_def q Some prod.case option.case Let_def
      by (intro lines r w) (simp_all add: k keeps_def split: prod.split)
  qed
qed

lemma next_char_frame [lines]: "lkeep s = m \<Longrightarrow> keeps lkeep1 m (next_char P V i pd cb s)"
  unfolding next_char_def
  by (intro lines DosRWSft_body_frame) (auto simp: keeps_def dest!: keeps_dest [OF DosRWSft_body_frame, rotated -1] split: prod.splits)

lemma read_char_sft_dev_frame [lines]: "lkeep s = m \<Longrightarrow> keeps lkeep1 m (read_char_sft_dev P V i pd cb s)"
  unfolding read_char_sft_dev_def Let_def by (intro lines) simp_all

lemma raw_get_char_frame [lines]: "lkeep s = m \<Longrightarrow> keeps lkeep1 m (raw_get_char P V dev cb s)"
  unfolding raw_get_char_def by (intro lines)

lemma read_char_frame [lines]: "lkeep s = m \<Longrightarrow> keeps lkeep1 m (read_char P V i cb s)"
  unfolding read_char_def Let_def by (intro lines) simp_all

lemma read_char_check_break_frame [lines]: "lkeep s = m \<Longrightarrow> keeps lkeep1 m (read_char_check_break P V i s)"
  unfolding read_char_check_break_def by (intro lines)

lemma put_loop_frame:
  assumes "\<And>c t. lkeep t = m \<Longrightarrow> keeps lkeep m (echo c t)" and "lkeep s = m"
  shows "keeps lkeep1 m (put_loop echo P V dev c n fc s)"
  using assms(2)
proof (induction n arbitrary: fc s)
  case (Suc n)
  then show ?case unfolding put_loop.simps Let_def by (intro lines assms(1) Suc.IH) simp_all
qed (simp add: keeps_Some)

lemma write_loop_frame:
  assumes "\<And>c t. lkeep t = m \<Longrightarrow> keeps lkeep m (echo c t)" and "lkeep s = m"
  shows "keeps lkeep1 m (write_loop echo P V dev cs x fc s)"
  using assms(2)
proof (induction cs arbitrary: x fc s)
  case (Cons c cs)
  then show ?case unfolding write_loop.simps Let_def
    by (intro lines put_loop_frame assms(1)) (auto split: sum.split intro!: Cons.IH keeps_Some)
qed (simp add: keeps_Some)

lemma cooked_write_frame [lines]: "lkeep s = m \<Longrightarrow> keeps lkeep1 m (cooked_write P V dev cs s)"
proof (rule keepsI, drule cooked_write.raw_induct [of "\<lambda>x y. lkeep1 y = lkeep (snd x)", rotated], goal_cases)
  case (1 y f P V dev cs s y')
  have ih: "lkeep s = m \<Longrightarrow> keeps lkeep1 m (f P V dev cs s)" for P V dev cs s m
    by (rule keepsI) (use 1(2) in fastforce)
  have "keeps lkeep1 (lkeep s) (write_loop (\<lambda>c s. DosRWSft_body (\<lambda>_ _ _ _ _ _. None) (f P V) P V (get_sft_idx STDPRN s) 1
      (dos_ds s, 0) (\<lambda>_. c) XFR_WRITE s \<bind> (\<lambda>(_, _, s1). Some s1)) P V dev cs n fc s)" for n fc
    by (intro write_loop_frame refl) (intro lines DosRWSft_body_frame ih; simp add: keeps_Some)
  from keeps_dest [OF this 1(3)] show ?case by simp
qed simp

lemma write_char_frame [lines]: "lkeep s = m \<Longrightarrow> keeps lkeep m (write_char P V c i s)"
  unfolding write_char_def by (intro lines DosRWSft_body_frame) (simp_all add: keeps_Some)

lemma echo_char_frame [lines]: "lkeep s = m \<Longrightarrow> keeps lkeep m (echo_char P V c i s)"
  unfolding echo_char_def by (intro lines)

lemma destr_bs_frame [lines]: "lkeep s = m \<Longrightarrow> keeps lkeep m (destr_bs P V i s)"
  unfolding destr_bs_def by (intro lines)

lemma blanks_frame [lines]: "lkeep s = m \<Longrightarrow> keeps lkeep m (blanks P V i n s)"
  by (induction n arbitrary: s) (auto intro!: lines)

lemma bs_loop_frame [lines]: "lkeep s = m \<Longrightarrow> keeps lkeep m (bs_loop P V i n s)"
proof (rule keepsI, drule bs_loop.raw_induct [of "\<lambda>x y. lkeep y = lkeep (snd x)", rotated], goal_cases)
  case (1 y f P V i n s y')
  have ih: "lkeep s = m \<Longrightarrow> keeps lkeep m (f P V i n s)" for P V i n s m
    by (rule keepsI) (use 1(2) in fastforce)
  show ?case by (intro keeps_dest [OF _ 1(3)]) (intro lines ih; simp)
qed simp

section \<open>The memory that the editor writes\<close>

text \<open>
  The bytes that a line of at most \<^verbatim>\<open>n\<close> characters may change: \<^verbatim>\<open>local_buffer\<close> and the characters of the buffer. Its size and
  count, and whatever is behind it, stay.
\<close>

definition kept :: "kbp \<Rightarrow> nat \<Rightarrow> (nat \<Rightarrow> u8) \<times> (nat \<Rightarrow> u8) \<Rightarrow> (nat \<Rightarrow> u8) \<times> (nat \<Rightarrow> u8) \<Rightarrow> bool" where
  "kept kp n m0 m =
     (case kp of
        KbUser \<Rightarrow> (\<forall>i. i < 2 \<or> 2 + n \<le> i \<longrightarrow> snd m i = snd m0 i) \<and> (\<forall>i\<ge>n. fst m i = fst m0 i)
      | KbKernel \<Rightarrow> n \<le> 128 \<and> snd m = snd m0 \<and> (\<forall>i. i = 128 \<or> i = 129 \<or> 130 + n \<le> i \<longrightarrow> fst m i = fst m0 i))"

lemma kept_refl: "(kp = KbKernel \<longrightarrow> n \<le> 128) \<Longrightarrow> kept kp n m m"
  by (cases kp) (simp_all add: kept_def)

lemma kept_put: "kept kp n m0 (lkeep s) \<Longrightarrow> i < n \<Longrightarrow> kept kp n m0 (lkeep (s\<lparr>linemem := (linemem s)(i := c)\<rparr>))"
  by (cases kp) (auto simp: kept_def lkeep_def)

lemma lkeep_kb_set: "lkeep (kb_set kp i v s) =
    (case kp of KbKernel \<Rightarrow> ((fst (lkeep s))(128 + i := v), snd (lkeep s)) | KbUser \<Rightarrow> (fst (lkeep s), (snd (lkeep s))(i := v)))"
  by (simp add: kb_set_def lkeep_def split: kbp.split)

lemma kept_kb_set: "kept kp n m0 (lkeep s) \<Longrightarrow> i < n \<Longrightarrow> kept kp n m0 (lkeep (kb_set kp (2 + i) v s))"
  unfolding lkeep_kb_set by (cases kp) (auto simp: kept_def)

lemma kept_fold:
  "kept kp n m0 (lkeep s) \<Longrightarrow> k \<le> n \<Longrightarrow> kept kp n m0 (lkeep (fold (\<lambda>i t. kb_set kp (2 + i) (g i) t) [0..<k] s))"
  by (induction k) (auto intro: kept_kb_set [unfolded add_2_eq_Suc])

lemma kept_copy: "kept kp n m0 (lkeep s) \<Longrightarrow> unat k \<le> n \<Longrightarrow> kept kp n m0 (lkeep (copy_line kp k s))"
  unfolding copy_line_def by (rule kept_fold)

lemma kb_get_set: "kb_get kp i (kb_set kp j v s) = (if i = j then v else kb_get kp i s)"
  by (cases kp) (simp_all add: kb_get_def kb_set_def)

lemma kb_get_copy: "i < unat k \<Longrightarrow> kb_get kp (2 + i) (copy_line kp k s) = linemem s i"
proof -
  have "kb_get kp (2 + i) (fold (\<lambda>i t. kb_set kp (2 + i) (g i) t) [0..<n] s) = (if i < n then g i else kb_get kp (2 + i) s)" for n g
    by (induction n) (auto simp: kb_get_set)
  then show "i < unat k \<Longrightarrow> ?thesis" by (simp add: copy_line_def)
qed

section \<open>The editor\<close>

text \<open>Between two keys: the line has room for the carriage return.\<close>

definition line_ok :: "kbp \<Rightarrow> u16 \<Rightarrow> (nat \<Rightarrow> u8) \<times> (nat \<Rightarrow> u8) \<Rightarrow> editor \<times> ('w, 'a) tty_scheme \<Rightarrow> bool" where
  "line_ok kp sz m0 y \<longleftrightarrow> ed_count (fst y) < sz \<and> kept kp (unat sz) m0 (lkeep (snd y))"

text \<open>Behind the last key: the line ends with the carriage return.\<close>

definition line_end :: "kbp \<Rightarrow> u16 \<Rightarrow> (nat \<Rightarrow> u8) \<times> (nat \<Rightarrow> u8) \<Rightarrow> editor \<times> ('w, 'a) tty_scheme \<Rightarrow> bool" where
  "line_end kp sz m0 y \<longleftrightarrow> 0 < ed_count (fst y) \<and> ed_count (fst y) \<le> sz \<and> linemem (snd y) (unat (ed_count (fst y)) - 1) = CR \<and>
     kept kp (unat sz) m0 (lkeep (snd y))"

lemmas frames =
  keeps_dest [OF echo_char_frame [OF refl]] keeps_dest [OF write_char_frame [OF refl]] keeps_dest [OF destr_bs_frame [OF refl]]
  keeps_dest [OF bs_loop_frame [OF refl]] keeps_dest [OF blanks_frame [OF refl]] keeps_dest [OF read_char_check_break_frame [OF refl]]

lemma u16_room: "(x::u16) < sz - 1 \<Longrightarrow> sz \<noteq> 0 \<Longrightarrow> x < sz \<and> x + 1 < sz \<and> unat x < unat sz \<and> unat (x + 1) = unat x + 1"
proof -
  assume a: "x < sz - 1" "sz \<noteq> 0"
  have "unat (sz - 1) = unat sz - 1" using a(2) by (metis unat_minus_one)
  then have b: "unat x < unat sz - 1" using a(1) by (simp add: word_less_nat_alt)
  moreover have "unat sz < 65536" by (rule unat_u16_less)
  ultimately have "unat x + 1 < 65536" by linarith
  then have "unat (x + 1) = unat x + 1" by (simp add: unat_plus_if')
  then show ?thesis unfolding word_less_nat_alt using b by arith
qed

lemma copy_char_ok:
  assumes "copy_char P V i kp e s = Some y" "line_ok kp sz m0 (e, s)" "ed_count e < sz - 1" "sz \<noteq> 0"
  shows "line_ok kp sz m0 y"
  using assms u16_room [OF assms(3,4)]
  by (auto simp: copy_char_def line_ok_def bind_eq_Some_conv Let_def dest!: frames intro!: kept_put)

lemma copy_loop_ok:
  "copy_loop P V i kp sz k e s = Some y \<Longrightarrow> line_ok kp sz m0 (e, s) \<Longrightarrow> sz \<noteq> 0 \<Longrightarrow> line_ok kp sz m0 y"
  by (induction k arbitrary: e s) (auto simp: bind_eq_Some_conv split: if_splits dest: copy_char_ok)

lemma line_ok_pos [simp]:
  "line_ok kp sz m0 (e\<lparr>stored_pos := x\<rparr>, s) = line_ok kp sz m0 (e, s)" "line_ok kp sz m0 (e\<lparr>stored_size := x\<rparr>, s) = line_ok kp sz m0 (e, s)"
  "line_ok kp sz m0 (e\<lparr>ed_insert := b\<rparr>, s) = line_ok kp sz m0 (e, s)"
  by (simp_all add: line_ok_def)

lemma line_ok_keep: "lkeep s' = lkeep s \<Longrightarrow> line_ok kp sz m0 (e, s) \<Longrightarrow> line_ok kp sz m0 (e, s')"
  by (simp add: line_ok_def)

lemma start_new_line_ok:
  assumes "start_new_line P V i cp e s = Some y" "line_ok kp sz m0 (e, s)" "sz \<noteq> 0"
  shows "line_ok kp sz m0 y"
  using assms by (auto simp: start_new_line_def line_ok_def bind_eq_Some_conv word_neq_0_conv dest!: frames)

lemma key_copy_ok:
  assumes "key_copy P V j i kp sz c e s = Some y" "line_ok kp sz m0 (e, s)" "sz \<noteq> 0"
  shows "line_ok kp sz m0 y"
  using assms unfolding key_copy_def
  by (auto simp: bind_eq_Some_conv split: if_splits dest!: frames dest!: copy_loop_ok intro: line_ok_keep)

lemma key_back_ok:
  assumes "key_back P V i cp e s = Some y" "line_ok kp sz m0 (e, s)"
  shows "line_ok kp sz m0 y"
proof -
  have "0 < ed_count e \<Longrightarrow> ed_count e - 1 < sz"
    using assms(2) unat_minus_one [of "ed_count e"] by (cases "ed_count e = 0") (auto simp: line_ok_def word_less_nat_alt)
  then show ?thesis using assms unfolding key_back_def
    by (auto simp: bind_eq_Some_conv line_ok_def Let_def split: if_splits dest!: frames)
qed

lemma key_char_ok:
  assumes "key_char P V i sz c e s = Some y" "line_ok kp sz m0 (e, s)" "sz \<noteq> 0" "c \<noteq> CR"
  shows "line_ok kp sz m0 y"
  using assms u16_room [of "ed_count e" sz] unfolding key_char_def
  by (auto simp: bind_eq_Some_conv line_ok_def split: if_splits dest!: frames intro!: kept_put)

lemma key_char_CR:
  assumes "key_char P V i sz CR e s = Some y" "line_ok kp sz m0 (e, s)"
  shows "line_end kp sz m0 y"
proof -
  have c: "ed_count e < sz" using assms(2) by (simp add: line_ok_def)
  have "unat (ed_count e) < unat sz" using c by (simp add: word_less_nat_alt)
  moreover have "unat sz < 65536" by (rule unat_u16_less)
  ultimately have u: "unat (ed_count e) + 1 < 65536" "unat (ed_count e) < unat sz" by linarith+
  then have n: "unat (ed_count e + 1) = unat (ed_count e) + 1" by (simp add: unat_plus_if')
  have "0 < ed_count e + 1" "ed_count e + 1 \<le> sz" using u n by (simp_all add: word_less_nat_alt word_le_nat_alt)
  then show ?thesis using assms u(2) n unfolding key_char_def
    by (auto simp: bind_eq_Some_conv line_ok_def line_end_def split: if_splits dest!: frames intro!: kept_put)
qed

lemma edit_key_ok:
  assumes "edit_key P V j i kp sz cp b c e s = Some y" "line_ok kp sz m0 (e, s)" "sz \<noteq> 0"
  shows "if c = CR then line_end kp sz m0 y else line_ok kp sz m0 y"
proof -
  have cr: "ucast c = (CR :: u8) \<Longrightarrow> \<not> 256 \<le> c \<Longrightarrow> c = CR"
  proof -
    assume a: "ucast c = (CR :: u8)" "\<not> 256 \<le> c"
    have "unat c mod 256 = 13" using arg_cong [OF a(1), of unat] by (simp add: unsigned_ucast_eq take_bit_eq_mod)
    moreover have "unat c < 256" using a(2) by (simp add: word_le_nat_alt)
    ultimately show "c = CR" by (simp add: word_unat_eq_iff)
  qed
  have k: "line_ok kp sz m0 (e, copy_line kp (ed_count e) s)"
    using assms(2) by (auto simp: line_ok_def word_less_nat_alt intro!: kept_copy)
  show ?thesis using assms cr k unfolding edit_key_def
    by (auto simp: bind_eq_Some_conv split: if_splits dest!: frames intro: line_ok_keep key_char_CR
        elim!: copy_char_ok key_copy_ok start_new_line_ok key_back_ok key_char_ok)
qed

lemma line_loop_end:
  assumes "line_loop P V j i kp sz cp b e s = Some y" "line_ok kp sz m0 (e, s)" "sz \<noteq> 0"
  shows "line_end kp sz m0 y"
proof -
  have "line_ok kp sz m0 (e, s) \<longrightarrow> sz \<noteq> 0 \<longrightarrow> line_end kp sz m0 y"
    using assms(1)
  proof (induction rule: line_loop.raw_induct [of "\<lambda>(((((((((P, V), j), i), kp), sz), cp), b), e), s) y. line_ok kp sz m0 (e, s) \<longrightarrow> sz \<noteq> 0 \<longrightarrow> line_end kp sz m0 y",
        rotated, unfolded prod.case, consumes 1, case_names step])
    case (step f P V j i kp sz cp b e s y)
    show ?case
    proof (intro impI)
      assume ok: "line_ok kp sz m0 (e, s)" "sz \<noteq> 0"
      from step(2) obtain c s2 e1 s3 where e: "lkeep s2 = lkeep s" "edit_key P V j i kp sz cp b c e s2 = Some (e1, s3)"
        "(if c = CR then Some (e1, s3) else f P V j i kp sz cp False e1 s3) = Some y"
        by (auto simp: bind_eq_Some_conv split: if_splits dest!: frames)
      from edit_key_ok [OF e(2) line_ok_keep [OF e(1) ok(1)] ok(2)]
      show "line_end kp sz m0 y" using e(3) step(1) ok(2) by (auto split: if_splits)
    qed
  qed
  then show ?thesis using assms(2,3) by blast
qed

lemma kept_kb_get: "kept kp n (lkeep s) (lkeep s') \<Longrightarrow> i < 2 \<or> 2 + n \<le> i \<Longrightarrow> kb_get kp i s' = kb_get kp i s"
  by (cases kp) (auto simp: kept_def lkeep_def kb_get_def numeral_2_eq_2 less_Suc_eq)

lemma kept_local: "kept KbUser n (lkeep s) (lkeep s') \<Longrightarrow> n \<le> i \<Longrightarrow> linemem s' i = linemem s i"
  by (simp add: kept_def lkeep_def)

lemma kept_user: "kept KbKernel n (lkeep s) (lkeep s') \<Longrightarrow> user_kb s' = user_kb s"
  by (simp add: kept_def lkeep_def)

lemma kb_set_others: "linemem (kb_set KbUser i v s) = linemem s" "user_kb (kb_set KbKernel i v s) = user_kb s"
  by (simp_all add: kb_set_def)

end
