(* ===== verification/KeyProps.thy ===== *)
theory KeyProps
  imports ConsoleProps
begin

text \<open>
  What is typed is what is read. A console driver is described by the keys that it has ready; on such a driver, with handles that are
  open on it in cooked mode, a line of printable characters that ends with Enter reaches the buffer of the caller as it was
  typed, with its length.
\<close>

section \<open>The console driver\<close>

text \<open>The console is the device, the printer does not echo, and no key is Ctrl-C or Ctrl-S.\<close>

definition quiet :: "u32 \<Rightarrow> ('w \<Rightarrow> u8 list) \<Rightarrow> ('w, 'a) tty_scheme \<Rightarrow> bool" where
  "quiet dev keys s \<longleftrightarrow> syscon s = dev \<and> PrinterEcho s = 0 \<and> CTL_C \<notin> set (keys (world s)) \<and> CTL_S \<notin> set (keys (world s))"

text \<open>An entry of the system file table that is open on the device in cooked mode, and its index.\<close>

definition con_entry :: "u32 \<Rightarrow> sft \<Rightarrow> bool" where
  "con_entry dev f \<longleftrightarrow> sft_count f \<noteq> 0 \<and> sft_dcb f = dev \<and> sft_flags f AND SFT_FDEVICE \<noteq> 0 \<and>
     sft_flags f AND SFT_FSHARED = 0 \<and> sft_flags f AND SFT_FBINARY = 0 \<and> sft_flags f AND SFT_FNUL = 0"

definition con_at :: "u32 \<Rightarrow> int \<Rightarrow> ('w, 'a) tty_scheme \<Rightarrow> bool" where
  "con_at dev i s \<longleftrightarrow> 0 \<le> i \<and> (\<exists>p. sft_loop 0 i (sfthead s) = Some p \<and> con_entry dev (sft_at p s))"

definition con_ready :: "u32 \<Rightarrow> ('w \<Rightarrow> u8 list) \<Rightarrow> int \<Rightarrow> int \<Rightarrow> ('w, 'a) tty_scheme \<Rightarrow> bool" where
  "con_ready dev keys j i s \<longleftrightarrow> quiet dev keys s \<and> con_at dev j s \<and> con_at dev i s"

lemma con_at_cong: "sfthead s' = sfthead s \<Longrightarrow> con_at dev i s' = con_at dev i s"
  by (simp add: con_at_def)

lemma con_at_idx:
  assumes "con_at dev i s"
  obtains p where "idx_to_sft i s = (Some p, s\<lparr>lpCurSft := Some p\<rparr>)" "con_entry dev (sft_at p s)"
  using assms by (auto simp: con_at_def con_entry_def idx_to_sft_def idx_to_sft_loc_def)

lemma con_at_written:
  assumes "con_at dev i s"
  shows "con_at dev i (upd_sft q (\<lambda>f. f\<lparr>sft_flags := sft_flags f OR SFT_FEOF\<rparr>) s)"
proof -
  obtain p where p: "0 \<le> i" "sft_loop 0 i (sfthead s) = Some p" "con_entry dev (sft_at p s)" using assms by (auto simp: con_at_def)
  let ?t = "upd_sft q (\<lambda>f. f\<lparr>sft_flags := sft_flags f OR SFT_FEOF\<rparr>) s"
  have "map length (sfthead ?t) = map length (sfthead s)" by (simp add: map_update) (metis list_update_id map_update nth_map linorder_not_less length_map list_update_beyond)
  then have "sft_loop 0 i (sfthead ?t) = Some p" using sft_loop_lengths p(2) by metis
  moreover have "con_entry dev (sft_at p ?t)"
  proof (cases "fst q < length (sfthead s) \<and> snd q < length (sfthead s ! fst q) \<and> p = q")
    case True
    then show ?thesis using p(3) by (auto simp: con_entry_def bit.conj_disj_distrib2)
  next
    case False
    then have "sft_at p ?t = sft_at p s"
      by (cases "fst q < length (sfthead s)"; cases "snd q < length (sfthead s ! fst q)"; cases "fst p = fst q"; cases "snd p = snd q")
        (auto simp: prod_eq_iff list_update_beyond)
    then show ?thesis using p(3) by simp
  qed
  ultimately show ?thesis using p(1) by (auto simp: con_at_def)
qed

text \<open>Keys that stand for themselves.\<close>

definition plain :: "u8 \<Rightarrow> bool" where
  "plain c \<longleftrightarrow> 0x20 \<le> c \<and> c \<noteq> CTL_BS"

lemma unat_ucast_key: "unat (ucast (c :: u8) :: u16) = unat c"
  using unsigned_less [of c, where 'a = nat] by (simp add: unsigned_ucast_eq take_bit_eq_mod)

lemma ucast_key: "ucast (ucast (c :: u8) :: u16) = c"
  by (rule bit_word_eqI) (simp add: bit_simps)

lemma ucast_numeral_key: "ucast (CTL_C :: u16) = (CTL_C :: u8)" "ucast (CTL_S :: u16) = (CTL_S :: u8)"
  by simp_all

lemma edit_key_plain:
  assumes "plain c \<or> c = CR"
  shows "edit_key P V j i kp sz cp b (ucast c) e s = key_char P V i sz c e s"
proof -
  have u: "unat c < 256" using unsigned_less [of c] by simp
  have c: "32 \<le> unat c \<and> unat c \<noteq> 127 \<or> unat c = 13" using assms by (auto simp: plain_def word_le_nat_alt word_unat_eq_iff)
  have n: "ucast c \<noteq> x" if "unat x \<noteq> unat c" for x :: u16 using that unat_ucast_key [of c] by auto
  have g: "\<not> 256 \<le> (ucast c :: u16)" using u by (simp add: word_le_nat_alt unat_ucast_key)
  have "ucast c \<notin> {LF, CTL_F, RIGHT, F1, F2, F4, F3, F5, INS, DEL, LEFT, CTL_BS, BS, ESC, F6 :: u16}"
    using c u by (simp, intro conjI n) (auto simp del: unsigned_ucast_eq)
  then show ?thesis using g by (simp add: edit_key_def ucast_key)
qed

lemma world_kb_set: "world (kb_set kp i v s) = world s"
  by (simp add: kb_set_def split: kbp.split)

lemma world_copy: "world (copy_line kp k s) = world s"
proof -
  have "world (fold (\<lambda>i t. kb_set kp (2 + i) (g i) t) is t) = world t" for g "is" t
    by (induction "is" arbitrary: t) (simp_all add: world_kb_set)
  then show ?thesis by (simp add: copy_line_def)
qed

text \<open>
  The requests of the driver as the kernel uses them: a read without waiting reports the next key and leaves it, or the device is
  busy; a read of one character takes the key; output takes no key. Nobody presses Ctrl-Break.
\<close>

definition kbd_driver :: "'w platform \<Rightarrow> ('w, 'v) console_scheme \<Rightarrow> u32 \<Rightarrow> ('w \<Rightarrow> u8 list) \<Rightarrow> bool" where
  "kbd_driver P V dev keys \<longleftrightarrow>
     (\<forall>w. \<not> fst (CB_FLG V w) \<and> keys (snd (CB_FLG V w)) = keys w) \<and> (\<forall>c w. keys (fast_put_char V c w) = keys w) \<and>
     (\<forall>rq buf w rq' buf' w'. execrh P rq dev buf w = (rq', buf', w') \<longrightarrow> r_status rq' AND S_ERROR = 0 \<and>
       (r_command rq = C_NDREAD \<longrightarrow> keys w' = keys w \<and>
         (if keys w = [] then r_status rq' AND S_BUSY \<noteq> 0 else r_status rq' AND S_BUSY = 0 \<and> r_meddesc rq' = hd (keys w))) \<and>
       (r_command rq = C_INPUT \<and> r_count rq = 1 \<and> keys w \<noteq> [] \<longrightarrow> keys w' = tl (keys w) \<and> r_count rq' = 1 \<and> buf' 0 = hd (keys w)) \<and>
       (r_command rq = C_OUTPUT \<longrightarrow> keys w' = keys w))"

lemma kbd_console:
  assumes "kbd_driver P V dev keys"
  shows "\<not> fst (CB_FLG V w)" "keys (snd (CB_FLG V w)) = keys w" "keys (fast_put_char V c w) = keys w"
  using assms by (simp_all add: kbd_driver_def)

lemma kbd_request:
  assumes "kbd_driver P V dev keys" "execrh P rq dev buf w = (rq', buf', w')"
  shows "r_status rq' AND S_ERROR = 0"
    "r_command rq = C_NDREAD \<Longrightarrow> keys w' = keys w \<and>
      (if keys w = [] then r_status rq' AND S_BUSY \<noteq> 0 else r_status rq' AND S_BUSY = 0 \<and> r_meddesc rq' = hd (keys w))"
    "r_command rq = C_INPUT \<Longrightarrow> r_count rq = 1 \<Longrightarrow> keys w = c # ks \<Longrightarrow> keys w' = ks \<and> r_count rq' = 1 \<and> buf' 0 = c"
    "r_command rq = C_OUTPUT \<Longrightarrow> keys w' = keys w"
proof -
  note d = assms(1) [unfolded kbd_driver_def, THEN conjunct2, THEN conjunct2, rule_format, OF assms(2)]
  show "r_status rq' AND S_ERROR = 0" "r_command rq = C_NDREAD \<Longrightarrow> keys w' = keys w \<and>
      (if keys w = [] then r_status rq' AND S_BUSY \<noteq> 0 else r_status rq' AND S_BUSY = 0 \<and> r_meddesc rq' = hd (keys w))"
    "r_command rq = C_INPUT \<Longrightarrow> r_count rq = 1 \<Longrightarrow> keys w = c # ks \<Longrightarrow> keys w' = ks \<and> r_count rq' = 1 \<and> buf' 0 = c"
    "r_command rq = C_OUTPUT \<Longrightarrow> keys w' = keys w" using d by simp_all
qed

lemma CharRequest_done:
  assumes kb: "kbd_driver P V dev keys"
  obtains rq buf' w where "CharRequest P dev cmd buf s = Some (SUCCESS, buf', s\<lparr>CharReqHdr := rq, world := w\<rparr>)"
    "execrh P ((CharReqHdr s)\<lparr>r_command := cmd, r_unit := 0, r_status := 0, r_length := 30\<rparr>) dev buf (world s) = (rq, buf', w)"
proof -
  obtain rq buf' w where e: "execrh P ((CharReqHdr s)\<lparr>r_command := cmd, r_unit := 0, r_status := 0, r_length := 30\<rparr>) dev buf (world s) = (rq, buf', w)"
    by (metis prod_cases3)
  show thesis by (rule that [OF _ e]) (simp add: CharRequest_def e kbd_request(1) [OF kb e] Let_def)
qed

lemma CharCmd_look:
  assumes kb: "kbd_driver P V dev keys"
  obtains rq w where "CharCmd P dev C_NDREAD s = Some (s\<lparr>CharReqHdr := rq, world := w\<rparr>)" "keys w = keys (world s)" "r_status rq AND S_ERROR = 0"
    "if keys (world s) = [] then r_status rq AND S_BUSY \<noteq> 0 else r_status rq AND S_BUSY = 0 \<and> r_meddesc rq = hd (keys (world s))"
proof -
  obtain rq buf' w where r: "CharRequest P dev C_NDREAD (\<lambda>_. 0) s = Some (SUCCESS, buf', s\<lparr>CharReqHdr := rq, world := w\<rparr>)"
    "execrh P ((CharReqHdr s)\<lparr>r_command := C_NDREAD, r_unit := 0, r_status := 0, r_length := 30\<rparr>) dev (\<lambda>_. 0) (world s) = (rq, buf', w)"
    by (rule CharRequest_done [OF kb])
  show thesis by (rule that [of w rq]) (use r(1) kbd_request(2) [OF kb r(2)] kbd_request(1) [OF kb r(2)] in \<open>simp_all add: CharCmd.simps\<close>)
qed

lemma Busy_ready:
  assumes kb: "kbd_driver P V dev keys" and a: "keys (world s) \<noteq> []"
  obtains rq w where "Busy P dev s = Some (False, s\<lparr>CharReqHdr := rq, world := w\<rparr>)" "keys w = keys (world s)"
  using a by (rule_tac s = s in CharCmd_look [OF kb]) (simp add: Busy_def)

lemma ndread_next:
  assumes kb: "kbd_driver P V dev keys"
  obtains rq w where "ndread P dev s = Some (if keys (world s) = [] then -1 else uint (hd (keys (world s))), s\<lparr>CharReqHdr := rq, world := w\<rparr>)"
    "keys w = keys (world s)"
  by (rule_tac s = s in CharCmd_look [OF kb]) (simp add: ndread_def split: if_splits)

lemma CharIO_key:
  assumes kb: "kbd_driver P V dev keys" and a: "keys (world s) = c # ks"
  obtains rq w where "CharIO P dev 0 C_INPUT s = Some (uint c, s\<lparr>CharReqHdr := rq, world := w\<rparr>)" "keys w = ks"
proof -
  define t where "t = s\<lparr>CharReqHdr := (CharReqHdr s)\<lparr>r_count := 1\<rparr>\<rparr>"
  obtain rq buf' w where r: "CharRequest P dev C_INPUT (\<lambda>_. 0) t = Some (SUCCESS, buf', t\<lparr>CharReqHdr := rq, world := w\<rparr>)"
    "execrh P ((CharReqHdr t)\<lparr>r_command := C_INPUT, r_unit := 0, r_status := 0, r_length := 30\<rparr>) dev (\<lambda>_. 0) (world t) = (rq, buf', w)"
    by (rule CharRequest_done [OF kb])
  have k: "keys w = ks" "r_count rq = 1" "buf' 0 = c" using kbd_request(3) [OF kb r(2), of c ks] a by (simp_all add: t_def)
  show thesis by (rule that [of w rq]) (use r(1) k in \<open>simp_all add: CharIO_def BinaryCharIO.simps t_def\<close>)
qed

lemma CharIO_out:
  assumes kb: "kbd_driver P V dev keys"
  obtains e rq w where "CharIO P dev c C_OUTPUT s = Some (e, s\<lparr>CharReqHdr := rq, world := w\<rparr>)" "0 \<le> e" "keys w = keys (world s)"
proof -
  define t where "t = s\<lparr>CharReqHdr := (CharReqHdr s)\<lparr>r_count := 1\<rparr>\<rparr>"
  obtain rq buf' w where r: "CharRequest P dev C_OUTPUT (\<lambda>_. c) t = Some (SUCCESS, buf', t\<lparr>CharReqHdr := rq, world := w\<rparr>)"
    "execrh P ((CharReqHdr t)\<lparr>r_command := C_OUTPUT, r_unit := 0, r_status := 0, r_length := 30\<rparr>) dev (\<lambda>_. c) (world t) = (rq, buf', w)"
    by (rule CharRequest_done [OF kb])
  show thesis
    by (rule that [of "if uint (r_count rq) = 0 then 256 else uint (buf' 0)" w rq])
      (use r(1) kbd_request(4) [OF kb r(2)] in \<open>simp_all add: CharIO_def BinaryCharIO.simps t_def\<close>)
qed

lemma check_handle_break_look:
  assumes kb: "kbd_driver P V dev keys" and a: "syscon s = dev" "keys (world s) = [] \<or> hd (keys (world s)) \<notin> {CTL_C, CTL_S}"
  obtains c rq w where "check_handle_break P V dev s = Some (c, s\<lparr>CharReqHdr := rq, world := w\<rparr>)" "keys w = keys (world s)" "c \<noteq> CTL_S"
proof -
  obtain w0 where w0: "CB_FLG V (world s) = (False, w0)" "keys w0 = keys (world s)" using kbd_console(1,2) [OF kb, of "world s"] by (cases "CB_FLG V (world s)") simp
  obtain rq w where r: "ndread P dev (s\<lparr>world := w0\<rparr>) = Some (if keys w0 = [] then -1 else uint (hd (keys w0)), s\<lparr>world := w0\<rparr>\<lparr>CharReqHdr := rq, world := w\<rparr>)"
    "keys w = keys w0" by (rule_tac s = "s\<lparr>world := w0\<rparr>" in ndread_next [OF kb]) simp
  show thesis
    by (rule that [of "if keys w0 = [] then -1 else hd (keys w0)" w rq])
      (use r w0 a in \<open>auto simp: check_handle_break_def ctrl_break_pressed_def\<close>)
qed

lemma put_loop_one:
  assumes kb: "kbd_driver P V dev keys" and a: "quiet dev keys s"
  obtains fc rq w where "put_loop echo P V dev c 1 k s = Some (Inr fc, s\<lparr>CharReqHdr := rq, world := w\<rparr>)" "keys w = keys (world s)"
proof -
  have q: "syscon s = dev" "PrinterEcho s = 0" "keys (world s) = [] \<or> hd (keys (world s)) \<notin> {CTL_C, CTL_S}" 
    using a by (cases "keys (world s)"; auto simp: quiet_def)+
  obtain b rq0 w0 where b: "check_handle_break P V dev s = Some (b, s\<lparr>CharReqHdr := rq0, world := w0\<rparr>)" "keys w0 = keys (world s)" "b \<noteq> CTL_S"
    using q(1,3) by (rule check_handle_break_look [OF kb])
  define t where "t = (if k \<le> 0x80 then s\<lparr>CharReqHdr := rq0, world := w0\<rparr> else s)"
  have t: "keys (world t) = keys (world s)" "PrinterEcho t = 0" using b(2) q(2) by (simp_all add: t_def)
  obtain e rq w where o: "CharIO P dev c C_OUTPUT t = Some (e, t\<lparr>CharReqHdr := rq, world := w\<rparr>)" "0 \<le> e" "keys w = keys (world t)"
    by (rule CharIO_out [OF kb])
  define fc where "fc = (k + 1) AND 0x9f"
  have "put_loop echo P V dev c 1 k s = (
      if fc AND 0x80 \<noteq> 0 then Some (Inr fc, t\<lparr>world := fast_put_char V c (world t)\<rparr>) else Some (Inr fc, t\<lparr>CharReqHdr := rq, world := w\<rparr>))"
    using b(1,3) t(2) o(1,2) unfolding fc_def by (simp add: t_def Let_def split: if_splits)
  moreover have "\<exists>rq w. t\<lparr>world := fast_put_char V c (world t)\<rparr> = s\<lparr>CharReqHdr := rq, world := w\<rparr> \<and> keys w = keys (world s)"
    by (rule exI [of _ "CharReqHdr t"], rule exI [of _ "fast_put_char V c (world t)"]) (use t(1) kbd_console(3) [OF kb] in \<open>simp add: t_def\<close>)
  moreover have "t\<lparr>CharReqHdr := rq, world := w\<rparr> = s\<lparr>CharReqHdr := rq, world := w\<rparr>" by (simp add: t_def)
  ultimately show thesis using that o(3) t(1) by (metis (no_types, lifting))
qed

lemma cooked_write_one:
  assumes kb: "kbd_driver P V dev keys" and a: "quiet dev keys s" "c \<noteq> CTL_Z" "c \<noteq> HT"
  obtains rq w sp where "cooked_write P V dev [c] s = Some (1, s\<lparr>CharReqHdr := rq, world := w, scr_pos := sp\<rparr>)" "keys w = keys (world s)"
proof -
  define t where "t = update_scr_pos c 1 s"
  have q: "quiet dev keys t" using a(1) by (simp add: quiet_def t_def update_scr_pos_def)
  obtain fc rq w where p: "put_loop (\<lambda>c s. DosRWSft_body (\<lambda>_ _ _ _ _ _. None) (cooked_write P V) P V (get_sft_idx STDPRN s) 1 (dos_ds s, 0) (\<lambda>_. c) XFR_WRITE s
        \<bind> (\<lambda>(_, _, s1). Some s1)) P V dev c 1 (ucast (push_bit 3 (dh_attr P dev AND 0x10))) t = Some (Inr fc, t\<lparr>CharReqHdr := rq, world := w\<rparr>)"
    "keys w = keys (world t)" by (rule put_loop_one [OF kb q])
  have "cooked_write P V dev [c] s = Some (1, t\<lparr>CharReqHdr := rq, world := w\<rparr>)"
    unfolding cooked_write.simps write_loop.simps if_not_P [OF a(2)] if_not_P [OF a(3)] Let_def unat_1 t_def [symmetric] p(1) bind.bind_lunit
      prod.case sum.case by simp
  then show thesis using that [of "scr_pos t" w rq] p(2) by (simp add: t_def update_scr_pos_def)
qed

lemma write_char_ready:
  assumes kb: "kbd_driver P V dev keys" and a: "con_ready dev keys j i s" "c \<noteq> CTL_Z" "c \<noteq> HT"
  obtains s' where "write_char P V c i s = Some s'" "con_ready dev keys j i s'" "keys (world s') = keys (world s)"
proof -
  obtain p where p: "idx_to_sft i s = (Some p, s\<lparr>lpCurSft := Some p\<rparr>)" "con_entry dev (sft_at p s)"
    using a(1) con_at_idx by (metis con_ready_def)
  define t where "t = upd_sft p (\<lambda>f. f\<lparr>sft_flags := sft_flags f OR SFT_FEOF\<rparr>) (s\<lparr>lpCurSft := Some p\<rparr>)"
  have q: "quiet dev keys t" using a(1) by (simp add: t_def quiet_def con_ready_def)
  obtain rq w sp where w: "cooked_write P V dev [c] t = Some (1, t\<lparr>CharReqHdr := rq, world := w, scr_pos := sp\<rparr>)" "keys w = keys (world t)"
    by (rule cooked_write_one [OF kb q a(2,3)])
  let ?s' = "t\<lparr>CharReqHdr := rq, world := w, scr_pos := sp\<rparr>"
  have "write_char P V c i s = Some ?s'"
    using p(2) w(1) unfolding write_char_def DosRWSft_body_def p(1) prod.case option.case Let_def by (simp add: con_entry_def t_def [simplified])
  moreover have "con_at dev k ?s'" if "con_at dev k s" for k
    using con_at_written [OF that, of p] con_at_cong [of ?s' "upd_sft p (\<lambda>f. f\<lparr>sft_flags := sft_flags f OR SFT_FEOF\<rparr>) s" dev k] by (simp add: t_def)
  ultimately show thesis using that [of ?s'] a(1) w(2) q by (simp add: con_ready_def quiet_def t_def)
qed

lemma read_char_ready:
  assumes kb: "kbd_driver P V dev keys" and a: "con_ready dev keys j i s" "keys (world s) = c # ks"
  obtains s' where "read_char_check_break P V j s = Some (c, s')" "con_ready dev keys j i s'" "keys (world s') = ks"
proof -
  obtain p where p: "idx_to_sft j s = (Some p, s\<lparr>lpCurSft := Some p\<rparr>)" "con_entry dev (sft_at p s)"
    using a(1) con_at_idx by (metis con_ready_def)
  obtain w0 where w0: "CB_FLG V (world s) = (False, w0)" "keys w0 = c # ks" using kbd_console(1,2) [OF kb, of "world s"] a(2) by (cases "CB_FLG V (world s)") simp
  define s0 where "s0 = s\<lparr>lpCurSft := Some p, world := w0\<rparr>"
  obtain rq1 w1 where b: "Busy P dev s0 = Some (False, s0\<lparr>CharReqHdr := rq1, world := w1\<rparr>)" "keys w1 = keys (world s0)"
    by (rule Busy_ready [OF kb, of s0]) (simp_all add: s0_def w0)
  define s1 where "s1 = s0\<lparr>CharReqHdr := rq1, world := w1\<rparr>"
  obtain rq w where k: "CharIO P dev 0 C_INPUT s1 = Some (uint c, s1\<lparr>CharReqHdr := rq, world := w\<rparr>)" "keys w = ks"
    by (rule CharIO_key [OF kb, of s1 c ks]) (simp_all add: s1_def b(2) s0_def w0)
  let ?s' = "s1\<lparr>CharReqHdr := rq, world := w\<rparr>"
  have n: "c \<noteq> CTL_C" "c \<noteq> CTL_S" using a by (auto simp: con_ready_def quiet_def)
  have u: "ucast c \<noteq> (CTL_C :: u16)" "ucast c \<noteq> (CTL_S :: u16)" using n ucast_key [of c] by (metis ucast_numeral_key)+
  have "wait_char P V dev True (s\<lparr>lpCurSft := Some p\<rparr>) = Some (word_of_int (uint c), ?s')"
    using w0 b(1) k(1) by (simp add: wait_char.simps ctrl_break_pressed_def s0_def [symmetric] s1_def [symmetric])
  then have "read_char_check_break P V j s = Some (ucast (ucast c :: u16), ?s')"
    using p u by (simp add: read_char_check_break_def read_char_def sft_to_dev_def con_entry_def read_char_sft_dev_def next_char_def)
  moreover have "con_ready dev keys j i ?s'" using a k(2) con_at_cong [of ?s' s] by (auto simp: con_ready_def quiet_def s1_def s0_def)
  ultimately show thesis using that [of ?s'] k(2) by (simp add: ucast_key)
qed

lemma key_char_ready:
  assumes kb: "kbd_driver P V dev keys" and a: "con_ready dev keys j i s" "plain c \<and> ed_count e < sz - 1 \<or> c = CR"
  obtains e' s' where "key_char P V i sz c e s = Some (e', s')" "ed_count e' = ed_count e + 1" "con_ready dev keys j i s'"
    "keys (world s') = keys (world s)" "linemem s' = (linemem s)(unat (ed_count e) := c)"
proof -
  have c: "c \<noteq> CTL_Z" "c \<noteq> HT" "\<not> (c < 0x20 \<and> c \<noteq> HT \<and> c \<noteq> LF \<and> c \<noteq> CR)" using a(2) by (auto simp: plain_def not_less [symmetric])
  obtain s1 where s1: "write_char P V c i s = Some s1" "con_ready dev keys j i s1" "keys (world s1) = keys (world s)"
    using a(1) c(1,2) by (rule write_char_ready [OF kb])
  have e: "echo_char P V c i s = Some s1" using s1(1) c(3) by (auto simp: echo_char_def)
  have l: "linemem s1 = linemem s" using frames(1) [OF e] by (simp add: lkeep_def)
  have r: "con_ready dev keys j i (s1\<lparr>linemem := m\<rparr>)" for m using s1(2) con_at_cong [of "s1\<lparr>linemem := m\<rparr>" s1] by (simp add: con_ready_def quiet_def)
  define e1 where "e1 = e\<lparr>ed_count := ed_count e + 1\<rparr>"
  have "ed_count e < sz - 1 \<or> c = CR" using a(2) by blast
  then have "key_char P V i sz c e s = Some (if stored_pos e1 < stored_size e1 \<and> \<not> ed_insert e1 then e1\<lparr>stored_pos := stored_pos e1 + 1\<rparr> else e1,
      s1\<lparr>linemem := (linemem s1)(unat (ed_count e) := c)\<rparr>)"
    by (simp add: key_char_def e e1_def)
  from that [OF this _ r] show thesis by (simp add: e1_def l s1(3))
qed

lemma line_loop_typed:
  assumes kb: "kbd_driver P V dev keys" and a: "con_ready dev keys j i s" "keys (world s) = cs @ [CR]" "\<forall>c \<in> set cs. plain c" "unat (ed_count e) + length cs < unat sz"
  obtains e' s' where "line_loop P V j i kp sz cp b e s = Some (e', s')" "unat (ed_count e') = unat (ed_count e) + length cs + 1" "keys (world s') = []"
    "\<forall>k < unat (ed_count e'). linemem s' k = (if k < unat (ed_count e) then linemem s k else (cs @ [CR]) ! (k - unat (ed_count e)))"
  using a
proof (induction cs arbitrary: thesis e s b)
  case Nil
  obtain s1 where s1: "read_char_check_break P V j s = Some (CR, s1)" "con_ready dev keys j i s1" "keys (world s1) = []"
    using Nil.prems(2,3) by (auto elim: read_char_ready [OF kb])
  obtain e' s' where k: "key_char P V i sz CR e s1 = Some (e', s')" "ed_count e' = ed_count e + 1" "keys (world s') = keys (world s1)"
    "linemem s' = (linemem s1)(unat (ed_count e) := CR)" using s1(2) by (rule key_char_ready [OF kb]) auto
  have l: "linemem s1 = linemem s" using frames(6) [OF s1(1)] by (simp add: lkeep_def)
  have n: "unat (ed_count e + 1) = unat (ed_count e) + 1"
    using Nil.prems(5) unat_u16_less [of sz] unat_u16_less [of "ed_count e + 1"] by (simp add: unat_plus_if' del: unat_u16_less)
  have "line_loop P V j i kp sz cp b e s = Some (e', s')"
    using edit_key_plain [of CR P V j i kp sz cp b e s1] by (simp add: line_loop.simps s1(1) k(1))
  then show ?case by (rule Nil.prems(1)) (auto simp: k n l s1(3) less_Suc_eq)
next
  case (Cons c cs)
  obtain s1 where s1: "read_char_check_break P V j s = Some (c, s1)" "con_ready dev keys j i s1" "keys (world s1) = cs @ [CR]"
    using Cons.prems(2,3) by (auto elim: read_char_ready [OF kb])
  have c: "plain c" "c \<noteq> 0" "ucast c \<noteq> (CR :: u16)"
    using Cons.prems(4) unat_ucast_key [of c] by (auto simp: plain_def word_le_nat_alt word_unat_eq_iff)
  have "unat (sz - 1) = unat sz - 1" using Cons.prems(5) by (intro unat_minus_one) auto
  then have room: "ed_count e < sz - 1" "sz \<noteq> 0" using Cons.prems(5) by (auto simp: word_less_nat_alt)
  obtain e1 s2 where k: "key_char P V i sz c e s1 = Some (e1, s2)" "ed_count e1 = ed_count e + 1" "con_ready dev keys j i s2"
    "keys (world s2) = keys (world s1)" "linemem s2 = (linemem s1)(unat (ed_count e) := c)" using s1(2) by (rule key_char_ready [OF kb]) (use c room in auto)
  have l: "linemem s1 = linemem s" using frames(6) [OF s1(1)] by (simp add: lkeep_def)
  have n: "unat (ed_count e + 1) = unat (ed_count e) + 1" using u16_room [OF room] by simp
  obtain e' s' where ih: "line_loop P V j i kp sz cp False e1 s2 = Some (e', s')" "unat (ed_count e') = unat (ed_count e1) + length cs + 1" "keys (world s') = []"
    "\<forall>k < unat (ed_count e'). linemem s' k = (if k < unat (ed_count e1) then linemem s2 k else (cs @ [CR]) ! (k - unat (ed_count e1)))"
    by (rule Cons.IH [where e = e1 and s = s2 and b = False]) (use k s1(3) Cons.prems(4,5) n in auto)
  have "line_loop P V j i kp sz cp b e s = Some (e', s')"
    unfolding line_loop.simps [of P V j i kp sz cp b] using edit_key_plain [of c P V j i kp sz cp b e s1] c ih(1) by (simp add: s1(1) k(1))
  then show ?case
  proof (rule Cons.prems(1))
    show "\<forall>k < unat (ed_count e'). linemem s' k = (if k < unat (ed_count e) then linemem s k else ((c # cs) @ [CR]) ! (k - unat (ed_count e)))"
      using ih(4) unfolding k(2,5) n l by (auto simp: nth_Cons' not_less)
  qed (use ih(2,3) k(2) n in simp_all)
qed

lemma read_line_keys:
  assumes kb: "kbd_driver P V dev keys" and a: "con_ready dev keys j i s" "keys (world s) = cs @ [CR]" "\<forall>c \<in> set cs. plain c" "length cs < unat (kb_get kp 0 s)"
    "kp = KbKernel \<longrightarrow> kb_get kp 0 s \<le> 128"
  shows "\<exists>s'. read_line P V j i kp s = Some s' \<and> keys (world s') = [] \<and> unat (kb_get kp 1 s') = length cs \<and>
    map (\<lambda>k. kb_get kp (2 + k) s') [0..<length cs] = cs"
proof -
  define n where "n = kb_get kp 0 s"
  define sz where "sz = (ucast n :: u16)"
  define e0 where "e0 = \<lparr>ed_count = 0, stored_pos = 0, stored_size = (if kb_get kp (2 + unat (ucast (kb_get kp 1 s) :: u16)) s \<noteq> CR then 0 else ucast (kb_get kp 1 s)),
    ed_insert = False\<rparr>"
  have n8: "unat n < 256" using unsigned_less [of n] by simp
  have sz: "unat sz = unat n" by (simp add: sz_def unat_ucast_key)
  have z: "sz \<noteq> 0" using sz a(4) by (auto simp: n_def)
  obtain e s1 where l: "line_loop P V j i kp sz (ucast (scr_pos s)) True e0 s = Some (e, s1)" "unat (ed_count e) = length cs + 1" "keys (world s1) = []"
    "\<forall>k < unat (ed_count e). linemem s1 k = (cs @ [CR]) ! k"
    by (rule line_loop_typed [OF kb a(1-3), of e0 sz]) (use a(4) sz in \<open>auto simp: e0_def n_def\<close>)
  define t where "t = (let t = copy_line kp (ed_count e) s1 in if ed_count e > 128 then t\<lparr>linemem := (linemem t)(128 := 0)\<rparr> else t)"
  have r: "read_line P V j i kp s = Some (kb_set kp 1 (ucast (ed_count e - 1)) t)"
    unfolding read_line_def n_def [symmetric] sz_def [symmetric] Let_def e0_def [symmetric] if_not_P [OF z] l(1) by (simp add: t_def Let_def)
  have ku: "kp = KbUser" if "ed_count e > 128"
    using that a(4,5) l(2) by (cases kp) (auto simp: word_less_nat_alt word_le_nat_alt)
  have b: "kb_get kp (2 + k) t = (cs @ [CR]) ! k" if "k < unat (ed_count e)" for k
    using kb_get_copy [OF that, of kp s1] l(4) that ku by (cases kp) (auto simp: t_def Let_def kb_get_def)
  have w: "keys (world t) = []" using l(3) by (simp add: t_def Let_def world_copy)
  have "unat (ed_count e - 1) = length cs" using l(2) by (subst unat_minus_one) auto
  then have "unat (ucast (ed_count e - 1) :: u8) = length cs" using a(4) n8 by (simp add: n_def unsigned_ucast_eq take_bit_eq_mod)
  then have "unat (kb_get kp 1 (kb_set kp 1 (ucast (ed_count e - 1)) t)) = length cs" by (simp add: kb_get_set)
  moreover have "map (\<lambda>k. kb_get kp (2 + k) (kb_set kp 1 (ucast (ed_count e - 1)) t)) [0..<length cs] = cs"
    using b l(2) by (intro nth_equalityI) (simp_all add: kb_get_set nth_append)
  ultimately show ?thesis using r w by (intro exI [of _ "kb_set kp 1 (ucast (ed_count e - 1)) t"] conjI) (simp_all only: world_kb_set)
qed

section \<open>Reading a line\<close>

text \<open>
  C32. The line editor (DOS function 0Ah, and reads from the console through a handle) keeps to the buffer of its caller. Whatever keys
  arrive, a line that is returned is shorter than the size in the first byte of the buffer, it ends with a carriage return, and the size
  and all bytes behind the buffer are as before. With the buffer of a program, the memory of the kernel behind the first \<^verbatim>\<open>size\<close>
  bytes of \<^verbatim>\<open>local_buffer\<close> stays as it is; with the buffer of the kernel, which has 128 characters, the one of the program does.
\<close>

theorem read_line_bounds:
  assumes r: "read_line P V sft_in sft_out kp s = Some s'"
    and n: "n = kb_get kp 0 s" "n \<noteq> 0" and k: "kp = KbKernel \<longrightarrow> n \<le> 128"
  shows "kb_get kp 0 s' = n \<and> kb_get kp 1 s' < n \<and> kb_get kp (2 + unat (kb_get kp 1 s')) s' = CR \<and>
    (\<forall>i \<ge> 2 + unat n. kb_get kp i s' = kb_get kp i s) \<and>
    (kp = KbUser \<longrightarrow> (\<forall>i \<ge> unat n. linemem s' i = linemem s i)) \<and> (kp = KbKernel \<longrightarrow> user_kb s' = user_kb s)"
proof -
  define sz where "sz = (ucast n :: u16)"
  have n8: "unat n < 256" using unsigned_less [of n] by simp
  have sz: "unat sz = unat n" "sz \<noteq> 0" "sz > 0" using n(2) n8
    by (simp_all add: sz_def unsigned_ucast_eq take_bit_eq_mod word_unat_eq_iff word_less_nat_alt)
  have k': "kp = KbKernel \<longrightarrow> unat n \<le> 128" using k by (simp add: word_le_nat_alt)
  from r sz(2) obtain e0 e s1 where l: "line_loop P V sft_in sft_out kp sz (ucast (scr_pos s)) True e0 s = Some (e, s1)" "ed_count e0 = 0"
    and s': "s' = kb_set kp 1 (ucast (ed_count e - 1)) (let t = copy_line kp (ed_count e) s1 in
        if ed_count e > 128 then t\<lparr>linemem := (linemem t)(128 := 0)\<rparr> else t)"
    unfolding read_line_def n(1) [symmetric] sz_def [symmetric] Let_def by (auto simp: bind_eq_Some_conv)
  have "line_end kp sz (lkeep s) (e, s1)"
    by (rule line_loop_end [OF l(1) _ sz(2)]) (use l(2) sz k' in \<open>simp add: line_ok_def kept_refl\<close>)
  then have c: "0 < ed_count e" "ed_count e \<le> sz" "linemem s1 (unat (ed_count e) - 1) = CR" "kept kp (unat n) (lkeep s) (lkeep s1)"
    by (simp_all add: line_end_def sz)
  define t where "t = copy_line kp (ed_count e) s1"
  define t' where "t' = (if ed_count e > 128 then t\<lparr>linemem := (linemem t)(128 := 0)\<rparr> else t)"
  have m: "unat (ed_count e - 1) = unat (ed_count e) - 1" using c(1) by (intro unat_minus_one) auto
  have u: "0 < unat (ed_count e)" "unat (ed_count e) \<le> unat n" using c(1,2) sz(1) by (simp_all add: word_less_nat_alt word_le_nat_alt)
  have kt: "kept kp (unat n) (lkeep s) (lkeep t)" unfolding t_def using c(4) u(2) by (rule kept_copy)
  have ku: "kp = KbUser" "128 < unat n" if "ed_count e > 128" using that k' u by (cases kp; simp add: word_less_nat_alt)+
  have kt': "kept kp (unat n) (lkeep s) (lkeep t')" unfolding t'_def using kept_put [OF kt, of 128] kt ku(2) by auto
  have cr: "kb_get kp (2 + unat (ed_count e - 1)) t' = CR"
    using kb_get_copy [of "unat (ed_count e - 1)" "ed_count e" kp s1] c(3) u(1) m ku(1)
    unfolding t_def [symmetric] by (cases kp) (simp_all add: t'_def kb_get_def)
  have v: "unat (ucast (ed_count e - 1) :: u8) = unat (ed_count e - 1)"
    using u m n8 by (simp add: unsigned_ucast_eq take_bit_eq_mod)
  have s'': "s' = kb_set kp 1 (ucast (ed_count e - 1)) t'" using s' by (simp add: t'_def t_def Let_def)
  have g: "kb_get kp 1 s' = ucast (ed_count e - 1)" "\<And>i. i \<noteq> 1 \<Longrightarrow> kb_get kp i s' = kb_get kp i t'"
    unfolding s'' by (simp_all add: kb_get_set)
  have "kb_get kp 1 s' < n" unfolding g(1) word_less_nat_alt v m using u by simp
  moreover have "kb_get kp (2 + unat (kb_get kp 1 s')) s' = CR" unfolding g(1) v using g(2) cr by simp
  moreover have "kb_get kp i s' = kb_get kp i s" if "i = 0 \<or> 2 + unat n \<le> i" for i
    using kept_kb_get [OF kt', of i] g(2) [of i] that by auto
  moreover have "kp = KbUser \<Longrightarrow> unat n \<le> i \<Longrightarrow> linemem s' i = linemem s i" for i
    using kept_local kt' unfolding s'' by (metis kb_set_others(1))
  moreover have "kp = KbKernel \<Longrightarrow> user_kb s' = user_kb s" using kept_user kt' unfolding s'' by (metis kb_set_others(2))
  ultimately show ?thesis using n(1) by simp
qed

text \<open>
  C31. What is typed is what is read. On a console driver that answers its requests as documented, with both handles open on the
  console in cooked mode, printable characters followed by Enter are returned by the line editor as they were typed: it ends, all keys are
  taken, the count is their number and the buffer holds them, if they are fewer than the size in the buffer.
\<close>

theorem read_line_typed:
  assumes "kbd_driver P V dev keys" "con_ready dev keys sft_in sft_out s" "keys (world s) = cs @ [CR]" "\<forall>c \<in> set cs. plain c"
    "length cs < unat (kb_get kp 0 s)" "kp = KbKernel \<longrightarrow> kb_get kp 0 s \<le> 128"
  shows "\<exists>s'. read_line P V sft_in sft_out kp s = Some s' \<and> keys (world s') = [] \<and> unat (kb_get kp 1 s') = length cs \<and>
    map (\<lambda>k. kb_get kp (2 + k) s') [0..<length cs] = cs"
  using assms by (rule read_line_keys)

text \<open>The witnesses: a driver whose state is the list of the keys, and \<^verbatim>\<open>dir\<close> typed into a buffer for nine characters.\<close>

definition key_machine :: "u8 list platform" where
  "key_machine = \<lparr>execrh = (\<lambda>rq _ buf w.
       if r_command rq = C_INPUT \<and> w \<noteq> [] then (rq\<lparr>r_status := S_DONE, r_count := 1\<rparr>, buf(0 := hd w), tl w)
       else (rq\<lparr>r_status := (if w = [] then S_DONE OR S_BUSY else S_DONE), r_meddesc := (if w = [] then 0 else hd w)\<rparr>, buf, w)),
     dh_attr = (\<lambda>_. 0x8013), CriticalError = (\<lambda>_ _ _ _ w. (3, w)), network_redirector = (\<lambda>_ w. w)\<rparr>"

definition key_console :: "u8 list console" where
  "key_console = \<lparr>network_redirector_fp = (\<lambda>_ f w. (0, f, w)), share_check = (\<lambda>w. (0, w)), share_close_file = (\<lambda>_ w. w),
     QRemote_Fn = (\<lambda>_ w. (-1, [], w)), remote_call = (\<lambda>_ _ _ w. (-1, w)), remote_open = (\<lambda>_ _ _ _ f w. (-1, f, w)),
     remote_lseek = (\<lambda>_ p w. (p, w)), remote_getspace = (\<lambda>_ _ w. (-1, \<lambda>_. 0, w)), remote_find = (\<lambda>_ _ _ m e w. (-1, m, e, w)),
     remote_setattr = (\<lambda>_ _ w. (-1, w)), remote_lock = (\<lambda>_ _ _ _ w. (-1, w)), share_open_check = (\<lambda>_ _ _ _ w. (0, w)),
     share_is_file_open = (\<lambda>_ w. (False, w)), share_lock_unlock = (\<lambda>_ _ _ _ _ w. (0, w)),
     CB_FLG = (\<lambda>w. (False, w)), CB_reset = (\<lambda>w. w), DosIdle_int = (\<lambda>w. w), fast_put_char = (\<lambda>_ w. w),
     remote_rw = (\<lambda>_ f _ _ b w. (-1, f, b, w)), share_access_check = (\<lambda>_ _ _ _ w. (0, w))\<rparr>"

lemma key_machine_driver: "kbd_driver key_machine key_console dev (\<lambda>w. w)"
  by (simp add: kbd_driver_def key_machine_def key_console_def)

definition key_tty :: "u8 list tty \<Rightarrow> u8 list tty" where
  "key_tty x = x\<lparr>syscon := 0x00700010, PrinterEcho := 0, user_kb := (\<lambda>_. 0)(0 := 10), world := [0x64, 0x69, 0x72, CR],
     sfthead := [[zero_sft\<lparr>sft_count := 1, sft_flags := 0x00c3, sft_dcb := 0x00700010\<rparr>]]\<rparr>"

lemma key_tty_ready: "con_ready 0x00700010 (\<lambda>w. w) 0 0 (key_tty x)"
  by (simp add: con_ready_def quiet_def con_at_def con_entry_def key_tty_def)

lemma key_tty_facts: "world (key_tty x) = [0x64, 0x69, 0x72] @ [CR]" "\<forall>c \<in> set [0x64, 0x69, 0x72]. plain c"
  "length [0x64, 0x69, 0x72 :: u8] < unat (kb_get KbUser 0 (key_tty x))" "kb_get KbUser 0 (key_tty x) = 10"
  by (simp_all add: key_tty_def plain_def kb_get_def)

theorem read_line_typed_witness:
  "\<forall>x. \<exists>s'. read_line key_machine key_console 0 0 KbUser (key_tty x) = Some s' \<and> unat (kb_get KbUser 1 s') = 3 \<and>
     map (\<lambda>k. kb_get KbUser (2 + k) s') [0..<3] = [0x64, 0x69, 0x72]"
proof
  fix x
  show "\<exists>s'. read_line key_machine key_console 0 0 KbUser (key_tty x) = Some s' \<and> unat (kb_get KbUser 1 s') = 3 \<and>
     map (\<lambda>k. kb_get KbUser (2 + k) s') [0..<3] = [0x64, 0x69, 0x72]"
    using read_line_typed [OF key_machine_driver key_tty_ready key_tty_facts(1-3)] by (auto simp: numeral_3_eq_3)
qed

theorem read_line_bounds_witness:
  "\<forall>x. \<exists>s'. read_line key_machine key_console 0 0 KbUser (key_tty x) = Some s' \<and> kb_get KbUser 1 s' < 10 \<and>
     kb_get KbUser (2 + unat (kb_get KbUser 1 s')) s' = CR"
proof
  fix x
  obtain s' where s': "read_line key_machine key_console 0 0 KbUser (key_tty x) = Some s'"
    using read_line_keys [OF key_machine_driver key_tty_ready key_tty_facts(1-3)] by auto
  show "\<exists>s'. read_line key_machine key_console 0 0 KbUser (key_tty x) = Some s' \<and> kb_get KbUser 1 s' < 10 \<and>
     kb_get KbUser (2 + unat (kb_get KbUser 1 s')) s' = CR"
    using read_line_bounds [OF s' key_tty_facts(4) [symmetric]] s' by auto
qed

end
