(* ===== verification/FcbProps.thy ===== *)
theory FcbProps
  imports Fcb KeyProps
begin

text \<open>
  File control blocks: parsing a name undoes printing it, and random block reads deliver whole records. The lemmas at the end
  show where the code departs from that.
\<close>

section \<open>Names\<close>

text \<open>A character of a name that stands for itself, and a field filled up with blanks.\<close>

definition fcb_char :: "(u8 \<Rightarrow> u8) \<Rightarrow> u8 \<Rightarrow> bool" where
  "fcb_char up c \<longleftrightarrow> \<not> TestFieldSeps c \<and> c \<noteq> 0x2a \<and> c \<noteq> 0x3f \<and> up c = c"

definition fill :: "nat \<Rightarrow> u8 list \<Rightarrow> u8 list" where
  "fill n xs = xs @ replicate (n - length xs) 0x20"

lemma fcb_charD: "fcb_char up c \<Longrightarrow> c \<noteq> 0 \<and> c \<noteq> 0x20 \<and> c \<noteq> 0x2e \<and> c \<noteq> 0x3a \<and> c \<noteq> 0x09"
  by (auto simp: fcb_char_def TestFieldSeps_def)

lemma GetNameField_fill:
  assumes "\<forall>c \<in> set n. fcb_char up c" "length n \<le> k" "r = [] \<or> TestFieldSeps (hd r)"
  shows "GetNameField up (n @ r) k w = (fill k n, w, r)"
  using assms(1,2)
proof (induction n arbitrary: k)
  case Nil
  then show ?case using assms(3) by (cases r) (auto simp: fill_def)
next
  case (Cons c n)
  then show ?case using fcb_charD [of up c] by (auto simp: fill_def fcb_char_def)
qed

lemma strip_fill: "0x20 \<notin> set n \<Longrightarrow> strip_blanks (fill k n) = n"
  by (cases n rule: rev_cases) (auto simp: strip_blanks_def fill_def dropWhile_append)

lemma ConvertName83ToNameSZ_fill:
  assumes "\<forall>c \<in> set (n @ e). fcb_char up c" "n \<noteq> []" "length n \<le> 8" "length e \<le> 3"
  shows "ConvertName83ToNameSZ (fill 8 n @ fill 3 e) = n @ (if e = [] then [] else 0x2e # e)"
proof -
  have b: "0x20 \<notin> set n" "0x20 \<notin> set e" using assms(1) fcb_charD by auto
  have l: "length (fill 8 n) = 8" "length (fill 3 e) = 3" using assms(3,4) by (simp_all add: fill_def)
  have h: "(fill 8 n @ fill 3 e) ! 0 \<noteq> 0x2e" using assms(1,2) fcb_charD by (cases n) (auto simp: fill_def)
  show ?thesis using l h strip_fill [OF b(1), of 8] strip_fill [OF b(2), of 3] by (simp add: ConvertName83ToNameSZ_def Let_def)
qed

lemma up_letter: "0x41 \<le> c \<Longrightarrow> c \<le> 0x5a \<Longrightarrow> DosUpFChar s c = c"
  by (auto simp: DosUpFChar_def DosUpFMem_def upMMem_def up_char_def word_le_nat_alt word_less_nat_alt)

text \<open>A name without drive.\<close>

lemma parse_name:
  assumes "\<forall>c \<in> set (n @ e). fcb_char (DosUpFChar s) c" "n \<noteq> []" "length n \<le> 8" "length e \<le> 3"
  shows "GetNameField (DosUpFChar s) (n @ (if e = [] then [] else 0x2e # e)) 8 False = (fill 8 n, False, if e = [] then [] else 0x2e # e)"
    "e \<noteq> [] \<Longrightarrow> GetNameField (DosUpFChar s) e 3 False = (fill 3 e, False, [])"
  using GetNameField_fill [of n "DosUpFChar s" 8 "if e = [] then [] else 0x2e # e" False] GetNameField_fill [of e "DosUpFChar s" 3 "[]" False] assms
  by (auto simp: TestFieldSeps_def)

lemma skip_first: "\<not> TestFieldSeps c \<Longrightarrow> ParseSkipWh (c # cs) = c # cs"
  by (auto simp: ParseSkipWh_def TestFieldSeps_def)

lemma parse_body:
  assumes "\<forall>c \<in> set (n @ e). fcb_char (DosUpFChar s) c" "n \<noteq> []" "length n \<le> 8" "length e \<le> 3"
    and str: "str = n @ (if e = [] then [] else 0x2e # e)"
    and h: "ParseSkipWh str0 = str1" "has_drive = (\<not> TestFieldSeps (peek str1 0) \<and> peek str1 1 = 0x3a)" "str = (if has_drive then drop 2 str1 else str1)"
    and d: "has_drive \<longrightarrow> get_cds (ucast (DosUpFChar s (peek str1 0) - 0x41)) s \<noteq> None"
  shows "FcbParseFname 0 str0 f s = (0, [], f\<lparr>fcb_drive := (if has_drive then DosUpFChar s (peek str1 0) - 0x41 + 1 else 0),
    fcb_cublock := 0, fcb_recsiz := 0, fcb_fname := fill 8 n, fcb_fext := fill 3 e\<rparr>)"
proof -
  have p: "peek str 0 \<noteq> 0x2e" using assms(1,2) fcb_charD str by (cases n) auto
  note g = parse_name [OF assms(1-4)]
  have g1: "GetNameField (DosUpFChar s) str 8 False = (fill 8 n, False, if e = [] then [] else 0x2e # e)" using g(1) str by simp
  have e: "fill 3 [] = [0x20, 0x20, 0x20]" by (simp add: fill_def numeral_3_eq_3)
  have z: "(0 :: u8) AND x \<noteq> 0 \<longleftrightarrow> False" "(0 :: u8) AND x = 0 \<longleftrightarrow> True" for x by simp_all
  show ?thesis
    unfolding FcbParseFname_def z not_True_eq_False not_False_eq_True if_False if_True Let_def h(1) h(2) [symmetric] unfolding h(3) [symmetric] g1 prod.case if_not_P [OF p]
    using g(2) d e by (cases has_drive; cases "e = []") (simp_all add: numeral_3_eq_3)
qed

text \<open>
  C34. Parsing a name into a file control block (DOS function 29h) undoes printing it: for a block with a name of up to eight and an
  extension of up to three characters that are no separators and no wildcards, on the default drive or a drive that exists, parsing the
  string that \<^verbatim>\<open>FcbNameInit\<close> makes of it gives back the drive, the name and the extension, reports no wildcards, and
  consumes the whole string; besides, only the block number and the record size are cleared.
\<close>

theorem FcbParseFname_roundtrip:
  assumes "\<forall>c \<in> set (n @ e). fcb_char (DosUpFChar s) c" "n \<noteq> []" "length n \<le> 8" "length e \<le> 3"
    and d: "drv = 0 \<or> drv \<le> 26 \<and> get_cds (ucast (drv - 1)) s \<noteq> None"
  shows "FcbParseFname 0 (fst (FcbNameInit drv (fill 8 n @ fill 3 e) s)) f s =
    (0, [], f\<lparr>fcb_drive := drv, fcb_cublock := 0, fcb_recsiz := 0, fcb_fname := fill 8 n, fcb_fext := fill 3 e\<rparr>)"
proof -
  define str where "str = n @ (if e = [] then [] else 0x2e # e)"
  note body = parse_body [OF assms(1-4) str_def]
  have c: "ConvertName83ToNameSZ (fill 8 n @ fill 3 e) = str"
    unfolding str_def using ConvertName83ToNameSZ_fill [OF assms(1-4)] by simp
  obtain c0 n' where n: "n = c0 # n'" "\<not> TestFieldSeps c0" using assms(1,2) by (cases n) (auto simp: fcb_char_def)
  show ?thesis
  proof (cases "drv = 0")
    case True
    have s: "str = c0 # tl str" by (simp add: str_def n(1))
    have "peek str 1 \<noteq> 0x3a" using assms(1) fcb_charD n(1) by (cases n') (auto simp: str_def)
    then show ?thesis using body [of str str False f] skip_first [OF n(2), of "tl str"] s True by (simp add: FcbNameInit_def c)
  next
    case False
    then have u: "0 < unat drv" "unat drv \<le> 26" using d by (auto simp: word_le_nat_alt unat_gt_0)
    define l where "l = 0x41 + drv - 1"
    have l: "unat l = 64 + unat drv" using u by (simp add: l_def unat_word_ariths unat_sub_if_size unat_plus_if')
    have sp: "\<not> TestFieldSeps l"
      using l u by (auto simp: TestFieldSeps_def word_le_nat_alt word_unat_eq_iff)
    have up: "DosUpFChar s l = l" using l u by (intro up_letter) (simp_all add: word_le_nat_alt)
    have v: "l - 0x41 = drv - 1" "l - 0x41 + 1 = drv" by (simp_all add: l_def)
    have "get_cds (ucast (DosUpFChar s l - 0x41)) s \<noteq> None" unfolding up v(1) using d False by blast
    then show ?thesis using body [of "l # 0x3a # str" "l # 0x3a # str" True f] skip_first [OF sp] sp False up v
      by (simp add: FcbNameInit_def c l_def [symmetric])
  qed
qed

text \<open>The witness: the block of \<^verbatim>\<open>C:AB.C\<close>, with drive C the third of five.\<close>

definition demo_fcbs :: "nat fcbs \<Rightarrow> nat fcbs" where
  "demo_fcbs x = x\<lparr>lastdrive := 5, nlsFUpcase := (\<lambda>c. c),
     CDSp := (\<lambda>_. \<lparr>cdsCurrentPath = [0x43, 0x3a, 0x5c], cdsFlags = CDSPHYSDRV, cdsDpb = 1, cdsStrtClst = 0xffff, cdsBackslashOffset = 2\<rparr>)\<rparr>"

theorem FcbParseFname_roundtrip_witness:
  "\<forall>x f. FcbParseFname 0 [0x43, 0x3a, 0x41, 0x42, 0x2e, 0x43] f (demo_fcbs x) =
    (0, [], f\<lparr>fcb_drive := 3, fcb_cublock := 0, fcb_recsiz := 0, fcb_fname := fill 8 [0x41, 0x42], fcb_fext := fill 3 [0x43]\<rparr>)"
proof (intro allI)
  fix x f
  have c: "\<forall>c \<in> set ([0x41, 0x42] @ [0x43]). fcb_char (DosUpFChar (demo_fcbs x)) c"
    by (simp add: fcb_char_def TestFieldSeps_def DosUpFChar_def DosUpFMem_def upMMem_def up_char_def)
  have d: "get_cds (ucast (3 - 1 :: u8)) (demo_fcbs x) \<noteq> None" by (simp add: get_cds_def demo_fcbs_def)
  have p: "fst (FcbNameInit 3 (fill 8 [0x41, 0x42] @ fill 3 [0x43]) (demo_fcbs x)) = [0x43, 0x3a, 0x41, 0x42, 0x2e, 0x43]"
    using ConvertName83ToNameSZ_fill [OF c] by (simp add: FcbNameInit_def)
  show "FcbParseFname 0 [0x43, 0x3a, 0x41, 0x42, 0x2e, 0x43] f (demo_fcbs x) =
    (0, [], f\<lparr>fcb_drive := 3, fcb_cublock := 0, fcb_recsiz := 0, fcb_fname := fill 8 [0x41, 0x42], fcb_fext := fill 3 [0x43]\<rparr>)"
    using FcbParseFname_roundtrip [OF c, of 3 f] d unfolding p by simp
qed

section \<open>Records\<close>

lemma fcb_ext [simp]: "ExtFcbToFcb (put_fcb f x) = f"
  by (cases x) (simp_all add: ExtFcbToFcb_def put_fcb_def)

lemma FcbRec_CalcRec:
  assumes "unat (fcb_rndm (ExtFcbToFcb x)) < 2 ^ 23"
  shows "FcbRec (ExtFcbToFcb (FcbCalcRec x)) = fcb_rndm (ExtFcbToFcb x)"
proof -
  define r where "r = fcb_rndm (ExtFcbToFcb x)"
  have r: "unat r < 2 ^ 23" using assms by (simp add: r_def)
  have b: "unat (ucast (ucast (r div 128) :: u16) :: u32) = unat r div 128"
    using r by (simp add: unsigned_ucast_eq take_bit_eq_mod unat_div unat_mod)
  have "ucast r AND 127 = (take_bit 7 (ucast r) :: u8)" by (simp add: take_bit_eq_mask mask_eq_exp_minus_1)
  moreover have "ucast (take_bit 7 (ucast r) :: u8) = (take_bit 7 r :: u32)" by (auto simp: bit_eq_iff bit_simps)
  ultimately have c: "unat (ucast (ucast r AND 127 :: u8) :: u32) = unat r mod 128" by (simp only: unsigned_take_bit_eq take_bit_eq_mod) (simp add: unat_mod)
  have "unat (ucast (ucast (r div 128) :: u16) * 128 + ucast (ucast r AND 127 :: u8) :: u32) = unat r"
    using r by (simp add: unat_word_ariths b c)
  then show ?thesis by (simp add: FcbRec_def FcbCalcRec_def Let_def r_def word_unat_eq_iff)
qed

text \<open>The bytes from the end of the transfer to the end of the record.\<close>

lemma record_rest:
  fixes r k n :: nat
  assumes "0 < r" "k \<le> r * n"
  shows "(r * n - k) mod r = (k + r - 1) div r * r - k"
proof (cases "k mod r = 0")
  case True
  then obtain q where q: "k = r * q" by (metis mod_0_imp_dvd dvdE)
  have "k + r - 1 = r * q + (r - 1)" using assms(1) q by simp
  moreover have "(r * q + (r - 1)) div r = q" using assms(1) by (subst div_mult_self4) simp_all
  ultimately have "(k + r - 1) div r = q" by simp
  then show ?thesis using q by (simp add: diff_mult_distrib2 [symmetric] mult.commute)
next
  case False
  define q t where "q = k div r" and "t = k mod r"
  have k: "k = r * q + t" "0 < t" "t < r" using False assms(1) by (simp_all add: q_def t_def)
  have m: "(k + r - 1) div r = q + 1"
  proof -
    have "k + r - 1 = r * (q + 1) + (t - 1)" using k by simp
    moreover have "(r * (q + 1) + (t - 1)) div r = q + 1" using k(2,3) by (subst div_mult_self4) simp_all
    ultimately show ?thesis by simp
  qed
  have "r * q < r * n" using assms(2) k(1,2) by linarith
  then obtain j where j: "n = q + Suc j" by (auto dest: less_imp_Suc_add)
  have "r * n - k = r * j + (r - t)" using k(1,3) by (simp add: j add_mult_distrib2)
  moreover have "(r * j + (r - t)) mod r = r - t" using k(2,3) by (subst mod_mult_self4) simp
  ultimately have "(r * n - k) mod r = r - t" by simp
  then show ?thesis using m k by (simp add: algebra_simps)
qed

lemma clear_rest:
  assumes "k + r \<le> 65536" "unat t < r"
  shows "clear_dta (of_nat k) t buf j = (if k \<le> j \<and> j < k + unat t then 0 else buf j)"
proof (cases "j < 65536")
  case True
  have k: "k < 65536" using assms by linarith
  have u: "unat (of_nat k :: u16) = k" "unat (of_nat j :: u16) = j" using k True by (simp_all add: unat_of_nat)
  have "unat (of_nat j - of_nat k :: u16) = (if k \<le> j then j - k else j + 65536 - k)"
    using k True by (simp add: unat_sub_if_size u word_size)
  then show ?thesis using True assms by (auto simp: clear_dta_def word_less_nat_alt)
qed (use assms in \<open>auto simp: clear_dta_def\<close>)

lemma fcb_done_read:
  assumes r: "r = unat (fcb_recsiz f)" "0 < r" and z: "unat sz = r * n" and k: "k \<le> r * n" "k + r \<le> 65536" and m: "m = (k + r - 1) div r"
  shows "\<exists>f'. fcb_done 5 sz (int k) f buf =
      Some (if k = r * n then FCB_SUCCESS else if k mod r \<noteq> 0 then FCB_ERR_EOF else FCB_ERR_NODATA, f', \<lambda>j. if k \<le> j \<and> j < m * r then 0 else buf j) \<and>
    fcb_rndm f' = fcb_rndm f + of_nat m"
proof -
  let ?r = "fcb_recsiz f" and ?n = "of_nat k :: u16"
  have u: "unat ?n = k" using k(2) r(2) by (simp add: unat_of_nat)
  have r0: "?r \<noteq> 0" "?r > 0" using r by (auto simp: word_less_nat_alt)
  have c: "unat (?n + ?r) = (k + r) mod 65536" by (simp add: unat_word_ariths u r(1))
  have "unat (?n + ?r - 1) = k + r - 1"
    using k(2) r(2) c by (cases "k + r = 65536") (simp_all add: unat_sub_if_size word_size)
  then have q: "unat ((?n + ?r - 1) div ?r) = m" using r(1) m by (simp add: unat_div)
  have q32: "ucast ((?n + ?r - 1) div ?r) = (of_nat m :: u32)" 
    using arg_cong [OF q, of "of_nat :: nat \<Rightarrow> u32"] by simp
  have s1: "unat (sz - ?n) = r * n - k" using z k(1) u by (simp add: unat_sub_if_size)
  have s2: "unat ((sz - ?n) mod ?r) = m * r - k" using s1 record_rest [OF r(2) k(1)] m r(1) by (simp add: unat_mod)
  define f1 where "f1 = f\<lparr>fcb_rndm := fcb_rndm f + of_nat m\<rparr>"
  have nx: "fcb_rndm (FcbNextRecord f1) = fcb_rndm f + of_nat m" by (simp add: FcbNextRecord_def f1_def Let_def)
  have z1: "sz - ?n = 0 \<longleftrightarrow> k = r * n" using s1 k(1) by (metis diff_is_0_eq diff_self_eq_0 le_antisym unat_0 unat_eq_zero)
  have z2: "(sz - ?n) mod ?r > 0 \<longleftrightarrow> k mod r \<noteq> 0"
  proof -
    have "(r * n - k) mod r = 0 \<longleftrightarrow> k mod r = 0" using k(1) by (simp add: mod_eq_0_iff_dvd dvd_diff_nat) (metis diff_diff_cancel dvd_diff_nat dvd_triv_left)
    then show ?thesis using s1 r(1) by (auto simp: word_less_nat_alt unat_mod)
  qed
  have mr: "k \<le> m * r"
    using div_mult_mod_eq [of "k + r - 1" r] mod_less_divisor [OF r(2), of "k + r - 1"] r(2) unfolding m by linarith
  have t: "unat ((sz - ?n) mod ?r) < r" using r by (simp add: unat_mod)
  have cl: "clear_dta ?n ((sz - ?n) mod ?r) buf = (\<lambda>j. if k \<le> j \<and> j < m * r then 0 else buf j)"
    using clear_rest [OF k(2) t, of buf] s2 mr by (auto simp: fun_eq_iff)
  have same: "(\<lambda>j. if k \<le> j \<and> j < m * r then 0 else buf j) = buf" if "k mod r = 0"
    using record_rest [OF r(2) k(1)] that k(1) mr z2 s2 m by (auto simp: fun_eq_iff word_less_nat_alt)
  have d: "fcb_done 5 sz (int k) f buf = (if sz - ?n = 0 then Some (FCB_SUCCESS, FcbNextRecord f1, buf)
      else if (sz - ?n) mod ?r > 0 then Some (FCB_ERR_EOF, FcbNextRecord f1, clear_dta ?n ((sz - ?n) mod ?r) buf) else Some (FCB_ERR_NODATA, f1, buf))"
    using r0 q32 unfolding fcb_done_def Let_def f1_def by simp
  show ?thesis unfolding d z1 z2 cl using nx same by (auto simp: f1_def)
qed

text \<open>
  C33. A random block read (DOS function 27h) reads at the position of the random record number and counts records: when \<^verbatim>\<open>k\<close> bytes
  were transferred, the number of records returned is \<^verbatim>\<open>k\<close> divided by the record size, rounded up; the last record is filled up with
  zeros, and no other byte of the transfer area is touched; the random record number has advanced by that many records, and block and
  current record agree with it. The code is success for a full transfer, 3 for a partial last record and 1 at the end of the file. This
  needs \<^verbatim>\<open>k\<close> plus the record size to be at most 64 KB.
\<close>

theorem FcbRandomBlockIO_read:
  assumes f: "f = ExtFcbToFcb x" "r = unat (fcb_recsiz f)" "0 < r" "unat (snd (dta_ptr s)) + r * unat n < 65536"
    and sk: "SftSeek V (sint (fcb_sftno f)) (fcb_rndm f * ucast (fcb_recsiz f)) 0 s = (SUCCESS, s1)"
    and rd: "DosRWSft P V (sint (fcb_sftno f)) (fcb_recsiz f * n) (dta_ptr s1) buf XFR_READ (s1\<lparr>CritErrCode := 0\<rparr>) = Some (int k, buf1, s2)"
    and k: "k \<le> r * unat n" "k + r \<le> 65536" and m: "m = (k + r - 1) div r" "unat (fcb_rndm f) + m < 2 ^ 23"
  shows "\<exists>x'. FcbRandomBlockIO P V x n (1 OR XFR_FCB_RANDOM) buf s =
      Some (if k = r * unat n then FCB_SUCCESS else if k mod r \<noteq> 0 then FCB_ERR_EOF else FCB_ERR_NODATA, of_nat m, x',
        \<lambda>j. if k \<le> j \<and> j < m * r then 0 else buf1 j, s2) \<and>
    fcb_rndm (ExtFcbToFcb x') = fcb_rndm f + of_nat m \<and> FcbRec (ExtFcbToFcb x') = fcb_rndm f + of_nat m"
proof -
  let ?r = "fcb_recsiz f"
  define x1 where "x1 = FcbCalcRec x"
  define g where "g = ExtFcbToFcb x1"
  have g: "fcb_recsiz g = ?r" "fcb_sftno g = fcb_sftno f" "fcb_rndm g = fcb_rndm f" by (simp_all add: g_def x1_def FcbCalcRec_def Let_def f(1))
  have rec: "FcbRec g = fcb_rndm f" using FcbRec_CalcRec [of x] m(2) by (simp add: g_def x1_def f(1))
  have w: "r * unat n < 65536" using f(4) by linarith
  have b: "unat (ucast ?r * ucast n :: u32) = r * unat n" using w by (simp add: unat_word_ariths unat_ucast_u32 f(2))
  have big: "\<not> (ucast ?r * ucast n :: u32) > 0xffff" using b w by (simp add: word_less_nat_alt)
  have sz: "ucast (ucast ?r * ucast n :: u32) = ?r * n" "unat (?r * n) = r * unat n"
    using b w by (simp_all add: word_unat_eq_iff unat_ucast_u16 unat_word_ariths f(2))
  have off: "\<not> snd (dta_ptr s) + ?r * n < snd (dta_ptr s)"
    using f(4) sz(2) by (simp add: word_less_nat_alt unat_plus_if')
  obtain f' where d: "fcb_done 5 (?r * n) (int k) g buf1 =
      Some (if k = r * unat n then FCB_SUCCESS else if k mod r \<noteq> 0 then FCB_ERR_EOF else FCB_ERR_NODATA, f',
        \<lambda>j. if k \<le> j \<and> j < m * r then 0 else buf1 j)" "fcb_rndm f' = fcb_rndm g + of_nat m"
    using fcb_done_read [of r g "?r * n" "unat n" k m buf1] f(2,3) g(1) sz(2) k m(1) by auto
  have rw: "FcbReadWrite P V x1 n 5 buf s = Some (if k = r * unat n then FCB_SUCCESS else if k mod r \<noteq> 0 then FCB_ERR_EOF else FCB_ERR_NODATA,
      put_fcb f' x1, \<lambda>j. if k \<le> j \<and> j < m * r then 0 else buf1 j, s2)"
    unfolding FcbReadWrite_def Let_def g_def [symmetric] g(1,2) sz(1) if_not_P [OF big] if_not_P [OF off] rec sk prod.case
    using rd d(1) by simp
  have m16: "ucast (fcb_rndm f + of_nat m - fcb_rndm f :: u32) = (of_nat m :: u16)" by (simp add: word_unat_eq_iff unat_ucast_u16 unat_of_nat mod_mod_cancel)
  have "unat (fcb_rndm f + of_nat m) = unat (fcb_rndm f) + m" using m(2) by (simp add: unat_word_ariths unat_of_nat)
  then have "FcbRec (ExtFcbToFcb (FcbCalcRec (put_fcb f' x1))) = fcb_rndm f + of_nat m"
    using FcbRec_CalcRec [of "put_fcb f' x1"] m(2) d(2) g(3) by simp
  then show ?thesis unfolding FcbRandomBlockIO_def x1_def [symmetric] Let_def using rw d(2) g(3) m16 by (simp add: g_def FcbCalcRec_def Let_def)
qed

text \<open>The witness: two records of two bytes are asked of a device that has one byte; one record is read, its second byte is zero.\<close>

definition demo_dev :: "u8 list fcbs \<Rightarrow> u8 list fcbs" where
  "demo_dev x = x\<lparr>world := [0x64], dta_ptr := (0x1000, 0x80),
     sfthead := [[zero_sft\<lparr>sft_count := 1, sft_mode := 2, sft_flags := 0x00a0, sft_dcb := 0x00700010\<rparr>]]\<rparr>"

definition demo_fcb :: "fcb xfcb" where
  "demo_fcb = Plain (zero_fcb\<lparr>fcb_recsiz := 2, fcb_rndm := 7\<rparr>)"

theorem FcbRandomBlockIO_read_witness:
  "\<forall>x. \<exists>x' s'. FcbRandomBlockIO key_machine key_console demo_fcb 2 5 (\<lambda>_. 0xff) (demo_dev x) =
      Some (FCB_ERR_EOF, 1, x', (\<lambda>_. 0xff)(0 := 0x64, 1 := 0), s') \<and> fcb_rndm (ExtFcbToFcb x') = 8 \<and> FcbRec (ExtFcbToFcb x') = 8"
proof
  fix x
  let ?f = "ExtFcbToFcb demo_fcb"
  have f: "fcb_sftno ?f = 0" "fcb_recsiz ?f = 2" "fcb_rndm ?f = 7" by (simp_all add: demo_fcb_def ExtFcbToFcb_def zero_fcb_def)
  obtain s1 where s1: "SftSeek key_console (sint (fcb_sftno ?f)) (fcb_rndm ?f * ucast (fcb_recsiz ?f)) 0 (demo_dev x) = (SUCCESS, s1)"
    "s1 = (demo_dev x)\<lparr>lpCurSft := Some (0, 0)\<rparr>"
    by (simp add: f SftSeek_def SftSeek2_def idx_to_sft_def idx_to_sft_loc_def demo_dev_def zero_sft_def)
  obtain s2 where s2: "DosRWSft key_machine key_console (sint (fcb_sftno ?f)) (fcb_recsiz ?f * 2) (dta_ptr s1) (\<lambda>_. 0xff) XFR_READ (s1\<lparr>CritErrCode := 0\<rparr>) =
      Some (int 1, (\<lambda>_. 0xff)(0 := 0x64), s2)"
    by (simp add: f s1(2) DosRWSft_def DosRWSft_body_def idx_to_sft_def idx_to_sft_loc_def demo_dev_def BinaryCharIO.simps CharRequest_def key_machine_def)
  have o: "unat (snd (dta_ptr (demo_dev x))) + 2 * unat (2 :: u16) < 65536" by (simp add: demo_dev_def)
  have b: "(\<lambda>j :: nat. if 1 \<le> j \<and> j < 1 * 2 then 0 else ((\<lambda>_. 0xff)(0 := 0x64)) j) = (\<lambda>_. 0xff)(0 := 0x64, 1 := (0 :: u8))" by (auto simp: fun_eq_iff)
  show "\<exists>x' s'. FcbRandomBlockIO key_machine key_console demo_fcb 2 5 (\<lambda>_. 0xff) (demo_dev x) =
      Some (FCB_ERR_EOF, 1, x', (\<lambda>_. 0xff)(0 := 0x64, 1 := 0), s') \<and> fcb_rndm (ExtFcbToFcb x') = 8 \<and> FcbRec (ExtFcbToFcb x') = 8"
    using FcbRandomBlockIO_read [OF refl refl _ _ s1(1) s2, of 1] o b by (auto simp: f)
qed

section \<open>Departures\<close>

text \<open>
  The sum in the rounding up wraps around: when 65 records of 1000 bytes have all been read, the call reports no record and leaves the
  random record number.
\<close>

lemma random_block_count_wraps:
  assumes "fcb_recsiz f = 1000"
  shows "\<exists>f'. fcb_done 5 65000 65000 f buf = Some (FCB_SUCCESS, f', buf) \<and> fcb_rndm f' = fcb_rndm f"
  by (simp add: fcb_done_def assms Let_def FcbNextRecord_def)

text \<open>
  A transfer that fails with error 5 counts as one of 65531 bytes: with records of one byte that many records are reported, and with a record
  of 128 bytes the bytes in front of the transfer area are cleared, and the end of the file is reported.
\<close>

lemma failed_read_clears:
  assumes "fcb_recsiz f = 1" "fcb_rndm f = 0"
  shows "\<exists>f' b. fcb_done 5 1 (-5) f buf = Some (FCB_ERR_NODATA, f', b) \<and> fcb_rndm f' = 65531"
  by (simp add: fcb_done_def assms Let_def)

lemma failed_read_overwrites:
  assumes "fcb_recsiz f = 128"
  shows "\<exists>f' b. fcb_done 1 128 (-5) f buf = Some (FCB_ERR_EOF, f', b) \<and> b 65531 = 0 \<and> b 65535 = 0 \<and> b 0 = buf 0"
  by (simp add: fcb_done_def assms Let_def clear_dta_def)

text \<open>The flag that should leave the name alone when the string has none has no effect: the field is filled with blanks.\<close>

lemma parse_flag_ignored: "fcb_fname (snd (snd (FcbParseFname 0x04 [] f s))) = replicate 8 0x20"
  by (simp add: FcbParseFname_def ParseSkipWh_def TestFieldSeps_def)

text \<open>The loop that closes the files of a process stops at the first free entry of the system file table.\<close>

lemma FcbCloseAll_stops:
  assumes "sfthead s = (f # fs) # ts" "sft_count f = 0"
  shows "FcbCloseAll P V s = Some (s\<lparr>lpCurSft := Some (0, 0)\<rparr>)"
  using assms by (simp add: FcbCloseAll_def close_all.simps idx_to_sft_def idx_to_sft_loc_def)

end
