(* ===== verification/Int21Props.thy ===== *)
theory Int21Props
  imports Int21 FcbProps MemSafety CacheProps
begin

text \<open>
  The dispatcher: allocation of memory through the registers of the caller, down to the arena, and the information of a device
  through function 44h, down to the system file table.
\<close>

section \<open>The entry\<close>

text \<open>With the check for Control-C off, the entry clears the carry flag and the error of the last call.\<close>

lemma int21_enter_quiet:
  assumes "break_ena s = 0" "clears_carry AH" "AH > 0x0c" "AH \<noteq> 0x30" "AH \<noteq> 0x59"
  shows "int21_enter P V AH carry s = Some (False, s\<lparr>CritErrCode := 0, ErrorMode := 0\<rparr>)"
proof -
  have "\<not> AH \<le> 5" "\<not> AH \<le> 0x0b" using assms(3) by (auto simp: word_le_nat_alt word_less_nat_alt)
  then show ?thesis unfolding int21_enter_def Let_def using assms by simp
qed

section \<open>Allocation\<close>

lemma mem_intact_arena: "mm_inv m bs \<Longrightarrow> mem_intact m = Some ()"
  using mem_check_arena [of "mem m" "first_mcb m" bs] by (simp add: mem_intact_def DosMemCheck_def mm_inv_def)

text \<open>Function 48h on the arena: the block, or the largest run of free blocks. The kernel does not stop for a damaged chain.\<close>

lemma int21_mem_alloc:
  assumes inv: "mm_inv m bs" and psp: "cu_psp m \<noteq> 0" and un: "\<not> umb_linked m" and AH: "hi8 (AX r) = 0x48" and BX: "BX r \<noteq> 0"
  shows "\<exists>a b m' bs'. mm_inv m' bs' \<and> first_mcb m' = first_mcb m \<and>
    (if \<exists>c \<in> set (coalesce bs). fst c = 0 \<and> BX r \<le> snd c
     then int21_mem r q0 m = Some (Exit, r\<lparr>AX := a\<rparr>, m') \<and> (a - 1, cu_psp m, BX r) \<notin> allocated (first_mcb m) bs \<and>
       allocated (first_mcb m) bs' = insert (a - 1, cu_psp m, BX r) (allocated (first_mcb m) bs)
     else int21_mem r q0 m = Some (ErrorExit DE_NOMEM, r\<lparr>AX := a, BX := b\<rparr>, m') \<and> allocated (first_mcb m) bs' = allocated (first_mcb m) bs \<and>
       (\<forall>c \<in> set bs'. fst c = 0 \<longrightarrow> snd c \<le> b) \<and> (b = 0 \<or> (0, b) \<in> set bs'))"
proof -
  define k where "k = (ucast (mem_access_mode m) :: u16)"
  have "unat k < 256" unfolding k_def unat_ucast_u8 using unsigned_less [of "mem_access_mode m"] by simp
  then have k: "k \<noteq> LARGEST" by auto
  obtain rc para asize m1 bs1 where o: "DosMemAlloc (BX r) k (AX r) (Some (BX r)) m = Some (rc, para, asize, m1)"
      "alloc_outcome m bs (BX r) (k = LARGEST) (AX r) rc para m1 bs1" using DosMemAlloc_outcome [OF inv psp] by blast
  have i1: "mm_inv m1 bs1" by (rule alloc_outcome_inv [OF inv o(2)])
  have m1: "m1 = m\<lparr>mem := mem m1\<rparr>" using o(2) by (simp add: alloc_outcome_def)
  have f1: "first_mcb m1 = first_mcb m" "umb_linked m1 = umb_linked m" by (subst m1, simp add: umb_linked_def)+
  note U = DosMemAlloc_unlinked [OF inv un k BX, of "AX r" "Some (BX r)", unfolded o(1)]
  define fit where "fit \<longleftrightarrow> (\<exists>c \<in> set (coalesce bs). fst c = 0 \<and> BX r \<le> snd c)"
  have call: "int21_mem r q0 m = (if rc < 0 then do { (_, big, m2) \<leftarrow> DosMemLargest m1; _ \<leftarrow> mem_intact m2;
      Some (ErrorExit rc, r\<lparr>AX := para, BX := big\<rparr>, m2) } else Some (Exit, r\<lparr>AX := para + 1, BX := the asize\<rparr>, m1))"
    unfolding int21_mem_def AH k_def [symmetric] o(1) by simp
  show ?thesis
  proof (cases fit)
    case True
    then have "rc = SUCCESS \<and> asize = Some (BX r)" using U by (force simp: fit_def chosen_def)
    then have rc: "rc = SUCCESS" "asize = Some (BX r)" by simp_all
    then have "allocates (mem m) (first_mcb m) bs (para, cu_psp m, BX r) (mem m1) bs1" using o(2) k by (auto simp: alloc_outcome_def)
    then have "(para, cu_psp m, BX r) \<notin> allocated (first_mcb m) bs" "allocated (first_mcb m) bs1 = insert (para, cu_psp m, BX r) (allocated (first_mcb m) bs)"
      by (simp_all add: allocates_def)
    moreover have "int21_mem r q0 m = Some (Exit, r\<lparr>AX := para + 1\<rparr>, m1)" unfolding call rc by simp
    ultimately show ?thesis unfolding if_P [OF True [unfolded fit_def]] using i1 f1(1)
      by (intro exI [of _ "para + 1"] exI [of _ 0] exI [of _ m1] exI [of _ bs1]) simp
  next
    case False
    then have rc: "rc = DE_NOMEM" using U by (force simp: fit_def chosen_def)
    then have al: "allocated (first_mcb m) bs1 = allocated (first_mcb m) bs" using o(2) by (auto simp: alloc_outcome_def reshapes_def)
    obtain rc2 z m2 bs2 where L: "DosMemLargest m1 = Some (rc2, z, m1\<lparr>mem := m2\<rparr>)" "mm_inv (m1\<lparr>mem := m2\<rparr>) bs2"
        "allocated (first_mcb m1) bs2 = allocated (first_mcb m1) bs1" "\<forall>c \<in> set bs2. fst c = 0 \<longrightarrow> snd c \<le> z" "z = 0 \<or> (0, z) \<in> set bs2"
      using DosMemLargest_unlinked [OF i1] un f1(2) by blast
    have "int21_mem r q0 m = Some (ErrorExit DE_NOMEM, r\<lparr>AX := para, BX := z\<rparr>, m1\<lparr>mem := m2\<rparr>)"
      unfolding call rc L(1) bind.bind_lunit prod.case mem_intact_arena [OF L(2)] by simp
    then show ?thesis unfolding if_not_P [OF False [unfolded fit_def]] using L(2-5) al f1(1)
      by (intro exI [of _ para] exI [of _ z] exI [of _ "m1\<lparr>mem := m2\<rparr>"] exI [of _ bs2]) simp
  qed
qed


text \<open>
  C2. Function 48h of the DOS interrupt, from the registers to the arena, with upper memory not linked and the check for
  Control-C off. When a run of adjacent free blocks can hold the BX paragraphs asked for, the carry flag is clear and AX is
  the segment behind the header of a block of BX paragraphs of the current process that was not allocated before.
  Otherwise the carry flag is set, AX and the extended error are 8, no block is allocated, and BX is the size of the
  largest free block of the chain as it is then, so that a second call for BX paragraphs has a block to give. The chain stays
  well formed and the kernel does not stop. The other registers and the memory of the program are not changed.
\<close>

theorem int21_alloc:
  fixes s :: "('w, 'a) sys_scheme"
  assumes "mm_inv (job.arena s) bs" "cu_psp (job.arena s) \<noteq> 0" "\<not> umb_linked (job.arena s)" "break_ena s = 0"
    "hi8 (AX r) = 0x48" "BX r \<noteq> 0"
  shows "\<exists>a b c s' bs'. int21_service P E V G r carry u s = Some (r\<lparr>AX := a, BX := b\<rparr>, c, u, s') \<and> mm_inv (job.arena s') bs' \<and>
    (if \<exists>y \<in> set (coalesce bs). fst y = 0 \<and> BX r \<le> snd y
     then \<not> c \<and> b = BX r \<and> (a - 1, cu_psp (job.arena s), BX r) \<notin> allocated (first_mcb (job.arena s)) bs \<and>
       allocated (first_mcb (job.arena s)) bs' = insert (a - 1, cu_psp (job.arena s), BX r) (allocated (first_mcb (job.arena s)) bs)
     else c \<and> a = 8 \<and> CritErrCode s' = 8 \<and> allocated (first_mcb (job.arena s)) bs' = allocated (first_mcb (job.arena s)) bs \<and>
       (\<forall>y \<in> set bs'. fst y = 0 \<longrightarrow> snd y \<le> b) \<and> (b = 0 \<or> (0, b) \<in> set bs'))"
proof -
  let ?m = "job.arena s"
  define s1 where "s1 = s\<lparr>CritErrCode := 0, ErrorMode := 0\<rparr>"
  have s1: "job.arena s1 = ?m" "junk_q s1 = junk_q s" "CritErrCode s1 = 0" by (simp_all add: s1_def)
  have AH: "clears_carry 0x48" "(0x48 :: u8) > 0x0c" "(0x48 :: u8) \<noteq> 0x30" "(0x48 :: u8) \<noteq> 0x59" by (simp_all add: clears_carry_def)
  have call: "int21_service P E V G r carry u s = Some (let (r2, c, s3) = finish k r1 False (s1\<lparr>arena := m'\<rparr>) in (r2, c, u, s3))"
    if "int21_mem r (junk_q s) ?m = Some (k, r1, m')" for k r1 m'
    unfolding int21_service_def assms(5) int21_enter_quiet [OF assms(4) AH] s1_def [symmetric] bind.bind_lunit prod.case int21_dispatch_def Let_def s1 that
    by (simp split: prod.split)
  obtain a b m' bs' where m: "mm_inv m' bs'"
    "if \<exists>c \<in> set (coalesce bs). fst c = 0 \<and> BX r \<le> snd c
     then int21_mem r (junk_q s) ?m = Some (Exit, r\<lparr>AX := a\<rparr>, m') \<and> (a - 1, cu_psp ?m, BX r) \<notin> allocated (first_mcb ?m) bs \<and>
       allocated (first_mcb ?m) bs' = insert (a - 1, cu_psp ?m, BX r) (allocated (first_mcb ?m) bs)
     else int21_mem r (junk_q s) ?m = Some (ErrorExit DE_NOMEM, r\<lparr>AX := a, BX := b\<rparr>, m') \<and> allocated (first_mcb ?m) bs' = allocated (first_mcb ?m) bs \<and>
       (\<forall>c \<in> set bs'. fst c = 0 \<longrightarrow> snd c \<le> b) \<and> (b = 0 \<or> (0, b) \<in> set bs')"
    using int21_mem_alloc [OF assms(1,2,3,5,6), of "junk_q s"] by blast
  show ?thesis
  proof (cases "\<exists>c \<in> set (coalesce bs). fst c = 0 \<and> BX r \<le> snd c")
    case True
    note m2 = m(2) [unfolded if_P [OF True]]
    have "int21_service P E V G r carry u s = Some (r\<lparr>AX := a, BX := BX r\<rparr>, False, u, s1\<lparr>arena := m'\<rparr>)"
      using call [OF conjunct1 [OF m2]] by simp
    then show ?thesis unfolding if_P [OF True] using m(1) m2
      by (intro exI [of _ a] exI [of _ "BX r"] exI [of _ False] exI [of _ "s1\<lparr>arena := m'\<rparr>"] exI [of _ bs']) simp
  next
    case False
    note m2 = m(2) [unfolded if_not_P [OF False]]
    have "int21_service P E V G r carry u s = Some (r\<lparr>AX := 8, BX := b\<rparr>, True, u, s1\<lparr>arena := m', CritErrCode := 8\<rparr>)"
      using call [OF conjunct1 [OF m2]] by (simp add: error_exit_def s1(3))
    then show ?thesis unfolding if_not_P [OF False] using m(1) m2
      by (intro exI [of _ 8] exI [of _ b] exI [of _ True] exI [of _ "s1\<lparr>arena := m', CritErrCode := 8\<rparr>"] exI [of _ bs']) simp
  qed
qed

text \<open>The witness: a request for 100h paragraphs fails on the arena of the examples and reports its largest free block.\<close>

theorem int21_alloc_witness:
  "\<forall>P E V G u (x :: nat sys) (r :: lregs). \<exists>b s' bs'.
     int21_service P E V G (r\<lparr>AX := 0x4800, BX := 0x100\<rparr>) True u (x\<lparr>arena := demo_mm, break_ena := 0\<rparr>) = Some (r\<lparr>AX := 8, BX := b\<rparr>, True, u, s') \<and>
     mm_inv (job.arena s') bs' \<and> (b = 0 \<or> (0, b) \<in> set bs')"
proof (intro allI)
  fix P E V G u and x :: "nat sys" and r :: lregs
  let ?s = "x\<lparr>arena := demo_mm, break_ena := 0\<rparr>" and ?r = "r\<lparr>AX := 0x4800, BX := 0x100\<rparr>"
  have "mm_inv (job.arena ?s) demo_blocks" "cu_psp (job.arena ?s) \<noteq> 0" "\<not> umb_linked (job.arena ?s)" "break_ena ?s = 0" "hi8 (AX ?r) = 0x48" "BX ?r \<noteq> 0"
    using demo_inv by (simp_all add: demo_mm_def umb_linked_def hi8_def drop_bit_eq_div)
  note A = int21_alloc [OF this, of P E V G True u]
  have no: "\<not> (\<exists>y \<in> set (coalesce demo_blocks). fst y = 0 \<and> BX ?r \<le> snd y)" by (simp add: demo_coalesce)
  from A [unfolded if_not_P [OF no]] obtain a b c s' bs' where A: "int21_service P E V G ?r True u ?s = Some (?r\<lparr>AX := a, BX := b\<rparr>, c, u, s')"
    "mm_inv (job.arena s') bs'" "c \<and> a = 8" "b = 0 \<or> (0, b) \<in> set bs'" by blast
  have "int21_service P E V G ?r True u ?s = Some (r\<lparr>AX := 8, BX := b\<rparr>, True, u, s')" using A(1,3) by simp
  then show "\<exists>b s' bs'. int21_service P E V G ?r True u ?s = Some (r\<lparr>AX := 8, BX := b\<rparr>, True, u, s') \<and> mm_inv (job.arena s') bs' \<and> (b = 0 \<or> (0, b) \<in> set bs')"
    using A(2,4) by blast
qed


section \<open>Device information\<close>

text \<open>The entry of a handle, again after a change of the entry that keeps its count.\<close>

lemma get_sft_kept:
  assumes "get_sft h s = (Some p, s1)"
  shows "s1 = s\<lparr>lpCurSft := Some p\<rparr>"
    and "sft_count (f (sft_at p s)) = sft_count (sft_at p s) \<Longrightarrow> ps_filetab t = ps_filetab s \<Longrightarrow> ps_maxfiles t = ps_maxfiles s \<Longrightarrow>
      sfthead t = sfthead (upd_sft p f s) \<Longrightarrow> get_sft h t = (Some p, t\<lparr>lpCurSft := Some p\<rparr>)"
proof -
  note e = idx_to_sft_entry [OF assms [unfolded get_sft_def]]
  show "s1 = s\<lparr>lpCurSft := Some p\<rparr>" using assms e(6,7)
    by (auto simp: get_sft_def idx_to_sft_def idx_to_sft_loc_def Let_def split: if_splits)
  assume a: "sft_count (f (sft_at p s)) = sft_count (sft_at p s)" "ps_filetab t = ps_filetab s" "ps_maxfiles t = ps_maxfiles s" "sfthead t = sfthead (upd_sft p f s)"
  have i: "get_sft_idx h t = get_sft_idx h s" using a(2,3) by (simp add: get_sft_idx_def)
  have "map length (sfthead t) = map length (sfthead s)" unfolding a(4) using e(4) by (simp add: map_update list_update_same_conv)
  then have l: "sft_loop 0 (get_sft_idx h s) (sfthead t) = Some p" using e(6) sft_loop_lengths by metis
  have "sft_count (sft_at p t) \<noteq> 0" using a(1,4) e(4,5,8) by simp
  then show "get_sft h t = (Some p, t\<lparr>lpCurSft := Some p\<rparr>)"
    using e(7) by (simp add: get_sft_def i idx_to_sft_def idx_to_sft_loc_def l Let_def)
qed

lemma byte_masks: "(0xff :: u16) = mask 8" "(0xff00 :: u16) = NOT (mask 8)"
  by (simp_all add: mask_eq_exp_minus_1)

lemma set_lo8_low: "lo8 (set_lo8 b w) = b" "set_lo8 b w AND 0xff = ucast b"
  unfolding lo8_def set_lo8_def byte_masks by (intro bit_eqI; auto simp: bit_simps dest: bit_imp_le_length)+

lemma set_lo8_bit7: "set_lo8 (0x80 OR b) w AND 0x80 \<noteq> 0"
proof -
  have e: "(0x80 :: u16) = 2 ^ 7" "(0x80 :: u8) = 2 ^ 7" by simp_all
  have "bit (set_lo8 (0x80 OR b) w) 7" unfolding set_lo8_def e by (auto simp: bit_simps)
  then show ?thesis unfolding e and_exp_eq_0_iff_not_bit by simp
qed

text \<open>Function 44h through the service, for a subfunction on a handle that the kernel answers itself.\<close>

lemma int21_ioctl_call:
  assumes "break_ena s = 0" "hi8 (AX r) = 0x44" "lo8 (AX r) = 0 \<or> lo8 (AX r) = 1"
    "ioctl_handle P r (s\<lparr>CritErrCode := 0, ErrorMode := 0\<rparr>) = (Inl (rc, r1), s1)"
  shows "int21_service P E V G r carry u s =
    Some (if rc < SUCCESS then (r1\<lparr>AX := word_of_int (- rc)\<rparr>, True, u, if rc \<noteq> DE_DEVICE \<and> rc \<noteq> DE_ACCESS then s1\<lparr>CritErrCode := word_of_int (- rc)\<rparr> else s1)
      else (r1, False, u, s1))"
proof -
  have AH: "clears_carry 0x44" "(0x44 :: u8) > 0x0c" "(0x44 :: u8) \<noteq> 0x30" "(0x44 :: u8) \<noteq> 0x59" by (simp_all add: clears_carry_def)
  have AL: "\<not> lo8 (AX r) > 0x11" "lo8 (AX r) \<noteq> 0x0b" "lo8 (AX r) \<in> {0x00, 0x01, 0x02, 0x03, 0x06, 0x07, 0x0a, 0x0c, 0x10}" using assms(3) by auto
  have D: "DosDevIOctl P G r (buf_ds_dx u) (s\<lparr>CritErrCode := 0, ErrorMode := 0\<rparr>) = Some (rc, r1, buf_ds_dx u, s1)"
    unfolding DosDevIOctl_def Let_def if_not_P [OF AL(1)] if_not_P [OF AL(2)] if_P [OF AL(3)] assms(4) by simp
  show ?thesis
    unfolding int21_service_def assms(2) int21_enter_quiet [OF assms(1) AH] bind.bind_lunit prod.case int21_dispatch_def int21_ioctl_def Let_def
    by (simp add: int21_ioctl_def D Let_def)
qed

text \<open>
  C35. Device information through the DOS interrupt, functions 4401h and 4400h. Setting it on the handle of a device, with DH zero, succeeds,
  and reading it back on the same handle gives DL, with the bit that marks a device set whatever DL has there, and the high byte of the
  attributes of the driver; nothing else in the system file table changes. On the handle of a file the first call fails
  with error 1, and with DH not zero with error 13; the table is as before.
\<close>

theorem ioctl_set_get:
  fixes s :: "('w, 'a) sys_scheme"
  assumes "get_sft (BX r) s = (Some p, s0)" "break_ena s = 0" "AX r = 0x4401" "AX r' = 0x4400" "BX r' = BX r"
  shows "\<exists>r1 c s1. int21_service P E V G r carry u s = Some (r1, c, u, s1) \<and>
    (if sft_flags (sft_at p s) AND SFT_FDEVICE = 0 then c \<and> AX r1 = 1 \<and> sfthead s1 = sfthead s
     else if hi8 (DX r) \<noteq> 0 then c \<and> AX r1 = 13 \<and> sfthead s1 = sfthead s
     else \<not> c \<and> sfthead s1 = sfthead (upd_sft p (\<lambda>f. f\<lparr>sft_flags := set_lo8 (0x80 OR lo8 (DX r)) (sft_flags f)\<rparr>) s) \<and>
       (\<exists>r2 s2. int21_service P E V G r' carry' u' s1 = Some (r2, False, u', s2) \<and> sfthead s2 = sfthead s1 \<and>
          DX r2 = (dh_attr P (sft_dcb (sft_at p s)) AND 0xff00) OR ucast (0x80 OR lo8 (DX r)) \<and> AX r2 = DX r2))"
proof -
  define t where "t = s\<lparr>CritErrCode := 0, ErrorMode := 0\<rparr>"
  define f where "f = (\<lambda>f :: sft. f\<lparr>sft_flags := set_lo8 (0x80 OR lo8 (DX r)) (sft_flags f)\<rparr>)"
  let ?t = "t\<lparr>lpCurSft := Some p\<rparr>"
  note e = idx_to_sft_entry [OF assms(1) [unfolded get_sft_def]]
  have g: "get_sft (BX r) t = (Some p, ?t)" using get_sft_kept(2) [OF assms(1), of "\<lambda>x. x" t] by (simp add: t_def)
  have s: "sfthead t = sfthead s" by (simp add: t_def)
  have r: "hi8 (AX r) = 0x44" "lo8 (AX r) = 1" "hi8 (AX r') = 0x44" "lo8 (AX r') = 0"
    using assms(3,4) by (simp_all add: hi8_def lo8_def drop_bit_eq_div)
  note call = int21_ioctl_call [OF assms(2) r(1) disjI2 [OF r(2)], folded t_def, of P]
  consider (plain) "sft_flags (sft_at p s) AND SFT_FDEVICE = 0"
    | (bad) "sft_flags (sft_at p s) AND SFT_FDEVICE \<noteq> 0" "hi8 (DX r) \<noteq> 0"
    | (dev) "sft_flags (sft_at p s) AND SFT_FDEVICE \<noteq> 0" "hi8 (DX r) = 0" by blast
  then show ?thesis
  proof cases
    case plain
    have "ioctl_handle P r t = (Inl (DE_INVLDFUNC, r), ?t)" using plain s by (simp add: ioctl_handle_def g r Let_def)
    from call [OF this, of E V G carry u] show ?thesis using plain s by auto
  next
    case bad
    have "ioctl_handle P r t = (Inl (DE_INVLDDATA, r), ?t)" using bad s by (simp add: ioctl_handle_def g r Let_def)
    from call [OF this, of E V G carry u] show ?thesis using bad s by auto
  next
    case dev
    define s1 where "s1 = upd_sft p f ?t"
    obtain a where "ioctl_handle P r t = (Inl (SUCCESS, r\<lparr>AX := a\<rparr>), s1)" using dev s by (auto simp: ioctl_handle_def g r Let_def s1_def f_def)
    from call [OF this, of E V G carry u] have 1: "int21_service P E V G r carry u s = Some (r\<lparr>AX := a\<rparr>, False, u, s1)" by simp
    have s1: "sfthead s1 = sfthead (upd_sft p f s)" "break_ena s1 = 0" by (simp_all add: s1_def s) (simp add: t_def assms(2))
    define t1 where "t1 = s1\<lparr>CritErrCode := 0, ErrorMode := 0\<rparr>"
    have g1: "get_sft (BX r') t1 = (Some p, t1\<lparr>lpCurSft := Some p\<rparr>)" unfolding assms(5)
      by (rule get_sft_kept(2) [OF assms(1), of f]) (simp_all add: t1_def s1 f_def, simp_all add: s1_def t_def)
    have at: "sft_at p t1 = f (sft_at p s)" using e(4,5) by (simp add: t1_def s1)
    define b where "b = (dh_attr P (sft_dcb (sft_at p s)) AND 0xff00) OR ucast (0x80 OR lo8 (DX r))"
    have "ioctl_handle P r' t1 = (Inl (SUCCESS, r'\<lparr>AX := b, DX := b\<rparr>), t1\<lparr>lpCurSft := Some p\<rparr>)"
      using set_lo8_bit7 [of "lo8 (DX r)" "sft_flags (sft_at p s)"] set_lo8_low(2) [of "0x80 OR lo8 (DX r)" "sft_flags (sft_at p s)"]
      by (simp add: ioctl_handle_def g1 r at f_def b_def Let_def or.commute)
    from int21_ioctl_call [OF s1(2) r(3) disjI1 [OF r(4)] this [unfolded t1_def], of E V G carry' u']
    have 2: "int21_service P E V G r' carry' u' s1 = Some (r'\<lparr>AX := b, DX := b\<rparr>, False, u', t1\<lparr>lpCurSft := Some p\<rparr>)" by (simp add: t1_def)
    show ?thesis using dev 1 2 s1(1) by (intro exI [of _ "r\<lparr>AX := a\<rparr>"] exI [of _ False] exI [of _ s1]) (simp add: b_def f_def t1_def)
  qed
qed

text \<open>The witness: handle 0 of a process refers to the console, and is put into raw mode.\<close>

theorem ioctl_set_get_witness:
  "\<forall>P E V G (x :: nat sys) (r :: lregs) u.
     let s = x\<lparr>sfthead := [[demo_sft\<lparr>sft_flags := 0x80d3\<rparr>, zero_sft]], ps_maxfiles := 3, ps_filetab := (\<lambda>_. 0xff)(0 := 0), break_ena := 0\<rparr> in
     \<exists>r1 s1 r2 s2. int21_service P E V G (r\<lparr>AX := 0x4401, BX := 0, DX := 0x20\<rparr>) True u s = Some (r1, False, u, s1) \<and>
       int21_service P E V G (r\<lparr>AX := 0x4400, BX := 0\<rparr>) True u s1 = Some (r2, False, u, s2) \<and>
       DX r2 = (dh_attr P (sft_dcb demo_sft) AND 0xff00) OR 0xa0"
proof (intro allI)
  fix P E V G and x :: "nat sys" and r :: lregs and u
  define s where "s = x\<lparr>sfthead := [[demo_sft\<lparr>sft_flags := 0x80d3\<rparr>, zero_sft]], ps_maxfiles := 3, ps_filetab := (\<lambda>_. 0xff)(0 := 0), break_ena := 0\<rparr>"
  let ?r = "r\<lparr>AX := 0x4401, BX := 0, DX := 0x20\<rparr>" and ?r' = "r\<lparr>AX := 0x4400, BX := 0\<rparr>"
  have h: "get_sft (BX ?r) s = (Some (0, 0), s\<lparr>lpCurSft := Some (0, 0)\<rparr>)" "break_ena s = 0"
    by (simp_all add: s_def get_sft_def get_sft_idx_def idx_to_sft_def idx_to_sft_loc_def demo_sft_def)
  have f: "\<not> sft_flags (sft_at (0, 0) s) AND SFT_FDEVICE = 0" "\<not> hi8 (DX ?r) \<noteq> 0" "sft_dcb (sft_at (0, 0) s) = sft_dcb demo_sft"
    "ucast (0x80 OR lo8 (DX ?r)) = (0xa0 :: u16)" by (simp_all add: s_def hi8_def lo8_def drop_bit_eq_div)
  have a: "AX ?r = 0x4401" "AX ?r' = 0x4400" "BX ?r' = BX ?r" by simp_all
  from ioctl_set_get [OF h a, of P E V G True u True u, unfolded if_not_P [OF f(1)] if_not_P [OF f(2)] f(3,4)]
  obtain r1 c s1 r2 s2 where A: "int21_service P E V G ?r True u s = Some (r1, c, u, s1)" "\<not> c"
    "int21_service P E V G ?r' True u s1 = Some (r2, False, u, s2)" "DX r2 = (dh_attr P (sft_dcb demo_sft) AND 0xff00) OR 0xa0" by blast
  have c: "c = False" using A(2) by simp
  show "let s = x\<lparr>sfthead := [[demo_sft\<lparr>sft_flags := 0x80d3\<rparr>, zero_sft]], ps_maxfiles := 3, ps_filetab := (\<lambda>_. 0xff)(0 := 0), break_ena := 0\<rparr> in
     \<exists>r1 s1 r2 s2. int21_service P E V G ?r True u s = Some (r1, False, u, s1) \<and>
       int21_service P E V G ?r' True u s1 = Some (r2, False, u, s2) \<and> DX r2 = (dh_attr P (sft_dcb demo_sft) AND 0xff00) OR 0xa0"
    unfolding s_def [symmetric] Let_def using A(1) [unfolded c] A(3,4) by blast
qed

section \<open>Absolute writes and the cache\<close>

text \<open>The transfer, and the walks around the ring of the three buffers of the example.\<close>

lemma demo_ram_write:
  assumes "get_dpb 0 s = 1" "dpbs s 1 = demo_dpb" "blkno < 0xffff"
  obtains rq where "dskxfer ram_disk 0 blkno 0x1000 buf n DSKWRITEINT26 s = Some (0, buf, s\<lparr>IoReqHdr := rq, world := (\<lambda>dev un b.
    if dev = 0x700040 \<and> un = 0 \<and> unat (b - blkno) < unat n then sector (\<lambda>i. buf (512 * unat (b - blkno) + i)) else world s dev un b)\<rparr>)"
proof -
  have n: "unat (ucast blkno :: u16) = unat blkno" using assms(3) by (simp add: unat_ucast_u16 word_less_nat_alt)
  then have "unat (ucast (ucast blkno :: u16) :: u32) = unat blkno" by (simp add: unat_ucast_u32)
  then have b: "ucast (ucast blkno :: u16) = blkno" by (simp only: word_unat_eq_iff)
  have c: "ucast blkno \<noteq> (0xffff :: u16)" using n assms(3) by (auto simp: word_less_nat_alt)
  have d: "dskxfer ram_disk 0 blkno 0x1000 buf n DSKWRITEINT26 s = xfer_loop ram_disk demo_dpb blkno 0x1000 n DSKWRITEINT26 buf s"
    using assms(1,2) by (simp add: dskxfer_def)
  define rq where "rq = xfer_request ram_disk demo_dpb C_OUTPUT blkno n (IoReqHdr s)"
  have q: "r_command rq = C_OUTPUT" "r_unit rq = 0" "r_count rq = n" "rq_block rq = blkno"
    using b c assms(3) by (simp_all add: rq_def xfer_request_def ram_disk_def demo_dpb_def rq_block_def Let_def)
  have "execrh ram_disk rq 0x700040 buf (world s) = (rq\<lparr>r_status := S_DONE\<rparr>, buf, \<lambda>dev un b.
    if dev = 0x700040 \<and> un = 0 \<and> unat (b - blkno) < unat n then sector (\<lambda>i. buf (512 * unat (b - blkno) + i)) else world s dev un b)"
    by (simp add: ram_disk_def q fun_eq_iff)
  moreover have "dpb_device demo_dpb = 0x700040" by (simp add: demo_dpb_def)
  ultimately show thesis
    by (intro that [of "rq\<lparr>r_status := S_DONE\<rparr>"], unfold d, subst xfer_loop.simps) (simp add: xfer_command_def xfer_once_def rq_def [symmetric])
qed

lemma ring_loop_step:
  "body bp s = Some (r, s') \<Longrightarrow> b_next (bufs s' bp) = q \<Longrightarrow>
    ring_loop body bp ok s = (if q \<noteq> firstbuf s' then ring_loop body q (ok \<and> r) s' else Some (ok \<and> r, s'))"
  by (subst ring_loop.simps) simp

lemma demo_delete:
  fixes s :: "('a, 'b) kst_scheme"
  assumes "bufs s = bufs demo_cache" "firstbuf s = firstbuf demo_cache" "blkno \<noteq> 5"
  shows "DeleteBlockInBufferCache P blkno blkno 0 XFR_WRITE s = Some (False, s)"
proof -
  have b: "b_next (bufs s 0x100) = 0x314" "b_next (bufs s 0x314) = 0x528" "b_next (bufs s 0x528) = 0x100" "firstbuf s = 0x100"
    "b_flag (bufs s 0x100) = 0" "b_flag (bufs s 0x528) = 0" "b_blkno (bufs s 0x314) = 5"
    using assms(1,2) by (simp_all add: demo_cache_def demo_buf_def)
  have n: "\<not> (blkno \<le> 5 \<and> 5 \<le> blkno)" using assms(3) by auto
  define f :: "u16 \<Rightarrow> ('a, 'b) kst_scheme \<Rightarrow> (bool \<times> ('a, 'b) kst_scheme) option" where "f = (\<lambda>bp s. let b = bufs s bp in if blkno \<le> b_blkno b \<and> b_blkno b \<le> blkno \<and> b_flag b AND BFR_VALID \<noteq> 0 \<and> scast (b_unit b) = (0 :: u16) then
      if XFR_WRITE = XFR_READ then flush1 P bp s else Some (True, upd_buf bp (\<lambda>b. b\<lparr>b_flag := 0\<rparr>) s) else Some (True, s))"
  have f: "f 0x100 s = Some (True, s)" "f 0x314 s = Some (True, s)" "f 0x528 s = Some (True, s)" using b n by (auto simp: f_def Let_def)
  have "ring_loop f 0x528 True s = Some (True, s)" using ring_loop_step [of f, OF f(3) b(3)] b(4) by simp
  then have "ring_loop f 0x314 True s = Some (True, s)" using ring_loop_step [of f, OF f(2) b(2)] b(4) by simp
  then have "ring_loop f 0x100 True s = Some (True, s)" using ring_loop_step [of f, OF f(1) b(1)] b(4) by simp
  then show ?thesis unfolding DeleteBlockInBufferCache_def b(4) f_def [symmetric] by simp
qed

lemma demo_setinvld:
  fixes s :: "('a, 'b) kst_scheme"
  assumes "bufs s = bufs demo_cache" "firstbuf s = firstbuf demo_cache"
  obtains s' where "setinvld 0 s = Some s'" "b_flag (bufs s' 0x314) = 0"
proof -
  let ?z = "\<lambda>p s. upd_buf p (\<lambda>b. b\<lparr>b_flag := 0\<rparr>) s"
  define f :: "u16 \<Rightarrow> ('a, 'b) kst_scheme \<Rightarrow> (bool \<times> ('a, 'b) kst_scheme) option"
    where "f = (\<lambda>bp s. Some (True, if scast (b_unit (bufs s bp)) = (0 :: u16) then ?z bp s else s))"
  have b: "bufs s 0x100 = demo_buf 0x314 0x528 0 0 (\<lambda>_. 0)" "bufs s 0x314 = demo_buf 0x528 0x100 0x68 5 (\<lambda>_. 7)"
    "bufs s 0x528 = demo_buf 0x100 0x314 0 0 (\<lambda>_. 0)" "firstbuf s = 0x100" using assms by (simp_all add: demo_cache_def)
  have f: "f 0x100 s = Some (True, ?z 0x100 s)" "f 0x314 (?z 0x100 s) = Some (True, ?z 0x314 (?z 0x100 s))"
    "f 0x528 (?z 0x314 (?z 0x100 s)) = Some (True, ?z 0x528 (?z 0x314 (?z 0x100 s)))" by (simp_all add: f_def b demo_buf_def)
  have n: "b_next (bufs (?z 0x100 s) 0x100) = 0x314" "b_next (bufs (?z 0x314 (?z 0x100 s)) 0x314) = 0x528"
    "b_next (bufs (?z 0x528 (?z 0x314 (?z 0x100 s))) 0x528) = 0x100" by (simp_all add: b demo_buf_def)
  have "ring_loop f 0x528 True (?z 0x314 (?z 0x100 s)) = Some (True, ?z 0x528 (?z 0x314 (?z 0x100 s)))"
    using ring_loop_step [of f, OF f(3) n(3)] b(4) by simp
  then have "ring_loop f 0x314 True (?z 0x100 s) = Some (True, ?z 0x528 (?z 0x314 (?z 0x100 s)))"
    using ring_loop_step [of f, OF f(2) n(2)] b(4) by simp
  then have "ring_loop f 0x100 True s = Some (True, ?z 0x528 (?z 0x314 (?z 0x100 s)))"
    using ring_loop_step [of f, OF f(1) n(1)] b(4) by simp
  then have "setinvld 0 s = Some (?z 0x528 (?z 0x314 (?z 0x100 s)))" unfolding setinvld_def b(4) f_def [symmetric] by simp
  then show thesis by (rule that) simp
qed

text \<open>
  On the drive of the examples the buffer at 314h holds block 5 with changes that are not on the disk. Interrupt 26h takes only the first of its
  blocks out of the cache: after blocks 4 and 5 are written the buffer is as before, and will be written over the new block later.
\<close>

lemma int26_second_block_stays:
  fixes x :: "ram tty"
  shows "\<exists>r' b h s'. int2526_handler ram_disk 0x26 (r\<lparr>AX := 0, CX := 2, DX := 4, DS := 0x1000\<rparr>) c (\<lambda>_. 1) hs hb (kst.extend demo_cache (kst.more x)) =
      Some (r', False, b, h, s') \<and> bufs s' 0x314 = bufs demo_cache 0x314 \<and> world s' 0x700040 0 5 0 = 1"
proof -
  let ?s = "kst.extend demo_cache (kst.more x)"
  define s where "s = ?s\<lparr>InDOS := InDOS ?s + 1\<rparr>"
  have f: "bufs s = bufs demo_cache" "firstbuf s = firstbuf demo_cache" "get_dpb 0 s = 1" "dpbs s 1 = demo_dpb"
    by (simp_all add: s_def demo_cache_def kst.extend_def get_dpb_def get_cds_def)
  have g: "get_dpb 0 ?s = 1" "dpbs ?s 1 = demo_dpb" "lastdrive ?s = 1" "\<not> ISFAT32 demo_dpb"
    by (simp_all add: demo_cache_def kst.extend_def get_dpb_def get_cds_def ISFAT32_def demo_dpb_def)
  obtain rq where w: "dskxfer ram_disk 0 4 0x1000 (\<lambda>_. 1) 2 DSKWRITEINT26 s = Some (0, \<lambda>_. 1, s\<lparr>IoReqHdr := rq, world := (\<lambda>dev un b.
    if dev = 0x700040 \<and> un = 0 \<and> unat (b - 4) < unat (2 :: u16) then sector (\<lambda>i. 1) else world s dev un b)\<rparr>)"
    by (rule demo_ram_write [OF f(3,4), of 4 "\<lambda>_. 1" 2]) simp_all
  define q where "q = r\<lparr>AX := 0, CX := 2, DX := 4, DS := 0x1000\<rparr>"
  have q: "AX q = 0" "CX q = 2" "DX q = 4" "DS q = 0x1000" by (simp_all add: q_def)
  have z: "ucast ((0 :: u16) AND 0x7f) = (0 :: u8)" "ucast (0 :: u8) = (0 :: u16)" by simp_all
  have "int2526_handler ram_disk 0x26 q c (\<lambda>_. 1) hs hb ?s =
      (do { s2 \<leftarrow> map_option snd (DeleteBlockInBufferCache ram_disk 4 4 0 XFR_WRITE s);
        (st, b', s3) \<leftarrow> dskxfer ram_disk 0 4 0x1000 (\<lambda>_. 1) 2 DSKWRITEINT26 s2;
        s4 \<leftarrow> (if st \<noteq> 0 then setinvld 0 s3 else Some s3);
        Some (q\<lparr>AX := st\<rparr>, st \<noteq> 0, b', hb, s4\<lparr>InDOS := InDOS s4 - 1\<rparr>) })"
    unfolding int2526_handler_def Let_def q z s_def [symmetric] by (simp add: g)
  moreover have "DeleteBlockInBufferCache ram_disk 4 4 0 XFR_WRITE s = Some (False, s)" by (rule demo_delete [OF f(1,2)]) simp
  ultimately show ?thesis unfolding q_def [symmetric] by (simp add: w f sector_def)
qed

text \<open>Function 7305h discards every buffer of the drive after a write that succeeded, changes that are not on the disk included.\<close>

lemma fat32_write_discards:
  fixes x :: "ram ioc"
  shows "\<exists>r' a' s'. int21_fat32 ram_disk E V G (r\<lparr>AX := 0x7305, CX := 0xffff, DX := 1, SI := 1\<rparr>) str
      (a\<lparr>SectorBlock := \<lparr>hs_blkno = 9, hs_nblks = 1, hs_seg = 0x1000\<rparr>\<rparr>) (kst.extend demo_cache (kst.more x)) =
      Some (SUCCESS, r', a', s') \<and> b_flag (bufs s' 0x314) = 0"
proof -
  let ?s = "kst.extend demo_cache (kst.more x)"
  have g: "get_dpb 0 ?s = 1" "dpbs ?s 1 = demo_dpb" "lastdrive ?s = 1" "bufs ?s = bufs demo_cache" "firstbuf ?s = firstbuf demo_cache"
    by (simp_all add: demo_cache_def kst.extend_def get_dpb_def get_cds_def)
  obtain rq wl where w: "dskxfer ram_disk 0 9 0x1000 (sector_buf a) 1 DSKWRITEINT26 ?s = Some (0, sector_buf a, ?s\<lparr>IoReqHdr := rq, world := wl\<rparr>)"
    by (rule demo_ram_write [OF g(1,2), of 9 "sector_buf a" 1]) simp_all
  obtain s' where i: "setinvld 0 (?s\<lparr>IoReqHdr := rq, world := wl\<rparr>) = Some s'" "b_flag (bufs s' 0x314) = 0"
    by (rule demo_setinvld [of "?s\<lparr>IoReqHdr := rq, world := wl\<rparr>"]) (simp_all add: g)
  have "int21_fat32 ram_disk E V G (r\<lparr>AX := 0x7305, CX := 0xffff, DX := 1, SI := 1\<rparr>) str
      (a\<lparr>SectorBlock := \<lparr>hs_blkno = 9, hs_nblks = 1, hs_seg = 0x1000\<rparr>\<rparr>) ?s =
    Some (SUCCESS, r\<lparr>AX := 0, CX := 0xffff, DX := 1, SI := 1\<rparr>, a\<lparr>SectorBlock := \<lparr>hs_blkno = 9, hs_nblks = 1, hs_seg = 0x1000\<rparr>\<rparr>, s')"
    unfolding int21_fat32_def Let_def by (simp add: lo8_def g w i(1))
  then show ?thesis using i(2) by blast
qed

end
