(* ===== verification/Spec2Isabelle.thy ===== *)
theory Spec2Isabelle
  imports CallProps Int21Props
begin

text \<open>
  \<^bold>\<open>Verification of the FreeDOS kernel.\<close> The C sources are under \<^verbatim>\<open>src/ref/freedos/kernel\<close>, in \<^verbatim>\<open>kernel\<close> and \<^verbatim>\<open>hdr\<close>; the
  build is the sixteen-bit one with FAT32 support. This development models the memory manager, the block cache,
  the FAT file system, names, handles, file control blocks, the console with its line editor, device control, the clock, and the
  dispatcher through which programs reach them, and proves what they promise.

  \<^bold>\<open>The program.\<close> Programs call the kernel through interrupts; the dispatcher (\<^verbatim>\<open>inthndlr.c\<close>) calls the routines of
  \<^verbatim>\<open>dosfns.c\<close>, which turn names into qualified names (\<^verbatim>\<open>newstuff.c\<close>, with the tables of \<^verbatim>\<open>nls.c\<close>) and handles into entries of
  the system file table, and pass on to the file system (\<^verbatim>\<open>fatfs.c\<close>, \<^verbatim>\<open>fatdir.c\<close>) for local drives, to a character
  device (\<^verbatim>\<open>chario.c\<close>), or to the network redirector. The file system keeps chains of clusters in the file allocation
  table (\<^verbatim>\<open>fattab.c\<close>), and both reach the disk through the cache of sectors (\<^verbatim>\<open>blockio.c\<close>). Memory is an arena of
  blocks with headers in it (\<^verbatim>\<open>memmgr.c\<close>). Dates and times come from the clock driver (\<^verbatim>\<open>systime.c\<close>, \<^verbatim>\<open>sysclk.c\<close>).

  \<^bold>\<open>Conventions.\<close> Integers of the program are words of its widths, so that they wrap around where the program's do; results
  of type \<^verbatim>\<open>COUNT\<close>, which are a count or a negative error, are integers, and calls that deliver more have a sum type
  with the error on the left. State is passed explicitly, in records that extend each other: \<^verbatim>\<open>mm\<close> (the arena), \<^verbatim>\<open>kst\<close>
  (buffers, parameter blocks of drives, directory structures, the outside world), \<^verbatim>\<open>dos\<close> (file nodes, the system file
  table, requests), \<^verbatim>\<open>job\<close> (the process, names, the arena), \<^verbatim>\<open>tty\<close> (the console and the buffers of the line editor), \<^verbatim>\<open>fcbs\<close> (file control
  blocks), \<^verbatim>\<open>ioc\<close> (device control), \<^verbatim>\<open>sys\<close> (what only the dispatcher uses). Memory of the program that a call reads or writes is an argument
  and a result (the record \<^verbatim>\<open>uargs\<close> in the dispatcher). A routine that may not return (a dereference of a null
  pointer, an endless loop, as when a user answers Retry for ever) has an optional result, and loops
  without a bound are \<^theory_text>\<open>partial_function (option)\<close>: there is no fuel anywhere, and that a routine returns is part of the
  theorems on it. A string is the list of its characters without the terminating zero.

  Code outside of the C sources is a parameter: the record \<^verbatim>\<open>platform\<close> has the call of a device driver (\<^verbatim>\<open>execrh\<close>), the critical
  error handler and the redirector's block interface; \<^verbatim>\<open>media_driver\<close> answers the requests for media changes; \<^verbatim>\<open>services\<close>, \<^verbatim>\<open>remote\<close>
  and \<^verbatim>\<open>net\<close> are SHARE and the network redirector; \<^verbatim>\<open>console\<close> has the break flag of the BIOS and the interrupts for idling and fast output;
  \<^verbatim>\<open>ioctl_driver\<close> and \<^verbatim>\<open>disk_tables\<close> are the generic requests and the table of the disk driver; \<^verbatim>\<open>clock_hw\<close> is the hardware of the clock. What a theorem
  needs of them is a named hypothesis, with a witness that satisfies it: \<^verbatim>\<open>good_disk\<close> (a disk returns what was written),
  \<^verbatim>\<open>stopped_clock\<close> (the hardware keeps the time it is given), \<^verbatim>\<open>redirector_closes\<close> and \<^verbatim>\<open>redirector_opens\<close> (the redirector counts
  references as the kernel does), \<^verbatim>\<open>kbd_driver\<close> (a console driver delivers the keys in order and accepts every character).

  \<^bold>\<open>The theories.\<close>
  \<^item> \<^verbatim>\<open>Prelude\<close>: types, collections of rules, lemmas on words and lists, and the locale \<^verbatim>\<open>step_invariant\<close> for invariants of runs.
  \<^item> \<^verbatim>\<open>MemMgr\<close>, \<^verbatim>\<open>MemSafety\<close>: \<^verbatim>\<open>memmgr.c\<close>. The chain of headers in memory represents a list of blocks (\<^verbatim>\<open>arena\<close>), every
    operation is described on that list, and runs of allocations, releases, resizes and process ends are memory safe
    (an interpretation of \<^verbatim>\<open>step_invariant\<close>).
  \<^item> \<^verbatim>\<open>KState\<close>, \<^verbatim>\<open>BlockIO\<close>, \<^verbatim>\<open>BlockCache\<close>, \<^verbatim>\<open>CacheProps\<close>: \<^verbatim>\<open>blockio.c\<close> and its state. The cache invariant \<^verbatim>\<open>cache_ok\<close> (a ring of
    buffers, none twice for a block, clean ones agree with the disk) makes the cache an array of blocks: the locale
    \<^verbatim>\<open>block_store\<close> states this interface, and the cache is its interpretation.
  \<^item> \<^verbatim>\<open>FatTab\<close>, \<^verbatim>\<open>FatSpec\<close>, \<^verbatim>\<open>FatLink\<close>, \<^verbatim>\<open>FatProps\<close>: \<^verbatim>\<open>fattab.c\<close>. On a \<^verbatim>\<open>volume\<close> the table of 12, 16 or 32 bits is an array of
    entries (locale \<^verbatim>\<open>fat_table\<close>, interpreted by \<^verbatim>\<open>link_fat\<close>), with a true count of free clusters.
  \<^item> \<^verbatim>\<open>DosState\<close>, \<^verbatim>\<open>DirEntry\<close>, \<^verbatim>\<open>FatFile\<close>, \<^verbatim>\<open>Media\<close>, \<^verbatim>\<open>FatDir\<close>, \<^verbatim>\<open>FatOps\<close>: \<^verbatim>\<open>fatfs.c\<close> and \<^verbatim>\<open>fatdir.c\<close>, routine by routine: directory
    entries, chains, reads and writes, media changes, searches, and the operations on files and directories.
  \<^item> \<^verbatim>\<open>FatChain\<close>, \<^verbatim>\<open>FileProps\<close>: chains of clusters in the table; freeing a chain, finding free clusters, and mapping a
    position of a file to a cluster, with the growth of the chain.
  \<^item> \<^verbatim>\<open>DirProps\<close>: names, directory entries, file nodes, stamps, and parameter blocks from boot sectors.
  \<^item> \<^verbatim>\<open>Clock\<close>, \<^verbatim>\<open>ClockProps\<close>: \<^verbatim>\<open>systime.c\<close>, \<^verbatim>\<open>sysclk.c\<close> and the requests of \<^verbatim>\<open>chario.c\<close>; the calendar against its definition,
    and setting and reading back date and time.
  \<^item> \<^verbatim>\<open>Frame\<close>: what the routines of the file system leave alone, proved by a collection of rules \<^verbatim>\<open>frame\<close>.
  \<^item> \<^verbatim>\<open>Truename\<close>, \<^verbatim>\<open>TrueProps\<close>: names of \<^verbatim>\<open>newstuff.c\<close>, \<^verbatim>\<open>nls.c\<close> and \<^verbatim>\<open>dosfns.c\<close>. The loop over the characters of a path equals a
    reference that splits the path, fits each component into 8.3 and resolves dots on a stack of directories.
  \<^item> \<^verbatim>\<open>Handles\<close>, \<^verbatim>\<open>HandleProps\<close>: the calls of \<^verbatim>\<open>dosfns.c\<close>. Handles and reference counts refine an abstract machine
    that counts references (an interpretation of \<^verbatim>\<open>step_invariant\<close> again).
  \<^item> \<^verbatim>\<open>CallProps\<close>: calls across components: free space (table and handles of drives), and the size of the table of
    handles (handles and arena).
  \<^item> \<^verbatim>\<open>Console\<close>, \<^verbatim>\<open>ConsoleProps\<close>, \<^verbatim>\<open>KeyProps\<close>: \<^verbatim>\<open>chario.c\<close>, \<^verbatim>\<open>break.c\<close> and \<^verbatim>\<open>DosRWSft\<close>. What the routines leave alone (the collection \<^verbatim>\<open>lines\<close>), the
    bounds of the line editor, and a typed line in the buffer of the caller.
  \<^item> \<^verbatim>\<open>Fcb\<close>, \<^verbatim>\<open>FcbProps\<close>: \<^verbatim>\<open>fcbfns.c\<close>. Names in blocks are parsed as they are printed, and random block reads.
  \<^item> \<^verbatim>\<open>Ioctl\<close>, \<^verbatim>\<open>Fat32\<close>, \<^verbatim>\<open>Int21\<close>, \<^verbatim>\<open>Int21Props\<close>: \<^verbatim>\<open>ioctl.c\<close> and \<^verbatim>\<open>inthndlr.c\<close>: device control, the functions for FAT32, the dispatcher with its
    entry and its exits, the calls on the stack of the user, and the interrupts 25h and 26h. From the registers of the caller down to the arena, and to the system file table.

  \<^bold>\<open>Hypotheses on the state.\<close> \<^verbatim>\<open>mm_inv\<close> is the well-formed arena. \<^verbatim>\<open>cache_ok\<close> is the cache invariant over a disk that is \<^verbatim>\<open>good_disk\<close>;
  the set \<^verbatim>\<open>M\<close> in it are the blocks that the kernel writes behind the cache, the further copies of the table. \<^verbatim>\<open>vol_ok\<close>
  is a volume with sectors of 512 bytes on it, whose table is large enough. \<^verbatim>\<open>hint_ok\<close> says that the
  place where the search for a free cluster starts is on the volume; without it the search can be endless on a full disk.
  \<^verbatim>\<open>handles_ok\<close> says that counts are numbers of references, and that there are at most 255 entries, as an index has one
  byte.

  \<^verbatim>\<open>con_ready\<close> says that input and output of the process are the console, in cooked mode and without redirection.

  \<^bold>\<open>Not modelled.\<close> Processes (\<^verbatim>\<open>task.c\<close>): loading a program copies images between segments, relocates them and ends in a switch of stacks by
  the assembler, on raw memory that the model does not have. For the same reason the dispatcher lacks the functions that start or end
  a program and those that return pointers into the kernel; the functions for the network, for national languages and for long names are calls of
  code outside. Where the dispatcher is not modelled its result is the one of a call that does not return. The disk driver (\<^verbatim>\<open>dsk.c\<close>) is behind
  the request interface and consists of BIOS calls; packages of \<^verbatim>\<open>nls.c\<close> beyond the tables for upper case are loaded through another program. The code of the
  start (\<^verbatim>\<open>main.c\<close>, \<^verbatim>\<open>config.c\<close>, \<^verbatim>\<open>initdisk.c\<close>, \<^verbatim>\<open>inithma.c\<close>) runs once before any of this. Messages on the console (\<^verbatim>\<open>prf.c\<close>) are left
  out everywhere. The assembler files are not C. FreeCOM, SeaBIOS and the emulator, which is written in another language, are other programs of
  the repository.
\<close>

end
